(* ===== verification/Prelude.thy ===== *)
theory Prelude
  imports Complex_Main
begin

text \<open>
  Shared vocabulary of the development.

  Timestamps and token amounts are Python floats in the program; the model takes them as
  exact rationals, so rounding is not modelled.  Python's insertion-ordered dictionaries
  (\<open>dict\<close>, \<open>collections.OrderedDict\<close>) are association lists whose first element is the
  oldest entry.  Every fallible operation returns a sum, \<open>Inl\<close> for the raised error.

  The theory holds the generic list, dictionary and arg-max lemmas that the components share;
  the collections \<open>dict_simps\<close> and \<open>error_simps\<close> carry them into the component proofs.
\<close>

named_theorems dict_simps \<open>rewrite rules for ordered dictionaries\<close>
named_theorems error_simps \<open>rewrite rules for the error monad\<close>

type_synonym timestamp = rat

section \<open>Ordered dictionaries\<close>

type_synonym ('k, 'v) odict = "('k \<times> 'v) list"

text \<open>\<open>d.get(k)\<close>, \<open>k in d\<close>, \<open>d[k] = v\<close>, \<open>d.pop(k, None)\<close>, \<open>d.move_to_end(k)\<close>.\<close>

abbreviation od_get :: "('k, 'v) odict \<Rightarrow> 'k \<Rightarrow> 'v option" where
  "od_get \<equiv> map_of"

abbreviation od_keys :: "('k, 'v) odict \<Rightarrow> 'k list" where
  "od_keys d \<equiv> map fst d"

fun od_set :: "'k \<Rightarrow> 'v \<Rightarrow> ('k, 'v) odict \<Rightarrow> ('k, 'v) odict" where
  "od_set k v [] = [(k, v)]"
| "od_set k v (p # d) = (if fst p = k then (k, v) # d else p # od_set k v d)"

definition od_pop :: "'k \<Rightarrow> ('k, 'v) odict \<Rightarrow> ('k, 'v) odict" where
  "od_pop k d = filter (\<lambda>p. fst p \<noteq> k) d"

definition od_move_to_end :: "'k \<Rightarrow> ('k, 'v) odict \<Rightarrow> ('k, 'v) odict" where
  "od_move_to_end k d = (case od_get d k of None \<Rightarrow> d | Some v \<Rightarrow> od_pop k d @ [(k, v)])"

text \<open>\<open>while len(d) > n: d.popitem(last=False)\<close>\<close>

fun od_popitems :: "nat \<Rightarrow> ('k, 'v) odict \<Rightarrow> ('k, 'v) odict" where
  "od_popitems n [] = []"
| "od_popitems n (p # d) = (if length (p # d) > n then od_popitems n d else p # d)"

definition od_wf :: "('k, 'v) odict \<Rightarrow> bool" where
  "od_wf d \<longleftrightarrow> distinct (od_keys d)"

lemma od_get_set [simp, dict_simps]: "od_get (od_set k v d) k' = (if k' = k then Some v else od_get d k')"
  by (induction d) auto

lemma set_od_keys_set [simp, dict_simps]: "set (od_keys (od_set k v d)) = insert k (set (od_keys d))"
  by (induction d) auto

lemma od_get_pop [simp, dict_simps]: "od_get (od_pop k d) k' = (if k' = k then None else od_get d k')"
  unfolding od_pop_def by (induction d) auto

lemma set_od_keys_pop [simp, dict_simps]: "set (od_keys (od_pop k d)) = set (od_keys d) - {k}"
  unfolding od_pop_def by auto

lemma od_get_move [simp, dict_simps]: "od_get (od_move_to_end k d) k' = od_get d k'"
proof (cases "od_get d k")
  case None
  then show ?thesis by (simp add: od_move_to_end_def)
next
  case (Some v)
  then show ?thesis
    by (cases "od_get (od_pop k d) k'")
      (auto simp: od_move_to_end_def map_add_def split: if_splits)
qed

lemma set_od_keys_move [simp, dict_simps]: "set (od_keys (od_move_to_end k d)) = set (od_keys d)"
  by (force simp: od_move_to_end_def od_pop_def split: option.splits dest!: map_of_SomeD)

lemma od_wf_Nil [simp]: "od_wf []"
  by (simp add: od_wf_def)

lemma od_wf_set [simp, intro]: "od_wf d \<Longrightarrow> od_wf (od_set k v d)"
  by (induction d) (auto simp: od_wf_def simp flip: set_map)

lemma od_wf_pop [simp, intro]: "od_wf d \<Longrightarrow> od_wf (od_pop k d)"
  by (auto simp: od_wf_def od_pop_def distinct_map_filter)

lemma od_wf_move [simp, intro]: "od_wf d \<Longrightarrow> od_wf (od_move_to_end k d)"
  by (auto simp: od_wf_def od_move_to_end_def od_pop_def distinct_map_filter split: option.splits)

lemma od_popitems_drop: "od_popitems n d = drop (length d - n) d"
  by (induction d) (auto simp: Suc_diff_le)

lemma length_od_popitems [simp]: "length (od_popitems n d) = min n (length d)"
  by (simp add: od_popitems_drop)

lemma od_wf_popitems [simp, intro]: "od_wf d \<Longrightarrow> od_wf (od_popitems n d)"
  by (auto simp: od_wf_def od_popitems_drop drop_map[symmetric])

lemma od_get_suffix:
  assumes "od_wf (xs @ ys)" and "k \<in> set (od_keys ys)"
  shows "od_get ys k = od_get (xs @ ys) k"
proof -
  have "k \<notin> set (od_keys xs)" using assms by (auto simp: od_wf_def)
  then have "od_get xs k = None" by (simp add: map_of_eq_None_iff)
  then show ?thesis by (simp add: map_add_def split: option.splits)
qed

section \<open>Python's max with a key\<close>

text \<open>\<open>max(xs, key=f)\<close> returns the first element with the greatest key and raises on an empty
  sequence, here \<^const>\<open>None\<close>.\<close>

fun py_max_by :: "('a \<Rightarrow> 'b::linorder) \<Rightarrow> 'a list \<Rightarrow> 'a option" where
  "py_max_by f [] = None"
| "py_max_by f (x # xs) =
     (case py_max_by f xs of None \<Rightarrow> Some x
      | Some y \<Rightarrow> if f y > f x then Some y else Some x)"

lemma py_max_by_None [simp]: "py_max_by f xs = None \<longleftrightarrow> xs = []"
  by (cases xs) (auto split: option.splits)

lemma py_max_by_in: "py_max_by f xs = Some m \<Longrightarrow> m \<in> set xs"
  by (induction xs arbitrary: m) (auto split: option.splits if_splits)

lemma py_max_by_ge: "py_max_by f xs = Some m \<Longrightarrow> x \<in> set xs \<Longrightarrow> f x \<le> f m"
  by (induction xs arbitrary: m) (fastforce split: option.splits if_splits)+

lemma py_max_by_ex: "xs \<noteq> [] \<Longrightarrow> \<exists>m. py_max_by f xs = Some m"
  using py_max_by_None by fastforce

section \<open>The error monad\<close>

text \<open>A statement that may raise, followed by the rest of the function.\<close>

definition and_then :: "'e + 'a \<Rightarrow> ('a \<Rightarrow> 'e + 'b) \<Rightarrow> 'e + 'b" where
  "and_then r f = (case r of Inl e \<Rightarrow> Inl e | Inr x \<Rightarrow> f x)"

lemma and_then_simps [simp, error_simps]:
  "and_then (Inl e) f = Inl e"
  "and_then (Inr x) f = f x"
  by (simp_all add: and_then_def)

lemma and_then_Inr [error_simps]: "and_then r f = Inr y \<longleftrightarrow> (\<exists>x. r = Inr x \<and> f x = Inr y)"
  by (cases r) auto

lemma not_isl_Inr: "\<not> isl r \<Longrightarrow> \<exists>x. r = Inr x"
  by (cases r) auto

text \<open>Raise unless the guard holds.\<close>

definition guard :: "bool \<Rightarrow> 'e \<Rightarrow> 'e + unit" where
  "guard b e = (if b then Inr () else Inl e)"

lemma guard_simps [simp, error_simps]:
  "guard True e = Inr ()"
  "guard False e = Inl e"
  by (simp_all add: guard_def)

lemma guard_Inr [error_simps]: "guard b e = Inr u \<longleftrightarrow> b"
  by (simp add: guard_def)

text \<open>A loop whose body may raise: the first error wins.\<close>

fun foldM :: "('a \<Rightarrow> 's \<Rightarrow> 'e + 's) \<Rightarrow> 'a list \<Rightarrow> 's \<Rightarrow> 'e + 's" where
  "foldM f [] s = Inr s"
| "foldM f (x # xs) s = and_then (f x s) (foldM f xs)"

lemma foldM_append: "foldM f (xs @ ys) s = and_then (foldM f xs s) (foldM f ys)"
proof (induction xs arbitrary: s)
  case (Cons x xs)
  then show ?case by (cases "f x s") auto
qed simp

lemma foldM_invariant:
  assumes "foldM f xs s = Inr t" and "P s"
    and "\<And>x s t. x \<in> set xs \<Longrightarrow> P s \<Longrightarrow> f x s = Inr t \<Longrightarrow> P t"
  shows "P t"
  using assms
proof (induction xs arbitrary: s)
  case (Cons x xs)
  from Cons.prems(1) obtain u where u: "f x s = Inr u" and rest: "foldM f xs u = Inr t"
    by (auto simp: and_then_Inr)
  have "P u" using Cons.prems(2,3) u by (meson list.set_intros(1))
  with rest show ?case using Cons.IH Cons.prems(3) by (meson list.set_intros(2))
qed simp

end
