(* ===== verification/Caching.thy ===== *)
theory Caching
  imports Prelude
begin

text \<open>
  \<open>src/include/providers/caching/memory.py\<close>: the in-process LRU cache with expiry, and the
  contract \<open>ttl_cache\<close> that clients of a caching provider rely on (an entry stored with a
  time-to-live is refused a second \<open>nx\<close> store until it expires or is pushed out).
  Each locked call reads the clock once; the reading is the argument \<open>now\<close>.
\<close>

section \<open>The memory cache\<close>

record 'v mem_cache =
  mc_max_size :: nat
  mc_cache :: "(string, 'v \<times> timestamp) odict"

definition mc_init :: "nat \<Rightarrow> 'v mem_cache" where
  "mc_init n = \<lparr>mc_max_size = n, mc_cache = []\<rparr>"

definition mc_prune :: "'v mem_cache \<Rightarrow> 'v mem_cache" where
  "mc_prune c = c\<lparr>mc_cache := od_popitems (mc_max_size c) (mc_cache c)\<rparr>"

text \<open>An expiry of 0 means the entry never expires.\<close>

definition expired :: "timestamp \<Rightarrow> timestamp \<Rightarrow> bool" where
  "expired now expire_at \<longleftrightarrow> expire_at > 0 \<and> expire_at < now"

definition mc_get :: "string \<Rightarrow> timestamp \<Rightarrow> 'v mem_cache \<Rightarrow> 'v option \<times> 'v mem_cache" where
  "mc_get key now c =
     (case od_get (mc_cache c) key of
        None \<Rightarrow> (None, c)
      | Some val \<Rightarrow>
          if expired now (snd val) then (None, c\<lparr>mc_cache := od_pop key (mc_cache c)\<rparr>)
          else (Some (fst val), c\<lparr>mc_cache := od_move_to_end key (mc_cache c)\<rparr>))"

definition mc_exists :: "string \<Rightarrow> timestamp \<Rightarrow> 'v mem_cache \<Rightarrow> bool \<times> 'v mem_cache" where
  "mc_exists key now c =
     (case od_get (mc_cache c) key of
        None \<Rightarrow> (False, c)
      | Some val \<Rightarrow>
          if expired now (snd val) then (False, c\<lparr>mc_cache := od_pop key (mc_cache c)\<rparr>)
          else (True, c))"

text \<open>\<open>time.time() + ttl if ttl else 0.0\<close>: a missing or zero ttl stores without expiry.\<close>

definition expire_time :: "timestamp \<Rightarrow> timestamp option \<Rightarrow> timestamp" where
  "expire_time now ttl = (case ttl of None \<Rightarrow> 0 | Some d \<Rightarrow> if d = 0 then 0 else now + d)"

definition mc_store :: "string \<Rightarrow> 'v \<Rightarrow> timestamp \<Rightarrow> 'v mem_cache \<Rightarrow> 'v mem_cache" where
  "mc_store key v expire_at c =
     mc_prune (c\<lparr>mc_cache := od_move_to_end key (od_set key (v, expire_at) (mc_cache c))\<rparr>)"

definition mc_set ::
  "string \<Rightarrow> 'v \<Rightarrow> timestamp option \<Rightarrow> bool \<Rightarrow> timestamp \<Rightarrow> 'v mem_cache \<Rightarrow> bool \<times> 'v mem_cache" where
  "mc_set key v ttl nx now c =
     (let (present, c1) = (if nx then mc_exists key now c else (False, c))
      in if present then (False, c1) else (True, mc_store key v (expire_time now ttl) c1))"

definition mc_delete :: "string \<Rightarrow> 'v mem_cache \<Rightarrow> 'v mem_cache" where
  "mc_delete key c = c\<lparr>mc_cache := od_pop key (mc_cache c)\<rparr>"

section \<open>Invariant\<close>

definition mc_wf :: "'v mem_cache \<Rightarrow> bool" where
  "mc_wf c \<longleftrightarrow> od_wf (mc_cache c) \<and> length (mc_cache c) \<le> mc_max_size c"

lemma length_od_pop_le [simp]: "length (od_pop k d) \<le> length d"
  by (simp add: od_pop_def)

lemma length_od_move [simp]: "od_wf d \<Longrightarrow> length (od_move_to_end k d) = length d"
proof -
  assume wf: "od_wf d"
  have "length (od_keys (od_move_to_end k d)) = length (od_keys d)"
    using wf od_wf_move[OF wf, of k] set_od_keys_move[of k d]
    unfolding od_wf_def by (metis distinct_card)
  then show ?thesis by simp
qed

lemma mc_init_wf: "mc_wf (mc_init n)"
  by (simp add: mc_init_def mc_wf_def)

lemma mc_get_wf: "mc_wf c \<Longrightarrow> mc_wf (snd (mc_get k t c))"
  by (auto simp: mc_get_def mc_wf_def split: option.splits intro: le_trans[OF length_od_pop_le])

lemma mc_exists_wf: "mc_wf c \<Longrightarrow> mc_wf (snd (mc_exists k t c))"
  by (auto simp: mc_exists_def mc_wf_def split: option.splits intro: le_trans[OF length_od_pop_le])

lemma mc_delete_wf: "mc_wf c \<Longrightarrow> mc_wf (mc_delete k c)"
  by (auto simp: mc_delete_def mc_wf_def intro: le_trans[OF length_od_pop_le])

lemma mc_prune_wf: "od_wf (mc_cache c) \<Longrightarrow> mc_wf (mc_prune c)"
  by (auto simp: mc_prune_def mc_wf_def)

lemma mc_exists_max [simp]: "mc_max_size (snd (mc_exists k t c)) = mc_max_size c"
  by (auto simp: mc_exists_def split: option.splits)

lemma mc_store_max [simp]: "mc_max_size (mc_store k v e c) = mc_max_size c"
  by (simp add: mc_store_def mc_prune_def)

lemma mc_store_wf: "mc_wf c \<Longrightarrow> mc_wf (mc_store k v e c)"
  by (auto simp: mc_store_def mc_wf_def[of c] intro!: mc_prune_wf)

text \<open>Every store is a refusal that only drops an expired entry, or a write to the newest slot.\<close>

lemma mc_set_cases:
  obtains (refused) "mc_set k v ttl nx t c = (False, c)" "nx" "fst (mc_exists k t c)"
  | (stored) c1 where "mc_set k v ttl nx t c = (True, mc_store k v (expire_time t ttl) c1)"
      "c1 = c \<or> c1 = c\<lparr>mc_cache := od_pop k (mc_cache c)\<rparr>"
  by (cases nx; cases "mc_exists k t c")
    (auto simp: mc_set_def mc_exists_def split: option.splits if_splits)

lemma mc_set_max [simp]: "mc_max_size (snd (mc_set k v ttl nx t c)) = mc_max_size c"
  by (cases rule: mc_set_cases[of k v ttl nx t c]) auto

lemma mc_set_wf: "mc_wf c \<Longrightarrow> mc_wf (snd (mc_set k v ttl nx t c))"
  by (cases rule: mc_set_cases[of k v ttl nx t c])
    (auto intro!: mc_store_wf mc_delete_wf[unfolded mc_delete_def])

section \<open>How long an entry stays\<close>

text \<open>\<open>newer k d\<close> counts the entries used after \<open>k\<close>.  An entry is pushed out only when that
  count reaches the size of the cache.\<close>

definition newer :: "'k \<Rightarrow> ('k, 'v) odict \<Rightarrow> nat" where
  "newer k d = length (takeWhile (\<lambda>p. fst p \<noteq> k) (rev d))"

definition mc_held :: "string \<Rightarrow> timestamp \<Rightarrow> nat \<Rightarrow> 'v mem_cache \<Rightarrow> bool" where
  "mc_held k e n c \<longleftrightarrow> (\<exists>v. od_get (mc_cache c) k = Some (v, e)) \<and>
     newer k (mc_cache c) + n < mc_max_size c"

lemma od_move_set: "od_wf d \<Longrightarrow> od_move_to_end k (od_set k v d) = od_pop k d @ [(k, v)]"
proof -
  assume "od_wf d"
  have "od_pop k (od_set k v d) = od_pop k d"
    by (induction d) (auto simp: od_pop_def)
  then show ?thesis by (simp add: od_move_to_end_def)
qed

lemma newer_snoc: "newer k (d @ [p]) = (if fst p = k then 0 else Suc (newer k d))"
  by (simp add: newer_def)

lemma newer_pop: "k' \<noteq> k \<Longrightarrow> newer k (od_pop k' d) \<le> newer k d"
  by (induction d rule: rev_induct) (auto simp: newer_snoc od_pop_def newer_def)

lemma newer_less: "k \<in> set (od_keys d) \<Longrightarrow> newer k d < length d"
  unfolding newer_def
  by (induction d rule: rev_induct) auto

lemma newer_popitems:
  assumes "k \<in> set (od_keys d)" "newer k d < n"
  shows "k \<in> set (od_keys (od_popitems n d)) \<and> newer k (od_popitems n d) = newer k d"
  using assms
proof (induction d)
  case (Cons p d)
  show ?case
  proof (cases "length (p # d) > n")
    case True
    have nk: "k \<in> set (od_keys d)"
    proof (rule ccontr)
      assume "k \<notin> set (od_keys d)"
      then have "\<forall>q \<in> set (rev d). fst q \<noteq> k" by auto
      then have "newer k (p # d) \<ge> length d"
        unfolding newer_def by (auto simp: takeWhile_append2 takeWhile_append)
      with Cons.prems True show False by simp
    qed
    then have "\<exists>q \<in> set (rev d). \<not> (fst q \<noteq> k)" by auto
    then have "newer k (p # d) = newer k d"
      unfolding newer_def by (auto simp: takeWhile_append1)
    with Cons.IH Cons.prems nk True show ?thesis by simp
  qed (use Cons in simp)
qed simp

lemma mc_held_store_same:
  assumes "mc_wf c" "n < mc_max_size c"
  shows "mc_held k e n (mc_store k v e c)"
proof -
  let ?d = "od_pop k (mc_cache c) @ [(k, v, e)]"
  have wf: "od_wf (mc_cache c)" using assms(1) by (simp add: mc_wf_def)
  have store: "mc_cache (mc_store k v e c) = od_popitems (mc_max_size c) ?d"
    using wf by (simp add: mc_store_def mc_prune_def od_move_set)
  have z: "newer k ?d = 0" by (simp add: newer_snoc)
  with newer_popitems[of k ?d "mc_max_size c"] assms(2)
  have inp: "k \<in> set (od_keys (od_popitems (mc_max_size c) ?d))"
    and nw: "newer k (od_popitems (mc_max_size c) ?d) = 0" by auto
  have wfd: "od_wf ?d" using wf od_wf_move[OF od_wf_set[OF wf]] by (metis od_move_set)
  obtain xs where xs: "?d = xs @ od_popitems (mc_max_size c) ?d"
    by (metis append_take_drop_id od_popitems_drop)
  have "od_get (od_popitems (mc_max_size c) ?d) k = od_get ?d k"
    using od_get_suffix[of xs "od_popitems (mc_max_size c) ?d" k] wfd inp xs by metis
  then show ?thesis using store nw assms(2) by (simp add: mc_held_def map_add_def)
qed

lemma mc_held_store_other:
  assumes "mc_wf c" "mc_held k e (Suc n) c" "k' \<noteq> k"
  shows "mc_held k e n (mc_store k' v e' c)"
proof -
  let ?d = "od_pop k' (mc_cache c) @ [(k', v, e')]"
  have wf: "od_wf (mc_cache c)" using assms(1) by (simp add: mc_wf_def)
  have store: "mc_cache (mc_store k' v e' c) = od_popitems (mc_max_size c) ?d"
    using wf by (simp add: mc_store_def mc_prune_def od_move_set)
  from assms(2) obtain w where w: "od_get (mc_cache c) k = Some (w, e)"
    and nw: "newer k (mc_cache c) + Suc n < mc_max_size c"
    by (auto simp: mc_held_def)
  have getd: "od_get ?d k = Some (w, e)" using w assms(3) by (simp add: map_add_def)
  then have ink: "k \<in> set (od_keys ?d)" by (force dest: map_of_SomeD)
  have le: "newer k ?d \<le> Suc (newer k (mc_cache c))"
    using newer_pop[OF assms(3)] assms(3) by (simp add: newer_snoc)
  with newer_popitems[OF ink, of "mc_max_size c"] nw
  have inp: "k \<in> set (od_keys (od_popitems (mc_max_size c) ?d))"
    and nw': "newer k (od_popitems (mc_max_size c) ?d) = newer k ?d" by auto
  have wfd: "od_wf ?d" using wf od_wf_move[OF od_wf_set[OF wf]] by (metis od_move_set)
  obtain xs where xs: "?d = xs @ od_popitems (mc_max_size c) ?d"
    by (metis append_take_drop_id od_popitems_drop)
  have "od_get (od_popitems (mc_max_size c) ?d) k = od_get ?d k"
    using od_get_suffix[of xs "od_popitems (mc_max_size c) ?d" k] wfd inp xs by metis
  then show ?thesis using store nw' le nw getd by (simp add: mc_held_def)
qed

lemma mc_held_pop: "k' \<noteq> k \<Longrightarrow> mc_held k e n c \<Longrightarrow> mc_held k e n (c\<lparr>mc_cache := od_pop k' (mc_cache c)\<rparr>)"
  using newer_pop[of k' k "mc_cache c"] by (auto simp: mc_held_def)

lemma mc_held_mono: "mc_held k e m c \<Longrightarrow> n \<le> m \<Longrightarrow> mc_held k e n c"
  by (auto simp: mc_held_def)

lemma mc_set_held_same:
  assumes "mc_wf c" "fst (mc_set k v ttl nx t c)" "n < mc_max_size c"
  shows "mc_held k (expire_time t ttl) n (snd (mc_set k v ttl nx t c))"
proof (cases rule: mc_set_cases[of k v ttl nx t c])
  case (stored c1)
  have "mc_wf c1" using stored(2) assms(1) mc_delete_wf[OF assms(1), of k]
    by (auto simp: mc_delete_def)
  moreover have "n < mc_max_size c1" using stored(2) assms(3) by auto
  ultimately show ?thesis using stored(1) mc_held_store_same by simp
qed (use assms in simp)

lemma mc_set_held_other:
  assumes "mc_wf c" "mc_held k e (Suc n) c" "k' \<noteq> k"
  shows "mc_held k e n (snd (mc_set k' v ttl nx t c))"
proof (cases rule: mc_set_cases[of k' v ttl nx t c])
  case refused
  then show ?thesis using mc_held_mono[OF assms(2), of n] by simp
next
  case (stored c1)
  have "mc_wf c1" using stored(2) assms(1) mc_delete_wf[OF assms(1), of k']
    by (auto simp: mc_delete_def)
  moreover have "mc_held k e (Suc n) c1"
    using stored(2) assms(2) mc_held_pop[OF assms(3) assms(2)] by auto
  ultimately show ?thesis using stored(1) mc_held_store_other assms(3) by simp
qed

lemma mc_set_refused:
  "mc_held k e n c \<Longrightarrow> t \<le> e \<or> e = 0 \<Longrightarrow> mc_set k v ttl True t c = (False, c)"
  by (auto simp: mc_held_def mc_set_def mc_exists_def expired_def)

section \<open>The contract of a cache with expiry\<close>

text \<open>\<open>held k e n c\<close>: key \<open>k\<close> is stored with expiry \<open>e\<close> (0: none) and survives \<open>n\<close> more
  stores under other keys.\<close>

locale ttl_cache =
  fixes cset :: "string \<Rightarrow> 'v \<Rightarrow> timestamp option \<Rightarrow> bool \<Rightarrow> timestamp \<Rightarrow> 'c \<Rightarrow> bool \<times> 'c"
    and held :: "string \<Rightarrow> timestamp \<Rightarrow> nat \<Rightarrow> 'c \<Rightarrow> bool"
    and wf :: "'c \<Rightarrow> bool"
    and capacity :: "'c \<Rightarrow> nat"
  assumes cset_wf: "wf c \<Longrightarrow> wf (snd (cset k v ttl nx t c))"
    and cset_capacity: "capacity (snd (cset k v ttl nx t c)) = capacity c"
    and cset_same: "wf c \<Longrightarrow> fst (cset k v ttl nx t c) \<Longrightarrow> n < capacity c \<Longrightarrow>
      held k (expire_time t ttl) n (snd (cset k v ttl nx t c))"
    and cset_other: "wf c \<Longrightarrow> held k e (Suc n) c \<Longrightarrow> k' \<noteq> k \<Longrightarrow>
      held k e n (snd (cset k' v ttl nx t c))"
    and cset_refused: "held k e n c \<Longrightarrow> t \<le> e \<or> e = 0 \<Longrightarrow> cset k v ttl True t c = (False, c)"
    and held_mono: "held k e m c \<Longrightarrow> n \<le> m \<Longrightarrow> held k e n c"

interpretation mem: ttl_cache mc_set mc_held mc_wf mc_max_size
  by unfold_locales
    (auto intro: mc_set_wf mc_set_held_same mc_set_held_other mc_held_mono simp: mc_set_refused)

end
