(* ===== verification/Replay.thy ===== *)
theory Replay
  imports Caching
begin

text \<open>
  \<open>src/include/domains/security/guards/replay.py\<close>: the nonce store.  The caching provider is
  the parameter \<open>cset\<close>; its clock reading \<open>clk\<close> is separate from the \<open>now\<close> that
  \<open>validate_and_store\<close> checks the request timestamp against, as in the source.
\<close>

datatype pyfloat = Fin rat | PosInf | NegInf | NaN

datatype replay_error =
    NotFinite \<comment> \<open>Request timestamp is not a finite number\<close>
  | OutsideWindow \<comment> \<open>Request timestamp is outside the acceptable time window\<close>
  | DuplicateNonce \<comment> \<open>Duplicate nonce detected: possible replay attack\<close>

definition nonce_key :: "string \<Rightarrow> string" where
  "nonce_key nonce = ''nonce:'' @ nonce"

text \<open>The result \<^const>\<open>None\<close> is the source's \<open>None\<close>: the request is accepted.\<close>

definition validate_and_store ::
  "(string \<Rightarrow> timestamp \<Rightarrow> timestamp option \<Rightarrow> bool \<Rightarrow> timestamp \<Rightarrow> 'c \<Rightarrow> bool \<times> 'c) \<Rightarrow>
   timestamp \<Rightarrow> string \<Rightarrow> pyfloat \<Rightarrow> timestamp \<Rightarrow> timestamp \<Rightarrow> 'c \<Rightarrow> replay_error option \<times> 'c" where
  "validate_and_store cset time_window nonce ts now clk c =
     (case ts of
        Fin timestamp \<Rightarrow>
          if \<bar>now - timestamp\<bar> > time_window then (Some OutsideWindow, c)
          else (let (success, c') =
                  cset (nonce_key nonce) now (Some (time_window * 2)) True clk c
                in if success then (None, c') else (Some DuplicateNonce, c'))
      | _ \<Rightarrow> (Some NotFinite, c))"

text \<open>A sequence of requests served one after the other.\<close>

record nonce_request =
  rq_nonce :: string
  rq_ts :: pyfloat
  rq_now :: timestamp
  rq_clk :: timestamp

definition serve ::
  "(string \<Rightarrow> timestamp \<Rightarrow> timestamp option \<Rightarrow> bool \<Rightarrow> timestamp \<Rightarrow> 'c \<Rightarrow> bool \<times> 'c) \<Rightarrow>
   timestamp \<Rightarrow> nonce_request \<Rightarrow> 'c \<Rightarrow> 'c" where
  "serve cset w r c = snd (validate_and_store cset w (rq_nonce r) (rq_ts r) (rq_now r) (rq_clk r) c)"

definition serve_all ::
  "(string \<Rightarrow> timestamp \<Rightarrow> timestamp option \<Rightarrow> bool \<Rightarrow> timestamp \<Rightarrow> 'c \<Rightarrow> bool \<times> 'c) \<Rightarrow>
   timestamp \<Rightarrow> nonce_request list \<Rightarrow> 'c \<Rightarrow> 'c" where
  "serve_all cset w rs c = fold (serve cset w) rs c"

lemma nonce_key_inj [simp]: "nonce_key a = nonce_key b \<longleftrightarrow> a = b"
  by (simp add: nonce_key_def)

lemma validate_cases:
  obtains (rejected) e where "validate_and_store cset w n ts now clk c = (Some e, c)"
      "e = NotFinite \<or> e = OutsideWindow"
  | (stored) q where "ts = Fin q" "\<bar>now - q\<bar> \<le> w"
      "validate_and_store cset w n ts now clk c =
        (if fst (cset (nonce_key n) now (Some (w * 2)) True clk c) then None else Some DuplicateNonce,
         snd (cset (nonce_key n) now (Some (w * 2)) True clk c))"
proof (cases "\<exists>q. ts = Fin q \<and> \<bar>now - q\<bar> \<le> w")
  case True
  then obtain q where "ts = Fin q" "\<bar>now - q\<bar> \<le> w" by blast
  then show ?thesis by (intro stored) (auto simp: validate_and_store_def split: prod.splits)
next
  case False
  then show ?thesis
    by (cases ts) (auto simp: validate_and_store_def not_le intro: rejected)
qed

locale nonce_cache = ttl_cache cset held wf capacity
  for cset :: "string \<Rightarrow> timestamp \<Rightarrow> timestamp option \<Rightarrow> bool \<Rightarrow> timestamp \<Rightarrow> 'c \<Rightarrow> bool \<times> 'c"
    and held :: "string \<Rightarrow> timestamp \<Rightarrow> nat \<Rightarrow> 'c \<Rightarrow> bool"
    and wf :: "'c \<Rightarrow> bool"
    and capacity :: "'c \<Rightarrow> nat"
begin

lemma serve_wf: "wf c \<Longrightarrow> wf (serve cset w r c)"
  by (cases rule: validate_cases[of cset w "rq_nonce r" "rq_ts r" "rq_now r" "rq_clk r" c])
    (auto simp: serve_def intro: cset_wf)

lemma serve_held:
  assumes "wf c" "held (nonce_key n) e (Suc m) c" "rq_clk r \<le> e"
  shows "held (nonce_key n) e m (serve cset w r c)"
proof (cases rule: validate_cases[of cset w "rq_nonce r" "rq_ts r" "rq_now r" "rq_clk r" c])
  case rejected
  then show ?thesis using held_mono[OF assms(2), of m] by (simp add: serve_def)
next
  case (stored q)
  show ?thesis
  proof (cases "rq_nonce r = n")
    case True
    then show ?thesis
      using stored(3) cset_refused[OF assms(2)] assms(3) held_mono[OF assms(2), of m]
      by (simp add: serve_def)
  next
    case False
    then show ?thesis using stored(3) cset_other[OF assms(1,2)] by (simp add: serve_def)
  qed
qed

lemma serve_all_held:
  assumes "wf c" "held (nonce_key n) e (length rs + m) c" "\<forall>r \<in> set rs. rq_clk r \<le> e"
  shows "held (nonce_key n) e m (serve_all cset w rs c)"
  using assms
proof (induction rs arbitrary: c)
  case (Cons r rs)
  then show ?case using serve_held[of c n e "length rs + m" r w] serve_wf[of c w r]
    by (simp add: serve_all_def)
qed (simp add: serve_all_def)

lemma replay_rejected:
  assumes "wf c" "0 < w"
    and first: "validate_and_store cset w n (Fin ts) now clk c = (None, c1)"
    and traffic: "length rs < capacity c" "\<forall>r \<in> set rs. rq_clk r \<le> clk'"
    and clocks: "clk' - now' \<le> clk - now"
  shows "fst (validate_and_store cset w n (Fin ts) now' clk' (serve_all cset w rs c1)) \<noteq> None"
proof (cases "\<bar>now' - ts\<bar> \<le> w")
  case False
  then show ?thesis by (simp add: validate_and_store_def)
next
  case True
  from first have win: "\<bar>now - ts\<bar> \<le> w"
    and ok: "fst (cset (nonce_key n) now (Some (w * 2)) True clk c)"
    and c1: "c1 = snd (cset (nonce_key n) now (Some (w * 2)) True clk c)"
    by (auto simp: validate_and_store_def split: if_splits prod.splits)
  let ?e = "clk + w * 2"
  have late: "clk' \<le> ?e" using True win clocks by (simp add: abs_le_iff)
  have "held (nonce_key n) ?e (length rs) c1"
    using cset_same[OF assms(1) ok traffic(1)] c1 assms(2) by (simp add: expire_time_def)
  moreover have "\<forall>r \<in> set rs. rq_clk r \<le> ?e" using traffic(2) late by auto
  moreover have "wf c1" using c1 cset_wf[OF assms(1)] by simp
  ultimately have "held (nonce_key n) ?e 0 (serve_all cset w rs c1)"
    using serve_all_held[of c1 n ?e rs 0 w] by simp
  from cset_refused[OF this, of clk'] late show ?thesis
    by (simp add: validate_and_store_def)
qed

end

interpretation mem_nonce: nonce_cache mc_set mc_held mc_wf mc_max_size
  by unfold_locales

section \<open>Properties\<close>

text \<open>A nonce accepted with timestamp \<open>ts\<close> is rejected when the same signed request is
  presented again: whatever other requests were served in between (fewer than the size of the
  cache, clocks not running backwards), the second presentation is either outside the window
  or a duplicate.  The clock hypothesis says the second request does not linger longer between
  its two clock readings than the first did.\<close>

lemma nonce_replay_rejected:
  assumes "mc_wf c" "0 < w"
    and "validate_and_store mc_set w n (Fin ts) now clk c = (None, c1)"
    and "length rs < mc_max_size c" "\<forall>r \<in> set rs. rq_clk r \<le> clk'"
    and "clk' - now' \<le> clk - now"
  shows "fst (validate_and_store mc_set w n (Fin ts) now' clk' (serve_all mc_set w rs c1)) \<noteq> None"
  using assms by (rule mem_nonce.replay_rejected)

definition other_request :: "string \<Rightarrow> timestamp \<Rightarrow> nonce_request" where
  "other_request n t = \<lparr>rq_nonce = n, rq_ts = Fin t, rq_now = t, rq_clk = t\<rparr>"

lemmas nonce_eval = validate_and_store_def serve_all_def serve_def other_request_def mc_init_def
  nonce_key_def mc_set_def mc_exists_def mc_store_def mc_prune_def expire_time_def expired_def
  od_move_to_end_def od_pop_def

text \<open>The bound of the previous theorem is exact: once as many other nonces as the cache holds have been
  served, the accepted nonce has been pushed out and the identical request is accepted again
  while its timestamp is still inside the window.\<close>

lemma nonce_replay_after_eviction:
  "\<exists>(c :: timestamp mem_cache) w n ts now now' rs c1.
     mc_wf c \<and> 0 < w \<and> length rs = mc_max_size c \<and>
     validate_and_store mc_set w n (Fin ts) now now c = (None, c1) \<and>
     list_all (\<lambda>r. now \<le> rq_clk r \<and> rq_clk r \<le> now') rs \<and>
     fst (validate_and_store mc_set w n (Fin ts) now' now' (serve_all mc_set w rs c1)) = None"
proof -
  let ?c = "mc_init 2 :: timestamp mem_cache"
  let ?rs = "[other_request ''a'' 105, other_request ''b'' 106]"
  let ?c1 = "snd (validate_and_store mc_set 30 ''n'' (Fin 100) 101 101 ?c)"
  have "mc_wf ?c \<and> (0::rat) < 30 \<and> length ?rs = mc_max_size ?c \<and>
     validate_and_store mc_set 30 ''n'' (Fin 100) 101 101 ?c = (None, ?c1) \<and>
     list_all (\<lambda>r. 101 \<le> rq_clk r \<and> rq_clk r \<le> 110) ?rs \<and>
     fst (validate_and_store mc_set 30 ''n'' (Fin 100) 110 110 (serve_all mc_set 30 ?rs ?c1)) = None"
    by (simp add: mc_init_wf) (simp add: nonce_eval)
  then show ?thesis by blast
qed

end
