(* ===== verification/RateLimits.thy ===== *)
theory RateLimits
  imports Prelude
begin

text \<open>
  Token buckets: the database-backed bucket of
  \<open>src/include/domains/security/guards/rate_limits.py\<close>, the in-process provider of
  \<open>src/include/providers/rate_limits/memory.py\<close>, and the request gate of
  \<open>src/include/domains/security/guards/request_rate_control.py\<close>.
  The locale \<open>token_bucket\<close> is their common contract; the bound on what a bucket grants is
  proved once in it and used for both implementations.
\<close>

section \<open>The database bucket\<close>

record rate_bucket =
  rb_namespace :: string
  rb_scope :: string
  rb_identity :: string
  rb_tokens :: rat
  rb_last_refill_at :: timestamp
  rb_denial_count :: nat
  rb_last_denied_at :: "timestamp option"
  rb_last_attempt :: timestamp

record bucket_decision =
  bd_allowed :: bool
  bd_scope :: string
  bd_effective_limit :: int
  bd_retry_after_seconds :: int

type_synonym bucket_key = "string \<times> string \<times> string"
type_synonym bucket_table = "(bucket_key, rate_bucket) odict"

definition bucket_key :: "rate_bucket \<Rightarrow> bucket_key" where
  "bucket_key row = (rb_namespace row, rb_scope row, rb_identity row)"

text \<open>\<open>rival\<close> is the row another transaction inserts between the \<open>SELECT\<close> and the
  nested \<open>INSERT\<close>, if any: the insert then raises \<open>IntegrityError\<close> and the row is
  selected again.\<close>

definition lock_rate_bucket ::
  "rate_bucket option \<Rightarrow> bucket_table \<Rightarrow> string \<Rightarrow> string \<Rightarrow> string \<Rightarrow> timestamp \<Rightarrow> int \<Rightarrow>
   rate_bucket \<times> bucket_table" where
  "lock_rate_bucket rival tab namespace scope identity now capacity =
     (case od_get tab (namespace, scope, identity) of
        Some row \<Rightarrow> (row, tab)
      | None \<Rightarrow>
          (case rival of
             Some row \<Rightarrow> (row, od_set (namespace, scope, identity) row tab)
           | None \<Rightarrow>
               (let row = \<lparr>rb_namespace = namespace, rb_scope = scope, rb_identity = identity,
                           rb_tokens = of_int capacity, rb_last_refill_at = now,
                           rb_denial_count = 0, rb_last_denied_at = None, rb_last_attempt = now\<rparr>
                in (row, od_set (namespace, scope, identity) row tab))))"

definition touch_rate_bucket :: "rate_bucket \<Rightarrow> timestamp \<Rightarrow> rate_bucket" where
  "touch_rate_bucket row now = row\<lparr>rb_last_attempt := now\<rparr>"

definition refresh_denials :: "rate_bucket \<Rightarrow> timestamp \<Rightarrow> int \<Rightarrow> rate_bucket" where
  "refresh_denials row now window_seconds =
     (case rb_last_denied_at row of
        None \<Rightarrow> row\<lparr>rb_denial_count := 0, rb_last_denied_at := None\<rparr>
      | Some t \<Rightarrow> if now - t > of_int window_seconds
                  then row\<lparr>rb_denial_count := 0, rb_last_denied_at := None\<rparr> else row)"

definition record_denial :: "rate_bucket \<Rightarrow> timestamp \<Rightarrow> int \<Rightarrow> rate_bucket" where
  "record_denial row now window_seconds =
     (let row = refresh_denials row now window_seconds
      in row\<lparr>rb_denial_count := rb_denial_count row + 1, rb_last_denied_at := Some now,
             rb_last_attempt := now\<rparr>)"

definition consume_bucket ::
  "rate_bucket \<Rightarrow> timestamp \<Rightarrow> int \<Rightarrow> int \<Rightarrow> int \<Rightarrow> int \<Rightarrow> bucket_decision \<times> rate_bucket" where
  "consume_bucket row now capacity refill_tokens refill_period_seconds cost =
     (let refill_rate = of_int refill_tokens / of_int refill_period_seconds;
          row = (if now > rb_last_refill_at row
                 then row\<lparr>rb_tokens := min (of_int capacity)
                            (rb_tokens row + (now - rb_last_refill_at row) * refill_rate),
                          rb_last_refill_at := now\<rparr>
                 else row);
          row = row\<lparr>rb_tokens := min (rb_tokens row) (of_int capacity), rb_last_attempt := now\<rparr>;
          effective_limit = max 1 (refill_tokens div cost)
      in if rb_tokens row \<ge> of_int cost
         then (\<lparr>bd_allowed = True, bd_scope = rb_scope row,
                bd_effective_limit = effective_limit, bd_retry_after_seconds = 0\<rparr>,
               row\<lparr>rb_tokens := rb_tokens row - of_int cost\<rparr>)
         else (\<lparr>bd_allowed = False, bd_scope = rb_scope row,
                bd_effective_limit = effective_limit,
                bd_retry_after_seconds = max 1 \<lceil>(of_int cost - rb_tokens row) / refill_rate\<rceil>\<rparr>,
               row))"

type_synonym ip_account_table = "(string \<times> string \<times> string, timestamp) odict"

text \<open>\<open>RiskIPAccount\<close> rows, keyed by namespace, address and user, hold \<open>last_attempt\<close>; both the
  ORM path and the \<open>IntegrityError\<close> path of the source end in this row.\<close>

definition record_ip_account ::
  "ip_account_table \<Rightarrow> string \<Rightarrow> string \<Rightarrow> string \<Rightarrow> timestamp \<Rightarrow> ip_account_table" where
  "record_ip_account tab namespace ip_address user_id now =
     od_set (namespace, ip_address, user_id) now tab"

definition count_ip_accounts ::
  "ip_account_table \<Rightarrow> string \<Rightarrow> string \<Rightarrow> timestamp \<Rightarrow> nat" where
  "count_ip_accounts tab namespace ip_address cutoff =
     length (filter (\<lambda>((ns, ip, u), t). ns = namespace \<and> ip = ip_address \<and> t \<ge> cutoff) tab)"

record cleanup_counts =
  cc_ip_accounts :: nat
  cc_buckets :: nat

definition cleanup_rate_limit_state ::
  "ip_account_table \<Rightarrow> bucket_table \<Rightarrow> string \<Rightarrow> timestamp \<Rightarrow> timestamp \<Rightarrow>
   cleanup_counts \<times> ip_account_table \<times> bucket_table" where
  "cleanup_rate_limit_state ips tab namespace ip_account_cutoff bucket_cutoff =
     (let old_ip = (\<lambda>((ns, ip, u), t). ns = namespace \<and> t < ip_account_cutoff);
          old_bucket = (\<lambda>((ns, sc, i), row). ns = namespace \<and> rb_last_attempt row < bucket_cutoff)
      in (\<lparr>cc_ip_accounts = length (filter old_ip ips),
           cc_buckets = length (filter old_bucket tab)\<rparr>,
          filter (Not \<circ> old_ip) ips, filter (Not \<circ> old_bucket) tab))"

section \<open>The in-process provider\<close>

record rate_limit_charge =
  ch_key :: string
  ch_scope :: string
  ch_capacity :: int
  ch_refill_tokens :: int
  ch_refill_period_seconds :: int
  ch_cost :: int

record rate_limit_decision =
  rd_allowed :: bool
  rd_scope :: "string option"
  rd_effective_limit :: "int option"
  rd_retry_after_seconds :: int

record bucket_state =
  bs_tokens :: rat
  bs_last_refill_at :: timestamp
  bs_last_seen_at :: timestamp

record mem_rate_limits =
  rl_max_entries :: nat
  rl_buckets :: "(string, bucket_state) odict"

definition allowed_decision :: rate_limit_decision where
  "allowed_decision = \<lparr>rd_allowed = True, rd_scope = None, rd_effective_limit = None,
                       rd_retry_after_seconds = 0\<rparr>"

definition charge_rate :: "rate_limit_charge \<Rightarrow> rat" where
  "charge_rate charge = of_int (ch_refill_tokens charge) / of_int (ch_refill_period_seconds charge)"

text \<open>The body of the charge loop up to the comparison: create or refill the bucket.\<close>

definition refill_state ::
  "bucket_state option \<Rightarrow> rate_limit_charge \<Rightarrow> timestamp \<Rightarrow> bucket_state" where
  "refill_state found charge now =
     (let state = (case found of
            None \<Rightarrow> \<lparr>bs_tokens = of_int (ch_capacity charge), bs_last_refill_at = now,
                      bs_last_seen_at = now\<rparr>
          | Some state \<Rightarrow>
              if now > bs_last_refill_at state
              then state\<lparr>bs_tokens := min (of_int (ch_capacity charge))
                           (bs_tokens state + (now - bs_last_refill_at state) * charge_rate charge),
                         bs_last_refill_at := now\<rparr>
              else state)
      in state\<lparr>bs_tokens := min (bs_tokens state) (of_int (ch_capacity charge)),
               bs_last_seen_at := now\<rparr>)"

text \<open>One charge against its bucket: granted or not, and the bucket afterwards.\<close>

definition charge_bucket ::
  "bucket_state option \<Rightarrow> rate_limit_charge \<Rightarrow> timestamp \<Rightarrow> bool \<times> bucket_state" where
  "charge_bucket found charge now =
     (let state = refill_state found charge now
      in if bs_tokens state \<ge> of_int (ch_cost charge)
         then (True, state\<lparr>bs_tokens := bs_tokens state - of_int (ch_cost charge)\<rparr>)
         else (False, state))"

definition charge_retry_after :: "rate_limit_charge \<Rightarrow> bucket_state \<Rightarrow> int" where
  "charge_retry_after charge state =
     max 1 \<lceil>(of_int (ch_cost charge) - bs_tokens state) / charge_rate charge\<rceil>"

definition charge_step ::
  "timestamp \<Rightarrow> rate_limit_charge \<Rightarrow>
   (string, bucket_state) odict \<times> (rate_limit_charge \<times> int) list \<Rightarrow>
   (string, bucket_state) odict \<times> (rate_limit_charge \<times> int) list" where
  "charge_step now charge = (\<lambda>(buckets, denied).
     (let (granted, state) = charge_bucket (od_get buckets (ch_key charge)) charge now
      in (od_move_to_end (ch_key charge) (od_set (ch_key charge) state buckets),
          if granted then denied else denied @ [(charge, charge_retry_after charge state)])))"

definition drop_stale ::
  "timestamp \<Rightarrow> (string, bucket_state) odict \<Rightarrow> (string, bucket_state) odict" where
  "drop_stale stale_before = dropWhile (\<lambda>p. bs_last_seen_at (snd p) < stale_before)"

definition consume ::
  "rate_limit_charge list \<Rightarrow> int \<Rightarrow> timestamp \<Rightarrow> mem_rate_limits \<Rightarrow>
   rate_limit_decision \<times> mem_rate_limits" where
  "consume charges retention_seconds now st =
     (if charges = [] then (allowed_decision, st)
      else (let buckets = drop_stale (now - of_int retention_seconds) (rl_buckets st);
                (buckets, denied) = fold (charge_step now) charges (buckets, []);
                st' = st\<lparr>rl_buckets := od_popitems (rl_max_entries st) buckets\<rparr>
            in (case py_max_by snd denied of
                  None \<Rightarrow> (allowed_decision, st')
                | Some (limiting, retry_after) \<Rightarrow>
                    (\<lparr>rd_allowed = False, rd_scope = Some (ch_scope limiting),
                      rd_effective_limit =
                        Some (max 1 (ch_refill_tokens limiting div ch_cost limiting)),
                      rd_retry_after_seconds = retry_after\<rparr>, st'))))"

section \<open>The request gate\<close>

datatype rate_mode = Disabled | Observe | Enforce

record request_rate_policy =
  rp_mode :: rate_mode
  rp_state_retention_seconds :: int
  rp_connection_capacity :: int
  rp_connection_refill_tokens :: int
  rp_connection_refill_period_seconds :: int
  rp_ip_capacity :: int
  rp_ip_refill_tokens :: int
  rp_account_capacity :: int
  rp_account_refill_tokens :: int
  rp_request_refill_period_seconds :: int
  rp_action_costs :: "(string \<times> int) list"

record gate_decision =
  gd_allowed :: bool
  gd_would_block :: bool
  gd_scope :: "string option"
  gd_limit :: "int option"
  gd_retry_after_seconds :: int

definition gate_open :: gate_decision where
  "gate_open = \<lparr>gd_allowed = True, gd_would_block = False, gd_scope = None, gd_limit = None,
                gd_retry_after_seconds = 0\<rparr>"

text \<open>\<open>provider\<close> is the rate-limit provider in use; \<open>None\<close> is an exception it raised.\<close>

definition evaluate_gate ::
  "(rate_limit_charge list \<Rightarrow> int \<Rightarrow> 'p \<Rightarrow> (rate_limit_decision \<times> 'p) option) \<Rightarrow>
   rate_limit_charge list \<Rightarrow> request_rate_policy \<Rightarrow> 'p \<Rightarrow> gate_decision \<times> 'p" where
  "evaluate_gate provider charges policy p =
     (if rp_mode policy = Disabled then (gate_open, p)
      else (case provider charges (rp_state_retention_seconds policy) p of
              None \<Rightarrow> (gate_open, p)
            | Some (decision, p') \<Rightarrow>
                (\<lparr>gd_allowed = rd_allowed decision \<or> rp_mode policy = Observe,
                  gd_would_block = (\<not> rd_allowed decision),
                  gd_scope = rd_scope decision, gd_limit = rd_effective_limit decision,
                  gd_retry_after_seconds = rd_retry_after_seconds decision\<rparr>, p')))"

text \<open>\<open>digest\<close> stands for the HMAC of the identity under the server's secret key.\<close>

definition bucket_id :: "(string \<Rightarrow> string) \<Rightarrow> string \<Rightarrow> string \<Rightarrow> string \<Rightarrow> string" where
  "bucket_id digest namespace scope identity =
     ''cfms:rate-limit:v1:'' @ namespace @ '':'' @ scope @ '':'' @ digest identity"

definition check_connection_attempt ::
  "(rate_limit_charge list \<Rightarrow> int \<Rightarrow> 'p \<Rightarrow> (rate_limit_decision \<times> 'p) option) \<Rightarrow>
   (string \<Rightarrow> string) \<Rightarrow> request_rate_policy \<Rightarrow> string \<Rightarrow> 'p \<Rightarrow> gate_decision \<times> 'p" where
  "check_connection_attempt provider digest policy ip_address p =
     evaluate_gate provider
       [\<lparr>ch_key = bucket_id digest ''connection'' ''ip'' ip_address, ch_scope = ''ip'',
         ch_capacity = rp_connection_capacity policy,
         ch_refill_tokens = rp_connection_refill_tokens policy,
         ch_refill_period_seconds = rp_connection_refill_period_seconds policy, ch_cost = 1\<rparr>]
       policy p"

text \<open>\<open>RequestRateControlPolicy.cost_for\<close>\<close>

definition cost_for :: "request_rate_policy \<Rightarrow> string \<Rightarrow> int \<Rightarrow> int" where
  "cost_for policy action handler_cost =
     (case map_of (rp_action_costs policy) action of None \<Rightarrow> handler_cost | Some c \<Rightarrow> c)"

definition request_charges ::
  "(string \<Rightarrow> string) \<Rightarrow> request_rate_policy \<Rightarrow> int \<Rightarrow> string \<Rightarrow> string option \<Rightarrow>
   rate_limit_charge list" where
  "request_charges digest policy cost ip_address user_id =
     \<lparr>ch_key = bucket_id digest ''request'' ''ip'' ip_address, ch_scope = ''ip'',
       ch_capacity = rp_ip_capacity policy, ch_refill_tokens = rp_ip_refill_tokens policy,
       ch_refill_period_seconds = rp_request_refill_period_seconds policy, ch_cost = cost\<rparr> #
     (case user_id of None \<Rightarrow> []
      | Some uid \<Rightarrow>
         [\<lparr>ch_key = bucket_id digest ''request'' ''account'' uid, ch_scope = ''account'',
           ch_capacity = rp_account_capacity policy,
           ch_refill_tokens = rp_account_refill_tokens policy,
           ch_refill_period_seconds = rp_request_refill_period_seconds policy, ch_cost = cost\<rparr>])"

definition check_request_rate ::
  "(rate_limit_charge list \<Rightarrow> int \<Rightarrow> 'p \<Rightarrow> (rate_limit_decision \<times> 'p) option) \<Rightarrow>
   (string \<Rightarrow> string) \<Rightarrow> request_rate_policy \<Rightarrow> string \<Rightarrow> int \<Rightarrow> string \<Rightarrow> string option \<Rightarrow> bool \<Rightarrow>
   'p \<Rightarrow> gate_decision \<times> 'p" where
  "check_request_rate provider digest policy action handler_cost ip_address user_id bypass p =
     (if bypass then (gate_open, p)
      else evaluate_gate provider
             (request_charges digest policy (cost_for policy action handler_cost) ip_address user_id)
             policy p)"

text \<open>\<open>Inl\<close> names the offending action; a cost is \<open>None\<close> when it is not an integer (or a bool).\<close>

definition validate_handler_rate_limit_costs ::
  "request_rate_policy \<Rightarrow> (string \<times> int option) list \<Rightarrow> string + string set" where
  "validate_handler_rate_limit_costs policy handlers =
     (let maximum_cost = min (rp_account_capacity policy) (rp_ip_capacity policy);
          bad = (\<lambda>h. case snd h of None \<Rightarrow> True | Some c \<Rightarrow> c \<le> 0 \<or> c > maximum_cost)
      in case find bad handlers of
           Some h \<Rightarrow> Inl (fst h)
         | None \<Rightarrow> Inr (fst ` set (rp_action_costs policy) - fst ` set handlers))"

section \<open>The token-bucket contract\<close>

text \<open>A client takes tokens at given times; the run reports what was granted in total.\<close>

fun take_run :: "('b \<Rightarrow> timestamp \<Rightarrow> int \<Rightarrow> bool \<times> 'b) \<Rightarrow> 'b \<Rightarrow> (timestamp \<times> int) list \<Rightarrow> int \<times> 'b" where
  "take_run tk b [] = (0, b)"
| "take_run tk b ((t, c) # reqs) =
     (let (ok, b') = tk b t c; (total, b'') = take_run tk b' reqs
      in ((if ok then c else 0) + total, b''))"

text \<open>Request times that never run backwards, starting no earlier than \<open>t0\<close>.\<close>

fun times_from :: "timestamp \<Rightarrow> (timestamp \<times> 'a) list \<Rightarrow> bool" where
  "times_from t0 [] = True"
| "times_from t0 ((t, c) # reqs) \<longleftrightarrow> t0 \<le> t \<and> times_from t reqs"

definition end_time :: "timestamp \<Rightarrow> (timestamp \<times> 'a) list \<Rightarrow> timestamp" where
  "end_time t0 reqs = (if reqs = [] then t0 else fst (last reqs))"

lemma end_time_simps [simp]:
  "end_time t0 [] = t0"
  "end_time t0 ((t, c) # reqs) = end_time t reqs"
  by (auto simp: end_time_def)

lemma times_from_end: "times_from t0 reqs \<Longrightarrow> t0 \<le> end_time t0 reqs"
  by (induction t0 reqs rule: times_from.induct) auto

locale token_bucket =
  fixes tk :: "'b \<Rightarrow> timestamp \<Rightarrow> int \<Rightarrow> bool \<times> 'b"
    and tokens :: "'b \<Rightarrow> rat"
    and last_at :: "'b \<Rightarrow> timestamp"
    and cap :: int
    and rate :: rat
  assumes tk_granted: "last_at b \<le> t \<Longrightarrow>
      fst (tk b t c) \<longleftrightarrow> of_int c \<le> min (of_int cap) (tokens b + (t - last_at b) * rate)"
    and tk_tokens: "last_at b \<le> t \<Longrightarrow>
      tokens (snd (tk b t c)) =
        min (of_int cap) (tokens b + (t - last_at b) * rate) - (if fst (tk b t c) then of_int c else 0)"
    and tk_last: "last_at b \<le> t \<Longrightarrow> last_at (snd (tk b t c)) = t"
begin

lemma tk_bounds:
  assumes "last_at b \<le> t" "0 \<le> tokens b" "0 \<le> rate" "0 \<le> cap" "0 \<le> c"
  shows "0 \<le> tokens (snd (tk b t c)) \<and> tokens (snd (tk b t c)) \<le> of_int cap"
  using assms tk_granted[of b t c] tk_tokens[of b t c] by auto

lemma run_conserves:
  assumes "times_from (last_at b) reqs" "0 \<le> rate"
  shows "of_int (fst (take_run tk b reqs)) + tokens (snd (take_run tk b reqs))
           \<le> tokens b + (end_time (last_at b) reqs - last_at b) * rate"
  using assms
proof (induction reqs arbitrary: b)
  case (Cons r reqs)
  obtain t c where r: "r = (t, c)" by fastforce
  let ?b = "snd (tk b t c)"
  have le: "last_at b \<le> t" and rest: "times_from (last_at ?b) reqs"
    using Cons.prems r tk_last by auto
  have "(if fst (tk b t c) then of_int c else 0) + tokens ?b \<le> tokens b + (t - last_at b) * rate"
    using tk_tokens[OF le, of c] by simp
  moreover have "of_int (fst (take_run tk ?b reqs)) + tokens (snd (take_run tk ?b reqs))
      \<le> tokens ?b + (end_time t reqs - t) * rate"
    using Cons.IH[OF rest Cons.prems(2)] tk_last[OF le] by simp
  ultimately show ?case
    by (auto simp: r split: prod.splits if_splits) (auto simp: algebra_simps)
qed simp

lemma run_tokens_nonneg:
  assumes "times_from (last_at b) reqs" "0 \<le> rate" "0 \<le> tokens b" "0 \<le> cap"
    "\<forall>r \<in> set reqs. 0 \<le> snd r"
  shows "0 \<le> tokens (snd (take_run tk b reqs))"
  using assms
proof (induction reqs arbitrary: b)
  case (Cons r reqs)
  obtain t c where r: "r = (t, c)" by fastforce
  have le: "last_at b \<le> t" using Cons.prems r by simp
  have "0 \<le> tokens (snd (tk b t c))" using tk_bounds[OF le] Cons.prems r by simp
  with Cons.IH[of "snd (tk b t c)"] Cons.prems r tk_last[OF le]
  show ?case by (auto split: prod.splits)
qed simp

lemma run_bound:
  assumes "times_from (last_at b) reqs" "0 \<le> rate" "0 \<le> tokens b" "tokens b \<le> of_int cap"
    "\<forall>r \<in> set reqs. 0 \<le> snd r"
  shows "of_int (fst (take_run tk b reqs))
           \<le> of_int cap + (end_time (last_at b) reqs - last_at b) * rate"
proof -
  have "0 \<le> (of_int cap :: rat)" using assms(3,4) by linarith
  then have "0 \<le> cap" by simp
  with run_conserves[OF assms(1,2)] run_tokens_nonneg[OF assms(1-3) _ assms(5)] assms(4)
  show ?thesis by linarith
qed

text \<open>A denied request of cost \<open>c\<close> that waits until the missing tokens are refilled is granted.\<close>

lemma retry_granted:
  assumes "last_at b \<le> t" "\<not> fst (tk b t c)" "0 < rate" "c \<le> cap"
    and "t + (of_int c - tokens (snd (tk b t c))) / rate \<le> t'"
    and "t \<le> t'"
  shows "fst (tk (snd (tk b t c)) t' c)"
proof -
  let ?b = "snd (tk b t c)"
  have last: "last_at ?b = t" using tk_last[OF assms(1)] .
  have "(of_int c - tokens ?b) / rate \<le> t' - t" using assms(5) by simp
  then have "of_int c - tokens ?b \<le> (t' - t) * rate" using assms(3) by (simp add: pos_divide_le_eq)
  then show ?thesis using tk_granted[of ?b t' c] last assms(4,6) by (simp add: of_int_le_iff)
qed

lemma early_retry_denied:
  assumes "last_at b \<le> t" "\<not> fst (tk b t c)" "0 < rate"
    and "t' < t + (of_int c - tokens (snd (tk b t c))) / rate"
    and "t \<le> t'"
  shows "\<not> fst (tk (snd (tk b t c)) t' c)"
proof -
  let ?b = "snd (tk b t c)"
  have last: "last_at ?b = t" using tk_last[OF assms(1)] .
  have "t' - t < (of_int c - tokens ?b) / rate" using assms(4) by simp
  then have "(t' - t) * rate < of_int c - tokens ?b" using assms(3) by (simp add: pos_less_divide_eq)
  then show ?thesis using tk_granted[of ?b t' c] last assms(5) by simp
qed

end

text \<open>Both implementations satisfy the contract, for any limits.\<close>

definition db_take :: "int \<Rightarrow> int \<Rightarrow> int \<Rightarrow> rate_bucket \<Rightarrow> timestamp \<Rightarrow> int \<Rightarrow> bool \<times> rate_bucket" where
  "db_take capacity refill_tokens refill_period row now cost =
     (let (decision, row') = consume_bucket row now capacity refill_tokens refill_period cost
      in (bd_allowed decision, row'))"

definition mem_take :: "rate_limit_charge \<Rightarrow> bucket_state \<Rightarrow> timestamp \<Rightarrow> int \<Rightarrow> bool \<times> bucket_state" where
  "mem_take charge state now cost = charge_bucket (Some state) (charge\<lparr>ch_cost := cost\<rparr>) now"

interpretation db: token_bucket "db_take capacity refill_tokens refill_period" rb_tokens
  rb_last_refill_at capacity "of_int refill_tokens / of_int refill_period"
  for capacity refill_tokens refill_period :: int
  by unfold_locales (auto simp: db_take_def consume_bucket_def Let_def)

interpretation rlm: token_bucket "mem_take charge" bs_tokens bs_last_refill_at
  "ch_capacity charge" "charge_rate charge"
  for charge :: rate_limit_charge
  by unfold_locales
    (auto simp: mem_take_def charge_bucket_def refill_state_def charge_rate_def Let_def)

section \<open>Properties of the database bucket\<close>

text \<open>C31. A bucket never grants more than its capacity plus what the refill rate yields over the
  elapsed time, for any sequence of costs at non-decreasing times.\<close>

theorem bucket_grant_bound:
  assumes "times_from (rb_last_refill_at row) reqs" "\<forall>r \<in> set reqs. 0 \<le> snd r"
    and "0 \<le> rb_tokens row" "rb_tokens row \<le> of_int capacity"
    and "0 < refill_tokens" "0 < refill_period"
  shows "of_int (fst (take_run (db_take capacity refill_tokens refill_period) row reqs))
    \<le> (of_int capacity :: rat) + (end_time (rb_last_refill_at row) reqs - rb_last_refill_at row)
        * (of_int refill_tokens / of_int refill_period)"
  using assms by (intro db.run_bound) auto

definition demo_bucket :: rate_bucket where
  "demo_bucket = \<lparr>rb_namespace = ''n'', rb_scope = ''ip'', rb_identity = ''i'', rb_tokens = 3,
     rb_last_refill_at = 0, rb_denial_count = 0, rb_last_denied_at = None, rb_last_attempt = 0\<rparr>"

theorem bucket_grant_bound_witness:
  "of_int (fst (take_run (db_take 5 60 60) demo_bucket [(0, 3), (1, 2), (4, 3)])) \<le> (5 :: rat) + 4"
  using bucket_grant_bound[of demo_bucket "[(0, 3), (1, 2), (4, 3)]" 5 60 60]
  by (simp add: demo_bucket_def)

text \<open>The retry delay of a denial is exact to the second: waiting it out succeeds, and every
  retry a full second or more earlier is denied again.\<close>

lemma bucket_retry_after_exact:
  assumes "rb_last_refill_at row \<le> now" "cost \<le> capacity" "0 < refill_tokens" "0 < refill_period"
    and "consume_bucket row now capacity refill_tokens refill_period cost = (d, row')"
    and "\<not> bd_allowed d"
  shows "bd_allowed (fst (consume_bucket row' (now + of_int (bd_retry_after_seconds d))
            capacity refill_tokens refill_period cost))
    \<and> (\<forall>t. now \<le> t \<and> t \<le> now + of_int (bd_retry_after_seconds d) - 1 \<longrightarrow>
          \<not> bd_allowed (fst (consume_bucket row' t capacity refill_tokens refill_period cost))
          \<or> bd_retry_after_seconds d = 1)"
proof -
  let ?tk = "db_take capacity refill_tokens refill_period"
  let ?rate = "of_int refill_tokens / of_int refill_period :: rat"
  let ?need = "(of_int cost - rb_tokens row') / ?rate"
  have rate: "0 < ?rate" using assms(3,4) by simp
  have tk: "?tk row now cost = (False, row')" using assms(5,6) by (simp add: db_take_def)
  have allowed: "bd_allowed (fst (consume_bucket r t capacity refill_tokens refill_period cost))
      = fst (?tk r t cost)" for r t
    by (simp add: db_take_def split: prod.splits)
  have ret: "bd_retry_after_seconds d = max 1 \<lceil>?need\<rceil>"
    using assms(5,6) by (auto simp: consume_bucket_def Let_def split: if_splits)
  have "\<lceil>?need\<rceil> \<le> bd_retry_after_seconds d" using ret by simp
  then have "now + ?need \<le> now + of_int (bd_retry_after_seconds d)"
    by (metis add_left_mono ceiling_le_iff)
  then have granted: "fst (?tk row' (now + of_int (bd_retry_after_seconds d)) cost)"
    using db.retry_granted[OF assms(1), where c = cost and capacity = capacity
        and refill_tokens = refill_tokens and refill_period = refill_period] tk rate assms(2) ret by simp
  have denied: "\<not> fst (?tk row' t cost) \<or> bd_retry_after_seconds d = 1"
    if "now \<le> t" "t \<le> now + of_int (bd_retry_after_seconds d) - 1" for t
  proof (cases "bd_retry_after_seconds d = 1")
    case False
    then have "bd_retry_after_seconds d = \<lceil>?need\<rceil>" using ret by (auto simp: max_def split: if_splits)
    then have "of_int (bd_retry_after_seconds d) - 1 < ?need" by linarith
    then have "t < now + ?need" using that by linarith
    then show ?thesis
      using db.early_retry_denied[OF assms(1), where c = cost and capacity = capacity
        and refill_tokens = refill_tokens and refill_period = refill_period] tk rate that(1) by simp
  qed simp
  show ?thesis using granted denied allowed by blast
qed

section \<open>Properties of the in-process provider\<close>

text \<open>With one charge on a provider that holds only its bucket, a call is exactly one take.\<close>

definition charge_ok :: "rate_limit_charge \<Rightarrow> int \<Rightarrow> bool" where
  "charge_ok charge retention \<longleftrightarrow> 0 < ch_refill_tokens charge \<and> 0 < ch_refill_period_seconds charge \<and>
     0 < ch_cost charge \<and> 0 < ch_capacity charge \<and>
     of_int (ch_capacity charge) \<le> charge_rate charge * of_int retention"

lemma charge_bucket_take: "charge_bucket (Some s) charge t = mem_take charge s t (ch_cost charge)"
  by (simp add: mem_take_def)

lemma charge_bucket_stale:
  assumes "charge_ok charge retention" "bs_last_seen_at s = bs_last_refill_at s"
    "bs_last_seen_at s < t - of_int retention" "0 \<le> retention" "0 \<le> bs_tokens s"
  shows "charge_bucket None charge t = mem_take charge s t (ch_cost charge)"
proof -
  have rate: "0 < charge_rate charge" using assms(1) by (simp add: charge_ok_def charge_rate_def)
  have "of_int (ch_capacity charge) \<le> charge_rate charge * of_int retention"
    using assms(1) by (simp add: charge_ok_def)
  also have "\<dots> \<le> charge_rate charge * (t - bs_last_refill_at s)"
    using assms(2,3) rate by (intro mult_left_mono) auto
  finally have "of_int (ch_capacity charge) \<le> bs_tokens s + (t - bs_last_refill_at s) * charge_rate charge"
    using assms(5) by (simp add: mult.commute add_increasing)
  moreover have "bs_last_refill_at s < t" using assms(2,3,4)
    by (metis diff_le_eq le_add_same_cancel1 of_int_0_le_iff order_less_le_trans)
  ultimately have "refill_state None charge t = refill_state (Some s) charge t"
    by (simp add: refill_state_def Let_def min_absorb1 min_absorb2)
  then show ?thesis by (simp add: charge_bucket_take[symmetric] charge_bucket_def)
qed


fun consume_run :: "rate_limit_charge \<Rightarrow> int \<Rightarrow> mem_rate_limits \<Rightarrow> timestamp list \<Rightarrow> int" where
  "consume_run charge retention st [] = 0"
| "consume_run charge retention st (t # ts) =
     (let (d, st') = consume [charge] retention t st
      in (if rd_allowed d then ch_cost charge else 0) + consume_run charge retention st' ts)"

lemma consume_single:
  assumes "charge_ok charge retention" "0 \<le> retention" "0 < rl_max_entries st"
    and "rl_buckets st = [(ch_key charge, s)]" "bs_last_seen_at s = bs_last_refill_at s"
    and "bs_last_refill_at s \<le> t" "0 \<le> bs_tokens s"
    and "mem_take charge s t (ch_cost charge) = (ok, s')"
  shows "\<exists>d. consume [charge] retention t st = (d, st\<lparr>rl_buckets := [(ch_key charge, s')]\<rparr>) \<and>
     rd_allowed d = ok \<and> bs_last_seen_at s' = t \<and> bs_last_refill_at s' = t"
proof -
  have bucket: "charge_bucket (od_get (drop_stale (t - of_int retention) (rl_buckets st)) (ch_key charge))
      charge t = (ok, s')"
    using assms(8) charge_bucket_take[of s charge t]
      charge_bucket_stale[OF assms(1,5) _ assms(2,7), of t] assms(4)
    by (auto simp: drop_stale_def)
  have times: "bs_last_seen_at s' = t \<and> bs_last_refill_at s' = t"
    using assms(5,6,8) by (auto simp: mem_take_def charge_bucket_def refill_state_def Let_def split: if_splits)
  have dict: "od_move_to_end (ch_key charge) (od_set (ch_key charge) s'
      (drop_stale (t - of_int retention) (rl_buckets st))) = [(ch_key charge, s')]"
    using assms(4) by (auto simp: drop_stale_def od_move_to_end_def od_pop_def)
  show ?thesis
    using bucket dict times assms(3)
    by (auto simp: consume_def charge_step_def Let_def allowed_decision_def
        split: prod.splits option.splits if_splits)
qed

lemma consume_run_take_run:
  assumes "charge_ok charge retention" "0 \<le> retention" "0 < rl_max_entries st"
    and "rl_buckets st = [(ch_key charge, s)]" "bs_last_seen_at s = bs_last_refill_at s"
    and "times_from (bs_last_refill_at s) (map (\<lambda>t. (t, ch_cost charge)) ts)" "0 \<le> bs_tokens s"
  shows "consume_run charge retention st ts =
     fst (take_run (mem_take charge) s (map (\<lambda>t. (t, ch_cost charge)) ts))"
  using assms
proof (induction ts arbitrary: st s)
  case (Cons t ts)
  obtain ok s' where tk: "mem_take charge s t (ch_cost charge) = (ok, s')" by fastforce
  have le: "bs_last_refill_at s \<le> t" using Cons.prems(6) by simp
  from consume_single[OF Cons.prems(1-5) le Cons.prems(7) tk] obtain d where
    d: "consume [charge] retention t st = (d, st\<lparr>rl_buckets := [(ch_key charge, s')]\<rparr>)"
      "rd_allowed d = ok" and s': "bs_last_seen_at s' = t" "bs_last_refill_at s' = t" by blast
  have "0 \<le> bs_tokens s'"
    using rlm.tk_bounds[OF le Cons.prems(7), of charge "ch_cost charge"] tk Cons.prems(1)
    by (simp add: charge_ok_def charge_rate_def)
  with Cons.IH[OF Cons.prems(1,2), of "st\<lparr>rl_buckets := [(ch_key charge, s')]\<rparr>" s'] d s' Cons.prems(3,6) tk
  show ?case by (auto split: prod.splits)
qed simp

lemma consume_empty_full:
  assumes "rl_buckets st = []" "t0 \<le> t" "0 < charge_rate charge"
  shows "consume [charge] retention t st = consume [charge] retention t
    (st\<lparr>rl_buckets := [(ch_key charge, \<lparr>bs_tokens = of_int (ch_capacity charge),
        bs_last_refill_at = t0, bs_last_seen_at = t0\<rparr>)]\<rparr>)"
proof -
  let ?s = "\<lparr>bs_tokens = of_int (ch_capacity charge), bs_last_refill_at = t0, bs_last_seen_at = t0\<rparr>"
  have "refill_state None charge t = refill_state (Some ?s) charge t"
    using assms(2,3) by (auto simp: refill_state_def Let_def)
  then have "charge_bucket None charge t = charge_bucket (Some ?s) charge t"
    by (simp add: charge_bucket_def)
  then show ?thesis
    using assms(1) by (auto simp: consume_def charge_step_def Let_def drop_stale_def
        od_move_to_end_def od_pop_def split: prod.splits option.splits)
qed

text \<open>When the retention covers a full refill (\<open>capacity \<le> rate * retention\<close>), a client that
  spends against one key of the in-process provider is granted at most the capacity plus the
  refill over the elapsed time, stale-bucket removal included.\<close>

lemma memory_provider_grant_bound:
  assumes "charge_ok charge retention" "0 \<le> retention" "0 < rl_max_entries st" "rl_buckets st = []"
    and "times_from t0 (map (\<lambda>t. (t, ch_cost charge)) ts)"
  shows "of_int (consume_run charge retention st ts)
    \<le> of_int (ch_capacity charge) + (end_time t0 (map (\<lambda>t. (t, ch_cost charge)) ts) - t0) * charge_rate charge"
proof -
  let ?s = "\<lparr>bs_tokens = of_int (ch_capacity charge), bs_last_refill_at = t0, bs_last_seen_at = t0\<rparr>"
  let ?st = "st\<lparr>rl_buckets := [(ch_key charge, ?s)]\<rparr>"
  have rate: "0 < charge_rate charge" and cap: "0 < ch_capacity charge" and cost: "0 < ch_cost charge"
    using assms(1) by (auto simp: charge_ok_def charge_rate_def)
  have "consume_run charge retention st ts = consume_run charge retention ?st ts"
    using assms(4,5) consume_empty_full[of st t0 _ charge retention] rate by (cases ts) auto
  also have "\<dots> = fst (take_run (mem_take charge) ?s (map (\<lambda>t. (t, ch_cost charge)) ts))"
    using assms(1,2,3,5) cap by (intro consume_run_take_run) auto
  finally show ?thesis
    using rlm.run_bound[of ?s "map (\<lambda>t. (t, ch_cost charge)) ts" charge] assms(5) rate cap cost by auto
qed

definition demo_charge :: "int \<Rightarrow> int \<Rightarrow> rate_limit_charge" where
  "demo_charge capacity refill = \<lparr>ch_key = ''k'', ch_scope = ''ip'', ch_capacity = capacity,
     ch_refill_tokens = refill, ch_refill_period_seconds = 60, ch_cost = 1\<rparr>"

definition demo_provider :: mem_rate_limits where
  "demo_provider = \<lparr>rl_max_entries = 10, rl_buckets = []\<rparr>"

lemmas consume_eval = consume_def charge_step_def charge_bucket_def refill_state_def drop_stale_def
  allowed_decision_def charge_rate_def charge_retry_after_def od_move_to_end_def od_pop_def Let_def

text \<open>The condition on the retention is needed, and the configuration check does not give
  it: a policy whose retention covers its refill period passes the check, yet removing the stale
  bucket hands back the whole capacity and the client is granted more than capacity plus refill.\<close>

lemma stale_removal_overgrants:
  "\<exists>charge retention st ts t0.
     ch_refill_period_seconds charge \<le> retention \<and> 0 < ch_cost charge \<and>
     0 < ch_refill_tokens charge \<and> 0 < ch_refill_period_seconds charge \<and>
     rl_buckets st = [] \<and> length ts \<le> rl_max_entries st \<and>
     times_from t0 (map (\<lambda>t. (t, ch_cost charge)) ts) \<and>
     of_int (consume_run charge retention st ts) > of_int (ch_capacity charge)
       + (end_time t0 (map (\<lambda>t. (t, ch_cost charge)) ts) - t0) * charge_rate charge"
proof -
  let ?c = "demo_charge 3 1"
  let ?ts = "[0, 0, 0, 61, 61, 61]"
  have "consume_run ?c 60 demo_provider ?ts = 6"
    by (simp add: demo_charge_def demo_provider_def consume_eval)
  then have "ch_refill_period_seconds ?c \<le> 60 \<and> 0 < ch_cost ?c \<and>
     0 < ch_refill_tokens ?c \<and> 0 < ch_refill_period_seconds ?c \<and>
     rl_buckets demo_provider = [] \<and> length ?ts \<le> rl_max_entries demo_provider \<and>
     times_from 0 (map (\<lambda>t. (t, ch_cost ?c)) ?ts) \<and>
     of_int (consume_run ?c 60 demo_provider ?ts) > of_int (ch_capacity ?c)
       + (end_time 0 (map (\<lambda>t. (t, ch_cost ?c)) ?ts) - 0) * charge_rate ?c"
    by (simp add: demo_charge_def demo_provider_def charge_rate_def)
  then show ?thesis by blast
qed

lemma fold_charge_step_denied:
  assumes "distinct (map ch_key cs)"
  shows "snd (fold (charge_step now) cs (B, D)) =
    D @ map (\<lambda>c. (c, charge_retry_after c (snd (charge_bucket (od_get B (ch_key c)) c now))))
         (filter (\<lambda>c. \<not> fst (charge_bucket (od_get B (ch_key c)) c now)) cs)"
  using assms
proof (induction cs arbitrary: B D)
  case (Cons c cs)
  obtain ok s where b: "charge_bucket (od_get B (ch_key c)) c now = (ok, s)" by fastforce
  let ?B = "od_move_to_end (ch_key c) (od_set (ch_key c) s B)"
  have same: "od_get ?B (ch_key c') = od_get B (ch_key c')" if "c' \<in> set cs" for c'
    using Cons.prems that by (auto simp: image_iff)
  show ?case
    using Cons.IH[of ?B "if ok then D else D @ [(c, charge_retry_after c s)]"] Cons.prems b same
    by (simp add: charge_step_def cong: map_cong filter_cong)
qed simp

lemma consume_allowed_iff:
  assumes "distinct (map ch_key charges)"
  shows "rd_allowed (fst (consume charges retention now st)) \<longleftrightarrow>
    list_all (\<lambda>c. fst (charge_bucket
       (od_get (drop_stale (now - of_int retention) (rl_buckets st)) (ch_key c)) c now)) charges"
proof -
  obtain B D where f: "fold (charge_step now) charges
      (drop_stale (now - of_int retention) (rl_buckets st), []) = (B, D)" by fastforce
  have D: "D = map (\<lambda>c. (c, charge_retry_after c (snd (charge_bucket
       (od_get (drop_stale (now - of_int retention) (rl_buckets st)) (ch_key c)) c now))))
     (filter (\<lambda>c. \<not> fst (charge_bucket
       (od_get (drop_stale (now - of_int retention) (rl_buckets st)) (ch_key c)) c now)) charges)"
    using fold_charge_step_denied[OF assms, of now
        "drop_stale (now - of_int retention) (rl_buckets st)" "[]"] f by simp
  have "rd_allowed (fst (consume charges retention now st)) \<longleftrightarrow> D = []"
  proof (cases "py_max_by snd D")
    case None
    then show ?thesis by (auto simp: consume_def f allowed_decision_def)
  next
    case (Some m)
    then have "D \<noteq> []" by auto
    moreover have "charges \<noteq> []" using D \<open>D \<noteq> []\<close> by auto
    ultimately show ?thesis using Some by (auto simp: consume_def f split: prod.splits)
  qed
  then show ?thesis unfolding D by (auto simp: filter_empty_conv list_all_iff)
qed

lemma request_charges_distinct: "distinct (map ch_key (request_charges digest policy cost ip uid))"
  by (auto simp: request_charges_def bucket_id_def split: option.splits)

text \<open>The request gate refuses a request exactly when the policy enforces, the request is
  not exempt and one of its buckets (address, and account when known) cannot pay its cost.\<close>

lemma request_gate_refuses_iff:
  "\<not> gd_allowed (fst (check_request_rate (\<lambda>cs r p. Some (consume cs r now p)) digest policy action
       handler_cost ip_address user_id bypass st)) \<longleftrightarrow>
   (rp_mode policy = Enforce \<and> \<not> bypass \<and>
    (\<exists>c \<in> set (request_charges digest policy (cost_for policy action handler_cost) ip_address user_id).
       \<not> fst (charge_bucket (od_get (drop_stale
          (now - of_int (rp_state_retention_seconds policy)) (rl_buckets st)) (ch_key c)) c now)))"
proof -
  let ?cs = "request_charges digest policy (cost_for policy action handler_cost) ip_address user_id"
  let ?d = "fst (consume ?cs (rp_state_retention_seconds policy) now st)"
  have "gd_allowed (fst (check_request_rate (\<lambda>cs r p. Some (consume cs r now p)) digest policy action
       handler_cost ip_address user_id bypass st)) \<longleftrightarrow>
     bypass \<or> rp_mode policy = Disabled \<or> rd_allowed ?d \<or> rp_mode policy = Observe"
    by (auto simp: check_request_rate_def evaluate_gate_def gate_open_def split: prod.splits)
  then show ?thesis
    using consume_allowed_iff[OF request_charges_distinct, of digest policy
        "cost_for policy action handler_cost" ip_address user_id
        "rp_state_retention_seconds policy" now st]
    by (cases "rp_mode policy") (auto simp: list_all_iff)
qed

text \<open>A provider that raises never blocks: the limiter fails open.\<close>

lemma gate_fails_open: "provider cs (rp_state_retention_seconds policy) p = None \<Longrightarrow>
    evaluate_gate provider cs policy p = (gate_open, p)"
  by (simp add: evaluate_gate_def)

end
