(* ===== verification/AccessRules.thy ===== *)
theory AccessRules
  imports Prelude
begin

text \<open>
  Access rules: the rule documents accepted by \<open>ACCESS_RULE_SCHEMA\<close>
  (\<open>src/include/domains/access/authorization/access_rules.py\<close>), their compiled form, and the
  compile, serialise and match functions of \<open>compiled_rules.py\<close>.  An optional JSON key is an
  option field; the enumerated \<open>match\<close> values are the strings of the source, since the
  database columns are plain strings.
\<close>

section \<open>Rule documents\<close>

record requirement =
  rq_match :: "string option"
  rq_require :: "string list option"

record match_group_data =
  mg_match :: "string option"
  mg_rights :: "requirement option"
  mg_groups :: "requirement option"

record rule_data =
  rd_match :: "string option"
  rd_match_groups :: "match_group_data list option"

definition valid_match :: "string option \<Rightarrow> bool" where
  "valid_match m \<longleftrightarrow> (case m of None \<Rightarrow> True | Some s \<Rightarrow> s = ''any'' \<or> s = ''all'')"

definition valid_requirement :: "requirement option \<Rightarrow> bool" where
  "valid_requirement r \<longleftrightarrow> (case r of None \<Rightarrow> True | Some r \<Rightarrow> valid_match (rq_match r))"

text \<open>\<open>ACCESS_RULE_SCHEMA\<close>: both rule keys are required, every \<open>match\<close> is \<open>any\<close> or \<open>all\<close>.\<close>

definition validate_access_rule :: "rule_data \<Rightarrow> bool" where
  "validate_access_rule r \<longleftrightarrow>
     rd_match r \<noteq> None \<and> valid_match (rd_match r) \<and> rd_match_groups r \<noteq> None \<and>
     list_all (\<lambda>g. valid_match (mg_match g) \<and> valid_requirement (mg_rights g) \<and>
                   valid_requirement (mg_groups g)) (the (rd_match_groups r))"

definition validate_access_rules :: "rule_data list \<Rightarrow> bool" where
  "validate_access_rules rules = list_all validate_access_rule rules"

section \<open>Compiled rules\<close>

record compiled_group =
  cg_group_index :: nat
  cg_match_mode :: string
  cg_rights_match_mode :: string
  cg_rights_empty :: bool
  cg_groups_match_mode :: string
  cg_groups_empty :: bool
  cg_rights :: "string list"
  cg_groups :: "string list"

record compiled_rule =
  cr_access_type :: string
  cr_match_mode :: string
  cr_match_groups :: "compiled_group list"

definition get_or :: "'a option \<Rightarrow> 'a \<Rightarrow> 'a" where
  "get_or o' d = (case o' of None \<Rightarrow> d | Some x \<Rightarrow> x)"

definition require_list :: "requirement option \<Rightarrow> string list" where
  "require_list r = (case r of None \<Rightarrow> [] | Some r \<Rightarrow> get_or (rq_require r) [])"

definition req_match_mode :: "requirement option \<Rightarrow> string" where
  "req_match_mode r = (case r of None \<Rightarrow> ''all'' | Some r \<Rightarrow> get_or (rq_match r) ''all'')"

definition empty_group_data :: "match_group_data \<Rightarrow> bool" where
  "empty_group_data g \<longleftrightarrow> mg_match g = None \<and> mg_rights g = None \<and> mg_groups g = None"

definition compile_group :: "nat \<Rightarrow> match_group_data \<Rightarrow> compiled_group" where
  "compile_group index g =
     (let required_rights = require_list (mg_rights g);
          required_groups = require_list (mg_groups g)
      in \<lparr>cg_group_index = index,
          cg_match_mode = (if required_rights = [] \<or> required_groups = [] then ''all''
                           else get_or (mg_match g) ''all''),
          cg_rights_match_mode = req_match_mode (mg_rights g),
          cg_rights_empty = (mg_rights g = None),
          cg_groups_match_mode = req_match_mode (mg_groups g),
          cg_groups_empty = (mg_groups g = None),
          cg_rights = required_rights, cg_groups = required_groups\<rparr>)"

fun compile_match_groups :: "nat \<Rightarrow> match_group_data list \<Rightarrow> compiled_group list" where
  "compile_match_groups index [] = []"
| "compile_match_groups index (g # gs) =
     (if empty_group_data g then compile_match_groups (Suc index) gs
      else compile_group index g # compile_match_groups (Suc index) gs)"

definition compile_access_rule :: "string \<Rightarrow> rule_data \<Rightarrow> compiled_rule option" where
  "compile_access_rule access_type r =
     (if rd_match r = None \<and> rd_match_groups r = None then None
      else Some \<lparr>cr_access_type = access_type, cr_match_mode = get_or (rd_match r) ''all'',
                 cr_match_groups = compile_match_groups 0 (get_or (rd_match_groups r) [])\<rparr>)"

definition serialize_group :: "compiled_group \<Rightarrow> match_group_data" where
  "serialize_group g =
     \<lparr>mg_match = (if \<not> cg_rights_empty g \<and> \<not> cg_groups_empty g then Some (cg_match_mode g) else None),
      mg_rights = (if cg_rights_empty g then None
                   else Some \<lparr>rq_match = Some (cg_rights_match_mode g), rq_require = Some (cg_rights g)\<rparr>),
      mg_groups = (if cg_groups_empty g then None
                   else Some \<lparr>rq_match = Some (cg_groups_match_mode g), rq_require = Some (cg_groups g)\<rparr>)\<rparr>"

definition serialize_compiled_access_rule :: "compiled_rule \<Rightarrow> rule_data" where
  "serialize_compiled_access_rule rule =
     \<lparr>rd_match = Some (cr_match_mode rule),
      rd_match_groups = Some (map serialize_group (cr_match_groups rule))\<rparr>"

section \<open>Matching\<close>

definition side_matches :: "bool \<Rightarrow> string \<Rightarrow> string list \<Rightarrow> string set \<Rightarrow> bool" where
  "side_matches side_empty mode required held =
     (if side_empty \<or> set required = {} then True
      else if mode = ''any'' then set required \<inter> held \<noteq> {}
      else set required \<subseteq> held)"

definition compiled_group_matches_user :: "compiled_group \<Rightarrow> string set \<Rightarrow> string set \<Rightarrow> bool" where
  "compiled_group_matches_user g user_permissions user_groups =
     (let rights_match = side_matches (cg_rights_empty g) (cg_rights_match_mode g) (cg_rights g) user_permissions;
          groups_match = side_matches (cg_groups_empty g) (cg_groups_match_mode g) (cg_groups g) user_groups
      in if cg_match_mode g = ''any'' then rights_match \<or> groups_match
         else rights_match \<and> groups_match)"

fun match_loop :: "string \<Rightarrow> string set \<Rightarrow> string set \<Rightarrow> compiled_group list \<Rightarrow> bool" where
  "match_loop mode ps gs [] \<longleftrightarrow> mode = ''all''"
| "match_loop mode ps gs (g # rest) =
     (let matches = compiled_group_matches_user g ps gs
      in if mode = ''any'' \<and> matches then True
         else if mode = ''all'' \<and> \<not> matches then False
         else match_loop mode ps gs rest)"

definition compiled_rule_matches_user :: "compiled_rule \<Rightarrow> string set \<Rightarrow> string set \<Rightarrow> bool" where
  "compiled_rule_matches_user rule user_permissions user_groups =
     match_loop (cr_match_mode rule) user_permissions user_groups (cr_match_groups rule)"

section \<open>Reference meaning of a rule document\<close>

text \<open>What a rule document says, read directly off the document: a requirement with nothing to
  require holds; a group with two non-empty requirements combines them by its \<open>match\<close>, any other
  group needs both; empty groups say nothing.\<close>

definition requirement_holds :: "requirement option \<Rightarrow> string set \<Rightarrow> bool" where
  "requirement_holds r held \<longleftrightarrow>
     require_list r = [] \<or>
     (if req_match_mode r = ''any'' then list_ex (\<lambda>x. x \<in> held) (require_list r)
      else list_all (\<lambda>x. x \<in> held) (require_list r))"

definition group_holds :: "match_group_data \<Rightarrow> string set \<Rightarrow> string set \<Rightarrow> bool" where
  "group_holds g ps gs \<longleftrightarrow>
     (if mg_match g = Some ''any'' \<and> require_list (mg_rights g) \<noteq> [] \<and> require_list (mg_groups g) \<noteq> []
      then requirement_holds (mg_rights g) ps \<or> requirement_holds (mg_groups g) gs
      else requirement_holds (mg_rights g) ps \<and> requirement_holds (mg_groups g) gs)"

definition rule_holds :: "rule_data \<Rightarrow> string set \<Rightarrow> string set \<Rightarrow> bool" where
  "rule_holds r ps gs \<longleftrightarrow>
     (let groups = filter (Not \<circ> empty_group_data) (get_or (rd_match_groups r) [])
      in if rd_match r = Some ''any'' then list_ex (\<lambda>g. group_holds g ps gs) groups
         else list_all (\<lambda>g. group_holds g ps gs) groups)"

lemma side_matches_requirement:
  "side_matches (r = None) (req_match_mode r) (require_list r) held = requirement_holds r held"
  by (auto simp: side_matches_def requirement_holds_def require_list_def list_ex_iff list_all_iff
      split: option.splits)

lemma compile_group_matches:
  assumes "valid_match (mg_match g)"
  shows "compiled_group_matches_user (compile_group i g) ps gs = group_holds g ps gs"
  using assms
  by (auto simp: compiled_group_matches_user_def compile_group_def group_holds_def Let_def
      side_matches_requirement get_or_def valid_match_def split: option.splits)

lemma match_loop_any: "match_loop ''any'' ps gs cs = list_ex (\<lambda>g. compiled_group_matches_user g ps gs) cs"
  by (induction cs) (auto simp: Let_def)

lemma match_loop_all: "match_loop ''all'' ps gs cs = list_all (\<lambda>g. compiled_group_matches_user g ps gs) cs"
  by (induction cs) (auto simp: Let_def)

lemma match_loop_other: "mode \<noteq> ''any'' \<Longrightarrow> mode \<noteq> ''all'' \<Longrightarrow> \<not> match_loop mode ps gs cs"
  by (induction cs) (auto simp: Let_def)

lemma compile_match_groups_ex:
  "list_all (\<lambda>g. valid_match (mg_match g)) gds \<Longrightarrow>
   list_ex (\<lambda>g. compiled_group_matches_user g ps gs) (compile_match_groups i gds) =
   list_ex (\<lambda>g. group_holds g ps gs) (filter (Not \<circ> empty_group_data) gds)"
  by (induction i gds rule: compile_match_groups.induct) (auto simp: compile_group_matches)

lemma compile_match_groups_all:
  "list_all (\<lambda>g. valid_match (mg_match g)) gds \<Longrightarrow>
   list_all (\<lambda>g. compiled_group_matches_user g ps gs) (compile_match_groups i gds) =
   list_all (\<lambda>g. group_holds g ps gs) (filter (Not \<circ> empty_group_data) gds)"
  by (induction i gds rule: compile_match_groups.induct) (auto simp: compile_group_matches)

lemma compile_valid_rule:
  assumes "validate_access_rule r"
  obtains c where "compile_access_rule access_type r = Some c" "cr_access_type c = access_type"
    "\<And>ps gs. compiled_rule_matches_user c ps gs = rule_holds r ps gs"
proof -
  from assms obtain m gds where r: "rd_match r = Some m" "rd_match_groups r = Some gds"
    and m: "m = ''any'' \<or> m = ''all''" and v: "list_all (\<lambda>g. valid_match (mg_match g)) gds"
    by (auto simp: validate_access_rule_def valid_match_def list_all_iff)
  then show ?thesis
    using compile_match_groups_ex[OF v, of _ _ 0] compile_match_groups_all[OF v, of _ _ 0]
    by (intro that) (auto simp: compile_access_rule_def compiled_rule_matches_user_def rule_holds_def
        get_or_def match_loop_any match_loop_all)
qed

section \<open>Properties\<close>

text \<open>Compiling a schema-valid rule and matching the compiled rule decides exactly what the
  document says, for every set of permissions and groups the user holds.\<close>

lemma compile_access_rule_correct:
  assumes "validate_access_rule r"
  shows "\<exists>c. compile_access_rule access_type r = Some c \<and> cr_access_type c = access_type \<and>
    compiled_rule_matches_user c ps gs = rule_holds r ps gs"
  by (rule compile_valid_rule[OF assms]) blast

definition demo_req :: "string \<Rightarrow> string list \<Rightarrow> requirement option" where
  "demo_req m xs = Some \<lparr>rq_match = Some m, rq_require = Some xs\<rparr>"

definition demo_rule :: rule_data where
  "demo_rule = \<lparr>rd_match = Some ''all'', rd_match_groups = Some
     [\<lparr>mg_match = Some ''any'', mg_rights = demo_req ''all'' [''move''],
       mg_groups = demo_req ''any'' [''staff'', ''admin'']\<rparr>,
      \<lparr>mg_match = None, mg_rights = None, mg_groups = demo_req ''all'' [''user'']\<rparr>]\<rparr>"

lemmas rule_eval = demo_rule_def demo_req_def validate_access_rule_def valid_match_def
  valid_requirement_def rule_holds_def get_or_def empty_group_data_def group_holds_def
  require_list_def requirement_holds_def req_match_mode_def

text \<open>A group is bare when it names neither rights nor groups; serialising forgets such groups.\<close>

definition bare_group :: "match_group_data \<Rightarrow> bool" where
  "bare_group g \<longleftrightarrow> mg_rights g = None \<and> mg_groups g = None"

lemma compile_serialize_group:
  assumes "\<not> bare_group g"
  shows "compile_group i (serialize_group (compile_group i g)) = compile_group i g
    \<and> \<not> empty_group_data (serialize_group (compile_group i g))"
  using assms
  by (cases "mg_rights g"; cases "mg_groups g")
    (auto simp: compile_group_def serialize_group_def Let_def require_list_def req_match_mode_def
        get_or_def empty_group_data_def bare_group_def split: option.splits)

lemma compile_serialize_groups:
  "list_all (Not \<circ> bare_group) gds \<Longrightarrow>
   compile_match_groups i (map serialize_group (compile_match_groups i gds)) = compile_match_groups i gds"
proof (induction gds arbitrary: i)
  case (Cons g gds)
  then have "\<not> bare_group g" by simp
  then have "\<not> empty_group_data g" by (auto simp: bare_group_def empty_group_data_def)
  with Cons compile_serialize_group[OF \<open>\<not> bare_group g\<close>, of i] show ?case by simp
qed simp

text \<open>Round trip: serialising a compiled rule and compiling the document again restores the
  compiled rule exactly, when no group of the original document is bare.\<close>

lemma compile_serialize_roundtrip:
  assumes "list_all (Not \<circ> bare_group) (get_or (rd_match_groups r) [])"
    and "compile_access_rule access_type r = Some c"
  shows "compile_access_rule access_type (serialize_compiled_access_rule c) = Some c"
  using assms compile_serialize_groups[OF assms(1), of 0]
  by (auto simp: compile_access_rule_def serialize_compiled_access_rule_def get_or_def
      split: if_splits)

text \<open>A schema-valid document with a bare group does not survive the round trip: the rule that
  admitted every user admits no user after it is serialised and compiled again.\<close>

lemma bare_group_roundtrip_locks_out:
  "\<exists>r c c'. validate_access_rule r \<and> compile_access_rule ''read'' r = Some c \<and>
     compile_access_rule ''read'' (serialize_compiled_access_rule c) = Some c' \<and>
     (\<forall>ps gs. compiled_rule_matches_user c ps gs \<and> \<not> compiled_rule_matches_user c' ps gs)"
proof -
  let ?r = "\<lparr>rd_match = Some ''any'', rd_match_groups = Some
     [\<lparr>mg_match = Some ''any'', mg_rights = None, mg_groups = None\<rparr>]\<rparr>"
  let ?c = "the (compile_access_rule ''read'' ?r)"
  have "validate_access_rule ?r" by (simp add: rule_eval)
  moreover have "compile_access_rule ''read'' ?r = Some ?c" by (simp add: compile_access_rule_def)
  moreover have "compile_access_rule ''read'' (serialize_compiled_access_rule ?c) =
      Some \<lparr>cr_access_type = ''read'', cr_match_mode = ''any'', cr_match_groups = []\<rparr>"
    by (simp add: compile_access_rule_def serialize_compiled_access_rule_def serialize_group_def
        compile_group_def empty_group_data_def get_or_def Let_def)
  moreover have "compiled_rule_matches_user ?c ps gs" for ps gs
    by (simp add: compile_access_rule_def compiled_rule_matches_user_def get_or_def
        compile_group_def empty_group_data_def compiled_group_matches_user_def side_matches_def
        require_list_def Let_def)
  moreover have "\<not> compiled_rule_matches_user
      \<lparr>cr_access_type = ''read'', cr_match_mode = ''any'', cr_match_groups = []\<rparr> ps gs" for ps gs
    by (simp add: compiled_rule_matches_user_def)
  ultimately show ?thesis by blast
qed

end
