(* ===== verification/AccessStore.thy ===== *)
theory AccessStore
  imports AccessRules "HOL-Library.List_Lexorder" "HOL-Library.Char_ord" "HOL-Library.Product_Lexorder"
begin

text \<open>
  The persisted rule sets: nodes, rule sets and rule rows, the queries and updates of
  \<open>src/include/domains/access/authorization/compiled_rules.py\<close> and \<open>set_access_rules\<close> of
  \<open>access_rules.py\<close>.  Tables are lists of rows; a join is a list comprehension.  Deleting a
  rule set deletes its rules (\<open>ON DELETE CASCADE\<close> and the ORM cascade).
\<close>

section \<open>Tables\<close>

record node =
  nd_id :: string
  nd_type :: string
  nd_parent :: "string option"
  nd_inherit :: bool
  nd_rule_set_id :: "string option"

record rule_set =
  rs_id :: string
  rs_node_id :: string

record rule_row =
  rr_id :: nat
  rr_rule_set_id :: string
  rr_rule :: compiled_rule

record access_db =
  db_nodes :: "node list"
  db_rule_sets :: "rule_set list"
  db_rules :: "rule_row list"
  db_next_rule_id :: nat

datatype access_error =
    InvalidAccessType string
  | NullRuleData string
  | RuleSchemaViolation string
  | InvalidTargetType string
  | InvalidTargets "string list"
  | TargetMissing
  | RulesChangedConcurrently
  | CycleDetected
  | IntegrityError

definition AVAILABLE_ACCESS_TYPES :: "string list" where
  "AVAILABLE_ACCESS_TYPES = [''read'', ''write'', ''move'', ''manage'']"

definition access_rule_types_for :: "string \<Rightarrow> access_error + string list" where
  "access_rule_types_for access_type =
     (if access_type \<notin> set AVAILABLE_ACCESS_TYPES then Inl (InvalidAccessType access_type)
      else if access_type = ''read'' then Inr [''read'']
      else if access_type = ''write'' then Inr [''read'', ''write'']
      else if access_type = ''move'' then Inr [''move'']
      else Inr [''read'', ''manage''])"

section \<open>Queries\<close>

definition active_compiled_rule_conditions :: "rule_row \<Rightarrow> rule_set \<Rightarrow> node \<Rightarrow> string \<Rightarrow> string \<Rightarrow> bool" where
  "active_compiled_rule_conditions rule rule_set node target_type target_id \<longleftrightarrow>
     rr_rule_set_id rule = rs_id rule_set \<and> rs_node_id rule_set = nd_id node \<and>
     nd_id node = target_id \<and> nd_type node = target_type \<and>
     nd_rule_set_id node = Some (rs_id rule_set)"

text \<open>The rows \<open>(rule, rule_set, node)\<close> of the three-way join.\<close>

definition rule_join :: "access_db \<Rightarrow> (rule_row \<times> rule_set \<times> node) list" where
  "rule_join db = List.product (db_rules db) (List.product (db_rule_sets db) (db_nodes db))"

definition get_compiled_access_rules :: "access_db \<Rightarrow> string \<Rightarrow> string \<Rightarrow> rule_row list" where
  "get_compiled_access_rules db target_type target_id =
     sort_key rr_id (map fst (filter (\<lambda>(r, s, n).
        active_compiled_rule_conditions r s n target_type target_id) (rule_join db)))"

text \<open>\<open>itertools.batched\<close>\<close>

function batched :: "nat \<Rightarrow> 'a list \<Rightarrow> 'a list list" where
  "batched n xs = (if xs = [] \<or> n = 0 then [] else take n xs # batched n (drop n xs))"
  by pat_completeness auto
termination
  by (relation "measure (\<lambda>(n, xs). length xs)") auto

declare batched.simps [simp del]

definition QUERY_CHUNK_SIZE :: nat where
  "QUERY_CHUNK_SIZE = 576"

type_synonym target = "string \<times> string"
type_synonym rule_map = "(target, rule_row list) odict"

text \<open>\<open>target_ids_by_type\<close>: the distinct non-empty ids per target type, in first-seen order.\<close>

fun group_targets ::
  "target list \<Rightarrow> (string, string list) odict \<Rightarrow> access_error + (string, string list) odict" where
  "group_targets [] d = Inr d"
| "group_targets ((tt, tid) # rest) d =
     (if tt \<noteq> ''document'' \<and> tt \<noteq> ''directory'' then Inl (InvalidTargetType tt)
      else if tid = '''' then group_targets rest d
      else (let ids = get_or (od_get d tt) []
            in group_targets rest (od_set tt (if tid \<in> set ids then ids else ids @ [tid]) d)))"

text \<open>\<open>rules_by_target.setdefault(key, []).append(rule)\<close>\<close>

definition map_append :: "target \<Rightarrow> rule_row \<Rightarrow> rule_map \<Rightarrow> rule_map" where
  "map_append key rule m = od_set key (get_or (od_get m key) [] @ [rule]) m"

definition fetch_chunk :: "access_db \<Rightarrow> string list option \<Rightarrow> string \<Rightarrow> string list \<Rightarrow> rule_map \<Rightarrow> rule_map" where
  "fetch_chunk db relevant target_type chunk m =
     (let rows = filter (\<lambda>(r, s, n).
            active_compiled_rule_conditions r s n target_type (nd_id n) \<and> nd_id n \<in> set chunk \<and>
            (case relevant of None \<Rightarrow> True
             | Some ts \<Rightarrow> cr_access_type (rr_rule r) \<in> set ts)) (rule_join db)
      in fold (\<lambda>(r, s, n). map_append (target_type, rs_node_id s) r)
           (sort_key (\<lambda>(r, s, n). rr_id r) rows) m)"

definition fetch_compiled_access_rules_for_targets ::
  "access_db \<Rightarrow> target list \<Rightarrow> string option \<Rightarrow> access_error + rule_map" where
  "fetch_compiled_access_rules_for_targets db targets access_type =
     and_then (case access_type of None \<Rightarrow> Inr None
               | Some t \<Rightarrow> and_then (access_rule_types_for t) (\<lambda>ts. Inr (Some ts))) (\<lambda>relevant.
     and_then (group_targets targets []) (\<lambda>by_type.
       Inr (fold (\<lambda>(tt, ids). fold (fetch_chunk db relevant tt) (batched QUERY_CHUNK_SIZE ids))
              by_type [])))"

definition rules_match :: "rule_row list \<Rightarrow> string set \<Rightarrow> string set \<Rightarrow> bool" where
  "rules_match rules ps gs = list_all (\<lambda>r. compiled_rule_matches_user (rr_rule r) ps gs) rules"

definition compiled_rules_allow_from_map ::
  "rule_map \<Rightarrow> string \<Rightarrow> string \<Rightarrow> string set \<Rightarrow> string set \<Rightarrow> string \<Rightarrow> access_error + bool" where
  "compiled_rules_allow_from_map m target_type target_id ps gs access_type =
     and_then (access_rule_types_for access_type) (\<lambda>relevant.
       let rules = filter (\<lambda>r. cr_access_type (rr_rule r) \<in> set relevant)
                     (get_or (od_get m (target_type, target_id)) [])
       in Inr (if rules = [] then True else rules_match rules ps gs))"

definition compiled_rules_allow ::
  "access_db \<Rightarrow> string \<Rightarrow> string \<Rightarrow> string set \<Rightarrow> string set \<Rightarrow> string \<Rightarrow> access_error + bool" where
  "compiled_rules_allow db target_type target_id ps gs access_type =
     and_then (access_rule_types_for access_type) (\<lambda>relevant.
       let rules = map fst (filter (\<lambda>(r, s, n).
             active_compiled_rule_conditions r s n target_type target_id \<and>
             cr_access_type (rr_rule r) \<in> set relevant) (rule_join db))
       in Inr (if rules = [] then True else rules_match rules ps gs))"

section \<open>Updates\<close>

text \<open>Deleting rule sets: their rules go with them; \<open>nodes.access_rule_set_id\<close> is a foreign key
  without an \<open>ON DELETE\<close> action, so a set some node still names cannot be deleted.\<close>

definition delete_rule_sets :: "(rule_set \<Rightarrow> bool) \<Rightarrow> access_db \<Rightarrow> access_error + access_db" where
  "delete_rule_sets doomed db =
     (let ids = map rs_id (filter doomed (db_rule_sets db))
      in if list_ex (\<lambda>n. case nd_rule_set_id n of None \<Rightarrow> False | Some i \<Rightarrow> i \<in> set ids) (db_nodes db)
         then Inl IntegrityError
         else Inr (db\<lparr>db_rule_sets := filter (\<lambda>s. rs_id s \<notin> set ids) (db_rule_sets db),
                      db_rules := filter (\<lambda>r. rr_rule_set_id r \<notin> set ids) (db_rules db)\<rparr>))"

text \<open>The submitted rule documents, per access type; a JSON \<open>null\<close> is \<^const>\<open>None\<close>.\<close>

type_synonym rule_docs = "(string \<times> rule_data list option) list"

fun compile_rules :: "rule_docs \<Rightarrow> compiled_rule list \<Rightarrow> access_error + compiled_rule list" where
  "compile_rules [] acc = Inr acc"
| "compile_rules ((access_type, rules) # rest) acc =
     (if access_type \<notin> set AVAILABLE_ACCESS_TYPES then Inl (InvalidAccessType access_type)
      else case rules of None \<Rightarrow> Inl (NullRuleData access_type)
      | Some rs \<Rightarrow>
          if \<not> validate_access_rules rs then Inl (RuleSchemaViolation access_type)
          else compile_rules rest (acc @ List.map_filter (compile_access_rule access_type) rs))"

definition rule_rows :: "nat \<Rightarrow> string \<Rightarrow> compiled_rule list \<Rightarrow> rule_row list" where
  "rule_rows next_id set_id cs =
     map (\<lambda>(k, c). \<lparr>rr_id = k, rr_rule_set_id = set_id, rr_rule = c\<rparr>) (enumerate next_id cs)"

definition add_rule_set :: "string \<Rightarrow> string \<Rightarrow> compiled_rule list \<Rightarrow> access_db \<Rightarrow> access_db" where
  "add_rule_set new_id target_id cs db =
     db\<lparr>db_rule_sets := db_rule_sets db @ [\<lparr>rs_id = new_id, rs_node_id = target_id\<rparr>],
        db_rules := db_rules db @ rule_rows (db_next_rule_id db) new_id cs,
        db_next_rule_id := db_next_rule_id db + length cs\<rparr>"

definition is_target :: "string \<Rightarrow> string \<Rightarrow> node \<Rightarrow> bool" where
  "is_target target_type target_id n \<longleftrightarrow> nd_id n = target_id \<and> nd_type n = target_type"

definition update_nodes :: "(node \<Rightarrow> bool) \<Rightarrow> (node \<Rightarrow> node) \<Rightarrow> access_db \<Rightarrow> access_db" where
  "update_nodes P f db = db\<lparr>db_nodes := map (\<lambda>n. if P n then f n else n) (db_nodes db)\<rparr>"

text \<open>\<open>new_id\<close> is the token drawn for the new rule set.  \<open>rival\<close> is what another transaction
  made of the target's pointer between the locking read and the compare-and-set update, if
  anything.\<close>

definition set_access_rules ::
  "string \<Rightarrow> string option option \<Rightarrow> access_db \<Rightarrow> string \<Rightarrow> string \<Rightarrow> rule_docs \<Rightarrow> bool \<Rightarrow>
   access_error + access_db" where
  "set_access_rules new_id rival db target_type target_id new_access_rules inherit_parent =
     and_then (compile_rules new_access_rules []) (\<lambda>compiled.
     case find (is_target target_type target_id) (db_nodes db) of None \<Rightarrow> Inl TargetMissing
     | Some node_for_update \<Rightarrow>
       (let old_rule_set_id = nd_rule_set_id node_for_update;
            this = is_target target_type target_id;
            db1 = update_nodes this (\<lambda>n. n\<lparr>nd_inherit := inherit_parent\<rparr>) db;
            new_rule_set_id = (if compiled = [] then None else Some new_id);
            db2 = (if compiled = [] then db1 else add_rule_set new_id target_id compiled db1);
            db3 = (case rival of None \<Rightarrow> db2
                   | Some p \<Rightarrow> update_nodes this (\<lambda>n. n\<lparr>nd_rule_set_id := p\<rparr>) db2);
            matched = (\<lambda>n. this n \<and> nd_rule_set_id n = old_rule_set_id)
        in if length (filter matched (db_nodes db3)) \<noteq> 1 then Inl RulesChangedConcurrently
           else delete_rule_sets (\<lambda>s. rs_node_id s = target_id \<and> Some (rs_id s) \<noteq> new_rule_set_id)
                  (update_nodes matched (\<lambda>n. n\<lparr>nd_rule_set_id := new_rule_set_id\<rparr>) db3)))"

definition delete_chunk :: "string \<Rightarrow> string list \<Rightarrow> access_db \<Rightarrow> access_error + access_db" where
  "delete_chunk target_type chunk db =
     (let matched = map nd_id (filter (\<lambda>n. nd_id n \<in> set chunk \<and> nd_type n = target_type) (db_nodes db));
          rule_set_ids = map rs_id (filter (\<lambda>s. rs_node_id s \<in> set chunk) (db_rule_sets db))
      in if set matched \<noteq> set chunk
         then Inl (InvalidTargets (sort (remdups (filter (\<lambda>i. i \<notin> set matched) chunk))))
         else if rule_set_ids = [] then Inr db
         else delete_rule_sets (\<lambda>s. rs_id s \<in> set rule_set_ids)
                (update_nodes (\<lambda>n. nd_id n \<in> set chunk) (\<lambda>n. n\<lparr>nd_rule_set_id := None\<rparr>) db))"

definition delete_compiled_access_rules_for_targets ::
  "target list \<Rightarrow> access_db \<Rightarrow> access_error + access_db" where
  "delete_compiled_access_rules_for_targets targets db =
     and_then (group_targets targets []) (\<lambda>by_type.
       foldM (\<lambda>(tt, ids). foldM (delete_chunk tt) (batched QUERY_CHUNK_SIZE ids)) by_type db)"

definition delete_compiled_access_rules :: "string \<Rightarrow> string \<Rightarrow> access_db \<Rightarrow> access_error + access_db" where
  "delete_compiled_access_rules target_type target_id =
     delete_compiled_access_rules_for_targets [(target_type, target_id)]"

text \<open>Reading the rules back as documents.\<close>

definition get_access_rules_dict ::
  "access_db \<Rightarrow> string \<Rightarrow> string \<Rightarrow> (string, rule_data list) odict" where
  "get_access_rules_dict db target_type target_id =
     fold (\<lambda>r d. let t = cr_access_type (rr_rule r)
                 in od_set t (get_or (od_get d t) [] @ [serialize_compiled_access_rule (rr_rule r)]) d)
       (get_compiled_access_rules db target_type target_id) []"

definition serialize_access_rules_list :: "rule_row list \<Rightarrow> (nat \<times> rule_data \<times> string) list" where
  "serialize_access_rules_list rules =
     map (\<lambda>r. (rr_id r, serialize_compiled_access_rule (rr_rule r), cr_access_type (rr_rule r))) rules"

definition get_access_rules_list :: "access_db \<Rightarrow> string \<Rightarrow> string \<Rightarrow> (nat \<times> rule_data \<times> string) list" where
  "get_access_rules_list db target_type target_id =
     serialize_access_rules_list (get_compiled_access_rules db target_type target_id)"

definition get_access_rules_list_from_map :: "rule_map \<Rightarrow> string \<Rightarrow> string \<Rightarrow> (nat \<times> rule_data \<times> string) list" where
  "get_access_rules_list_from_map m target_type target_id =
     serialize_access_rules_list (get_or (od_get m (target_type, target_id)) [])"

section \<open>Integrity check and repair\<close>

definition find_rule_set :: "access_db \<Rightarrow> string option \<Rightarrow> rule_set option" where
  "find_rule_set db i = (case i of None \<Rightarrow> None | Some i \<Rightarrow> find (\<lambda>s. rs_id s = i) (db_rule_sets db))"

definition rules_of :: "access_db \<Rightarrow> rule_set \<Rightarrow> rule_row list" where
  "rules_of db s = filter (\<lambda>r. rr_rule_set_id r = rs_id s) (db_rules db)"

definition invalid_mode :: "string \<Rightarrow> bool" where
  "invalid_mode m \<longleftrightarrow> m \<noteq> ''all'' \<and> m \<noteq> ''any''"

definition compiled_rule_has_invalid_shape :: "access_db \<Rightarrow> rule_row \<Rightarrow> bool" where
  "compiled_rule_has_invalid_shape db r \<longleftrightarrow>
     find_rule_set db (Some (rr_rule_set_id r)) = None \<or>
     cr_access_type (rr_rule r) \<notin> set AVAILABLE_ACCESS_TYPES \<or>
     invalid_mode (cr_match_mode (rr_rule r)) \<or>
     list_ex (\<lambda>g. invalid_mode (cg_match_mode g) \<or> invalid_mode (cg_rights_match_mode g) \<or>
       invalid_mode (cg_groups_match_mode g)) (cr_match_groups (rr_rule r))"

definition node_type_or :: "access_db \<Rightarrow> string \<Rightarrow> string" where
  "node_type_or db i = (case find (\<lambda>n. nd_id n = i) (db_nodes db) of
     None \<Rightarrow> ''node'' | Some n \<Rightarrow> nd_type n)"

definition valid_node_ids :: "access_db \<Rightarrow> string set" where
  "valid_node_ids db = set (map nd_id (db_nodes db))"

definition active_rule_set_ids :: "access_db \<Rightarrow> string set" where
  "active_rule_set_ids db = set (List.map_filter nd_rule_set_id (db_nodes db))"

definition node_mismatch :: "access_db \<Rightarrow> node \<Rightarrow> target list" where
  "node_mismatch db n =
     (case find_rule_set db (nd_rule_set_id n) of
        None \<Rightarrow> if nd_rule_set_id n \<noteq> None then [(nd_type n, nd_id n)] else []
      | Some s \<Rightarrow> if rs_node_id s \<noteq> nd_id n \<or> rules_of db s = [] then [(nd_type n, nd_id n)] else [])"

definition rule_set_mismatch :: "bool \<Rightarrow> access_db \<Rightarrow> rule_set \<Rightarrow> target list" where
  "rule_set_mismatch include_orphans db s =
     (if include_orphans \<and> rs_node_id s \<notin> valid_node_ids db then [(''node'', rs_node_id s)]
      else if rs_node_id s \<in> valid_node_ids db \<and> rs_id s \<notin> active_rule_set_ids db
      then [(node_type_or db (rs_node_id s), rs_node_id s)]
      else if rules_of db s = [] then [(node_type_or db (rs_node_id s), rs_node_id s)] else [])"

definition rule_mismatch :: "bool \<Rightarrow> access_db \<Rightarrow> rule_row \<Rightarrow> target list" where
  "rule_mismatch include_orphans db r =
     (case find_rule_set db (Some (rr_rule_set_id r)) of
        None \<Rightarrow> [(''rule_set'', rr_rule_set_id r)]
      | Some s \<Rightarrow>
          if compiled_rule_has_invalid_shape db r \<or>
             (include_orphans \<and> rs_node_id s \<notin> valid_node_ids db)
          then [(node_type_or db (rs_node_id s), rs_node_id s)] else [])"

definition find_compiled_access_rule_mismatches :: "bool \<Rightarrow> access_db \<Rightarrow> target list" where
  "find_compiled_access_rule_mismatches include_orphans db =
     sort (remdups (concat (map (node_mismatch db) (db_nodes db)) @
       concat (map (rule_set_mismatch include_orphans db) (db_rule_sets db)) @
       concat (map (rule_mismatch include_orphans db) (db_rules db))))"

text \<open>The four passes of the repair: dangling or foreign pointers, unused rule sets, malformed
  rules, and the rule sets the third pass emptied.\<close>

definition repair_nodes :: "access_db \<Rightarrow> access_db" where
  "repair_nodes db = update_nodes (\<lambda>n. case find_rule_set db (nd_rule_set_id n) of
       None \<Rightarrow> True | Some s \<Rightarrow> rs_node_id s \<noteq> nd_id n \<or> rules_of db s = [])
     (\<lambda>n. n\<lparr>nd_rule_set_id := None\<rparr>) db"

definition repair_rule_sets :: "access_db \<Rightarrow> access_error + access_db" where
  "repair_rule_sets db = delete_rule_sets (\<lambda>s. rs_node_id s \<notin> valid_node_ids db \<or>
     rs_id s \<notin> active_rule_set_ids db \<or> rules_of db s = []) db"

definition repair_rules :: "access_db \<Rightarrow> access_db" where
  "repair_rules db =
     db\<lparr>db_rules := filter (\<lambda>r. \<not> compiled_rule_has_invalid_shape db r) (db_rules db)\<rparr>"

definition drop_one :: "rule_set \<Rightarrow> access_db \<Rightarrow> access_error + access_db" where
  "drop_one s db = delete_rule_sets (\<lambda>s'. rs_id s' = rs_id s)
     (update_nodes (\<lambda>n. nd_id n = rs_node_id s \<and> nd_rule_set_id n = Some (rs_id s))
        (\<lambda>n. n\<lparr>nd_rule_set_id := None\<rparr>) db)"

definition drop_emptied :: "access_db \<Rightarrow> access_error + access_db" where
  "drop_emptied db = foldM drop_one (filter (\<lambda>s. rules_of db s = []) (db_rule_sets db)) db"

definition repair_compiled_access_rules :: "access_db \<Rightarrow> access_error + (access_db \<times> target list)" where
  "repair_compiled_access_rules db =
     and_then (repair_rule_sets (repair_nodes db)) (\<lambda>db1.
     and_then (drop_emptied (repair_rules db1)) (\<lambda>db2.
       Inr (db2, find_compiled_access_rule_mismatches True db2)))"

lemma rules_match_collapse: "(if rules = [] then True else rules_match rules ps gs) = rules_match rules ps gs"
  by (simp add: rules_match_def)

section \<open>Batch loading agrees with the direct query\<close>

lemma concat_batched: "0 < n \<Longrightarrow> concat (batched n xs) = xs"
proof (induction n xs rule: batched.induct)
  case (1 n xs)
  then show ?case by (subst batched.simps) auto
qed

lemma od_get_map_append:
  "od_get (map_append k r m) k' = (if k' = k then Some (get_or (od_get m k) [] @ [r]) else od_get m k')"
  by (simp add: map_append_def)

lemma fold_map_append:
  "get_or (od_get (fold (\<lambda>(r, s, n). map_append (tt, rs_node_id s) r) rows m) (tt', i)) [] =
   get_or (od_get m (tt', i)) [] @
     (if tt' = tt then map fst (filter (\<lambda>(r, s, n). rs_node_id s = i) rows) else [])"
  by (induction rows arbitrary: m) (auto simp: od_get_map_append get_or_def)

text \<open>The rows of one target in one chunk.\<close>

definition target_rows :: "access_db \<Rightarrow> string list option \<Rightarrow> string \<Rightarrow> string \<Rightarrow> rule_row list" where
  "target_rows db relevant tt i = map fst (sort_key (\<lambda>(r, s, n). rr_id r) (filter (\<lambda>(r, s, n).
     active_compiled_rule_conditions r s n tt i \<and>
     (case relevant of None \<Rightarrow> True | Some ts \<Rightarrow> cr_access_type (rr_rule r) \<in> set ts)) (rule_join db)))"

lemma get_fetch_chunk:
  "get_or (od_get (fetch_chunk db relevant tt chunk m) (tt', i)) [] =
   get_or (od_get m (tt', i)) [] @
     (if tt' = tt \<and> i \<in> set chunk then target_rows db relevant tt i else [])"
proof -
  let ?P = "\<lambda>(r, s, n). active_compiled_rule_conditions r s n tt (nd_id n) \<and> nd_id n \<in> set chunk \<and>
      (case relevant of None \<Rightarrow> True | Some ts \<Rightarrow> cr_access_type (rr_rule r) \<in> set ts)"
  have "filter (\<lambda>(r, s, n). rs_node_id s = i) (sort_key (\<lambda>(r, s, n). rr_id r) (filter ?P (rule_join db)))
    = sort_key (\<lambda>(r, s, n). rr_id r) (filter (\<lambda>x. ?P x \<and> (case x of (r, s, n) \<Rightarrow> rs_node_id s = i)) (rule_join db))"
    by (simp add: filter_sort conj_commute)
  also have "filter (\<lambda>x. ?P x \<and> (case x of (r, s, n) \<Rightarrow> rs_node_id s = i)) (rule_join db) =
     (if i \<in> set chunk then filter (\<lambda>(r, s, n). active_compiled_rule_conditions r s n tt i \<and>
       (case relevant of None \<Rightarrow> True | Some ts \<Rightarrow> cr_access_type (rr_rule r) \<in> set ts)) (rule_join db) else [])"
    by (cases "i \<in> set chunk")
      (auto simp: active_compiled_rule_conditions_def filter_empty_conv intro!: filter_cong)
  finally show ?thesis
    unfolding fetch_chunk_def Let_def fold_map_append target_rows_def by (simp only:) simp
qed

lemma get_fetch_chunks:
  "distinct (concat chunks) \<Longrightarrow>
   get_or (od_get (fold (fetch_chunk db relevant tt) chunks m) (tt', i)) [] =
   get_or (od_get m (tt', i)) [] @
     (if tt' = tt \<and> i \<in> set (concat chunks) then target_rows db relevant tt i else [])"
  by (induction chunks arbitrary: m) (auto simp: get_fetch_chunk)

lemma get_fetch_types:
  assumes "od_wf by_type" "\<forall>p \<in> set by_type. distinct (snd p)"
  shows "get_or (od_get (fold (\<lambda>(tt, ids). fold (fetch_chunk db relevant tt)
      (batched QUERY_CHUNK_SIZE ids)) by_type m) (tt', i)) [] =
    get_or (od_get m (tt', i)) [] @
      (if i \<in> set (get_or (od_get by_type tt') []) then target_rows db relevant tt' i else [])"
  using assms
proof (induction by_type arbitrary: m)
  case (Cons p by_type)
  obtain tt ids where p: "p = (tt, ids)" by fastforce
  have c: "concat (batched QUERY_CHUNK_SIZE ids) = ids"
    by (rule concat_batched) (simp add: QUERY_CHUNK_SIZE_def)
  have wf: "od_wf by_type" and nin: "tt \<notin> set (od_keys by_type)"
    using Cons.prems(1) p by (auto simp: od_wf_def)
  then have none: "od_get by_type tt = None" by (simp add: map_of_eq_None_iff)
  have d: "distinct (concat (batched QUERY_CHUNK_SIZE ids))" using Cons.prems(2) p c by simp
  show ?case
    using Cons.IH[OF wf] Cons.prems(2) get_fetch_chunks[OF d] none p c
    by (auto simp: get_or_def split: option.splits)
qed (simp add: get_or_def)

lemma dict_lists_set:
  "\<forall>p \<in> set d. distinct (snd p) \<Longrightarrow> distinct ids \<Longrightarrow> \<forall>p \<in> set (od_set k ids d). distinct (snd p)"
  by (induction d) auto

lemma dict_lists_get: "\<forall>p \<in> set d. distinct (snd p) \<Longrightarrow> distinct (get_or (od_get d k) [])"
  by (auto simp: get_or_def dest!: map_of_SomeD split: option.splits)

lemma group_targets_wf:
  "group_targets targets d = Inr by_type \<Longrightarrow> od_wf d \<Longrightarrow> od_wf by_type"
  by (induction targets d rule: group_targets.induct) (auto simp: Let_def split: if_splits)

lemma group_targets_distinct:
  "group_targets targets d = Inr by_type \<Longrightarrow> \<forall>p \<in> set d. distinct (snd p) \<Longrightarrow>
   \<forall>p \<in> set by_type. distinct (snd p)"
proof (induction targets d rule: group_targets.induct)
  case (2 tt tid rest d)
  let ?ids = "get_or (od_get d tt) []"
  have "distinct (if tid \<in> set ?ids then ?ids else ?ids @ [tid])"
    using dict_lists_get[OF "2.prems"(2)] by simp
  then have s: "\<forall>p \<in> set (od_set tt (if tid \<in> set ?ids then ?ids else ?ids @ [tid]) d). distinct (snd p)"
    by (rule dict_lists_set[OF "2.prems"(2)])
  show ?case
  proof (cases "(tt \<noteq> ''document'' \<and> tt \<noteq> ''directory'') \<or> tid = ''''")
    case True
    then show ?thesis using "2.IH"(1) "2.prems" by (simp split: if_splits)
  next
    case False
    then have "group_targets rest (od_set tt (if tid \<in> set ?ids then ?ids else ?ids @ [tid]) d) = Inr by_type"
      using "2.prems"(1) by (simp add: Let_def split: if_splits)
    then show ?thesis using "2.IH"(2) s False by blast
  qed
qed simp

lemma get_or_set: "get_or (od_get (od_set k v d) k') w = (if k' = k then v else get_or (od_get d k') w)"
  by (simp add: get_or_def)

lemma group_targets_ids:
  "group_targets targets d = Inr by_type \<Longrightarrow>
   i \<in> set (get_or (od_get by_type tt) []) \<longleftrightarrow>
     i \<in> set (get_or (od_get d tt) []) \<or> (i \<noteq> '''' \<and> (tt, i) \<in> set targets)"
proof (induction targets d rule: group_targets.induct)
  case (2 tt' tid rest d)
  show ?case
  proof (cases "(tt' \<noteq> ''document'' \<and> tt' \<noteq> ''directory'') \<or> tid = ''''")
    case True
    then show ?thesis using "2.IH"(1) "2.prems" by (auto split: if_splits)
  next
    case False
    let ?ids = "get_or (od_get d tt') []"
    have "group_targets rest (od_set tt' (if tid \<in> set ?ids then ?ids else ?ids @ [tid]) d) = Inr by_type"
      using "2.prems"(1) False by (simp add: Let_def split: if_splits)
    then have "i \<in> set (get_or (od_get by_type tt) []) \<longleftrightarrow> i \<in> set (get_or (od_get (od_set tt'
        (if tid \<in> set ?ids then ?ids else ?ids @ [tid]) d) tt) []) \<or> (i \<noteq> '''' \<and> (tt, i) \<in> set rest)"
      using "2.IH"(2) False by blast
    then show ?thesis using False by (cases "tt = tt'") (auto simp: get_or_def split: if_splits)
  qed
qed simp

text \<open>\<open>sort_key\<close> keeps the rows; the decision does not depend on their order.\<close>

lemma target_rows_match:
  "list_all P (target_rows db (Some ts) tt i) = list_all P (map fst (filter (\<lambda>(r, s, n).
     active_compiled_rule_conditions r s n tt i \<and> cr_access_type (rr_rule r) \<in> set ts) (rule_join db)))"
  by (simp add: target_rows_def list_all_iff)

definition relevant_row :: "string list option \<Rightarrow> rule_row \<times> rule_set \<times> node \<Rightarrow> bool" where
  "relevant_row relevant x = (case relevant of None \<Rightarrow> True
     | Some ts \<Rightarrow> cr_access_type (rr_rule (fst x)) \<in> set ts)"

lemma target_rows_alt: "target_rows db relevant tt i = map fst (sort_key (\<lambda>x. rr_id (fst x))
    (filter (\<lambda>x. active_compiled_rule_conditions (fst x) (fst (snd x)) (snd (snd x)) tt i \<and>
       relevant_row relevant x) (rule_join db)))"
  by (simp add: target_rows_def relevant_row_def case_prod_unfold)

lemma target_rows_types:
  assumes "relevant = None \<or> relevant = Some ts"
  shows "filter (\<lambda>r. cr_access_type (rr_rule r) \<in> set ts) (target_rows db relevant tt i) =
    target_rows db (Some ts) tt i"
proof -
  have "(\<lambda>x. (cr_access_type (rr_rule (fst x)) \<in> set ts) \<and>
        active_compiled_rule_conditions (fst x) (fst (snd x)) (snd (snd x)) tt i \<and> relevant_row relevant x)
    = (\<lambda>x. active_compiled_rule_conditions (fst x) (fst (snd x)) (snd (snd x)) tt i \<and> relevant_row (Some ts) x)"
    using assms by (auto simp: relevant_row_def)
  then show ?thesis
    unfolding target_rows_alt filter_map filter_sort filter_filter o_def by (simp add: conj_ac)
qed

section \<open>The rules in force\<close>

lemma rule_join_iff [simp]: "(r, s, n) \<in> set (rule_join db) \<longleftrightarrow>
    r \<in> set (db_rules db) \<and> s \<in> set (db_rule_sets db) \<and> n \<in> set (db_nodes db)"
  by (auto simp: rule_join_def)

text \<open>The rules in force for a target.\<close>

definition in_force :: "access_db \<Rightarrow> string \<Rightarrow> string \<Rightarrow> rule_row \<Rightarrow> bool" where
  "in_force db tt i r \<longleftrightarrow> r \<in> set (db_rules db) \<and>
     (\<exists>s n. s \<in> set (db_rule_sets db) \<and> n \<in> set (db_nodes db) \<and>
        active_compiled_rule_conditions r s n tt i)"

lemma compiled_rules_allow_iff:
  "compiled_rules_allow db tt i ps gs access_type =
     and_then (access_rule_types_for access_type) (\<lambda>ts. Inr (\<forall>r. in_force db tt i r \<longrightarrow>
       cr_access_type (rr_rule r) \<in> set ts \<longrightarrow> compiled_rule_matches_user (rr_rule r) ps gs))"
  unfolding compiled_rules_allow_def Let_def rules_match_collapse
  by (cases "access_rule_types_for access_type")
    (auto simp: rules_match_def list_all_iff in_force_def)

lemma get_compiled_access_rules_set:
  "set (get_compiled_access_rules db tt i) = {r. in_force db tt i r}"
  by (force simp: get_compiled_access_rules_def in_force_def)

lemma in_force_cong:
  assumes "\<And>r. in_force db tt i r = in_force db' tt i r"
  shows "compiled_rules_allow db tt i = compiled_rules_allow db' tt i"
  using assms by (intro ext) (simp add: compiled_rules_allow_iff)

lemma compile_rules_acc:
  "compile_rules docs acc = Inr cs \<Longrightarrow> set cs = set acc \<union>
     {c. \<exists>t rs r. (t, Some rs) \<in> set docs \<and> r \<in> set rs \<and> compile_access_rule t r = Some c}"
proof (induction docs acc arbitrary: cs rule: compile_rules.induct)
  case (2 t rules rest acc)
  from "2.prems" obtain rs where rules: "rules = Some rs" and
    rest: "compile_rules rest (acc @ List.map_filter (compile_access_rule t) rs) = Inr cs" and
    ok: "t \<in> set AVAILABLE_ACCESS_TYPES" "validate_access_rules rs"
    by (auto split: if_splits option.splits)
  have mf: "set (List.map_filter (compile_access_rule t) rs) = {c. \<exists>r \<in> set rs. compile_access_rule t r = Some c}"
    by (auto simp: map_filter_def) force
  have "set cs = set (acc @ List.map_filter (compile_access_rule t) rs) \<union>
     {c. \<exists>t rs r. (t, Some rs) \<in> set rest \<and> r \<in> set rs \<and> compile_access_rule t r = Some c}"
    using "2.IH" rules ok rest by blast
  then show ?case unfolding rules set_append mf by auto
qed simp

lemma compile_rules_valid:
  "compile_rules docs acc = Inr cs \<Longrightarrow> (t, rules) \<in> set docs \<Longrightarrow>
     t \<in> set AVAILABLE_ACCESS_TYPES \<and> (\<exists>rs. rules = Some rs \<and> (\<forall>r \<in> set rs. validate_access_rule r))"
proof (induction docs acc arbitrary: cs rule: compile_rules.induct)
  case (2 t' rules' rest acc)
  then show ?case
    by (auto simp: validate_access_rules_def list_all_iff split: if_splits option.splits)
qed simp

text \<open>What the compiled documents require, read off the documents.\<close>

definition docs_hold :: "rule_docs \<Rightarrow> string list \<Rightarrow> string set \<Rightarrow> string set \<Rightarrow> bool" where
  "docs_hold docs ts ps gs \<longleftrightarrow> list_all (\<lambda>(t, rules). t \<in> set ts \<longrightarrow>
     list_all (\<lambda>r. rule_holds r ps gs) (get_or rules [])) docs"

lemma compile_rules_meaning:
  assumes "compile_rules docs [] = Inr cs"
  shows "(\<forall>c \<in> set cs. cr_access_type c \<in> set ts \<longrightarrow> compiled_rule_matches_user c ps gs) = docs_hold docs ts ps gs"
proof -
  have each: "(\<forall>c. compile_access_rule t r = Some c \<longrightarrow> cr_access_type c \<in> set ts \<longrightarrow>
      compiled_rule_matches_user c ps gs) = (t \<in> set ts \<longrightarrow> rule_holds r ps gs)"
    if doc: "(t, Some rs) \<in> set docs" and rin: "r \<in> set rs" for t rs r
  proof -
    have "validate_access_rule r" using compile_rules_valid[OF assms doc] rin by auto
    then show ?thesis by (rule compile_valid_rule[of r t]) simp
  qed
  have some: "(t, rules) \<in> set docs \<Longrightarrow> \<exists>rs. rules = Some rs" for t rules
    using compile_rules_valid[OF assms] by blast
  have "docs_hold docs ts ps gs = (\<forall>t rs r. (t, Some rs) \<in> set docs \<longrightarrow> r \<in> set rs \<longrightarrow> t \<in> set ts \<longrightarrow> rule_holds r ps gs)"
    unfolding docs_hold_def list_all_iff using some by (fastforce simp: get_or_def)
  then show ?thesis
    unfolding compile_rules_acc[OF assms] using each by simp blast
qed

section \<open>Properties\<close>

lemma batch_rules_decide:
  assumes "fetch_compiled_access_rules_for_targets db targets loaded = Inr m"
    and "(target_type, target_id) \<in> set targets" "target_id \<noteq> ''''"
    and "loaded = None \<or> loaded = Some access_type"
  shows "compiled_rules_allow_from_map m target_type target_id ps gs access_type =
    compiled_rules_allow db target_type target_id ps gs access_type"
proof (cases "access_rule_types_for access_type")
  case (Inl e)
  then show ?thesis by (simp add: compiled_rules_allow_from_map_def compiled_rules_allow_def)
next
  case (Inr ts)
  obtain relevant by_type where rel: "relevant = None \<or> relevant = Some ts"
    and bt: "group_targets targets [] = Inr by_type"
    and m: "m = fold (\<lambda>(tt, ids). fold (fetch_chunk db relevant tt) (batched QUERY_CHUNK_SIZE ids)) by_type []"
    using assms(1,4) Inr
    by (auto simp: fetch_compiled_access_rules_for_targets_def and_then_Inr split: option.splits)
  have "get_or (od_get m (target_type, target_id)) [] = target_rows db relevant target_type target_id"
    using get_fetch_types[of by_type db relevant "[]" target_type target_id]
      group_targets_wf[OF bt] group_targets_distinct[OF bt]
      group_targets_ids[OF bt, of target_id target_type] assms(2,3) m
    by (simp add: get_or_def)
  moreover have "filter (\<lambda>r. cr_access_type (rr_rule r) \<in> set ts) (target_rows db relevant target_type target_id)
      = target_rows db (Some ts) target_type target_id"
    by (rule target_rows_types[OF rel])
  ultimately show ?thesis
    using Inr target_rows_match[of "\<lambda>r. compiled_rule_matches_user (rr_rule r) ps gs" db ts target_type target_id]
    unfolding compiled_rules_allow_from_map_def compiled_rules_allow_def Let_def rules_match_collapse
    by (simp add: rules_match_def)
qed

text \<open>The batch loader with its chunked queries gives the same decision as the per-object
  query, for every target handed to it, whether it loads one access type or all of them.\<close>

lemma batch_rules_agree:
  assumes "fetch_compiled_access_rules_for_targets db targets loaded = Inr m"
    and "(target_type, target_id) \<in> set targets" "target_id \<noteq> ''''"
    and "loaded = None \<or> loaded = Some access_type"
  shows "compiled_rules_allow_from_map m target_type target_id ps gs access_type =
    compiled_rules_allow db target_type target_id ps gs access_type"
  using assms by (rule batch_rules_decide)

lemma update_nodes_simps [simp]:
  "db_rules (update_nodes P f db) = db_rules db"
  "db_rule_sets (update_nodes P f db) = db_rule_sets db"
  "db_nodes (update_nodes P f db) = map (\<lambda>n. if P n then f n else n) (db_nodes db)"
  by (simp_all add: update_nodes_def)

lemma add_rule_set_simps [simp]:
  "db_rules (add_rule_set new_id i cs db) = db_rules db @ rule_rows (db_next_rule_id db) new_id cs"
  "db_rule_sets (add_rule_set new_id i cs db) = db_rule_sets db @ [\<lparr>rs_id = new_id, rs_node_id = i\<rparr>]"
  "db_nodes (add_rule_set new_id i cs db) = db_nodes db"
  by (simp_all add: add_rule_set_def)

lemma rule_rows_rules: "rr_rule ` set (rule_rows k new_id cs) = set cs"
proof -
  have "map rr_rule (rule_rows k new_id cs) = cs"
    by (simp add: rule_rows_def o_def case_prod_unfold)
  then show ?thesis by (metis set_map)
qed

lemma rule_rows_set_id: "r \<in> set (rule_rows k new_id cs) \<Longrightarrow> rr_rule_set_id r = new_id"
  by (auto simp: rule_rows_def)

text \<open>A foreign key without an \<open>ON DELETE\<close> action means that deleting rule sets never changes
  which rules are in force.\<close>

lemma delete_rule_sets_in_force:
  assumes "delete_rule_sets doomed db = Inr db'"
  shows "in_force db' tt i r \<longleftrightarrow> in_force db tt i r"
proof -
  let ?ids = "set (map rs_id (filter doomed (db_rule_sets db)))"
  have db': "db' = db\<lparr>db_rule_sets := filter (\<lambda>s. rs_id s \<notin> ?ids) (db_rule_sets db),
                      db_rules := filter (\<lambda>r. rr_rule_set_id r \<notin> ?ids) (db_rules db)\<rparr>"
    and safe: "\<And>n j. n \<in> set (db_nodes db) \<Longrightarrow> nd_rule_set_id n = Some j \<Longrightarrow> j \<notin> ?ids"
    using assms by (auto simp: delete_rule_sets_def Let_def list_ex_iff split: if_splits)
  show ?thesis
  proof
    assume "in_force db tt i r"
    then obtain s n where *: "r \<in> set (db_rules db)" "s \<in> set (db_rule_sets db)" "n \<in> set (db_nodes db)"
      and c: "active_compiled_rule_conditions r s n tt i" by (auto simp: in_force_def)
    have "rs_id s \<notin> ?ids" "rr_rule_set_id r \<notin> ?ids"
      using safe[OF *(3)] c by (auto simp: active_compiled_rule_conditions_def)
    with * c show "in_force db' tt i r" unfolding db' in_force_def by auto
  qed (auto simp: db' in_force_def)
qed

lemma delete_rule_sets_nodes [simp]: "delete_rule_sets doomed db = Inr db' \<Longrightarrow> db_nodes db' = db_nodes db"
  by (auto simp: delete_rule_sets_def Let_def split: if_splits)

definition fresh_rule_set_id :: "string \<Rightarrow> access_db \<Rightarrow> bool" where
  "fresh_rule_set_id i db \<longleftrightarrow> list_all (\<lambda>s. rs_id s \<noteq> i) (db_rule_sets db) \<and>
     list_all (\<lambda>r. rr_rule_set_id r \<noteq> i) (db_rules db)"

text \<open>The database just before the clean-up, when the compare-and-set succeeds.\<close>

definition repointed :: "string \<Rightarrow> string \<Rightarrow> compiled_rule list \<Rightarrow> string \<Rightarrow> bool \<Rightarrow> access_db \<Rightarrow> access_db" where
  "repointed tt i cs new_id inh db =
     update_nodes (is_target tt i) (\<lambda>n. n\<lparr>nd_inherit := inh,
        nd_rule_set_id := (if cs = [] then None else Some new_id)\<rparr>)
       (if cs = [] then db else add_rule_set new_id i cs db)"

lemma repointed_in_force_target:
  assumes fresh: "fresh_rule_set_id new_id db" and n: "n \<in> set (db_nodes db)" "is_target tt i n"
  shows "in_force (repointed tt i cs new_id inh db) tt i r \<longleftrightarrow>
    r \<in> set (rule_rows (db_next_rule_id db) new_id cs)" (is "in_force ?db tt i r \<longleftrightarrow> _")
proof
  assume "in_force ?db tt i r"
  then obtain s m where *: "r \<in> set (db_rules ?db)" "s \<in> set (db_rule_sets ?db)" "m \<in> set (db_nodes ?db)"
    and c: "active_compiled_rule_conditions r s m tt i" by (auto simp: in_force_def)
  have "nd_rule_set_id m = (if cs = [] then None else Some new_id)"
  proof -
    from *(3) obtain m0 where m0: "m = (if is_target tt i m0 then m0\<lparr>nd_inherit := inh,
        nd_rule_set_id := (if cs = [] then None else Some new_id)\<rparr> else m0)"
      unfolding repointed_def update_nodes_simps set_map by blast
    have "is_target tt i m" using c by (simp add: active_compiled_rule_conditions_def is_target_def)
    then have "is_target tt i m0" using m0 by (metis)
    with m0 show ?thesis by simp
  qed
  then have "cs \<noteq> []" "rr_rule_set_id r = new_id"
    using c by (auto simp: active_compiled_rule_conditions_def split: if_splits)
  then show "r \<in> set (rule_rows (db_next_rule_id db) new_id cs)"
    using *(1) fresh by (auto simp: repointed_def fresh_rule_set_id_def list_all_iff)
next
  assume r: "r \<in> set (rule_rows (db_next_rule_id db) new_id cs)"
  then have cs: "cs \<noteq> []" and ri: "rr_rule_set_id r = new_id" by (auto simp: rule_rows_def)
  let ?m = "n\<lparr>nd_inherit := inh, nd_rule_set_id := Some new_id\<rparr>"
  let ?s = "\<lparr>rs_id = new_id, rs_node_id = i\<rparr>"
  have "r \<in> set (db_rules ?db)" "?s \<in> set (db_rule_sets ?db)" using cs r by (auto simp: repointed_def)
  moreover have "?m \<in> set (db_nodes ?db)" using n cs by (auto simp: repointed_def image_iff intro!: bexI[of _ n])
  moreover have "active_compiled_rule_conditions r ?s ?m tt i"
    using n(2) ri by (simp add: active_compiled_rule_conditions_def is_target_def)
  ultimately show "in_force ?db tt i r" unfolding in_force_def by blast
qed

lemma repointed_simps:
  "db_rules (repointed tt i cs new_id inh db) = db_rules db @ rule_rows (db_next_rule_id db) new_id cs"
  "set (db_rule_sets (repointed tt i cs new_id inh db)) =
     set (db_rule_sets db) \<union> (if cs = [] then {} else {\<lparr>rs_id = new_id, rs_node_id = i\<rparr>})"
  by (auto simp: repointed_def rule_rows_def)

lemma repointed_node_other:
  assumes "nd_id n \<noteq> i"
  shows "n \<in> set (db_nodes (repointed tt i cs new_id inh db)) \<longleftrightarrow> n \<in> set (db_nodes db)"
proof -
  have nt: "\<not> is_target tt i n" using assms by (simp add: is_target_def)
  have "nd_id m = i" if "is_target tt i m" for m using that by (simp add: is_target_def)
  then show ?thesis
    using assms nt unfolding repointed_def update_nodes_simps by (auto simp: image_iff intro: bexI[of _ n])
qed

lemma repointed_in_force_other:
  assumes fresh: "fresh_rule_set_id new_id db" and j: "j \<noteq> i"
  shows "in_force (repointed tt i cs new_id inh db) tt' j r \<longleftrightarrow> in_force db tt' j r"
    (is "in_force ?db tt' j r \<longleftrightarrow> _")
proof
  assume "in_force ?db tt' j r"
  then obtain s n where *: "r \<in> set (db_rules ?db)" "s \<in> set (db_rule_sets ?db)" "n \<in> set (db_nodes ?db)"
    and c: "active_compiled_rule_conditions r s n tt' j" by (auto simp: in_force_def)
  have n: "n \<in> set (db_nodes db)"
    using *(3) c j repointed_node_other[of n i] by (simp add: active_compiled_rule_conditions_def)
  have s: "s \<in> set (db_rule_sets db)"
    using *(2) c j by (auto simp: repointed_simps active_compiled_rule_conditions_def split: if_splits)
  then have "rr_rule_set_id r \<noteq> new_id"
    using fresh c by (auto simp: fresh_rule_set_id_def list_all_iff active_compiled_rule_conditions_def)
  then have "r \<in> set (db_rules db)" using *(1) by (auto simp: repointed_simps dest: rule_rows_set_id)
  with s n c show "in_force db tt' j r" unfolding in_force_def by blast
next
  assume "in_force db tt' j r"
  then obtain s n where *: "r \<in> set (db_rules db)" "s \<in> set (db_rule_sets db)" "n \<in> set (db_nodes db)"
    and c: "active_compiled_rule_conditions r s n tt' j" by (auto simp: in_force_def)
  have "n \<in> set (db_nodes ?db)"
    using *(3) c j repointed_node_other[of n i] by (simp add: active_compiled_rule_conditions_def)
  moreover have "r \<in> set (db_rules ?db)" "s \<in> set (db_rule_sets ?db)" using * by (auto simp: repointed_simps)
  ultimately show "in_force ?db tt' j r" using c unfolding in_force_def by blast
qed

lemma set_access_rules_Inr:
  assumes ok: "set_access_rules new_id rival db tt i docs inh = Inr db'"
    and pk: "distinct (map nd_id (db_nodes db))"
  obtains cs doomed n where "compile_rules docs [] = Inr cs"
    "n \<in> set (db_nodes db)" "is_target tt i n"
    "delete_rule_sets doomed (repointed tt i cs new_id inh db) = Inr db'"
proof -
  from ok obtain cs n where cs: "compile_rules docs [] = Inr cs"
    and f: "find (is_target tt i) (db_nodes db) = Some n"
    by (cases "compile_rules docs []"; cases "find (is_target tt i) (db_nodes db)")
      (simp_all add: set_access_rules_def)
  have n: "n \<in> set (db_nodes db)" "is_target tt i n" using f by (auto simp: find_Some_iff)
  have uniq: "m = n" if "m \<in> set (db_nodes db)" "is_target tt i m" for m
    using pk that n by (auto simp: is_target_def distinct_map dest: inj_onD)
  have tgt [simp]: "is_target tt i (m\<lparr>nd_inherit := a\<rparr>) = is_target tt i m"
    "is_target tt i (m\<lparr>nd_rule_set_id := b\<rparr>) = is_target tt i m" for m a b
    by (simp_all add: is_target_def)
  define db2 where "db2 = (if cs = [] then update_nodes (is_target tt i) (\<lambda>n. n\<lparr>nd_inherit := inh\<rparr>) db
      else add_rule_set new_id i cs (update_nodes (is_target tt i) (\<lambda>n. n\<lparr>nd_inherit := inh\<rparr>) db))"
  define db3 where "db3 = (case rival of None \<Rightarrow> db2
      | Some p \<Rightarrow> update_nodes (is_target tt i) (\<lambda>n. n\<lparr>nd_rule_set_id := p\<rparr>) db2)"
  let ?matched = "\<lambda>m. is_target tt i m \<and> nd_rule_set_id m = nd_rule_set_id n"
  let ?new = "if cs = [] then None else Some new_id"
  have len: "length (filter ?matched (db_nodes db3)) = 1" and
    del: "delete_rule_sets (\<lambda>s. rs_node_id s = i \<and> Some (rs_id s) \<noteq> ?new)
      (update_nodes ?matched (\<lambda>m. m\<lparr>nd_rule_set_id := ?new\<rparr>) db3) = Inr db'"
    using ok cs f unfolding set_access_rules_def db3_def db2_def
    by (auto simp: Let_def split: if_splits)
  have same: "p = nd_rule_set_id n" if "rival = Some p" for p
  proof (rule ccontr)
    assume "p \<noteq> nd_rule_set_id n"
    then have "filter ?matched (db_nodes db3) = []"
      using that by (auto simp: db3_def filter_empty_conv)
    with len show False by simp
  qed
  have pt: "nd_rule_set_id m = nd_rule_set_id n" if "m \<in> set (db_nodes db)" "is_target tt i m" for m
    using uniq[OF that] by simp
  have nodes: "map (\<lambda>m. if ?matched m then m\<lparr>nd_rule_set_id := ?new\<rparr> else m) (db_nodes db3) =
    map (\<lambda>m. if is_target tt i m then m\<lparr>nd_inherit := inh, nd_rule_set_id := ?new\<rparr> else m) (db_nodes db)"
    by (cases rival) (simp_all add: db3_def db2_def pt same)
  have rest: "db_rules db3 = db_rules (repointed tt i cs new_id inh db)"
    "db_rule_sets db3 = db_rule_sets (repointed tt i cs new_id inh db)"
    "db_next_rule_id db3 = db_next_rule_id (repointed tt i cs new_id inh db)"
    unfolding db3_def db2_def repointed_def update_nodes_def add_rule_set_def by (auto split: option.split)
  have upd: "update_nodes ?matched (\<lambda>m. m\<lparr>nd_rule_set_id := ?new\<rparr>) db3 = repointed tt i cs new_id inh db"
  proof (rule access_db.equality)
    show "db_next_rule_id (update_nodes ?matched (\<lambda>m. m\<lparr>nd_rule_set_id := ?new\<rparr>) db3) =
      db_next_rule_id (repointed tt i cs new_id inh db)"
      unfolding rest(3)[symmetric] by (simp add: update_nodes_def)
    show "db_nodes (update_nodes ?matched (\<lambda>m. m\<lparr>nd_rule_set_id := ?new\<rparr>) db3) =
      db_nodes (repointed tt i cs new_id inh db)"
      unfolding repointed_def update_nodes_simps(3) nodes by simp
  qed (simp_all add: rest)
  show ?thesis by (rule that[OF cs n del[unfolded upd]])
qed

text \<open>C2. Rules stored by \<open>set_access_rules\<close> are the rules enforced: afterwards the per-object
  query for the target allows a user exactly when every submitted document of a relevant access
  type holds for that user, and every other object keeps its decision.\<close>

theorem set_access_rules_enforced:
  assumes "set_access_rules new_id rival db tt i docs inherit = Inr db'"
    and "distinct (map nd_id (db_nodes db))" and "fresh_rule_set_id new_id db"
  shows "compiled_rules_allow db' tt i ps gs access_type =
      and_then (access_rule_types_for access_type) (\<lambda>ts. Inr (docs_hold docs ts ps gs))
    \<and> (j \<noteq> i \<longrightarrow> compiled_rules_allow db' tt' j = compiled_rules_allow db tt' j)"
proof (intro conjI impI)
  obtain cs doomed n where cs: "compile_rules docs [] = Inr cs"
    and n: "n \<in> set (db_nodes db)" "is_target tt i n"
    and del: "delete_rule_sets doomed (repointed tt i cs new_id inherit db) = Inr db'"
    by (rule set_access_rules_Inr[OF assms(1,2)])
  note force = delete_rule_sets_in_force[OF del] 
  have "(\<forall>r. in_force db' tt i r \<longrightarrow> cr_access_type (rr_rule r) \<in> set ts \<longrightarrow>
       compiled_rule_matches_user (rr_rule r) ps gs) = docs_hold docs ts ps gs" for ts
    unfolding force repointed_in_force_target[OF assms(3) n]
    using compile_rules_meaning[OF cs, of ts ps gs]
    unfolding rule_rows_rules[of "db_next_rule_id db" new_id cs, symmetric] by blast
  then show "compiled_rules_allow db' tt i ps gs access_type =
      and_then (access_rule_types_for access_type) (\<lambda>ts. Inr (docs_hold docs ts ps gs))"
    unfolding compiled_rules_allow_iff by simp
  show "compiled_rules_allow db' tt' j = compiled_rules_allow db tt' j" if "j \<noteq> i"
    by (rule in_force_cong) (simp only: force repointed_in_force_other[OF assms(3) that])
qed

definition demo_node :: "string \<Rightarrow> node" where
  "demo_node i = \<lparr>nd_id = i, nd_type = ''document'', nd_parent = None, nd_inherit = True, nd_rule_set_id = None\<rparr>"

definition demo_db :: access_db where
  "demo_db = \<lparr>db_nodes = [demo_node ''a'', demo_node ''b''], db_rule_sets = [], db_rules = [],
     db_next_rule_id = 1\<rparr>"

definition demo_docs :: rule_docs where
  "demo_docs = [(''read'', Some [\<lparr>rd_match = Some ''any'', rd_match_groups = Some
     [\<lparr>mg_match = None, mg_rights = None, mg_groups = demo_req ''all'' [''staff'']\<rparr>]\<rparr>])]"

theorem set_access_rules_enforced_witness:
  "\<exists>db'. set_access_rules ''rs'' None demo_db ''document'' ''a'' demo_docs True = Inr db' \<and>
     compiled_rules_allow db' ''document'' ''a'' {} {''guest''} ''write'' = Inr False \<and>
     compiled_rules_allow db' ''document'' ''b'' = compiled_rules_allow demo_db ''document'' ''b''"
proof -
  have "\<not> isl (set_access_rules ''rs'' None demo_db ''document'' ''a'' demo_docs True)" by code_simp
  then obtain db' where ok: "set_access_rules ''rs'' None demo_db ''document'' ''a'' demo_docs True = Inr db'"
    using not_isl_Inr by blast
  have pk: "distinct (map nd_id (db_nodes demo_db))" and fr: "fresh_rule_set_id ''rs'' demo_db"
    by (simp_all add: demo_db_def demo_node_def fresh_rule_set_id_def)
  have "\<not> docs_hold demo_docs [''read'', ''write''] {} {''guest''}"
    by (simp add: demo_docs_def docs_hold_def rule_eval)
  with set_access_rules_enforced[OF ok pk fr, of "{}" "{''guest''}" "''write''" "''b''"] ok
  show ?thesis by (simp add: access_rule_types_for_def AVAILABLE_ACCESS_TYPES_def)
qed

lemma find_rule_set_iff:
  assumes "distinct (map rs_id (db_rule_sets db))"
  shows "find_rule_set db (Some j) = Some s \<longleftrightarrow> s \<in> set (db_rule_sets db) \<and> rs_id s = j"
proof
  assume "s \<in> set (db_rule_sets db) \<and> rs_id s = j"
  then have s: "s \<in> set (db_rule_sets db)" "rs_id s = j" by auto
  obtain s' where f: "find (\<lambda>s. rs_id s = j) (db_rule_sets db) = Some s'"
    using s by (cases "find (\<lambda>s. rs_id s = j) (db_rule_sets db)") (auto simp: find_None_iff)
  then have "s' \<in> set (db_rule_sets db)" "rs_id s' = j" by (auto simp: find_Some_iff)
  then have "s' = s" using s assms by (auto simp: distinct_map dest: inj_onD)
  with f show "find_rule_set db (Some j) = Some s" by (simp add: find_rule_set_def)
qed (auto simp: find_rule_set_def find_Some_iff)

lemma find_rule_set_None: "find_rule_set db (Some j) = None \<longleftrightarrow> j \<notin> rs_id ` set (db_rule_sets db)"
  by (auto simp: find_rule_set_def find_None_iff)

text \<open>The invariant the repair establishes.\<close>

definition well_shaped :: "compiled_rule \<Rightarrow> bool" where
  "well_shaped c \<longleftrightarrow> cr_access_type c \<in> set AVAILABLE_ACCESS_TYPES \<and> \<not> invalid_mode (cr_match_mode c) \<and>
     list_all (\<lambda>g. \<not> invalid_mode (cg_match_mode g) \<and> \<not> invalid_mode (cg_rights_match_mode g) \<and>
       \<not> invalid_mode (cg_groups_match_mode g)) (cr_match_groups c)"

lemma invalid_shape_iff: "compiled_rule_has_invalid_shape db r \<longleftrightarrow>
    rr_rule_set_id r \<notin> rs_id ` set (db_rule_sets db) \<or> \<not> well_shaped (rr_rule r)"
  unfolding compiled_rule_has_invalid_shape_def find_rule_set_None well_shaped_def
  by (auto simp: list_ex_iff list_all_iff)

definition pointers_ok :: "access_db \<Rightarrow> bool" where
  "pointers_ok db \<longleftrightarrow> (\<forall>n \<in> set (db_nodes db). \<forall>j. nd_rule_set_id n = Some j \<longrightarrow>
     (\<exists>s \<in> set (db_rule_sets db). rs_id s = j \<and> rs_node_id s = nd_id n))"

definition sets_ok :: "access_db \<Rightarrow> bool" where
  "sets_ok db \<longleftrightarrow> (\<forall>s \<in> set (db_rule_sets db). \<exists>n \<in> set (db_nodes db).
     nd_id n = rs_node_id s \<and> nd_rule_set_id n = Some (rs_id s))"

definition store_ok :: "access_db \<Rightarrow> bool" where
  "store_ok db \<longleftrightarrow> distinct (map rs_id (db_rule_sets db)) \<and> pointers_ok db \<and> sets_ok db \<and>
     (\<forall>r \<in> set (db_rules db). \<not> compiled_rule_has_invalid_shape db r)"

lemma active_ids: "active_rule_set_ids db = {j. \<exists>n \<in> set (db_nodes db). nd_rule_set_id n = Some j}"
  by (auto simp: active_rule_set_ids_def List.map_filter_def) force

lemma concat_map_Nil: "(\<And>x. x \<in> set xs \<Longrightarrow> f x = []) \<Longrightarrow> concat (map f xs) = []"
  by simp

lemma store_ok_no_mismatches:
  assumes ok: "store_ok db" and ne: "\<And>s. s \<in> set (db_rule_sets db) \<Longrightarrow> rules_of db s \<noteq> []"
  shows "find_compiled_access_rule_mismatches orphans db = []"
proof -
  have pk: "distinct (map rs_id (db_rule_sets db))" and ptr: "pointers_ok db" and sets: "sets_ok db"
    and rules: "\<forall>r \<in> set (db_rules db). \<not> compiled_rule_has_invalid_shape db r"
    using ok by (auto simp: store_ok_def)
  have n: "node_mismatch db n = []" if nin: "n \<in> set (db_nodes db)" for n
  proof (cases "nd_rule_set_id n")
    case (Some j)
    then obtain s where "s \<in> set (db_rule_sets db)" "rs_id s = j" "rs_node_id s = nd_id n"
      using ptr nin unfolding pointers_ok_def by blast
    then show ?thesis using Some ne find_rule_set_iff[OF pk, of j s] by (simp add: node_mismatch_def)
  qed (simp add: node_mismatch_def find_rule_set_def)
  have v: "rs_node_id s \<in> valid_node_ids db" "rs_id s \<in> active_rule_set_ids db"
    if "s \<in> set (db_rule_sets db)" for s
    using sets that unfolding sets_ok_def active_ids by (auto simp: valid_node_ids_def) force
  then have s: "rule_set_mismatch orphans db s = []" if "s \<in> set (db_rule_sets db)" for s
    using ne that by (simp add: rule_set_mismatch_def)
  have r: "rule_mismatch orphans db r = []" if "r \<in> set (db_rules db)" for r
  proof -
    have shape: "\<not> compiled_rule_has_invalid_shape db r" using rules that by blast
    then obtain s where "s \<in> set (db_rule_sets db)" "rs_id s = rr_rule_set_id r"
      by (auto simp: invalid_shape_iff)
    then show ?thesis
      using find_rule_set_iff[OF pk, of "rr_rule_set_id r" s] shape v by (simp add: rule_mismatch_def)
  qed
  show ?thesis
    unfolding find_compiled_access_rule_mismatches_def
    by (simp only: concat_map_Nil[OF n] concat_map_Nil[OF s] concat_map_Nil[OF r]) simp
qed

lemma delete_rule_sets_ok:
  assumes "\<And>n s. n \<in> set (db_nodes db) \<Longrightarrow> s \<in> set (db_rule_sets db) \<Longrightarrow> doomed s \<Longrightarrow>
    nd_rule_set_id n \<noteq> Some (rs_id s)" and "distinct (map rs_id (db_rule_sets db))"
  shows "delete_rule_sets doomed db = Inr (db\<lparr>db_rule_sets := filter (Not \<circ> doomed) (db_rule_sets db),
     db_rules := filter (\<lambda>r. rr_rule_set_id r \<notin> rs_id ` {s \<in> set (db_rule_sets db). doomed s}) (db_rules db)\<rparr>)"
proof -
  let ?ids = "set (map rs_id (filter doomed (db_rule_sets db)))"
  have nl: "\<not> list_ex (\<lambda>n. case nd_rule_set_id n of None \<Rightarrow> False | Some i \<Rightarrow> i \<in> ?ids) (db_nodes db)"
    using assms(1) by (auto simp: list_ex_iff split: option.splits)
  have d: "rs_id s \<in> ?ids \<longleftrightarrow> doomed s" if "s \<in> set (db_rule_sets db)" for s
    using that assms(2) by (auto simp: distinct_map dest: inj_onD)
  have "filter (\<lambda>s. rs_id s \<notin> ?ids) (db_rule_sets db) = filter (Not \<circ> doomed) (db_rule_sets db)"
    by (rule filter_cong[OF refl]) (simp only: d o_apply)
  moreover have "?ids = rs_id ` {s \<in> set (db_rule_sets db). doomed s}" by auto
  ultimately show ?thesis using nl by (simp only: delete_rule_sets_def Let_def if_False)
qed


lemma update_nodes_find [simp]: "find_rule_set (update_nodes P f db) = find_rule_set db"
  by (intro ext) (simp add: find_rule_set_def split: option.split)

lemma update_nodes_rules_of [simp]: "rules_of (update_nodes P f db) = rules_of db"
  by (intro ext) (simp add: rules_of_def)

lemma repair_nodes_pointer:
  assumes "n \<in> set (db_nodes (repair_nodes db))" "nd_rule_set_id n = Some j"
  shows "\<exists>s. find_rule_set db (Some j) = Some s \<and> rs_node_id s = nd_id n \<and> rules_of db s \<noteq> []"
  using assms by (auto simp: repair_nodes_def split: if_splits option.splits)

lemma repair_rule_sets_ok:
  assumes pk: "distinct (map rs_id (db_rule_sets db))"
  obtains db1 where "repair_rule_sets (repair_nodes db) = Inr db1"
    "distinct (map rs_id (db_rule_sets db1))" "pointers_ok db1" "sets_ok db1"
proof -
  let ?db = "repair_nodes db"
  let ?doomed = "\<lambda>s. rs_node_id s \<notin> valid_node_ids ?db \<or> rs_id s \<notin> active_rule_set_ids ?db \<or> rules_of ?db s = []"
  have same: "db_rule_sets ?db = db_rule_sets db" "rules_of ?db = rules_of db"
    by (simp_all add: repair_nodes_def)
  have own: "s = s' \<and> rs_node_id s = nd_id n \<and> \<not> ?doomed s"
    if n: "n \<in> set (db_nodes ?db)" "nd_rule_set_id n = Some (rs_id s)" and s: "s \<in> set (db_rule_sets db)"
      and s': "find_rule_set db (Some (rs_id s)) = Some s'" for n s s'
  proof -
    have "s' = s" using s' s find_rule_set_iff[OF pk, of "rs_id s" s] by simp
    moreover have "rs_node_id s' = nd_id n" "rules_of db s' \<noteq> []" using repair_nodes_pointer[OF n] s' by auto
    ultimately show ?thesis using n unfolding active_ids valid_node_ids_def same by auto
  qed
  have good: "\<not> ?doomed s \<and> rs_node_id s = nd_id n"
    if "n \<in> set (db_nodes ?db)" "nd_rule_set_id n = Some (rs_id s)" "s \<in> set (db_rule_sets db)" for n s
    using own[OF that] find_rule_set_iff[OF pk, of "rs_id s" s] that(3) by blast
  define db1 where "db1 = ?db\<lparr>db_rule_sets := filter (Not \<circ> ?doomed) (db_rule_sets ?db),
     db_rules := filter (\<lambda>r. rr_rule_set_id r \<notin> rs_id ` {s \<in> set (db_rule_sets ?db). ?doomed s}) (db_rules ?db)\<rparr>"
  have nodes: "db_nodes db1 = db_nodes ?db"
    and sets: "db_rule_sets db1 = filter (Not \<circ> ?doomed) (db_rule_sets db)"
    unfolding db1_def by (simp_all add: same)
  have res: "repair_rule_sets ?db = Inr db1"
    unfolding repair_rule_sets_def db1_def
    by (rule delete_rule_sets_ok) (use good pk same in \<open>auto\<close>)
  have "pointers_ok db1"
    unfolding pointers_ok_def nodes
  proof (intro ballI allI impI)
    fix n j assume n: "n \<in> set (db_nodes ?db)" "nd_rule_set_id n = Some j"
    then obtain s where "find_rule_set db (Some j) = Some s" using repair_nodes_pointer by blast
    then have s: "s \<in> set (db_rule_sets db)" "rs_id s = j" using find_rule_set_iff[OF pk] by auto
    with good[of n s] n show "\<exists>s \<in> set (db_rule_sets db1). rs_id s = j \<and> rs_node_id s = nd_id n"
      unfolding sets by auto
  qed
  moreover have "sets_ok db1"
    unfolding sets_ok_def nodes
  proof
    fix s assume "s \<in> set (db_rule_sets db1)"
    then have s: "s \<in> set (db_rule_sets db)" and "rs_id s \<in> active_rule_set_ids ?db" unfolding sets by auto
    then obtain n where "n \<in> set (db_nodes ?db)" "nd_rule_set_id n = Some (rs_id s)" by (auto simp: active_ids)
    then show "\<exists>n \<in> set (db_nodes ?db). nd_id n = rs_node_id s \<and> nd_rule_set_id n = Some (rs_id s)"
      using good s by metis
  qed
  moreover have "distinct (map rs_id (db_rule_sets db1))"
    unfolding sets by (rule distinct_map_filter[OF pk])
  ultimately show ?thesis using that[OF res] by blast
qed

lemma drop_step:
  fixes d s
  assumes ok: "store_ok d" and s: "s \<in> set (db_rule_sets d)" and empty: "rules_of d s = []"
  shows "\<exists>d'. drop_one s d = Inr d' \<and> store_ok d' \<and>
      db_rules d' = db_rules d \<and> set (db_rule_sets d') = set (db_rule_sets d) - {s}"
proof -
  let ?P = "\<lambda>n. nd_id n = rs_node_id s \<and> nd_rule_set_id n = Some (rs_id s)"
  let ?d = "update_nodes ?P (\<lambda>n. n\<lparr>nd_rule_set_id := None\<rparr>) d"
  have pk: "distinct (map rs_id (db_rule_sets d))" and ptr: "pointers_ok d" and sets: "sets_ok d"
    and rules: "\<And>r. r \<in> set (db_rules d) \<Longrightarrow> \<not> compiled_rule_has_invalid_shape d r"
    using ok by (auto simp: store_ok_def)
  have uniq: "s1 = s2" if "s1 \<in> set (db_rule_sets d)" "s2 \<in> set (db_rule_sets d)" "rs_id s1 = rs_id s2" for s1 s2
    using pk that by (auto simp: distinct_map dest: inj_onD)
  have gone: "nd_rule_set_id n \<noteq> Some (rs_id s)" if n: "n \<in> set (db_nodes ?d)" for n
  proof
    assume p: "nd_rule_set_id n = Some (rs_id s)"
    with n have "n \<in> set (db_nodes d)" "\<not> ?P n" by (auto split: if_splits)
    with ptr p obtain s' where "s' \<in> set (db_rule_sets d)" "rs_id s' = rs_id s" "rs_node_id s' = nd_id n"
      unfolding pointers_ok_def by blast
    moreover from this have "s' = s" using uniq s by blast
    ultimately show False using \<open>\<not> ?P n\<close> p by auto
  qed
  have norule: "rr_rule_set_id r \<noteq> rs_id s" if "r \<in> set (db_rules d)" for r
    using empty that by (auto simp: rules_of_def filter_empty_conv)
  define d' where "d' = ?d\<lparr>db_rule_sets := filter (Not \<circ> (\<lambda>s'. rs_id s' = rs_id s)) (db_rule_sets ?d),
     db_rules := filter (\<lambda>r. rr_rule_set_id r \<notin> rs_id ` {s' \<in> set (db_rule_sets ?d). rs_id s' = rs_id s}) (db_rules ?d)\<rparr>"
  have res: "delete_rule_sets (\<lambda>s'. rs_id s' = rs_id s) ?d = Inr d'"
    unfolding d'_def
  proof (rule delete_rule_sets_ok)
    show "nd_rule_set_id n \<noteq> Some (rs_id s')" if "n \<in> set (db_nodes ?d)" "rs_id s' = rs_id s" for n s'
      using gone[OF that(1)] that(2) by simp
  qed (simp add: pk)
  have rs': "set (db_rule_sets d') = set (db_rule_sets d) - {s}"
    unfolding d'_def using uniq s by auto
  have rules': "db_rules d' = db_rules d"
    unfolding d'_def using norule by (auto intro!: filter_True)
  have nodes': "db_nodes d' = db_nodes ?d" by (simp add: d'_def)
  have "pointers_ok d'"
    unfolding pointers_ok_def nodes' rs'
  proof (intro ballI allI impI)
    fix n j assume n: "n \<in> set (db_nodes ?d)" "nd_rule_set_id n = Some j"
    then have "n \<in> set (db_nodes d)" by (auto split: if_splits)
    with n ptr obtain s' where "s' \<in> set (db_rule_sets d)" "rs_id s' = j" "rs_node_id s' = nd_id n"
      unfolding pointers_ok_def by blast
    moreover have "s' \<noteq> s" using gone[OF n(1)] n(2) \<open>rs_id s' = j\<close> by auto
    ultimately show "\<exists>s' \<in> set (db_rule_sets d) - {s}. rs_id s' = j \<and> rs_node_id s' = nd_id n" by blast
  qed
  moreover have "sets_ok d'"
    unfolding sets_ok_def nodes' rs'
  proof
    fix s' assume s': "s' \<in> set (db_rule_sets d) - {s}"
    then obtain n where n: "n \<in> set (db_nodes d)" "nd_id n = rs_node_id s'" "nd_rule_set_id n = Some (rs_id s')"
      using sets unfolding sets_ok_def by blast
    have "\<not> ?P n" using n(3) s' s uniq by auto
    then have "n \<in> set (db_nodes ?d)" using n(1) by (auto simp: image_iff intro!: bexI[of _ n])
    with n show "\<exists>n \<in> set (db_nodes ?d). nd_id n = rs_node_id s' \<and> nd_rule_set_id n = Some (rs_id s')" by blast
  qed
  moreover have "\<not> compiled_rule_has_invalid_shape d' r" if r: "r \<in> set (db_rules d')" for r
  proof -
    have "r \<in> set (db_rules d)" using r rules' by simp
    from rules[OF this] norule[OF this] show ?thesis unfolding invalid_shape_iff rs' by auto
  qed
  moreover have "distinct (map rs_id (db_rule_sets d'))"
    unfolding d'_def using distinct_map_filter[OF pk] by simp
  ultimately show ?thesis using res rs' rules' by (auto simp: store_ok_def drop_one_def)
qed

lemma drop_all:
  assumes "store_ok d" "distinct es" "set es \<subseteq> set (db_rule_sets d)" "\<forall>s \<in> set es. rules_of d s = []"
  shows "\<exists>d'. foldM drop_one es d = Inr d' \<and> store_ok d' \<and> db_rules d' = db_rules d \<and>
    set (db_rule_sets d') = set (db_rule_sets d) - set es"
  using assms
proof (induction es arbitrary: d)
  case (Cons s es)
  then obtain d1 where d1: "drop_one s d = Inr d1" "store_ok d1" "db_rules d1 = db_rules d"
    "set (db_rule_sets d1) = set (db_rule_sets d) - {s}" using drop_step[of d s] by auto
  have "\<forall>s \<in> set es. rules_of d1 s = []" using Cons.prems(4) d1(3) by (simp add: rules_of_def)
  moreover have "set es \<subseteq> set (db_rule_sets d1)" using Cons.prems(2,3) d1(4) by auto
  ultimately obtain d' where "foldM drop_one es d1 = Inr d'" "store_ok d'" "db_rules d' = db_rules d1"
    "set (db_rule_sets d') = set (db_rule_sets d1) - set es"
    using Cons.IH[OF d1(2)] Cons.prems(2) by auto
  then show ?case using d1 by auto
qed simp

text \<open>C32. The repair always finishes: it never violates a foreign key, and afterwards the
  integrity check reports nothing, whatever damage the tables had.\<close>

theorem repair_leaves_no_mismatch:
  assumes "distinct (map rs_id (db_rule_sets db))"
  shows "\<exists>db'. repair_compiled_access_rules db = Inr (db', []) \<and>
    find_compiled_access_rule_mismatches orphans db' = []"
proof -
  obtain db1 where db1: "repair_rule_sets (repair_nodes db) = Inr db1"
    and ok1: "distinct (map rs_id (db_rule_sets db1))" "pointers_ok db1" "sets_ok db1"
    by (rule repair_rule_sets_ok[OF assms])
  let ?d = "repair_rules db1"
  let ?es = "filter (\<lambda>s. rules_of ?d s = []) (db_rule_sets ?d)"
  have ok: "store_ok ?d"
    using ok1 by (auto simp: store_ok_def repair_rules_def pointers_ok_def sets_ok_def invalid_shape_iff)
  have "distinct ?es" using ok by (auto simp: store_ok_def distinct_map)
  then have "\<exists>db2. foldM drop_one ?es ?d = Inr db2 \<and> store_ok db2 \<and> db_rules db2 = db_rules ?d \<and>
      set (db_rule_sets db2) = set (db_rule_sets ?d) - set ?es"
    by (rule drop_all[OF ok]) auto
  then obtain db2 where db2: "drop_emptied ?d = Inr db2" "store_ok db2"
    "db_rules db2 = db_rules ?d" "set (db_rule_sets db2) = set (db_rule_sets ?d) - set ?es"
    unfolding drop_emptied_def by blast
  have "rules_of db2 s \<noteq> []" if "s \<in> set (db_rule_sets db2)" for s
    using that db2(3,4) by (auto simp: rules_of_def)
  then have "find_compiled_access_rule_mismatches b db2 = []" for b
    by (rule store_ok_no_mismatches[OF db2(2)])
  then show ?thesis using db1 db2(1) by (simp add: repair_compiled_access_rules_def)
qed

theorem repair_leaves_no_mismatch_witness:
  "\<exists>db'. repair_compiled_access_rules
      \<lparr>db_nodes = [(demo_node ''a'')\<lparr>nd_rule_set_id := Some ''gone''\<rparr>, demo_node ''b''],
       db_rule_sets = [\<lparr>rs_id = ''r1'', rs_node_id = ''b''\<rparr>, \<lparr>rs_id = ''r2'', rs_node_id = ''zz''\<rparr>],
       db_rules = [], db_next_rule_id = 1\<rparr> = Inr (db', [])"
  using repair_leaves_no_mismatch[of
      "\<lparr>db_nodes = [(demo_node ''a'')\<lparr>nd_rule_set_id := Some ''gone''\<rparr>, demo_node ''b''],
       db_rule_sets = [\<lparr>rs_id = ''r1'', rs_node_id = ''b''\<rparr>, \<lparr>rs_id = ''r2'', rs_node_id = ''zz''\<rparr>],
       db_rules = [], db_next_rule_id = 1\<rparr>"]
  by auto

end
