(* ===== verification/Identity.thy ===== *)
theory Identity
  imports Prelude
begin

text \<open>
  Users, groups and their permissions: the effective-permission functions of
  \<open>src/include/database/models/identity.py\<close>.  Rows are records, tables are lists; the clock is
  the argument \<open>now\<close>.
\<close>

record permission_entry =
  pe_permission :: string
  pe_granted :: bool
  pe_start_time :: "timestamp option"
  pe_end_time :: "timestamp option"

record membership =
  ms_group_name :: string
  ms_start_time :: "timestamp option"
  ms_end_time :: "timestamp option"

record user_group =
  ug_group_name :: string
  ug_permissions :: "permission_entry list"

datatype user_status = ACTIVE | DISABLED

record user =
  us_id :: string
  us_username :: string
  us_status :: user_status
  us_groups :: "membership list"
  us_rights :: "permission_entry list"

section \<open>Grants and revocations\<close>

text \<open>The source skips an entry before its start and after its end; both bounds are inclusive.\<close>

definition window_active :: "timestamp option \<Rightarrow> timestamp option \<Rightarrow> timestamp \<Rightarrow> bool" where
  "window_active start_time end_time now \<longleftrightarrow>
     \<not> (case start_time of None \<Rightarrow> False | Some s \<Rightarrow> s > now) \<and>
     \<not> (case end_time of None \<Rightarrow> False | Some e \<Rightarrow> e < now)"

fun permission_grants_and_revocations ::
  "permission_entry list \<Rightarrow> timestamp \<Rightarrow> string set \<times> string set" where
  "permission_grants_and_revocations [] now = ({}, {})"
| "permission_grants_and_revocations (entry # rest) now =
     (let (granted, revoked) = permission_grants_and_revocations rest now
      in if \<not> window_active (pe_start_time entry) (pe_end_time entry) now then (granted, revoked)
         else if pe_granted entry then (insert (pe_permission entry) granted, revoked)
         else (granted, insert (pe_permission entry) revoked))"

definition effective_permissions :: "permission_entry list \<Rightarrow> timestamp \<Rightarrow> string set" where
  "effective_permissions entries now =
     (let (granted, revoked) = permission_grants_and_revocations entries now in granted - revoked)"

definition all_groups :: "user \<Rightarrow> timestamp \<Rightarrow> string set" where
  "all_groups u now =
     set (map ms_group_name
       (filter (\<lambda>m. (ms_start_time m = None \<or> the (ms_start_time m) \<le> now) \<and>
                    (ms_end_time m = None \<or> the (ms_end_time m) \<ge> now)) (us_groups u)))"

definition find_group :: "user_group list \<Rightarrow> string \<Rightarrow> user_group option" where
  "find_group groups name = find (\<lambda>g. ug_group_name g = name) groups"

fun group_permission_grants_and_revocations ::
  "user_group list \<Rightarrow> membership list \<Rightarrow> timestamp \<Rightarrow> string set \<times> string set" where
  "group_permission_grants_and_revocations groups [] now = ({}, {})"
| "group_permission_grants_and_revocations groups (m # ms) now =
     (let (granted, revoked) = group_permission_grants_and_revocations groups ms now
      in if \<not> window_active (ms_start_time m) (ms_end_time m) now then (granted, revoked)
         else (case find_group groups (ms_group_name m) of
                 None \<Rightarrow> (granted, revoked)
               | Some g \<Rightarrow>
                   (let (gg, gr) = permission_grants_and_revocations (ug_permissions g) now
                    in (granted \<union> gg, revoked \<union> gr))))"

definition own_permissions :: "user \<Rightarrow> timestamp \<Rightarrow> string set" where
  "own_permissions u now = effective_permissions (us_rights u) now"

definition inherited_permissions :: "user_group list \<Rightarrow> user \<Rightarrow> timestamp \<Rightarrow> string set" where
  "inherited_permissions groups u now =
     (let (granted, revoked) = group_permission_grants_and_revocations groups (us_groups u) now
      in granted - revoked)"

definition all_permissions :: "user_group list \<Rightarrow> user \<Rightarrow> timestamp \<Rightarrow> string set" where
  "all_permissions groups u now =
     (let (user_granted, user_revoked) = permission_grants_and_revocations (us_rights u) now;
          (group_granted, group_revoked) =
            group_permission_grants_and_revocations groups (us_groups u) now;
          revoked = user_revoked \<union> group_revoked;
          all_perms = user_granted \<union> group_granted
      in if all_perms \<noteq> {} \<or> revoked \<noteq> {} then all_perms - revoked else {})"

definition group_members :: "(string \<times> membership) list \<Rightarrow> string \<Rightarrow> timestamp \<Rightarrow> string set" where
  "group_members memberships group_name now =
     set (map fst (filter (\<lambda>(uid, m). ms_group_name m = group_name \<and>
       (ms_end_time m = None \<or> the (ms_end_time m) \<ge> now)) memberships))"

text \<open>The setters delete the old rows and append one row per submitted entry.\<close>

definition replace_permission_entries ::
  "permission_entry list \<Rightarrow> permission_entry list \<Rightarrow> permission_entry list" where
  "replace_permission_entries current new_entries = fold (\<lambda>e acc. acc @ [e]) new_entries []"

definition set_own_permissions :: "user \<Rightarrow> permission_entry list \<Rightarrow> user" where
  "set_own_permissions u new_entries =
     u\<lparr>us_rights := replace_permission_entries (us_rights u) new_entries\<rparr>"

text \<open>The groups setter appends a fresh membership per name; the append listener drops members
  that have already expired, which a fresh one (no end time) never has.\<close>

definition filter_expired_group :: "membership \<Rightarrow> timestamp \<Rightarrow> membership option" where
  "filter_expired_group m now =
     (case ms_end_time m of Some e \<Rightarrow> if e < now then None else Some m | None \<Rightarrow> Some m)"

definition set_all_groups :: "user \<Rightarrow> string list \<Rightarrow> timestamp \<Rightarrow> user" where
  "set_all_groups u new_group_list now =
     u\<lparr>us_groups := fold (\<lambda>name acc. case filter_expired_group
            \<lparr>ms_group_name = name, ms_start_time = Some now, ms_end_time = None\<rparr> now of
          None \<Rightarrow> acc | Some m \<Rightarrow> acc @ [m]) new_group_list []\<rparr>"

section \<open>Characterisations\<close>

definition grants :: "permission_entry list \<Rightarrow> timestamp \<Rightarrow> string \<Rightarrow> bool" where
  "grants es now p \<longleftrightarrow> list_ex (\<lambda>e. pe_permission e = p \<and> pe_granted e \<and>
     window_active (pe_start_time e) (pe_end_time e) now) es"

definition revokes :: "permission_entry list \<Rightarrow> timestamp \<Rightarrow> string \<Rightarrow> bool" where
  "revokes es now p \<longleftrightarrow> list_ex (\<lambda>e. pe_permission e = p \<and> \<not> pe_granted e \<and>
     window_active (pe_start_time e) (pe_end_time e) now) es"

lemma grants_and_revocations_sets:
  "permission_grants_and_revocations es now = (Collect (grants es now), Collect (revokes es now))"
  by (induction es now rule: permission_grants_and_revocations.induct)
    (auto simp: grants_def revokes_def Let_def)

definition active_group :: "user_group list \<Rightarrow> user \<Rightarrow> timestamp \<Rightarrow> user_group \<Rightarrow> bool" where
  "active_group groups u now g \<longleftrightarrow> list_ex (\<lambda>m. window_active (ms_start_time m) (ms_end_time m) now \<and>
     find_group groups (ms_group_name m) = Some g) (us_groups u)"

lemma group_grants_and_revocations_sets:
  "group_permission_grants_and_revocations groups ms now =
    ({p. \<exists>m g. m \<in> set ms \<and> window_active (ms_start_time m) (ms_end_time m) now \<and>
        find_group groups (ms_group_name m) = Some g \<and> grants (ug_permissions g) now p},
     {p. \<exists>m g. m \<in> set ms \<and> window_active (ms_start_time m) (ms_end_time m) now \<and>
        find_group groups (ms_group_name m) = Some g \<and> revokes (ug_permissions g) now p})"
  by (induction groups ms now rule: group_permission_grants_and_revocations.induct)
    (auto simp: grants_and_revocations_sets Let_def split: option.splits)

lemma window_active_iff: "window_active s e now \<longleftrightarrow>
    (s = None \<or> the s \<le> now) \<and> (e = None \<or> the e \<ge> now)"
  by (auto simp: window_active_def not_less split: option.splits)

lemma all_groups_iff: "g \<in> all_groups u now \<longleftrightarrow>
    (\<exists>m \<in> set (us_groups u). ms_group_name m = g \<and> window_active (ms_start_time m) (ms_end_time m) now)"
  by (auto simp: all_groups_def window_active_iff)

section \<open>Properties\<close>

text \<open>A user holds a permission exactly when it is granted to the user or to one of the
  groups of an active membership, and no active entry of the user or of those groups revokes it:
  a revocation anywhere overrides every grant.\<close>

lemma all_permissions_iff:
  "p \<in> all_permissions groups u now \<longleftrightarrow>
     (grants (us_rights u) now p \<or> (\<exists>g. active_group groups u now g \<and> grants (ug_permissions g) now p)) \<and>
     \<not> revokes (us_rights u) now p \<and>
     \<not> (\<exists>g. active_group groups u now g \<and> revokes (ug_permissions g) now p)"
  by (auto simp: all_permissions_def Let_def grants_and_revocations_sets
      group_grants_and_revocations_sets active_group_def list_ex_iff)

lemma replace_permission_entries_eq [simp]: "replace_permission_entries cur new = new"
proof -
  have "fold (\<lambda>e acc. acc @ [e]) new acc = acc @ new" for acc
    by (induction new arbitrary: acc) auto
  then show ?thesis by (simp add: replace_permission_entries_def)
qed

lemma set_all_groups_memberships:
  "us_groups (set_all_groups u names now) =
     map (\<lambda>n. \<lparr>ms_group_name = n, ms_start_time = Some now, ms_end_time = None\<rparr>) names"
proof -
  have "fold (\<lambda>name acc. case filter_expired_group
            \<lparr>ms_group_name = name, ms_start_time = Some now, ms_end_time = None\<rparr> now of
          None \<Rightarrow> acc | Some m \<Rightarrow> acc @ [m]) names acc =
        acc @ map (\<lambda>n. \<lparr>ms_group_name = n, ms_start_time = Some now, ms_end_time = None\<rparr>) names" for acc
    by (induction names arbitrary: acc) (auto simp: filter_expired_group_def)
  then show ?thesis by (simp add: set_all_groups_def)
qed

text \<open>Assigning groups takes effect at once and for good.\<close>

lemma all_groups_set_all_groups: "now \<le> t \<Longrightarrow> all_groups (set_all_groups u names now) t = set names"
  by (auto simp: all_groups_iff set_all_groups_memberships window_active_iff)

end
