(* ===== verification/AccessEval.thy ===== *)
theory AccessEval
  imports AccessStore Identity
begin

text \<open>
  The access decision for one object: blocks, object access entries, rules and the walk up the
  folder hierarchy (\<open>src/include/domains/access/authorization/evaluation.py\<close>), with the
  prefetching of \<open>grants.py\<close> and \<open>searchable_tree.py\<close>.  The time the source reads is the
  argument \<open>now\<close>; a user's groups and permissions are those of \<^const>\<open>all_groups\<close> and
  \<^const>\<open>all_permissions\<close> at that time.
\<close>

section \<open>State\<close>

record block_entry =
  be_user_id :: string
  be_not_before :: timestamp
  be_not_after :: timestamp
  be_target_type :: string
  be_target_id :: "string option"
  be_block_types :: "string list"

record object_access_entry =
  oa_entity_type :: string
  oa_entity_identifier :: string
  oa_target_type :: string
  oa_target_identifier :: string
  oa_access_type :: string
  oa_start_time :: timestamp
  oa_end_time :: "timestamp option"

record access_world =
  aw_db :: access_db
  aw_groups :: "user_group list"
  aw_blocks :: "block_entry list"
  aw_oaes :: "object_access_entry list"
  aw_deleted :: "string set"

definition folders :: "access_world \<Rightarrow> node list" where
  "folders w = filter (\<lambda>n. nd_type n = ''directory'') (db_nodes (aw_db w))"

text \<open>\<open>aw_deleted\<close> holds the ids of the nodes marked as deleted.  Session queries on folders leave
  these out; plain SQL and queries on nodes see every row.\<close>

definition visible_folders :: "access_world \<Rightarrow> node list" where
  "visible_folders w = filter (\<lambda>f. nd_id f \<notin> aw_deleted w) (folders w)"

definition AVAILABLE_BLOCK_TYPES :: "string set" where
  "AVAILABLE_BLOCK_TYPES = {''read'', ''write'', ''move''}"

section \<open>Grants and blocks\<close>

definition prefetch_user_blocks ::
  "access_world \<Rightarrow> user \<Rightarrow> string \<Rightarrow> timestamp \<Rightarrow> bool \<times> string set" where
  "prefetch_user_blocks w u access_type now =
     (if access_type \<notin> AVAILABLE_BLOCK_TYPES then (False, {})
      else (let entries = filter (\<lambda>b. be_user_id b = us_id u \<and> be_not_before b \<le> now \<and>
                  (be_not_after b = -1 \<or> be_not_after b \<ge> now) \<and>
                  access_type \<in> set (be_block_types b)) (aw_blocks w)
            in (list_ex (\<lambda>b. be_target_type b = ''all'') entries,
                set (filter (\<lambda>i. i \<noteq> '''') (List.map_filter be_target_id
                   (filter (\<lambda>b. be_target_type b \<noteq> ''all'') entries))))))"

definition oae_active :: "timestamp \<Rightarrow> object_access_entry \<Rightarrow> bool" where
  "oae_active now e \<longleftrightarrow> oa_start_time e \<le> now \<and> (oa_end_time e = None \<or> the (oa_end_time e) \<ge> now)"

definition batch_prefetch_granted_ids ::
  "access_world \<Rightarrow> user \<Rightarrow> string list \<Rightarrow> string \<Rightarrow> string \<Rightarrow> timestamp \<Rightarrow> string set" where
  "batch_prefetch_granted_ids w u obj_ids target_type access_type now =
     (if obj_ids = [] then {}
      else (let active_group_names = set (map ms_group_name (filter (\<lambda>m.
                  (ms_start_time m = None \<or> the (ms_start_time m) \<le> now) \<and>
                  (ms_end_time m = None \<or> the (ms_end_time m) \<ge> now)) (us_groups u)))
            in set (map oa_target_identifier (filter (\<lambda>e. oa_target_type e = target_type \<and>
                 oa_target_identifier e \<in> set obj_ids \<and>
                 ((oa_entity_type e = ''user'' \<and> oa_entity_identifier e = us_id u) \<or>
                  (oa_entity_type e = ''group'' \<and> oa_entity_identifier e \<in> active_group_names)) \<and>
                 oa_access_type e = access_type \<and> oae_active now e) (aw_oaes w)))))"

section \<open>Loading ancestors\<close>

text \<open>The recursive query: a work list of rows; \<open>UNION\<close> drops the rows already produced.\<close>

definition cte_new :: "node list \<Rightarrow> node \<Rightarrow> node list \<Rightarrow> node list" where
  "cte_new fs a res = remdups (filter (\<lambda>f. nd_inherit a \<and> nd_parent a = Some (nd_id f) \<and> f \<notin> set res) fs)"

lemma card_less_append:
  assumes "new \<noteq> []" "set new \<subseteq> A" "set new \<inter> R = {}" "finite A"
  shows "card (A - (R \<union> set new)) < card (A - R)"
proof (rule psubset_card_mono)
  show "finite (A - R)" using assms(4) by simp
  from assms(1) obtain x where "x \<in> set new" by (cases new) auto
  with assms(2,3) show "A - (R \<union> set new) \<subset> A - R" by blast
qed

function ancestor_rows :: "node list \<Rightarrow> node list \<Rightarrow> node list \<Rightarrow> node list" where
  "ancestor_rows fs [] res = res"
| "ancestor_rows fs (a # queue) res =
     (let new = cte_new fs a res in ancestor_rows fs (queue @ new) (res @ new))"
  by pat_completeness auto

termination
proof (relation "measures [\<lambda>(fs, queue, res). card (set fs - set res), \<lambda>(fs, queue, res). length queue]")
  fix fs a queue res new
  assume new: "new = cte_new fs a res"
  have sub: "set new \<subseteq> set fs" "set new \<inter> set res = {}" by (auto simp: new cte_new_def)
  show "((fs, queue @ new, res @ new), (fs, a # queue, res))
      \<in> measures [\<lambda>(fs, queue, res). card (set fs - set res), \<lambda>(fs, queue, res). length queue]"
    using card_less_append[of new "set fs" "set res"] sub by (cases "new = []") auto
qed simp

type_synonym oae_map = "(string, object_access_entry list) odict"

definition collect_oaes :: "object_access_entry list \<Rightarrow> oae_map" where
  "collect_oaes es = fold (\<lambda>e m. od_set (oa_target_identifier e)
     (get_or (od_get m (oa_target_identifier e)) [] @ [e]) m) es []"

definition fetch_ancestors_and_oae ::
  "access_world \<Rightarrow> string list \<Rightarrow> string list \<Rightarrow> string list \<Rightarrow> timestamp \<Rightarrow> string set option \<Rightarrow>
   string option \<Rightarrow> node list \<times> oae_map" where
  "fetch_ancestors_and_oae w seed_folder_ids extra_target_ids exclude_folder_ids now
      entity_identifiers access_type =
     (let seeds = filter (\<lambda>f. nd_id f \<in> set seed_folder_ids) (folders w);
          all_ancestor_ids = (if seed_folder_ids = [] then []
            else remdups (map nd_id (ancestor_rows (folders w) seeds seeds)));
          pure_ancestor_ids = filter (\<lambda>i. i \<notin> set exclude_folder_ids) all_ancestor_ids;
          ancestor_folders = filter (\<lambda>f. nd_id f \<in> set pure_ancestor_ids) (visible_folders w);
          all_target_ids = extra_target_ids @ all_ancestor_ids
      in (ancestor_folders, collect_oaes (filter (\<lambda>e. oa_target_identifier e \<in> set all_target_ids \<and>
            oae_active now e \<and>
            (case entity_identifiers of None \<Rightarrow> True | Some is \<Rightarrow> oa_entity_identifier e \<in> is) \<and>
            (case access_type of None \<Rightarrow> True | Some t \<Rightarrow> oa_access_type e = t)) (aw_oaes w))))"

text \<open>The distinct non-empty parents of the given nodes.\<close>

definition parent_ids :: "node list \<Rightarrow> string list" where
  "parent_ids ns = remdups (filter (\<lambda>i. i \<noteq> '''') (List.map_filter nd_parent ns))"

definition load_document_access_context ::
  "access_world \<Rightarrow> node list \<Rightarrow> timestamp \<Rightarrow> node list \<times> oae_map" where
  "load_document_access_context w documents now =
     (if documents = [] then ([], [])
      else fetch_ancestors_and_oae w (parent_ids documents) (map nd_id documents) [] now None None)"

definition load_folder_access_context ::
  "access_world \<Rightarrow> node list \<Rightarrow> timestamp \<Rightarrow> node list \<times> oae_map" where
  "load_folder_access_context w fs now =
     (if fs = [] then ([], [])
      else fetch_ancestors_and_oae w (parent_ids fs) (map nd_id fs) (map nd_id fs) now None None)"

definition load_user_folder_access_context ::
  "access_world \<Rightarrow> node list \<Rightarrow> user \<Rightarrow> string \<Rightarrow> timestamp \<Rightarrow> node list \<times> oae_map" where
  "load_user_folder_access_context w fs u access_type now =
     (if fs = [] then ([], [])
      else fetch_ancestors_and_oae w (parent_ids fs) (map nd_id fs) (map nd_id fs) now
             (Some (insert (us_id u) (all_groups u now))) (Some access_type))"

section \<open>The check\<close>

datatype single_node_check_result = ALLOWED_OAE | ALLOWED | DENIED

record access_query =
  aq_user :: user
  aq_access_type :: string
  aq_now :: timestamp

record access_context =
  ac_oae_by_target :: oae_map
  ac_rules :: "rule_map option"
  ac_folder_map :: "(string, node) odict"
  ac_globally_blocked :: bool
  ac_blocked_ids :: "string set"

definition oae_for_user :: "access_query \<Rightarrow> string \<Rightarrow> object_access_entry \<Rightarrow> bool" where
  "oae_for_user q target_type e \<longleftrightarrow> oa_entity_type e = ''user'' \<and>
     oa_entity_identifier e = us_id (aq_user q) \<and> oa_target_type e = target_type \<and>
     oa_access_type e = aq_access_type q"

definition oae_for_group :: "access_query \<Rightarrow> string \<Rightarrow> object_access_entry \<Rightarrow> bool" where
  "oae_for_group q target_type e \<longleftrightarrow> oa_entity_type e = ''group'' \<and>
     oa_entity_identifier e \<in> all_groups (aq_user q) (aq_now q) \<and> oa_target_type e = target_type \<and>
     oa_access_type e = aq_access_type q"

definition check_single_node ::
  "access_world \<Rightarrow> access_query \<Rightarrow> access_context \<Rightarrow> node \<Rightarrow> access_error + single_node_check_result" where
  "check_single_node w q ctx n =
     (let target_type = nd_type n;
          entries = get_or (od_get (ac_oae_by_target ctx) (nd_id n)) [];
          ps = all_permissions (aw_groups w) (aq_user q) (aq_now q);
          gs = all_groups (aq_user q) (aq_now q)
      in if nd_id n \<in> ac_blocked_ids ctx then Inr DENIED
         else if list_ex (oae_for_user q target_type) entries then Inr ALLOWED_OAE
         else if list_ex (oae_for_group q target_type) entries then Inr ALLOWED_OAE
         else and_then
           (case ac_rules ctx of
              None \<Rightarrow> compiled_rules_allow (aw_db w) target_type (nd_id n) ps gs (aq_access_type q)
            | Some m \<Rightarrow> compiled_rules_allow_from_map m target_type (nd_id n) ps gs (aq_access_type q))
           (\<lambda>allowed. Inr (if allowed then ALLOWED else DENIED)))"

lemma and_then_cong [fundef_cong]:
  "r = r' \<Longrightarrow> (\<And>x. r' = Inr x \<Longrightarrow> f x = f' x) \<Longrightarrow> and_then r f = and_then r' f'"
  by (cases r') auto

function walk_up :: "(node \<Rightarrow> access_error + single_node_check_result) \<Rightarrow> (string, node) odict \<Rightarrow>
    string option \<Rightarrow> string list \<Rightarrow> access_error + bool" where
  "walk_up check folder_map None visited_ids = Inr True"
| "walk_up check folder_map (Some i) visited_ids =
     (if i \<in> set visited_ids then Inl CycleDetected
      else case od_get folder_map i of None \<Rightarrow> Inr True
      | Some f \<Rightarrow> and_then (check f) (\<lambda>r.
          if r = DENIED then Inr False
          else if \<not> nd_inherit f then Inr True
          else walk_up check folder_map (nd_parent f) (i # visited_ids)))"
  by pat_completeness auto
termination
proof (relation "measure (\<lambda>(check, fm, i, vis). card (set (od_keys fm) - set vis))")
  fix check :: "node \<Rightarrow> access_error + single_node_check_result"
    and fm :: "(string, node) odict" and i vis f r
  assume "i \<notin> set vis" "od_get fm i = Some f"
  then have "i \<in> set (od_keys fm)" by (force dest: map_of_SomeD)
  with \<open>i \<notin> set vis\<close> have "set (od_keys fm) - set (i # vis) \<subset> set (od_keys fm) - set vis" by auto
  then show "((check, fm, nd_parent f, i # vis), (check, fm, Some i, vis))
      \<in> measure (\<lambda>(check, fm, i, vis). card (set (od_keys fm) - set vis))"
    by (simp add: psubset_card_mono)
qed simp

definition check_access_for_object ::
  "access_world \<Rightarrow> access_query \<Rightarrow> access_context \<Rightarrow> bool \<Rightarrow> node \<Rightarrow> access_error + bool" where
  "check_access_for_object w q ctx recursive obj =
     (if aq_access_type q \<notin> set AVAILABLE_ACCESS_TYPES then Inl (InvalidAccessType (aq_access_type q))
      else if ac_globally_blocked ctx then Inr False
      else and_then (check_single_node w q ctx obj) (\<lambda>r.
        case r of ALLOWED_OAE \<Rightarrow> Inr True | DENIED \<Rightarrow> Inr False
        | ALLOWED \<Rightarrow>
            if \<not> recursive \<or> \<not> nd_inherit obj then Inr True
            else walk_up (check_single_node w q ctx) (ac_folder_map ctx) (nd_parent obj) []))"

text \<open>\<open>{folder.id: folder for folder in folders}\<close>\<close>

definition folder_map :: "node list \<Rightarrow> (string, node) odict" where
  "folder_map fs = fold (\<lambda>f m. od_set (nd_id f) f m) fs []"

definition check_access_requirements ::
  "access_world \<Rightarrow> user \<Rightarrow> node \<Rightarrow> string \<Rightarrow> bool \<Rightarrow> timestamp \<Rightarrow> access_error + bool" where
  "check_access_requirements w u target access_type recursive now =
     (let (fs, oaes) =
            (if nd_type target = ''document'' then load_document_access_context w [target] now
             else (let (ancestors, oaes) = load_user_folder_access_context w [target] u access_type now
                   in (target # ancestors, oaes)));
          target_type = (if nd_type target = ''document'' then ''document'' else ''directory'')
      in and_then (fetch_compiled_access_rules_for_targets (aw_db w)
             ((target_type, nd_id target) # map (\<lambda>f. (''directory'', nd_id f)) fs) (Some access_type))
           (\<lambda>rules.
             let (is_globally_blocked, blocked_ids) = prefetch_user_blocks w u access_type now
             in check_access_for_object w \<lparr>aq_user = u, aq_access_type = access_type, aq_now = now\<rparr>
                  \<lparr>ac_oae_by_target = oaes, ac_rules = Some rules, ac_folder_map = folder_map fs,
                   ac_globally_blocked = is_globally_blocked, ac_blocked_ids = blocked_ids\<rparr>
                  recursive target))"

text \<open>The reusable context for many folders.\<close>

record folder_access_evaluation_context =
  fc_query :: access_query
  fc_context :: access_context

definition load_folder_access_evaluation_context ::
  "access_world \<Rightarrow> node list \<Rightarrow> user \<Rightarrow> string \<Rightarrow> bool \<Rightarrow> timestamp \<Rightarrow>
   access_error + folder_access_evaluation_context" where
  "load_folder_access_evaluation_context w fs u access_type preload_all_rule_types now =
     (let (ancestors, oaes) = load_user_folder_access_context w fs u access_type now;
          all_folders = fs @ ancestors
      in and_then (fetch_compiled_access_rules_for_targets (aw_db w)
             (map (\<lambda>f. (''directory'', nd_id f)) all_folders)
             (if preload_all_rule_types then None else Some access_type))
           (\<lambda>rules.
             let (is_globally_blocked, blocked_ids) = prefetch_user_blocks w u access_type now
             in Inr \<lparr>fc_query = \<lparr>aq_user = u, aq_access_type = access_type, aq_now = now\<rparr>,
                     fc_context = \<lparr>ac_oae_by_target = oaes, ac_rules = Some rules,
                       ac_folder_map = folder_map all_folders,
                       ac_globally_blocked = is_globally_blocked, ac_blocked_ids = blocked_ids\<rparr>\<rparr>))"

definition allows :: "access_world \<Rightarrow> folder_access_evaluation_context \<Rightarrow> node \<Rightarrow> access_error + bool" where
  "allows w ctx folder = check_access_for_object w (fc_query ctx) (fc_context ctx) True folder"

text \<open>\<open>apply_access_rules\<close>: store the rules, then make sure the acting user still passes every
  access type that was set.\<close>

fun passes_all :: "access_world \<Rightarrow> user \<Rightarrow> node \<Rightarrow> string list \<Rightarrow> bool \<Rightarrow> timestamp \<Rightarrow> access_error + bool" where
  "passes_all w u target [] recursive now = Inr True"
| "passes_all w u target (t # ts) recursive now =
     and_then (check_access_requirements w u target t recursive now) (\<lambda>ok.
       if ok then passes_all w u target ts recursive now else Inr False)"

definition apply_access_rules ::
  "string \<Rightarrow> string option option \<Rightarrow> access_world \<Rightarrow> string \<Rightarrow> string \<Rightarrow> rule_docs \<Rightarrow> user \<Rightarrow> bool \<Rightarrow>
   bool \<Rightarrow> timestamp \<Rightarrow> access_error + (access_world \<times> bool)" where
  "apply_access_rules new_id rival w target_type target_id docs u inherit_parent recursive now =
     and_then (set_access_rules new_id rival (aw_db w) target_type target_id docs inherit_parent) (\<lambda>db'.
       let w' = w\<lparr>aw_db := db'\<rparr>
       in case find (is_target target_type target_id) (db_nodes db') of
            None \<Rightarrow> Inl TargetMissing
          | Some target \<Rightarrow> and_then (passes_all w' u target (map fst docs) recursive now)
              (\<lambda>ok. Inr (w', ok)))"

section \<open>What is loaded\<close>

lemma od_get_collect: "get_or (od_get (collect_oaes es) i) [] = filter (\<lambda>e. oa_target_identifier e = i) es"
proof -
  have "get_or (od_get (fold (\<lambda>e m. od_set (oa_target_identifier e)
     (get_or (od_get m (oa_target_identifier e)) [] @ [e]) m) es m) i) [] =
    get_or (od_get m i) [] @ filter (\<lambda>e. oa_target_identifier e = i) es" for m
    by (induction es arbitrary: m) (auto simp: get_or_set get_or_def)
  then show ?thesis by (simp add: collect_oaes_def get_or_def)
qed

lemma od_get_folder_map:
  assumes "inj_on nd_id (set fs)"
  shows "od_get (folder_map fs) i = Some f \<longleftrightarrow> f \<in> set fs \<and> nd_id f = i"
proof -
  have "od_get (fold (\<lambda>f m. od_set (nd_id f) f m) fs m) i = Some f \<longleftrightarrow>
      (f \<in> set fs \<and> nd_id f = i) \<or> (i \<notin> nd_id ` set fs \<and> od_get m i = Some f)" for m
    using assms
  proof (induction fs arbitrary: m)
    case (Cons g fs)
    then have "inj_on nd_id (set fs)" by (auto simp: inj_on_def)
    from Cons.IH[OF this, of "od_set (nd_id g) g m"] Cons.prems show ?case
      by (auto simp: inj_on_def)
  qed simp
  then show ?thesis by (simp add: folder_map_def)
qed

lemma cte_new_iff: "f \<in> set (cte_new fs a res) \<longleftrightarrow>
    f \<in> set fs \<and> nd_inherit a \<and> nd_parent a = Some (nd_id f) \<and> f \<notin> set res"
  by (auto simp: cte_new_def)

text \<open>The recursive query returns a set of folders that contains the seeds and every parent of an
  inheriting folder in it.\<close>

definition closed_up :: "node list \<Rightarrow> node set \<Rightarrow> bool" where
  "closed_up fs R \<longleftrightarrow> (\<forall>a \<in> R. \<forall>f \<in> set fs. nd_inherit a \<longrightarrow> nd_parent a = Some (nd_id f) \<longrightarrow> f \<in> R)"

lemma ancestor_rows_closed:
  assumes "\<forall>a \<in> set res - set queue. \<forall>f \<in> set fs. nd_inherit a \<longrightarrow> nd_parent a = Some (nd_id f) \<longrightarrow> f \<in> set res"
    and "set queue \<subseteq> set res" "set res \<subseteq> set fs"
  shows "closed_up fs (set (ancestor_rows fs queue res)) \<and> set res \<subseteq> set (ancestor_rows fs queue res)
    \<and> set (ancestor_rows fs queue res) \<subseteq> set fs"
  using assms
proof (induction fs queue res rule: ancestor_rows.induct)
  case (1 fs res)
  then show ?case by (auto simp: closed_up_def)
next
  case (2 fs a queue res)
  let ?new = "cte_new fs a res"
  have A: "\<forall>b \<in> set (res @ ?new) - set (queue @ ?new). \<forall>f \<in> set fs. nd_inherit b \<longrightarrow>
      nd_parent b = Some (nd_id f) \<longrightarrow> f \<in> set (res @ ?new)"
  proof (intro ballI impI)
    fix b f assume b: "b \<in> set (res @ ?new) - set (queue @ ?new)" and f: "f \<in> set fs"
      and h: "nd_inherit b" "nd_parent b = Some (nd_id f)"
    show "f \<in> set (res @ ?new)"
    proof (cases "b = a")
      case True
      then show ?thesis using f h by (auto simp: cte_new_iff)
    next
      case False
      then have "b \<in> set res - set (a # queue)" using b by auto
      then have "f \<in> set res" using "2.prems"(1) f h by blast
      then show ?thesis by simp
    qed
  qed
  have B: "set (queue @ ?new) \<subseteq> set (res @ ?new)" "set (res @ ?new) \<subseteq> set fs"
    using "2.prems"(2,3) by (auto simp: cte_new_iff)
  show ?case using "2.IH"[OF refl A B] by (auto simp: Let_def)
qed

definition up_rows :: "access_world \<Rightarrow> string list \<Rightarrow> node list" where
  "up_rows w ids = (let seeds = filter (\<lambda>f. nd_id f \<in> set ids) (folders w)
     in ancestor_rows (folders w) seeds seeds)"

lemma up_rows_props:
  "closed_up (folders w) (set (up_rows w ids))" "set (up_rows w ids) \<subseteq> set (folders w)"
  "\<And>f. f \<in> set (folders w) \<Longrightarrow> nd_id f \<in> set ids \<Longrightarrow> f \<in> set (up_rows w ids)"
  using ancestor_rows_closed[of "filter (\<lambda>f. nd_id f \<in> set ids) (folders w)"
      "filter (\<lambda>f. nd_id f \<in> set ids) (folders w)" "folders w"]
  by (auto simp: up_rows_def Let_def)

lemma up_rows_Nil: "up_rows w [] = []"
  by (simp add: up_rows_def)

lemma fetch_ancestors_alt:
  "fetch_ancestors_and_oae w ids extra excl now ents atype =
   (filter (\<lambda>f. nd_id f \<in> nd_id ` set (up_rows w ids) \<and> nd_id f \<notin> set excl) (visible_folders w),
    collect_oaes (filter (\<lambda>e. oa_target_identifier e \<in> set extra \<union> nd_id ` set (up_rows w ids) \<and>
      oae_active now e \<and> (case ents of None \<Rightarrow> True | Some is \<Rightarrow> oa_entity_identifier e \<in> is) \<and>
      (case atype of None \<Rightarrow> True | Some t \<Rightarrow> oa_access_type e = t)) (aw_oaes w)))"
proof (cases "ids = []")
  case True
  then show ?thesis by (simp add: fetch_ancestors_and_oae_def Let_def up_rows_Nil)
next
  case False
  then show ?thesis
    by (simp add: fetch_ancestors_and_oae_def Let_def up_rows_def)
qed

section \<open>Reference decision\<close>

definition oae_grants :: "access_world \<Rightarrow> access_query \<Rightarrow> node \<Rightarrow> bool" where
  "oae_grants w q n \<longleftrightarrow> list_ex (\<lambda>e. oa_target_identifier e = nd_id n \<and> oae_active (aq_now q) e \<and>
     (oae_for_user q (nd_type n) e \<or> oae_for_group q (nd_type n) e)) (aw_oaes w)"

definition rules_grant :: "access_world \<Rightarrow> access_query \<Rightarrow> node \<Rightarrow> bool" where
  "rules_grant w q n \<longleftrightarrow> compiled_rules_allow (aw_db w) (nd_type n) (nd_id n)
     (all_permissions (aw_groups w) (aq_user q) (aq_now q)) (all_groups (aq_user q) (aq_now q))
     (aq_access_type q) = Inr True"

definition node_blocked :: "access_world \<Rightarrow> access_query \<Rightarrow> node \<Rightarrow> bool" where
  "node_blocked w q n \<longleftrightarrow> nd_id n \<in> snd (prefetch_user_blocks w (aq_user q) (aq_access_type q) (aq_now q))"

definition may_pass :: "access_world \<Rightarrow> access_query \<Rightarrow> node \<Rightarrow> bool" where
  "may_pass w q n \<longleftrightarrow> \<not> node_blocked w q n \<and> (oae_grants w q n \<or> rules_grant w q n)"

text \<open>The folders of \<open>fs\<close> above a folder id, as far as they inherit and are in \<open>fs\<close>.\<close>

inductive chain_above :: "node list \<Rightarrow> string \<Rightarrow> node \<Rightarrow> bool" for fs where
  here: "f \<in> set fs \<Longrightarrow> nd_id f = i \<Longrightarrow> chain_above fs i f"
| up: "f \<in> set fs \<Longrightarrow> nd_id f = i \<Longrightarrow> nd_inherit f \<Longrightarrow> nd_parent f = Some p \<Longrightarrow> chain_above fs p g \<Longrightarrow> chain_above fs i g"

definition access_granted :: "access_world \<Rightarrow> access_query \<Rightarrow> bool \<Rightarrow> node \<Rightarrow> bool" where
  "access_granted w q recursive t \<longleftrightarrow>
     \<not> fst (prefetch_user_blocks w (aq_user q) (aq_access_type q) (aq_now q)) \<and> may_pass w q t \<and>
     (oae_grants w q t \<or> \<not> recursive \<or> \<not> nd_inherit t \<or>
      (\<forall>i f. nd_parent t = Some i \<longrightarrow> chain_above (visible_folders w) i f \<longrightarrow> may_pass w q f))"

definition verdict :: "access_world \<Rightarrow> access_query \<Rightarrow> node \<Rightarrow> single_node_check_result" where
  "verdict w q n = (if node_blocked w q n then DENIED else if oae_grants w q n then ALLOWED_OAE
     else if rules_grant w q n then ALLOWED else DENIED)"

lemma verdict_denied: "verdict w q n = DENIED \<longleftrightarrow> \<not> may_pass w q n"
  by (auto simp: verdict_def may_pass_def)

declare walk_up.simps [simp del]

lemma walk_up_iff:
  fixes depth :: "string \<Rightarrow> nat"
  assumes fm: "\<And>i f. i \<in> R \<Longrightarrow> od_get fm i = Some f \<longleftrightarrow> f \<in> set fs \<and> nd_id f = i"
    and clos: "\<And>i f p. i \<in> R \<Longrightarrow> f \<in> set fs \<Longrightarrow> nd_id f = i \<Longrightarrow> nd_inherit f \<Longrightarrow> nd_parent f = Some p \<Longrightarrow> p \<in> R"
    and chk: "\<And>f. f \<in> set fs \<Longrightarrow> nd_id f \<in> R \<Longrightarrow> check f = Inr (v f)"
    and rank: "\<And>f p. f \<in> set fs \<Longrightarrow> nd_parent f = Some p \<Longrightarrow> depth p < depth (nd_id f)"
  shows "i \<in> R \<Longrightarrow> \<forall>j \<in> set vis. depth i < depth j \<Longrightarrow>
    walk_up check fm (Some i) vis = Inr (\<forall>f. chain_above fs i f \<longrightarrow> v f \<noteq> DENIED)"
proof (induction "depth i" arbitrary: i vis rule: less_induct)
  case less
  have nv: "i \<notin> set vis" using less.prems(2) by auto
  show ?case
  proof (cases "od_get fm i")
    case None
    have "\<not> chain_above fs i f" for f
    proof
      assume "chain_above fs i f"
      then show False by cases (use fm[OF less.prems(1)] None in auto)
    qed
    with None nv show ?thesis by (simp add: walk_up.simps)
  next
    case (Some f)
    then have f: "f \<in> set fs" "nd_id f = i" using fm[OF less.prems(1)] by auto
    have uniq: "g = f" if "g \<in> set fs" "nd_id g = i" for g
      using fm[OF less.prems(1), of g] that Some by simp
    have ab: "chain_above fs i g \<longleftrightarrow> g = f \<or> (\<exists>p. nd_inherit f \<and> nd_parent f = Some p \<and> chain_above fs p g)" for g
    proof
      assume "chain_above fs i g"
      then show "g = f \<or> (\<exists>p. nd_inherit f \<and> nd_parent f = Some p \<and> chain_above fs p g)"
      proof cases
        case here
        then show ?thesis using uniq by simp
      next
        case (up f' p)
        then show ?thesis using uniq[of f'] by auto
      qed
    next
      assume "g = f \<or> (\<exists>p. nd_inherit f \<and> nd_parent f = Some p \<and> chain_above fs p g)"
      then show "chain_above fs i g" using chain_above.here[OF f] chain_above.up[OF f] by blast
    qed
    have split: "(\<forall>g. chain_above fs i g \<longrightarrow> v g \<noteq> DENIED) \<longleftrightarrow> v f \<noteq> DENIED \<and>
      (\<forall>p g. nd_inherit f \<longrightarrow> nd_parent f = Some p \<longrightarrow> chain_above fs p g \<longrightarrow> v g \<noteq> DENIED)"
      by (simp only: ab) blast
    have c: "check f = Inr (v f)" using chk f less.prems(1) by simp
    show ?thesis
    proof (cases "nd_inherit f \<and> v f \<noteq> DENIED \<and> nd_parent f \<noteq> None")
      case True
      then obtain p where p: "nd_parent f = Some p" by auto
      have d: "depth p < depth i" using rank[OF f(1) p] f(2) by simp
      have "walk_up check fm (Some p) (i # vis) = Inr (\<forall>f. chain_above fs p f \<longrightarrow> v f \<noteq> DENIED)"
      proof (rule less.hyps[OF d])
        show "p \<in> R" using clos[OF less.prems(1) f(1,2) _ p] True by blast
        show "\<forall>j \<in> set (i # vis). depth p < depth j" using d less.prems(2) by fastforce
      qed
      then show ?thesis using True Some nv c p split by (simp add: walk_up.simps)
    next
      case False
      then show ?thesis using Some nv c split by (cases "nd_parent f") (auto simp: walk_up.simps)
    qed
  qed
qed

lemma access_rule_types_ok: "t \<in> set AVAILABLE_ACCESS_TYPES \<Longrightarrow> \<exists>ts. access_rule_types_for t = Inr ts"
  by (simp add: access_rule_types_for_def)

lemma check_single_node_verdict:
  assumes rules: "ac_rules ctx = Some m"
      "compiled_rules_allow_from_map m (nd_type n) (nd_id n)
        (all_permissions (aw_groups w) (aq_user q) (aq_now q)) (all_groups (aq_user q) (aq_now q))
        (aq_access_type q) = compiled_rules_allow (aw_db w) (nd_type n) (nd_id n)
        (all_permissions (aw_groups w) (aq_user q) (aq_now q)) (all_groups (aq_user q) (aq_now q))
        (aq_access_type q)"
    and oaes: "\<And>P. list_ex (\<lambda>e. P e \<and> (oae_for_user q (nd_type n) e \<or> oae_for_group q (nd_type n) e))
        (get_or (od_get (ac_oae_by_target ctx) (nd_id n)) []) =
      list_ex (\<lambda>e. P e \<and> oa_target_identifier e = nd_id n \<and> oae_active (aq_now q) e \<and>
        (oae_for_user q (nd_type n) e \<or> oae_for_group q (nd_type n) e)) (aw_oaes w)"
    and blocked: "ac_blocked_ids ctx = snd (prefetch_user_blocks w (aq_user q) (aq_access_type q) (aq_now q))"
    and type: "aq_access_type q \<in> set AVAILABLE_ACCESS_TYPES"
  shows "check_single_node w q ctx n = Inr (verdict w q n)"
proof -
  let ?es = "get_or (od_get (ac_oae_by_target ctx) (nd_id n)) []"
  have g: "(list_ex (oae_for_user q (nd_type n)) ?es \<or> list_ex (oae_for_group q (nd_type n)) ?es) = oae_grants w q n"
    using oaes[of "\<lambda>_. True"] by (auto simp: oae_grants_def list_ex_iff)
  obtain b where b: "compiled_rules_allow (aw_db w) (nd_type n) (nd_id n)
        (all_permissions (aw_groups w) (aq_user q) (aq_now q)) (all_groups (aq_user q) (aq_now q))
        (aq_access_type q) = Inr b"
    using access_rule_types_ok[OF type] by (auto simp: compiled_rules_allow_iff)
  show ?thesis
    using g b rules unfolding check_single_node_def Let_def verdict_def node_blocked_def rules_grant_def blocked
    by auto
qed

lemma group_targets_ok:
  "\<forall>p \<in> set targets. fst p = ''document'' \<or> fst p = ''directory'' \<Longrightarrow> \<exists>r. group_targets targets d = Inr r"
  by (induction targets d rule: group_targets.induct) (auto simp: Let_def)

lemma fetch_rules_ok:
  assumes "\<forall>p \<in> set targets. fst p = ''document'' \<or> fst p = ''directory''"
    "\<forall>t. loaded = Some t \<longrightarrow> t \<in> set AVAILABLE_ACCESS_TYPES"
  shows "\<exists>m. fetch_compiled_access_rules_for_targets db targets loaded = Inr m"
  using group_targets_ok[OF assms(1), of "[]"] assms(2)
  by (auto simp: fetch_compiled_access_rules_for_targets_def access_rule_types_for_def split: option.splits)

text \<open>The folder table is a forest: unique non-empty ids, parents of smaller depth.\<close>

definition hierarchy_ok :: "(string \<Rightarrow> nat) \<Rightarrow> access_world \<Rightarrow> bool" where
  "hierarchy_ok depth w \<longleftrightarrow> distinct (map nd_id (db_nodes (aw_db w))) \<and>
     list_all (\<lambda>n. nd_id n \<noteq> '''' \<and> (nd_type n = ''document'' \<or> nd_type n = ''directory'') \<and>
       (case nd_parent n of None \<Rightarrow> True | Some p \<Rightarrow> p \<noteq> '''' \<and> depth p < depth (nd_id n)))
       (db_nodes (aw_db w))"

lemma folders_in: "f \<in> set (folders w) \<longleftrightarrow> f \<in> set (db_nodes (aw_db w)) \<and> nd_type f = ''directory''"
  by (simp add: folders_def)

lemma visible_in: "f \<in> set (visible_folders w) \<longleftrightarrow> f \<in> set (folders w) \<and> nd_id f \<notin> aw_deleted w"
  by (simp add: visible_folders_def)

lemma folders_inj: "hierarchy_ok depth w \<Longrightarrow> inj_on nd_id (set (folders w))"
  by (auto simp: hierarchy_ok_def distinct_map folders_def inj_on_def)

definition walk_ids :: "access_world \<Rightarrow> node list \<Rightarrow> string set" where
  "walk_ids w ts = set (parent_ids ts) \<union>
     {p. \<exists>a \<in> set (up_rows w (parent_ids ts)). nd_inherit a \<and> nd_parent a = Some p}"

lemma walk_ids_loaded:
  assumes "i \<in> walk_ids w ts" "f \<in> set (folders w)" "nd_id f = i"
  shows "f \<in> set (up_rows w (parent_ids ts))"
proof (cases "i \<in> set (parent_ids ts)")
  case True
  then show ?thesis using up_rows_props(3) assms(2,3) by blast
next
  case False
  then obtain a where "a \<in> set (up_rows w (parent_ids ts))" "nd_inherit a" "nd_parent a = Some (nd_id f)"
    using assms(1,3) by (auto simp: walk_ids_def)
  then show ?thesis using up_rows_props(1)[of w "parent_ids ts"] assms(2) unfolding closed_up_def by blast
qed

definition loaded_nodes :: "access_world \<Rightarrow> node list \<Rightarrow> node set" where
  "loaded_nodes w ts = set ts \<union> (set (up_rows w (parent_ids ts)) \<inter> set (visible_folders w))"

lemma ancestor_rows_invariant:
  assumes "\<And>a f. P a \<Longrightarrow> f \<in> set fs \<Longrightarrow> nd_parent a = Some (nd_id f) \<Longrightarrow> P f"
  shows "\<forall>a \<in> set queue \<union> set res. P a \<Longrightarrow> \<forall>a \<in> set (ancestor_rows fs queue res). P a"
  using assms
proof (induction fs queue res rule: ancestor_rows.induct)
  case (2 fs a queue res)
  have "\<forall>b \<in> set (cte_new fs a res). P b" using 2(2,3) by (auto simp: cte_new_iff)
  then have "\<forall>b \<in> set (queue @ cte_new fs a res) \<union> set (res @ cte_new fs a res). P b" using 2(2) by auto
  from 2(1)[OF refl this 2(3)] show ?case by (simp add: Let_def)
qed simp

text \<open>The walk above a node never comes back to it.\<close>

lemma walk_ids_depth:
  assumes ok: "hierarchy_ok depth w" and t: "t \<in> set (db_nodes (aw_db w))" and i: "i \<in> walk_ids w [t]"
  shows "depth i < depth (nd_id t)"
proof -
  have up: "depth p < depth (nd_id n)" if "n \<in> set (db_nodes (aw_db w))" "nd_parent n = Some p" for n p
    using ok that by (auto simp: hierarchy_ok_def list_all_iff split: option.splits)
  have par: "depth j < depth (nd_id t)" if "j \<in> set (parent_ids [t])" for j
    using that up[OF t] by (auto simp: parent_ids_def map_filter_def split: if_splits)
  let ?P = "\<lambda>a. a \<in> set (folders w) \<and> depth (nd_id a) < depth (nd_id t)"
  have "\<forall>a \<in> set (up_rows w (parent_ids [t])). ?P a"
    unfolding up_rows_def Let_def
  proof (rule ancestor_rows_invariant)
    fix a f assume "?P a" "f \<in> set (folders w)" "nd_parent a = Some (nd_id f)"
    then show "?P f" using up[of a "nd_id f"] by (auto simp: folders_in)
  qed (use par in auto)
  then show ?thesis using i par up by (fastforce simp: walk_ids_def folders_in)
qed

definition ctx_loaded :: "access_world \<Rightarrow> access_query \<Rightarrow> access_context \<Rightarrow> node list \<Rightarrow> bool" where
  "ctx_loaded w q ctx ts \<longleftrightarrow>
     (\<forall>n \<in> loaded_nodes w ts. check_single_node w q ctx n = Inr (verdict w q n)) \<and>
     ac_globally_blocked ctx = fst (prefetch_user_blocks w (aq_user q) (aq_access_type q) (aq_now q)) \<and>
     (\<forall>i \<in> walk_ids w ts. \<forall>f. od_get (ac_folder_map ctx) i = Some f \<longleftrightarrow> f \<in> set (visible_folders w) \<and> nd_id f = i)"

lemma check_access_decides:
  assumes ok: "hierarchy_ok depth w" and ctx: "ctx_loaded w q ctx ts" and t: "t \<in> set ts" "t \<in> set (db_nodes (aw_db w))"
    and type: "aq_access_type q \<in> set AVAILABLE_ACCESS_TYPES"
  shows "check_access_for_object w q ctx recursive t = Inr (access_granted w q recursive t)"
proof -
  have chk: "check_single_node w q ctx n = Inr (verdict w q n)"
    if "n \<in> loaded_nodes w ts" for n using ctx that by (auto simp: ctx_loaded_def)
  have walk: "walk_up (check_single_node w q ctx) (ac_folder_map ctx) (Some i) [] =
      Inr (\<forall>f. chain_above (visible_folders w) i f \<longrightarrow> may_pass w q f)" if i: "nd_parent t = Some i" for i
  proof -
    have "i \<noteq> ''''" using ok t(2) i by (auto simp: hierarchy_ok_def list_all_iff)
    then have "i \<in> walk_ids w ts" using t(1) i by (force simp: walk_ids_def parent_ids_def map_filter_def)
    then have "walk_up (check_single_node w q ctx) (ac_folder_map ctx) (Some i) [] =
      Inr (\<forall>f. chain_above (visible_folders w) i f \<longrightarrow> verdict w q f \<noteq> DENIED)"
    proof (rule walk_up_iff[rotated 4])
      show "od_get (ac_folder_map ctx) i = Some f \<longleftrightarrow> f \<in> set (visible_folders w) \<and> nd_id f = i"
        if "i \<in> walk_ids w ts" for i f using ctx that by (auto simp: ctx_loaded_def)
      show "check_single_node w q ctx f = Inr (verdict w q f)"
        if "f \<in> set (visible_folders w)" "nd_id f \<in> walk_ids w ts" for f
        using chk walk_ids_loaded that by (auto simp: loaded_nodes_def visible_in)
      show "p \<in> walk_ids w ts"
        if "i \<in> walk_ids w ts" "f \<in> set (visible_folders w)" "nd_id f = i" "nd_inherit f" "nd_parent f = Some p" for i f p
        using walk_ids_loaded[OF that(1) _ that(3)] that(2,4,5) by (auto simp: walk_ids_def visible_in)
      show "depth p < depth (nd_id f)" if "f \<in> set (visible_folders w)" "nd_parent f = Some p" for f p
        using ok that by (auto simp: hierarchy_ok_def visible_folders_def folders_def list_all_iff split: option.splits)
    qed simp
    then show ?thesis by (simp add: verdict_denied)
  qed
  have c: "check_single_node w q ctx t = Inr (verdict w q t)" using chk t(1) by (simp add: loaded_nodes_def)
  have g: "ac_globally_blocked ctx = fst (prefetch_user_blocks w (aq_user q) (aq_access_type q) (aq_now q))"
    using ctx by (simp add: ctx_loaded_def)
  have v: "verdict w q t = ALLOWED_OAE \<longleftrightarrow> may_pass w q t \<and> oae_grants w q t"
    by (auto simp: verdict_def may_pass_def)
  show ?thesis
    using c g v verdict_denied[of w q t] type walk
    by (cases "verdict w q t"; cases "nd_parent t")
      (auto simp: check_access_for_object_def access_granted_def walk_up.simps(1))
qed

definition loaded_oaes :: "access_world \<Rightarrow> access_query \<Rightarrow> node list \<Rightarrow> string set option \<Rightarrow> string option \<Rightarrow> oae_map" where
  "loaded_oaes w q ts ents atype = collect_oaes (filter (\<lambda>e.
      oa_target_identifier e \<in> set (map nd_id ts) \<union> nd_id ` set (up_rows w (parent_ids ts)) \<and>
      oae_active (aq_now q) e \<and> (case ents of None \<Rightarrow> True | Some is \<Rightarrow> oa_entity_identifier e \<in> is) \<and>
      (case atype of None \<Rightarrow> True | Some t \<Rightarrow> oa_access_type e = t)) (aw_oaes w))"

lemma loaded_oaes_entries:
  assumes "n \<in> set ts \<union> set (up_rows w (parent_ids ts))"
    and "ents = None \<or> ents = Some (insert (us_id (aq_user q)) (all_groups (aq_user q) (aq_now q)))"
    and "atype = None \<or> atype = Some (aq_access_type q)"
  shows "list_ex (\<lambda>e. P e \<and> (oae_for_user q (nd_type n) e \<or> oae_for_group q (nd_type n) e))
        (get_or (od_get (loaded_oaes w q ts ents atype) (nd_id n)) []) =
      list_ex (\<lambda>e. P e \<and> oa_target_identifier e = nd_id n \<and> oae_active (aq_now q) e \<and>
        (oae_for_user q (nd_type n) e \<or> oae_for_group q (nd_type n) e)) (aw_oaes w)"
proof -
  have tid: "nd_id n \<in> set (map nd_id ts) \<union> nd_id ` set (up_rows w (parent_ids ts))" using assms(1) by auto
  have keep: "(case ents of None \<Rightarrow> True | Some is \<Rightarrow> oa_entity_identifier e \<in> is) \<and>
      (case atype of None \<Rightarrow> True | Some t \<Rightarrow> oa_access_type e = t)"
    if "oae_for_user q (nd_type n) e \<or> oae_for_group q (nd_type n) e" for e
    using that assms(2,3) by (auto simp: oae_for_user_def oae_for_group_def)
  show ?thesis
    unfolding loaded_oaes_def od_get_collect list_ex_iff
  proof
    assume "\<exists>e \<in> set (aw_oaes w). P e \<and> oa_target_identifier e = nd_id n \<and> oae_active (aq_now q) e \<and>
        (oae_for_user q (nd_type n) e \<or> oae_for_group q (nd_type n) e)"
    then obtain e where e: "e \<in> set (aw_oaes w)" "P e" "oa_target_identifier e = nd_id n" "oae_active (aq_now q) e"
      "oae_for_user q (nd_type n) e \<or> oae_for_group q (nd_type n) e" by blast
    show "\<exists>e \<in> set (filter (\<lambda>e. oa_target_identifier e = nd_id n) (filter (\<lambda>e.
      oa_target_identifier e \<in> set (map nd_id ts) \<union> nd_id ` set (up_rows w (parent_ids ts)) \<and>
      oae_active (aq_now q) e \<and> (case ents of None \<Rightarrow> True | Some is \<Rightarrow> oa_entity_identifier e \<in> is) \<and>
      (case atype of None \<Rightarrow> True | Some t \<Rightarrow> oa_access_type e = t)) (aw_oaes w))).
      P e \<and> (oae_for_user q (nd_type n) e \<or> oae_for_group q (nd_type n) e)"
      using e tid keep[OF e(5)] by (intro bexI[of _ e]) simp_all
  qed auto
qed

lemma ctx_loaded_intro:
  assumes ok: "hierarchy_ok depth w" and type: "aq_access_type q \<in> set AVAILABLE_ACCESS_TYPES"
    and ts: "set ts \<subseteq> set (db_nodes (aw_db w))"
    and base: "set base \<subseteq> set (folders w)" "\<forall>f \<in> set base. f \<in> set (visible_folders w) \<or> nd_id f \<notin> walk_ids w ts"
    and anc: "anc = filter (\<lambda>f. nd_id f \<in> nd_id ` set (up_rows w (parent_ids ts)) \<and>
        nd_id f \<notin> set (map nd_id base)) (visible_folders w)"
    and ents: "ents = None \<or> ents = Some (insert (us_id (aq_user q)) (all_groups (aq_user q) (aq_now q)))"
    and atype: "atype = None \<or> atype = Some (aq_access_type q)"
    and m: "fetch_compiled_access_rules_for_targets (aw_db w) targets loaded = Inr m"
      "loaded = None \<or> loaded = Some (aq_access_type q)"
    and targets: "\<And>n. n \<in> loaded_nodes w ts \<Longrightarrow> (nd_type n, nd_id n) \<in> set targets"
    and blocks: "prefetch_user_blocks w (aq_user q) (aq_access_type q) (aq_now q) = (gb, bl)"
  shows "ctx_loaded w q \<lparr>ac_oae_by_target = loaded_oaes w q ts ents atype, ac_rules = Some m,
    ac_folder_map = folder_map (base @ anc), ac_globally_blocked = gb, ac_blocked_ids = bl\<rparr> ts"
proof -
  let ?L = "loaded_nodes w ts"
  have nodes: "n \<in> set (db_nodes (aw_db w))" if "n \<in> ?L" for n
    using that ts up_rows_props(2)[of w "parent_ids ts"] by (auto simp: folders_in loaded_nodes_def)
  have rows: "n \<in> set ts \<union> set (up_rows w (parent_ids ts))" if "n \<in> ?L" for n
    using that by (auto simp: loaded_nodes_def)
  have "check_single_node w q \<lparr>ac_oae_by_target = loaded_oaes w q ts ents atype, ac_rules = Some m,
    ac_folder_map = folder_map (base @ anc), ac_globally_blocked = gb, ac_blocked_ids = bl\<rparr> n = Inr (verdict w q n)"
    if n: "n \<in> ?L" for n
  proof (rule check_single_node_verdict[OF _ _ _ _ type])
    have "nd_id n \<noteq> ''''" using ok nodes[OF n] by (auto simp: hierarchy_ok_def list_all_iff)
    then show "compiled_rules_allow_from_map m (nd_type n) (nd_id n)
        (all_permissions (aw_groups w) (aq_user q) (aq_now q)) (all_groups (aq_user q) (aq_now q))
        (aq_access_type q) = compiled_rules_allow (aw_db w) (nd_type n) (nd_id n)
        (all_permissions (aw_groups w) (aq_user q) (aq_now q)) (all_groups (aq_user q) (aq_now q))
        (aq_access_type q)"
      using batch_rules_decide[OF m(1) targets[OF n]] m(2) by blast
  qed (simp_all add: loaded_oaes_entries[OF rows[OF n] ents atype] blocks)
  moreover have "od_get (folder_map (base @ anc)) i = Some f \<longleftrightarrow> f \<in> set (visible_folders w) \<and> nd_id f = i"
    if i: "i \<in> walk_ids w ts" for i f
  proof -
    have sub: "set (base @ anc) \<subseteq> set (folders w)" using base(1) anc by (auto simp: visible_in)
    have inj: "inj_on nd_id (set (folders w))" by (rule folders_inj[OF ok])
    have "f \<in> set (base @ anc)" if f: "f \<in> set (visible_folders w)" "nd_id f = i"
    proof (cases "nd_id f \<in> set (map nd_id base)")
      case True
      then obtain g where "g \<in> set base" "nd_id g = nd_id f" by auto
      then have "g = f" using inj base(1) f(1) by (auto simp: visible_in dest: inj_onD)
      with \<open>g \<in> set base\<close> show ?thesis by simp
    next
      case False
      then show ?thesis using walk_ids_loaded[OF i _ f(2)] f anc by (auto simp: visible_in)
    qed
    moreover have "f \<in> set (visible_folders w)" if "f \<in> set (base @ anc)" "nd_id f = i"
      using that base(2) i anc by auto
    ultimately show ?thesis using od_get_folder_map[OF inj_on_subset[OF inj sub]] by blast
  qed
  ultimately show ?thesis using blocks by (simp add: ctx_loaded_def)
qed

lemma check_access_requirements_decides:
  assumes "hierarchy_ok depth w" "target \<in> set (db_nodes (aw_db w))"
    and "access_type \<in> set AVAILABLE_ACCESS_TYPES"
  shows "check_access_requirements w u target access_type recursive now =
    Inr (access_granted w \<lparr>aq_user = u, aq_access_type = access_type, aq_now = now\<rparr> recursive target)"
proof -
  let ?q = "\<lparr>aq_user = u, aq_access_type = access_type, aq_now = now\<rparr>"
  let ?rows = "up_rows w (parent_ids [target])"
  obtain gb bl where blocks: "prefetch_user_blocks w u access_type now = (gb, bl)" by fastforce
  have tt: "nd_type target = ''document'' \<or> nd_type target = ''directory''"
    using assms(1,2) by (auto simp: hierarchy_ok_def list_all_iff)
  have dirs: "nd_type n = ''directory''" "n \<in> set (folders w)" if "n \<in> set ?rows" for n
    using that up_rows_props(2)[of w "parent_ids [target]"] by (auto simp: folders_in)
  define ents where "ents = (if nd_type target = ''document'' then None else Some (insert (us_id u) (all_groups u now)))"
  define atype where "atype = (if nd_type target = ''document'' then None else Some access_type)"
  define base where "base = (if nd_type target = ''document'' then [] else [target])"
  define anc where "anc = filter (\<lambda>f. nd_id f \<in> nd_id ` set ?rows \<and> nd_id f \<notin> set (map nd_id base)) (visible_folders w)"
  define targets where "targets = (nd_type target, nd_id target) # map (\<lambda>f. (''directory'', nd_id f)) (base @ anc)"
  have "\<forall>p \<in> set targets. fst p = ''document'' \<or> fst p = ''directory''"
    using tt by (auto simp: targets_def)
  then obtain m where m: "fetch_compiled_access_rules_for_targets (aw_db w) targets (Some access_type) = Inr m"
    using fetch_rules_ok assms(3) by blast
  have eq: "check_access_requirements w u target access_type recursive now =
    check_access_for_object w ?q \<lparr>ac_oae_by_target = loaded_oaes w ?q [target] ents atype, ac_rules = Some m,
      ac_folder_map = folder_map (base @ anc), ac_globally_blocked = gb, ac_blocked_ids = bl\<rparr> recursive target"
    using m tt blocks
    by (auto simp: check_access_requirements_def load_document_access_context_def load_user_folder_access_context_def
        fetch_ancestors_alt loaded_oaes_def ents_def atype_def base_def anc_def targets_def)
  have "(nd_type n, nd_id n) \<in> set targets" if "n \<in> loaded_nodes w [target]" for n
  proof (cases "n = target \<or> nd_id n \<in> set (map nd_id base)")
    case True
    then show ?thesis using that dirs by (auto simp: targets_def base_def loaded_nodes_def split: if_splits)
  next
    case False
    then have "n \<in> set anc" using that dirs by (auto simp: anc_def loaded_nodes_def)
    then show ?thesis using dirs that False by (force simp: targets_def loaded_nodes_def)
  qed
  then have "ctx_loaded w ?q \<lparr>ac_oae_by_target = loaded_oaes w ?q [target] ents atype, ac_rules = Some m,
      ac_folder_map = folder_map (base @ anc), ac_globally_blocked = gb, ac_blocked_ids = bl\<rparr> [target]"
    using assms m blocks tt walk_ids_depth[OF assms(1,2), of "nd_id target"]
    by (intro ctx_loaded_intro[where depth = depth and targets = targets and loaded = "Some access_type"])
      (auto simp: anc_def base_def ents_def atype_def folders_in)
  then show ?thesis
    unfolding eq using check_access_decides[OF assms(1)] assms(2,3) by simp
qed

lemma folder_context_decides:
  assumes "hierarchy_ok depth w" "set fs \<subseteq> set (visible_folders w)" "f \<in> set fs"
    and "access_type \<in> set AVAILABLE_ACCESS_TYPES"
    and load: "load_folder_access_evaluation_context w fs u access_type preload now = Inr ctx"
  shows "allows w ctx f =
    Inr (access_granted w \<lparr>aq_user = u, aq_access_type = access_type, aq_now = now\<rparr> True f)"
proof -
  let ?q = "\<lparr>aq_user = u, aq_access_type = access_type, aq_now = now\<rparr>"
  let ?rows = "up_rows w (parent_ids fs)"
  let ?ents = "Some (insert (us_id u) (all_groups u now))"
  obtain gb bl where blocks: "prefetch_user_blocks w u access_type now = (gb, bl)" by fastforce
  define anc where "anc = filter (\<lambda>f. nd_id f \<in> nd_id ` set ?rows \<and> nd_id f \<notin> set (map nd_id fs)) (visible_folders w)"
  define targets where "targets = map (\<lambda>f. (''directory'', nd_id f)) (fs @ anc)"
  let ?loaded = "if preload then None else Some access_type"
  have ne: "fs \<noteq> []" using assms(3) by auto
  have ctx: "load_user_folder_access_context w fs u access_type now =
      (anc, loaded_oaes w ?q fs ?ents (Some access_type))"
    using ne by (simp add: load_user_folder_access_context_def fetch_ancestors_alt loaded_oaes_def anc_def)
  obtain m where m: "fetch_compiled_access_rules_for_targets (aw_db w) targets ?loaded = Inr m"
    and c: "ctx = \<lparr>fc_query = ?q, fc_context = \<lparr>ac_oae_by_target = loaded_oaes w ?q fs ?ents (Some access_type),
      ac_rules = Some m, ac_folder_map = folder_map (fs @ anc), ac_globally_blocked = gb, ac_blocked_ids = bl\<rparr>\<rparr>"
    using load ctx blocks
    by (cases "fetch_compiled_access_rules_for_targets (aw_db w) targets ?loaded")
      (simp_all add: load_folder_access_evaluation_context_def targets_def)
  have dir: "n \<in> set (visible_folders w)" if "n \<in> loaded_nodes w fs" for n
    using that assms(2) by (auto simp: loaded_nodes_def)
  have "(nd_type n, nd_id n) \<in> set targets" if n: "n \<in> loaded_nodes w fs" for n
  proof -
    have "nd_type n = ''directory''" using dir[OF n] by (simp add: visible_in folders_in)
    moreover have "nd_id n \<in> nd_id ` set (fs @ anc)"
      using n dir[OF n] by (cases "nd_id n \<in> set (map nd_id fs)") (auto simp: anc_def loaded_nodes_def)
    ultimately show ?thesis by (auto simp: targets_def)
  qed
  then have "ctx_loaded w ?q \<lparr>ac_oae_by_target = loaded_oaes w ?q fs ?ents (Some access_type),
      ac_rules = Some m, ac_folder_map = folder_map (fs @ anc), ac_globally_blocked = gb, ac_blocked_ids = bl\<rparr> fs"
    using assms m blocks
    by (intro ctx_loaded_intro[where depth = depth and targets = targets and loaded = ?loaded])
      (auto simp: anc_def folders_in visible_in)
  moreover have "f \<in> set (db_nodes (aw_db w))" using assms(2,3) by (auto simp: folders_in visible_in)
  ultimately show ?thesis
    unfolding c allows_def using check_access_decides[OF assms(1)] assms(3,4) by simp
qed

section \<open>Properties\<close>


definition demo_world :: access_world where
  "demo_world = \<lparr>aw_db = \<lparr>db_nodes =
       [\<lparr>nd_id = ''/'', nd_type = ''directory'', nd_parent = None, nd_inherit = False, nd_rule_set_id = None\<rparr>,
        \<lparr>nd_id = ''doc'', nd_type = ''document'', nd_parent = Some ''/'', nd_inherit = True, nd_rule_set_id = None\<rparr>],
     db_rule_sets = [], db_rules = [], db_next_rule_id = 1\<rparr>, aw_groups = [],
     aw_blocks = [\<lparr>be_user_id = ''u'', be_not_before = 0, be_not_after = -1, be_target_type = ''directory'',
       be_target_id = Some ''/'', be_block_types = [''write'']\<rparr>], aw_oaes = [], aw_deleted = {}\<rparr>"

definition demo_user :: user where
  "demo_user = \<lparr>us_id = ''u'', us_username = ''ann'', us_status = ACTIVE, us_groups = [], us_rights = []\<rparr>"

lemma demo_world_ok: "hierarchy_ok length demo_world"
  by (simp add: hierarchy_ok_def demo_world_def)


text \<open>A block on a folder shuts out everything below that inherits, even when rules allow it.\<close>

lemma demo_world_blocked:
  "check_access_requirements demo_world demo_user (db_nodes (aw_db demo_world) ! 1) ''write'' True 5 = Inr False"
  by code_simp

text \<open>The context loaded once for many folders gives for each of them the decision of the
  single check, whether it loads the rules of one access type or of all.\<close>

lemma folder_context_agrees:
  assumes "hierarchy_ok depth w" "set fs \<subseteq> set (visible_folders w)" "f \<in> set fs"
    and "access_type \<in> set AVAILABLE_ACCESS_TYPES"
    and "load_folder_access_evaluation_context w fs u access_type preload now = Inr ctx"
  shows "allows w ctx f = check_access_requirements w u f access_type True now"
proof -
  have "f \<in> set (db_nodes (aw_db w))" using assms(2,3) by (auto simp: folders_in visible_in)
  then show ?thesis
    using folder_context_decides[OF assms] check_access_requirements_decides[OF assms(1) _ assms(4)] by simp
qed

text \<open>The bulk lookup of granted objects returns exactly the requested objects that an active
  access entry grants to the user or to one of the user's active groups.\<close>

lemma batch_granted_iff:
  "i \<in> batch_prefetch_granted_ids w u obj_ids target_type access_type now \<longleftrightarrow>
   i \<in> set obj_ids \<and>
   oae_grants w \<lparr>aq_user = u, aq_access_type = access_type, aq_now = now\<rparr>
     \<lparr>nd_id = i, nd_type = target_type, nd_parent = None, nd_inherit = True, nd_rule_set_id = None\<rparr>"
  by (force simp: batch_prefetch_granted_ids_def oae_grants_def oae_for_user_def oae_for_group_def
      list_ex_iff all_groups_def)

text \<open>A folder that is marked as deleted cuts the walk: for an object whose parent folder is deleted
  the check reads neither that folder's rules and blocks nor those of any folder above it.  The decision
  is that of the object alone.\<close>

lemma deleted_folder_cuts_the_walk:
  assumes "hierarchy_ok depth w" "target \<in> set (db_nodes (aw_db w))"
    and "access_type \<in> set AVAILABLE_ACCESS_TYPES"
    and "nd_parent target = Some i" "i \<in> aw_deleted w"
  shows "check_access_requirements w u target access_type recursive now =
    check_access_requirements w u target access_type False now"
proof -
  have "\<not> chain_above (visible_folders w) i f" for f
  proof
    assume "chain_above (visible_folders w) i f"
    then show False by cases (use assms(5) in \<open>auto simp: visible_in\<close>)
  qed
  then show ?thesis
    using assms(4) by (simp add: check_access_requirements_decides[OF assms(1-3)] access_granted_def)
qed

end
