(* ===== verification/FileTasks.thy ===== *)
theory FileTasks
  imports Prelude
begin

text \<open>
  File transfer tasks: \<open>src/include/domains/documents/commands/file_tasks.py\<close> over the tables of
  \<open>src/include/database/models/files.py\<close>.  A conditional \<open>UPDATE\<close> is \<open>update_tasks\<close>, which also
  returns its row count; \<open>rival\<close> arguments are what other transactions commit between a read and
  the update that follows it.
\<close>

datatype transfer_mode = DOWNLOAD | UPLOAD

datatype file_task_status = PENDING | COMPLETED | CANCELLED | IN_PROGRESS | EXPIRED

record file_task =
  ft_id :: string
  ft_file_id :: string
  ft_status :: file_task_status
  ft_mode :: transfer_mode
  ft_start_time :: timestamp
  ft_end_time :: "timestamp option"
  ft_issued_by_id :: "string option"
  ft_encryption_key :: "string option"
  ft_chunk_size :: "nat option"
  ft_upload_file_size :: "nat option"
  ft_upload_sha256 :: "string option"
  ft_upload_session_id :: "string option"
  ft_upload_checkpoint_size :: "nat option"
  ft_upload_checkpoint_data :: "string option"

record stored_file =
  fl_id :: string
  fl_path :: string
  fl_sha256 :: "string option"
  fl_size :: "nat option"
  fl_active :: bool

record file_db =
  fd_tasks :: "file_task list"
  fd_files :: "stored_file list"

definition get_task :: "file_db \<Rightarrow> string \<Rightarrow> file_task option" where
  "get_task db i = find (\<lambda>t. ft_id t = i) (fd_tasks db)"

definition get_file :: "file_db \<Rightarrow> string \<Rightarrow> stored_file option" where
  "get_file db i = find (\<lambda>f. fl_id f = i) (fd_files db)"

definition update_tasks :: "(file_task \<Rightarrow> bool) \<Rightarrow> (file_task \<Rightarrow> file_task) \<Rightarrow> file_db \<Rightarrow> nat \<times> file_db" where
  "update_tasks P f db = (length (filter P (fd_tasks db)),
     db\<lparr>fd_tasks := map (\<lambda>t. if P t then f t else t) (fd_tasks db)\<rparr>)"

text \<open>Assigning attributes of a loaded row.\<close>

definition set_task :: "string \<Rightarrow> (file_task \<Rightarrow> file_task) \<Rightarrow> file_db \<Rightarrow> file_db" where
  "set_task i f db = snd (update_tasks (\<lambda>t. ft_id t = i) f db)"

definition set_file :: "string \<Rightarrow> (stored_file \<Rightarrow> stored_file) \<Rightarrow> file_db \<Rightarrow> file_db" where
  "set_file i f db = db\<lparr>fd_files := map (\<lambda>x. if fl_id x = i then f x else x) (fd_files db)\<rparr>"

definition active_status :: "file_task_status \<Rightarrow> bool" where
  "active_status s \<longleftrightarrow> s = PENDING \<or> s = IN_PROGRESS"

section \<open>Planning an upload\<close>

record claimed_file_task =
  ct_task_id :: string
  ct_file_id :: string
  ct_file_path :: string
  ct_stored_file_size :: "nat option"
  ct_issued_by_id :: "string option"
  ct_encryption_key :: "string option"
  ct_chunk_size :: "nat option"
  ct_upload_file_size :: "nat option"
  ct_upload_sha256 :: "string option"
  ct_upload_session_id :: "string option"
  ct_upload_checkpoint_size :: "nat option"
  ct_upload_checkpoint_data :: "string option"

datatype claim_failure = INVALID | FAIL_IN_PROGRESS | FAIL_COMPLETED | FAIL_CANCELLED | FAIL_EXPIRED | CONFLICT

datatype file_task_error =
    ChunkSizeConflict nat
  | UploadMetadataConflict nat string nat
  | FileNotFound string

record upload_preparation =
  up_chunk_size :: nat
  up_resumable :: bool
  up_discard_existing :: bool
  up_prior_session_id :: "string option"
  up_checkpoint_size :: "nat option"
  up_checkpoint_data :: "string option"

text \<open>\<open>claimed.chunk_size or proposed_chunk_size\<close>: zero counts as unset.\<close>

definition plan_upload_file_task ::
  "claimed_file_task \<Rightarrow> nat \<Rightarrow> string option \<Rightarrow> nat \<Rightarrow> nat \<Rightarrow> bool \<Rightarrow> file_task_error + upload_preparation" where
  "plan_upload_file_task claimed file_size sha256 proposed_chunk_size client_max_chunk_size restart =
     (let chunk_size = (case ct_chunk_size claimed of
            Some c \<Rightarrow> if c = 0 then proposed_chunk_size else c | None \<Rightarrow> proposed_chunk_size);
          resumable = (sha256 \<noteq> None \<and> file_size > 0);
          stored_metadata = (ct_upload_file_size claimed \<noteq> None);
          metadata_matches = (ct_upload_file_size claimed = Some file_size \<and> ct_upload_sha256 claimed = sha256);
          discard_existing = (restart \<or> (stored_metadata \<and> \<not> resumable))
      in if chunk_size > client_max_chunk_size then Inl (ChunkSizeConflict chunk_size)
         else if stored_metadata \<and> ct_upload_sha256 claimed \<noteq> None \<and> \<not> metadata_matches \<and> \<not> restart
         then Inl (UploadMetadataConflict (the (ct_upload_file_size claimed)) (the (ct_upload_sha256 claimed)) chunk_size)
         else Inr \<lparr>up_chunk_size = chunk_size, up_resumable = resumable, up_discard_existing = discard_existing,
                up_prior_session_id = (if discard_existing then None else ct_upload_session_id claimed),
                up_checkpoint_size = (if discard_existing then None else ct_upload_checkpoint_size claimed),
                up_checkpoint_data = (if discard_existing then None else ct_upload_checkpoint_data claimed)\<rparr>)"

definition apply_upload_file_task_preparation ::
  "file_db \<Rightarrow> string \<Rightarrow> upload_preparation \<Rightarrow> nat \<Rightarrow> string option \<Rightarrow> file_task_status option \<times> file_db" where
  "apply_upload_file_task_preparation db task_id p file_size sha256 =
     (case get_task db task_id of None \<Rightarrow> (None, db)
      | Some task \<Rightarrow>
          if ft_status task \<noteq> IN_PROGRESS then (Some (ft_status task), db)
          else (Some (ft_status task), set_task task_id (\<lambda>t.
            let t1 = t\<lparr>ft_chunk_size := (case ft_chunk_size t of None \<Rightarrow> Some (up_chunk_size p) | Some c \<Rightarrow> Some c),
                       ft_upload_file_size := Some file_size, ft_upload_sha256 := sha256\<rparr>
            in if up_discard_existing p
               then t1\<lparr>ft_upload_session_id := None, ft_upload_checkpoint_size := None, ft_upload_checkpoint_data := None\<rparr>
               else t1) db))"

definition record_upload_checkpoint :: "file_db \<Rightarrow> string \<Rightarrow> string \<Rightarrow> file_task_status option \<times> file_db" where
  "record_upload_checkpoint db task_id checkpoint_data =
     (case get_task db task_id of None \<Rightarrow> (None, db)
      | Some task \<Rightarrow> (Some (ft_status task),
          if ft_status task = IN_PROGRESS
          then set_task task_id (\<lambda>t. t\<lparr>ft_upload_checkpoint_data := Some checkpoint_data\<rparr>) db else db))"

definition record_upload_storage_session ::
  "file_db \<Rightarrow> string \<Rightarrow> string option \<Rightarrow> nat option \<Rightarrow> string option \<Rightarrow> file_task_status option \<times> file_db" where
  "record_upload_storage_session db task_id session_id checkpoint_size checkpoint_data =
     (case get_task db task_id of None \<Rightarrow> (None, db)
      | Some task \<Rightarrow> (Some (ft_status task),
          if ft_status task = IN_PROGRESS
          then set_task task_id (\<lambda>t. t\<lparr>ft_upload_session_id := session_id,
            ft_upload_checkpoint_size := checkpoint_size, ft_upload_checkpoint_data := checkpoint_data\<rparr>) db
          else db))"

definition clear_upload_progress :: "file_db \<Rightarrow> string \<Rightarrow> bool \<times> file_db" where
  "clear_upload_progress db task_id =
     (case get_task db task_id of None \<Rightarrow> (False, db)
      | Some _ \<Rightarrow> (True, set_task task_id (\<lambda>t. t\<lparr>ft_upload_file_size := None, ft_upload_sha256 := None,
          ft_upload_session_id := None, ft_upload_checkpoint_size := None, ft_upload_checkpoint_data := None\<rparr>) db))"

section \<open>Claiming, expiring, completing\<close>

definition due :: "timestamp \<Rightarrow> file_task \<Rightarrow> bool" where
  "due now t \<longleftrightarrow> (case ft_end_time t of None \<Rightarrow> False | Some e \<Rightarrow> e \<le> now)"

definition expire_file_task_if_due ::
  "(file_db \<Rightarrow> file_db) \<Rightarrow> file_db \<Rightarrow> string \<Rightarrow> timestamp \<Rightarrow> file_task_status option \<times> file_db" where
  "expire_file_task_if_due rival db task_id now =
     (case get_task db task_id of None \<Rightarrow> (None, db)
      | Some task \<Rightarrow>
          if \<not> active_status (ft_status task) \<or> \<not> due now task then (Some (ft_status task), db)
          else (case update_tasks (\<lambda>t. ft_id t = task_id \<and> active_status (ft_status t) \<and> due now t)
                  (\<lambda>t. t\<lparr>ft_status := EXPIRED\<rparr>) (rival db) of
             (n, db') \<Rightarrow> if n = 1 then (Some EXPIRED, db')
                        else (map_option ft_status (get_task db' task_id), db')))"

record upload_policy =
  up_start_timeout_seconds :: timestamp
  up_max_duration_seconds :: timestamp

fun claim_failure_by_status :: "file_task_status \<Rightarrow> claim_failure option" where
  "claim_failure_by_status IN_PROGRESS = Some FAIL_IN_PROGRESS"
| "claim_failure_by_status COMPLETED = Some FAIL_COMPLETED"
| "claim_failure_by_status CANCELLED = Some FAIL_CANCELLED"
| "claim_failure_by_status EXPIRED = Some FAIL_EXPIRED"
| "claim_failure_by_status PENDING = None"

definition failure_or :: "file_task_status option \<Rightarrow> claim_failure \<Rightarrow> claim_failure" where
  "failure_or status d = (case status of None \<Rightarrow> d
     | Some s \<Rightarrow> (case claim_failure_by_status s of None \<Rightarrow> d | Some f \<Rightarrow> f))"

text \<open>The first claim of an upload inside its start window opens the transfer window.\<close>

definition claim_update :: "upload_policy \<Rightarrow> transfer_mode \<Rightarrow> timestamp \<Rightarrow> file_task \<Rightarrow> file_task \<Rightarrow> file_task" where
  "claim_update policy mode now snapshot t =
     (if mode = UPLOAD \<and> (case ft_end_time snapshot of None \<Rightarrow> False
            | Some e \<Rightarrow> e - ft_start_time snapshot \<le> up_start_timeout_seconds policy)
      then t\<lparr>ft_status := IN_PROGRESS, ft_start_time := now,
             ft_end_time := Some (now + up_max_duration_seconds policy)\<rparr>
      else t\<lparr>ft_status := IN_PROGRESS\<rparr>)"

definition claimable :: "string \<Rightarrow> transfer_mode \<Rightarrow> timestamp \<Rightarrow> file_task \<Rightarrow> bool" where
  "claimable task_id mode now t \<longleftrightarrow> ft_id t = task_id \<and> ft_mode t = mode \<and> ft_status t = PENDING \<and>
     ft_start_time t \<le> now \<and> (case ft_end_time t of None \<Rightarrow> True | Some e \<Rightarrow> e > now)"

definition claimed_from :: "file_task \<Rightarrow> stored_file \<Rightarrow> transfer_mode \<Rightarrow> claimed_file_task" where
  "claimed_from task f mode =
     (let up = (mode = UPLOAD) in
      \<lparr>ct_task_id = ft_id task, ct_file_id = ft_file_id task, ct_file_path = fl_path f,
       ct_stored_file_size = (if up then None else fl_size f), ct_issued_by_id = ft_issued_by_id task,
       ct_encryption_key = (if up then None else ft_encryption_key task), ct_chunk_size = ft_chunk_size task,
       ct_upload_file_size = (if up then ft_upload_file_size task else None),
       ct_upload_sha256 = (if up then ft_upload_sha256 task else None),
       ct_upload_session_id = (if up then ft_upload_session_id task else None),
       ct_upload_checkpoint_size = (if up then ft_upload_checkpoint_size task else None),
       ct_upload_checkpoint_data = (if up then ft_upload_checkpoint_data task else None)\<rparr>)"

text \<open>\<open>rival1\<close> runs inside the expiry check, \<open>rival2\<close> between the checks and the claiming update.
  The row read at the start stays in the session: the claim is described from that snapshot.\<close>

definition claim_file_task ::
  "(file_db \<Rightarrow> file_db) \<Rightarrow> (file_db \<Rightarrow> file_db) \<Rightarrow> upload_policy \<Rightarrow> file_db \<Rightarrow> string \<Rightarrow> transfer_mode \<Rightarrow>
   timestamp \<Rightarrow> file_task_error + ((claim_failure + claimed_file_task) \<times> file_db)" where
  "claim_file_task rival1 rival2 policy db task_id mode now =
     (case get_task db task_id of None \<Rightarrow> Inr (Inl INVALID, db)
      | Some task \<Rightarrow>
        if ft_mode task \<noteq> mode then Inr (Inl INVALID, db)
        else (case expire_file_task_if_due rival1 db task_id now of (status, db1) \<Rightarrow>
          if status \<noteq> Some PENDING then Inr (Inl (failure_or status INVALID), db1)
          else if ft_start_time task > now then Inr (Inl INVALID, db1)
          else (case update_tasks (claimable task_id mode now) (claim_update policy mode now task) (rival2 db1) of
            (n, db2) \<Rightarrow>
              if n \<noteq> 1 then
                (case expire_file_task_if_due id db2 task_id now of (status', db3) \<Rightarrow>
                   Inr (Inl (failure_or status' CONFLICT), db3))
              else (case get_file db (ft_file_id task) of
                 None \<Rightarrow> Inl (FileNotFound (ft_file_id task))
               | Some f \<Rightarrow> Inr (Inr (claimed_from task f mode), db2)))))"

definition get_or_set_file_task_chunk_size ::
  "file_db \<Rightarrow> string \<Rightarrow> nat \<Rightarrow> nat \<Rightarrow> file_task_error + ((nat + file_task_status option) \<times> file_db)" where
  "get_or_set_file_task_chunk_size db task_id proposed client_max =
     (case get_task db task_id of None \<Rightarrow> Inr (Inr None, db)
      | Some task \<Rightarrow>
          if ft_status task \<noteq> IN_PROGRESS then Inr (Inr (Some (ft_status task)), db)
          else (case ft_chunk_size task of
             None \<Rightarrow> Inr (Inl proposed, set_task task_id (\<lambda>t. t\<lparr>ft_chunk_size := Some proposed\<rparr>) db)
           | Some c \<Rightarrow> if c > client_max then Inl (ChunkSizeConflict c) else Inr (Inl c, db)))"

definition get_or_set_download_encryption_key ::
  "file_db \<Rightarrow> string \<Rightarrow> string \<Rightarrow> (string + file_task_status option) \<times> file_db" where
  "get_or_set_download_encryption_key db task_id proposed_key =
     (case get_task db task_id of None \<Rightarrow> (Inr None, db)
      | Some task \<Rightarrow>
          if ft_status task \<noteq> IN_PROGRESS then (Inr (Some (ft_status task)), db)
          else (case ft_encryption_key task of
             None \<Rightarrow> (Inl proposed_key, set_task task_id (\<lambda>t. t\<lparr>ft_encryption_key := Some proposed_key\<rparr>) db)
           | Some k \<Rightarrow> (Inl k, db)))"

definition complete_file_task :: "file_db \<Rightarrow> string \<Rightarrow> file_task_status option \<times> file_db" where
  "complete_file_task db task_id =
     (case update_tasks (\<lambda>t. ft_id t = task_id \<and> ft_status t = IN_PROGRESS) (\<lambda>t. t\<lparr>ft_status := COMPLETED\<rparr>) db of
        (n, db') \<Rightarrow> if n = 1 then (Some COMPLETED, db')
                   else (map_option ft_status (get_task db' task_id), db'))"

definition finalize_upload_task ::
  "file_db \<Rightarrow> string \<Rightarrow> string \<Rightarrow> string option \<Rightarrow> nat \<Rightarrow> file_task_error + (file_task_status option \<times> file_db)" where
  "finalize_upload_task db task_id file_id sha256 file_size =
     (case get_task db task_id of None \<Rightarrow> Inr (None, db)
      | Some _ \<Rightarrow>
        (case get_file db file_id of None \<Rightarrow> Inl (FileNotFound file_id)
         | Some _ \<Rightarrow>
           (case complete_file_task db task_id of (status, db1) \<Rightarrow>
              if status \<noteq> Some COMPLETED then Inr (status, db1)
              else Inr (status, set_file file_id (\<lambda>f. f\<lparr>fl_sha256 := sha256, fl_size := Some file_size, fl_active := True\<rparr>)
                (set_task task_id (\<lambda>t. t\<lparr>ft_upload_session_id := None, ft_upload_checkpoint_size := None,
                   ft_upload_checkpoint_data := None\<rparr>) db1)))))"

definition release_file_task :: "file_db \<Rightarrow> string \<Rightarrow> timestamp \<Rightarrow> file_task_status option \<times> file_db" where
  "release_file_task db task_id now =
     (case get_task db task_id of None \<Rightarrow> (None, db)
      | Some task \<Rightarrow>
          if ft_status task \<noteq> IN_PROGRESS then (None, db)
          else (let next_status = (if due now task then EXPIRED else PENDING) in
            (case update_tasks (\<lambda>t. ft_id t = task_id \<and> ft_status t = IN_PROGRESS)
                (\<lambda>t. t\<lparr>ft_status := next_status\<rparr>) db of
              (n, db') \<Rightarrow> (if n = 1 then Some next_status else None, db'))))"

definition cancel_file_tasks_for_files :: "file_db \<Rightarrow> string set \<Rightarrow> string list \<times> file_db" where
  "cancel_file_tasks_for_files db file_ids =
     (let task_ids = map ft_id (filter (\<lambda>t. ft_file_id t \<in> file_ids \<and> active_status (ft_status t)) (fd_tasks db))
      in if file_ids = {} \<or> task_ids = [] then ([], db)
         else (task_ids, snd (update_tasks (\<lambda>t. ft_id t \<in> set task_ids \<and> active_status (ft_status t))
                (\<lambda>t. t\<lparr>ft_status := CANCELLED\<rparr>) db)))"

section \<open>Operations as steps\<close>

datatype file_op =
    Claim string transfer_mode timestamp
  | ExpireIfDue string timestamp
  | Prepare string upload_preparation nat "string option"
  | Checkpoint string string
  | StorageSession string "string option" "nat option" "string option"
  | ClearProgress string
  | ChunkSize string nat nat
  | EncryptionKey string string
  | Complete string
  | Finalize string string "string option" nat
  | Release string timestamp
  | CancelForFiles "string set"

definition snd_or :: "'s \<Rightarrow> 'e + ('a \<times> 's) \<Rightarrow> 's" where
  "snd_or s r = (case r of Inl _ \<Rightarrow> s | Inr p \<Rightarrow> snd p)"

fun run_op :: "upload_policy \<Rightarrow> file_op \<Rightarrow> file_db \<Rightarrow> file_db" where
  "run_op policy (Claim i mode now) db = snd_or db (claim_file_task id id policy db i mode now)"
| "run_op policy (ExpireIfDue i now) db = snd (expire_file_task_if_due id db i now)"
| "run_op policy (Prepare i p n h) db = snd (apply_upload_file_task_preparation db i p n h)"
| "run_op policy (Checkpoint i d) db = snd (record_upload_checkpoint db i d)"
| "run_op policy (StorageSession i s n d) db = snd (record_upload_storage_session db i s n d)"
| "run_op policy (ClearProgress i) db = snd (clear_upload_progress db i)"
| "run_op policy (ChunkSize i n m) db = snd_or db (get_or_set_file_task_chunk_size db i n m)"
| "run_op policy (EncryptionKey i k) db = snd (get_or_set_download_encryption_key db i k)"
| "run_op policy (Complete i) db = snd (complete_file_task db i)"
| "run_op policy (Finalize i f h n) db = snd_or db (finalize_upload_task db i f h n)"
| "run_op policy (Release i now) db = snd (release_file_task db i now)"
| "run_op policy (CancelForFiles fs) db = snd (cancel_file_tasks_for_files db fs)"

text \<open>Every operation changes each task row on its own; \<open>row_step\<close> says how.  \<open>rel\<close> marks the
  tasks that may be released.\<close>

inductive row_step :: "upload_policy \<Rightarrow> (string \<Rightarrow> bool) \<Rightarrow> file_task \<Rightarrow> file_task \<Rightarrow> bool" for policy rel where
  stay: "row_step policy rel t t"
| claim: "claimable (ft_id t) mode now t \<Longrightarrow> row_step policy rel t (claim_update policy mode now t t)"
| expire: "active_status (ft_status t) \<Longrightarrow> due now t \<Longrightarrow> row_step policy rel t (t\<lparr>ft_status := EXPIRED\<rparr>)"
| cancel: "active_status (ft_status t) \<Longrightarrow> row_step policy rel t (t\<lparr>ft_status := CANCELLED\<rparr>)"
| complete: "ft_status t = IN_PROGRESS \<Longrightarrow> row_step policy rel t (t\<lparr>ft_status := COMPLETED\<rparr>)"
| release: "ft_status t = IN_PROGRESS \<Longrightarrow> rel (ft_id t) \<Longrightarrow> row_step policy rel t (t\<lparr>ft_status := (if due now t then EXPIRED else PENDING)\<rparr>)"
| chunk: "ft_chunk_size t = None \<Longrightarrow> row_step policy rel t (t\<lparr>ft_chunk_size := Some c\<rparr>)"
| key: "ft_encryption_key t = None \<Longrightarrow> row_step policy rel t (t\<lparr>ft_encryption_key := Some k\<rparr>)"
| progress: "row_step policy rel t (t\<lparr>ft_upload_file_size := a, ft_upload_sha256 := b, ft_upload_session_id := c,
     ft_upload_checkpoint_size := d, ft_upload_checkpoint_data := e\<rparr>)"

definition tasks_wf :: "file_db \<Rightarrow> bool" where
  "tasks_wf db \<longleftrightarrow> distinct (map ft_id (fd_tasks db))"

lemma get_task_iff:
  assumes "tasks_wf db"
  shows "get_task db i = Some t \<longleftrightarrow> t \<in> set (fd_tasks db) \<and> ft_id t = i"
proof
  assume a: "t \<in> set (fd_tasks db) \<and> ft_id t = i"
  then obtain t' where f: "find (\<lambda>t. ft_id t = i) (fd_tasks db) = Some t'"
    by (cases "find (\<lambda>t. ft_id t = i) (fd_tasks db)") (auto simp: find_None_iff)
  then have "t' \<in> set (fd_tasks db)" "ft_id t' = i" by (auto simp: find_Some_iff)
  then have "t' = t" using a assms by (auto simp: tasks_wf_def distinct_map dest: inj_onD)
  with f show "get_task db i = Some t" by (simp add: get_task_def)
qed (auto simp: get_task_def find_Some_iff)

lemma length_filter_id:
  assumes "tasks_wf db" "get_task db i = Some t"
  shows "length (filter (\<lambda>x. ft_id x = i \<and> P x) (fd_tasks db)) = (if P t then 1 else 0)"
proof -
  have "filter (\<lambda>x. ft_id x = i) (fd_tasks db) = [t]"
  proof -
    have d: "distinct (map ft_id ts) \<Longrightarrow> t \<in> set ts \<Longrightarrow> ft_id t = i \<Longrightarrow> filter (\<lambda>x. ft_id x = i) ts = [t]" for ts
    proof (induction ts)
      case (Cons x ts)
      show ?case
      proof (cases "ft_id x = i")
        case True
        have n: "ft_id x \<notin> ft_id ` set ts" using Cons.prems(1) by simp
        then have "t \<notin> set ts" using Cons.prems(3) True by force
        then have "x = t" using Cons.prems(2) by simp
        moreover have "filter (\<lambda>x. ft_id x = i) ts = []" using n True unfolding filter_empty_conv by (metis imageI)
        ultimately show ?thesis using True by simp
      qed (use Cons in auto)
    qed simp
    show ?thesis using d assms get_task_iff[OF assms(1)] by (auto simp: tasks_wf_def)
  qed
  then have "filter (\<lambda>x. ft_id x = i \<and> P x) (fd_tasks db) = filter P [t]"
    by (metis filter_filter conj_commute)
  then show ?thesis by simp
qed

lemma update_tasks_simps [simp]:
  "fst (update_tasks P f db) = length (filter P (fd_tasks db))"
  "fd_tasks (snd (update_tasks P f db)) = map (\<lambda>t. if P t then f t else t) (fd_tasks db)"
  "fd_files (snd (update_tasks P f db)) = fd_files db"
  by (simp_all add: update_tasks_def)

lemma get_task_update:
  assumes "tasks_wf db" "\<And>t. ft_id (f t) = ft_id t"
  shows "get_task (snd (update_tasks P f db)) i = map_option (\<lambda>t. if P t then f t else t) (get_task db i)"
    and "tasks_wf (snd (update_tasks P f db))"
proof -
  have ids: "map ft_id (map (\<lambda>t. if P t then f t else t) (fd_tasks db)) = map ft_id (fd_tasks db)"
    using assms(2) by simp
  show wf: "tasks_wf (snd (update_tasks P f db))" using assms(1) unfolding tasks_wf_def update_tasks_simps ids .
  have "find (\<lambda>t. ft_id t = i) (map (\<lambda>t. if P t then f t else t) ts) =
      map_option (\<lambda>t. if P t then f t else t) (find (\<lambda>t. ft_id t = i) ts)" for ts
    using assms(2) by (induction ts) auto
  then show "get_task (snd (update_tasks P f db)) i = map_option (\<lambda>t. if P t then f t else t) (get_task db i)"
    by (simp add: get_task_def)
qed

lemma get_task_id: "get_task db i = Some t \<Longrightarrow> ft_id t = i"
  by (auto simp: get_task_def find_Some_iff)

lemma snd_if: "snd (if b then x else y) = (if b then snd x else snd y)"
  by simp

lemma claim_update_id [simp]: "ft_id (claim_update policy mode now s t) = ft_id t"
  by (simp add: claim_update_def)

lemma get_task_files [simp]: "get_task (set_file i f db) j = get_task db j"
  by (simp add: get_task_def set_file_def)

lemma tasks_wf_set_file [simp]: "tasks_wf (set_file i f db) = tasks_wf db"
  by (simp add: tasks_wf_def set_file_def)

text \<open>A single-row update from the row that was read.\<close>

lemma row_step_update:
  assumes "tasks_wf db" "\<And>t. ft_id (f t) = ft_id t"
    and "\<And>t. t \<in> set (fd_tasks db) \<Longrightarrow> P t \<Longrightarrow> (row_step policy rel)\<^sup>*\<^sup>* t (f t)"
    and "get_task db i = Some t"
  shows "tasks_wf (snd (update_tasks P f db)) \<and>
    (\<exists>t'. get_task (snd (update_tasks P f db)) i = Some t' \<and> (row_step policy rel)\<^sup>*\<^sup>* t t')"
proof -
  have "t \<in> set (fd_tasks db)" using assms(4) get_task_iff[OF assms(1)] by blast
  then show ?thesis using assms(3)[of t] by (simp add: get_task_update[OF assms(1,2)] assms(4))
qed

definition rows_evolve :: "upload_policy \<Rightarrow> (string \<Rightarrow> bool) \<Rightarrow> file_db \<Rightarrow> file_db \<Rightarrow> bool" where
  "rows_evolve policy rel db db' \<longleftrightarrow> tasks_wf db' \<and>
     (\<forall>i t. get_task db i = Some t \<longrightarrow> (\<exists>t'. get_task db' i = Some t' \<and> (row_step policy rel)\<^sup>*\<^sup>* t t'))"

lemma rows_evolve_refl: "tasks_wf db \<Longrightarrow> rows_evolve policy rel db db"
  by (simp add: rows_evolve_def)

lemma rows_evolve_update:
  assumes "tasks_wf db" "\<And>t. ft_id (f t) = ft_id t"
    and "\<And>t. t \<in> set (fd_tasks db) \<Longrightarrow> P t \<Longrightarrow> (row_step policy rel)\<^sup>*\<^sup>* t (f t)"
  shows "rows_evolve policy rel db (snd (update_tasks P f db))"
  using row_step_update[OF assms] get_task_update(2)[OF assms(1,2)] by (auto simp: rows_evolve_def)

lemma rows_evolve_trans: "rows_evolve p rel a b \<Longrightarrow> rows_evolve p rel b c \<Longrightarrow> rows_evolve p rel a c"
  unfolding rows_evolve_def by (meson rtranclp_trans)

lemma rows_evolve_set_file: "rows_evolve p rel a b \<Longrightarrow> rows_evolve p rel a (set_file i f b)"
  by (simp add: rows_evolve_def)

lemma rows_evolve_progress:
  assumes "tasks_wf db"
    and f: "\<And>t. f t = t\<lparr>ft_upload_file_size := a t, ft_upload_sha256 := b t, ft_upload_session_id := c t,
       ft_upload_checkpoint_size := d t, ft_upload_checkpoint_data := e t\<rparr>"
  shows "rows_evolve policy rel db (set_task i f db)"
  unfolding set_task_def
proof (rule rows_evolve_update[OF assms(1)])
  fix t
  show "ft_id (f t) = ft_id t" by (simp add: f)
  show "(row_step policy rel)\<^sup>*\<^sup>* t (f t)" unfolding f by (rule r_into_rtranclp) (rule row_step.progress)
qed

lemma rows_evolve_row:
  assumes wf: "tasks_wf db" and g: "get_task db i = Some task"
    and "(row_step policy rel)\<^sup>*\<^sup>* task (f task)" "\<And>t. ft_id (f t) = ft_id t"
  shows "rows_evolve policy rel db (set_task i f db)"
  unfolding set_task_def
proof (rule rows_evolve_update[OF wf assms(4)])
  fix t assume "t \<in> set (fd_tasks db)" "ft_id t = i"
  then have "t = task" using get_task_iff[OF wf, of i t] g by simp
  then show "(row_step policy rel)\<^sup>*\<^sup>* t (f t)" using assms(3) by simp
qed

lemma expire_evolves: "tasks_wf db \<Longrightarrow> rows_evolve policy rel db (snd (expire_file_task_if_due id db i now))"
  unfolding expire_file_task_if_due_def
  by (auto split: option.split prod.split simp: rows_evolve_refl snd_if
      intro!: rows_evolve_update[unfolded update_tasks_def snd_conv] r_into_rtranclp row_step.expire
      simp: update_tasks_def)

lemma expire_serial:
  assumes "tasks_wf db" "get_task db i = Some task"
  shows "expire_file_task_if_due id db i now =
    (if active_status (ft_status task) \<and> due now task
     then (Some EXPIRED, set_task i (\<lambda>t. if active_status (ft_status t) \<and> due now t then t\<lparr>ft_status := EXPIRED\<rparr> else t) db)
     else (Some (ft_status task), db))"
proof -
  have n: "length (filter (\<lambda>t. ft_id t = i \<and> active_status (ft_status t) \<and> due now t) (fd_tasks db)) =
      (if active_status (ft_status task) \<and> due now task then 1 else 0)"
    using length_filter_id[OF assms, of "\<lambda>t. active_status (ft_status t) \<and> due now t"] by simp
  show ?thesis
    using assms(2) n by (auto simp: expire_file_task_if_due_def update_tasks_def set_task_def intro!: arg_cong[where f = "\<lambda>x. db\<lparr>fd_tasks := x\<rparr>"])
qed

lemma claim_evolves:
  assumes wf: "tasks_wf db"
  shows "rows_evolve policy rel db (snd_or db (claim_file_task id id policy db i mode now))"
proof (cases "get_task db i")
  case None
  then show ?thesis by (simp add: claim_file_task_def snd_or_def rows_evolve_refl[OF wf])
next
  case (Some task)
  show ?thesis
  proof (cases "ft_mode task \<noteq> mode")
    case True
    then show ?thesis using Some by (simp add: claim_file_task_def snd_or_def rows_evolve_refl[OF wf])
  next
    case False
    obtain status db1 where e: "expire_file_task_if_due id db i now = (status, db1)" by fastforce
    have r1: "rows_evolve policy rel db db1" using expire_evolves[OF wf, of policy rel i now] e by simp
    then have wf1: "tasks_wf db1" by (simp add: rows_evolve_def)
    show ?thesis
    proof (cases "status \<noteq> Some PENDING \<or> ft_start_time task > now")
      case True
      then show ?thesis using Some False e r1 by (auto simp: claim_file_task_def snd_or_def)
    next
      case pending: False
      have same: "db1 = db"
        using e pending expire_serial[OF wf Some, of now] by (auto split: if_splits)
      let ?db2 = "snd (update_tasks (claimable i mode now) (claim_update policy mode now task) db)"
      have r2: "rows_evolve policy rel db ?db2"
      proof (rule rows_evolve_update[OF wf])
        fix t assume t: "t \<in> set (fd_tasks db)" "claimable i mode now t"
        then have "get_task db i = Some t" using get_task_iff[OF wf] by (simp add: claimable_def)
        then have "t = task" using Some by simp
        then show "(row_step policy rel)\<^sup>*\<^sup>* t (claim_update policy mode now task t)"
          using t(2) by (auto simp: claimable_def intro!: r_into_rtranclp row_step.claim)
      qed simp
      then have wf2: "tasks_wf ?db2" by (simp add: rows_evolve_def)
      obtain n db2 where u: "update_tasks (claimable i mode now) (claim_update policy mode now task) db = (n, db2)"
        by fastforce
      have db2: "db2 = ?db2" using u by simp
      have eq: "claim_file_task id id policy db i mode now = (if n \<noteq> 1 then
          (case expire_file_task_if_due id db2 i now of (status', db3) \<Rightarrow> Inr (Inl (failure_or status' CONFLICT), db3))
        else (case get_file db (ft_file_id task) of None \<Rightarrow> Inl (FileNotFound (ft_file_id task))
           | Some f \<Rightarrow> Inr (Inr (claimed_from task f mode), db2)))"
        using Some False e pending same u by (simp add: claim_file_task_def)
      show ?thesis
      proof (cases "n = 1")
        case True
        then show ?thesis unfolding eq using r2 rows_evolve_refl[OF wf]
          by (simp add: snd_or_def db2 split: option.split)
      next
        case False
        have "rows_evolve policy rel db (snd (expire_file_task_if_due id ?db2 i now))"
          by (rule rows_evolve_trans[OF r2 expire_evolves[OF wf2]])
        then show ?thesis unfolding eq using False by (simp add: snd_or_def db2 case_prod_unfold)
      qed
    qed
  qed
qed

lemma complete_evolves: "tasks_wf db \<Longrightarrow> rows_evolve policy rel db (snd (complete_file_task db i))"
  by (auto simp: complete_file_task_def case_prod_unfold intro!: rows_evolve_update r_into_rtranclp row_step.complete)

lemma op_evolves:
  assumes wf: "tasks_wf db" and may: "\<And>j now. op = Release j now \<Longrightarrow> rel j"
  shows "rows_evolve policy rel db (run_op policy op db)"
proof (cases op)
  case (Claim i mode now)
  then show ?thesis using claim_evolves[OF wf] by simp
next
  case (ExpireIfDue i now)
  then show ?thesis using expire_evolves[OF wf] by simp
next
  case (Prepare i p n h)
  have step: "(row_step policy rel)\<^sup>*\<^sup>* t (let t1 = t\<lparr>ft_chunk_size := (case ft_chunk_size t of None \<Rightarrow> Some (up_chunk_size p) | Some c \<Rightarrow> Some c),
                       ft_upload_file_size := Some n, ft_upload_sha256 := h\<rparr>
            in if up_discard_existing p
               then t1\<lparr>ft_upload_session_id := None, ft_upload_checkpoint_size := None, ft_upload_checkpoint_data := None\<rparr>
               else t1)" for t
  proof -
    let ?t0 = "t\<lparr>ft_chunk_size := (case ft_chunk_size t of None \<Rightarrow> Some (up_chunk_size p) | Some c \<Rightarrow> Some c)\<rparr>"
    have "(row_step policy rel)\<^sup>*\<^sup>* t ?t0"
    proof (cases "ft_chunk_size t")
      case (Some a)
      then have "?t0 = t" by (cases t) simp
      then show ?thesis by simp
    qed (auto intro: r_into_rtranclp row_step.chunk)
    moreover have "row_step policy rel ?t0 (?t0\<lparr>ft_upload_file_size := Some n, ft_upload_sha256 := h,
        ft_upload_session_id := (if up_discard_existing p then None else ft_upload_session_id t),
        ft_upload_checkpoint_size := (if up_discard_existing p then None else ft_upload_checkpoint_size t),
        ft_upload_checkpoint_data := (if up_discard_existing p then None else ft_upload_checkpoint_data t)\<rparr>)"
      by (rule row_step.progress)
    ultimately show ?thesis by (auto simp: Let_def elim: rtranclp.rtrancl_into_rtrancl)
  qed
  have "rows_evolve policy rel db (set_task i (\<lambda>t. let t1 = t\<lparr>ft_chunk_size := (case ft_chunk_size t of None \<Rightarrow> Some (up_chunk_size p) | Some c \<Rightarrow> Some c),
                       ft_upload_file_size := Some n, ft_upload_sha256 := h\<rparr>
            in if up_discard_existing p
               then t1\<lparr>ft_upload_session_id := None, ft_upload_checkpoint_size := None, ft_upload_checkpoint_data := None\<rparr>
               else t1) db)"
    unfolding set_task_def by (rule rows_evolve_update[OF wf]) (simp add: Let_def, rule step)
  then show ?thesis
    unfolding Prepare run_op.simps apply_upload_file_task_preparation_def
    using rows_evolve_refl[OF wf] by (cases "get_task db i") simp_all
next
  case (Checkpoint i d)
  have "rows_evolve policy rel db (set_task i (\<lambda>t. t\<lparr>ft_upload_checkpoint_data := Some d\<rparr>) db)"
    by (rule rows_evolve_progress[OF wf, where a = ft_upload_file_size and b = ft_upload_sha256 and
        c = ft_upload_session_id and d = ft_upload_checkpoint_size and e = "\<lambda>_. Some d"]) simp
  then show ?thesis using Checkpoint rows_evolve_refl[OF wf]
    by (auto simp: record_upload_checkpoint_def split: option.split)
next
  case (StorageSession i a b c)
  have "rows_evolve policy rel db (set_task i (\<lambda>t. t\<lparr>ft_upload_session_id := a,
            ft_upload_checkpoint_size := b, ft_upload_checkpoint_data := c\<rparr>) db)"
    by (rule rows_evolve_progress[OF wf, where a = ft_upload_file_size and b = ft_upload_sha256 and
        c = "\<lambda>_. a" and d = "\<lambda>_. b" and e = "\<lambda>_. c"]) simp
  then show ?thesis using StorageSession rows_evolve_refl[OF wf]
    by (auto simp: record_upload_storage_session_def split: option.split)
next
  case (ClearProgress i)
  have "rows_evolve policy rel db (set_task i (\<lambda>t. t\<lparr>ft_upload_file_size := None, ft_upload_sha256 := None,
          ft_upload_session_id := None, ft_upload_checkpoint_size := None, ft_upload_checkpoint_data := None\<rparr>) db)"
    by (rule rows_evolve_progress[OF wf]) (rule refl)
  then show ?thesis using ClearProgress rows_evolve_refl[OF wf]
    by (auto simp: clear_upload_progress_def split: option.split)
next
  case (ChunkSize i n m)
  have "rows_evolve policy rel db (set_task i (\<lambda>t. t\<lparr>ft_chunk_size := Some n\<rparr>) db)"
    if "get_task db i = Some task" "ft_chunk_size task = None" for task
    using that by (intro rows_evolve_row[OF wf]) (auto intro!: r_into_rtranclp row_step.chunk)
  then show ?thesis using ChunkSize rows_evolve_refl[OF wf]
    by (auto simp: get_or_set_file_task_chunk_size_def snd_or_def split: option.split sum.split)
next
  case (EncryptionKey i k)
  have "rows_evolve policy rel db (set_task i (\<lambda>t. t\<lparr>ft_encryption_key := Some k\<rparr>) db)"
    if "get_task db i = Some task" "ft_encryption_key task = None" for task
    using that by (intro rows_evolve_row[OF wf]) (auto intro!: r_into_rtranclp row_step.key)
  then show ?thesis using EncryptionKey rows_evolve_refl[OF wf]
    by (auto simp: get_or_set_download_encryption_key_def split: option.split)
next
  case (Complete i)
  then show ?thesis using complete_evolves[OF wf] by simp
next
  case (Finalize i f h n)
  let ?db1 = "snd (complete_file_task db i)"
  have c: "rows_evolve policy rel db ?db1" by (rule complete_evolves[OF wf])
  then have wf1: "tasks_wf ?db1" by (simp add: rows_evolve_def)
  have "rows_evolve policy rel ?db1 (set_task i (\<lambda>t. t\<lparr>ft_upload_session_id := None,
      ft_upload_checkpoint_size := None, ft_upload_checkpoint_data := None\<rparr>) ?db1)"
    by (rule rows_evolve_progress[OF wf1, where a = ft_upload_file_size and b = ft_upload_sha256 and
        c = "\<lambda>_. None" and d = "\<lambda>_. None" and e = "\<lambda>_. None"]) simp
  then have "rows_evolve policy rel db (set_task i (\<lambda>t. t\<lparr>ft_upload_session_id := None,
      ft_upload_checkpoint_size := None, ft_upload_checkpoint_data := None\<rparr>) ?db1)"
    by (rule rows_evolve_trans[OF c])
  then show ?thesis using Finalize c rows_evolve_refl[OF wf]
    by (auto simp: finalize_upload_task_def snd_or_def case_prod_unfold rows_evolve_set_file split: option.split)
next
  case (Release i now)
  show ?thesis
  proof (cases "get_task db i")
    case (Some task)
    have "rows_evolve policy rel db (snd (update_tasks (\<lambda>t. ft_id t = i \<and> ft_status t = IN_PROGRESS)
        (\<lambda>t. t\<lparr>ft_status := (if due now task then EXPIRED else PENDING)\<rparr>) db))"
    proof (rule rows_evolve_update[OF wf])
      fix t assume "t \<in> set (fd_tasks db)" "ft_id t = i \<and> ft_status t = IN_PROGRESS"
      moreover from this have "t = task" using Some get_task_iff[OF wf, of i t] by simp
      ultimately show "(row_step policy rel)\<^sup>*\<^sup>* t (t\<lparr>ft_status := (if due now task then EXPIRED else PENDING)\<rparr>)"
        using row_step.release[of t rel policy now] may[OF Release] by blast
    qed simp
    then show ?thesis using Release Some rows_evolve_refl[OF wf]
      by (simp add: release_file_task_def Let_def case_prod_unfold)
  qed (use Release rows_evolve_refl[OF wf] in \<open>simp add: release_file_task_def\<close>)
next
  case (CancelForFiles fs)
  have "rows_evolve policy rel db (snd (update_tasks (\<lambda>t. ft_id t \<in> A \<and> active_status (ft_status t))
      (\<lambda>t. t\<lparr>ft_status := CANCELLED\<rparr>) db))" for A
    by (rule rows_evolve_update[OF wf]) (auto intro: r_into_rtranclp row_step.cancel)
  then show ?thesis using CancelForFiles rows_evolve_refl[OF wf]
    by (simp add: cancel_file_tasks_for_files_def Let_def)
qed

lemma ops_evolve:
  "tasks_wf db \<Longrightarrow> (\<And>j now. Release j now \<in> set ops \<Longrightarrow> rel j) \<Longrightarrow>
   rows_evolve policy rel db (fold (run_op policy) ops db)"
proof (induction ops arbitrary: db)
  case (Cons op ops)
  have "rows_evolve policy rel db (run_op policy op db)"
    by (rule op_evolves[OF Cons.prems(1)]) (use Cons.prems(2) in auto)
  moreover from this have "tasks_wf (run_op policy op db)" by (simp add: rows_evolve_def)
  ultimately show ?case using Cons.IH[of "run_op policy op db"] Cons.prems(2) rows_evolve_trans by fastforce
qed (simp add: rows_evolve_refl)

lemma ops_evolve_any: "tasks_wf db \<Longrightarrow> rows_evolve policy (\<lambda>_. True) db (fold (run_op policy) ops db)"
  by (rule ops_evolve) simp_all

section \<open>Properties\<close>

definition terminal :: "file_task_status \<Rightarrow> bool" where
  "terminal s \<longleftrightarrow> \<not> active_status s"

lemma row_steps_terminal: "(row_step policy rel)\<^sup>*\<^sup>* t t' \<Longrightarrow> terminal (ft_status t) \<Longrightarrow> ft_status t' = ft_status t"
proof (induction rule: rtranclp_induct)
  case (step y z)
  then have "terminal (ft_status y)" by simp
  with step(2) have "ft_status z = ft_status y"
    by cases (auto simp: terminal_def active_status_def claimable_def)
  with step show ?case by simp
qed simp

text \<open>A completed, cancelled or expired transfer stays so: no sequence of operations, on this
  or other tasks, changes its status again.\<close>

lemma finished_transfer_stays_finished:
  assumes "tasks_wf db" "get_task db i = Some t" "terminal (ft_status t)"
  shows "\<exists>t'. get_task (fold (run_op policy) ops db) i = Some t' \<and> ft_status t' = ft_status t"
  using ops_evolve_any[OF assms(1), of policy ops] assms(2,3) row_steps_terminal
  unfolding rows_evolve_def by meson

definition demo_policy :: upload_policy where
  "demo_policy = \<lparr>up_start_timeout_seconds = 3600, up_max_duration_seconds = 86400\<rparr>"

definition demo_task :: "file_task_status \<Rightarrow> file_task" where
  "demo_task s = \<lparr>ft_id = ''t'', ft_file_id = ''f'', ft_status = s, ft_mode = UPLOAD, ft_start_time = 0,
     ft_end_time = Some 3600, ft_issued_by_id = None, ft_encryption_key = None, ft_chunk_size = None,
     ft_upload_file_size = None, ft_upload_sha256 = None, ft_upload_session_id = None,
     ft_upload_checkpoint_size = None, ft_upload_checkpoint_data = None\<rparr>"

definition demo_file_db :: "file_task_status \<Rightarrow> file_db" where
  "demo_file_db s = \<lparr>fd_tasks = [demo_task s], fd_files = [\<lparr>fl_id = ''f'', fl_path = ''p'', fl_sha256 = None,
     fl_size = None, fl_active = False\<rparr>]\<rparr>"

lemma demo_file_db_facts: "tasks_wf (demo_file_db s)" "get_task (demo_file_db s) ''t'' = Some (demo_task s)"
  by (simp_all add: tasks_wf_def demo_file_db_def get_task_def demo_task_def)

lemma row_steps_chunk: "(row_step policy rel)\<^sup>*\<^sup>* t t' \<Longrightarrow> ft_chunk_size t = Some c \<Longrightarrow> ft_chunk_size t' = Some c"
proof (induction rule: rtranclp_induct)
  case (step y z)
  from step(2) show ?case by cases (use step in \<open>auto simp: claim_update_def\<close>)
qed simp

text \<open>A negotiated chunk size stays fixed for the lifetime of the task.\<close>

lemma chunk_size_fixed:
  assumes "tasks_wf db" "get_task db i = Some t" "ft_chunk_size t = Some c"
  shows "\<exists>t'. get_task (fold (run_op policy) ops db) i = Some t' \<and> ft_chunk_size t' = Some c"
  using ops_evolve_any[OF assms(1), of policy ops] assms(2,3) row_steps_chunk
  unfolding rows_evolve_def by meson

text \<open>The transfer window is open once it is longer than the start window.\<close>

definition window_open :: "upload_policy \<Rightarrow> file_task \<Rightarrow> bool" where
  "window_open policy t \<longleftrightarrow> ft_mode t = DOWNLOAD \<or> (case ft_end_time t of None \<Rightarrow> True
     | Some e \<Rightarrow> e - ft_start_time t > up_start_timeout_seconds policy)"

lemma row_steps_window: "(row_step policy rel)\<^sup>*\<^sup>* t t' \<Longrightarrow> window_open policy t \<Longrightarrow>
    window_open policy t' \<and> ft_end_time t' = ft_end_time t"
proof (induction rule: rtranclp_induct)
  case (step y z)
  then have w: "window_open policy y" by simp
  from step(2) have "window_open policy z \<and> ft_end_time z = ft_end_time y"
    by cases (use w in \<open>auto simp: claim_update_def claimable_def window_open_def split: option.splits\<close>)
  with step show ?case by simp
qed simp

lemma claim_success:
  assumes "tasks_wf db" "claim_file_task r1 r2 policy db i mode now = Inr (Inr c, db')"
  shows "\<exists>task db1. get_task db i = Some task \<and> ft_mode task = mode \<and> ft_start_time task \<le> now \<and>
    length (filter (claimable i mode now) (fd_tasks (r2 db1))) = 1 \<and>
    db' = snd (update_tasks (claimable i mode now) (claim_update policy mode now task) (r2 db1)) \<and>
    (\<exists>f. get_file db (ft_file_id task) = Some f \<and> c = claimed_from task f mode) \<and>
    db1 = snd (expire_file_task_if_due r1 db i now)"
proof -
  obtain task where t: "get_task db i = Some task" "ft_mode task = mode"
    using assms(2) by (auto simp: claim_file_task_def split: option.splits if_splits)
  obtain status db1 where e: "expire_file_task_if_due r1 db i now = (status, db1)" by fastforce
  obtain n db2 where u: "update_tasks (claimable i mode now) (claim_update policy mode now task) (r2 db1) = (n, db2)"
    by fastforce
  have "status = Some PENDING" "ft_start_time task \<le> now" "n = 1" "db2 = db'"
    "\<exists>f. get_file db (ft_file_id task) = Some f \<and> c = claimed_from task f mode"
    using assms(2) t e u
    by (auto simp: claim_file_task_def case_prod_unfold split: if_splits option.splits)
  moreover have "n = length (filter (claimable i mode now) (fd_tasks (r2 db1)))"
    "db2 = snd (update_tasks (claimable i mode now) (claim_update policy mode now task) (r2 db1))"
    using u by (auto simp: update_tasks_def)
  ultimately show ?thesis using t e by auto
qed

lemma row_steps_not_pending:
  "(row_step policy rel)\<^sup>*\<^sup>* t t' \<Longrightarrow> \<not> rel (ft_id t) \<Longrightarrow> ft_status t \<noteq> PENDING \<Longrightarrow>
   ft_status t' \<noteq> PENDING \<and> ft_id t' = ft_id t"
proof (induction rule: rtranclp_induct)
  case (step y z)
  then have y: "ft_status y \<noteq> PENDING" "ft_id y = ft_id t" by simp_all
  from step(2) show ?case
    by cases (use y step.prems in \<open>auto simp: claim_update_def\<close>)
qed simp

definition not_released :: "string \<Rightarrow> file_op list \<Rightarrow> bool" where
  "not_released i ops \<longleftrightarrow> list_all (\<lambda>op. case op of Release j _ \<Rightarrow> j \<noteq> i | _ \<Rightarrow> True) ops"

lemma length_filter_1: "length (filter P xs) = 1 \<Longrightarrow> \<exists>x \<in> set xs. P x"
proof (rule ccontr)
  assume "length (filter P xs) = 1" "\<not> (\<exists>x \<in> set xs. P x)"
  moreover from this have "filter P xs = []" by (auto simp: filter_empty_conv)
  ultimately show False by simp
qed

lemma not_pending_kept:
  assumes "tasks_wf db" "get_task db i = Some t" "ft_status t \<noteq> PENDING" "not_released i ops"
  shows "tasks_wf (fold (run_op policy) ops db) \<and>
    (\<exists>t'. get_task (fold (run_op policy) ops db) i = Some t' \<and> ft_status t' \<noteq> PENDING)"
proof -
  have ev: "rows_evolve policy (\<lambda>j. j \<noteq> i) db (fold (run_op policy) ops db)"
    by (rule ops_evolve[OF assms(1)]) (use assms(4) in \<open>auto simp: not_released_def list_all_iff\<close>)
  then obtain t' where t': "get_task (fold (run_op policy) ops db) i = Some t'"
    "(row_step policy (\<lambda>j. j \<noteq> i))\<^sup>*\<^sup>* t t'" using assms(2) by (auto simp: rows_evolve_def)
  have "ft_id t = i" by (rule get_task_id[OF assms(2)])
  then have "ft_status t' \<noteq> PENDING" using row_steps_not_pending[OF t'(2)] assms(3) by simp
  with t' ev show ?thesis by (auto simp: rows_evolve_def)
qed

lemma expire_not_pending:
  assumes wf: "tasks_wf db" and "get_task db i = Some t" "ft_status t \<noteq> PENDING"
    and r: "r = fold (run_op policy) ops" "not_released i ops"
  shows "fst (expire_file_task_if_due r db i now) \<noteq> Some PENDING"
proof (cases "active_status (ft_status t) \<and> due now t")
  case False
  then show ?thesis using assms(2,3) by (simp add: expire_file_task_if_due_def)
next
  case True
  obtain t' where wf': "tasks_wf (r db)" and t': "get_task (r db) i = Some t'" "ft_status t' \<noteq> PENDING"
    using not_pending_kept[OF assms(1-3) r(2), of policy] r(1) by auto
  let ?P = "\<lambda>t. ft_id t = i \<and> active_status (ft_status t) \<and> due now t"
  have "get_task (snd (update_tasks ?P (\<lambda>t. t\<lparr>ft_status := EXPIRED\<rparr>) (r db))) i =
      Some (if ?P t' then t'\<lparr>ft_status := EXPIRED\<rparr> else t')"
    using get_task_update(1)[OF wf', of "\<lambda>t. t\<lparr>ft_status := EXPIRED\<rparr>" ?P i] t'(1) by simp
  then show ?thesis using True assms(2) t'(2)
    by (auto simp: expire_file_task_if_due_def case_prod_unfold)
qed

lemma claim_needs_pending:
  assumes "claim_file_task r1 r2 policy db i mode now = Inr (Inr c, db')"
  shows "fst (expire_file_task_if_due r1 db i now) = Some PENDING"
  using assms by (auto simp: claim_file_task_def case_prod_unfold split: option.splits if_splits)



text \<open>Claiming an upload for the first time sets its deadline for good: when the configuration
  satisfies \<open>start_timeout_seconds < max_duration_seconds\<close>, the task's end time after a claim is at
  most \<open>max_duration_seconds\<close> away or what it was, and no release, further claim or other
  operation ever moves it.\<close>

lemma upload_deadline_set_once:
  assumes "tasks_wf db" "claim_file_task id id policy db i UPLOAD now = Inr (Inr c, db')"
    and "up_start_timeout_seconds policy < up_max_duration_seconds policy"
  shows "\<exists>t t'. get_task db' i = Some t \<and> get_task (fold (run_op policy) ops db') i = Some t' \<and>
    ft_end_time t' = ft_end_time t \<and>
    (ft_end_time t = Some (now + up_max_duration_seconds policy) \<or>
     ft_end_time t = Option.bind (get_task db i) ft_end_time)"
proof -
  obtain task db1 where t: "get_task db i = Some task" "ft_mode task = UPLOAD"
    and len: "length (filter (claimable i UPLOAD now) (fd_tasks (id db1))) = 1"
    and db': "db' = snd (update_tasks (claimable i UPLOAD now) (claim_update policy UPLOAD now task) (id db1))"
    and db1: "db1 = snd (expire_file_task_if_due id db i now)"
    using claim_success[OF assms(1,2)] by blast
  have same: "db1 = db"
    using claim_needs_pending[OF assms(2)] expire_serial[OF assms(1) t(1), of now] db1 by (auto split: if_splits)
  from len obtain x where "x \<in> set (fd_tasks db)" "claimable i UPLOAD now x"
    using length_filter_1 by (metis id_apply same)
  then have x: "x = task" "claimable i UPLOAD now task"
    using get_task_iff[OF assms(1), of i x] t(1) by (auto simp: claimable_def)
  have g: "get_task db' i = Some (claim_update policy UPLOAD now task task)"
    using get_task_update(1)[OF assms(1), of "claim_update policy UPLOAD now task" "claimable i UPLOAD now" i] t(1) x
    unfolding db' same by simp
  have wf': "tasks_wf db'" using get_task_update(2)[OF assms(1), of "claim_update policy UPLOAD now task"] db' same by simp
  have w: "window_open policy (claim_update policy UPLOAD now task task)"
    using assms(3) t(2) by (auto simp: window_open_def claim_update_def split: option.splits)
  obtain t' where "get_task (fold (run_op policy) ops db') i = Some t'"
    "ft_end_time t' = ft_end_time (claim_update policy UPLOAD now task task)"
    using ops_evolve_any[OF wf', of policy ops] g row_steps_window[OF _ w] unfolding rows_evolve_def by meson
  then show ?thesis using g t(1) by (auto simp: claim_update_def)
qed

text \<open>Upload progress is only resumed for the same content: when a plan keeps a storage session
  recorded with a size and a hash, the client announced exactly that size and hash and did not
  ask for a restart.\<close>

lemma resume_needs_matching_metadata:
  assumes "plan_upload_file_task claimed file_size sha256 proposed client_max restart = Inr p"
    and "up_prior_session_id p \<noteq> None" "ct_upload_file_size claimed = Some n" "ct_upload_sha256 claimed = Some h"
  shows "\<not> restart \<and> file_size = n \<and> sha256 = Some h \<and> up_resumable p \<and> up_chunk_size p \<le> client_max"
  using assms by (auto simp: plan_upload_file_task_def Let_def split: if_splits)

definition demo_claimed :: claimed_file_task where
  "demo_claimed = \<lparr>ct_task_id = ''t'', ct_file_id = ''f'', ct_file_path = ''p'', ct_stored_file_size = None,
     ct_issued_by_id = None, ct_encryption_key = None, ct_chunk_size = Some 4096, ct_upload_file_size = Some 9000,
     ct_upload_sha256 = Some ''ab'', ct_upload_session_id = Some ''s'', ct_upload_checkpoint_size = Some 4096,
     ct_upload_checkpoint_data = None\<rparr>"

text \<open>The claim describes the row as it was read, not as it was claimed: when another worker
  claims, records a storage session and releases the task between the read and the claiming
  update, the update still succeeds but the claim it returns lacks the recorded session.\<close>

lemma claim_returns_stale_progress:
  "\<exists>db db' c t ops. claim_file_task id (fold (run_op demo_policy) ops) demo_policy db ''t'' UPLOAD 10 = Inr (Inr c, db') \<and>
     get_task db' ''t'' = Some t \<and> ft_upload_session_id t = Some ''s'' \<and> ct_upload_session_id c = None"
proof -
  let ?ops = "[Claim ''t'' UPLOAD 6, StorageSession ''t'' (Some ''s'') (Some 4096) None, Release ''t'' 9]"
  let ?r = "claim_file_task id (fold (run_op demo_policy) ?ops) demo_policy (demo_file_db PENDING) ''t'' UPLOAD 10"
  have "case ?r of Inr (Inr c, db') \<Rightarrow> ct_upload_session_id c = None \<and>
      map_option ft_upload_session_id (get_task db' ''t'') = Some (Some ''s'') | _ \<Rightarrow> False" by code_simp
  then obtain c db' t where r: "?r = Inr (Inr c, db')" and
    "get_task db' ''t'' = Some t" "ft_upload_session_id t = Some ''s''" "ct_upload_session_id c = None"
    by (cases ?r; cases "fst (projr ?r)") (auto split: sum.split_asm prod.split_asm)
  with r show ?thesis by blast
qed

end
