(* ===== verification/Lockdown.thy ===== *)
theory Lockdown
  imports FileTasks
begin

text \<open>
  Versioned system states with compare-and-set (\<open>src/include/database/system_states.py\<close>) and the
  lockdown that is kept in two of them: \<open>contracts.py\<close>, \<open>state.py\<close> and \<open>commands.py\<close> of
  \<open>src/include/domains/operations/lockdown\<close>.  A command reads, decides and commits in one
  transaction; a conflicting commit by another process in between is the function \<open>rival\<close> on the
  state, and the retry loop is recursion on the attempts left.
\<close>

section \<open>System states\<close>

record 'p stored_system_state =
  st_schema_version :: nat
  st_revision :: nat
  st_payload :: 'p
  st_updated_at :: timestamp

type_synonym 'p system_states = "(string \<times> string) \<rightharpoonup> 'p stored_system_state"

definition read_system_state :: "'p system_states \<Rightarrow> string \<Rightarrow> string \<Rightarrow> 'p stored_system_state option" where
  "read_system_state t owner state_key = t (owner, state_key)"

definition create_system_state ::
  "'p system_states \<Rightarrow> string \<Rightarrow> string \<Rightarrow> nat \<Rightarrow> 'p \<Rightarrow> timestamp \<Rightarrow> bool \<times> 'p system_states" where
  "create_system_state t owner state_key schema_version payload now =
     (case t (owner, state_key) of
        Some _ \<Rightarrow> (False, t)
      | None \<Rightarrow> (True, t((owner, state_key) \<mapsto> \<lparr>st_schema_version = schema_version, st_revision = 1,
          st_payload = payload, st_updated_at = now\<rparr>)))"

definition update_system_state ::
  "'p system_states \<Rightarrow> string \<Rightarrow> string \<Rightarrow> nat \<Rightarrow> nat \<Rightarrow> 'p \<Rightarrow> timestamp \<Rightarrow> bool \<times> 'p system_states" where
  "update_system_state t owner state_key expected_revision schema_version payload now =
     (case t (owner, state_key) of
        None \<Rightarrow> (False, t)
      | Some s \<Rightarrow>
          if st_revision s = expected_revision
          then (True, t((owner, state_key) \<mapsto> \<lparr>st_schema_version = schema_version,
            st_revision = expected_revision + 1, st_payload = payload, st_updated_at = now\<rparr>))
          else (False, t))"

definition delete_system_state ::
  "'p system_states \<Rightarrow> string \<Rightarrow> string \<Rightarrow> nat \<Rightarrow> bool \<times> 'p system_states" where
  "delete_system_state t owner state_key expected_revision =
     (case t (owner, state_key) of
        None \<Rightarrow> (False, t)
      | Some s \<Rightarrow>
          if st_revision s = expected_revision then (True, t((owner, state_key) := None))
          else (False, t))"

section \<open>Lockdown data\<close>

datatype lockdown_source = MANUAL | SCHEDULED | AUTOMATIC | UNKNOWN

record lockdown_state =
  ls_enabled :: bool
  ls_reason :: "string option"

definition no_lockdown :: lockdown_state where
  "no_lockdown = \<lparr>ls_enabled = False, ls_reason = None\<rparr>"

datatype transition_outcome = APPLIED | UNCHANGED | CONDITION_NOT_MET

record lockdown_transition =
  lt_previous_state :: lockdown_state
  lt_state :: lockdown_state
  lt_outcome :: transition_outcome
  lt_cancelled_file_tasks :: nat
  lt_previous_source :: "lockdown_source option"
  lt_source :: "lockdown_source option"

datatype lockdown_error =
    InvalidPersistedState
  | InvalidPersistedActivation
  | UnsupportedSchemaVersion nat
  | CasConflict
  | RepeatedConflicts
  | InvalidArguments
  | ValidationError

text \<open>The JSON documents: the lockdown (the \<open>source\<close> key may be absent, null or a string) and
  the activation (its expiry may be null).\<close>

datatype state_payload =
    LockdownJson bool "string option" "string option option" timestamp
  | ActivationJson string "timestamp option" nat
  | OtherJson

definition valid_reason :: "string option \<Rightarrow> bool" where
  "valid_reason r \<longleftrightarrow> (case r of None \<Rightarrow> True | Some s \<Rightarrow> 1 \<le> length s \<and> length s \<le> 1024)"

definition valid_lockdown_state :: "bool \<Rightarrow> string option \<Rightarrow> bool" where
  "valid_lockdown_state enabled reason \<longleftrightarrow> valid_reason reason \<and> (enabled \<or> reason = None)"

definition source_of_string :: "string \<Rightarrow> lockdown_source option" where
  "source_of_string s =
     (if s = ''manual'' then Some MANUAL else if s = ''scheduled'' then Some SCHEDULED
      else if s = ''automatic'' then Some AUTOMATIC else None)"

fun source_string :: "lockdown_source \<Rightarrow> string" where
  "source_string MANUAL = ''manual''"
| "source_string SCHEDULED = ''scheduled''"
| "source_string AUTOMATIC = ''automatic''"
| "source_string UNKNOWN = ''unknown''"

record stored_lockdown_state =
  sl_state :: lockdown_state
  sl_source :: "lockdown_source option"
  sl_last_disabled_at :: timestamp
  sl_revision :: nat

record activation_payload =
  ap_activation_id :: string
  ap_expires_at :: "timestamp option"
  ap_lockdown_revision :: nat

record stored_activation =
  sa_payload :: activation_payload
  sa_revision :: nat

text \<open>\<open>_LockdownPayload\<close>: the source is one of the three persisted ones and is present exactly
  when the lockdown is enabled.\<close>

fun valid_source :: "bool \<Rightarrow> string option \<Rightarrow> bool" where
  "valid_source enabled None \<longleftrightarrow> \<not> enabled"
| "valid_source enabled (Some s) \<longleftrightarrow> enabled \<and> source_of_string s \<noteq> None"

definition parse_lockdown_state ::
  "state_payload stored_system_state \<Rightarrow> lockdown_error + stored_lockdown_state" where
  "parse_lockdown_state stored =
     (if st_schema_version stored = 1 then
        (case st_payload stored of
           LockdownJson enabled reason None since \<Rightarrow>
             if valid_lockdown_state enabled reason \<and> since \<ge> 0
             then Inr \<lparr>sl_state = \<lparr>ls_enabled = enabled, ls_reason = reason\<rparr>,
                       sl_source = (if enabled then Some UNKNOWN else None),
                       sl_last_disabled_at = since, sl_revision = st_revision stored\<rparr>
             else Inl InvalidPersistedState
         | _ \<Rightarrow> Inl InvalidPersistedState)
      else if st_schema_version stored = 2 then
        (case st_payload stored of
           LockdownJson enabled reason (Some src) since \<Rightarrow>
             if valid_lockdown_state enabled reason \<and> since \<ge> 0 \<and> valid_source enabled src
             then Inr \<lparr>sl_state = \<lparr>ls_enabled = enabled, ls_reason = reason\<rparr>,
                       sl_source = Option.bind src source_of_string,
                       sl_last_disabled_at = since, sl_revision = st_revision stored\<rparr>
             else Inl InvalidPersistedState
         | _ \<Rightarrow> Inl InvalidPersistedState)
      else Inl (UnsupportedSchemaVersion (st_schema_version stored)))"

definition LOCKDOWN_KEY :: "string \<times> string" where
  "LOCKDOWN_KEY = (''core'', ''lockdown'')"

definition ACTIVATION_KEY :: "string \<times> string" where
  "ACTIVATION_KEY = (''core'', ''lockdown_activation'')"

definition read_lockdown_state ::
  "state_payload system_states \<Rightarrow> lockdown_error + stored_lockdown_state option" where
  "read_lockdown_state t =
     (case read_system_state t (fst LOCKDOWN_KEY) (snd LOCKDOWN_KEY) of None \<Rightarrow> Inr None
      | Some stored \<Rightarrow> and_then (parse_lockdown_state stored) (\<lambda>s. Inr (Some s)))"

definition valid_activation :: "string \<Rightarrow> timestamp option \<Rightarrow> nat \<Rightarrow> bool" where
  "valid_activation i e revn \<longleftrightarrow> 1 \<le> length i \<and> length i \<le> 128 \<and> revn > 0 \<and>
     (case e of None \<Rightarrow> True | Some t \<Rightarrow> t \<ge> 0)"

definition read_lockdown_activation ::
  "state_payload system_states \<Rightarrow> lockdown_error + stored_activation option" where
  "read_lockdown_activation t =
     (case read_system_state t (fst ACTIVATION_KEY) (snd ACTIVATION_KEY) of None \<Rightarrow> Inr None
      | Some stored \<Rightarrow>
          if st_schema_version stored \<noteq> 1 \<and> st_schema_version stored \<noteq> 2
          then Inl (UnsupportedSchemaVersion (st_schema_version stored))
          else (case st_payload stored of
             ActivationJson i e revn \<Rightarrow>
               if valid_activation i e revn \<and> (st_schema_version stored = 1 \<longrightarrow> e \<noteq> None)
               then Inr (Some \<lparr>sa_payload = \<lparr>ap_activation_id = i, ap_expires_at = e,
                                 ap_lockdown_revision = revn\<rparr>, sa_revision = st_revision stored\<rparr>)
               else Inl InvalidPersistedActivation
           | _ \<Rightarrow> Inl InvalidPersistedActivation))"

definition valid_lockdown_activation ::
  "stored_lockdown_state option \<Rightarrow> stored_activation option \<Rightarrow> activation_payload option" where
  "valid_lockdown_activation state activation =
     (case (state, activation) of
        (Some s, Some a) \<Rightarrow>
          if \<not> ls_enabled (sl_state s) \<or> ap_lockdown_revision (sa_payload a) \<noteq> sl_revision s \<or>
             (sl_source s \<noteq> Some SCHEDULED \<and> sl_source s \<noteq> Some UNKNOWN)
          then None else Some (sa_payload a)
      | _ \<Rightarrow> None)"

definition lockdown_source_of ::
  "stored_lockdown_state option \<Rightarrow> activation_payload option \<Rightarrow> lockdown_source option" where
  "lockdown_source_of state activation =
     (case state of None \<Rightarrow> None
      | Some s \<Rightarrow>
          if \<not> ls_enabled (sl_state s) then None
          else if sl_source s = Some UNKNOWN \<and> activation \<noteq> None then Some SCHEDULED
          else if sl_source s = Some SCHEDULED \<and> activation = None then Some UNKNOWN
          else sl_source s)"

section \<open>Persisting\<close>

definition persist_lockdown_state ::
  "state_payload system_states \<Rightarrow> stored_lockdown_state option \<Rightarrow> lockdown_state \<Rightarrow>
   lockdown_source option \<Rightarrow> timestamp \<Rightarrow> timestamp \<Rightarrow>
   lockdown_error + (nat \<times> state_payload system_states)" where
  "persist_lockdown_state t current state source last_disabled_at now =
     (let src = map_option source_string source;
          payload = LockdownJson (ls_enabled state) (ls_reason state) (Some src) last_disabled_at
      in if \<not> (valid_lockdown_state (ls_enabled state) (ls_reason state) \<and> last_disabled_at \<ge> 0 \<and>
                valid_source (ls_enabled state) src)
         then Inl ValidationError
         else (case (case current of
             None \<Rightarrow> (1, create_system_state t (fst LOCKDOWN_KEY) (snd LOCKDOWN_KEY) 2 payload now)
           | Some c \<Rightarrow> (sl_revision c + 1, update_system_state t (fst LOCKDOWN_KEY) (snd LOCKDOWN_KEY)
               (sl_revision c) 2 payload now))
           of (revision, applied, t') \<Rightarrow> if applied then Inr (revision, t') else Inl CasConflict))"

definition persist_lockdown_activation ::
  "state_payload system_states \<Rightarrow> stored_activation option \<Rightarrow> activation_payload \<Rightarrow> timestamp \<Rightarrow>
   lockdown_error + state_payload system_states" where
  "persist_lockdown_activation t current payload now =
     (let v = ActivationJson (ap_activation_id payload) (ap_expires_at payload) (ap_lockdown_revision payload);
          (applied, t') = (case current of
             None \<Rightarrow> create_system_state t (fst ACTIVATION_KEY) (snd ACTIVATION_KEY) 2 v now
           | Some c \<Rightarrow> update_system_state t (fst ACTIVATION_KEY) (snd ACTIVATION_KEY) (sa_revision c) 2 v now)
      in if applied then Inr t' else Inl CasConflict)"

definition delete_lockdown_activation ::
  "state_payload system_states \<Rightarrow> stored_activation option \<Rightarrow>
   lockdown_error + (bool \<times> state_payload system_states)" where
  "delete_lockdown_activation t current =
     (case current of None \<Rightarrow> Inr (False, t)
      | Some c \<Rightarrow>
          (case delete_system_state t (fst ACTIVATION_KEY) (snd ACTIVATION_KEY) (sa_revision c) of
             (applied, t') \<Rightarrow> if applied then Inr (True, t') else Inl CasConflict))"

section \<open>Commands\<close>

datatype lockdown_event =
    CancelledTasks "string list"
  | LockdownChanged lockdown_state
  | ScheduleChanged

record lockdown_world =
  lw_states :: "state_payload system_states"
  lw_tasks :: "(string \<times> file_task_status) list"
  lw_events :: "lockdown_event list"

definition task_active :: "string \<times> file_task_status \<Rightarrow> bool" where
  "task_active t \<longleftrightarrow> snd t = PENDING \<or> snd t = IN_PROGRESS"

definition cancel_pending_file_tasks ::
  "(string \<times> file_task_status) list \<Rightarrow> string list \<times> nat \<times> (string \<times> file_task_status) list" where
  "cancel_pending_file_tasks tasks =
     (map fst (filter task_active tasks), length (filter task_active tasks),
      map (\<lambda>t. if task_active t then (fst t, CANCELLED) else t) tasks)"

text \<open>What a command decides inside its transaction: to return at once, or to write.\<close>

datatype activation_action = DeleteActivation | PutActivation string "timestamp option"

record lockdown_plan =
  pl_previous_state :: lockdown_state
  pl_previous_source :: "lockdown_source option"
  pl_state :: lockdown_state
  pl_source :: "lockdown_source option"
  pl_last_disabled_at :: timestamp
  pl_activation :: activation_action
  pl_cancel :: bool
  pl_publish :: bool
  pl_always_notify :: bool

type_synonym decision = "lockdown_error + (lockdown_transition + lockdown_plan)"

record lockdown_view =
  lv_current :: "stored_lockdown_state option"
  lv_activation :: "activation_payload option"
  lv_previous_state :: lockdown_state
  lv_previous_source :: "lockdown_source option"

definition lockdown_view_of ::
  "stored_lockdown_state option \<Rightarrow> stored_activation option \<Rightarrow> lockdown_view" where
  "lockdown_view_of current entry =
     (let act = valid_lockdown_activation current entry
      in \<lparr>lv_current = current, lv_activation = act,
          lv_previous_state = (case current of None \<Rightarrow> no_lockdown | Some c \<Rightarrow> sl_state c),
          lv_previous_source = lockdown_source_of current act\<rparr>)"

definition kept :: "lockdown_view \<Rightarrow> transition_outcome \<Rightarrow> lockdown_transition" where
  "kept v outcome = \<lparr>lt_previous_state = lv_previous_state v, lt_state = lv_previous_state v,
     lt_outcome = outcome, lt_cancelled_file_tasks = 0,
     lt_previous_source = lv_previous_source v, lt_source = lv_previous_source v\<rparr>"

definition last_disabled :: "lockdown_view \<Rightarrow> timestamp" where
  "last_disabled v = (case lv_current v of None \<Rightarrow> 0 | Some c \<Rightarrow> sl_last_disabled_at c)"

text \<open>The commit of a plan against the state \<open>w\<close> as it is at that moment.\<close>

definition commit_plan ::
  "lockdown_plan \<Rightarrow> stored_lockdown_state option \<Rightarrow> stored_activation option \<Rightarrow> timestamp \<Rightarrow>
   lockdown_world \<Rightarrow> lockdown_error + (lockdown_transition \<times> lockdown_world)" where
  "commit_plan p current entry now w =
     and_then (persist_lockdown_state (lw_states w) current (pl_state p) (pl_source p)
         (pl_last_disabled_at p) now) (\<lambda>(revision, t1).
     and_then (case pl_activation p of
         DeleteActivation \<Rightarrow> delete_lockdown_activation t1 entry
       | PutActivation i e \<Rightarrow> and_then (persist_lockdown_activation t1 entry
           \<lparr>ap_activation_id = i, ap_expires_at = e, ap_lockdown_revision = revision\<rparr> now)
           (\<lambda>t2. Inr (True, t2))) (\<lambda>(activation_changed, t2).
     let (ids, n, tasks) = (if pl_cancel p then cancel_pending_file_tasks (lw_tasks w) else ([], 0, lw_tasks w))
     in Inr (\<lparr>lt_previous_state = pl_previous_state p, lt_state = pl_state p, lt_outcome = APPLIED,
               lt_cancelled_file_tasks = n, lt_previous_source = pl_previous_source p,
               lt_source = pl_source p\<rparr>,
             \<lparr>lw_states = t2, lw_tasks = tasks, lw_events = lw_events w @
               (if ids = [] then [] else [CancelledTasks ids]) @
               (if pl_publish p then [LockdownChanged (pl_state p)] else []) @
               (if pl_always_notify p \<or> activation_changed then [ScheduleChanged] else [])\<rparr>)))"

definition lockdown_attempt ::
  "(lockdown_view \<Rightarrow> decision) \<Rightarrow> (lockdown_world \<Rightarrow> lockdown_world) \<Rightarrow> timestamp \<Rightarrow> lockdown_world \<Rightarrow>
   lockdown_error + (lockdown_transition \<times> lockdown_world)" where
  "lockdown_attempt decide rival now w =
     and_then (read_lockdown_state (lw_states w)) (\<lambda>current.
     and_then (read_lockdown_activation (lw_states w)) (\<lambda>entry.
     and_then (decide (lockdown_view_of current entry)) (\<lambda>d.
       case d of Inl tr \<Rightarrow> Inr (tr, w) | Inr p \<Rightarrow> commit_plan p current entry now (rival w))))"

text \<open>\<open>_retry_lockdown_cas\<close>: eight attempts.  \<open>rivals\<close> lists what other processes commit during
  each attempt.\<close>

definition rival_of :: "('w \<Rightarrow> 'w) list \<Rightarrow> 'w \<Rightarrow> 'w" where
  "rival_of rivals = (case rivals of [] \<Rightarrow> id | r # _ \<Rightarrow> r)"

fun retry_lockdown_cas ::
  "nat \<Rightarrow> (lockdown_view \<Rightarrow> decision) \<Rightarrow> (lockdown_world \<Rightarrow> lockdown_world) list \<Rightarrow> timestamp \<Rightarrow>
   lockdown_world \<Rightarrow> lockdown_error + (lockdown_transition \<times> lockdown_world)" where
  "retry_lockdown_cas 0 decide rivals now w =
     (case lockdown_attempt decide (rival_of rivals) now w of
        Inl CasConflict \<Rightarrow> Inl RepeatedConflicts | r \<Rightarrow> r)"
| "retry_lockdown_cas (Suc n) decide rivals now w =
     (case lockdown_attempt decide (rival_of rivals) now w of
        Inl CasConflict \<Rightarrow> retry_lockdown_cas n decide (tl rivals) now (rival_of rivals w) | r \<Rightarrow> r)"

definition LOCKDOWN_CAS_MAX_ATTEMPTS :: nat where
  "LOCKDOWN_CAS_MAX_ATTEMPTS = 8"

definition run_lockdown ::
  "(lockdown_view \<Rightarrow> decision) \<Rightarrow> (lockdown_world \<Rightarrow> lockdown_world) list \<Rightarrow> timestamp \<Rightarrow>
   lockdown_world \<Rightarrow> lockdown_error + (lockdown_transition \<times> lockdown_world)" where
  "run_lockdown decide = retry_lockdown_cas (LOCKDOWN_CAS_MAX_ATTEMPTS - 1) decide"

text \<open>\<open>apply_lockdown\<close>; an unset reason is \<^const>\<open>None\<close>, an explicit one \<open>Some r\<close>.\<close>

definition decide_lockdown ::
  "bool \<Rightarrow> string option option \<Rightarrow> bool \<Rightarrow> bool \<Rightarrow> timestamp \<Rightarrow> lockdown_view \<Rightarrow> decision" where
  "decide_lockdown status reason only_if_inactive take_over_scheduled now v =
     (let prev = lv_previous_state v;
          plan = (\<lambda>state source.
            let status_changed = (ls_enabled state \<noteq> ls_enabled prev)
            in Inr (Inr \<lparr>pl_previous_state = prev, pl_previous_source = lv_previous_source v,
                 pl_state = state, pl_source = source,
                 pl_last_disabled_at = (if status_changed \<and> \<not> status then now else last_disabled v),
                 pl_activation = DeleteActivation, pl_cancel = (status_changed \<and> status),
                 pl_publish = (state \<noteq> prev), pl_always_notify = False\<rparr>))
      in if status \<and> only_if_inactive \<and> ls_enabled prev then
           (if take_over_scheduled \<and> lv_activation v \<noteq> None then plan prev (Some AUTOMATIC)
            else Inr (Inl (kept v CONDITION_NOT_MET)))
         else
           (let next_reason = (case reason of Some r \<Rightarrow> r
                  | None \<Rightarrow> if status \<and> ls_enabled prev then ls_reason prev else None);
                state = \<lparr>ls_enabled = status, ls_reason = next_reason\<rparr>
            in if \<not> valid_lockdown_state status next_reason then Inl ValidationError
               else if state = prev then Inr (Inl (kept v UNCHANGED))
               else plan state (if \<not> status then None
                      else if lv_previous_source v = Some AUTOMATIC then Some AUTOMATIC
                      else Some MANUAL)))"

definition apply_lockdown ::
  "bool \<Rightarrow> string option option \<Rightarrow> bool \<Rightarrow> bool \<Rightarrow> (lockdown_world \<Rightarrow> lockdown_world) list \<Rightarrow>
   timestamp \<Rightarrow> lockdown_world \<Rightarrow> lockdown_error + (lockdown_transition \<times> lockdown_world)" where
  "apply_lockdown status reason only_if_inactive take_over_scheduled rivals now w =
     (if \<not> status \<and> only_if_inactive then Inl InvalidArguments
      else if take_over_scheduled \<and> (\<not> status \<or> \<not> only_if_inactive) then Inl InvalidArguments
      else if \<not> status \<and> reason \<noteq> None then Inl InvalidArguments
      else run_lockdown (decide_lockdown status reason only_if_inactive take_over_scheduled now) rivals now w)"

definition decide_automatic :: "string \<Rightarrow> lockdown_view \<Rightarrow> decision" where
  "decide_automatic reason v =
     (let prev = lv_previous_state v in
      if lv_previous_source v = Some AUTOMATIC \<or> lv_previous_source v = Some UNKNOWN
      then Inr (Inl (kept v CONDITION_NOT_MET))
      else if \<not> ls_enabled prev \<and> \<not> valid_reason (Some reason) then Inl ValidationError
      else (let state = (if ls_enabled prev then prev else \<lparr>ls_enabled = True, ls_reason = Some reason\<rparr>);
                status_changed = (\<not> ls_enabled prev)
            in Inr (Inr \<lparr>pl_previous_state = prev, pl_previous_source = lv_previous_source v,
                 pl_state = state, pl_source = Some AUTOMATIC, pl_last_disabled_at = last_disabled v,
                 pl_activation = DeleteActivation, pl_cancel = status_changed,
                 pl_publish = status_changed, pl_always_notify = False\<rparr>)))"

definition apply_automatic_lockdown ::
  "string \<Rightarrow> (lockdown_world \<Rightarrow> lockdown_world) list \<Rightarrow> timestamp \<Rightarrow> lockdown_world \<Rightarrow>
   lockdown_error + (lockdown_transition \<times> lockdown_world)" where
  "apply_automatic_lockdown reason rivals now w = run_lockdown (decide_automatic reason) rivals now w"

definition decide_scheduled ::
  "string \<Rightarrow> timestamp option \<Rightarrow> string option \<Rightarrow> timestamp \<Rightarrow> lockdown_view \<Rightarrow> decision" where
  "decide_scheduled activation_id expires_at reason db_now v =
     (if \<not> valid_activation activation_id expires_at 1 then Inl ValidationError
      else if (case expires_at of None \<Rightarrow> False | Some e \<Rightarrow> e \<le> db_now)
      then Inr (Inl (kept v CONDITION_NOT_MET))
      else if ls_enabled (lv_previous_state v) then
        Inr (Inl (kept v (case lv_activation v of
            Some a \<Rightarrow> if ap_activation_id a = activation_id \<and> ap_expires_at a = expires_at then UNCHANGED
                      else CONDITION_NOT_MET
          | None \<Rightarrow> CONDITION_NOT_MET)))
      else if \<not> valid_reason reason then Inl ValidationError
      else Inr (Inr \<lparr>pl_previous_state = lv_previous_state v, pl_previous_source = lv_previous_source v,
             pl_state = \<lparr>ls_enabled = True, ls_reason = reason\<rparr>, pl_source = Some SCHEDULED,
             pl_last_disabled_at = last_disabled v, pl_activation = PutActivation activation_id expires_at,
             pl_cancel = True, pl_publish = True, pl_always_notify = True\<rparr>))"

definition apply_scheduled_lockdown ::
  "string \<Rightarrow> timestamp option \<Rightarrow> string option \<Rightarrow> (lockdown_world \<Rightarrow> lockdown_world) list \<Rightarrow>
   timestamp \<Rightarrow> timestamp \<Rightarrow> lockdown_world \<Rightarrow> lockdown_error + (lockdown_transition \<times> lockdown_world)" where
  "apply_scheduled_lockdown activation_id expires_at reason rivals db_now now w =
     run_lockdown (decide_scheduled activation_id expires_at reason db_now) rivals now w"

definition release_plan :: "lockdown_view \<Rightarrow> timestamp \<Rightarrow> bool \<Rightarrow> lockdown_plan" where
  "release_plan v since notify = \<lparr>pl_previous_state = lv_previous_state v,
     pl_previous_source = lv_previous_source v, pl_state = no_lockdown, pl_source = None,
     pl_last_disabled_at = since, pl_activation = DeleteActivation, pl_cancel = False,
     pl_publish = True, pl_always_notify = notify\<rparr>"

definition decide_disable_scheduled :: "timestamp \<Rightarrow> lockdown_view \<Rightarrow> decision" where
  "decide_disable_scheduled db_now v =
     (if \<not> ls_enabled (lv_previous_state v) then Inr (Inl (kept v UNCHANGED))
      else if lv_previous_source v \<noteq> Some MANUAL \<and> lv_previous_source v \<noteq> Some SCHEDULED
      then Inr (Inl (kept v CONDITION_NOT_MET))
      else Inr (Inr (release_plan v db_now False)))"

definition disable_scheduled_lockdown ::
  "(lockdown_world \<Rightarrow> lockdown_world) list \<Rightarrow> timestamp \<Rightarrow> timestamp \<Rightarrow> lockdown_world \<Rightarrow>
   lockdown_error + (lockdown_transition \<times> lockdown_world)" where
  "disable_scheduled_lockdown rivals db_now now w = run_lockdown (decide_disable_scheduled db_now) rivals now w"

definition decide_expire :: "string \<Rightarrow> timestamp \<Rightarrow> lockdown_view \<Rightarrow> decision" where
  "decide_expire activation_id db_now v =
     (case lv_activation v of
        None \<Rightarrow> Inr (Inl (kept v CONDITION_NOT_MET))
      | Some a \<Rightarrow>
          if ap_activation_id a \<noteq> activation_id \<or>
             (case ap_expires_at a of None \<Rightarrow> True | Some e \<Rightarrow> e > db_now)
          then Inr (Inl (kept v CONDITION_NOT_MET))
          else Inr (Inr (release_plan v db_now True)))"

definition expire_scheduled_lockdown ::
  "string \<Rightarrow> (lockdown_world \<Rightarrow> lockdown_world) list \<Rightarrow> timestamp \<Rightarrow> timestamp \<Rightarrow> lockdown_world \<Rightarrow>
   lockdown_error + (lockdown_transition \<times> lockdown_world)" where
  "expire_scheduled_lockdown activation_id rivals db_now now w =
     run_lockdown (decide_expire activation_id db_now) rivals now w"

text \<open>The queries of \<open>LockdownStateManager\<close> and the expiry schedule derived from them.\<close>

definition get_state :: "lockdown_world \<Rightarrow> lockdown_error + lockdown_state" where
  "get_state w = and_then (read_lockdown_state (lw_states w)) (\<lambda>s.
     Inr (case s of None \<Rightarrow> no_lockdown | Some s \<Rightarrow> sl_state s))"

definition get_last_disabled_at :: "lockdown_world \<Rightarrow> lockdown_error + timestamp" where
  "get_last_disabled_at w = and_then (read_lockdown_state (lw_states w)) (\<lambda>s.
     Inr (case s of None \<Rightarrow> 0 | Some s \<Rightarrow> sl_last_disabled_at s))"

definition get_source :: "lockdown_world \<Rightarrow> lockdown_error + lockdown_source option" where
  "get_source w = and_then (read_lockdown_state (lw_states w)) (\<lambda>s.
     and_then (read_lockdown_activation (lw_states w)) (\<lambda>a.
       Inr (lockdown_source_of s (valid_lockdown_activation s a))))"

definition get_scheduled_activation :: "lockdown_world \<Rightarrow> lockdown_error + activation_payload option" where
  "get_scheduled_activation w = and_then (read_lockdown_state (lw_states w)) (\<lambda>s.
     and_then (read_lockdown_activation (lw_states w)) (\<lambda>a. Inr (valid_lockdown_activation s a)))"

record expiry_schedule =
  es_activation_id :: string
  es_run_at :: timestamp
  es_run_immediately :: bool

definition lockdown_expiry_schedule :: "timestamp \<Rightarrow> lockdown_world \<Rightarrow> lockdown_error + expiry_schedule option" where
  "lockdown_expiry_schedule db_now w = and_then (get_scheduled_activation w) (\<lambda>a.
     Inr (case a of None \<Rightarrow> None
          | Some a \<Rightarrow> (case ap_expires_at a of None \<Rightarrow> None
              | Some e \<Rightarrow> Some \<lparr>es_activation_id = ap_activation_id a, es_run_at = e,
                              es_run_immediately = (e \<le> db_now)\<rparr>)))"

section \<open>Revisions only grow\<close>

definition lockdown_rev :: "lockdown_world \<Rightarrow> nat" where
  "lockdown_rev w = (case lw_states w LOCKDOWN_KEY of None \<Rightarrow> 0 | Some s \<Rightarrow> Suc (st_revision s))"

definition same_entries :: "lockdown_world \<Rightarrow> lockdown_world \<Rightarrow> bool" where
  "same_entries w w' \<longleftrightarrow> lw_states w LOCKDOWN_KEY = lw_states w' LOCKDOWN_KEY \<and>
     lw_states w ACTIVATION_KEY = lw_states w' ACTIVATION_KEY"

definition progress :: "lockdown_world \<Rightarrow> lockdown_world \<Rightarrow> bool" where
  "progress w w' \<longleftrightarrow> lockdown_rev w \<le> lockdown_rev w' \<and>
     (lockdown_rev w = lockdown_rev w' \<longrightarrow> same_entries w w')"

lemma progress_refl: "progress w w"
  by (simp add: progress_def same_entries_def)

lemma progress_trans: "progress a b \<Longrightarrow> progress b c \<Longrightarrow> progress a c"
  by (auto simp: progress_def same_entries_def)

lemma keys_distinct [simp]: "LOCKDOWN_KEY \<noteq> ACTIVATION_KEY" "ACTIVATION_KEY \<noteq> LOCKDOWN_KEY"
  by (simp_all add: LOCKDOWN_KEY_def ACTIVATION_KEY_def)

lemma read_lockdown_cong: "same_entries w w' \<Longrightarrow>
    read_lockdown_state (lw_states w) = read_lockdown_state (lw_states w') \<and>
    read_lockdown_activation (lw_states w) = read_lockdown_activation (lw_states w')"
  by (simp add: same_entries_def read_lockdown_state_def read_lockdown_activation_def read_system_state_def)

lemma read_lockdown_rev:
  assumes "read_lockdown_state t = Inr current"
  shows "case current of None \<Rightarrow> t LOCKDOWN_KEY = None
    | Some c \<Rightarrow> \<exists>s. t LOCKDOWN_KEY = Some s \<and> st_revision s = sl_revision c"
  using assms
  by (auto simp: read_lockdown_state_def read_system_state_def and_then_Inr parse_lockdown_state_def
      split: option.splits if_splits state_payload.splits)

lemma persist_lockdown_state_Inr:
  assumes "persist_lockdown_state t current state source since now = Inr (revn, t')"
  shows "\<exists>s. t' = t(LOCKDOWN_KEY \<mapsto> s) \<and> st_revision s = revn \<and> st_schema_version s = 2 \<and>
    st_payload s = LockdownJson (ls_enabled state) (ls_reason state) (Some (map_option source_string source)) since"
    and "case current of None \<Rightarrow> t LOCKDOWN_KEY = None \<and> revn = 1
      | Some c \<Rightarrow> revn = sl_revision c + 1 \<and> (\<exists>s. t LOCKDOWN_KEY = Some s \<and> st_revision s = sl_revision c)"
    and "valid_lockdown_state (ls_enabled state) (ls_reason state) \<and> since \<ge> 0 \<and>
      valid_source (ls_enabled state) (map_option source_string source)"
proof -
  show "valid_lockdown_state (ls_enabled state) (ls_reason state) \<and> since \<ge> 0 \<and>
      valid_source (ls_enabled state) (map_option source_string source)"
    using assms by (simp add: persist_lockdown_state_def Let_def split: if_splits)
  then have *: "(case (case current of
             None \<Rightarrow> (1, create_system_state t (fst LOCKDOWN_KEY) (snd LOCKDOWN_KEY) 2
               (LockdownJson (ls_enabled state) (ls_reason state) (Some (map_option source_string source)) since) now)
           | Some c \<Rightarrow> (sl_revision c + 1, update_system_state t (fst LOCKDOWN_KEY) (snd LOCKDOWN_KEY)
               (sl_revision c) 2
               (LockdownJson (ls_enabled state) (ls_reason state) (Some (map_option source_string source)) since) now))
           of (revision, applied, t') \<Rightarrow> if applied then Inr (revision, t') else Inl CasConflict) = Inr (revn, t')"
    using assms by (simp add: persist_lockdown_state_def Let_def)
  show "\<exists>s. t' = t(LOCKDOWN_KEY \<mapsto> s) \<and> st_revision s = revn \<and> st_schema_version s = 2 \<and>
    st_payload s = LockdownJson (ls_enabled state) (ls_reason state) (Some (map_option source_string source)) since"
    using * by (cases current) (auto simp: create_system_state_def update_system_state_def
        split: option.splits if_splits)
  show "case current of None \<Rightarrow> t LOCKDOWN_KEY = None \<and> revn = 1
      | Some c \<Rightarrow> revn = sl_revision c + 1 \<and> (\<exists>s. t LOCKDOWN_KEY = Some s \<and> st_revision s = sl_revision c)"
    using * by (cases current) (auto simp: create_system_state_def update_system_state_def
        split: option.splits if_splits)
qed

lemma activation_step_key:
  assumes "(case act of DeleteActivation \<Rightarrow> delete_lockdown_activation t entry
       | PutActivation i e \<Rightarrow> and_then (persist_lockdown_activation t entry (pay i e) now)
           (\<lambda>t2. Inr (True, t2))) = Inr (changed, t2)"
  shows "t2 LOCKDOWN_KEY = t LOCKDOWN_KEY"
  using assms
  by (auto simp: delete_lockdown_activation_def persist_lockdown_activation_def and_then_Inr
      create_system_state_def update_system_state_def delete_system_state_def Let_def
      split: activation_action.splits option.splits if_splits)

abbreviation activation_result where
  "activation_result p entry revn t1 now \<equiv> (case pl_activation p of
       DeleteActivation \<Rightarrow> delete_lockdown_activation t1 entry
     | PutActivation i e \<Rightarrow> and_then (persist_lockdown_activation t1 entry
         \<lparr>ap_activation_id = i, ap_expires_at = e, ap_lockdown_revision = revn\<rparr> now)
         (\<lambda>t2. Inr (True, t2)))"

lemma commit_plan_Inr:
  assumes "commit_plan p current entry now w = Inr (tr, w')"
  obtains revn t1 changed t2 where
    "persist_lockdown_state (lw_states w) current (pl_state p) (pl_source p) (pl_last_disabled_at p) now = Inr (revn, t1)"
    "activation_result p entry revn t1 now = Inr (changed, t2)"
    "lw_states w' = t2"
    "lw_tasks w' = (if pl_cancel p then snd (snd (cancel_pending_file_tasks (lw_tasks w))) else lw_tasks w)"
    "lt_outcome tr = APPLIED" "lt_state tr = pl_state p"
proof -
  obtain revn t1 where
    p: "persist_lockdown_state (lw_states w) current (pl_state p) (pl_source p) (pl_last_disabled_at p) now = Inr (revn, t1)"
    using assms unfolding commit_plan_def
    by (cases "persist_lockdown_state (lw_states w) current (pl_state p) (pl_source p) (pl_last_disabled_at p) now") auto
  obtain changed t2 where a: "activation_result p entry revn t1 now = Inr (changed, t2)"
    using assms unfolding commit_plan_def p and_then_simps prod.case by (cases "activation_result p entry revn t1 now") auto
  show ?thesis
    using assms unfolding commit_plan_def p and_then_simps prod.case a
    by (intro that[OF p a]) (auto simp: cancel_pending_file_tasks_def split: if_splits)
qed

lemma commit_plan_grows:
  assumes "commit_plan p current entry now w = Inr (tr, w')"
  shows "lockdown_rev w < lockdown_rev w'"
proof (rule commit_plan_Inr[OF assms])
  fix revn t1 changed t2
  assume p: "persist_lockdown_state (lw_states w) current (pl_state p) (pl_source p) (pl_last_disabled_at p) now = Inr (revn, t1)"
    and a: "activation_result p entry revn t1 now = Inr (changed, t2)" and w': "lw_states w' = t2"
  from persist_lockdown_state_Inr(1,2)[OF p] activation_step_key[OF a] w'
  show "lockdown_rev w < lockdown_rev w'"
    by (auto simp: lockdown_rev_def split: option.splits)
qed

text \<open>A plan can only be committed against the entries it was made from.\<close>

lemma commit_plan_same:
  assumes "commit_plan p current entry now w' = Inr r" and "progress w w'"
    and "read_lockdown_state (lw_states w) = Inr current"
  shows "same_entries w w'"
proof -
  obtain tr w2 where r: "r = (tr, w2)" by fastforce
  obtain revn t1 where
    p: "persist_lockdown_state (lw_states w') current (pl_state p) (pl_source p) (pl_last_disabled_at p) now = Inr (revn, t1)"
    by (rule commit_plan_Inr[OF assms(1)[unfolded r]])
  have "case current of None \<Rightarrow> lw_states w' LOCKDOWN_KEY = None \<and> revn = 1
      | Some c \<Rightarrow> revn = sl_revision c + 1 \<and> (\<exists>s. lw_states w' LOCKDOWN_KEY = Some s \<and> st_revision s = sl_revision c)"
    by (rule persist_lockdown_state_Inr(2)[OF p])
  then have "lockdown_rev w = lockdown_rev w'"
    using read_lockdown_rev[OF assms(3)] by (auto simp: lockdown_rev_def split: option.splits)
  with assms(2) show ?thesis by (simp add: progress_def)
qed

lemma lockdown_attempt_cases:
  assumes "lockdown_attempt decide rival now w = Inr (tr, w')"
  obtains (kept) current entry where "read_lockdown_state (lw_states w) = Inr current"
      "read_lockdown_activation (lw_states w) = Inr entry"
      "decide (lockdown_view_of current entry) = Inr (Inl tr)" "w' = w"
  | (committed) current entry p where "read_lockdown_state (lw_states w) = Inr current"
      "read_lockdown_activation (lw_states w) = Inr entry"
      "decide (lockdown_view_of current entry) = Inr (Inr p)"
      "commit_plan p current entry now (rival w) = Inr (tr, w')"
proof -
  from assms obtain current entry d where
    rd: "read_lockdown_state (lw_states w) = Inr current" "read_lockdown_activation (lw_states w) = Inr entry"
    "decide (lockdown_view_of current entry) = Inr d"
    and d: "(case d of Inl tr \<Rightarrow> Inr (tr, w) | Inr p \<Rightarrow> commit_plan p current entry now (rival w)) = Inr (tr, w')"
    unfolding lockdown_attempt_def and_then_Inr by blast
  show ?thesis
  proof (cases d)
    case (Inl tr0)
    then show ?thesis using kept[OF rd(1,2)] rd(3) d by simp
  next
    case (Inr p)
    then show ?thesis using committed[OF rd(1,2)] rd(3) d by simp
  qed
qed

lemma attempt_serial:
  assumes "lockdown_attempt decide rival now w = Inr (tr, w')" "progress w (rival w)"
  shows "lockdown_attempt decide id now w = Inr (tr, w') \<or> lockdown_attempt decide id now (rival w) = Inr (tr, w')"
proof (cases rule: lockdown_attempt_cases[OF assms(1)])
  case (1 current entry)
  then show ?thesis by (simp add: lockdown_attempt_def)
next
  case (2 current entry p)
  have "same_entries w (rival w)" by (rule commit_plan_same[OF 2(4) assms(2) 2(1)])
  then have "read_lockdown_state (lw_states (rival w)) = Inr current"
    "read_lockdown_activation (lw_states (rival w)) = Inr entry"
    using read_lockdown_cong[of w "rival w"] 2(1,2) by simp_all
  then show ?thesis using 2(3,4) by (simp add: lockdown_attempt_def)
qed

lemma attempt_progress:
  assumes "lockdown_attempt decide id now w = Inr (tr, w')"
  shows "progress w w'"
proof (cases rule: lockdown_attempt_cases[OF assms])
  case (2 current entry p)
  then show ?thesis using commit_plan_grows[OF 2(4)] by (simp add: progress_def)
qed (simp add: progress_refl)


section \<open>Interleavings are serialisable\<close>

text \<open>One command run alone.\<close>

inductive lockdown_step :: "lockdown_world \<Rightarrow> lockdown_world \<Rightarrow> bool" where
  "apply_lockdown status reason oii tos [] now w = Inr (tr, w') \<Longrightarrow> lockdown_step w w'"
| "apply_automatic_lockdown reason' [] now w = Inr (tr, w') \<Longrightarrow> lockdown_step w w'"
| "apply_scheduled_lockdown i e reason'' [] db_now now w = Inr (tr, w') \<Longrightarrow> lockdown_step w w'"
| "disable_scheduled_lockdown [] db_now now w = Inr (tr, w') \<Longrightarrow> lockdown_step w w'"
| "expire_scheduled_lockdown i [] db_now now w = Inr (tr, w') \<Longrightarrow> lockdown_step w w'"

lemma commit_plan_no_conflict:
  assumes "read_lockdown_state (lw_states w) = Inr current" "read_lockdown_activation (lw_states w) = Inr entry"
  shows "commit_plan p current entry now w \<noteq> Inl CasConflict"
proof -
  have a: "case entry of None \<Rightarrow> lw_states w ACTIVATION_KEY = None
    | Some c \<Rightarrow> \<exists>s. lw_states w ACTIVATION_KEY = Some s \<and> st_revision s = sa_revision c"
    using assms(2) by (auto simp: read_lockdown_activation_def read_system_state_def
        split: option.splits if_splits state_payload.splits)
  show ?thesis
  proof (cases "persist_lockdown_state (lw_states w) current (pl_state p) (pl_source p) (pl_last_disabled_at p) now")
    case (Inl e)
    then have "e \<noteq> CasConflict"
      using read_lockdown_rev[OF assms(1)]
      by (auto simp: persist_lockdown_state_def Let_def create_system_state_def update_system_state_def
          split: option.splits if_splits)
    with Inl show ?thesis by (simp add: commit_plan_def)
  next
    case (Inr rt)
    obtain revn t1 where rt: "rt = (revn, t1)" by fastforce
    have t1: "t1 ACTIVATION_KEY = lw_states w ACTIVATION_KEY"
      using persist_lockdown_state_Inr(1)[OF Inr[unfolded rt]] by auto
    have "activation_result p entry revn t1 now \<noteq> Inl e" for e
      using a t1
      by (auto simp: delete_lockdown_activation_def persist_lockdown_activation_def Let_def
          create_system_state_def update_system_state_def delete_system_state_def
          split: activation_action.splits option.splits if_splits)
    then obtain ct where "activation_result p entry revn t1 now = Inr ct"
      by (cases "activation_result p entry revn t1 now") auto
    then show ?thesis using Inr rt unfolding commit_plan_def by (auto split: prod.splits)
  qed
qed

lemma serial_no_conflict: "lockdown_attempt decide id now w = Inl CasConflict \<Longrightarrow>
    decide (lockdown_view_of current entry) \<noteq> Inl CasConflict \<Longrightarrow>
    read_lockdown_state (lw_states w) = Inr current \<Longrightarrow> read_lockdown_activation (lw_states w) = Inr entry \<Longrightarrow> False"
  using commit_plan_no_conflict[of w current entry]
  by (cases "decide (lockdown_view_of current entry)") (auto simp: lockdown_attempt_def split: sum.splits)

lemma serial_retry: "lockdown_attempt decide id now w = Inr r \<Longrightarrow> retry_lockdown_cas n decide [] now w = Inr r"
  by (cases n) (simp_all add: rival_of_def)

text \<open>The state after the first \<open>k\<close> rivals.\<close>

fun rivals_ran :: "nat \<Rightarrow> ('w \<Rightarrow> 'w) list \<Rightarrow> 'w \<Rightarrow> 'w" where
  "rivals_ran 0 rivals w = w"
| "rivals_ran (Suc k) rivals w = rivals_ran k (tl rivals) (rival_of rivals w)"

lemma rival_of_Nil [simp]: "rival_of [] = id" "rival_of (r # rs) = r"
  by (simp_all add: rival_of_def)

lemma rivals_ran_first:
  assumes "P w \<or> P (rival_of rivals w)"
  shows "\<exists>k. P (rivals_ran k rivals w)"
proof -
  from assms have "P (rivals_ran 0 rivals w) \<or> P (rivals_ran 1 rivals w)" by simp
  then show ?thesis by blast
qed

lemma retry_serial:
  assumes "retry_lockdown_cas n decide rivals now w = Inr (tr, w')"
    and "\<And>r v. r \<in> set rivals \<Longrightarrow> progress v (r v)"
  shows "\<exists>k. lockdown_attempt decide id now (rivals_ran k rivals w) = Inr (tr, w')"
  using assms
proof (induction n decide rivals now w rule: retry_lockdown_cas.induct)
  case (1 decide rivals now w)
  then have "lockdown_attempt decide (rival_of rivals) now w = Inr (tr, w')"
    by (auto split: sum.splits lockdown_error.splits)
  moreover have "progress w (rival_of rivals w)"
    using 1(2) by (cases rivals) (auto simp: rival_of_def progress_refl)
  ultimately have "lockdown_attempt decide id now w = Inr (tr, w') \<or>
      lockdown_attempt decide id now (rival_of rivals w) = Inr (tr, w')" by (rule attempt_serial)
  then show ?case by (rule rivals_ran_first)
next
  case (2 n decide rivals now w)
  have sub: "r \<in> set (tl rivals) \<Longrightarrow> r \<in> set rivals" for r by (cases rivals) auto
  have p: "progress w (rival_of rivals w)"
    using 2(3) by (cases rivals) (auto simp: rival_of_def progress_refl)
  show ?case
  proof (cases "lockdown_attempt decide (rival_of rivals) now w = Inl CasConflict")
    case True
    then have "\<exists>k. lockdown_attempt decide id now (rivals_ran k (tl rivals) (rival_of rivals w)) = Inr (tr, w')"
      using 2(2,3) sub by (intro "2.IH") (auto split: sum.splits)
    then obtain k where "lockdown_attempt decide id now (rivals_ran k (tl rivals) (rival_of rivals w)) = Inr (tr, w')" by blast
    then have "lockdown_attempt decide id now (rivals_ran (Suc k) rivals w) = Inr (tr, w')" by simp
    then show ?thesis by blast
  next
    case False
    then have "lockdown_attempt decide (rival_of rivals) now w = Inr (tr, w')"
      using 2(2) by (auto split: sum.splits lockdown_error.splits)
    from attempt_serial[OF this p] show ?thesis by (rule rivals_ran_first)
  qed
qed


lemma step_attempt:
  assumes "lockdown_step w w'"
  obtains decide now tr where "lockdown_attempt decide id now w = Inr (tr, w')"
proof -
  have serial: "\<exists>tr. lockdown_attempt decide id now w = Inr (tr, w')"
    if run: "run_lockdown decide [] now w = Inr (tr, w')" for decide now tr
  proof -
    obtain k where "lockdown_attempt decide id now (rivals_ran k [] w) = Inr (tr, w')"
      using retry_serial[OF run[unfolded run_lockdown_def]] by auto
    moreover have "rivals_ran k [] w = w" for k by (induction k) simp_all
    ultimately show ?thesis by auto
  qed
  from assms show ?thesis
    by cases (auto simp: apply_lockdown_def apply_automatic_lockdown_def apply_scheduled_lockdown_def
        disable_scheduled_lockdown_def expire_scheduled_lockdown_def split: if_splits dest!: serial intro: that)
qed

lemma steps_progress: "lockdown_step\<^sup>*\<^sup>* w w' \<Longrightarrow> progress w w'"
proof (induction rule: rtranclp_induct)
  case (step y z)
  then show ?case by (metis attempt_progress progress_trans step_attempt)
qed (rule progress_refl)

lemma rivals_ran_steps:
  assumes "\<And>r v. r \<in> set rivals \<Longrightarrow> lockdown_step\<^sup>*\<^sup>* v (r v)"
  shows "lockdown_step\<^sup>*\<^sup>* w (rivals_ran k rivals w)"
  using assms
proof (induction k rivals w rule: rivals_ran.induct)
  case (2 k rivals w)
  have "lockdown_step\<^sup>*\<^sup>* w (rival_of rivals w)" using 2(2) by (cases rivals) simp_all
  moreover have "lockdown_step\<^sup>*\<^sup>* (rival_of rivals w) (rivals_ran k (tl rivals) (rival_of rivals w))"
    using 2 by (cases rivals) simp_all
  ultimately show ?case by simp
qed simp

text \<open>A command interleaved with other commands is one of them run alone, at some point of the
  others' history.\<close>

lemma run_serialisable:
  assumes "run_lockdown decide rivals now w = Inr (tr, w')"
    and "\<And>r v. r \<in> set rivals \<Longrightarrow> lockdown_step\<^sup>*\<^sup>* v (r v)"
  shows "\<exists>v. lockdown_step\<^sup>*\<^sup>* w v \<and> run_lockdown decide [] now v = Inr (tr, w')"
proof -
  obtain k where "lockdown_attempt decide id now (rivals_ran k rivals w) = Inr (tr, w')"
    using retry_serial assms steps_progress unfolding run_lockdown_def by blast
  then have "run_lockdown decide [] now (rivals_ran k rivals w) = Inr (tr, w')"
    unfolding run_lockdown_def by (rule serial_retry)
  moreover have "lockdown_step\<^sup>*\<^sup>* w (rivals_ran k rivals w)"
    by (rule rivals_ran_steps) (rule assms(2))
  ultimately show ?thesis by blast
qed

section \<open>What a commit leaves behind\<close>

definition states_ok :: "lockdown_world \<Rightarrow> bool" where
  "states_ok w \<longleftrightarrow> \<not> isl (read_lockdown_state (lw_states w)) \<and> \<not> isl (read_lockdown_activation (lw_states w))"

lemma states_okE:
  assumes "states_ok w"
  obtains current entry where "read_lockdown_state (lw_states w) = Inr current"
    "read_lockdown_activation (lw_states w) = Inr entry"
  using assms not_isl_Inr by (metis states_ok_def)

lemma source_string_inv: "s \<noteq> UNKNOWN \<Longrightarrow> source_of_string (source_string s) = Some s"
  "source_of_string (source_string UNKNOWN) = None"
  by (cases s) (simp_all add: source_of_string_def)

definition plan_ok :: "lockdown_plan \<Rightarrow> bool" where
  "plan_ok p \<longleftrightarrow> (case pl_activation p of DeleteActivation \<Rightarrow> True
     | PutActivation i e \<Rightarrow> valid_activation i e 1)"

lemma read_activation_key:
  assumes "read_lockdown_activation t = Inr entry"
  shows "entry = None \<longleftrightarrow> t ACTIVATION_KEY = None"
  using assms by (auto simp: read_lockdown_activation_def read_system_state_def
      split: option.splits if_splits state_payload.splits)

lemma read_after_persist:
  assumes "persist_lockdown_state t current state source since now = Inr (revn, t1)"
    and "t2 LOCKDOWN_KEY = t1 LOCKDOWN_KEY"
  shows "read_lockdown_state t2 = Inr (Some \<lparr>sl_state = state, sl_source = source,
    sl_last_disabled_at = since, sl_revision = revn\<rparr>)"
proof -
  note r = persist_lockdown_state_Inr[OF assms(1)]
  have src: "Option.bind (map_option source_string source) source_of_string = source"
  proof (cases source)
    case (Some s)
    with r(3) have "source_of_string (source_string s) \<noteq> None" by simp
    then have "s \<noteq> UNKNOWN" using source_string_inv(2) by auto
    then show ?thesis using Some source_string_inv(1) by simp
  qed simp
  from r(1) obtain s where s: "t1 LOCKDOWN_KEY = Some s" "st_revision s = revn" "st_schema_version s = 2"
    "st_payload s = LockdownJson (ls_enabled state) (ls_reason state) (Some (map_option source_string source)) since"
    by auto
  have "parse_lockdown_state s = Inr \<lparr>sl_state = state, sl_source = source,
    sl_last_disabled_at = since, sl_revision = revn\<rparr>"
    using s r(3) src by (simp add: parse_lockdown_state_def)
  then show ?thesis
    using s(1) assms(2) by (simp add: read_lockdown_state_def read_system_state_def)
qed

lemma commit_reads:
  assumes c: "commit_plan p current entry now w = Inr (tr, w')"
    and rd: "read_lockdown_state (lw_states w) = Inr current" "read_lockdown_activation (lw_states w) = Inr entry"
    and "plan_ok p"
  shows "\<exists>revn. read_lockdown_state (lw_states w') = Inr (Some \<lparr>sl_state = pl_state p, sl_source = pl_source p,
      sl_last_disabled_at = pl_last_disabled_at p, sl_revision = revn\<rparr>) \<and>
    (case pl_activation p of
       DeleteActivation \<Rightarrow> read_lockdown_activation (lw_states w') = Inr None
     | PutActivation i e \<Rightarrow> \<exists>n. read_lockdown_activation (lw_states w') = Inr (Some
         \<lparr>sa_payload = \<lparr>ap_activation_id = i, ap_expires_at = e, ap_lockdown_revision = revn\<rparr>, sa_revision = n\<rparr>))"
proof (rule commit_plan_Inr[OF c])
  fix revn t1 changed t2
  assume p: "persist_lockdown_state (lw_states w) current (pl_state p) (pl_source p) (pl_last_disabled_at p) now = Inr (revn, t1)"
    and a: "activation_result p entry revn t1 now = Inr (changed, t2)" and w': "lw_states w' = t2"
  have t1a: "t1 ACTIVATION_KEY = lw_states w ACTIVATION_KEY"
    using persist_lockdown_state_Inr(1)[OF p] by auto
  have pos: "revn > 0" using persist_lockdown_state_Inr(2)[OF p] by (auto split: option.splits)
  have "(case pl_activation p of
       DeleteActivation \<Rightarrow> read_lockdown_activation t2 = Inr None
     | PutActivation i e \<Rightarrow> \<exists>n. read_lockdown_activation t2 = Inr (Some
         \<lparr>sa_payload = \<lparr>ap_activation_id = i, ap_expires_at = e, ap_lockdown_revision = revn\<rparr>, sa_revision = n\<rparr>))"
  proof (cases "pl_activation p")
    case DeleteActivation
    have "t2 ACTIVATION_KEY = None"
      using a DeleteActivation read_activation_key[OF rd(2)] t1a
      by (auto simp: delete_lockdown_activation_def delete_system_state_def ACTIVATION_KEY_def[symmetric]
          split: option.splits if_splits)
    then show ?thesis
      using DeleteActivation by (simp add: read_lockdown_activation_def read_system_state_def)
  next
    case (PutActivation i e)
    obtain n now' where "t2 ACTIVATION_KEY = Some \<lparr>st_schema_version = 2, st_revision = n,
        st_payload = ActivationJson i e revn, st_updated_at = now'\<rparr>"
      using a PutActivation
      by (auto simp: persist_lockdown_activation_def create_system_state_def update_system_state_def
          and_then_Inr Let_def split: option.splits if_splits)
    moreover have "valid_activation i e revn"
      using assms(4) PutActivation pos by (simp add: plan_ok_def valid_activation_def)
    ultimately show ?thesis
      using PutActivation by (simp add: read_lockdown_activation_def read_system_state_def)
  qed
  moreover have "t2 LOCKDOWN_KEY = t1 LOCKDOWN_KEY" by (rule activation_step_key[OF a])
  then have "read_lockdown_state t2 = Inr (Some \<lparr>sl_state = pl_state p, sl_source = pl_source p,
      sl_last_disabled_at = pl_last_disabled_at p, sl_revision = revn\<rparr>)" by (rule read_after_persist[OF p])
  ultimately show ?thesis using w' by blast
qed

lemma decide_plan_ok:
  "decide_lockdown st r oii tos n v = Inr (Inr p) \<Longrightarrow> plan_ok p"
  "decide_automatic r' v = Inr (Inr p) \<Longrightarrow> plan_ok p"
  "decide_scheduled i e r'' dn v = Inr (Inr p) \<Longrightarrow> plan_ok p"
  "decide_disable_scheduled dn v = Inr (Inr p) \<Longrightarrow> plan_ok p"
  "decide_expire i dn v = Inr (Inr p) \<Longrightarrow> plan_ok p"
  by (auto simp: decide_lockdown_def decide_automatic_def decide_scheduled_def decide_disable_scheduled_def
      decide_expire_def release_plan_def plan_ok_def Let_def split: if_splits option.splits)

section \<open>Commands as data\<close>

datatype lockdown_command =
    Apply bool "string option option" bool bool timestamp
  | Automatic string timestamp
  | Scheduled string "timestamp option" "string option" timestamp timestamp
  | DisableScheduled timestamp timestamp
  | Expire string timestamp timestamp

fun run_command :: "lockdown_command \<Rightarrow> (lockdown_world \<Rightarrow> lockdown_world) list \<Rightarrow> lockdown_world \<Rightarrow>
    lockdown_error + (lockdown_transition \<times> lockdown_world)" where
  "run_command (Apply status reason oii tos now) rivals w = apply_lockdown status reason oii tos rivals now w"
| "run_command (Automatic reason now) rivals w = apply_automatic_lockdown reason rivals now w"
| "run_command (Scheduled i e reason db_now now) rivals w = apply_scheduled_lockdown i e reason rivals db_now now w"
| "run_command (DisableScheduled db_now now) rivals w = disable_scheduled_lockdown rivals db_now now w"
| "run_command (Expire i db_now now) rivals w = expire_scheduled_lockdown i rivals db_now now w"

fun command_decision :: "lockdown_command \<Rightarrow> lockdown_view \<Rightarrow> decision" where
  "command_decision (Apply status reason oii tos now) = decide_lockdown status reason oii tos now"
| "command_decision (Automatic reason now) = decide_automatic reason"
| "command_decision (Scheduled i e reason db_now now) = decide_scheduled i e reason db_now"
| "command_decision (DisableScheduled db_now now) = decide_disable_scheduled db_now"
| "command_decision (Expire i db_now now) = decide_expire i db_now"

fun command_now :: "lockdown_command \<Rightarrow> timestamp" where
  "command_now (Apply status reason oii tos now) = now"
| "command_now (Automatic reason now) = now"
| "command_now (Scheduled i e reason db_now now) = now"
| "command_now (DisableScheduled db_now now) = now"
| "command_now (Expire i db_now now) = now"

fun arguments_ok :: "lockdown_command \<Rightarrow> bool" where
  "arguments_ok (Apply status reason oii tos now) \<longleftrightarrow>
     (status \<or> \<not> oii) \<and> (tos \<longrightarrow> status \<and> oii) \<and> (status \<or> reason = None)"
| "arguments_ok _ \<longleftrightarrow> True"

lemma run_command_eq: "run_command c rivals w =
    (if arguments_ok c then run_lockdown (command_decision c) rivals (command_now c) w else Inl InvalidArguments)"
  by (cases c) (auto simp: apply_lockdown_def apply_automatic_lockdown_def apply_scheduled_lockdown_def
      disable_scheduled_lockdown_def expire_scheduled_lockdown_def)

lemma lockdown_step_iff: "lockdown_step w w' \<longleftrightarrow> (\<exists>c tr. run_command c [] w = Inr (tr, w'))"
proof
  assume "lockdown_step w w'"
  then show "\<exists>c tr. run_command c [] w = Inr (tr, w')"
    by cases (metis run_command.simps)+
next
  assume "\<exists>c tr. run_command c [] w = Inr (tr, w')"
  then obtain c tr where "run_command c [] w = Inr (tr, w')" by blast
  then show "lockdown_step w w'"
    by (cases c) (auto intro: lockdown_step.intros)
qed

lemma command_plan_ok: "command_decision c v = Inr (Inr p) \<Longrightarrow> plan_ok p"
  by (cases c) (auto intro: decide_plan_ok)

lemma decision_no_conflict: "command_decision c v \<noteq> Inl CasConflict"
  by (cases c) (auto simp: decide_lockdown_def decide_automatic_def decide_scheduled_def
      decide_disable_scheduled_def decide_expire_def Let_def split: option.splits)

text \<open>A command alone on sound entries.\<close>

lemma run_command_serial:
  assumes "arguments_ok c" "read_lockdown_state (lw_states w) = Inr current"
    "read_lockdown_activation (lw_states w) = Inr entry"
  shows "run_command c [] w = (case command_decision c (lockdown_view_of current entry) of
      Inl e \<Rightarrow> Inl e | Inr (Inl tr) \<Rightarrow> Inr (tr, w)
    | Inr (Inr p) \<Rightarrow> commit_plan p current entry (command_now c) w)"
proof -
  have "lockdown_attempt (command_decision c) id (command_now c) w \<noteq> Inl CasConflict"
    using serial_no_conflict[where decide = "command_decision c", OF _ decision_no_conflict assms(2,3)] by blast
  then have "run_lockdown (command_decision c) [] (command_now c) w =
      lockdown_attempt (command_decision c) id (command_now c) w"
    by (simp add: run_lockdown_def LOCKDOWN_CAS_MAX_ATTEMPTS_def eval_nat_numeral
        split: sum.splits lockdown_error.splits)
  then show ?thesis
    using assms by (simp add: run_command_eq lockdown_attempt_def split: sum.splits)
qed

lemma run_command_cases:
  assumes "run_command c [] w = Inr (tr, w')"
  obtains (kept) current entry where "read_lockdown_state (lw_states w) = Inr current"
      "read_lockdown_activation (lw_states w) = Inr entry"
      "command_decision c (lockdown_view_of current entry) = Inr (Inl tr)" "w' = w"
  | (committed) current entry p where "read_lockdown_state (lw_states w) = Inr current"
      "read_lockdown_activation (lw_states w) = Inr entry"
      "command_decision c (lockdown_view_of current entry) = Inr (Inr p)"
      "commit_plan p current entry (command_now c) w = Inr (tr, w')" "plan_ok p"
proof -
  have ok: "arguments_ok c" using assms by (simp add: run_command_eq split: if_splits)
  obtain k where "lockdown_attempt (command_decision c) id (command_now c) (rivals_ran k [] w) = Inr (tr, w')"
    using assms ok retry_serial[of _ "command_decision c" "[]" "command_now c" w tr w']
    unfolding run_command_eq run_lockdown_def by auto
  moreover have "rivals_ran k [] w = w" for k by (induction k) simp_all
  ultimately have "lockdown_attempt (command_decision c) id (command_now c) w = Inr (tr, w')" by simp
  then show ?thesis
    by (rule lockdown_attempt_cases) (auto intro: kept committed command_plan_ok)
qed

lemma commit_succeeds:
  assumes "read_lockdown_state (lw_states w) = Inr current" "read_lockdown_activation (lw_states w) = Inr entry"
    and "valid_lockdown_state (ls_enabled (pl_state p)) (ls_reason (pl_state p))" "pl_last_disabled_at p \<ge> 0"
    and "valid_source (ls_enabled (pl_state p)) (map_option source_string (pl_source p))"
  shows "\<exists>tr w'. commit_plan p current entry now w = Inr (tr, w')"
proof -
  have pe: "e = CasConflict" if "persist_lockdown_state t c s src since n = Inl e"
    "valid_lockdown_state (ls_enabled s) (ls_reason s)" "since \<ge> 0"
    "valid_source (ls_enabled s) (map_option source_string src)" for t c s src since n e
    using that by (auto simp: persist_lockdown_state_def Let_def split: if_splits prod.splits)
  have ae: "e = CasConflict" if "activation_result p entry revn t1 now = Inl e" for revn t1 e
    using that by (auto simp: delete_lockdown_activation_def persist_lockdown_activation_def and_then_def Let_def
        split: activation_action.splits option.splits if_splits prod.splits)
  show ?thesis
  proof (cases "commit_plan p current entry now w")
    case (Inl e)
    have "e = CasConflict"
    proof (cases "persist_lockdown_state (lw_states w) current (pl_state p) (pl_source p) (pl_last_disabled_at p) now")
      case (Inl e')
      then show ?thesis using pe[OF Inl assms(3-5)] \<open>commit_plan p current entry now w = Inl e\<close>
        by (simp add: commit_plan_def)
    next
      case (Inr rt)
      obtain revn t1 where rt: "rt = (revn, t1)" by fastforce
      have c: "commit_plan p current entry now w = Inl e" by fact
      obtain e' where "activation_result p entry revn t1 now = Inl e'"
        using c Inr rt unfolding commit_plan_def
        by (cases "activation_result p entry revn t1 now") (auto split: prod.splits)
      then show ?thesis using c Inr rt ae unfolding commit_plan_def by auto
    qed
    then show ?thesis using Inl commit_plan_no_conflict[OF assms(1,2)] by auto
  qed auto
qed

lemma parsed_state:
  assumes "read_lockdown_state t = Inr (Some c)"
  shows "valid_lockdown_state (ls_enabled (sl_state c)) (ls_reason (sl_state c))" "sl_last_disabled_at c \<ge> 0"
    "ls_enabled (sl_state c) \<longleftrightarrow> sl_source c \<noteq> None"
proof -
  obtain st where "parse_lockdown_state st = Inr c"
    using assms by (auto simp: read_lockdown_state_def and_then_Inr split: option.splits)
  then show "valid_lockdown_state (ls_enabled (sl_state c)) (ls_reason (sl_state c))" "sl_last_disabled_at c \<ge> 0"
    "ls_enabled (sl_state c) \<longleftrightarrow> sl_source c \<noteq> None"
    by (auto simp: parse_lockdown_state_def split: if_splits state_payload.splits option.splits
        elim!: valid_source.elims)
qed

text \<open>Errors leave everything as it was; a rival is another command, or nothing.\<close>

definition after_command :: "lockdown_command \<Rightarrow> lockdown_world \<Rightarrow> lockdown_world" where
  "after_command c w = (case run_command c [] w of Inl _ \<Rightarrow> w | Inr (_, w') \<Rightarrow> w')"

lemma after_command_steps: "lockdown_step\<^sup>*\<^sup>* w (after_command c w)"
proof (cases "run_command c [] w")
  case (Inr r)
  then obtain tr w' where "run_command c [] w = Inr (tr, w')" by (cases r) auto
  then have "lockdown_step w w'" using lockdown_step_iff by blast
  then show ?thesis using \<open>run_command c [] w = Inr (tr, w')\<close> by (simp add: after_command_def)
qed (simp add: after_command_def)

section \<open>Properties\<close>


definition idle_world :: lockdown_world where
  "idle_world = \<lparr>lw_states = Map.empty, lw_tasks = [(''t1'', IN_PROGRESS), (''t2'', COMPLETED)], lw_events = []\<rparr>"


definition unattended :: "lockdown_command \<Rightarrow> bool" where
  "unattended c \<longleftrightarrow> (case c of Apply _ _ _ _ _ \<Rightarrow> False | _ \<Rightarrow> True)"

definition protected :: "lockdown_world \<Rightarrow> bool" where
  "protected w \<longleftrightarrow> get_source w = Inr (Some AUTOMATIC) \<or> get_source w = Inr (Some UNKNOWN)"

lemma protected_kept:
  assumes "protected w" "unattended c"
  shows "after_command c w = w"
proof -
  obtain current entry where rd: "read_lockdown_state (lw_states w) = Inr current"
    "read_lockdown_activation (lw_states w) = Inr entry"
    and src: "lockdown_source_of current (valid_lockdown_activation current entry) = Some AUTOMATIC \<or>
      lockdown_source_of current (valid_lockdown_activation current entry) = Some UNKNOWN"
    using assms(1) by (auto simp: protected_def get_source_def and_then_Inr)
  have act: "valid_lockdown_activation current entry = None"
    using src by (auto simp: lockdown_source_of_def valid_lockdown_activation_def split: option.splits if_splits)
  have en: "\<exists>s. current = Some s \<and> ls_enabled (sl_state s)"
    using src by (auto simp: lockdown_source_of_def split: option.splits if_splits)
  have "\<exists>r. command_decision c (lockdown_view_of current entry) = Inl r \<or>
      (\<exists>tr. command_decision c (lockdown_view_of current entry) = Inr (Inl tr))"
    using assms(2) src act en
    by (cases c) (auto simp: unattended_def lockdown_view_of_def decide_automatic_def decide_scheduled_def
        decide_disable_scheduled_def decide_expire_def Let_def split: option.splits)
  moreover have "arguments_ok c" using assms(2) by (cases c) (auto simp: unattended_def)
  ultimately show ?thesis
    using run_command_serial[OF _ rd] by (auto simp: after_command_def)
qed

text \<open>C24. A lockdown that a security decision imposed, or whose origin is unknown, is untouched by
  every scheduled or automatic command, in any order and number: only an operator's command can
  change it.\<close>

theorem protected_lockdown_stays:
  assumes "protected w" "list_all unattended cs"
  shows "fold after_command cs w = w"
  using assms by (induction cs) (simp_all add: protected_kept)

theorem protected_lockdown_stays_witness:
  "protected (after_command (Automatic ''attack'' 9) idle_world) \<and>
   fold after_command [DisableScheduled 11 11, Expire ''s'' 12 12, Scheduled ''s'' None None 13 13]
     (after_command (Automatic ''attack'' 9) idle_world) = after_command (Automatic ''attack'' 9) idle_world"
proof -
  have "protected (after_command (Automatic ''attack'' 9) idle_world)" by code_simp
  from this protected_lockdown_stays[OF this, of "[DisableScheduled 11 11, Expire ''s'' 12 12, Scheduled ''s'' None None 13 13]"]
  show ?thesis by (simp add: unattended_def)
qed

lemma step_states_ok: "states_ok w \<Longrightarrow> lockdown_step w w' \<Longrightarrow> states_ok w'"
proof -
  assume ok: "states_ok w" and "lockdown_step w w'"
  then obtain c tr where r: "run_command c [] w = Inr (tr, w')" using lockdown_step_iff by blast
  show "states_ok w'"
  proof (cases rule: run_command_cases[OF r])
    case (2 current entry p)
    from commit_reads[OF 2(4) 2(1,2) 2(5)] show ?thesis
      by (cases "pl_activation p") (auto simp: states_ok_def)
  qed (use ok in simp)
qed

text \<open>The two persisted documents stay readable: from entries that parse, no sequence of
  commands leads to entries that a later read rejects.\<close>

lemma lockdown_entries_stay_readable:
  assumes "lockdown_step\<^sup>*\<^sup>* w w'" "states_ok w"
  shows "states_ok w'"
  using assms by (induction rule: rtranclp_induct) (auto intro: step_states_ok)

lemma get_state_after_commit:
  assumes "commit_plan p current entry now w = Inr (tr, w')"
    "read_lockdown_state (lw_states w) = Inr current" "read_lockdown_activation (lw_states w) = Inr entry" "plan_ok p"
  shows "get_state w' = Inr (pl_state p)"
  using commit_reads[OF assms] by (auto simp: get_state_def)

text \<open>An operator can always release a lockdown, whatever imposed it: the command succeeds and
  afterwards there is no lockdown.\<close>

lemma operator_releases_any_lockdown:
  assumes "states_ok w" "0 \<le> now"
  shows "\<exists>tr w'. apply_lockdown False None False False [] now w = Inr (tr, w') \<and> get_state w' = Inr no_lockdown"
proof (rule states_okE[OF assms(1)])
  fix current entry
  assume rd: "read_lockdown_state (lw_states w) = Inr current" "read_lockdown_activation (lw_states w) = Inr entry"
  let ?v = "lockdown_view_of current entry"
  have run: "apply_lockdown False None False False [] now w = (case decide_lockdown False None False False now ?v of
      Inl e \<Rightarrow> Inl e | Inr (Inl tr) \<Rightarrow> Inr (tr, w) | Inr (Inr p) \<Rightarrow> commit_plan p current entry now w)"
    using run_command_serial[of "Apply False None False False now", OF _ rd,
        unfolded run_command.simps command_decision.simps command_now.simps] by simp
  have vl: "valid_lockdown_state False None" by (simp add: valid_lockdown_state_def valid_reason_def)
  show ?thesis
  proof (cases "lv_previous_state ?v = no_lockdown")
    case True
    then have "apply_lockdown False None False False [] now w = Inr (kept ?v UNCHANGED, w)"
      unfolding run by (simp add: decide_lockdown_def vl no_lockdown_def)
    moreover have "get_state w = Inr no_lockdown"
      using True rd by (auto simp: get_state_def lockdown_view_of_def Let_def split: option.splits)
    ultimately show ?thesis by blast
  next
    case False
    then obtain c where c: "current = Some c" "sl_state c \<noteq> no_lockdown"
      by (auto simp: lockdown_view_of_def Let_def split: option.splits)
    have en: "ls_enabled (lv_previous_state ?v)"
      using c parsed_state(1)[of "lw_states w" c] rd
      by (cases "sl_state c") (auto simp: lockdown_view_of_def Let_def no_lockdown_def valid_lockdown_state_def)
    obtain p where p: "decide_lockdown False None False False now ?v = Inr (Inr p)"
      and ps: "pl_state p = no_lockdown" "pl_source p = None" "pl_last_disabled_at p = now"
      using False en by (auto simp: decide_lockdown_def vl no_lockdown_def Let_def)
    obtain tr w' where cm: "commit_plan p current entry now w = Inr (tr, w')"
      using commit_succeeds[OF rd, of p now] ps assms(2) vl by (auto simp: no_lockdown_def)
    from get_state_after_commit[OF cm rd decide_plan_ok(1)[OF p]] cm ps show ?thesis
      unfolding run p by auto
  qed
qed

lemma cancelled_none_active: "list_all (Not \<circ> task_active) (snd (snd (cancel_pending_file_tasks tasks)))"
  by (auto simp: cancel_pending_file_tasks_def list_all_iff task_active_def)

lemma enabling_plan_cancels:
  assumes "command_decision c v = Inr (Inr p)" "arguments_ok c" "\<not> ls_enabled (lv_previous_state v)" "ls_enabled (pl_state p)"
  shows "pl_cancel p"
  using assms
  by (cases c) (auto simp: decide_lockdown_def decide_automatic_def decide_scheduled_def
      decide_disable_scheduled_def decide_expire_def release_plan_def no_lockdown_def Let_def
      split: if_splits option.splits)

text \<open>Whenever a command takes the system from no lockdown into lockdown, every pending or
  running file transfer is cancelled in the same transaction.\<close>

lemma entering_lockdown_cancels_transfers:
  assumes "run_command c [] w = Inr (tr, w')"
    and "get_state w = Inr s" "\<not> ls_enabled s" "get_state w' = Inr s'" "ls_enabled s'"
  shows "list_all (Not \<circ> task_active) (lw_tasks w')"
proof (cases rule: run_command_cases[OF assms(1)])
  case (2 current entry p)
  have "\<not> ls_enabled (lv_previous_state (lockdown_view_of current entry))"
    using assms(2,3) 2(1) by (auto simp: get_state_def lockdown_view_of_def Let_def split: option.splits)
  moreover have "ls_enabled (pl_state p)"
    using get_state_after_commit[OF 2(4) 2(1,2) 2(5)] assms(4,5) by simp
  moreover have "arguments_ok c" using assms(1) by (simp add: run_command_eq split: if_splits)
  ultimately have "pl_cancel p" using enabling_plan_cancels[OF 2(3)] by blast
  then show ?thesis using commit_plan_Inr[OF 2(4)] cancelled_none_active by metis
qed (use assms in simp)

lemma kept_not_applied: "command_decision c v = Inr (Inl tr) \<Longrightarrow> lt_outcome tr \<noteq> APPLIED"
  by (cases c) (auto simp: decide_lockdown_def decide_automatic_def decide_scheduled_def
      decide_disable_scheduled_def decide_expire_def kept_def Let_def split: if_splits option.splits)

text \<open>A scheduled lockdown that was applied is released by its own expiry once its deadline has
  passed, and the expiry schedule names exactly that activation and deadline.\<close>

lemma scheduled_lockdown_expires:
  assumes "apply_scheduled_lockdown i (Some e) reason [] db_now now w = Inr (tr, w')" "lt_outcome tr = APPLIED"
    and "e \<le> db_now'"
  shows "lockdown_expiry_schedule t w' = Inr (Some \<lparr>es_activation_id = i, es_run_at = e, es_run_immediately = (e \<le> t)\<rparr>)
    \<and> (\<exists>tr' w2. expire_scheduled_lockdown i [] db_now' now' w' = Inr (tr', w2) \<and>
        lt_outcome tr' = APPLIED \<and> get_state w2 = Inr no_lockdown)"
proof -
  have r: "run_command (Scheduled i (Some e) reason db_now now) [] w = Inr (tr, w')" using assms(1) by simp
  show ?thesis
  proof (cases rule: run_command_cases[OF r])
    case (1 current entry)
    then show ?thesis using kept_not_applied assms(2) by blast
  next
    case (2 current entry p)
    have e0: "0 \<le> e" and pl: "pl_activation p = PutActivation i (Some e)" "pl_source p = Some SCHEDULED"
      "ls_enabled (pl_state p)"
      using 2(3) by (auto simp: decide_scheduled_def valid_activation_def split: if_splits option.splits)
    obtain revn n where rd: "read_lockdown_state (lw_states w') = Inr (Some \<lparr>sl_state = pl_state p,
        sl_source = Some SCHEDULED, sl_last_disabled_at = pl_last_disabled_at p, sl_revision = revn\<rparr>)"
      "read_lockdown_activation (lw_states w') = Inr (Some \<lparr>sa_payload = \<lparr>ap_activation_id = i,
        ap_expires_at = Some e, ap_lockdown_revision = revn\<rparr>, sa_revision = n\<rparr>)"
      using commit_reads[OF 2(4) 2(1,2) 2(5)] pl by auto
    let ?cur = "Some \<lparr>sl_state = pl_state p, sl_source = Some SCHEDULED,
        sl_last_disabled_at = pl_last_disabled_at p, sl_revision = revn\<rparr>"
    let ?ent = "Some \<lparr>sa_payload = \<lparr>ap_activation_id = i, ap_expires_at = Some e,
        ap_lockdown_revision = revn\<rparr>, sa_revision = n\<rparr>"
    let ?v = "lockdown_view_of ?cur ?ent"
    have act: "lv_activation ?v = Some \<lparr>ap_activation_id = i, ap_expires_at = Some e, ap_lockdown_revision = revn\<rparr>"
      using pl by (simp add: lockdown_view_of_def Let_def valid_lockdown_activation_def)
    have "lockdown_expiry_schedule t w' = Inr (Some \<lparr>es_activation_id = i, es_run_at = e, es_run_immediately = (e \<le> t)\<rparr>)"
      using rd pl by (simp add: lockdown_expiry_schedule_def get_scheduled_activation_def valid_lockdown_activation_def)
    moreover have d: "decide_expire i db_now' ?v = Inr (Inr (release_plan ?v db_now' True))"
      using act assms(3) by (simp add: decide_expire_def)
    obtain tr' w2 where c: "commit_plan (release_plan ?v db_now' True) ?cur ?ent now' w' = Inr (tr', w2)"
      using commit_succeeds[OF rd, of "release_plan ?v db_now' True" now'] e0 assms(3)
      by (auto simp: release_plan_def no_lockdown_def valid_lockdown_state_def valid_reason_def)
    have "expire_scheduled_lockdown i [] db_now' now' w' = Inr (tr', w2)"
      using run_command_serial[of "Expire i db_now' now'", OF _ rd] d c by simp
    moreover have "lt_outcome tr' = APPLIED" using commit_plan_Inr[OF c] by metis
    moreover have "get_state w2 = Inr no_lockdown"
      using get_state_after_commit[OF c rd] by (simp add: release_plan_def plan_ok_def)
    ultimately show ?thesis by blast
  qed
qed

end
