(* ===== verification/Multiplexing.thy ===== *)
theory Multiplexing
  imports Prelude "HOL-Library.Word" "HOL-Library.Sublist"
begin

text \<open>
  The multiplexed WebSocket connection of \<open>src/include/transport/multiplexing.py\<close>: the frame
  codec on bytes, and the connection with its routing table, bounded queues and close.  Streams
  are objects: the store \<open>mx_objs\<close> holds them and the routing table refers to them by index, since
  a consumer keeps reading a stream after it has left the table.  Each block under a lock is one
  atomic function; threads interleave between them.
\<close>

section \<open>Frames\<close>

type_synonym byte = "8 word"

datatype frame_type = PROCESS | CONCLUSION

record frame =
  fr_stream_id :: nat
  fr_frame_type :: frame_type
  fr_data :: "byte list"

datatype mux_error =
    StructError
  | CorruptedFrameError nat nat
  | InvalidFrameTypeError nat nat

definition FRAME_HEADER_SIZE :: nat where
  "FRAME_HEADER_SIZE = 5"

fun frame_type_value :: "frame_type \<Rightarrow> nat" where
  "frame_type_value PROCESS = 0"
| "frame_type_value CONCLUSION = 1"

definition frame_type_of :: "nat \<Rightarrow> frame_type option" where
  "frame_type_of v = (if v = 0 then Some PROCESS else if v = 1 then Some CONCLUSION else None)"

text \<open>\<open>struct.pack("!IB", ...)\<close>: four big-endian bytes and one byte; a value out of range raises.\<close>

definition pack_header :: "nat \<Rightarrow> nat \<Rightarrow> mux_error + byte list" where
  "pack_header stream_id v =
     (if stream_id < 2 ^ 32 \<and> v < 2 ^ 8
      then Inr [word_of_nat (stream_id div 2 ^ 24), word_of_nat (stream_id div 2 ^ 16),
                word_of_nat (stream_id div 2 ^ 8), word_of_nat stream_id, word_of_nat v]
      else Inl StructError)"

fun unpack_header :: "byte list \<Rightarrow> (nat \<times> nat) option" where
  "unpack_header (a # b # c # d # v # rest) =
     Some (unat a * 2 ^ 24 + unat b * 2 ^ 16 + unat c * 2 ^ 8 + unat d, unat v)"
| "unpack_header _ = None"

definition encode_frame :: "nat \<Rightarrow> frame_type \<Rightarrow> byte list \<Rightarrow> mux_error + byte list" where
  "encode_frame stream_id t data =
     and_then (pack_header stream_id (frame_type_value t)) (\<lambda>h. Inr (h @ data))"

definition decode_frame :: "byte list \<Rightarrow> mux_error + frame" where
  "decode_frame raw =
     (case unpack_header raw of
        None \<Rightarrow> Inl (CorruptedFrameError (length raw) FRAME_HEADER_SIZE)
      | Some (stream_id, v) \<Rightarrow>
          (case frame_type_of v of None \<Rightarrow> Inl (InvalidFrameTypeError stream_id v)
           | Some t \<Rightarrow> Inr \<lparr>fr_stream_id = stream_id, fr_frame_type = t,
                            fr_data = drop FRAME_HEADER_SIZE raw\<rparr>))"

section \<open>Connection state\<close>

record stream_obj =
  so_frame_id :: nat
  so_queue :: "frame list"
  so_shutdown :: bool

datatype outbound_item = OutFrame "byte list" | CloseMarker

datatype dispatcher_phase =
    Receiving
  | Routed frame nat
  | Delivered frame
  | Closing nat
  | Stopped

record mux =
  mx_next_frame_id :: nat
  mx_streams :: "(nat, nat) odict"
  mx_objs :: "stream_obj list"
  mx_pending_inbound :: "nat list"
  mx_inbound_shutdown :: bool
  mx_max_pending_inbound :: nat
  mx_outbound :: "outbound_item list"
  mx_sent :: "byte list list"
  mx_writer_error :: bool
  mx_is_running :: bool
  mx_close_started :: bool
  mx_close_code :: nat
  mx_phase :: dispatcher_phase

definition OUTBOUND_QUEUE_SIZE :: nat where
  "OUTBOUND_QUEUE_SIZE = 1024"

definition MAX_PENDING_FRAMES_PER_STREAM :: nat where
  "MAX_PENDING_FRAMES_PER_STREAM = 128"

definition mux_init :: "nat \<Rightarrow> mux" where
  "mux_init max_pending = \<lparr>mx_next_frame_id = 2, mx_streams = [], mx_objs = [], mx_pending_inbound = [],
     mx_inbound_shutdown = False, mx_max_pending_inbound = max_pending, mx_outbound = [], mx_sent = [],
     mx_writer_error = False, mx_is_running = True, mx_close_started = False, mx_close_code = 1000,
     mx_phase = Receiving\<rparr>"

definition new_stream :: "nat \<Rightarrow> stream_obj" where
  "new_stream i = \<lparr>so_frame_id = i, so_queue = [], so_shutdown = False\<rparr>"

datatype send_error = ConnectionClosedError | ConnectionErr | EncodeError mux_error

definition raise_if_send_unavailable :: "mux \<Rightarrow> send_error + unit" where
  "raise_if_send_unavailable m =
     (if \<not> mx_is_running m then Inl ConnectionClosedError
      else if mx_writer_error m then Inl ConnectionErr else Inr ())"

definition open_stream :: "mux \<Rightarrow> send_error + (nat \<times> mux)" where
  "open_stream m =
     and_then (raise_if_send_unavailable m) (\<lambda>_.
       let frame_id = mx_next_frame_id m; ref = length (mx_objs m)
       in Inr (ref, m\<lparr>mx_next_frame_id := frame_id + 2, mx_objs := mx_objs m @ [new_stream frame_id],
                      mx_streams := od_set frame_id ref (mx_streams m)\<rparr>))"

text \<open>\<open>accept_stream\<close>: the oldest pending stream, \<open>Some None\<close> once the queue is shut down, and
  \<^const>\<open>None\<close> where the caller blocks.\<close>

definition accept_stream :: "mux \<Rightarrow> (nat option \<times> mux) option" where
  "accept_stream m =
     (case mx_pending_inbound m of
        r # rest \<Rightarrow> Some (Some r, m\<lparr>mx_pending_inbound := rest\<rparr>)
      | [] \<Rightarrow> if mx_inbound_shutdown m then Some (None, m) else None)"

definition stream_recv :: "nat \<Rightarrow> mux \<Rightarrow> (frame option \<times> mux) option" where
  "stream_recv ref m =
     (let s = mx_objs m ! ref in
      if ref \<ge> length (mx_objs m) then None
      else (case so_queue s of
         f # rest \<Rightarrow> Some (Some f, m\<lparr>mx_objs := (mx_objs m)[ref := s\<lparr>so_queue := rest\<rparr>]\<rparr>)
       | [] \<Rightarrow> if so_shutdown s then Some (None, m) else None))"

section \<open>Closing\<close>

text \<open>The two locked blocks of \<open>close\<close>.  Failing the pending sends empties the outbound queue.\<close>

definition close_begin :: "nat \<Rightarrow> mux \<Rightarrow> mux" where
  "close_begin code m =
     (if mx_close_started m then m
      else m\<lparr>mx_close_started := True, mx_close_code := code, mx_is_running := False,
             mx_outbound := [CloseMarker]\<rparr>)"

definition close_finish :: "mux \<Rightarrow> mux" where
  "close_finish m =
     m\<lparr>mx_streams := [], mx_pending_inbound := [], mx_inbound_shutdown := True,
       mx_objs := map (\<lambda>(k, s). if k \<in> set (map snd (mx_streams m)) then s\<lparr>so_shutdown := True\<rparr> else s)
                   (enumerate 0 (mx_objs m))\<rparr>"

definition close :: "nat \<Rightarrow> mux \<Rightarrow> mux" where
  "close code m = (if mx_close_started m then m else close_finish (close_begin code m))"

section \<open>Receiving\<close>

text \<open>\<open>queue.Queue(0)\<close> is unbounded.\<close>

definition inbound_full :: "mux \<Rightarrow> bool" where
  "inbound_full m \<longleftrightarrow> 0 < mx_max_pending_inbound m \<and> length (mx_pending_inbound m) \<ge> mx_max_pending_inbound m"

text \<open>The first part of an iteration of \<open>_recv_loop\<close>, up to the end of the locked block: decode the
  frame and route it, opening a stream for a new odd id.  Where the code goes on to close the
  connection the phase is \<open>Closing\<close>.\<close>

definition recv_route :: "byte list \<Rightarrow> mux \<Rightarrow> mux" where
  "recv_route raw m =
     (case decode_frame raw of
        Inl _ \<Rightarrow> m\<lparr>mx_phase := Closing 1002\<rparr>
      | Inr f \<Rightarrow>
          if \<not> mx_is_running m then m\<lparr>mx_phase := Closing 1000\<rparr>
          else (case od_get (mx_streams m) (fr_stream_id f) of
             Some ref \<Rightarrow> m\<lparr>mx_phase := Routed f ref\<rparr>
           | None \<Rightarrow>
               if even (fr_stream_id f) then m\<lparr>mx_phase := Closing 1002\<rparr>
               else if fr_frame_type f = CONCLUSION then m\<lparr>mx_phase := Receiving\<rparr>
               else (let ref = length (mx_objs m);
                         m1 = m\<lparr>mx_objs := mx_objs m @ [new_stream (fr_stream_id f)],
                                mx_streams := od_set (fr_stream_id f) ref (mx_streams m)\<rparr>
                     in if inbound_full m
                        then m1\<lparr>mx_phase := Closing 1013\<rparr>
                        else m1\<lparr>mx_pending_inbound := mx_pending_inbound m1 @ [ref], mx_phase := Routed f ref\<rparr>)))"

text \<open>\<open>_put_incoming_frame\<close>: the stream's own queue refuses when it is shut down or full.\<close>

definition recv_deliver :: "mux \<Rightarrow> mux" where
  "recv_deliver m =
     (case mx_phase m of
        Routed f ref \<Rightarrow>
          (let s = mx_objs m ! ref in
           if so_shutdown s then m\<lparr>mx_phase := Closing 1000\<rparr>
           else if length (so_queue s) \<ge> MAX_PENDING_FRAMES_PER_STREAM
           then m\<lparr>mx_phase := Closing 1013\<rparr>
           else m\<lparr>mx_objs := (mx_objs m)[ref := s\<lparr>so_queue := so_queue s @ [f]\<rparr>], mx_phase := Delivered f\<rparr>)
      | _ \<Rightarrow> m)"

definition recv_reclaim :: "mux \<Rightarrow> mux" where
  "recv_reclaim m =
     (case mx_phase m of
        Delivered f \<Rightarrow>
          if fr_frame_type f = CONCLUSION
          then m\<lparr>mx_streams := od_pop (fr_stream_id f) (mx_streams m), mx_phase := Receiving\<rparr>
          else m\<lparr>mx_phase := Receiving\<rparr>
      | _ \<Rightarrow> m)"

text \<open>The socket closes or fails while the dispatcher waits for a frame, or the connection has
  stopped running: the loop ends.\<close>

definition recv_lost :: "mux \<Rightarrow> mux" where
  "recv_lost m = (if mx_phase m = Receiving then m\<lparr>mx_phase := Closing 1000\<rparr> else m)"

text \<open>The dispatcher leaves the loop; the \<open>finally\<close> closes the connection if nothing has yet.\<close>

definition recv_close :: "mux \<Rightarrow> mux" where
  "recv_close m = (case mx_phase m of Closing code \<Rightarrow> (close code m)\<lparr>mx_phase := Stopped\<rparr> | _ \<Rightarrow> m)"

text \<open>One iteration of the loop without interference; nothing is received once it has stopped.\<close>

definition recv_iteration :: "byte list \<Rightarrow> mux \<Rightarrow> mux" where
  "recv_iteration raw m =
     (if mx_phase m \<noteq> Receiving then m
      else if \<not> mx_is_running m then recv_close (recv_lost m)
      else recv_close (recv_reclaim (recv_deliver (recv_route raw m))))"

section \<open>Sending\<close>

definition can_send_nowait :: "mux \<Rightarrow> bool" where
  "can_send_nowait m \<longleftrightarrow> mx_is_running m \<and> \<not> mx_writer_error m"

definition outbound_full :: "mux \<Rightarrow> bool" where
  "outbound_full m \<longleftrightarrow> length (mx_outbound m) \<ge> OUTBOUND_QUEUE_SIZE"

text \<open>\<open>_enqueue_frame\<close> without waiting: the item is queued or refused.\<close>

definition enqueue_nowait :: "nat \<Rightarrow> frame_type \<Rightarrow> byte list \<Rightarrow> mux \<Rightarrow> send_error + (bool \<times> mux)" where
  "enqueue_nowait frame_id t data m =
     (case encode_frame frame_id t data of
        Inl e \<Rightarrow> Inl (EncodeError e)
      | Inr payload \<Rightarrow>
          if \<not> can_send_nowait m then Inr (False, m)
          else if outbound_full m then Inr (False, m)
          else Inr (True, m\<lparr>mx_outbound := mx_outbound m @ [OutFrame payload]\<rparr>))"

text \<open>One round of \<open>_put_outbound\<close>, the waiting sender: it raises, queues the item, or goes round
  again (\<open>False\<close>) because the queue stayed full.\<close>

definition put_outbound :: "byte list \<Rightarrow> mux \<Rightarrow> send_error + (bool \<times> mux)" where
  "put_outbound payload m =
     and_then (raise_if_send_unavailable m) (\<lambda>_.
       if outbound_full m then Inr (False, m)
       else Inr (True, m\<lparr>mx_outbound := mx_outbound m @ [OutFrame payload]\<rparr>))"

text \<open>The second part of \<open>_send_frame\<close>: the end frame takes the stream out of the routing table.\<close>

definition forget_stream :: "nat \<Rightarrow> mux \<Rightarrow> mux" where
  "forget_stream frame_id m = m\<lparr>mx_streams := od_pop frame_id (mx_streams m)\<rparr>"

definition send_nowait :: "nat \<Rightarrow> frame_type \<Rightarrow> byte list \<Rightarrow> mux \<Rightarrow> send_error + (bool \<times> mux)" where
  "send_nowait frame_id t data m =
     and_then (enqueue_nowait frame_id t data m) (\<lambda>(queued, m1).
       Inr (queued, if queued \<and> t = CONCLUSION then forget_stream frame_id m1 else m1))"

text \<open>One round of \<open>_send_loop\<close>; \<open>ok\<close> says whether the socket write succeeds.  Leaving the loop
  fails what is still queued.\<close>

definition fail_pending_sends :: "mux \<Rightarrow> mux" where
  "fail_pending_sends m = m\<lparr>mx_outbound := []\<rparr>"

definition send_step :: "bool \<Rightarrow> mux \<Rightarrow> mux" where
  "send_step ok m =
     (case mx_outbound m of
        OutFrame p # rest \<Rightarrow>
          if mx_is_running m \<and> ok then m\<lparr>mx_outbound := rest, mx_sent := mx_sent m @ [p]\<rparr>
          else fail_pending_sends
                 (close 1000 (m\<lparr>mx_outbound := rest, mx_writer_error := True, mx_is_running := False\<rparr>))
      | CloseMarker # rest \<Rightarrow> fail_pending_sends (m\<lparr>mx_outbound := rest\<rparr>)
      | [] \<Rightarrow> m)"

section \<open>Interleavings\<close>

text \<open>The threads of a connection take the steps above in any order.  A label records the bytes
  the dispatcher read off the wire and the frames a consumer took from a stream.\<close>

datatype mux_label = Wire "byte list" | Took nat frame | Silent

inductive mux_step :: "mux \<Rightarrow> mux_label \<Rightarrow> mux \<Rightarrow> bool" where
  route: "mx_phase m = Receiving \<Longrightarrow> mux_step m (Wire raw) (recv_route raw m)"
| lost: "mux_step m Silent (recv_lost m)"
| deliver: "mux_step m Silent (recv_deliver m)"
| reclaim: "mux_step m Silent (recv_reclaim m)"
| stop: "mx_phase m = Closing code \<Longrightarrow> mux_step m Silent ((close_begin code m)\<lparr>mx_phase := Stopped\<rparr>)"
| close_begin: "mux_step m Silent (close_begin code m)"
| close_finish: "mx_close_started m \<Longrightarrow> mux_step m Silent (close_finish m)"
| open_stream: "open_stream m = Inr (ref, m') \<Longrightarrow> mux_step m Silent m'"
| accept: "accept_stream m = Some (r, m') \<Longrightarrow> mux_step m Silent m'"
| recv: "stream_recv ref m = Some (Some f, m') \<Longrightarrow> mux_step m (Took ref f) m'"
| enqueue: "enqueue_nowait i t data m = Inr (queued, m') \<Longrightarrow> mux_step m Silent m'"
| put: "put_outbound payload m = Inr (queued, m') \<Longrightarrow> mux_step m Silent m'"
| forget: "mux_step m Silent (forget_stream i m)"
| send: "mux_step m Silent (send_step ok m)"

inductive mux_run :: "nat \<Rightarrow> mux_label list \<Rightarrow> mux \<Rightarrow> bool" for max_pending where
  start: "mux_run max_pending [] (mux_init max_pending)"
| step: "mux_run max_pending tr m \<Longrightarrow> mux_step m l m' \<Longrightarrow> mux_run max_pending (tr @ [l]) m'"

text \<open>The frames of one stream id on the wire, and what a consumer of one stream has taken.\<close>

fun wire_frame :: "nat \<Rightarrow> mux_label \<Rightarrow> frame list" where
  "wire_frame i (Wire raw) = (case decode_frame raw of Inr f \<Rightarrow> if fr_stream_id f = i then [f] else [] | Inl _ \<Rightarrow> [])"
| "wire_frame i _ = []"

definition wire_frames :: "nat \<Rightarrow> mux_label list \<Rightarrow> frame list" where
  "wire_frames i tr = concat (map (wire_frame i) tr)"

fun taken_frame :: "nat \<Rightarrow> mux_label \<Rightarrow> frame list" where
  "taken_frame ref (Took r f) = (if r = ref then [f] else [])"
| "taken_frame ref _ = []"

definition taken_frames :: "nat \<Rightarrow> mux_label list \<Rightarrow> frame list" where
  "taken_frames ref tr = concat (map (taken_frame ref) tr)"

section \<open>The codec\<close>

lemma unat_byte: "unat (word_of_nat n :: byte) = n mod 256"
  by (simp add: unat_of_nat)

lemma four_bytes:
  assumes "(n::nat) < 2 ^ 32"
  shows "n div 2 ^ 24 mod 256 * 2 ^ 24 + n div 2 ^ 16 mod 256 * 2 ^ 16 + n div 2 ^ 8 mod 256 * 2 ^ 8 + n mod 256 = n"
proof -
  obtain p q r where d: "n div 256 = p" "p div 256 = q" "q div 256 = r" by simp
  have e: "n div 65536 = q" "n div 16777216 = r"
    by (simp_all add: div_mult2_eq[of n 256 256, simplified] div_mult2_eq[of n 256 65536, simplified]
        div_mult2_eq[of p 256 256, simplified] d)
  have r: "r mod 256 = r" using assms e(2) by simp
  have "n = p * 256 + n mod 256" "p = q * 256 + p mod 256" "q = r * 256 + q mod 256"
    using div_mult_mod_eq[of n 256] div_mult_mod_eq[of p 256] div_mult_mod_eq[of q 256] unfolding d by simp_all
  then have "r * 16777216 + q mod 256 * 65536 + p mod 256 * 256 + n mod 256 = n" by linarith
  then show ?thesis by (simp add: d e r)
qed

lemma frame_type_of_value [simp]: "frame_type_of (frame_type_value t) = Some t"
  by (cases t) (simp_all add: frame_type_of_def)

lemma frame_type_value_lt: "frame_type_value t < 256"
  by (cases t) simp_all

lemma frame_type_of_Some: "frame_type_of v = Some t \<Longrightarrow> v = frame_type_value t"
  by (auto simp: frame_type_of_def split: if_splits)

lemma decode_encode:
  assumes "stream_id < 2 ^ 32"
  shows "\<exists>raw. encode_frame stream_id t data = Inr raw \<and>
    decode_frame raw = Inr \<lparr>fr_stream_id = stream_id, fr_frame_type = t, fr_data = data\<rparr>"
  using assms frame_type_value_lt[of t] four_bytes[OF assms]
  by (simp add: encode_frame_def pack_header_def decode_frame_def unat_byte FRAME_HEADER_SIZE_def)

lemma unat_byte_lt: "unat (b :: byte) < 256"
  using unsigned_less[where ?'a = nat, of b] by simp

lemma byte_of_unat: "word_of_nat (unat (b :: byte) + 256 * k) = b"
  by (rule word_unat_eq_iff[THEN iffD2]) (simp add: unat_byte unat_byte_lt del: of_nat_add of_nat_mult)

lemma header_bytes:
  fixes a b c d :: byte
  defines "n \<equiv> unat a * 2 ^ 24 + unat b * 2 ^ 16 + unat c * 2 ^ 8 + unat d"
  shows "n < 2 ^ 32" "word_of_nat (n div 2 ^ 24) = a" "word_of_nat (n div 2 ^ 16) = b"
    "word_of_nat (n div 2 ^ 8) = c" "word_of_nat n = d"
proof -
  have lt: "unat a < 256" "unat b < 256" "unat c < 256" "unat d < 256"
    by (rule unat_byte_lt)+
  show "n < 2 ^ 32" using lt by (simp add: n_def)
  have e8: "n div 2 ^ 8 = unat c + 256 * (unat b + 256 * unat a)"
    using lt by (simp add: n_def)
  have e16: "n div 2 ^ 16 = unat b + 256 * unat a" using lt by (simp add: n_def)
  have e24: "n div 2 ^ 24 = unat a + 256 * 0" using lt by (simp add: n_def)
  have e0: "n = unat d + 256 * (unat c + 256 * (unat b + 256 * unat a))" by (simp add: n_def)
  show "word_of_nat (n div 2 ^ 24) = a" unfolding e24 by (rule byte_of_unat)
  show "word_of_nat (n div 2 ^ 16) = b" unfolding e16 by (rule byte_of_unat)
  show "word_of_nat (n div 2 ^ 8) = c" unfolding e8 by (rule byte_of_unat)
  show "word_of_nat n = d" unfolding e0 by (rule byte_of_unat)
qed

lemma encode_decode:
  assumes "decode_frame raw = Inr f"
  shows "encode_frame (fr_stream_id f) (fr_frame_type f) (fr_data f) = Inr raw"
proof -
  from assms obtain i v t where u: "unpack_header raw = Some (i, v)" and t: "frame_type_of v = Some t"
    and f: "f = \<lparr>fr_stream_id = i, fr_frame_type = t, fr_data = drop FRAME_HEADER_SIZE raw\<rparr>"
    by (auto simp: decode_frame_def split: option.splits)
  from u obtain a b c d w rest where raw: "raw = a # b # c # d # w # rest" and iv:
    "i = unat a * 2 ^ 24 + unat b * 2 ^ 16 + unat c * 2 ^ 8 + unat d" "v = unat w"
    by (cases raw rule: unpack_header.cases) auto
  have w: "word_of_nat (frame_type_value t) = w"
    using frame_type_of_Some[OF t] iv(2) byte_of_unat[of w 0] by simp
  show ?thesis
    using header_bytes[of a b c d] frame_type_value_lt[of t] w
    unfolding f encode_frame_def pack_header_def raw FRAME_HEADER_SIZE_def iv(1) by simp
qed

text \<open>C40. The frame codec is exact in both directions: a byte string decodes to a frame precisely when
  encoding that frame's id, type and payload yields the byte string.  Nothing else decodes, so a
  payload is never lost, cut or attributed to another stream.\<close>

theorem frame_codec_exact:
  "encode_frame i t data = Inr raw \<longleftrightarrow>
   decode_frame raw = Inr \<lparr>fr_stream_id = i, fr_frame_type = t, fr_data = data\<rparr>"
proof
  assume e: "encode_frame i t data = Inr raw"
  then have "i < 2 ^ 32" by (auto simp: encode_frame_def pack_header_def split: if_splits)
  with e show "decode_frame raw = Inr \<lparr>fr_stream_id = i, fr_frame_type = t, fr_data = data\<rparr>"
    using decode_encode[of i t data] by simp
next
  assume "decode_frame raw = Inr \<lparr>fr_stream_id = i, fr_frame_type = t, fr_data = data\<rparr>"
  from encode_decode[OF this] show "encode_frame i t data = Inr raw" by simp
qed

section \<open>Well-formed connections\<close>

definition routed_ok :: "mux \<Rightarrow> bool" where
  "routed_ok m = (case mx_phase m of
      Routed f ref \<Rightarrow> ref < length (mx_objs m) \<and> so_frame_id (mx_objs m ! ref) = fr_stream_id f
    | _ \<Rightarrow> True)"

definition table_ok :: "mux \<Rightarrow> bool" where
  "table_ok m \<longleftrightarrow> even (mx_next_frame_id m) \<and>
     (\<forall>i ref. od_get (mx_streams m) i = Some ref \<longrightarrow>
        ref < length (mx_objs m) \<and> so_frame_id (mx_objs m ! ref) = i \<and>
        (even i \<longrightarrow> i < mx_next_frame_id m))"

definition stream_ok :: "stream_obj \<Rightarrow> bool" where
  "stream_ok s \<longleftrightarrow> length (so_queue s) \<le> MAX_PENDING_FRAMES_PER_STREAM \<and>
     list_all (\<lambda>f. fr_stream_id f = so_frame_id s) (so_queue s)"

definition bounds_ok :: "mux \<Rightarrow> bool" where
  "bounds_ok m \<longleftrightarrow> length (mx_outbound m) \<le> OUTBOUND_QUEUE_SIZE \<and>
     (0 < mx_max_pending_inbound m \<longrightarrow> length (mx_pending_inbound m) \<le> mx_max_pending_inbound m)"

definition closed_ok :: "mux \<Rightarrow> bool" where
  "closed_ok m \<longleftrightarrow> (mx_close_started m \<longrightarrow> \<not> mx_is_running m) \<and>
     (mx_inbound_shutdown m \<longrightarrow> mx_close_started m \<and> mx_streams m = [] \<and> mx_pending_inbound m = [])"

definition mux_ok :: "mux \<Rightarrow> bool" where
  "mux_ok m \<longleftrightarrow> routed_ok m \<and> table_ok m \<and> list_all stream_ok (mx_objs m) \<and> bounds_ok m \<and> closed_ok m"

lemmas mux_ok_defs = mux_ok_def routed_ok_def table_ok_def bounds_ok_def closed_ok_def

lemma stream_ok_new [simp]: "stream_ok (new_stream i)"
  by (simp add: stream_ok_def new_stream_def)

lemma new_stream_sel [simp]: "so_frame_id (new_stream i) = i" "so_queue (new_stream i) = []"
  by (simp_all add: new_stream_def)

lemma objs_upd_id [simp]:
  "so_frame_id (objs ! r) = so_frame_id s \<Longrightarrow> so_frame_id (objs[r := s] ! k) = so_frame_id (objs ! k)"
  by (cases "k = r \<and> r < length objs") (auto simp: list_update_beyond)

lemma list_all_upd: "list_all P xs \<Longrightarrow> P x \<Longrightarrow> list_all P (xs[k := x])"
  by (auto simp: list_all_iff dest: set_update_subset_insert[THEN subsetD])

lemma mux_ok_init: "mux_ok (mux_init n)"
  by (simp add: mux_ok_defs mux_init_def)

lemma close_finish_objs:
  "length (mx_objs (close_finish m)) = length (mx_objs m)"
  "k < length (mx_objs m) \<Longrightarrow> so_frame_id (mx_objs (close_finish m) ! k) = so_frame_id (mx_objs m ! k)"
  "k < length (mx_objs m) \<Longrightarrow> so_queue (mx_objs (close_finish m) ! k) = so_queue (mx_objs m ! k)"
  by (auto simp: close_finish_def nth_enumerate_eq)

lemma close_finish_streams_ok: "list_all stream_ok (mx_objs m) \<Longrightarrow> list_all stream_ok (mx_objs (close_finish m))"
  by (auto simp: list_all_length close_finish_objs stream_ok_def)

lemma mux_ok_close_begin: "mux_ok m \<Longrightarrow> mux_ok (close_begin code m)"
  by (auto simp: mux_ok_defs close_begin_def OUTBOUND_QUEUE_SIZE_def split: dispatcher_phase.splits)

lemma mux_ok_close_finish: "mux_ok m \<Longrightarrow> mx_close_started m \<Longrightarrow> mux_ok (close_finish m)"
  using close_finish_streams_ok[of m] close_finish_objs(2)[of _ m]
  by (auto simp: mux_ok_defs close_finish_def split: dispatcher_phase.splits)

lemma mux_ok_close: "mux_ok m \<Longrightarrow> mux_ok (close code m)"
  using mux_ok_close_finish[of "close_begin code m"] mux_ok_close_begin[of m code]
  by (cases "mx_close_started m") (simp_all add: close_def close_begin_def)

lemma mux_ok_route: "mux_ok m \<Longrightarrow> mx_phase m = Receiving \<Longrightarrow> mux_ok (recv_route raw m)"
  by (auto simp: mux_ok_defs recv_route_def Let_def nth_append inbound_full_def less_Suc_eq split: sum.splits option.splits)

lemma mux_ok_phase: "mux_ok m \<Longrightarrow> \<forall>f r. p \<noteq> Routed f r \<Longrightarrow> mux_ok (m\<lparr>mx_phase := p\<rparr>)"
  by (auto simp: mux_ok_defs split: dispatcher_phase.splits)

lemma mux_ok_upd_obj:
  "mux_ok m \<Longrightarrow> stream_ok s \<Longrightarrow> so_frame_id s = so_frame_id (mx_objs m ! r) \<Longrightarrow>
   mux_ok (m\<lparr>mx_objs := (mx_objs m)[r := s]\<rparr>)"
  by (simp add: mux_ok_defs list_all_upd split: dispatcher_phase.splits)

lemma mux_ok_deliver:
  assumes ok: "mux_ok m"
  shows "mux_ok (recv_deliver m)"
proof (cases "mx_phase m")
  case (Routed f ref)
  let ?s = "mx_objs m ! ref"
  have r: "ref < length (mx_objs m)" "so_frame_id ?s = fr_stream_id f" "stream_ok ?s"
    using ok Routed by (auto simp: mux_ok_def routed_ok_def list_all_length)
  have "stream_ok (?s\<lparr>so_queue := so_queue ?s @ [f]\<rparr>)" if "length (so_queue ?s) < MAX_PENDING_FRAMES_PER_STREAM"
    using r that by (simp add: stream_ok_def)
  then show ?thesis
    using mux_ok_phase[OF ok] mux_ok_phase[OF mux_ok_upd_obj[OF ok, of "?s\<lparr>so_queue := so_queue ?s @ [f]\<rparr>" ref], of "Delivered f"]
    by (simp add: recv_deliver_def Routed Let_def)
qed (simp_all add: recv_deliver_def ok)

lemma od_pop_Nil [simp]: "od_pop k [] = []"
  by (simp add: od_pop_def)

lemma mux_ok_forget: "mux_ok m \<Longrightarrow> mux_ok (forget_stream i m)"
  by (simp add: mux_ok_defs forget_stream_def split: dispatcher_phase.splits)

lemma mux_ok_reclaim: "mux_ok m \<Longrightarrow> mux_ok (recv_reclaim m)"
  using mux_ok_phase[of m Receiving] mux_ok_phase[OF mux_ok_forget, of m Receiving]
  by (simp add: recv_reclaim_def forget_stream_def split: dispatcher_phase.splits)

lemma stream_recv_Took:
  "stream_recv ref m = Some (Some f, m') \<longleftrightarrow>
   ref < length (mx_objs m) \<and> (\<exists>rest. so_queue (mx_objs m ! ref) = f # rest \<and>
     m' = m\<lparr>mx_objs := (mx_objs m)[ref := (mx_objs m ! ref)\<lparr>so_queue := rest\<rparr>]\<rparr>)"
  by (auto simp: stream_recv_def Let_def split: list.splits)

lemma mux_ok_stream_recv:
  assumes ok: "mux_ok m" and "stream_recv ref m = Some (Some f, m')"
  shows "mux_ok m'"
proof -
  from assms(2) obtain rest where r: "ref < length (mx_objs m)" "so_queue (mx_objs m ! ref) = f # rest"
    and m': "m' = m\<lparr>mx_objs := (mx_objs m)[ref := (mx_objs m ! ref)\<lparr>so_queue := rest\<rparr>]\<rparr>"
    by (auto simp: stream_recv_Took)
  have "stream_ok (mx_objs m ! ref)" using ok r(1) by (simp add: mux_ok_def list_all_length)
  then have "stream_ok ((mx_objs m ! ref)\<lparr>so_queue := rest\<rparr>)" using r(2) by (simp add: stream_ok_def)
  then show ?thesis unfolding m' by (rule mux_ok_upd_obj[OF ok]) simp
qed

lemma open_stream_Inr:
  "open_stream m = Inr (ref, m') \<longleftrightarrow> mx_is_running m \<and> \<not> mx_writer_error m \<and> ref = length (mx_objs m) \<and>
   m' = m\<lparr>mx_next_frame_id := mx_next_frame_id m + 2, mx_objs := mx_objs m @ [new_stream (mx_next_frame_id m)],
          mx_streams := od_set (mx_next_frame_id m) ref (mx_streams m)\<rparr>"
  by (auto simp: open_stream_def raise_if_send_unavailable_def Let_def)

lemma mux_ok_open:
  assumes ok: "mux_ok m" and "open_stream m = Inr (ref, m')"
  shows "mux_ok m'"
proof -
  from assms(2) have run: "mx_is_running m" and m': "m' = m\<lparr>mx_next_frame_id := mx_next_frame_id m + 2,
      mx_objs := mx_objs m @ [new_stream (mx_next_frame_id m)],
      mx_streams := od_set (mx_next_frame_id m) (length (mx_objs m)) (mx_streams m)\<rparr>"
    by (simp_all add: open_stream_Inr)
  have "routed_ok m'" using ok m' by (simp add: mux_ok_def routed_ok_def nth_append split: dispatcher_phase.splits)
  moreover have "table_ok m'" using ok m' by (fastforce simp: mux_ok_def table_ok_def nth_append)
  moreover have "closed_ok m'" using ok run m' by (auto simp: mux_ok_def closed_ok_def)
  ultimately show ?thesis using ok m' by (simp add: mux_ok_def bounds_ok_def)
qed

lemma mux_ok_pending:
  "mux_ok m \<Longrightarrow> length xs \<le> length (mx_pending_inbound m) \<Longrightarrow> mux_ok (m\<lparr>mx_pending_inbound := xs\<rparr>)"
  by (simp add: mux_ok_defs split: dispatcher_phase.splits) auto

lemma mux_ok_accept: "mux_ok m \<Longrightarrow> accept_stream m = Some (r, m') \<Longrightarrow> mux_ok m'"
  using mux_ok_pending[of m "tl (mx_pending_inbound m)"]
  by (simp add: accept_stream_def split: list.splits if_splits)

lemma mux_ok_outbound:
  "mux_ok m \<Longrightarrow> length xs \<le> OUTBOUND_QUEUE_SIZE \<Longrightarrow> mux_ok (m\<lparr>mx_outbound := xs\<rparr>)"
  by (simp add: mux_ok_defs split: dispatcher_phase.splits)

lemma mux_ok_queued:
  "mux_ok m \<Longrightarrow> \<not> outbound_full m \<Longrightarrow> mux_ok (m\<lparr>mx_outbound := mx_outbound m @ [i]\<rparr>)"
  by (rule mux_ok_outbound) (simp_all add: outbound_full_def)

lemma mux_ok_enqueue: "mux_ok m \<Longrightarrow> enqueue_nowait i t data m = Inr (queued, m') \<Longrightarrow> mux_ok m'"
  using mux_ok_queued[of m] by (auto simp: enqueue_nowait_def split: sum.splits if_splits)

lemma mux_ok_put: "mux_ok m \<Longrightarrow> put_outbound payload m = Inr (queued, m') \<Longrightarrow> mux_ok m'"
  using mux_ok_queued[of m] by (auto simp: put_outbound_def and_then_Inr split: if_splits)

lemma mux_ok_fail_pending: "mux_ok m \<Longrightarrow> mux_ok (fail_pending_sends m)"
  unfolding fail_pending_sends_def by (rule mux_ok_outbound) simp_all

lemma mux_ok_writer_failed:
  "mux_ok m \<Longrightarrow> mux_ok (m\<lparr>mx_writer_error := True, mx_is_running := False\<rparr>)"
  by (simp add: mux_ok_defs split: dispatcher_phase.splits)

lemma mux_ok_sent: "mux_ok m \<Longrightarrow> mux_ok (m\<lparr>mx_sent := xs\<rparr>)"
  by (simp add: mux_ok_defs split: dispatcher_phase.splits)

lemma mux_ok_send: "mux_ok m \<Longrightarrow> mux_ok (send_step ok m)"
proof -
  assume ok: "mux_ok m"
  have "length (mx_outbound m) \<le> OUTBOUND_QUEUE_SIZE" using ok by (simp add: mux_ok_def bounds_ok_def)
  then have a: "mux_ok (m\<lparr>mx_outbound := rest\<rparr>)" if "mx_outbound m = i # rest" for i rest
    using mux_ok_outbound[OF ok, of rest] that by simp
  show ?thesis
    using mux_ok_sent[OF a] mux_ok_fail_pending[OF mux_ok_close[OF mux_ok_writer_failed[OF a]]] mux_ok_fail_pending[OF a]
    by (simp add: send_step_def ok split: list.splits outbound_item.splits)
qed

lemma mux_ok_lost: "mux_ok m \<Longrightarrow> mux_ok (recv_lost m)"
  by (simp add: recv_lost_def mux_ok_phase)

lemma mux_step_ok: "mux_step m l m' \<Longrightarrow> mux_ok m \<Longrightarrow> mux_ok m'"
  by (induction rule: mux_step.induct)
    (blast intro: mux_ok_route mux_ok_deliver mux_ok_reclaim mux_ok_close_begin mux_ok_close_finish mux_ok_open
      mux_ok_accept mux_ok_stream_recv mux_ok_enqueue mux_ok_put mux_ok_forget mux_ok_send mux_ok_phase mux_ok_lost)+

lemma mux_run_ok: "mux_run n tr m \<Longrightarrow> mux_ok m"
  by (induction rule: mux_run.induct) (auto intro: mux_ok_init mux_step_ok)

section \<open>Delivery\<close>

definition pending_frame :: "mux \<Rightarrow> nat \<Rightarrow> frame list" where
  "pending_frame m ref = (case mx_phase m of Routed f r \<Rightarrow> if r = ref then [f] else [] | _ \<Rightarrow> [])"

definition dispatching :: "mux \<Rightarrow> bool" where
  "dispatching m = (case mx_phase m of Closing _ \<Rightarrow> False | Stopped \<Rightarrow> False | _ \<Rightarrow> True)"

text \<open>What has come in for a stream: what its consumer took, what is queued, what is on its way.\<close>

definition arrived :: "mux_label list \<Rightarrow> mux \<Rightarrow> nat \<Rightarrow> frame list" where
  "arrived tr m ref = taken_frames ref tr @ so_queue (mx_objs m ! ref) @ pending_frame m ref"

definition listening :: "mux \<Rightarrow> nat \<Rightarrow> bool" where
  "listening m ref \<longleftrightarrow> dispatching m \<and>
     (od_get (mx_streams m) (so_frame_id (mx_objs m ! ref)) = Some ref \<or> pending_frame m ref \<noteq> [])"

definition stream_deliv :: "mux_label list \<Rightarrow> mux \<Rightarrow> nat \<Rightarrow> bool" where
  "stream_deliv tr m ref \<longleftrightarrow>
     (let w = wire_frames (so_frame_id (mx_objs m ! ref)) tr
      in sublist (arrived tr m ref) w \<and> (listening m ref \<longrightarrow> suffix (arrived tr m ref) w))"

definition deliv :: "mux_label list \<Rightarrow> mux \<Rightarrow> bool" where
  "deliv tr m \<longleftrightarrow> (\<forall>ref. (ref < length (mx_objs m) \<longrightarrow> stream_deliv tr m ref) \<and>
                          (ref \<ge> length (mx_objs m) \<longrightarrow> taken_frames ref tr = []))"

lemma taken_append [simp]: "taken_frames ref (tr @ [l]) = taken_frames ref tr @ taken_frame ref l"
  by (simp add: taken_frames_def)

lemma wire_append [simp]: "wire_frames i (tr @ [l]) = wire_frames i tr @ wire_frame i l"
  by (simp add: wire_frames_def)

lemma sublist_more: "sublist xs ys \<Longrightarrow> sublist xs (ys @ zs)"
  unfolding sublist_def by (metis append_assoc)

lemma sublist_less: "sublist (xs @ ys) zs \<Longrightarrow> sublist xs zs"
  by (auto simp: sublist_def)

text \<open>Steps that read nothing off the wire and open no stream.\<close>

lemma deliv_quiet:
  assumes d: "deliv tr m" and len: "length (mx_objs m') = length (mx_objs m)"
    and ids: "\<And>k. k < length (mx_objs m) \<Longrightarrow> so_frame_id (mx_objs m' ! k) = so_frame_id (mx_objs m ! k)"
    and l: "\<And>i. wire_frame i l = []" "\<And>k. k \<ge> length (mx_objs m) \<Longrightarrow> taken_frame k l = []"
    and arr: "\<And>k. k < length (mx_objs m) \<Longrightarrow> \<exists>zs. arrived tr m k = arrived (tr @ [l]) m' k @ zs \<and>
            (listening m' k \<longrightarrow> listening m k \<and> zs = [])"
  shows "deliv (tr @ [l]) m'"
  unfolding deliv_def
proof (intro allI conjI impI)
  fix ref assume r: "ref < length (mx_objs m')"
  then have s: "stream_deliv tr m ref" using d len by (simp add: deliv_def)
  obtain zs where z: "arrived tr m ref = arrived (tr @ [l]) m' ref @ zs"
    "listening m' ref \<Longrightarrow> listening m ref" "listening m' ref \<Longrightarrow> zs = []"
    using arr r len by metis
  then show "stream_deliv (tr @ [l]) m' ref"
    using s ids[of ref] r len l(1) sublist_less[of "arrived (tr @ [l]) m' ref" zs]
    by (auto simp: stream_deliv_def Let_def)
next
  fix ref assume "ref \<ge> length (mx_objs m')"
  then show "taken_frames ref (tr @ [l]) = []" using d len l(2) by (simp add: deliv_def)
qed

lemma deliv_same:
  assumes "deliv tr m" and "mx_phase m' = mx_phase m" and "length (mx_objs m') = length (mx_objs m)"
    and "\<And>k. k < length (mx_objs m) \<Longrightarrow> so_frame_id (mx_objs m' ! k) = so_frame_id (mx_objs m ! k) \<and>
            so_queue (mx_objs m' ! k) = so_queue (mx_objs m ! k)"
    and "\<And>i r. od_get (mx_streams m') i = Some r \<Longrightarrow> od_get (mx_streams m) i = Some r"
  shows "deliv (tr @ [Silent]) m'"
  using assms
  by (intro deliv_quiet[OF assms(1)]) (auto simp: arrived_def listening_def pending_frame_def dispatching_def)

lemma deliv_stop:
  assumes "deliv tr m" and "\<not> dispatching m'" and "mx_objs m' = mx_objs m" and "pending_frame m' = (\<lambda>_. [])"
  shows "deliv (tr @ [Silent]) m'"
  using assms by (intro deliv_quiet[OF assms(1)]) (auto simp: arrived_def listening_def)

lemma deliv_deliver:
  assumes d: "deliv tr m" and ok: "mux_ok m"
  shows "deliv (tr @ [Silent]) (recv_deliver m)"
proof (cases "mx_phase m")
  case (Routed f ref)
  let ?s = "mx_objs m ! ref"
  have r: "ref < length (mx_objs m)" using ok Routed by (simp add: mux_ok_def routed_ok_def)
  show ?thesis
  proof (cases "so_shutdown ?s \<or> length (so_queue ?s) \<ge> MAX_PENDING_FRAMES_PER_STREAM")
    case True
    then show ?thesis
      by (intro deliv_stop[OF d]) (auto simp: recv_deliver_def Routed Let_def dispatching_def pending_frame_def)
  next
    case False
    then have m': "recv_deliver m =
        m\<lparr>mx_objs := (mx_objs m)[ref := ?s\<lparr>so_queue := so_queue ?s @ [f]\<rparr>], mx_phase := Delivered f\<rparr>"
      by (simp add: recv_deliver_def Routed Let_def)
    show ?thesis
      unfolding m' using r
      by (intro deliv_quiet[OF d])
        (auto simp: arrived_def listening_def pending_frame_def dispatching_def Routed nth_list_update)
  qed
qed (simp_all add: recv_deliver_def deliv_same[OF d])

lemma deliv_reclaim:
  assumes d: "deliv tr m"
  shows "deliv (tr @ [Silent]) (recv_reclaim m)"
proof (cases "mx_phase m")
  case (Delivered f)
  then have "\<exists>t. recv_reclaim m = m\<lparr>mx_streams := t, mx_phase := Receiving\<rparr> \<and>
      (\<forall>i r. od_get t i = Some r \<longrightarrow> od_get (mx_streams m) i = Some r)"
    by (cases "fr_frame_type f = CONCLUSION")
      (auto simp: recv_reclaim_def intro: exI[of _ "mx_streams m"] exI[of _ "od_pop (fr_stream_id f) (mx_streams m)"]
        split: if_splits)
  then obtain t where m': "recv_reclaim m = m\<lparr>mx_streams := t, mx_phase := Receiving\<rparr>"
    and t: "\<And>i r. od_get t i = Some r \<Longrightarrow> od_get (mx_streams m) i = Some r" by blast
  show ?thesis
    unfolding m' using t
    by (intro deliv_quiet[OF d]) (auto simp: arrived_def listening_def pending_frame_def dispatching_def Delivered)
qed (simp_all add: recv_reclaim_def deliv_same[OF d])

lemma deliv_take:
  assumes "deliv tr m" and "stream_recv ref m = Some (Some f, m')"
  shows "deliv (tr @ [Took ref f]) m'"
  using assms(2)
  by (intro deliv_quiet[OF assms(1)])
    (auto simp: stream_recv_Took arrived_def listening_def pending_frame_def dispatching_def nth_list_update)

lemma deliv_open:
  assumes d: "deliv tr m" and ok: "mux_ok m" and o: "open_stream m = Inr (ref, m')"
  shows "deliv (tr @ [Silent]) m'"
  unfolding deliv_def
proof (intro allI conjI impI)
  have m': "m' = m\<lparr>mx_next_frame_id := mx_next_frame_id m + 2, mx_objs := mx_objs m @ [new_stream (mx_next_frame_id m)],
      mx_streams := od_set (mx_next_frame_id m) (length (mx_objs m)) (mx_streams m)\<rparr>"
    using o by (simp add: open_stream_Inr)
  fix k
  { assume k: "k < length (mx_objs m')"
    show "stream_deliv (tr @ [Silent]) m' k"
    proof (cases "k < length (mx_objs m)")
      case True
      then have "stream_deliv tr m k" using d by (simp add: deliv_def)
      with True show ?thesis
        by (auto simp: m' stream_deliv_def Let_def arrived_def listening_def pending_frame_def dispatching_def nth_append)
    next
      case False
      then have n: "k = length (mx_objs m)" and t: "taken_frames k tr = []" using d k by (simp_all add: deliv_def m')
      have "pending_frame m' k = []" using ok n
        by (auto simp: m' pending_frame_def mux_ok_def routed_ok_def split: dispatcher_phase.splits)
      then show ?thesis using n t by (simp add: stream_deliv_def arrived_def m')
    qed }
  { assume "k \<ge> length (mx_objs m')"
    then show "taken_frames k (tr @ [Silent]) = []" using d by (simp add: deliv_def m') }
qed

text \<open>Reading one frame off the wire.\<close>

lemma route_shape [consumes 2, case_names other ignored routed opened]:
  assumes "mx_phase m = Receiving" and m'_def: "m' = recv_route raw m"
  obtains (other) "mx_objs m' = mx_objs m" "mx_streams m' = mx_streams m" "\<not> dispatching m'" "pending_frame m' = (\<lambda>_. [])"
  | (ignored) f where "decode_frame raw = Inr f" "od_get (mx_streams m) (fr_stream_id f) = None" "m' = m"
  | (routed) f ref where "decode_frame raw = Inr f" "od_get (mx_streams m) (fr_stream_id f) = Some ref"
      "m' = m\<lparr>mx_phase := Routed f ref\<rparr>"
  | (opened) f p where "decode_frame raw = Inr f" "od_get (mx_streams m) (fr_stream_id f) = None"
      "mx_objs m' = mx_objs m @ [new_stream (fr_stream_id f)]"
      "mx_streams m' = od_set (fr_stream_id f) (length (mx_objs m)) (mx_streams m)" "mx_phase m' = p"
      "p = Routed f (length (mx_objs m)) \<or> (\<exists>c. p = Closing c)"
proof (cases "decode_frame raw")
  case (Inl e)
  then show ?thesis by (intro other) (auto simp: m'_def recv_route_def dispatching_def pending_frame_def)
next
  case (Inr f)
  consider "\<not> mx_is_running m" | (R) "mx_is_running m" "od_get (mx_streams m) (fr_stream_id f) \<noteq> None"
    | (E) "mx_is_running m" "od_get (mx_streams m) (fr_stream_id f) = None" "even (fr_stream_id f)"
    | (C) "mx_is_running m" "od_get (mx_streams m) (fr_stream_id f) = None" "odd (fr_stream_id f)" "fr_frame_type f = CONCLUSION"
    | (N) "mx_is_running m" "od_get (mx_streams m) (fr_stream_id f) = None" "odd (fr_stream_id f)" "fr_frame_type f \<noteq> CONCLUSION"
    by blast
  then show ?thesis
  proof cases
    case R
    then show ?thesis using Inr by (auto simp: m'_def recv_route_def intro: routed)
  next
    case C
    then show ?thesis using Inr assms(1) by (intro ignored) (simp_all add: m'_def recv_route_def)
  next
    case N
    then show ?thesis using Inr by (intro opened[OF Inr N(2)]) (auto simp: m'_def recv_route_def Let_def)
  qed (use Inr in \<open>auto simp: m'_def recv_route_def dispatching_def pending_frame_def intro!: other\<close>)
qed

lemma stream_deliv_old:
  assumes s: "stream_deliv tr m ref" and r: "ref < length (mx_objs m)" and m: "mx_phase m = Receiving"
    and obj: "mx_objs m' ! ref = mx_objs m ! ref"
    and p: "pending_frame m' ref = [] \<or> (\<exists>f. decode_frame raw = Inr f \<and> fr_stream_id f = so_frame_id (mx_objs m ! ref) \<and>
              pending_frame m' ref = [f] \<and> od_get (mx_streams m) (fr_stream_id f) = Some ref)"
    and l: "listening m' ref \<Longrightarrow> pending_frame m' ref = [] \<Longrightarrow>
              listening m ref \<and> wire_frame (so_frame_id (mx_objs m ! ref)) (Wire raw) = []"
  shows "stream_deliv (tr @ [Wire raw]) m' ref"
proof -
  have arr: "arrived (tr @ [Wire raw]) m' ref = arrived tr m ref @ pending_frame m' ref"
    using obj m by (simp add: arrived_def pending_frame_def)
  from p show ?thesis
  proof
    assume "pending_frame m' ref = []"
    then show ?thesis
      using s arr l obj sublist_more[of "arrived tr m ref"] by (auto simp: stream_deliv_def Let_def)
  next
    assume "\<exists>f. decode_frame raw = Inr f \<and> fr_stream_id f = so_frame_id (mx_objs m ! ref) \<and>
              pending_frame m' ref = [f] \<and> od_get (mx_streams m) (fr_stream_id f) = Some ref"
    then obtain f where f: "decode_frame raw = Inr f" "fr_stream_id f = so_frame_id (mx_objs m ! ref)"
      "pending_frame m' ref = [f]" "od_get (mx_streams m) (fr_stream_id f) = Some ref" by blast
    then have "listening m ref" using m by (simp add: listening_def dispatching_def)
    then have "suffix (arrived tr m ref) (wire_frames (fr_stream_id f) tr)"
      using s f(2) by (simp add: stream_deliv_def Let_def)
    then have "suffix (arrived tr m ref @ [f]) (wire_frames (fr_stream_id f) tr @ [f])" by simp
    then show ?thesis
      using f arr obj suffix_imp_sublist by (simp add: stream_deliv_def Let_def)
  qed
qed

lemma deliv_old:
  assumes d: "deliv tr m" and ok: "mux_ok m" and m: "mx_phase m = Receiving" and r: "ref < length (mx_objs m)"
  shows "stream_deliv (tr @ [Wire raw]) (recv_route raw m) ref"
proof -
  let ?m' = "recv_route raw m"
  have s: "stream_deliv tr m ref" using d r by (simp add: deliv_def)
  note old = stream_deliv_old[OF s r m, of ?m' raw]
  have table: "so_frame_id (mx_objs m ! k) = i" if "od_get (mx_streams m) i = Some k" for i k
    using ok that by (simp add: mux_ok_def table_ok_def)
  from m refl[of ?m'] show ?thesis
  proof (cases rule: route_shape)
    case other
    then show ?thesis by (intro old) (simp_all add: listening_def)
  next
    case (ignored f)
    then show ?thesis using m by (intro old) (auto simp: pending_frame_def listening_def)
  next
    case (routed f k)
    have p: "pending_frame ?m' ref = (if k = ref then [f] else [])" and o: "mx_objs ?m' = mx_objs m"
      "mx_streams ?m' = mx_streams m" using routed(3) by (simp_all add: pending_frame_def)
    show ?thesis
    proof (rule old)
      show "listening m ref \<and> wire_frame (so_frame_id (mx_objs m ! ref)) (Wire raw) = []"
        if "listening ?m' ref" "pending_frame ?m' ref = []"
        using that routed(1,2) table[OF routed(2)] o m p by (auto simp: listening_def dispatching_def split: if_splits)
    qed (use routed(1,2) table[OF routed(2)] o p in auto)
  next
    case (opened f p)
    then have "pending_frame ?m' ref = []" using r by (auto simp: pending_frame_def)
    then show ?thesis using opened r m
      by (intro old) (auto simp: nth_append listening_def dispatching_def split: if_splits)
  qed
qed

lemma deliv_route:
  assumes d: "deliv tr m" and ok: "mux_ok m" and m: "mx_phase m = Receiving"
  shows "deliv (tr @ [Wire raw]) (recv_route raw m)"
  unfolding deliv_def
proof (intro allI conjI impI)
  let ?m' = "recv_route raw m"
  fix ref
  have grow: "length (mx_objs m) \<le> length (mx_objs ?m')"
    by (cases rule: route_shape[OF m refl[of "recv_route raw m"]]) auto
  { assume r: "ref < length (mx_objs ?m')"
    show "stream_deliv (tr @ [Wire raw]) ?m' ref"
    proof (cases "ref < length (mx_objs m)")
      case True
      then show ?thesis by (rule deliv_old[OF d ok m])
    next
      case False
      then have t: "taken_frames ref tr = []" using d by (simp add: deliv_def)
      from m refl[of ?m'] show ?thesis
      proof (cases rule: route_shape)
        case (opened f p)
        then have ref: "ref = length (mx_objs m)" using False r by simp
        from opened(6) show ?thesis
        proof
          assume "p = Routed f (length (mx_objs m))"
          then have "arrived (tr @ [Wire raw]) ?m' ref = [f]"
            using opened t ref by (simp add: arrived_def pending_frame_def)
          then show ?thesis using opened(1,3) ref by (simp add: stream_deliv_def Let_def suffix_def)
        next
          assume "\<exists>c. p = Closing c"
          then have "arrived (tr @ [Wire raw]) ?m' ref = [] \<and> \<not> listening ?m' ref"
            using opened t ref by (auto simp: arrived_def pending_frame_def listening_def dispatching_def)
          then show ?thesis by (simp add: stream_deliv_def Let_def)
        qed
      qed (use False r in simp_all)
    qed }
  { assume "ref \<ge> length (mx_objs ?m')"
    then show "taken_frames ref (tr @ [Wire raw]) = []" using d grow by (simp add: deliv_def) }
qed

lemma deliv_unchanged_objs:
  "deliv tr m \<Longrightarrow> mx_phase m' = mx_phase m \<Longrightarrow> mx_objs m' = mx_objs m \<Longrightarrow>
   mx_streams m' = mx_streams m \<Longrightarrow> deliv (tr @ [Silent]) m'"
  by (rule deliv_same) simp_all

lemma close_begin_frame [simp]:
  "mx_phase (close_begin code m) = mx_phase m" "mx_objs (close_begin code m) = mx_objs m"
  "mx_streams (close_begin code m) = mx_streams m"
  by (simp_all add: close_begin_def)

lemma close_finish_frame [simp]:
  "mx_phase (close_finish m) = mx_phase m" "mx_streams (close_finish m) = []"
  by (simp_all add: close_finish_def)

lemma deliv_close_finish: "deliv tr m \<Longrightarrow> deliv (tr @ [Silent]) (close_finish m)"
  by (erule deliv_same) (simp_all add: close_finish_objs)

lemma deliv_close: "deliv tr m \<Longrightarrow> deliv (tr @ [Silent]) (close code m)"
  by (erule deliv_same) (simp_all add: close_def close_finish_objs split: if_splits)

lemma deliv_send:
  assumes d: "deliv tr m"
  shows "deliv (tr @ [Silent]) (send_step ok m)"
proof -
  define w where "w = m\<lparr>mx_outbound := tl (mx_outbound m), mx_writer_error := True, mx_is_running := False\<rparr>"
  have "deliv tr w" using d by (simp add: w_def deliv_def stream_deliv_def arrived_def listening_def pending_frame_def dispatching_def)
  then have "deliv (tr @ [Silent]) (fail_pending_sends (close 1000 w))"
    using deliv_close[of tr w 1000]
    by (simp add: fail_pending_sends_def deliv_def stream_deliv_def arrived_def listening_def pending_frame_def dispatching_def)
  then show ?thesis
    using deliv_unchanged_objs[OF d]
    by (auto simp: send_step_def w_def fail_pending_sends_def split: list.splits outbound_item.splits)
qed

lemma deliv_lost: "deliv tr m \<Longrightarrow> deliv (tr @ [Silent]) (recv_lost m)"
  using deliv_stop[of tr m "m\<lparr>mx_phase := Closing 1000\<rparr>"] deliv_unchanged_objs[of tr m m]
  by (simp add: recv_lost_def dispatching_def pending_frame_def fun_eq_iff)

lemma deliv_step:
  assumes "mux_step m l m'" and "mux_ok m" and d: "deliv tr m"
  shows "deliv (tr @ [l]) m'"
  using assms(1,2) d
proof (cases rule: mux_step.cases)
  case (stop code)
  then show ?thesis by (auto simp: dispatching_def pending_frame_def intro!: deliv_stop[OF d])
next
  case (accept r)
  then show ?thesis by (auto simp: accept_stream_def deliv_unchanged_objs[OF d] split: list.splits if_splits)
next
  case (enqueue i t data queued)
  then show ?thesis by (auto simp: enqueue_nowait_def deliv_unchanged_objs[OF d] split: sum.splits if_splits)
next
  case (put payload queued)
  then show ?thesis by (auto simp: put_outbound_def and_then_Inr deliv_unchanged_objs[OF d] split: if_splits)
next
  case (forget i)
  then show ?thesis by (auto simp: forget_stream_def split: if_splits intro!: deliv_same[OF d])
qed (auto intro: deliv_route deliv_deliver deliv_reclaim deliv_take deliv_open deliv_close_finish deliv_send deliv_lost
    deliv_unchanged_objs)

lemma deliv_run: "mux_run n tr m \<Longrightarrow> deliv tr m"
proof (induction rule: mux_run.induct)
  case start
  show ?case by (simp add: deliv_def mux_init_def taken_frames_def)
next
  case (step tr m l m')
  then show ?case using mux_run_ok deliv_step by blast
qed

section \<open>What the peer and the consumers observe\<close>

text \<open>C27. Ordered, lossless, unmixed delivery.  In every interleaving of the receive loop, the writer, the
  consumers, new streams and closing, what a consumer has taken from a stream followed by what is
  still queued for it is a contiguous piece, in order, of the frames with that stream's id that
  arrived on the wire; and while the stream is in the routing table and the receive loop is
  between frames, it ends with the latest such frame, so none is missing.\<close>

theorem stream_delivery:
  assumes "mux_run max_pending tr m" and "ref < length (mx_objs m)"
  shows "sublist (taken_frames ref tr @ so_queue (mx_objs m ! ref)) (wire_frames (so_frame_id (mx_objs m ! ref)) tr) \<and>
    (mx_phase m = Receiving \<and> od_get (mx_streams m) (so_frame_id (mx_objs m ! ref)) = Some ref \<longrightarrow>
      suffix (taken_frames ref tr @ so_queue (mx_objs m ! ref)) (wire_frames (so_frame_id (mx_objs m ! ref)) tr))"
proof -
  have "stream_deliv tr m ref" using deliv_run[OF assms(1)] assms(2) by (simp add: deliv_def)
  then show ?thesis
    using sublist_less[of "taken_frames ref tr @ so_queue (mx_objs m ! ref)" "pending_frame m ref"]
    by (auto simp: stream_deliv_def Let_def arrived_def listening_def dispatching_def pending_frame_def)
qed

text \<open>A client opens stream 1 with one frame, which the handler has not read yet.\<close>

definition sample_raw :: "byte list" where
  "sample_raw = [0, 0, 0, 1, 0, 42]"

definition sample_mux :: mux where
  "sample_mux = recv_reclaim (recv_deliver (recv_route sample_raw (mux_init 16)))"

definition sample_trace :: "mux_label list" where
  "sample_trace = [Wire sample_raw, Silent, Silent]"

lemma sample_run: "mux_run 16 sample_trace sample_mux"
proof -
  have "mux_run 16 ([] @ [Wire sample_raw]) (recv_route sample_raw (mux_init 16))"
    by (rule mux_run.step[OF mux_run.start mux_step.route]) (simp add: mux_init_def)
  from mux_run.step[OF mux_run.step[OF this mux_step.deliver] mux_step.reclaim]
  show ?thesis by (simp add: sample_trace_def sample_mux_def)
qed

lemma sample_mux_eq:
  "sample_mux = (mux_init 16)\<lparr>mx_streams := [(1, 0)], mx_pending_inbound := [0],
     mx_objs := [\<lparr>so_frame_id = 1, so_queue = [\<lparr>fr_stream_id = 1, fr_frame_type = PROCESS, fr_data = [42]\<rparr>],
                 so_shutdown = False\<rparr>]\<rparr>"
  by (simp add: sample_mux_def sample_raw_def mux_init_def recv_route_def recv_deliver_def recv_reclaim_def
      decode_frame_def frame_type_of_def inbound_full_def Let_def new_stream_def FRAME_HEADER_SIZE_def
      MAX_PENDING_FRAMES_PER_STREAM_def)

theorem stream_delivery_witness:
  "taken_frames 0 sample_trace @ so_queue (mx_objs sample_mux ! 0)
     = [\<lparr>fr_stream_id = 1, fr_frame_type = PROCESS, fr_data = [42]\<rparr>] \<and>
   suffix (taken_frames 0 sample_trace @ so_queue (mx_objs sample_mux ! 0)) (wire_frames 1 sample_trace)"
  using stream_delivery[OF sample_run, of 0]
  by (simp add: sample_mux_eq mux_init_def taken_frames_def sample_trace_def)

text \<open>C28. Bounded memory and a clean shutdown, in every reachable state: the queues keep their limits
  whatever the peer sends, the routing table maps an id to the stream that carries it, no
  server-side id can be handed out twice, and once the close has finished the table and the
  pending streams are empty and the connection accepts no more sends.\<close>

theorem connection_bounded:
  assumes "mux_run max_pending tr m"
  shows "list_all (\<lambda>s. length (so_queue s) \<le> MAX_PENDING_FRAMES_PER_STREAM) (mx_objs m) \<and>
    length (mx_outbound m) \<le> OUTBOUND_QUEUE_SIZE \<and>
    (0 < mx_max_pending_inbound m \<longrightarrow> length (mx_pending_inbound m) \<le> mx_max_pending_inbound m) \<and>
    (\<forall>i ref. od_get (mx_streams m) i = Some ref \<longrightarrow> ref < length (mx_objs m) \<and> so_frame_id (mx_objs m ! ref) = i) \<and>
    od_get (mx_streams m) (mx_next_frame_id m) = None \<and>
    (mx_inbound_shutdown m \<longrightarrow> mx_streams m = [] \<and> mx_pending_inbound m = [] \<and> \<not> can_send_nowait m)"
proof -
  have ok: "mux_ok m" by (rule mux_run_ok[OF assms])
  have "list_all (\<lambda>s. length (so_queue s) \<le> MAX_PENDING_FRAMES_PER_STREAM) (mx_objs m)"
    using ok by (auto simp: mux_ok_def stream_ok_def list_all_iff)
  moreover have "od_get (mx_streams m) (mx_next_frame_id m) = None"
    using ok by (cases "od_get (mx_streams m) (mx_next_frame_id m)") (auto simp: mux_ok_def table_ok_def)
  ultimately show ?thesis
    using ok by (simp add: mux_ok_def bounds_ok_def table_ok_def closed_ok_def can_send_nowait_def)
qed

theorem connection_bounded_witness:
  "mux_run 16 sample_trace sample_mux \<and> length (mx_pending_inbound sample_mux) \<le> 16 \<and>
   so_frame_id (mx_objs sample_mux ! 0) = 1"
  using sample_run connection_bounded[OF sample_run]
  by (simp add: sample_mux_eq mux_init_def)

text \<open>A full queue never drops a frame silently: when a stream's consumer has fallen behind by the whole
  queue, or too many streams wait to be accepted, the next frame closes the connection with 1013.\<close>

lemma overload_closes:
  assumes "mx_phase m = Receiving" "mx_is_running m" "\<not> mx_close_started m" "decode_frame raw = Inr f"
    and "(\<exists>ref. od_get (mx_streams m) (fr_stream_id f) = Some ref \<and> \<not> so_shutdown (mx_objs m ! ref) \<and>
            length (so_queue (mx_objs m ! ref)) \<ge> MAX_PENDING_FRAMES_PER_STREAM) \<or>
         (od_get (mx_streams m) (fr_stream_id f) = None \<and> odd (fr_stream_id f) \<and> fr_frame_type f = PROCESS \<and> inbound_full m)"
  shows "mx_phase (recv_iteration raw m) = Stopped \<and> mx_close_code (recv_iteration raw m) = 1013 \<and>
    mx_streams (recv_iteration raw m) = []"
  using assms
  by (auto simp: recv_iteration_def recv_route_def recv_deliver_def recv_reclaim_def recv_close_def close_def
      close_begin_def close_finish_def Let_def)

end
