(* ===== verification/AuthPolicy.thy ===== *)
theory AuthPolicy
  imports Prelude "HOL-Library.Sublist"
begin

text \<open>
  Authentication policies: \<open>src/include/domains/identity/auth/types.py\<close>, \<open>policies.py\<close> and
  \<open>registry.py\<close>, \<open>src/include/domains/identity/commands/auth_policies.py\<close>.

  A policy is a list of alternative chains of steps; a chain is completed by evidence from one
  attempt.  The theory models the check that a chain can be completed at all (a bipartite matching
  of public-key steps with distinct keys), the evaluation of evidence against the chains, and the
  commands that store and prune policies.  Registered methods are a dictionary of providers; what
  a provider lists for the user at hand is a field of it, since listing is the extension point of
  the registry.

  The source validates chains to be non-empty when they are parsed (\<open>parse_chains\<close>); the functions
  below are called on such chains only.
\<close>

section \<open>Data\<close>

datatype auth_purpose = LOGIN | MFA | ESCALATION

record registered_credential =
  rc_method :: string
  rc_credential_id :: string
  rc_active :: bool
  rc_label :: "string option"
  rc_key_identity :: "string option"

record auth_step =
  as_method :: string
  as_credential_ids :: "string list"

type_synonym auth_chain = "auth_step list"

record auth_evidence =
  ev_user_id :: string
  ev_attempt_id :: string
  ev_event_id :: string
  ev_method :: string
  ev_credential_id :: string

record auth_policy_decision =
  pd_satisfied :: bool
  pd_next_steps :: "auth_step list"
  pd_purpose :: "auth_purpose option"

definition LOGIN_DISALLOWED_METHODS :: "string list" where
  "LOGIN_DISALLOWED_METHODS = [''totp'']"

datatype auth_policy_error =
    NegativeRevision
  | MalformedChains
  | DuplicateChain
  | MixedMethods
  | MethodNotForLogin string
  | UnknownMethod string
  | UnsupportedPurpose string
  | DuplicateSelector
  | UnregisteredCredential
  | AuthPolicyConflict
  | AuthPolicyUnavailable string

text \<open>\<open>auth_chains_adapter.validate_python\<close>: no empty chain, method, selector list or selector.\<close>

definition valid_step :: "auth_step \<Rightarrow> bool" where
  "valid_step s \<longleftrightarrow> as_method s \<noteq> [] \<and> as_credential_ids s \<noteq> [] \<and> list_all (\<lambda>c. c \<noteq> []) (as_credential_ids s)"

definition parse_chains :: "auth_chain list \<Rightarrow> auth_policy_error + auth_chain list" where
  "parse_chains chs =
     (if list_all (\<lambda>chain. chain \<noteq> [] \<and> list_all valid_step chain) chs then Inr chs else Inl MalformedChains)"

section \<open>Can a chain be completed?\<close>

text \<open>\<open>{(c.method, c.credential_id): c for c in credentials if c.active}\<close>\<close>

definition active_credentials ::
  "registered_credential list \<Rightarrow> string \<times> string \<Rightarrow> registered_credential option" where
  "active_credentials credentials =
     map_of (rev (map (\<lambda>c. ((rc_method c, rc_credential_id c), c)) (filter rc_active credentials)))"

definition step_pool ::
  "(string \<times> string \<Rightarrow> registered_credential option) \<Rightarrow> auth_step \<Rightarrow> registered_credential list" where
  "step_pool active step = List.map_filter (\<lambda>cid. active (as_method step, cid)) (as_credential_ids step)"

definition pool_keys :: "registered_credential list \<Rightarrow> string set" where
  "pool_keys pool = {k. \<exists>c \<in> set pool. rc_key_identity c = Some k}"

lemma pool_keys_simps [simp]:
  "pool_keys [] = {}"
  "pool_keys (c # cs) = (case rc_key_identity c of None \<Rightarrow> {} | Some k \<Rightarrow> {k}) \<union> pool_keys cs"
  by (auto simp: pool_keys_def split: option.splits)

lemma finite_pool_keys [simp]: "finite (pool_keys pool)"
  by (induction pool) (auto split: option.splits)

definition pools_keys :: "registered_credential list list \<Rightarrow> string set" where
  "pools_keys pools = (\<Union>pool \<in> set pools. pool_keys pool)"

lemma finite_pools_keys [simp]: "finite (pools_keys pools)"
  by (simp add: pools_keys_def)

definition pool_at :: "registered_credential list list \<Rightarrow> nat \<Rightarrow> registered_credential list" where
  "pool_at pools q = (if q < length pools then pools ! q else [])"

lemma pool_at_keys: "pool_keys (pool_at pools q) \<subseteq> pools_keys pools"
  by (auto simp: pool_at_def pools_keys_def dest: nth_mem)

text \<open>
  The local function \<open>assign\<close> with its loop: \<open>visited\<close> and \<open>assignments\<close> are mutated by the source
  and passed along here.  The recursive call only ever adds to \<open>visited\<close>; taking the union with the
  set before the call changes nothing (\<open>assign_key_visited\<close> below) and makes the recursion visibly
  well-founded.
\<close>

function assign_key ::
  "registered_credential list list \<Rightarrow> registered_credential list \<Rightarrow> nat \<Rightarrow> string set \<Rightarrow> (string \<Rightarrow> nat option) \<Rightarrow>
   bool \<times> string set \<times> (string \<Rightarrow> nat option)" where
  "assign_key pools [] position visited assignments = (False, visited, assignments)"
| "assign_key pools (credential # rest) position visited assignments =
     (case rc_key_identity credential of
        None \<Rightarrow> assign_key pools rest position visited assignments
      | Some identity \<Rightarrow>
          if identity \<in> visited then assign_key pools rest position visited assignments
          else (case assignments identity of
             None \<Rightarrow> (True, insert identity visited, assignments(identity \<mapsto> position))
           | Some other \<Rightarrow>
               (case assign_key pools (pool_at pools other) other (insert identity visited) assignments of
                  (True, visited', assignments') \<Rightarrow> (True, visited', assignments'(identity \<mapsto> position))
                | (False, visited', assignments') \<Rightarrow>
                    assign_key pools rest position (insert identity visited \<union> visited') assignments')))"
  by pat_completeness auto
termination
proof (relation "measures [\<lambda>(pools, cs, _, visited, _). card ((pools_keys pools \<union> pool_keys cs) - visited),
    \<lambda>(pools, cs, _). length cs]", goal_cases)
  case (4 pools credential rest position visited assignments identity other)
  have "((pools_keys pools \<union> pool_keys (pool_at pools other)) - insert identity visited)
      \<subset> ((pools_keys pools \<union> pool_keys (credential # rest)) - visited)"
    using 4 pool_at_keys[of pools other] by auto
  from psubset_card_mono[OF _ this] show ?case
    using finite_pool_keys[of "credential # rest"] by (simp del: pool_keys_simps)
qed (auto simp: less_le intro!: card_mono card_mono[OF _ Diff_mono] split: option.splits)

fun assign_all ::
  "registered_credential list list \<Rightarrow> nat list \<Rightarrow> (string \<Rightarrow> nat option) \<Rightarrow> bool" where
  "assign_all pools [] assignments = True"
| "assign_all pools (position # rest) assignments =
     (case assign_key pools (pool_at pools position) position {} assignments of
        (ok, _, assignments') \<Rightarrow> ok \<and> assign_all pools rest assignments')"

fun can_complete_auth_chain :: "auth_chain \<Rightarrow> registered_credential list \<Rightarrow> bool" where
  "can_complete_auth_chain [] credentials = False"
| "can_complete_auth_chain (step # steps) credentials =
     (let chain = step # steps; active = active_credentials credentials;
          pools = map (step_pool active) chain
      in if list_ex (\<lambda>pool. pool = []) pools then False
         else if as_method step \<noteq> ''publickey''
         then length chain = 1 \<or> as_method step \<notin> {''password'', ''totp'', ''oidc''}
         else assign_all pools [0..<length chain] Map.empty)"

section \<open>The assignment of keys is a maximum matching\<close>

definition valid_keys :: "registered_credential list list \<Rightarrow> (string \<Rightarrow> nat option) \<Rightarrow> bool" where
  "valid_keys pools a \<longleftrightarrow> (\<forall>k p. a k = Some p \<longrightarrow> p < length pools \<and> k \<in> pool_keys (pools ! p))"

definition one_key_each :: "(string \<Rightarrow> nat option) \<Rightarrow> bool" where
  "one_key_each a \<longleftrightarrow> (\<forall>k k' p. a k = Some p \<longrightarrow> a k' = Some p \<longrightarrow> k = k')"

text \<open>What a successful call leaves: the visited keys keep their position, one fresh key has moved
  to \<open>p\<close>, and every position that had a key still has exactly one.\<close>

definition moved_to ::
  "registered_credential list list \<Rightarrow> nat \<Rightarrow> string set \<Rightarrow> (string \<Rightarrow> nat option) \<Rightarrow> (string \<Rightarrow> nat option) \<Rightarrow> bool" where
  "moved_to pools p v a a' \<longleftrightarrow> valid_keys pools a' \<and> (\<forall>k \<in> v. a' k = a k) \<and> ran a' = insert p (ran a) \<and>
     (\<forall>k k' r. r \<noteq> p \<longrightarrow> a' k = Some r \<longrightarrow> a' k' = Some r \<longrightarrow> k = k') \<and>
     (\<exists>k. k \<notin> v \<and> a' k = Some p \<and> (\<forall>k'. k' \<notin> v \<longrightarrow> a' k' = Some p \<longrightarrow> k' = k))"

text \<open>What a failed call leaves: everything reachable along alternating paths is visited.\<close>

definition exhausted ::
  "registered_credential list list \<Rightarrow> registered_credential list \<Rightarrow> string set \<Rightarrow> (string \<Rightarrow> nat option) \<Rightarrow> string set \<Rightarrow> bool" where
  "exhausted pools cs v a v' \<longleftrightarrow> v \<subseteq> v' \<and> pool_keys cs \<subseteq> v' \<and> finite (v' - v) \<and>
     (\<forall>k \<in> v' - v. \<exists>q. a k = Some q \<and> pool_keys (pool_at pools q) \<subseteq> v')"

lemma assign_key_skip:
  "(case rc_key_identity c of None \<Rightarrow> True | Some k \<Rightarrow> k \<in> v) \<Longrightarrow>
   assign_key pools (c # cs) p v a = assign_key pools cs p v a"
  by (auto split: option.splits)

lemma assign_key_free:
  "rc_key_identity c = Some k \<Longrightarrow> k \<notin> v \<Longrightarrow> a k = None \<Longrightarrow>
   assign_key pools (c # cs) p v a = (True, insert k v, a(k \<mapsto> p))"
  by simp

lemma assign_key_taken:
  "rc_key_identity c = Some k \<Longrightarrow> k \<notin> v \<Longrightarrow> a k = Some q \<Longrightarrow>
   assign_key pools (pool_at pools q) q (insert k v) a = (ok, v1, a1) \<Longrightarrow>
   assign_key pools (c # cs) p v a =
     (if ok then (True, v1, a1(k \<mapsto> p)) else assign_key pools cs p (insert k v \<union> v1) a1)"
  by (cases ok) simp_all

lemma assign_key_induct [case_names Nil skip free taken]:
  assumes nil: "\<And>p v a. P [] p v a"
    and skip: "\<And>c cs p v a. (case rc_key_identity c of None \<Rightarrow> True | Some k \<Rightarrow> k \<in> v) \<Longrightarrow> P cs p v a \<Longrightarrow> P (c # cs) p v a"
    and free: "\<And>c cs p v a k. rc_key_identity c = Some k \<Longrightarrow> k \<notin> v \<Longrightarrow> a k = None \<Longrightarrow> P (c # cs) p v a"
    and taken: "\<And>c cs p v a k q ok v1 a1. rc_key_identity c = Some k \<Longrightarrow> k \<notin> v \<Longrightarrow> a k = Some q \<Longrightarrow>
      assign_key pools (pool_at pools q) q (insert k v) a = (ok, v1, a1) \<Longrightarrow> P (pool_at pools q) q (insert k v) a \<Longrightarrow>
      (\<not> ok \<Longrightarrow> P cs p (insert k v \<union> v1) a1) \<Longrightarrow> P (c # cs) p v a"
  shows "P cs p v a"
proof (induction pools' \<equiv> pools cs p v a rule: assign_key.induct)
  case (2 c rest p v a)
  show ?case
  proof (cases "rc_key_identity c")
    case None
    then show ?thesis using 2(1) by (intro skip) simp_all
  next
    case (Some k)
    show ?thesis
    proof (cases "k \<in> v")
      case True
      then show ?thesis using 2(2) Some by (intro skip) simp_all
    next
      case False
      show ?thesis
      proof (cases "a k")
        case None
        then show ?thesis using Some False by (rule_tac free)
      next
        case q: (Some q)
        obtain ok v1 a1 where r: "assign_key pools (pool_at pools q) q (insert k v) a = (ok, v1, a1)"
          by (metis prod_cases3)
        show ?thesis
        proof (rule taken[OF Some False q r])
          show "P (pool_at pools q) q (insert k v) a" by (rule 2(3)[OF Some False q])
          show "P rest p (insert k v \<union> v1) a1" if "\<not> ok"
            using 2(4)[OF Some False q r[symmetric] _ refl] that by simp
        qed
      qed
    qed
  qed
qed (rule nil)

lemma assign_key_visited: "v \<subseteq> fst (snd (assign_key pools cs p v a))"
proof (induction cs p v a rule: assign_key_induct[where pools = pools])
  case (taken c cs p v a k q ok v1 a1)
  then show ?case by (auto simp: assign_key_taken[OF taken(1-4)] simp del: assign_key.simps)
qed (auto simp: assign_key_skip assign_key_free simp del: assign_key.simps(2))

lemma assign_key_fail:
  "assign_key pools cs p v a = (False, v', a') \<Longrightarrow> a' = a \<and> exhausted pools cs v a v'"
proof (induction cs p v a arbitrary: v' a' rule: assign_key_induct[where pools = pools])
  case (skip c cs p v a)
  then show ?case by (auto simp: assign_key_skip exhausted_def simp del: assign_key.simps split: option.splits)
next
  case (taken c cs p v a k q ok v1 a1)
  have nok: "\<not> ok" and r2: "assign_key pools cs p (insert k v \<union> v1) a1 = (False, v', a')"
    using taken(7) assign_key_taken[OF taken(1-4)] by (auto simp del: assign_key.simps split: if_splits)
  have e1: "a1 = a" "exhausted pools (pool_at pools q) (insert k v) a v1" using taken(4,5) nok by auto
  then have v1: "insert k v \<union> v1 = v1" by (auto simp: exhausted_def)
  have a': "a' = a" and e2: "exhausted pools cs v1 a v'" using taken(6)[OF nok r2] e1(1) v1 by auto
  have sub: "insert k v \<subseteq> v1" "v1 \<subseteq> v'" using e1(2) e2 by (auto simp: exhausted_def)
  have fin: "finite (v' - v)"
  proof (rule finite_subset)
    show "v' - v \<subseteq> (v' - v1) \<union> (v1 - insert k v) \<union> {k}" by auto
    show "finite ((v' - v1) \<union> (v1 - insert k v) \<union> {k})" using e1(2) e2 by (simp add: exhausted_def)
  qed
  have "\<exists>r. a j = Some r \<and> pool_keys (pool_at pools r) \<subseteq> v'" if "j \<in> v' - v" for j
  proof -
    consider "j = k" | "j \<in> v1 - insert k v" | "j \<in> v' - v1" using \<open>j \<in> v' - v\<close> by blast
    then show ?thesis
    proof cases
      case 1
      then show ?thesis using taken(3) e1(2) sub by (auto simp: exhausted_def)
    next
      case 2
      then show ?thesis using e1(2) sub unfolding exhausted_def by (meson order_trans)
    next
      case 3
      then show ?thesis using e2 by (auto simp: exhausted_def)
    qed
  qed
  then show ?case using a' sub fin e2 taken(1) by (auto simp: exhausted_def)
qed (auto simp: exhausted_def assign_key_free)

lemma moved_to_step:
  assumes m: "moved_to pools q (insert k v) a a1" and k: "k \<notin> v" "a k = Some q" and one: "one_key_each a"
    and held: "\<And>j. a j = Some p \<Longrightarrow> j \<in> v" and kp: "k \<in> pool_keys (pools ! p)" and p: "p < length pools"
  shows "moved_to pools p v a (a1(k \<mapsto> p))"
proof -
  have keep: "\<And>j. j \<in> insert k v \<Longrightarrow> a1 j = a j" and r1: "ran a1 = insert q (ran a)" and v1: "valid_keys pools a1"
    and u1: "\<And>j j' r. r \<noteq> q \<Longrightarrow> a1 j = Some r \<Longrightarrow> a1 j' = Some r \<Longrightarrow> j = j'"
    using m unfolding moved_to_def by blast+
  obtain j where j: "j \<notin> insert k v" "a1 j = Some q"
    "\<And>j'. j' \<notin> insert k v \<Longrightarrow> a1 j' = Some q \<Longrightarrow> j' = j" using m unfolding moved_to_def by blast
  have qp: "q \<noteq> p" using held k by blast
  have ranq: "ran a1 = ran a" using r1 k(2) by (auto simp: ran_def)
  have holdp: "i \<in> v" if "a1 i = Some p" for i
  proof -
    have "p \<in> ran a" using that ranq by (auto simp: ran_def)
    then obtain i' where "a i' = Some p" by (auto simp: ran_def)
    with held have i': "i' \<in> v" "a1 i' = Some p" using keep by auto
    then show ?thesis using u1[of p i i'] qp that by auto
  qed
  have A: "ran (a1(k \<mapsto> p)) = insert p (ran a)"
  proof (rule set_eqI)
    fix r
    have "r \<in> ran (a1(k \<mapsto> p)) \<longleftrightarrow> r = p \<or> (\<exists>i. i \<noteq> k \<and> a1 i = Some r)" by (auto simp: ran_def)
    also have "\<dots> \<longleftrightarrow> r = p \<or> r \<in> ran a1"
    proof (cases "r = q")
      case True
      then show ?thesis using j by (auto simp: ran_def)
    next
      case False
      then have "a1 k \<noteq> Some r" using keep[of k] k by simp
      then show ?thesis by (auto simp: ran_def)
    qed
    finally show "r \<in> ran (a1(k \<mapsto> p)) \<longleftrightarrow> r \<in> insert p (ran a)" using ranq by simp
  qed
  have B: "valid_keys pools (a1(k \<mapsto> p))" using v1 kp p by (auto simp: valid_keys_def)
  have C: "i = i'" if "r \<noteq> p" "(a1(k \<mapsto> p)) i = Some r" "(a1(k \<mapsto> p)) i' = Some r" for i i' r
  proof -
    have h: "i \<noteq> k" "i' \<noteq> k" "a1 i = Some r" "a1 i' = Some r" using that by (auto split: if_splits)
    have "i \<notin> insert k v" if "i \<noteq> k" "a1 i = Some q" for i
      using that keep one k unfolding one_key_each_def by (metis insertE)
    then have "i \<notin> insert k v \<and> i' \<notin> insert k v" if "r = q" using h that by blast
    then show ?thesis using h u1[of r i i'] j(3)[of i] j(3)[of i'] by (cases "r = q") auto
  qed
  have D: "\<forall>i \<in> v. (a1(k \<mapsto> p)) i = a i" using keep k by auto
  have E: "\<forall>i. i \<notin> v \<longrightarrow> (a1(k \<mapsto> p)) i = Some p \<longrightarrow> i = k" using holdp by auto
  show ?thesis
    unfolding moved_to_def
  proof (intro conjI)
    show "\<forall>i i' r. r \<noteq> p \<longrightarrow> (a1(k \<mapsto> p)) i = Some r \<longrightarrow> (a1(k \<mapsto> p)) i' = Some r \<longrightarrow> i = i'"
      by (intro allI impI) (rule C)
    show "\<exists>i. i \<notin> v \<and> (a1(k \<mapsto> p)) i = Some p \<and> (\<forall>i'. i' \<notin> v \<longrightarrow> (a1(k \<mapsto> p)) i' = Some p \<longrightarrow> i' = i)"
      by (intro exI[of _ k] conjI k(1) E fun_upd_same)
  qed (rule A B D)+
qed

lemma assign_key_success:
  assumes "assign_key pools cs p v a = (True, v', a')" and "valid_keys pools a" and "one_key_each a"
    and "\<And>k. a k = Some p \<Longrightarrow> k \<in> v" and "p < length pools" and "set cs \<subseteq> set (pools ! p)"
  shows "moved_to pools p v a a'"
  using assms
proof (induction cs p v a arbitrary: v' a' rule: assign_key_induct[where pools = pools])
  case (skip c cs p v a)
  then show ?case by (simp add: assign_key_skip del: assign_key.simps)
next
  case (free c cs p v a k)
  then have a': "a' = a(k \<mapsto> p)" by (simp add: assign_key_free del: assign_key.simps)
  have k: "k \<in> pool_keys (pools ! p)" using free(1,9) by (auto simp: pool_keys_def)
  have "ran a' = insert p (ran a)" using free(3) unfolding a' by (rule ran_map_upd)
  moreover have "valid_keys pools a'" using free(5,8) k by (auto simp: a' valid_keys_def)
  ultimately show ?case
    using free(2,3,6,7) unfolding moved_to_def a' one_key_each_def by (auto split: if_splits)
next
  case (taken c cs p v a k q ok v1 a1)
  have q: "q < length pools" "q \<noteq> p" using taken(2,3,8,10) by (auto simp: valid_keys_def)
  have kp: "k \<in> pool_keys (pools ! p)" using taken(1,12) by (auto simp: pool_keys_def)
  show ?case
  proof (cases ok)
    case False
    have f: "a1 = a" "exhausted pools (pool_at pools q) (insert k v) a v1"
      using assign_key_fail[of pools "pool_at pools q" q "insert k v" a v1 a1] taken(4) False by auto
    have "moved_to pools p (insert k v \<union> v1) a a'"
    proof (rule taken(6)[OF False, unfolded f(1)])
      show "assign_key pools cs p (insert k v \<union> v1) a = (True, v', a')"
        using taken(7) assign_key_taken[OF taken(1-4)] False f(1) by (simp del: assign_key.simps)
    qed (use taken(8-12) in auto)
    then show ?thesis using taken(10) unfolding moved_to_def by (metis Un_iff insertCI)
  next
    case True
    have a': "a' = a1(k \<mapsto> p)"
      using taken(7) assign_key_taken[OF taken(1-4)] True by (simp del: assign_key.simps)
    have m: "moved_to pools q (insert k v) a a1"
    proof (rule taken(5))
      show "assign_key pools (pool_at pools q) q (insert k v) a = (True, v1, a1)" using taken(4) True by simp
      show "j \<in> insert k v" if "a j = Some q" for j
        using taken(3,9) that by (auto simp: one_key_each_def)
      show "set (pool_at pools q) \<subseteq> set (pools ! q)" using q by (simp add: pool_at_def)
    qed (use taken(8,9) q in auto)
    show ?thesis unfolding a' by (rule moved_to_step[OF m taken(2,3,9,10) kp taken(11)])
  qed
qed (simp)

section \<open>Assigning all positions\<close>

definition key_choice :: "registered_credential list list \<Rightarrow> (nat \<Rightarrow> string) \<Rightarrow> bool" where
  "key_choice pools f \<longleftrightarrow> inj_on f {..<length pools} \<and> (\<forall>p < length pools. f p \<in> pool_keys (pools ! p))"

definition matched_upto :: "registered_credential list list \<Rightarrow> nat \<Rightarrow> (string \<Rightarrow> nat option) \<Rightarrow> bool" where
  "matched_upto pools n a \<longleftrightarrow> valid_keys pools a \<and> one_key_each a \<and> ran a = {..<n}"

lemma matched_extend:
  assumes m: "matched_upto pools n a" and n: "n < length pools"
    and r: "assign_key pools (pool_at pools n) n {} a = (True, v', a')"
  shows "matched_upto pools (Suc n) a'"
proof -
  have nh: "a k \<noteq> Some n" for k using m by (auto simp: matched_upto_def ran_def)
  have "moved_to pools n {} a a'"
    by (rule assign_key_success[OF r]) (use m n nh in \<open>auto simp: matched_upto_def pool_at_def\<close>)
  then show ?thesis
    using m unfolding moved_to_def matched_upto_def one_key_each_def by (metis empty_iff lessThan_Suc)
qed

text \<open>A failed augmentation is a Hall violation: the positions reached have fewer keys than they are.\<close>

lemma no_choice_if_failed:
  assumes m: "matched_upto pools n a" and n: "n < length pools"
    and r: "assign_key pools (pool_at pools n) n {} a = (False, v', a')"
  shows "\<not> key_choice pools f"
proof
  assume f: "key_choice pools f"
  have e: "exhausted pools (pools ! n) {} a v'" using assign_key_fail[OF r] n by (simp add: pool_at_def)
  define g where "g k = the (a k)" for k
  have g: "a k = Some (g k)" "g k < n" "pool_keys (pools ! g k) \<subseteq> v'" if k: "k \<in> v'" for k
  proof -
    obtain q where q: "a k = Some q" "pool_keys (pool_at pools q) \<subseteq> v'" using e k by (auto simp: exhausted_def)
    then show a: "a k = Some (g k)" by (simp add: g_def)
    have "q < n" using m q(1) by (auto simp: matched_upto_def ran_def)
    then show "g k < n" "pool_keys (pools ! g k) \<subseteq> v'" using q n by (simp_all add: g_def pool_at_def)
  qed
  have fin: "finite v'" using e by (simp add: exhausted_def)
  have "inj_on g v'" using g(1) m unfolding inj_on_def matched_upto_def one_key_each_def by metis
  then have c: "card (g ` v') = card v'" by (rule card_image)
  have "n \<notin> g ` v'" using g(2) by fastforce
  then have c1: "card (insert n (g ` v')) = Suc (card v')" using c fin by simp
  have fp: "f p \<in> pool_keys (pools ! p)" if "p \<le> n" for p using f n that by (simp add: key_choice_def)
  have "f n \<in> v'" using fp[of n] e by (auto simp: exhausted_def)
  moreover have "f (g k) \<in> v'" if "k \<in> v'" for k using fp[of "g k"] g(2,3)[OF that] by auto
  ultimately have "f ` insert n (g ` v') \<subseteq> v'" by auto
  moreover have "inj_on f (insert n (g ` v'))"
  proof (rule inj_on_subset)
    show "inj_on f {..<length pools}" using f by (simp add: key_choice_def)
    show "insert n (g ` v') \<subseteq> {..<length pools}" using n g(2) by fastforce
  qed
  ultimately have "Suc (card v') \<le> card v'" using card_inj_on_le[OF _ _ fin] c1 by metis
  then show False by simp
qed

lemma choice_of_matched:
  assumes "matched_upto pools (length pools) a"
  shows "\<exists>f. key_choice pools f"
proof -
  have "\<exists>k. a k = Some p" if "p < length pools" for p
    using assms that by (auto simp: matched_upto_def ran_def set_eq_iff)
  then obtain f where f: "\<And>p. p < length pools \<Longrightarrow> a (f p) = Some p" by metis
  then have "key_choice pools f"
    using assms unfolding key_choice_def matched_upto_def valid_keys_def inj_on_def by (metis lessThan_iff option.inject)
  then show ?thesis by blast
qed

lemma assign_all_iff:
  "matched_upto pools n a \<Longrightarrow> n \<le> length pools \<Longrightarrow>
   assign_all pools [n..<length pools] a \<longleftrightarrow> (\<exists>f. key_choice pools f)"
proof (induction "length pools - n" arbitrary: n a)
  case 0
  then show ?case using choice_of_matched by auto
next
  case (Suc d)
  then have n: "n < length pools" by simp
  obtain ok v' a' where r: "assign_key pools (pool_at pools n) n {} a = (ok, v', a')" by (metis prod_cases3)
  show ?case
  proof (cases ok)
    case True
    have "matched_upto pools (Suc n) a'" using matched_extend[OF Suc(3) n] r True by simp
    then have "assign_all pools [Suc n..<length pools] a' \<longleftrightarrow> (\<exists>f. key_choice pools f)"
      using Suc n by (intro Suc(1)) simp_all
    then show ?thesis using n r True by (simp add: upt_conv_Cons del: assign_key.simps)
  next
    case False
    then show ?thesis using no_choice_if_failed[OF Suc(3) n] n r by (auto simp: upt_conv_Cons simp del: assign_key.simps)
  qed
qed

lemma assign_all_correct: "assign_all pools [0..<length pools] Map.empty \<longleftrightarrow> (\<exists>f. key_choice pools f)"
  by (rule assign_all_iff) (simp_all add: matched_upto_def valid_keys_def one_key_each_def)

section \<open>Evaluating evidence\<close>

type_synonym chain_state = "nat \<times> string set"
type_synonym active_map = "string \<times> string \<Rightarrow> registered_credential option"

definition evidence_admissible :: "active_map \<Rightarrow> string \<Rightarrow> string \<Rightarrow> auth_evidence list \<Rightarrow> bool" where
  "evidence_admissible active user_id attempt_id evidence \<longleftrightarrow> distinct (map ev_event_id evidence) \<and>
     list_all (\<lambda>e. ev_user_id e = user_id \<and> ev_attempt_id e = attempt_id \<and>
                   active (ev_method e, ev_credential_id e) \<noteq> None) evidence"

text \<open>\<open>len({step.method for step in chain}) == 1\<close>\<close>

fun single_method :: "auth_chain \<Rightarrow> bool" where
  "single_method [] = False"
| "single_method (step # steps) = list_all (\<lambda>s. as_method s = as_method step) steps"

definition chain_usable :: "auth_purpose \<Rightarrow> active_map \<Rightarrow> auth_chain \<Rightarrow> bool" where
  "chain_usable purpose active chain \<longleftrightarrow> single_method chain \<and>
     \<not> (purpose = LOGIN \<and> list_ex (\<lambda>s. as_method s \<in> set LOGIN_DISALLOWED_METHODS) chain) \<and>
     list_all (\<lambda>s. list_ex (\<lambda>cid. active (as_method s, cid) \<noteq> None) (as_credential_ids s)) chain"

text \<open>One evidence event at one state: the states it adds.\<close>

definition advance_state :: "active_map \<Rightarrow> auth_chain \<Rightarrow> auth_evidence \<Rightarrow> chain_state \<Rightarrow> chain_state list" where
  "advance_state active chain event st =
     (case st of (position, used_keys) \<Rightarrow>
        if \<not> position < length chain then []
        else (let step = chain ! position in
          if ev_method event \<noteq> as_method step \<or> ev_credential_id event \<notin> set (as_credential_ids step) then []
          else if ev_method event = ''publickey''
          then (case Option.bind (active (ev_method event, ev_credential_id event)) rc_key_identity of
                  None \<Rightarrow> []
                | Some identity \<Rightarrow> if identity \<in> used_keys then [] else [(position + 1, insert identity used_keys)])
          else [(position + 1, used_keys)]))"

text \<open>The loop over the evidence; \<open>None\<close> is the early return once a state is complete.  The states
  are a set in the source; here they are a list without duplicates.\<close>

fun run_chain :: "active_map \<Rightarrow> auth_chain \<Rightarrow> auth_evidence list \<Rightarrow> chain_state list \<Rightarrow> chain_state list option" where
  "run_chain active chain [] states = Some states"
| "run_chain active chain (event # evidence) states =
     (if list_ex (\<lambda>(position, _). position = length chain) states then None
      else run_chain active chain evidence
             (remdups (states @ concat (map (advance_state active chain event) states))))"

definition permitted_ids :: "active_map \<Rightarrow> auth_step \<Rightarrow> string set \<Rightarrow> string list" where
  "permitted_ids active step used_keys =
     filter (\<lambda>cid. case active (as_method step, cid) of None \<Rightarrow> False
       | Some c \<Rightarrow> as_method step \<noteq> ''publickey'' \<or>
           (case rc_key_identity c of None \<Rightarrow> True | Some k \<Rightarrow> k \<notin> used_keys)) (as_credential_ids step)"

fun offer_steps :: "active_map \<Rightarrow> auth_chain \<Rightarrow> chain_state list \<Rightarrow> auth_step list \<Rightarrow> auth_step list" where
  "offer_steps active chain [] next_steps = next_steps"
| "offer_steps active chain ((position, used_keys) # rest) next_steps =
     (let step = chain ! position; permitted = permitted_ids active step used_keys;
          candidate = \<lparr>as_method = as_method step, as_credential_ids = permitted\<rparr>
      in offer_steps active chain rest
           (if permitted \<noteq> [] \<and> candidate \<notin> set next_steps then next_steps @ [candidate] else next_steps))"

fun evaluate_chains ::
  "auth_purpose \<Rightarrow> active_map \<Rightarrow> auth_evidence list \<Rightarrow> auth_chain list \<Rightarrow> auth_step list \<Rightarrow> auth_policy_decision" where
  "evaluate_chains purpose active evidence [] next_steps =
     \<lparr>pd_satisfied = False, pd_next_steps = next_steps, pd_purpose = None\<rparr>"
| "evaluate_chains purpose active evidence (chain # rest) next_steps =
     (if \<not> chain_usable purpose active chain then evaluate_chains purpose active evidence rest next_steps
      else (case run_chain active chain evidence [(0, {})] of
         None \<Rightarrow> \<lparr>pd_satisfied = True, pd_next_steps = [], pd_purpose = None\<rparr>
       | Some states \<Rightarrow>
           if list_ex (\<lambda>(position, _). position = length chain) states
           then \<lparr>pd_satisfied = True, pd_next_steps = [], pd_purpose = None\<rparr>
           else (let progress = Max (fst ` set states);
                     furthest = filter (\<lambda>(position, _). position = progress) states
                 in evaluate_chains purpose active evidence rest (offer_steps active chain furthest next_steps))))"

definition evaluate_auth_policy ::
  "auth_purpose \<Rightarrow> auth_chain list \<Rightarrow> registered_credential list \<Rightarrow> auth_evidence list \<Rightarrow> string \<Rightarrow> string \<Rightarrow>
   auth_policy_decision" where
  "evaluate_auth_policy purpose chs credentials evidence user_id attempt_id =
     (let active = active_credentials credentials in
      if \<not> evidence_admissible active user_id attempt_id evidence
      then \<lparr>pd_satisfied = False, pd_next_steps = [], pd_purpose = None\<rparr>
      else if chs = [] then \<lparr>pd_satisfied = (purpose = MFA), pd_next_steps = [], pd_purpose = None\<rparr>
      else evaluate_chains purpose active evidence chs [])"

section \<open>What it means for evidence to complete a chain\<close>

definition fits_step :: "auth_evidence \<Rightarrow> auth_step \<Rightarrow> bool" where
  "fits_step e s \<longleftrightarrow> ev_method e = as_method s \<and> ev_credential_id e \<in> set (as_credential_ids s)"

text \<open>The keys proved by public-key evidence, \<open>None\<close> for a credential without one.\<close>

definition proved_keys :: "active_map \<Rightarrow> auth_evidence list \<Rightarrow> string option list" where
  "proved_keys active evs = map (\<lambda>e. Option.bind (active (ev_method e, ev_credential_id e)) rc_key_identity)
     (filter (\<lambda>e. ev_method e = ''publickey'') evs)"

definition distinct_keys :: "active_map \<Rightarrow> auth_evidence list \<Rightarrow> bool" where
  "distinct_keys active evs \<longleftrightarrow> distinct (proved_keys active evs) \<and> None \<notin> set (proved_keys active evs)"

text \<open>In order, one event per step, every public-key step with another key.\<close>

definition completes :: "active_map \<Rightarrow> auth_chain \<Rightarrow> auth_evidence list \<Rightarrow> bool" where
  "completes active chain evidence \<longleftrightarrow>
     (\<exists>evs. subseq evs evidence \<and> list_all2 fits_step evs chain \<and> distinct_keys active evs)"

section \<open>The evaluation decides completion\<close>

definition partial_fit :: "active_map \<Rightarrow> auth_chain \<Rightarrow> auth_evidence list \<Rightarrow> bool" where
  "partial_fit active chain evs \<longleftrightarrow> length evs \<le> length chain \<and>
     (\<forall>i < length evs. fits_step (evs ! i) (chain ! i)) \<and> distinct_keys active evs"

definition state_of :: "active_map \<Rightarrow> auth_evidence list \<Rightarrow> chain_state" where
  "state_of active evs = (length evs, the ` set (proved_keys active evs))"

definition states_after :: "active_map \<Rightarrow> auth_chain \<Rightarrow> auth_evidence list \<Rightarrow> chain_state set" where
  "states_after active chain es = state_of active ` {evs. subseq evs es \<and> partial_fit active chain evs}"

lemma proved_keys_append [simp]: "proved_keys active (xs @ ys) = proved_keys active xs @ proved_keys active ys"
  by (simp add: proved_keys_def)

lemma partial_fit_Nil [simp]: "partial_fit active chain []"
  by (simp add: partial_fit_def distinct_keys_def proved_keys_def)

lemma states_after_Nil: "states_after active chain [] = {(0, {})}"
proof -
  have "{evs. subseq evs [] \<and> partial_fit active chain evs} = {[]}" by (auto simp: list_emb_Nil2)
  then show ?thesis by (simp add: states_after_def state_of_def proved_keys_def)
qed

lemma subseq_snoc: "subseq xs (ys @ [y]) \<longleftrightarrow> subseq xs ys \<or> (\<exists>zs. xs = zs @ [y] \<and> subseq zs ys)"
proof
  assume "subseq xs (ys @ [y])"
  then obtain us vs where x: "xs = us @ vs" "subseq us ys" "subseq vs [y]" by (auto simp: subseq_append_iff)
  from x(3) have "vs = [] \<or> vs = [y]" by (cases vs) (auto split: if_splits elim: list_emb.cases)
  then show "subseq xs ys \<or> (\<exists>zs. xs = zs @ [y] \<and> subseq zs ys)" using x by auto
qed (auto intro: subseq_append_iff[THEN iffD2])

lemma partial_fit_snoc:
  "partial_fit active chain (evs @ [e]) \<longleftrightarrow> partial_fit active chain evs \<and> length evs < length chain \<and>
     fits_step e (chain ! length evs) \<and> distinct_keys active (evs @ [e])"
  by (auto simp: partial_fit_def nth_append less_Suc_eq distinct_keys_def)

lemma completes_iff: "completes active chain es \<longleftrightarrow> (\<exists>used. (length chain, used) \<in> states_after active chain es)"
  by (auto simp: completes_def states_after_def state_of_def partial_fit_def list_all2_conv_all_nth image_iff)

lemma set_advance_state:
  assumes "partial_fit active chain evs"
  shows "set (advance_state active chain e (state_of active evs)) =
    (if partial_fit active chain (evs @ [e]) then {state_of active (evs @ [e])} else {})"
proof -
  let ?key = "Option.bind (active (ev_method e, ev_credential_id e)) rc_key_identity"
  have none: "None \<notin> set (proved_keys active evs)" and dist: "distinct (proved_keys active evs)"
    using assms by (simp_all add: partial_fit_def distinct_keys_def)
  then have mem: "Some k \<in> set (proved_keys active evs) \<longleftrightarrow> k \<in> the ` set (proved_keys active evs)" for k
    by (metis (no_types, lifting) image_iff option.exhaust_sel option.sel)
  have e: "proved_keys active [e] = (if ev_method e = ''publickey'' then [?key] else [])" by (simp add: proved_keys_def)
  consider "\<not> (length evs < length chain \<and> fits_step e (chain ! length evs))"
    | (other) "length evs < length chain" "fits_step e (chain ! length evs)" "ev_method e \<noteq> ''publickey''"
    | (key) "length evs < length chain" "fits_step e (chain ! length evs)" "ev_method e = ''publickey''" by blast
  then show ?thesis
  proof cases
    case 1
    then show ?thesis by (auto simp: advance_state_def Let_def state_of_def partial_fit_snoc fits_step_def)
  next
    case other
    then show ?thesis using assms none dist
      by (simp add: advance_state_def Let_def state_of_def partial_fit_snoc e distinct_keys_def) (simp add: fits_step_def)
  next
    case key
    then have m: "as_method (chain ! length evs) = ''publickey''" "ev_credential_id e \<in> set (as_credential_ids (chain ! length evs))"
      by (simp_all add: fits_step_def)
    show ?thesis
    proof (cases ?key)
      case None
      then show ?thesis using key m by (simp add: advance_state_def Let_def state_of_def partial_fit_snoc e distinct_keys_def)
    next
      case (Some k)
      have "set (advance_state active chain e (state_of active evs)) =
          (if k \<in> the ` set (proved_keys active evs) then {} else {(length evs + 1, insert k (the ` set (proved_keys active evs)))})"
        using key m Some by (simp add: advance_state_def Let_def state_of_def)
      moreover have "partial_fit active chain (evs @ [e]) \<longleftrightarrow> k \<notin> the ` set (proved_keys active evs)"
        using key assms none dist mem[of k] Some by (simp add: partial_fit_snoc e distinct_keys_def)
      moreover have "state_of active (evs @ [e]) = (length evs + 1, insert k (the ` set (proved_keys active evs)))"
        using key Some by (simp add: state_of_def e)
      ultimately show ?thesis by simp
    qed
  qed
qed

lemma states_after_snoc:
  "states_after active chain (es @ [e]) =
     states_after active chain es \<union> (\<Union>st \<in> states_after active chain es. set (advance_state active chain e st))"
proof -
  let ?F = "{evs. subseq evs es \<and> partial_fit active chain evs}"
  have "{evs. subseq evs (es @ [e]) \<and> partial_fit active chain evs} =
      ?F \<union> {evs @ [e] |evs. evs \<in> ?F \<and> partial_fit active chain (evs @ [e])}"
    by (auto simp: subseq_snoc partial_fit_snoc)
  then have "states_after active chain (es @ [e]) =
      states_after active chain es \<union> state_of active ` {evs @ [e] |evs. evs \<in> ?F \<and> partial_fit active chain (evs @ [e])}"
    by (simp add: states_after_def image_Un)
  also have "state_of active ` {evs @ [e] |evs. evs \<in> ?F \<and> partial_fit active chain (evs @ [e])} =
      (\<Union>evs \<in> ?F. set (advance_state active chain e (state_of active evs)))"
    by (auto simp: set_advance_state split: if_splits)
  finally show ?thesis by (simp add: states_after_def)
qed

lemma completes_mono: "completes active chain es \<Longrightarrow> completes active chain (es @ fs)"
  unfolding completes_def by (metis list_emb_append2 list_emb_append_mono subseq_append_le_same_iff subseq_order.trans subseq_rev_drop_many)

lemma run_chain_correct:
  assumes "set states = states_after active chain es"
  shows "case run_chain active chain fs states of None \<Rightarrow> completes active chain (es @ fs)
    | Some states' \<Rightarrow> set states' = states_after active chain (es @ fs)"
  using assms
proof (induction fs arbitrary: es states)
  case (Cons f fs)
  show ?case
  proof (cases "list_ex (\<lambda>(position, _). position = length chain) states")
    case True
    then have "completes active chain es" using Cons.prems by (force simp: completes_iff list_ex_iff)
    then show ?thesis using True completes_mono by auto
  next
    case False
    have "set (remdups (states @ concat (map (advance_state active chain f) states))) = states_after active chain (es @ [f])"
      using Cons.prems by (simp add: states_after_snoc)
    from Cons.IH[OF this] show ?thesis using False by (simp split: option.splits)
  qed
qed simp

lemma evaluate_chains_satisfied:
  "pd_satisfied (evaluate_chains purpose active evidence chs ns) \<longleftrightarrow>
     list_ex (\<lambda>chain. chain_usable purpose active chain \<and> completes active chain evidence) chs"
proof (induction chs arbitrary: ns)
  case (Cons chain rest)
  have "case run_chain active chain evidence [(0, {})] of None \<Rightarrow> completes active chain evidence
    | Some states' \<Rightarrow> set states' = states_after active chain evidence"
    using run_chain_correct[of "[(0, {})]" active chain "[]" evidence]
    by (simp add: states_after_Nil split: option.splits)
  then show ?case
    using Cons.IH by (auto simp: completes_iff list_ex_iff Let_def split: option.splits)
qed simp

text \<open>C6. The evaluation of a policy against the evidence of an attempt is satisfied exactly when all the
  evidence is this user's, of this attempt, unrepeated and of active credentials, and some chain
  that may be used for the purpose is completed: in order, one event for each step, with pairwise
  different keys for public-key steps.  A purpose without chains is satisfied only for MFA.\<close>

theorem evaluate_auth_policy_correct:
  "pd_satisfied (evaluate_auth_policy purpose chs credentials evidence user_id attempt_id) \<longleftrightarrow>
     evidence_admissible (active_credentials credentials) user_id attempt_id evidence \<and>
     (if chs = [] then purpose = MFA
      else list_ex (\<lambda>chain. chain_usable purpose (active_credentials credentials) chain \<and>
                            completes (active_credentials credentials) chain evidence) chs)"
  by (simp add: evaluate_auth_policy_def Let_def evaluate_chains_satisfied)

section \<open>The availability check is exact\<close>

text \<open>A choice of one credential for each step, all active, with pairwise different keys.\<close>

definition chosen_keys :: "active_map \<Rightarrow> auth_chain \<Rightarrow> string list \<Rightarrow> string option list" where
  "chosen_keys active chain cids =
     map (\<lambda>(s, cid). Option.bind (active (as_method s, cid)) rc_key_identity)
       (filter (\<lambda>(s, cid). as_method s = ''publickey'') (zip chain cids))"

definition good_choice :: "active_map \<Rightarrow> auth_chain \<Rightarrow> string list \<Rightarrow> bool" where
  "good_choice active chain cids \<longleftrightarrow>
     list_all2 (\<lambda>s cid. cid \<in> set (as_credential_ids s) \<and> active (as_method s, cid) \<noteq> None) chain cids \<and>
     distinct (chosen_keys active chain cids) \<and> None \<notin> set (chosen_keys active chain cids)"

lemma step_pool_iff: "c \<in> set (step_pool active s) \<longleftrightarrow> (\<exists>cid \<in> set (as_credential_ids s). active (as_method s, cid) = Some c)"
  by (force simp: step_pool_def map_filter_def)

lemma step_pool_empty_iff:
  "step_pool active s = [] \<longleftrightarrow> (\<forall>cid \<in> set (as_credential_ids s). active (as_method s, cid) = None)"
  by (auto simp: step_pool_def map_filter_def filter_empty_conv)

lemma single_method_nth: "single_method chain \<Longrightarrow> i < length chain \<Longrightarrow> as_method (chain ! i) = as_method (hd chain)"
  by (cases chain) (auto simp: list_all_length nth_Cons split: nat.splits)

lemma chosen_keys_other:
  assumes "single_method chain" and "as_method (hd chain) \<noteq> ''publickey''"
  shows "chosen_keys active chain cids = []"
proof -
  have "filter (\<lambda>(s, cid). as_method s = ''publickey'') (zip chain cids) = []"
    using assms single_method_nth[OF assms(1)] by (auto simp: filter_empty_conv in_set_zip)
  then show ?thesis by (simp add: chosen_keys_def)
qed

lemma chosen_keys_publickey:
  assumes "single_method chain" and "as_method (hd chain) = ''publickey''"
  shows "chosen_keys active chain cids =
    map (\<lambda>(s, cid). Option.bind (active (as_method s, cid)) rc_key_identity) (zip chain cids)"
proof -
  have "filter (\<lambda>(s, cid). as_method s = ''publickey'') (zip chain cids) = zip chain cids"
    using assms single_method_nth[OF assms(1)] by (auto simp: filter_id_conv in_set_zip)
  then show ?thesis by (simp add: chosen_keys_def)
qed

lemma key_choice_good:
  assumes s: "single_method chain" "as_method (hd chain) = ''publickey''"
    and f: "key_choice (map (step_pool active) chain) f"
  shows "\<exists>cids. good_choice active chain cids"
proof -
  have "\<exists>cid c. cid \<in> set (as_credential_ids (chain ! i)) \<and> active (as_method (chain ! i), cid) = Some c \<and>
      rc_key_identity c = Some (f i)" if "i < length chain" for i
    using f that unfolding key_choice_def pool_keys_def by (fastforce simp: step_pool_iff)
  then obtain g c where g: "\<And>i. i < length chain \<Longrightarrow> g i \<in> set (as_credential_ids (chain ! i)) \<and>
      active (as_method (chain ! i), g i) = Some (c i) \<and> rc_key_identity (c i) = Some (f i)" by metis
  let ?cids = "map g [0..<length chain]"
  have k: "chosen_keys active chain ?cids = map (Some \<circ> f) [0..<length chain]"
    unfolding chosen_keys_publickey[OF s] by (rule nth_equalityI) (simp_all add: g)
  have "inj_on (Some \<circ> f) (set [0..<length chain])"
    using f by (auto simp: key_choice_def inj_on_def)
  then have "distinct (chosen_keys active chain ?cids)" by (simp add: k distinct_map)
  moreover have "None \<notin> set (chosen_keys active chain ?cids)" by (auto simp: k)
  moreover have "list_all2 (\<lambda>s cid. cid \<in> set (as_credential_ids s) \<and> active (as_method s, cid) \<noteq> None) chain ?cids"
    using g by (simp add: list_all2_conv_all_nth)
  ultimately show ?thesis unfolding good_choice_def by blast
qed

lemma good_choice_key:
  assumes s: "single_method chain" "as_method (hd chain) = ''publickey''" and g: "good_choice active chain cids"
  shows "\<exists>f. key_choice (map (step_pool active) chain) f"
proof -
  let ?key = "\<lambda>i. Option.bind (active (as_method (chain ! i), cids ! i)) rc_key_identity"
  have len: "length cids = length chain" using g by (auto simp: good_choice_def dest: list_all2_lengthD)
  have k: "chosen_keys active chain cids = map ?key [0..<length chain]"
    unfolding chosen_keys_publickey[OF s] by (rule nth_equalityI) (simp_all add: len)
  have some: "\<exists>c. active (as_method (chain ! i), cids ! i) = Some c \<and> c \<in> set (step_pool active (chain ! i)) \<and>
      rc_key_identity c = ?key i \<and> ?key i \<noteq> None" if i: "i < length chain" for i
  proof -
    have "?key i \<in> set (chosen_keys active chain cids)" using i by (simp add: k)
    then have "?key i \<noteq> None" using g unfolding good_choice_def by metis
    moreover obtain c where c: "active (as_method (chain ! i), cids ! i) = Some c" "cids ! i \<in> set (as_credential_ids (chain ! i))"
      using g i unfolding good_choice_def by (auto simp: list_all2_conv_all_nth)
    ultimately show ?thesis by (auto simp: step_pool_iff)
  qed
  have inj: "inj_on ?key (set [0..<length chain])" using g by (simp add: good_choice_def k distinct_map)
  have "key_choice (map (step_pool active) chain) (\<lambda>i. the (?key i))"
    unfolding key_choice_def pool_keys_def
  proof (intro conjI allI impI)
    show "inj_on (\<lambda>i. the (?key i)) {..<length (map (step_pool active) chain)}"
    proof (rule inj_onI)
      fix i j assume ij: "i \<in> {..<length (map (step_pool active) chain)}" "j \<in> {..<length (map (step_pool active) chain)}"
        and e: "the (?key i) = the (?key j)"
      have "?key i \<noteq> None" "?key j \<noteq> None" using some[of i] some[of j] ij by auto
      then obtain a b where ab: "?key i = Some a" "?key j = Some b" by (auto simp only: not_None_eq)
      then have "?key i = ?key j" using e unfolding ab by simp
      then show "i = j" by (rule inj_onD[OF inj]) (use ij in simp_all)
    qed
    fix i assume "i < length (map (step_pool active) chain)"
    then show "the (?key i) \<in> {k. \<exists>c \<in> set (map (step_pool active) chain ! i). rc_key_identity c = Some k}"
      using some[of i] by force
  qed
  then show ?thesis by blast
qed

lemma good_choice_other:
  assumes "single_method chain" and "as_method (hd chain) \<noteq> ''publickey''"
  shows "(\<exists>cids. good_choice active chain cids) \<longleftrightarrow> list_all (\<lambda>s. step_pool active s \<noteq> []) chain"
  unfolding good_choice_def chosen_keys_other[OF assms]
  by (induction chain) (auto simp: step_pool_empty_iff list_all2_Cons1)

lemma good_choice_pools: "good_choice active chain cids \<Longrightarrow> list_all (\<lambda>s. step_pool active s \<noteq> []) chain"
  by (fastforce simp: good_choice_def list_all2_conv_all_nth list_all_length step_pool_empty_iff)

lemma can_complete_iff:
  assumes s: "single_method chain"
  shows "can_complete_auth_chain chain credentials \<longleftrightarrow>
    (\<exists>cids. good_choice (active_credentials credentials) chain cids) \<and>
    (length chain = 1 \<or> as_method (hd chain) \<notin> {''password'', ''totp'', ''oidc''})"
proof -
  let ?a = "active_credentials credentials"
  obtain st sts where c: "chain = st # sts" using s by (cases chain) auto
  have pools: "list_ex (\<lambda>pool. pool = []) (map (step_pool ?a) chain) \<longleftrightarrow> \<not> list_all (\<lambda>s. step_pool ?a s \<noteq> []) chain"
    by (induction chain) auto
  have cc: "can_complete_auth_chain chain credentials \<longleftrightarrow> list_all (\<lambda>s. step_pool ?a s \<noteq> []) chain \<and>
     (if as_method (hd chain) \<noteq> ''publickey'' then length chain = 1 \<or> as_method (hd chain) \<notin> {''password'', ''totp'', ''oidc''}
      else \<exists>f. key_choice (map (step_pool ?a) chain) f)"
    using pools assign_all_correct[of "map (step_pool ?a) chain"] by (simp add: c Let_def)
  show ?thesis
  proof (cases "as_method (hd chain) = ''publickey''")
    case True
    then show ?thesis
      using cc key_choice_good[OF s True] good_choice_key[OF s True] good_choice_pools by auto
  next
    case False
    then show ?thesis using cc good_choice_other[OF s False] by auto
  qed
qed

text \<open>C7. The availability check of a chain is exact: it holds if and only if one active credential can be
  chosen for every step, with pairwise different keys for public-key steps.  Chains of several
  password, TOTP or OIDC steps are never available.  The augmenting search over key assignments
  therefore finds a complete assignment whenever one exists.\<close>

theorem can_complete_auth_chain_correct:
  assumes "single_method chain"
  shows "can_complete_auth_chain chain credentials \<longleftrightarrow>
    (\<exists>cids. good_choice (active_credentials credentials) chain cids) \<and>
    (length chain = 1 \<or> as_method (hd chain) \<notin> {''password'', ''totp'', ''oidc''})"
  by (rule can_complete_iff[OF assms])

theorem can_complete_auth_chain_correct_witness:
  "can_complete_auth_chain
     [\<lparr>as_method = ''publickey'', as_credential_ids = [''a'', ''b'']\<rparr>, \<lparr>as_method = ''publickey'', as_credential_ids = [''a'']\<rparr>]
     [\<lparr>rc_method = ''publickey'', rc_credential_id = ''a'', rc_active = True, rc_label = None, rc_key_identity = Some ''ka''\<rparr>,
      \<lparr>rc_method = ''publickey'', rc_credential_id = ''b'', rc_active = True, rc_label = None, rc_key_identity = Some ''kb''\<rparr>]"
proof (subst can_complete_auth_chain_correct)
  show "single_method [\<lparr>as_method = ''publickey'', as_credential_ids = [''a'', ''b'']\<rparr>, \<lparr>as_method = ''publickey'', as_credential_ids = [''a'']\<rparr>]"
    by simp
qed (auto intro!: exI[of _ "[''b'', ''a'']"] simp: good_choice_def chosen_keys_def active_credentials_def)

end
