(* ===== verification/AuthCommands.thy ===== *)
theory AuthCommands
  imports AuthPolicy
begin

text \<open>
  The registry of authentication methods and the commands that store, check and prune policies:
  \<open>src/include/domains/identity/auth/registry.py\<close> and
  \<open>src/include/domains/identity/commands/auth_policies.py\<close>, over the table of
  \<open>src/include/database/models/auth.py\<close>.

  A provider's record holds what it lists for the user at hand.  Stored policies are read and
  written under their revision; \<open>rival\<close> stands for what another transaction commits between the
  read and the conditional update.
\<close>

section \<open>The registry\<close>

datatype factor_category = PRIMARY | SECONDARY | FEDERATED

record auth_provider =
  pv_method_id :: string
  pv_category :: factor_category
  pv_supported_purposes :: "auth_purpose list"
  pv_credentials :: "registered_credential list"

type_synonym auth_registry = "(string, auth_provider) odict"

record user_auth_policy =
  ap_revision :: nat
  ap_chains :: "auth_chain list"

type_synonym auth_policies = "string \<times> auth_purpose \<Rightarrow> user_auth_policy option"

definition register_provider :: "auth_provider \<Rightarrow> auth_registry \<Rightarrow> string + auth_registry" where
  "register_provider provider reg =
     (if od_get reg (pv_method_id provider) \<noteq> None then Inl (pv_method_id provider)
      else Inr (od_set (pv_method_id provider) provider reg))"

definition get_user_configured_methods :: "auth_registry \<Rightarrow> string list \<times> string list" where
  "get_user_configured_methods reg =
     (let configured = filter (\<lambda>(_, p). list_ex rc_active (pv_credentials p)) reg
      in (map fst (filter (\<lambda>(_, p). pv_category p = PRIMARY) configured),
          map fst (filter (\<lambda>(_, p). pv_category p = SECONDARY) configured)))"

definition list_user_credentials :: "auth_registry \<Rightarrow> registered_credential list" where
  "list_user_credentials reg = concat (map (pv_credentials \<circ> snd) reg)"

definition policy_chains :: "auth_policies \<Rightarrow> string \<Rightarrow> auth_purpose \<Rightarrow> auth_chain list" where
  "policy_chains ps user_id purpose = (case ps (user_id, purpose) of None \<Rightarrow> [] | Some p \<Rightarrow> ap_chains p)"

definition user_requires_mfa :: "auth_policies \<Rightarrow> string \<Rightarrow> bool" where
  "user_requires_mfa ps user_id \<longleftrightarrow> policy_chains ps user_id MFA \<noteq> []"

text \<open>The guard of the comprehension that selects the chains a policy evaluation looks at.\<close>

definition eligible_chain ::
  "auth_registry \<Rightarrow> auth_purpose \<Rightarrow> string option \<Rightarrow> string option \<Rightarrow> auth_chain \<Rightarrow> bool" where
  "eligible_chain reg purpose method excluded_method chain \<longleftrightarrow> single_method chain \<and>
     (case method of None \<Rightarrow> True | Some m \<Rightarrow> as_method (hd chain) = m) \<and>
     excluded_method \<noteq> Some (as_method (hd chain)) \<and>
     (case od_get reg (as_method (hd chain)) of None \<Rightarrow> False
      | Some provider \<Rightarrow> purpose \<in> set (pv_supported_purposes provider))"

definition credentials_of_methods :: "auth_registry \<Rightarrow> string list \<Rightarrow> registered_credential list" where
  "credentials_of_methods reg methods =
     concat (map (\<lambda>m. case od_get reg m of None \<Rightarrow> [] | Some p \<Rightarrow> pv_credentials p) methods)"

definition evaluate_user_policy ::
  "auth_registry \<Rightarrow> auth_policies \<Rightarrow> string \<Rightarrow> auth_purpose \<Rightarrow> auth_evidence list \<Rightarrow> string \<Rightarrow> string option \<Rightarrow>
   string option \<Rightarrow> auth_policy_error + auth_policy_decision" where
  "evaluate_user_policy reg ps user_id purpose evidence attempt_id method excluded_method =
     and_then (parse_chains (policy_chains ps user_id purpose)) (\<lambda>chs.
       let eligible = filter (eligible_chain reg purpose method excluded_method) chs in
       if chs \<noteq> [] \<and> eligible = [] then Inr \<lparr>pd_satisfied = False, pd_next_steps = [], pd_purpose = None\<rparr>
       else (let methods = remdups (map (as_method \<circ> hd) eligible @ map ev_method evidence)
             in Inr (evaluate_auth_policy purpose eligible (credentials_of_methods reg methods) evidence
                       user_id attempt_id)))"

section \<open>Availability\<close>

definition chain_available :: "auth_registry \<Rightarrow> registered_credential list \<Rightarrow> auth_purpose \<Rightarrow> auth_chain \<Rightarrow> bool" where
  "chain_available reg credentials purpose chain \<longleftrightarrow> single_method chain \<and>
     (case od_get reg (as_method (hd chain)) of None \<Rightarrow> False
      | Some provider \<Rightarrow> purpose \<in> set (pv_supported_purposes provider)) \<and>
     \<not> (purpose = LOGIN \<and> as_method (hd chain) \<in> set LOGIN_DISALLOWED_METHODS) \<and>
     can_complete_auth_chain chain credentials"

definition available_methods ::
  "auth_registry \<Rightarrow> registered_credential list \<Rightarrow> auth_policies \<Rightarrow> string \<Rightarrow> auth_purpose \<Rightarrow>
   auth_policy_error + string list" where
  "available_methods reg credentials ps user_id purpose =
     and_then (parse_chains (policy_chains ps user_id purpose)) (\<lambda>chs.
       Inr (remdups (map (as_method \<circ> hd) (filter (chain_available reg credentials purpose) chs))))"

definition ensure_authentication_available ::
  "auth_registry \<Rightarrow> auth_policies \<Rightarrow> string \<Rightarrow> auth_policy_error + unit" where
  "ensure_authentication_available reg ps user_id =
     (let credentials = list_user_credentials reg in
      and_then (available_methods reg credentials ps user_id LOGIN) (\<lambda>login.
      and_then (available_methods reg credentials ps user_id MFA) (\<lambda>mfa.
      and_then (available_methods reg credentials ps user_id ESCALATION) (\<lambda>escalation.
      and_then (guard (list_ex (\<lambda>login_method. \<not> user_requires_mfa ps user_id \<or>
                         filter (\<lambda>m. m \<noteq> login_method) mfa \<noteq> []) login)
                  (AuthPolicyUnavailable ''login_unavailable'')) (\<lambda>_.
        guard (policy_chains ps user_id ESCALATION = [] \<or> escalation \<noteq> [])
          (AuthPolicyUnavailable ''escalation_unavailable''))))))"

section \<open>Replacing a policy\<close>

type_synonym chain_id = "(string \<times> string set) list"

definition chain_identity :: "auth_chain \<Rightarrow> chain_id" where
  "chain_identity chain = map (\<lambda>s. (as_method s, set (as_credential_ids s))) chain"

definition check_step ::
  "auth_registry \<Rightarrow> (string \<times> string) set \<Rightarrow> auth_purpose \<Rightarrow> auth_step \<Rightarrow> auth_policy_error + unit" where
  "check_step reg credentials purpose step =
     and_then (guard (\<not> (purpose = LOGIN \<and> as_method step \<in> set LOGIN_DISALLOWED_METHODS))
                 (MethodNotForLogin (as_method step))) (\<lambda>_.
     case od_get reg (as_method step) of None \<Rightarrow> Inl (UnknownMethod (as_method step))
     | Some provider \<Rightarrow>
         and_then (guard (purpose \<in> set (pv_supported_purposes provider)) (UnsupportedPurpose (as_method step))) (\<lambda>_.
         and_then (guard (distinct (as_credential_ids step)) DuplicateSelector) (\<lambda>_.
           guard (list_all (\<lambda>cid. (as_method step, cid) \<in> credentials) (as_credential_ids step))
             UnregisteredCredential)))"

fun check_chains ::
  "auth_registry \<Rightarrow> (string \<times> string) set \<Rightarrow> auth_purpose \<Rightarrow> chain_id list \<Rightarrow> auth_chain list \<Rightarrow>
   auth_policy_error + unit" where
  "check_chains reg credentials purpose seen [] = Inr ()"
| "check_chains reg credentials purpose seen (chain # rest) =
     and_then (guard (chain_identity chain \<notin> set seen) DuplicateChain) (\<lambda>_.
     and_then (guard (single_method chain) MixedMethods) (\<lambda>_.
     and_then (foldM (\<lambda>step _. check_step reg credentials purpose step) chain ()) (\<lambda>_.
       check_chains reg credentials purpose (chain_identity chain # seen) rest)))"

text \<open>The conditional update of one row: \<open>None\<close> when no row has the expected revision.\<close>

definition update_policy ::
  "auth_policies \<Rightarrow> string \<Rightarrow> auth_purpose \<Rightarrow> nat \<Rightarrow> auth_chain list \<Rightarrow> auth_policies option" where
  "update_policy ps user_id purpose revision data =
     (case ps (user_id, purpose) of None \<Rightarrow> None
      | Some p \<Rightarrow> if ap_revision p = revision
                  then Some (ps((user_id, purpose) \<mapsto> \<lparr>ap_revision = revision + 1, ap_chains = data\<rparr>)) else None)"

definition replace_auth_policy ::
  "auth_registry \<Rightarrow> auth_policies \<Rightarrow> string \<Rightarrow> auth_purpose \<Rightarrow> auth_chain list \<Rightarrow> int \<Rightarrow>
   auth_policy_error + auth_policies" where
  "replace_auth_policy reg ps user_id purpose chs expected_revision =
     and_then (guard (\<not> expected_revision < 0) NegativeRevision) (\<lambda>_.
     and_then (parse_chains chs) (\<lambda>parsed.
     let credentials = set (map (\<lambda>c. (rc_method c, rc_credential_id c)) (list_user_credentials reg)) in
     and_then (check_chains reg credentials purpose [] parsed) (\<lambda>_.
       if expected_revision = 0
       then (if ps (user_id, purpose) \<noteq> None then Inl AuthPolicyConflict
             else Inr (ps((user_id, purpose) \<mapsto> \<lparr>ap_revision = 1, ap_chains = parsed\<rparr>)))
       else (case update_policy ps user_id purpose (nat expected_revision) parsed of
               None \<Rightarrow> Inl AuthPolicyConflict | Some ps' \<Rightarrow> Inr ps'))))"

section \<open>Removing a credential\<close>

definition step_mentions :: "string \<Rightarrow> string \<Rightarrow> auth_step \<Rightarrow> bool" where
  "step_mentions method credential_id step \<longleftrightarrow>
     as_method step = method \<and> credential_id \<in> set (as_credential_ids step)"

text \<open>The inner loop over the steps; \<open>None\<close> is its \<open>break\<close>.\<close>

fun prune_chain :: "string \<Rightarrow> string \<Rightarrow> auth_chain \<Rightarrow> auth_chain option" where
  "prune_chain method credential_id [] = Some []"
| "prune_chain method credential_id (step # rest) =
     (let pool = filter (\<lambda>cid. (as_method step, cid) \<noteq> (method, credential_id)) (as_credential_ids step)
      in if pool = [] then None
         else map_option (\<lambda>pruned. \<lparr>as_method = as_method step, as_credential_ids = pool\<rparr> # pruned)
                (prune_chain method credential_id rest))"

fun retain_chains ::
  "string \<Rightarrow> string \<Rightarrow> registered_credential list \<Rightarrow> chain_id list \<Rightarrow> auth_chain list \<Rightarrow> auth_chain list" where
  "retain_chains method credential_id credentials seen [] = []"
| "retain_chains method credential_id credentials seen (chain # rest) =
     (case prune_chain method credential_id chain of
        None \<Rightarrow> retain_chains method credential_id credentials seen rest
      | Some pruned \<Rightarrow>
          if list_ex (step_mentions method credential_id) chain \<and> \<not> can_complete_auth_chain pruned credentials
          then retain_chains method credential_id credentials seen rest
          else if chain_identity pruned \<in> set seen
          then retain_chains method credential_id credentials seen rest
          else pruned # retain_chains method credential_id credentials (chain_identity pruned # seen) rest)"

definition prune_policy ::
  "(auth_policies \<Rightarrow> auth_policies) \<Rightarrow> registered_credential list \<Rightarrow> string \<Rightarrow> string \<Rightarrow> string \<Rightarrow> auth_purpose \<Rightarrow>
   auth_policies \<Rightarrow> auth_policy_error + auth_policies" where
  "prune_policy rival credentials user_id method credential_id purpose ps =
     (case ps (user_id, purpose) of None \<Rightarrow> Inr ps
      | Some policy \<Rightarrow>
          and_then (parse_chains (ap_chains policy)) (\<lambda>parsed.
            if \<not> list_ex (list_ex (step_mentions method credential_id)) parsed then Inr ps
            else (case update_policy (rival ps) user_id purpose (ap_revision policy)
                         (retain_chains method credential_id credentials [] parsed) of
                    None \<Rightarrow> Inl AuthPolicyConflict | Some ps' \<Rightarrow> Inr ps')))"

definition remove_credential_from_auth_policies ::
  "(auth_policies \<Rightarrow> auth_policies) \<Rightarrow> auth_registry \<Rightarrow> auth_policies \<Rightarrow> string \<Rightarrow> string \<Rightarrow> string \<Rightarrow>
   auth_policy_error + auth_policies" where
  "remove_credential_from_auth_policies rival reg ps user_id method credential_id =
     (let credentials = map (\<lambda>c. c\<lparr>rc_active := True\<rparr>)
            (filter (\<lambda>c. (rc_method c, rc_credential_id c) \<noteq> (method, credential_id)) (list_user_credentials reg))
      in foldM (prune_policy rival credentials user_id method credential_id) [LOGIN, MFA, ESCALATION] ps)"

section \<open>Available means achievable\<close>

text \<open>What the registry relies on: providers are registered under their own method and list
  credentials of that method only.\<close>

definition registry_ok :: "auth_registry \<Rightarrow> bool" where
  "registry_ok reg \<longleftrightarrow> od_wf reg \<and>
     list_all (\<lambda>(m, p). list_all (\<lambda>c. rc_method c = m) (pv_credentials p)) reg"

lemma active_credentials_method:
  "active_credentials creds (m, cid) = active_credentials (filter (\<lambda>c. rc_method c = m) creds) (m, cid)"
proof -
  have "map_of (rev (map (\<lambda>c. ((rc_method c, rc_credential_id c), c)) xs)) (m, cid) =
      map_of (rev (map (\<lambda>c. ((rc_method c, rc_credential_id c), c)) (filter (\<lambda>c. rc_method c = m) xs))) (m, cid)"
    for xs :: "registered_credential list"
    by (induction xs) (auto simp: map_add_def split: option.splits)
  from this[of "filter rc_active creds"] show ?thesis by (simp add: active_credentials_def conj_commute)
qed

lemma filter_method_registry:
  assumes "registry_ok reg"
  shows "filter (\<lambda>c. rc_method c = m) (list_user_credentials reg) =
    (case od_get reg m of None \<Rightarrow> [] | Some p \<Rightarrow> pv_credentials p)"
  using assms
proof (induction reg)
  case (Cons e reg)
  obtain m' p where e: "e = (m', p)" by (cases e)
  have ok: "registry_ok reg" and c: "list_all (\<lambda>c. rc_method c = m') (pv_credentials p)"
    and fresh: "m' \<notin> set (od_keys reg)"
    using Cons.prems e by (auto simp: registry_ok_def od_wf_def)
  have none: "od_get reg m' = None" using fresh by (simp add: map_of_eq_None_iff)
  have "filter (\<lambda>c. rc_method c = m) (pv_credentials p) = (if m = m' then pv_credentials p else [])"
    using c by (auto simp: list_all_iff filter_id_conv filter_empty_conv)
  then show ?case using Cons.IH[OF ok] none by (auto simp: list_user_credentials_def e)
qed (simp add: list_user_credentials_def)

lemma active_of_provider:
  assumes "registry_ok reg" and "od_get reg m = Some p"
  shows "active_credentials (list_user_credentials reg) (m, cid) = active_credentials (pv_credentials p) (m, cid)"
proof -
  have "list_all (\<lambda>c. rc_method c = m) (pv_credentials p)"
    using assms map_of_SomeD[OF assms(2)] by (auto simp: registry_ok_def list_all_iff)
  then have "filter (\<lambda>c. rc_method c = m) (pv_credentials p) = pv_credentials p"
    by (simp add: list_all_iff filter_id_conv)
  then show ?thesis
    using filter_method_registry[OF assms(1), of m] assms(2)
      active_credentials_method[of "list_user_credentials reg" m cid] by simp
qed

lemma good_choice_cong:
  assumes "\<And>cid. active (m, cid) = active' (m, cid)" and "\<And>s. s \<in> set chain \<Longrightarrow> as_method s = m"
  shows "good_choice active chain cids \<longleftrightarrow> good_choice active' chain cids"
proof -
  have "chosen_keys active chain cids = chosen_keys active' chain cids"
    unfolding chosen_keys_def
    by (rule map_cong[OF refl]) (use assms in \<open>auto dest: set_zip_leftD\<close>)
  moreover have "list_all2 (\<lambda>s cid. cid \<in> set (as_credential_ids s) \<and> active (as_method s, cid) \<noteq> None) chain cids \<longleftrightarrow>
      list_all2 (\<lambda>s cid. cid \<in> set (as_credential_ids s) \<and> active' (as_method s, cid) \<noteq> None) chain cids"
    by (rule list.rel_cong) (use assms in auto)
  ultimately show ?thesis by (simp add: good_choice_def)
qed

text \<open>Evidence for a choice of credentials, one event for each.\<close>

definition evidence_for :: "string \<Rightarrow> string \<Rightarrow> char \<Rightarrow> string \<Rightarrow> string list \<Rightarrow> auth_evidence list" where
  "evidence_for user_id attempt_id tag m cids =
     map (\<lambda>i. \<lparr>ev_user_id = user_id, ev_attempt_id = attempt_id, ev_event_id = tag # replicate i CHR ''x'',
               ev_method = m, ev_credential_id = cids ! i\<rparr>) [0..<length cids]"

lemma evidence_for_events:
  "map ev_event_id (evidence_for u a tag m cids) = map (\<lambda>i. tag # replicate i CHR ''x'') [0..<length cids]"
  by (simp add: evidence_for_def comp_def)

lemma distinct_events: "distinct (map ev_event_id (evidence_for u a tag m cids))"
proof -
  have "inj (\<lambda>i. tag # replicate i CHR ''x'')"
    by (rule injI) (metis length_replicate list.inject)
  then show ?thesis unfolding evidence_for_events by (simp add: distinct_map inj_on_def)
qed

lemma good_choice_completes:
  assumes g: "good_choice active chain cids" and m: "\<And>s. s \<in> set chain \<Longrightarrow> as_method s = m"
  shows "completes active chain (evidence_for u a tag m cids)"
    and "evidence_admissible active u a (evidence_for u a tag m cids)"
proof -
  let ?evs = "evidence_for u a tag m cids"
  have len: "length cids = length chain" using g by (auto simp: good_choice_def dest: list_all2_lengthD)
  have nth: "cids ! i \<in> set (as_credential_ids (chain ! i))" "active (m, cids ! i) \<noteq> None" if "i < length chain" for i
    using g that m[of "chain ! i"] by (auto simp: good_choice_def list_all2_conv_all_nth)
  have fits: "list_all2 fits_step ?evs chain"
    using nth len m by (auto simp: list_all2_conv_all_nth evidence_for_def fits_step_def)
  have "proved_keys active ?evs = chosen_keys active chain cids"
  proof (cases "m = ''publickey''")
    case True
    have "filter (\<lambda>(s, cid). as_method s = ''publickey'') (zip chain cids) = zip chain cids"
      using m True by (auto simp: filter_id_conv dest: set_zip_leftD)
    moreover have "filter (\<lambda>e. ev_method e = ''publickey'') ?evs = ?evs"
      using True by (simp add: evidence_for_def filter_id_conv)
    ultimately show ?thesis
      unfolding proved_keys_def chosen_keys_def using len m True
      by (simp only:) (rule nth_equalityI, auto simp: evidence_for_def)
  next
    case False
    have "filter (\<lambda>(s, cid). as_method s = ''publickey'') (zip chain cids) = []"
      using m False by (auto simp: filter_empty_conv dest: set_zip_leftD)
    moreover have "filter (\<lambda>e. ev_method e = ''publickey'') ?evs = []"
      using False by (simp add: evidence_for_def)
    ultimately show ?thesis by (simp add: proved_keys_def chosen_keys_def)
  qed
  then have "distinct_keys active ?evs" using g by (simp add: distinct_keys_def good_choice_def)
  then show "completes active chain ?evs" using fits unfolding completes_def by blast
  show "evidence_admissible active u a ?evs"
    using distinct_events[of u a tag m cids] nth len
    by (auto simp: evidence_admissible_def list_all_iff) (auto simp: evidence_for_def)
qed

lemma distinct_set_singleton: "distinct xs \<Longrightarrow> set xs = {x} \<Longrightarrow> xs = [x]"
  using distinct_card[of xs] by (cases xs; cases "tl xs") auto

lemma chain_available_satisfiable:
  assumes ok: "registry_ok reg" and p: "parse_chains (policy_chains ps u purpose) = Inr chs" and c: "chain \<in> set chs"
    and av: "chain_available reg (list_user_credentials reg) purpose chain"
    and ex: "excluded \<noteq> Some (as_method (hd chain))"
  shows "\<exists>cids d. cids \<noteq> [] \<and> evaluate_user_policy reg ps u purpose (evidence_for u a tag (as_method (hd chain)) cids) a
      (Some (as_method (hd chain))) excluded = Inr d \<and> pd_satisfied d \<and>
      evidence_admissible (active_credentials (list_user_credentials reg)) u a
        (evidence_for u a tag (as_method (hd chain)) cids)"
proof -
  let ?m = "as_method (hd chain)" and ?all = "active_credentials (list_user_credentials reg)"
  have s: "single_method chain" and cc: "can_complete_auth_chain chain (list_user_credentials reg)"
    using av by (simp_all add: chain_available_def)
  have ne: "chain \<noteq> []" using s by auto
  have meth: "as_method st = ?m" if "st \<in> set chain" for st
    using single_method_nth[OF s] that by (metis in_set_conv_nth)
  obtain pv where pv: "od_get reg ?m = Some pv" "purpose \<in> set (pv_supported_purposes pv)"
    using av by (auto simp: chain_available_def split: option.splits)
  obtain cids where g: "good_choice ?all chain cids" using can_complete_iff[OF s] cc by blast
  let ?act = "active_credentials (pv_credentials pv)" and ?evs = "evidence_for u a tag ?m cids"
  have g': "good_choice ?act chain cids"
    using g good_choice_cong[of ?all ?m ?act chain cids] active_of_provider[OF ok pv(1)] meth by blast
  have cids: "cids \<noteq> []" using g ne by (auto simp: good_choice_def)
  have evm: "set (map ev_method ?evs) \<subseteq> {?m}" by (auto simp: evidence_for_def)
  let ?el = "filter (eligible_chain reg purpose (Some ?m) excluded) chs"
  have el: "chain \<in> set ?el" using c s pv ex by (simp add: eligible_chain_def)
  then have elne: "?el \<noteq> []" by (auto simp: filter_empty_conv)
  have elm: "set (map (as_method \<circ> hd) ?el) = {?m}" using el by (auto simp: eligible_chain_def)
  have "set (remdups (map (as_method \<circ> hd) ?el @ map ev_method ?evs)) = {?m}"
    using evm elm by (simp only: set_remdups set_append) blast
  then have ms: "remdups (map (as_method \<circ> hd) ?el @ map ev_method ?evs) = [?m]"
    using distinct_remdups[of "map (as_method \<circ> hd) ?el @ map ev_method ?evs"] by (metis distinct_set_singleton)
  have usable: "chain_usable purpose ?act chain"
  proof -
    have "list_all (\<lambda>st. list_ex (\<lambda>cid. ?act (as_method st, cid) \<noteq> None) (as_credential_ids st)) chain"
      using good_choice_pools[OF g'] by (auto simp: list_all_iff list_ex_iff step_pool_empty_iff)
    moreover have "\<not> (purpose = LOGIN \<and> list_ex (\<lambda>st. as_method st \<in> set LOGIN_DISALLOWED_METHODS) chain)"
      using av meth by (auto simp: chain_available_def list_ex_iff)
    ultimately show ?thesis using s by (simp add: chain_usable_def)
  qed
  let ?d = "evaluate_auth_policy purpose ?el (credentials_of_methods reg [?m]) ?evs u a"
  have "credentials_of_methods reg [?m] = pv_credentials pv" by (simp add: credentials_of_methods_def pv)
  then have "pd_satisfied ?d"
    using good_choice_completes[OF g' meth] usable el filter_empty_conv[of "eligible_chain reg purpose (Some ?m) excluded" chs]
    by (auto simp: evaluate_auth_policy_def Let_def evaluate_chains_satisfied list_ex_iff)
  moreover have "evaluate_user_policy reg ps u purpose ?evs a (Some ?m) excluded = Inr ?d"
    using p ms elne by (simp add: evaluate_user_policy_def Let_def)
  moreover have "evidence_admissible ?all u a ?evs" by (rule good_choice_completes(2)[OF g meth])
  ultimately show ?thesis using cids by blast
qed

section \<open>Pruning never widens a policy\<close>

definition narrows :: "auth_chain \<Rightarrow> auth_chain \<Rightarrow> bool" where
  "narrows chain' chain \<longleftrightarrow> list_all2 (\<lambda>s' s. as_method s' = as_method s \<and>
     set (as_credential_ids s') \<subseteq> set (as_credential_ids s)) chain' chain"

lemma prune_chain_narrows:
  "prune_chain m c chain = Some chain' \<Longrightarrow> narrows chain' chain \<and> \<not> list_ex (step_mentions m c) chain'"
  by (induction m c chain arbitrary: chain' rule: prune_chain.induct)
    (auto simp: narrows_def Let_def step_mentions_def split: if_splits)

lemma narrows_methods: "narrows chain' chain \<Longrightarrow> map as_method chain' = map as_method chain"
  unfolding narrows_def by (induction rule: list_all2_induct) simp_all

lemma single_method_map:
  "single_method chain \<longleftrightarrow> chain \<noteq> [] \<and> (\<forall>m \<in> set (map as_method chain). m = hd (map as_method chain))"
  by (cases chain) (auto simp: list_all_iff)

lemma narrows_single: "narrows chain' chain \<Longrightarrow> single_method chain' = single_method chain"
proof -
  assume n: "narrows chain' chain"
  note m = narrows_methods[OF n]
  have "chain' = [] \<longleftrightarrow> chain = []" using arg_cong[OF m, of length] by auto
  then show ?thesis unfolding single_method_map m by simp
qed

lemma disallowed_map:
  "list_ex (\<lambda>s. as_method s \<in> M) chain \<longleftrightarrow> (\<exists>m \<in> set (map as_method chain). m \<in> M)"
  by (auto simp: list_ex_iff)

lemma narrows_pools:
  "narrows chain' chain \<Longrightarrow>
   list_all (\<lambda>s. list_ex (\<lambda>cid. active (as_method s, cid) \<noteq> None) (as_credential_ids s)) chain' \<Longrightarrow>
   list_all (\<lambda>s. list_ex (\<lambda>cid. active (as_method s, cid) \<noteq> None) (as_credential_ids s)) chain"
  unfolding narrows_def by (induction rule: list_all2_induct) (auto simp: list_ex_iff)

lemma narrows_usable: "narrows chain' chain \<Longrightarrow> chain_usable purpose active chain' \<Longrightarrow> chain_usable purpose active chain"
  unfolding chain_usable_def disallowed_map
  using narrows_pools[of chain' chain active] by (simp only: narrows_methods narrows_single) blast

lemma narrows_completes:
  assumes "narrows chain' chain" and "completes active chain' es"
  shows "completes active chain es"
proof -
  obtain evs where e: "subseq evs es" "list_all2 fits_step evs chain'" "distinct_keys active evs"
    using assms(2) by (auto simp: completes_def)
  have "list_all2 fits_step evs chain"
    by (rule list_all2_trans[OF _ e(2) assms(1)[unfolded narrows_def]]) (auto simp: fits_step_def)
  then show ?thesis using e unfolding completes_def by blast
qed

lemma retain_chains_pruned:
  "chain' \<in> set (retain_chains m c creds seen chs) \<Longrightarrow> \<exists>chain \<in> set chs. prune_chain m c chain = Some chain'"
proof (induction chs arbitrary: seen)
  case (Cons chain rest)
  show ?case
  proof (cases "prune_chain m c chain")
    case None
    then show ?thesis using Cons by simp
  next
    case (Some pruned)
    then have "chain' = pruned \<or> (\<exists>seen'. chain' \<in> set (retain_chains m c creds seen' rest))"
      using Cons.prems by (simp split: if_splits) blast+
    then show ?thesis using Cons.IH Some by auto
  qed
qed simp

lemma retain_chains_narrow:
  "chain' \<in> set (retain_chains m c creds seen chs) \<Longrightarrow>
   \<exists>chain \<in> set chs. narrows chain' chain \<and> \<not> list_ex (step_mentions m c) chain'"
  using retain_chains_pruned prune_chain_narrows by blast

text \<open>What the pruning of one purpose leaves.\<close>

definition narrowed_policy :: "string \<Rightarrow> string \<Rightarrow> auth_chain list \<Rightarrow> auth_chain list \<Rightarrow> bool" where
  "narrowed_policy m c chs' chs \<longleftrightarrow>
     (\<forall>chain' \<in> set chs'. (\<exists>chain \<in> set chs. narrows chain' chain) \<and> \<not> list_ex (step_mentions m c) chain')"

lemma narrows_refl: "narrows chain chain"
  by (simp add: narrows_def list_all2_conv_all_nth)

lemma prune_policy_effect:
  assumes "prune_policy id creds u m c purpose ps = Inr ps'"
  shows "narrowed_policy m c (policy_chains ps' u purpose) (policy_chains ps u purpose) \<and>
    (\<forall>k. k \<noteq> (u, purpose) \<longrightarrow> ps' k = ps k)"
proof (cases "ps (u, purpose)")
  case None
  then show ?thesis using assms by (simp add: prune_policy_def narrowed_policy_def policy_chains_def)
next
  case (Some pol)
  obtain chs where p: "parse_chains (ap_chains pol) = Inr chs"
    using assms Some by (auto simp: prune_policy_def and_then_Inr)
  then have chs: "chs = ap_chains pol" by (auto simp: parse_chains_def split: if_splits)
  show ?thesis
  proof (cases "list_ex (list_ex (step_mentions m c)) chs")
    case False
    then have "ps' = ps" using assms Some p by (simp add: prune_policy_def)
    then show ?thesis
      using False Some chs narrows_refl by (auto simp: narrowed_policy_def policy_chains_def list_ex_iff)
  next
    case True
    then have "ps' = ps((u, purpose) \<mapsto> \<lparr>ap_revision = ap_revision pol + 1, ap_chains = retain_chains m c creds [] chs\<rparr>)"
      using assms Some p by (simp add: prune_policy_def update_policy_def)
    then show ?thesis
      using retain_chains_narrow[of _ m c creds "[]" chs] Some chs
      by (auto simp: narrowed_policy_def policy_chains_def)
  qed
qed

lemma remove_credential_effect:
  assumes "remove_credential_from_auth_policies id reg ps u m c = Inr ps'"
  shows "narrowed_policy m c (policy_chains ps' u purpose) (policy_chains ps u purpose)"
    and "\<And>u' q. u' \<noteq> u \<Longrightarrow> ps' (u', q) = ps (u', q)"
proof -
  obtain creds ps1 ps2 where s: "prune_policy id creds u m c LOGIN ps = Inr ps1"
    "prune_policy id creds u m c MFA ps1 = Inr ps2" "prune_policy id creds u m c ESCALATION ps2 = Inr ps'"
    using assms by (auto simp: remove_credential_from_auth_policies_def Let_def and_then_Inr)
  note e = prune_policy_effect[OF s(1)] prune_policy_effect[OF s(2)] prune_policy_effect[OF s(3)]
  show "narrowed_policy m c (policy_chains ps' u purpose) (policy_chains ps u purpose)"
    using e by (cases purpose) (simp_all add: policy_chains_def)
  show "ps' (u', q) = ps (u', q)" if "u' \<noteq> u" for u' q using e that by simp
qed

text \<open>Removing a credential never weakens a policy.  Afterwards no chain of the user mentions the
  credential, other users' policies are untouched, and whatever evidence satisfies the pruned
  chains of a purpose would have satisfied the chains before, whichever credentials are active;
  only a purpose left without any chain falls back to its default.\<close>

lemma remove_credential_never_widens:
  assumes "remove_credential_from_auth_policies id reg ps u m c = Inr ps'"
  shows "list_all (\<lambda>chain. \<not> list_ex (step_mentions m c) chain) (policy_chains ps' u purpose) \<and>
    (u' \<noteq> u \<longrightarrow> ps' (u', q) = ps (u', q)) \<and>
    (policy_chains ps' u purpose \<noteq> [] \<and>
     pd_satisfied (evaluate_auth_policy purpose (policy_chains ps' u purpose) creds evidence u a) \<longrightarrow>
     pd_satisfied (evaluate_auth_policy purpose (policy_chains ps u purpose) creds evidence u a))"
proof -
  note e = remove_credential_effect[OF assms]
  have "pd_satisfied (evaluate_auth_policy purpose (policy_chains ps u purpose) creds evidence u a)"
    if ne: "policy_chains ps' u purpose \<noteq> []"
      and sat: "pd_satisfied (evaluate_auth_policy purpose (policy_chains ps' u purpose) creds evidence u a)"
  proof -
    let ?act = "active_credentials creds"
    obtain chain' where c': "chain' \<in> set (policy_chains ps' u purpose)" "chain_usable purpose ?act chain'"
        "completes ?act chain' evidence" and adm: "evidence_admissible ?act u a evidence"
      using sat ne by (auto simp: evaluate_auth_policy_def Let_def evaluate_chains_satisfied list_ex_iff split: if_splits)
    obtain chain where c: "chain \<in> set (policy_chains ps u purpose)" "narrows chain' chain"
      using e(1)[of purpose] c'(1) by (auto simp: narrowed_policy_def)
    then have "list_ex (\<lambda>ch. chain_usable purpose ?act ch \<and> completes ?act ch evidence) (policy_chains ps u purpose)"
      using narrows_usable[OF c(2) c'(2)] narrows_completes[OF c(2) c'(3)] by (auto simp: list_ex_iff)
    then show ?thesis using adm c by (auto simp: evaluate_auth_policy_def Let_def evaluate_chains_satisfied)
  qed
  then show ?thesis using e by (auto simp: narrowed_policy_def list_all_iff)
qed

definition sample_key :: "string \<Rightarrow> registered_credential" where
  "sample_key k = \<lparr>rc_method = ''publickey'', rc_credential_id = k, rc_active = True, rc_label = None, rc_key_identity = Some k\<rparr>"

definition sample_registry :: auth_registry where
  "sample_registry = [(''publickey'', \<lparr>pv_method_id = ''publickey'', pv_category = PRIMARY,
     pv_supported_purposes = [LOGIN, MFA, ESCALATION], pv_credentials = [sample_key ''a'', sample_key ''b'']\<rparr>)]"

definition sample_policies :: auth_policies where
  "sample_policies = [(''u'', LOGIN) \<mapsto> \<lparr>ap_revision = 1, ap_chains =
     [[\<lparr>as_method = ''publickey'', as_credential_ids = [''a'', ''b'']\<rparr>]]\<rparr>]"

text \<open>An offered step can lead to a dead end.  For a chain whose first step accepts either of two keys and
  whose second accepts only one of them, the availability check holds and the first offer names
  both keys; after the key of the second step has been accepted first, nothing more is offered and
  the attempt cannot go on, although the other order would have completed the chain.\<close>

lemma offered_key_can_dead_end:
  "let keys = [sample_key ''a'', sample_key ''b''];
       chain = [\<lparr>as_method = ''publickey'', as_credential_ids = [''a'', ''b'']\<rparr>,
                \<lparr>as_method = ''publickey'', as_credential_ids = [''a'']\<rparr>];
       event = (\<lambda>i k. \<lparr>ev_user_id = ''u'', ev_attempt_id = ''t'', ev_event_id = i, ev_method = ''publickey'', ev_credential_id = k\<rparr>)
   in can_complete_auth_chain chain keys \<and>
      pd_next_steps (evaluate_auth_policy LOGIN [chain] keys [] ''u'' ''t'') = [hd chain] \<and>
      evaluate_auth_policy LOGIN [chain] keys [event ''1'' ''a''] ''u'' ''t''
        = \<lparr>pd_satisfied = False, pd_next_steps = [], pd_purpose = None\<rparr> \<and>
      pd_satisfied (evaluate_auth_policy LOGIN [chain] keys [event ''1'' ''b'', event ''2'' ''a''] ''u'' ''t'')"
  by (simp add: Let_def sample_key_def active_credentials_def step_pool_def map_filter_simps pool_at_def
      evaluate_auth_policy_def evidence_admissible_def chain_usable_def LOGIN_DISALLOWED_METHODS_def advance_state_def
      permitted_ids_def insert_commute)

end
