(* ===== verification/AuthFlow.thy ===== *)
theory AuthFlow
  imports AuthCommands Identity Caching "HOL-Library.Char_ord" "HOL-Library.List_Lexorder"
begin

text \<open>
  One authentication attempt from its first proof to the issued session:
  \<open>src/include/domains/identity/auth/flows.py\<close>, \<open>sessions.py\<close>, \<open>auth/password_state.py\<close>, and the
  request functions of \<open>handlers/auth.py\<close> that drive them.

  SHA-256 is a parameter \<open>sha\<close>.  A token is the record of its claims; signing it is left to the
  JWT library.  The dialog a provider holds with the client is a parameter \<open>dialog\<close> of the request
  function: whatever it does, the request is decided by the evidence in the attempt afterwards.
  Reports to the login guard are a list of events.  The clock is read once for each call.
\<close>

section \<open>Accounts, contexts and tokens\<close>

record account =
  ac_id :: string
  ac_username :: string
  ac_secret_key :: string
  ac_status :: user_status
  ac_status_reason :: "string option"
  ac_last_login :: "timestamp option"

record auth_context =
  ax_attempt_id :: string
  ax_login_method :: "string option"
  ax_signing_key_digest :: string
  ax_login_revision :: nat
  ax_mfa_revision :: nat
  ax_escalation_revision :: nat
  ax_evidence :: "auth_evidence list"

record password_assessment =
  pa_credential_id :: string
  pa_modified_at :: timestamp
  pa_policy_digest :: string
  pa_rules_satisfied :: bool

text \<open>Token purposes are flags.\<close>

datatype token_flag = AUTH | POST_AUTH | GENERAL | ESCALATED

record token =
  tk_sub :: string
  tk_purpose :: "token_flag set"
  tk_exp :: timestamp
  tk_nbf :: timestamp
  tk_iat :: timestamp
  tk_auth_context :: "auth_context option"

definition DEFAULT_TOKEN_EXPIRY_SECONDS :: timestamp where
  "DEFAULT_TOKEN_EXPIRY_SECONDS = 3600"

definition ESCALATION_TOKEN_EXPIRY_SECONDS :: timestamp where
  "ESCALATION_TOKEN_EXPIRY_SECONDS = 300"

definition token_new :: "string \<Rightarrow> timestamp \<Rightarrow> token_flag set \<Rightarrow> auth_context option \<Rightarrow> timestamp \<Rightarrow> token" where
  "token_new user_id duration purpose ctx now =
     \<lparr>tk_sub = user_id, tk_purpose = purpose, tk_exp = now + duration, tk_nbf = now, tk_iat = now,
      tk_auth_context = ctx\<rparr>"

definition has_purpose :: "token \<Rightarrow> token_flag set \<Rightarrow> bool" where
  "has_purpose tok purpose \<longleftrightarrow> purpose \<subseteq> tk_purpose tok"

definition create_token_after_authentication :: "timestamp \<Rightarrow> account \<Rightarrow> token \<times> account" where
  "create_token_after_authentication now user =
     (token_new (ac_id user) DEFAULT_TOKEN_EXPIRY_SECONDS {GENERAL} None now, user\<lparr>ac_last_login := Some now\<rparr>)"

datatype auth_flow_error =
    InvalidAuthenticationAttempt string
  | AuthenticationFailure nat
  | PolicyError auth_policy_error

definition lift_policy :: "auth_policy_error + 'a \<Rightarrow> auth_flow_error + 'a" where
  "lift_policy r = (case r of Inl e \<Rightarrow> Inl (PolicyError e) | Inr x \<Rightarrow> Inr x)"

section \<open>Contexts\<close>

definition policy_revision :: "auth_policies \<Rightarrow> string \<Rightarrow> auth_purpose \<Rightarrow> nat" where
  "policy_revision ps user_id purpose = (case ps (user_id, purpose) of None \<Rightarrow> 0 | Some p \<Rightarrow> ap_revision p)"

definition create_authentication_context ::
  "(string \<Rightarrow> string) \<Rightarrow> string \<Rightarrow> auth_policies \<Rightarrow> account \<Rightarrow> auth_purpose \<Rightarrow> string \<Rightarrow> auth_context" where
  "create_authentication_context sha attempt_id ps user purpose method =
     (let rev = (\<lambda>q. if (q = ESCALATION) = (purpose = ESCALATION) then policy_revision ps (ac_id user) q else 0)
      in \<lparr>ax_attempt_id = attempt_id, ax_login_method = (if purpose = LOGIN then Some method else None),
          ax_signing_key_digest = sha (ac_secret_key user), ax_login_revision = rev LOGIN, ax_mfa_revision = rev MFA,
          ax_escalation_revision = rev ESCALATION, ax_evidence = []\<rparr>)"

fun context_revision :: "auth_context \<Rightarrow> auth_purpose \<Rightarrow> nat" where
  "context_revision ctx LOGIN = ax_login_revision ctx"
| "context_revision ctx MFA = ax_mfa_revision ctx"
| "context_revision ctx ESCALATION = ax_escalation_revision ctx"

definition validate_authentication_context ::
  "(string \<Rightarrow> string) \<Rightarrow> auth_registry \<Rightarrow> auth_policies \<Rightarrow> account \<Rightarrow> auth_context \<Rightarrow> auth_purpose list \<Rightarrow>
   auth_flow_error + unit" where
  "validate_authentication_context sha reg ps user ctx purposes =
     and_then (guard (ax_signing_key_digest ctx = sha (ac_secret_key user)) (InvalidAuthenticationAttempt ''credentials'')) (\<lambda>_.
     and_then (guard (list_all (\<lambda>q. policy_revision ps (ac_id user) q = context_revision ctx q) purposes)
                 (InvalidAuthenticationAttempt ''policy'')) (\<lambda>_.
       let listed = credentials_of_methods reg (remdups (map ev_method (ax_evidence ctx)));
           active = set (map (\<lambda>c. (rc_method c, rc_credential_id c)) (filter rc_active listed))
       in guard (distinct (map ev_event_id (ax_evidence ctx)) \<and>
                 list_all (\<lambda>e. ev_user_id e = ac_id user \<and> ev_attempt_id e = ax_attempt_id ctx \<and>
                               (ev_method e, ev_credential_id e) \<in> active) (ax_evidence ctx))
            (InvalidAuthenticationAttempt ''credentials'')))"

definition get_login_progress ::
  "(string \<Rightarrow> string) \<Rightarrow> auth_registry \<Rightarrow> auth_policies \<Rightarrow> account \<Rightarrow> auth_context \<Rightarrow> auth_flow_error + auth_policy_decision" where
  "get_login_progress sha reg ps user ctx =
     and_then (validate_authentication_context sha reg ps user ctx [LOGIN, MFA]) (\<lambda>_.
     case ax_login_method ctx of None \<Rightarrow> Inl (InvalidAuthenticationAttempt ''login method'')
     | Some m \<Rightarrow>
         and_then (lift_policy (evaluate_user_policy reg ps (ac_id user) LOGIN
                     (filter (\<lambda>e. ev_method e = m) (ax_evidence ctx)) (ax_attempt_id ctx) (Some m) None)) (\<lambda>login.
         if \<not> pd_satisfied login then Inr (login\<lparr>pd_purpose := Some LOGIN\<rparr>)
         else (let mfa_evidence = filter (\<lambda>e. ev_method e \<noteq> m) (ax_evidence ctx) in
           if \<not> list_all (\<lambda>e. ev_method e = ev_method (hd mfa_evidence)) mfa_evidence
           then Inl (InvalidAuthenticationAttempt ''mfa methods'')
           else and_then (lift_policy (evaluate_user_policy reg ps (ac_id user) MFA mfa_evidence (ax_attempt_id ctx)
                            (if mfa_evidence = [] then None else Some (ev_method (hd mfa_evidence))) (Some m))) (\<lambda>mfa.
                  Inr (mfa\<lparr>pd_purpose := Some MFA\<rparr>)))))"

section \<open>Attempts\<close>

record auth_attempt =
  at_method :: string
  at_purpose :: auth_purpose
  at_ip :: string
  at_user_id :: "string option"
  at_username :: "string option"
  at_context :: "auth_context option"
  at_expires_at :: "timestamp option"
  at_password_assessment :: "password_assessment option"

datatype guard_report = ReportFailure string string string | ReportSuccess string string string bool

definition check_expiry :: "timestamp \<Rightarrow> auth_attempt \<Rightarrow> auth_flow_error + unit" where
  "check_expiry now att =
     guard (case at_expires_at att of None \<Rightarrow> True | Some e \<Rightarrow> now < e) (InvalidAuthenticationAttempt ''expired'')"

definition bind_attempt ::
  "(string \<Rightarrow> string) \<Rightarrow> string \<Rightarrow> timestamp \<Rightarrow> auth_policies \<Rightarrow> account \<Rightarrow> auth_attempt \<Rightarrow> auth_flow_error + auth_attempt" where
  "bind_attempt sha attempt_id now ps user att =
     (let att = att\<lparr>at_user_id := Some (ac_id user), at_username := Some (ac_username user)\<rparr> in
      and_then (check_expiry now att) (\<lambda>_.
      if at_context att \<noteq> None then Inr att
      else if at_purpose att = MFA then Inl (InvalidAuthenticationAttempt ''context'')
      else Inr (att\<lparr>at_context := Some (create_authentication_context sha attempt_id ps user (at_purpose att) (at_method att))\<rparr>)))"

text \<open>The source asserts that the attempt is bound.\<close>

definition attempt_progress ::
  "(string \<Rightarrow> string) \<Rightarrow> auth_registry \<Rightarrow> timestamp \<Rightarrow> auth_policies \<Rightarrow> account \<Rightarrow> auth_attempt \<Rightarrow>
   auth_flow_error + auth_policy_decision" where
  "attempt_progress sha reg now ps user att =
     and_then (check_expiry now att) (\<lambda>_.
     case at_context att of None \<Rightarrow> Inl (InvalidAuthenticationAttempt ''assertion'')
     | Some ctx \<Rightarrow>
         if at_purpose att = ESCALATION
         then and_then (validate_authentication_context sha reg ps user ctx [ESCALATION]) (\<lambda>_.
                lift_policy (evaluate_user_policy reg ps (ac_id user) (at_purpose att) (ax_evidence ctx)
                               (ax_attempt_id ctx) (Some (at_method att)) None))
         else and_then (get_login_progress sha reg ps user ctx) (\<lambda>progress.
                if at_purpose att = MFA \<and> Some (at_method att) = ax_login_method ctx
                then Inl (AuthenticationFailure 403) else Inr progress))"

definition permitted_credentials ::
  "(string \<Rightarrow> string) \<Rightarrow> auth_registry \<Rightarrow> timestamp \<Rightarrow> auth_policies \<Rightarrow> account \<Rightarrow> auth_attempt \<Rightarrow>
   auth_flow_error + string list" where
  "permitted_credentials sha reg now ps user att =
     and_then (attempt_progress sha reg now ps user att) (\<lambda>progress.
       if pd_satisfied progress \<or> (pd_purpose progress \<noteq> None \<and> pd_purpose progress \<noteq> Some (at_purpose att))
       then Inl (AuthenticationFailure 403)
       else Inr (concat (map as_credential_ids (filter (\<lambda>s. as_method s = at_method att) (pd_next_steps progress)))))"

record verification_result =
  vr_success :: bool
  vr_credential_id :: "string option"
  vr_password_assessment :: "password_assessment option"

text \<open>\<open>accept\<close>: the reports to the login guard, and the decision with the attempt that now holds the
  new evidence.\<close>

definition accept_evidence ::
  "(string \<Rightarrow> string) \<Rightarrow> auth_registry \<Rightarrow> string \<Rightarrow> timestamp \<Rightarrow> auth_policies \<Rightarrow> account \<Rightarrow> string \<Rightarrow> verification_result \<Rightarrow>
   auth_attempt \<Rightarrow> guard_report list \<times> (auth_flow_error + (auth_policy_decision \<times> auth_attempt))" where
  "accept_evidence sha reg event_id now ps user throttle_factor verified att =
     (let failure = ([ReportFailure (at_ip att) (ac_username user) throttle_factor], Inl (AuthenticationFailure 401)) in
      if \<not> vr_success verified then failure
      else (case permitted_credentials sha reg now ps user att of
         Inl e \<Rightarrow> ([], Inl e)
       | Inr permitted \<Rightarrow>
         (case vr_credential_id verified of None \<Rightarrow> failure
          | Some cid \<Rightarrow>
            if cid \<notin> set permitted then failure
            else if ac_status user \<noteq> ACTIVE then ([], Inl (AuthenticationFailure 4003))
            else (case at_context att of None \<Rightarrow> ([], Inl (InvalidAuthenticationAttempt ''assertion''))
              | Some ctx \<Rightarrow>
                (let event = \<lparr>ev_user_id = ac_id user, ev_attempt_id = ax_attempt_id ctx, ev_event_id = event_id,
                              ev_method = at_method att, ev_credential_id = cid\<rparr>;
                     att1 = att\<lparr>at_context := Some (ctx\<lparr>ax_evidence := ax_evidence ctx @ [event]\<rparr>)\<rparr>;
                     att2 = (case vr_password_assessment verified of None \<Rightarrow> att1
                             | Some a \<Rightarrow> att1\<lparr>at_password_assessment := Some a\<rparr>)
                 in case attempt_progress sha reg now ps user att2 of
                      Inl e \<Rightarrow> ([], Inl e)
                    | Inr progress \<Rightarrow> ([ReportSuccess (at_ip att) (ac_username user) throttle_factor False],
                                      Inr (progress, att2)))))))"

section \<open>Sessions\<close>

record password_credential =
  pc_credential_id :: string
  pc_last_modified :: timestamp

text \<open>\<open>pw_policy_digest\<close> is \<open>password_policy_digest()\<close> of the configuration in force.\<close>

record password_config =
  pw_policy_digest :: string
  pw_force_expiration :: bool
  pw_expire_after_days :: int

definition assessment_key :: "string \<Rightarrow> string" where
  "assessment_key attempt_id = ''auth:password:'' @ attempt_id"

definition password_change_requirement ::
  "password_config \<Rightarrow> password_credential option \<Rightarrow> timestamp \<Rightarrow> auth_context \<Rightarrow> password_assessment option \<Rightarrow>
   password_assessment mem_cache \<Rightarrow> (auth_flow_error + nat option) \<times> password_assessment mem_cache" where
  "password_change_requirement cfg credential now ctx assessment cache =
     (let password_ids = map ev_credential_id (filter (\<lambda>e. ev_method e = ''password'') (ax_evidence ctx)) in
      if password_ids = [] then (Inr None, cache)
      else (let (found, cache1) = (case assessment of Some a \<Rightarrow> (Some a, cache)
                                   | None \<Rightarrow> mc_get (assessment_key (ax_attempt_id ctx)) now cache)
            in case found of None \<Rightarrow> (Inl (InvalidAuthenticationAttempt ''state expired''), cache1)
               | Some a \<Rightarrow>
                 (case credential of None \<Rightarrow> (Inl (InvalidAuthenticationAttempt ''password changed''), cache1)
                  | Some c \<Rightarrow>
                    if pa_credential_id a \<notin> set password_ids \<or> pc_credential_id c \<noteq> pa_credential_id a \<or>
                       pc_last_modified c \<noteq> pa_modified_at a \<or> pa_policy_digest a \<noteq> pw_policy_digest cfg
                    then (Inl (InvalidAuthenticationAttempt ''password changed''), cache1)
                    else if \<not> pa_rules_satisfied a then (Inr (Some 4001), cache1)
                    else if pc_last_modified c = 0 \<or>
                            (pw_force_expiration cfg \<and> now - pc_last_modified c > 86400 * of_int (pw_expire_after_days cfg))
                    then (Inr (Some 4002), cache1)
                    else (Inr None, cache1))))"

datatype login_outcome =
    SessionIssued token
  | PasswordChangeRequired nat token
  | MfaPending "string list" token
  | Refused nat

definition finish_login_attempt ::
  "(string \<Rightarrow> string) \<Rightarrow> auth_registry \<Rightarrow> password_config \<Rightarrow> password_credential option \<Rightarrow> timestamp \<Rightarrow> auth_policies \<Rightarrow>
   account \<Rightarrow> auth_context \<Rightarrow> timestamp option \<Rightarrow> password_assessment option \<Rightarrow> password_assessment mem_cache \<Rightarrow>
   (auth_flow_error + login_outcome) \<times> account \<times> password_assessment mem_cache" where
  "finish_login_attempt sha reg cfg credential now ps user ctx expires_at assessment cache =
     (case get_login_progress sha reg ps user ctx of Inl e \<Rightarrow> (Inl e, user, cache)
      | Inr progress \<Rightarrow>
        if ac_status user \<noteq> ACTIVE then (Inr (Refused 4003), user, cache)
        else if pd_purpose progress = Some LOGIN then (Inr (Refused 403), user, cache)
        else (let duration = (case expires_at of None \<Rightarrow> DEFAULT_TOKEN_EXPIRY_SECONDS / 2
                              | Some e \<Rightarrow> min (DEFAULT_TOKEN_EXPIRY_SECONDS / 2) (e - now));
                  key = assessment_key (ax_attempt_id ctx);
                  (stored, cache1) = (case assessment of None \<Rightarrow> (True, cache)
                                      | Some a \<Rightarrow> mc_set key a (Some duration) False now cache)
              in if duration \<le> 0 then (Inl (InvalidAuthenticationAttempt ''expired''), user, cache)
                 else if \<not> stored then (Inr (Refused 503), user, cache1)
                 else if pd_satisfied progress
                 then (case password_change_requirement cfg credential now ctx assessment cache1 of
                         (Inl e, cache2) \<Rightarrow> (Inl e, user, cache2)
                       | (Inr (Some code), cache2) \<Rightarrow>
                           (Inr (PasswordChangeRequired code (token_new (ac_id user) (min 300 duration) {POST_AUTH} (Some ctx) now)),
                            user, cache2)
                       | (Inr None, cache2) \<Rightarrow>
                           (let (tok, user1) = create_token_after_authentication now user
                            in (Inr (SessionIssued tok), user1,
                                if list_ex (\<lambda>e. ev_method e = ''password'') (ax_evidence ctx) then mc_delete key cache2 else cache2)))
                 else (let methods = sort (remdups (map as_method (pd_next_steps progress)))
                       in if methods = [] then (Inr (Refused 403), user, cache1)
                          else (Inr (MfaPending methods (token_new (ac_id user) duration {AUTH} (Some ctx) now)), user, cache1))))"

section \<open>Requests\<close>

definition escalation_token :: "account \<Rightarrow> timestamp \<Rightarrow> token" where
  "escalation_token user now = token_new (ac_id user) ESCALATION_TOKEN_EXPIRY_SECONDS {GENERAL, ESCALATED} None now"

text \<open>\<open>authenticate_request\<close>; the provider's dialog turns the attempt into one with more evidence, or
  raises.  Transport failures are errors of the dialog.\<close>

definition authenticate_request ::
  "(string \<Rightarrow> string) \<Rightarrow> auth_registry \<Rightarrow> password_config \<Rightarrow> (string \<Rightarrow> password_credential option) \<Rightarrow>
   (auth_attempt \<Rightarrow> auth_flow_error + auth_attempt) \<Rightarrow> timestamp \<Rightarrow> auth_policies \<Rightarrow> (string \<Rightarrow> account option) \<Rightarrow>
   auth_attempt \<Rightarrow> password_assessment mem_cache \<Rightarrow> (auth_flow_error + login_outcome) \<times> password_assessment mem_cache" where
  "authenticate_request sha reg cfg credential_of dialog now ps accounts att cache =
     (case od_get reg (at_method att) of None \<Rightarrow> (Inl (AuthenticationFailure 400), cache)
      | Some provider \<Rightarrow>
        if at_purpose att \<notin> set (pv_supported_purposes provider) then (Inl (AuthenticationFailure 403), cache)
        else (case and_then (dialog att) (\<lambda>att1. and_then (check_expiry now att1) (\<lambda>_. Inr att1)) of
           Inl e \<Rightarrow> (Inl e, cache)
         | Inr att1 \<Rightarrow>
           (case Option.bind (at_user_id att1) accounts of
              None \<Rightarrow> (Inl (InvalidAuthenticationAttempt ''account''), cache)
            | Some user \<Rightarrow>
              if ac_status user \<noteq> ACTIVE then (Inl (AuthenticationFailure 4003), cache)
              else (case attempt_progress sha reg now ps user att1 of Inl e \<Rightarrow> (Inl e, cache)
                | Inr progress \<Rightarrow>
                  if at_purpose att1 = ESCALATION
                  then (if \<not> pd_satisfied progress then (Inl (AuthenticationFailure 403), cache)
                        else (Inr (SessionIssued (escalation_token user now)), cache))
                  else if at_purpose att1 = MFA \<and> \<not> pd_satisfied progress then (Inl (AuthenticationFailure 403), cache)
                  else (case at_context att1 of None \<Rightarrow> (Inl (InvalidAuthenticationAttempt ''assertion''), cache)
                    | Some ctx \<Rightarrow>
                      (case finish_login_attempt sha reg cfg (credential_of (ac_id user)) now ps user ctx
                              (at_expires_at att1) (at_password_assessment att1) cache of
                         (r, _, cache1) \<Rightarrow> (r, cache1)))))))"

text \<open>The decision of the token exchange before any proof is asked for: the purpose to prove, an
  elevated token at once, or a refusal.\<close>

datatype exchange_decision = ProveFirst auth_purpose | IssuedAtOnce token | ExchangeRefused nat

definition exchange_token ::
  "timestamp \<Rightarrow> auth_policies \<Rightarrow> (string \<Rightarrow> account option) \<Rightarrow> (account \<Rightarrow> token \<Rightarrow> bool) \<Rightarrow> token \<Rightarrow> token_flag set \<Rightarrow>
   exchange_decision" where
  "exchange_token now ps accounts token_valid source target =
     (if tk_purpose source = {AUTH} \<and> target = {GENERAL}
      then (case tk_auth_context source of None \<Rightarrow> ExchangeRefused 401
            | Some ctx \<Rightarrow> if ax_login_method ctx = None \<or> ax_login_method ctx = Some [] then ExchangeRefused 401 else ProveFirst MFA)
      else if tk_purpose source = {GENERAL} \<and> target = {GENERAL, ESCALATED}
      then (case accounts (tk_sub source) of None \<Rightarrow> ExchangeRefused 401
            | Some user \<Rightarrow>
              if ac_status user \<noteq> ACTIVE then ExchangeRefused 4003
              else if \<not> token_valid user source then ExchangeRefused 401
              else if policy_chains ps (ac_id user) ESCALATION = [] then IssuedAtOnce (escalation_token user now)
              else ProveFirst ESCALATION)
      else ExchangeRefused 403)"

section \<open>The policies behind a session\<close>

lemma lift_policy_Inr [simp]: "lift_policy r = Inr x \<longleftrightarrow> r = Inr x"
  by (simp add: lift_policy_def split: sum.splits)

lemma active_credentials_iff:
  "active_credentials creds k \<noteq> None \<longleftrightarrow> k \<in> set (map (\<lambda>c. (rc_method c, rc_credential_id c)) (filter rc_active creds))"
proof -
  have "fst ` set (rev (map (\<lambda>c. ((rc_method c, rc_credential_id c), c)) (filter rc_active creds))) =
      set (map (\<lambda>c. (rc_method c, rc_credential_id c)) (filter rc_active creds))" by (auto simp: image_image)
  then show ?thesis unfolding active_credentials_def map_of_eq_None_iff by (simp del: set_map set_rev)
qed

lemma filter_credentials_of_methods:
  assumes "registry_ok reg" and "distinct ms"
  shows "filter (\<lambda>c. rc_method c = m) (credentials_of_methods reg ms) =
    (if m \<in> set ms then (case od_get reg m of None \<Rightarrow> [] | Some p \<Rightarrow> pv_credentials p) else [])"
  using assms(2)
proof (induction ms)
  case (Cons k ms)
  have own: "list_all (\<lambda>c. rc_method c = k) (pv_credentials p)" if "od_get reg k = Some p" for p
    using assms(1) map_of_SomeD[OF that] by (auto simp: registry_ok_def list_all_iff)
  have "filter (\<lambda>c. rc_method c = m) (case od_get reg k of None \<Rightarrow> [] | Some p \<Rightarrow> pv_credentials p) =
      (if m = k then (case od_get reg k of None \<Rightarrow> [] | Some p \<Rightarrow> pv_credentials p) else [])"
    using own by (cases "od_get reg k") (auto simp: list_all_iff filter_id_conv filter_empty_conv)
  then show ?case using Cons by (auto simp: credentials_of_methods_def)
qed (simp add: credentials_of_methods_def)

lemma active_of_methods:
  assumes "registry_ok reg" and "distinct ms" and "m \<in> set ms"
  shows "active_credentials (credentials_of_methods reg ms) (m, cid) = active_credentials (list_user_credentials reg) (m, cid)"
  using active_credentials_method[of "credentials_of_methods reg ms" m cid]
    active_credentials_method[of "list_user_credentials reg" m cid]
    filter_credentials_of_methods[OF assms(1,2), of m] filter_method_registry[OF assms(1), of m] assms(3)
  by simp

lemma completes_cong:
  assumes "\<And>e. e \<in> set es \<Longrightarrow> active (ev_method e, ev_credential_id e) = active' (ev_method e, ev_credential_id e)"
  shows "completes active chain es \<longleftrightarrow> completes active' chain es"
proof -
  have "distinct_keys active evs = distinct_keys active' evs" if "subseq evs es" for evs
  proof -
    have "set evs \<subseteq> set es" using that by (auto elim: list_emb_set)
    then have "active (ev_method e, ev_credential_id e) = active' (ev_method e, ev_credential_id e)" if "e \<in> set evs" for e
      using assms that by blast
    then have "proved_keys active evs = proved_keys active' evs"
      unfolding proved_keys_def by (intro map_cong refl arg_cong[where f = "\<lambda>c. Option.bind c rc_key_identity"])
        (unfold set_filter, blast)
    then show ?thesis by (simp add: distinct_keys_def)
  qed
  then show ?thesis by (auto simp: completes_def)
qed

lemma evaluate_user_policy_satisfied:
  assumes ok: "registry_ok reg" and e: "evaluate_user_policy reg ps u purpose evs a method excluded = Inr d"
    and s: "pd_satisfied d" and ne: "policy_chains ps u purpose \<noteq> []"
  shows "\<exists>chain \<in> set (policy_chains ps u purpose). eligible_chain reg purpose method excluded chain \<and>
    \<not> (purpose = LOGIN \<and> list_ex (\<lambda>s. as_method s \<in> set LOGIN_DISALLOWED_METHODS) chain) \<and>
    completes (active_credentials (list_user_credentials reg)) chain evs"
proof -
  let ?el = "filter (eligible_chain reg purpose method excluded) (policy_chains ps u purpose)"
  let ?ms = "remdups (map (as_method \<circ> hd) ?el @ map ev_method evs)"
  let ?act = "active_credentials (credentials_of_methods reg ?ms)"
  have "parse_chains (policy_chains ps u purpose) = Inr (policy_chains ps u purpose)"
    using e by (auto simp: evaluate_user_policy_def parse_chains_def split: if_splits)
  then have "d = \<lparr>pd_satisfied = False, pd_next_steps = [], pd_purpose = None\<rparr> \<or>
      ?el \<noteq> [] \<and> d = evaluate_auth_policy purpose ?el (credentials_of_methods reg ?ms) evs u a"
    using e ne by (auto simp: evaluate_user_policy_def Let_def split: if_splits)
  then obtain chain where c: "chain \<in> set ?el" "chain_usable purpose ?act chain" "completes ?act chain evs"
    using s by (auto simp: evaluate_auth_policy_def Let_def evaluate_chains_satisfied list_ex_iff split: if_splits)
  have "completes (active_credentials (list_user_credentials reg)) chain evs"
    using c(3) by (subst completes_cong[symmetric]) (auto intro!: active_of_methods[OF ok])
  then show ?thesis using c(1,2) by (auto simp: chain_usable_def)
qed

lemma evaluate_login_nonempty:
  "evaluate_user_policy reg ps u LOGIN evs a method excluded = Inr d \<Longrightarrow> pd_satisfied d \<Longrightarrow> policy_chains ps u LOGIN \<noteq> []"
  by (auto simp: evaluate_user_policy_def parse_chains_def Let_def evaluate_auth_policy_def split: if_splits)

text \<open>What a complete login means.\<close>

definition login_proved :: "auth_registry \<Rightarrow> auth_policies \<Rightarrow> string \<Rightarrow> auth_context \<Rightarrow> bool" where
  "login_proved reg ps u ctx \<longleftrightarrow>
     (let active = active_credentials (list_user_credentials reg) in
      case ax_login_method ctx of None \<Rightarrow> False
      | Some m \<Rightarrow> m \<notin> set LOGIN_DISALLOWED_METHODS \<and>
          list_ex (\<lambda>chain. as_method (hd chain) = m \<and>
             completes active chain (filter (\<lambda>e. ev_method e = m) (ax_evidence ctx))) (policy_chains ps u LOGIN) \<and>
          (policy_chains ps u MFA = [] \<or>
           list_ex (\<lambda>chain. as_method (hd chain) \<noteq> m \<and>
             completes active chain (filter (\<lambda>e. ev_method e \<noteq> m) (ax_evidence ctx))) (policy_chains ps u MFA)))"

lemma get_login_progress_proved:
  assumes ok: "registry_ok reg" and g: "get_login_progress sha reg ps user ctx = Inr d"
    and s: "pd_satisfied d"
  shows "login_proved reg ps (ac_id user) ctx"
proof -
  let ?u = "ac_id user" and ?a = "ax_attempt_id ctx"
  obtain m where m: "ax_login_method ctx = Some m"
    using g by (auto simp: get_login_progress_def and_then_Inr split: option.splits)
  let ?le = "filter (\<lambda>e. ev_method e = m) (ax_evidence ctx)" and ?me = "filter (\<lambda>e. ev_method e \<noteq> m) (ax_evidence ctx)"
  obtain l where l: "evaluate_user_policy reg ps ?u LOGIN ?le ?a (Some m) None = Inr l" "pd_satisfied l"
    using g s m by (auto simp: get_login_progress_def and_then_Inr split: if_splits)
  obtain d' me where mfa: "evaluate_user_policy reg ps ?u MFA ?me ?a me (Some m) = Inr d'" "pd_satisfied d'"
    using g s m l by (auto simp: get_login_progress_def and_then_Inr Let_def split: if_splits)
  have "\<exists>chain \<in> set (policy_chains ps ?u LOGIN). as_method (hd chain) = m \<and> m \<notin> set LOGIN_DISALLOWED_METHODS \<and>
      completes (active_credentials (list_user_credentials reg)) chain ?le"
    using evaluate_user_policy_satisfied[OF ok l(1,2) evaluate_login_nonempty[OF l(1,2)]]
    by (fastforce simp: eligible_chain_def list_ex_iff elim: single_method.elims)
  moreover have "policy_chains ps ?u MFA \<noteq> [] \<Longrightarrow> \<exists>chain \<in> set (policy_chains ps ?u MFA). as_method (hd chain) \<noteq> m \<and>
      completes (active_credentials (list_user_credentials reg)) chain ?me"
    using evaluate_user_policy_satisfied[OF ok mfa(1,2)] by (auto simp: eligible_chain_def)
  ultimately show ?thesis using m by (auto simp: login_proved_def Let_def list_ex_iff)
qed

text \<open>C3. A session is only ever issued for an active account whose login policy and MFA policy are both met by
  the evidence of the attempt, the login part by the login method (never TOTP) and the second part
  by another method, with the signing key and both policy revisions unchanged since the attempt
  began.\<close>

theorem session_needs_both_policies:
  assumes "registry_ok reg"
    and "finish_login_attempt sha reg cfg credential now ps user ctx expires_at assessment cache =
      (Inr (SessionIssued tok), user', cache')"
  shows "ac_status user = ACTIVE \<and> login_proved reg ps (ac_id user) ctx \<and>
    ax_signing_key_digest ctx = sha (ac_secret_key user) \<and>
    ax_login_revision ctx = policy_revision ps (ac_id user) LOGIN \<and>
    ax_mfa_revision ctx = policy_revision ps (ac_id user) MFA \<and>
    tk_sub tok = ac_id user \<and> tk_purpose tok = {GENERAL}"
proof -
  obtain d where g: "get_login_progress sha reg ps user ctx = Inr d" and s: "pd_satisfied d" and act: "ac_status user = ACTIVE"
    and tok: "tok = fst (create_token_after_authentication now user)"
    using assms(2)
    by (auto simp: finish_login_attempt_def Let_def split: sum.splits if_splits prod.splits option.splits)
  have "validate_authentication_context sha reg ps user ctx [LOGIN, MFA] = Inr ()"
    using g by (auto simp: get_login_progress_def and_then_Inr)
  then show ?thesis
    using get_login_progress_proved[OF assms(1) g s] act tok
    by (auto simp: validate_authentication_context_def and_then_Inr guard_Inr create_token_after_authentication_def token_new_def)
qed

section \<open>Available means a login can be completed\<close>

lemma admissible_active:
  assumes ok: "registry_ok reg"
    and adm: "evidence_admissible (active_credentials (list_user_credentials reg)) u a evs" and e: "e \<in> set evs"
    and m: "ev_method e \<in> set ms" and ms: "distinct ms"
  shows "ev_user_id e = u \<and> ev_attempt_id e = a \<and> (ev_method e, ev_credential_id e) \<in>
    set (map (\<lambda>c. (rc_method c, rc_credential_id c)) (filter rc_active (credentials_of_methods reg ms)))"
proof -
  have "active_credentials (list_user_credentials reg) (ev_method e, ev_credential_id e) \<noteq> None"
    and "ev_user_id e = u" "ev_attempt_id e = a"
    using adm e by (auto simp: evidence_admissible_def list_all_iff)
  then show ?thesis
    using active_of_methods[OF ok ms m, of "ev_credential_id e"]
      active_credentials_iff[of "credentials_of_methods reg ms" "(ev_method e, ev_credential_id e)"] by simp
qed

lemma available_chain:
  assumes "available_methods reg creds ps u purpose = Inr ms" and "m \<in> set ms"
  shows "\<exists>chain \<in> set (policy_chains ps u purpose). chain_available reg creds purpose chain \<and> as_method (hd chain) = m \<and>
    parse_chains (policy_chains ps u purpose) = Inr (policy_chains ps u purpose)"
  using assms by (auto simp: available_methods_def parse_chains_def split: if_splits)

lemma evidence_for_method: "e \<in> set (evidence_for u a tag m cids) \<Longrightarrow> ev_method e = m"
  by (auto simp: evidence_for_def)

text \<open>Validating a context made for these policies and filled with admissible evidence.\<close>

lemma fresh_context_valid:
  assumes ok: "registry_ok reg"
    and l: "evidence_admissible (active_credentials (list_user_credentials reg)) (ac_id user) a (evidence_for (ac_id user) a t m cids)"
    and r: "evidence_admissible (active_credentials (list_user_credentials reg)) (ac_id user) a (evidence_for (ac_id user) a t' m' cids')"
    and tt: "t \<noteq> t'"
  shows "validate_authentication_context sha reg ps user
    ((create_authentication_context sha a ps user LOGIN lm)\<lparr>ax_evidence :=
        evidence_for (ac_id user) a t m cids @ evidence_for (ac_id user) a t' m' cids'\<rparr>) [LOGIN, MFA] = Inr ()"
proof -
  let ?evs = "evidence_for (ac_id user) a t m cids @ evidence_for (ac_id user) a t' m' cids'"
  let ?ms = "remdups (map ev_method ?evs)"
  have d: "distinct (map ev_event_id ?evs)"
    using tt distinct_events by (auto simp: evidence_for_events)
  have "ev_user_id e = ac_id user \<and> ev_attempt_id e = a \<and> (ev_method e, ev_credential_id e) \<in>
    set (map (\<lambda>c. (rc_method c, rc_credential_id c)) (filter rc_active (credentials_of_methods reg ?ms)))" if "e \<in> set ?evs" for e
  proof -
    have m: "ev_method e \<in> set ?ms" using that by auto
    from that consider "e \<in> set (evidence_for (ac_id user) a t m cids)" | "e \<in> set (evidence_for (ac_id user) a t' m' cids')"
      by (auto simp only: set_append)
    then show ?thesis
      by cases (rule admissible_active[OF ok l _ m distinct_remdups] admissible_active[OF ok r _ m distinct_remdups]; assumption)+
  qed
  then have "list_all (\<lambda>e. ev_user_id e = ac_id user \<and> ev_attempt_id e = a \<and> (ev_method e, ev_credential_id e) \<in>
    set (map (\<lambda>c. (rc_method c, rc_credential_id c)) (filter rc_active (credentials_of_methods reg ?ms)))) ?evs"
    unfolding list_all_iff by blast
  with d show ?thesis
    by (simp add: validate_authentication_context_def create_authentication_context_def Let_def del: set_map)
qed

lemma filter_evidence_for:
  "filter (\<lambda>e. ev_method e = m) (evidence_for u a t m' cids) = (if m = m' then evidence_for u a t m' cids else [])"
  "filter (\<lambda>e. ev_method e \<noteq> m) (evidence_for u a t m' cids) = (if m = m' then [] else evidence_for u a t m' cids)"
  by (auto simp: filter_id_conv filter_empty_conv evidence_for_method)

text \<open>C33. No lock-out: whenever the availability check accepts the stored policies, there is a login method and
  evidence of active credentials with which an attempt completes both the login and the MFA
  policy.\<close>

theorem available_login_reachable:
  assumes ok: "registry_ok reg" and av: "ensure_authentication_available reg ps (ac_id user) = Inr ()"
  shows "\<exists>m evs d. get_login_progress sha reg ps user
      ((create_authentication_context sha a ps user LOGIN m)\<lparr>ax_evidence := evs\<rparr>) = Inr d \<and>
    pd_satisfied d \<and> pd_purpose d = Some MFA"
proof -
  let ?u = "ac_id user" and ?c = "list_user_credentials reg"
  obtain ls ms where l: "available_methods reg ?c ps ?u LOGIN = Inr ls" and mf: "available_methods reg ?c ps ?u MFA = Inr ms"
    and lm: "list_ex (\<lambda>lm. policy_chains ps ?u MFA = [] \<or> filter (\<lambda>m. m \<noteq> lm) ms \<noteq> []) ls"
    using av by (auto simp: ensure_authentication_available_def Let_def and_then_Inr guard_Inr user_requires_mfa_def)
  then obtain m where m: "m \<in> set ls" and second: "policy_chains ps ?u MFA = [] \<or> (\<exists>m2 \<in> set ms. m2 \<noteq> m)"
    by (auto simp: list_ex_iff filter_empty_conv)
  obtain c1 where c1: "c1 \<in> set (policy_chains ps ?u LOGIN)" "chain_available reg ?c LOGIN c1" "as_method (hd c1) = m"
    "parse_chains (policy_chains ps ?u LOGIN) = Inr (policy_chains ps ?u LOGIN)" using available_chain[OF l m] by blast
  obtain cids d1 where e1: "evaluate_user_policy reg ps ?u LOGIN (evidence_for ?u a CHR ''l'' m cids) a (Some m) None = Inr d1"
    "pd_satisfied d1" "evidence_admissible (active_credentials ?c) ?u a (evidence_for ?u a CHR ''l'' m cids)"
    using chain_available_satisfiable[OF ok c1(4,1,2), of None a "CHR ''l''"] c1(3) by auto
  have "\<exists>m2 cids2 d2. m2 \<noteq> m \<and>
      evaluate_user_policy reg ps ?u MFA (evidence_for ?u a CHR ''m'' m2 cids2) a (if cids2 = [] then None else Some m2) (Some m) = Inr d2 \<and>
      pd_satisfied d2 \<and> evidence_admissible (active_credentials ?c) ?u a (evidence_for ?u a CHR ''m'' m2 cids2)"
  proof (cases "policy_chains ps ?u MFA = []")
    case True
    then show ?thesis
      by (intro exI[of _ "m @ ''x''"] exI[of _ "[]"])
        (simp add: evaluate_user_policy_def parse_chains_def evaluate_auth_policy_def evidence_for_def evidence_admissible_def)
  next
    case False
    then obtain m2 where m2: "m2 \<in> set ms" "m2 \<noteq> m" using second by blast
    obtain c2 where c2: "c2 \<in> set (policy_chains ps ?u MFA)" "chain_available reg ?c MFA c2" "as_method (hd c2) = m2"
      "parse_chains (policy_chains ps ?u MFA) = Inr (policy_chains ps ?u MFA)" using available_chain[OF mf m2(1)] by blast
    then show ?thesis
      using chain_available_satisfiable[OF ok c2(4,1,2), of "Some m" a "CHR ''m''"] m2(2) by fastforce
  qed
  then obtain m2 cids2 d2 where e2: "m2 \<noteq> m"
      "evaluate_user_policy reg ps ?u MFA (evidence_for ?u a CHR ''m'' m2 cids2) a (if cids2 = [] then None else Some m2) (Some m) = Inr d2"
      "pd_satisfied d2" "evidence_admissible (active_credentials ?c) ?u a (evidence_for ?u a CHR ''m'' m2 cids2)" by blast
  let ?evs = "evidence_for ?u a CHR ''l'' m cids @ evidence_for ?u a CHR ''m'' m2 cids2"
  let ?ctx = "(create_authentication_context sha a ps user LOGIN m)\<lparr>ax_evidence := ?evs\<rparr>"
  have v: "validate_authentication_context sha reg ps user ?ctx [LOGIN, MFA] = Inr ()"
    by (rule fresh_context_valid[OF ok e1(3) e2(4)]) simp
  have f: "filter (\<lambda>e. ev_method e = m) ?evs = evidence_for ?u a CHR ''l'' m cids"
    "filter (\<lambda>e. ev_method e \<noteq> m) ?evs = evidence_for ?u a CHR ''m'' m2 cids2"
    using e2(1) by (simp_all add: filter_evidence_for)
  have hd2: "cids2 \<noteq> [] \<Longrightarrow> ev_method (hd (evidence_for ?u a CHR ''m'' m2 cids2)) = m2"
    "(evidence_for ?u a CHR ''m'' m2 cids2 = []) = (cids2 = [])"
    by (simp_all add: evidence_for_def hd_map)
  have same: "list_all (\<lambda>e. ev_method e = ev_method (hd (evidence_for ?u a CHR ''m'' m2 cids2))) (evidence_for ?u a CHR ''m'' m2 cids2)"
    by (cases "cids2 = []") (auto simp: list_all_iff hd2 evidence_for_method, simp add: evidence_for_def)
  have sel: "ax_login_method ?ctx = Some m" "ax_evidence ?ctx = ?evs" "ax_attempt_id ?ctx = a"
    by (simp_all add: create_authentication_context_def)
  have mm: "(if evidence_for ?u a CHR ''m'' m2 cids2 = [] then None
      else Some (ev_method (hd (evidence_for ?u a CHR ''m'' m2 cids2)))) = (if cids2 = [] then None else Some m2)"
    using hd2 by simp
  have "get_login_progress sha reg ps user ?ctx = Inr (d2\<lparr>pd_purpose := Some MFA\<rparr>)"
    unfolding get_login_progress_def v and_then_simps sel option.case f Let_def mm e1(1) e2(2)
    using same e1(2) by (simp add: lift_policy_def)
  then show ?thesis using e2(3) by (intro exI[of _ m] exI[of _ ?evs]) simp
qed

text \<open>An account with one key for login and no MFA.\<close>

definition sample_account :: account where
  "sample_account = \<lparr>ac_id = ''u'', ac_username = ''alice'', ac_secret_key = ''k'', ac_status = ACTIVE,
     ac_status_reason = None, ac_last_login = None\<rparr>"

definition sample_context :: auth_context where
  "sample_context = (create_authentication_context id ''t'' sample_policies sample_account LOGIN ''publickey'')
     \<lparr>ax_evidence := [\<lparr>ev_user_id = ''u'', ev_attempt_id = ''t'', ev_event_id = ''1'', ev_method = ''publickey'',
                       ev_credential_id = ''a''\<rparr>]\<rparr>"

lemma sample_registry_ok: "registry_ok sample_registry"
  by (simp add: registry_ok_def sample_registry_def sample_key_def od_wf_def)

lemmas sample_defs = sample_account_def sample_context_def sample_policies_def sample_registry_def sample_key_def

lemma sample_progress:
  "get_login_progress id sample_registry sample_policies sample_account sample_context =
     Inr \<lparr>pd_satisfied = True, pd_next_steps = [], pd_purpose = Some MFA\<rparr>"
  by (simp add: sample_defs get_login_progress_def validate_authentication_context_def create_authentication_context_def
      policy_revision_def credentials_of_methods_def evaluate_user_policy_def policy_chains_def parse_chains_def valid_step_def
      eligible_chain_def evaluate_auth_policy_def evidence_admissible_def active_credentials_def chain_usable_def
      LOGIN_DISALLOWED_METHODS_def advance_state_def lift_policy_def Let_def del: set_map set_filter)

lemma sample_login:
  "finish_login_attempt id sample_registry cfg None 10 sample_policies sample_account sample_context None None (mc_init 4) =
     (Inr (SessionIssued (token_new ''u'' 3600 {GENERAL} None 10)), sample_account\<lparr>ac_last_login := Some 10\<rparr>, mc_init 4)"
  by (simp add: finish_login_attempt_def sample_progress) (simp add: sample_account_def sample_context_def create_authentication_context_def
      password_change_requirement_def create_token_after_authentication_def DEFAULT_TOKEN_EXPIRY_SECONDS_def Let_def)

theorem session_needs_both_policies_witness:
  "registry_ok sample_registry \<and> login_proved sample_registry sample_policies ''u'' sample_context"
  using session_needs_both_policies[OF sample_registry_ok sample_login] sample_registry_ok
  by (simp add: sample_account_def)

theorem available_login_reachable_witness:
  "ensure_authentication_available sample_registry sample_policies ''u'' = Inr () \<and>
   (\<exists>m evs d. get_login_progress id sample_registry sample_policies sample_account
      ((create_authentication_context id ''t'' sample_policies sample_account LOGIN m)\<lparr>ax_evidence := evs\<rparr>) = Inr d \<and>
    pd_satisfied d \<and> pd_purpose d = Some MFA)"
proof -
  have av: "ensure_authentication_available sample_registry sample_policies ''u'' = Inr ()"
    by (simp add: sample_defs ensure_authentication_available_def available_methods_def policy_chains_def parse_chains_def
        valid_step_def chain_available_def LOGIN_DISALLOWED_METHODS_def list_user_credentials_def active_credentials_def
        step_pool_def map_filter_simps pool_at_def user_requires_mfa_def Let_def)
  then show ?thesis
    using available_login_reachable[OF sample_registry_ok, of sample_policies sample_account] by (simp add: sample_account_def)
qed

end
