(* ===== verification/Triggers.thy ===== *)
theory Triggers
  imports Prelude
begin

text \<open>
  Triggers: \<open>src/include/scheduling/triggers.py\<close>.  Validation of stored trigger data and the
  advancement of a due trigger, which coalesces missed occurrences by a binary search.

  The trigger library (APScheduler) and the time zone and ISO 8601 readers are parameters: a
  \<open>trigger_library\<close> holds its constructors, a \<open>trigger\<close> its \<open>get_next_fire_time\<close>.  Instants are
  UTC timestamps; a \<open>datetime\<close> holds whole microseconds.
\<close>

section \<open>Trigger data\<close>

datatype json_value = JStr string | JInt int | JBool bool | JOther string

type_synonym trigger_data = "(string, json_value) odict"

text \<open>\<open>tr_next previous now\<close> is \<open>get_next_fire_time(previous, now)\<close>; \<open>tr_recurring\<close> tells the cron
  and interval triggers without jitter.\<close>

record trigger =
  tr_recurring :: bool
  tr_next :: "timestamp option \<Rightarrow> timestamp \<Rightarrow> timestamp option"

datatype zone_lookup = ZoneFound | ZoneNotFound | ZoneMalformed

record trigger_library =
  tl_zone_info :: "string \<Rightarrow> zone_lookup"
  tl_from_crontab :: "string \<Rightarrow> string \<Rightarrow> trigger option"
  tl_fromisoformat :: "string \<Rightarrow> timestamp option option"
  tl_date_trigger :: "timestamp \<Rightarrow> string \<Rightarrow> trigger"
  tl_interval_trigger :: "int \<Rightarrow> timestamp \<Rightarrow> string \<Rightarrow> trigger option"
  tl_isoformat :: "timestamp \<Rightarrow> string"

datatype trigger_error =
    TriggerValidationError string
  | ValueError
  | TooManyOccurrences

definition aware_datetime :: "trigger_library \<Rightarrow> json_value option \<Rightarrow> string \<Rightarrow> trigger_error + timestamp" where
  "aware_datetime lib v field_name =
     (case v of
        Some (JStr s) \<Rightarrow>
          (case tl_fromisoformat lib s of
             None \<Rightarrow> Inl (TriggerValidationError (field_name @ '' must be a valid ISO 8601 time''))
           | Some None \<Rightarrow> Inl (TriggerValidationError (field_name @ '' must include a UTC offset''))
           | Some (Some t) \<Rightarrow> Inr t)
      | _ \<Rightarrow> Inl (TriggerValidationError (field_name @ '' must be an ISO 8601 string'')))"

definition build_trigger :: "trigger_library \<Rightarrow> string \<Rightarrow> trigger_data \<Rightarrow> string \<Rightarrow> trigger_error + trigger" where
  "build_trigger lib trigger_type data timezone =
     (case tl_zone_info lib timezone of
        ZoneNotFound \<Rightarrow> Inl (TriggerValidationError ''Unknown IANA timezone'')
      | ZoneMalformed \<Rightarrow> Inl ValueError
      | ZoneFound \<Rightarrow>
        if trigger_type = ''cron'' then
          (case od_get data ''expression'' of
             Some (JStr expression) \<Rightarrow>
               (case tl_from_crontab lib expression timezone of
                  None \<Rightarrow> Inl (TriggerValidationError ''cron.expression is invalid'')
                | Some trigger \<Rightarrow> Inr trigger)
           | _ \<Rightarrow> Inl (TriggerValidationError ''cron.expression must be a string''))
        else if trigger_type = ''date'' then
          and_then (aware_datetime lib (od_get data ''run_at'') ''date.run_at'')
            (\<lambda>run_at. Inr (tl_date_trigger lib run_at timezone))
        else if trigger_type = ''interval'' then
          (case od_get data ''seconds'' of
             Some (JInt seconds) \<Rightarrow>
               if seconds \<le> 0 then Inl (TriggerValidationError ''interval.seconds must be a positive integer'')
               else and_then (aware_datetime lib (od_get data ''start_at'') ''interval.start_at'') (\<lambda>start_at.
                 case tl_interval_trigger lib seconds start_at timezone of
                   None \<Rightarrow> Inl (TriggerValidationError ''interval.seconds is too large'')
                 | Some trigger \<Rightarrow> Inr trigger)
           | _ \<Rightarrow> Inl (TriggerValidationError ''interval.seconds must be a positive integer''))
        else Inl (TriggerValidationError ''Unsupported trigger type''))"

section \<open>Advancing\<close>

text \<open>\<open>datetime.fromtimestamp\<close> rounds to the nearest microsecond, ties to even.\<close>

definition round_half_even :: "rat \<Rightarrow> int" where
  "round_half_even x =
     (let f = \<lfloor>x\<rfloor>; d = x - of_int f in
      if d < 1 / 2 then f else if d > 1 / 2 then f + 1 else if even f then f else f + 1)"

definition from_timestamp :: "timestamp \<Rightarrow> timestamp" where
  "from_timestamp t = of_int (round_half_even (t * 1000000)) / 1000000"

definition first_run_at :: "trigger \<Rightarrow> timestamp \<Rightarrow> timestamp option" where
  "first_run_at trigger now = tr_next trigger None (from_timestamp now)"

record trigger_advance =
  ta_latest_due_at :: "timestamp option"
  ta_next_run_at :: "timestamp option"

text \<open>The loop \<open>for _ in range(64)\<close> of the binary search.\<close>

fun search_latest :: "trigger \<Rightarrow> timestamp \<Rightarrow> nat \<Rightarrow> timestamp \<Rightarrow> timestamp \<Rightarrow> timestamp \<Rightarrow> timestamp" where
  "search_latest trigger now 0 latest_due lower upper = latest_due"
| "search_latest trigger now (Suc n) latest_due lower upper =
     (if upper - lower \<le> 1 / 1000000 then latest_due
      else (let midpoint = lower + (upper - lower) / 2 in
            case tr_next trigger None (from_timestamp midpoint) of
              None \<Rightarrow> search_latest trigger now n latest_due lower midpoint
            | Some candidate \<Rightarrow>
                if candidate \<le> now then search_latest trigger now n candidate midpoint upper
                else search_latest trigger now n latest_due lower midpoint))"

definition advance_builtin_recurring_trigger ::
  "trigger \<Rightarrow> timestamp \<Rightarrow> timestamp \<Rightarrow> timestamp \<Rightarrow> trigger_advance" where
  "advance_builtin_recurring_trigger trigger current_run_at now cutoff =
     (case (if current_run_at < cutoff then tr_next trigger None (from_timestamp cutoff)
            else Some (from_timestamp current_run_at)) of
        None \<Rightarrow> \<lparr>ta_latest_due_at = None, ta_next_run_at = None\<rparr>
      | Some first_due \<Rightarrow>
          if first_due > now then \<lparr>ta_latest_due_at = None, ta_next_run_at = Some first_due\<rparr>
          else (let latest_due = search_latest trigger now 64 first_due first_due (now + 1 / 1000000)
                in \<lparr>ta_latest_due_at = Some latest_due,
                    ta_next_run_at = tr_next trigger (Some latest_due) (from_timestamp now)\<rparr>))"

text \<open>The \<open>while\<close> loop for other triggers; \<open>n\<close> counts down to the limit of 100000 iterations.\<close>

fun walk_occurrences ::
  "trigger \<Rightarrow> timestamp \<Rightarrow> timestamp \<Rightarrow> nat \<Rightarrow> timestamp option \<Rightarrow> timestamp option \<Rightarrow>
   trigger_error + trigger_advance" where
  "walk_occurrences trigger now cutoff n candidate latest_due =
     (case candidate of
        None \<Rightarrow> Inr \<lparr>ta_latest_due_at = latest_due, ta_next_run_at = None\<rparr>
      | Some c \<Rightarrow>
          if c > now then Inr \<lparr>ta_latest_due_at = latest_due, ta_next_run_at = Some c\<rparr>
          else (case n of
                  0 \<Rightarrow> Inl TooManyOccurrences
                | Suc m \<Rightarrow> walk_occurrences trigger now cutoff m (tr_next trigger (Some c) (from_timestamp now))
                             (if c \<ge> cutoff then Some c else latest_due)))"

definition advance_trigger ::
  "trigger \<Rightarrow> timestamp \<Rightarrow> timestamp \<Rightarrow> timestamp \<Rightarrow> trigger_error + trigger_advance" where
  "advance_trigger trigger current_run_at now misfire_grace_seconds =
     (let cutoff = now - misfire_grace_seconds in
      if tr_recurring trigger then Inr (advance_builtin_recurring_trigger trigger current_run_at now cutoff)
      else if current_run_at < cutoff then
        (case tr_next trigger None (from_timestamp cutoff) of
           None \<Rightarrow> Inr \<lparr>ta_latest_due_at = None, ta_next_run_at = None\<rparr>
         | Some c \<Rightarrow> walk_occurrences trigger now cutoff 100000 (Some c) None)
      else walk_occurrences trigger now cutoff 100000 (Some (from_timestamp current_run_at)) None)"

section \<open>What a recurring trigger promises\<close>

definition is_first :: "timestamp set \<Rightarrow> timestamp option \<Rightarrow> bool" where
  "is_first A r \<longleftrightarrow> (case r of None \<Rightarrow> A = {} | Some f \<Rightarrow> f \<in> A \<and> (\<forall>g\<in>A. f \<le> g))"

definition is_last :: "timestamp set \<Rightarrow> timestamp option \<Rightarrow> bool" where
  "is_last A r \<longleftrightarrow> (case r of None \<Rightarrow> A = {} | Some f \<Rightarrow> f \<in> A \<and> (\<forall>g\<in>A. g \<le> f))"

text \<open>The documented behaviour of \<open>get_next_fire_time\<close> for a trigger with fire times \<open>F\<close>: without a
  previous fire time the first at or after the given instant, with one the first after it.  Fire
  times are whole seconds apart and whole microseconds.\<close>

definition fires_at :: "timestamp set \<Rightarrow> trigger \<Rightarrow> bool" where
  "fires_at F trigger \<longleftrightarrow>
     (\<forall>t. is_first {f \<in> F. t \<le> f} (tr_next trigger None t)) \<and>
     (\<forall>p \<in> F. \<forall>now. p \<le> now \<longrightarrow> is_first {f \<in> F. p < f} (tr_next trigger (Some p) now))"

definition clock_times :: "timestamp set \<Rightarrow> bool" where
  "clock_times F \<longleftrightarrow> (\<forall>f\<in>F. from_timestamp f = f) \<and> (\<forall>f\<in>F. \<forall>g\<in>F. f < g \<longrightarrow> f + 1 \<le> g)"

lemma round_half_even_bounds: "\<bar>of_int (round_half_even x) - x\<bar> \<le> 1 / 2"
  unfolding round_half_even_def Let_def using floor_correct[of x] by (auto simp: abs_le_iff)

lemma from_timestamp_bounds:
  "from_timestamp t \<le> t + 1 / 2000000" "t - 1 / 2000000 \<le> from_timestamp t"
proof -
  define k :: rat where "k = of_int (round_half_even (t * 1000000))"
  have "k - t * 1000000 \<le> 1 / 2" "t * 1000000 - k \<le> 1 / 2"
    using round_half_even_bounds[of "t * 1000000"] unfolding k_def by linarith+
  then show "from_timestamp t \<le> t + 1 / 2000000" "t - 1 / 2000000 \<le> from_timestamp t"
    by (simp_all add: from_timestamp_def k_def[symmetric])
qed

lemma round_half_even_mono:
  assumes "x \<le> y" shows "round_half_even x \<le> round_half_even y"
proof -
  have "\<lfloor>x\<rfloor> \<le> \<lfloor>y\<rfloor>" using assms by (rule floor_mono)
  moreover have "\<lfloor>x\<rfloor> = \<lfloor>y\<rfloor> \<or> \<lfloor>x\<rfloor> + 1 \<le> \<lfloor>y\<rfloor>" using calculation by linarith
  ultimately show ?thesis using assms unfolding round_half_even_def Let_def by auto
qed

lemma from_timestamp_mono: "s \<le> t \<Longrightarrow> from_timestamp s \<le> from_timestamp t"
  by (simp add: from_timestamp_def round_half_even_mono divide_right_mono)

text \<open>The binary search keeps the following: no fire time up to now lies between the answer and
  the last instant asked below the upper end.\<close>

lemma fires_atD:
  assumes "fires_at F trigger"
  shows "tr_next trigger None t = None \<Longrightarrow> \<forall>f\<in>F. f < t"
    and "tr_next trigger None t = Some c \<Longrightarrow> c \<in> F \<and> t \<le> c \<and> (\<forall>f\<in>F. t \<le> f \<longrightarrow> c \<le> f)"
proof -
  have first: "is_first {f \<in> F. t \<le> f} (tr_next trigger None t)" using assms by (simp add: fires_at_def)
  show "\<forall>f\<in>F. f < t" if "tr_next trigger None t = None"
    using first by (auto simp: that is_first_def not_le[symmetric])
  show "c \<in> F \<and> t \<le> c \<and> (\<forall>f\<in>F. t \<le> f \<longrightarrow> c \<le> f)" if "tr_next trigger None t = Some c"
    using first by (simp add: that is_first_def)
qed

lemma clock_gap:
  assumes "clock_times F" "l \<in> F" "f \<in> F" "f < l + 1"
  shows "f \<le> l"
  using assms by (auto simp: clock_times_def not_le[symmetric])

lemma search_latest_last:
  assumes "fires_at F trigger" "clock_times F"
    and "l \<in> F" "l \<le> now" "lower \<le> l + 1 / 2000000"
    and "\<forall>f\<in>F. f \<le> now \<longrightarrow> f \<le> upper + 1 / 2000000"
    and "upper - lower \<le> 2 ^ n / 1000000"
  shows "search_latest trigger now n l lower upper \<in> F \<and> search_latest trigger now n l lower upper \<le> now \<and>
    (\<forall>f\<in>F. f \<le> now \<longrightarrow> f \<le> search_latest trigger now n l lower upper)"
  using assms(3-)
proof (induction n arbitrary: l lower upper)
  case 0
  have "f \<le> l" if "f \<in> F" "f \<le> now" for f
  proof (rule clock_gap[OF assms(2) 0(1) that(1)])
    have "f \<le> upper + 1 / 2000000" using 0(4) that by blast
    then show "f < l + 1" using 0(3,5) by simp
  qed
  then show ?case using 0 by simp
next
  case (Suc n)
  define mid where "mid = lower + (upper - lower) / 2"
  show ?case
  proof (cases "upper - lower \<le> 1 / 1000000")
    case True
    have "f \<le> l" if "f \<in> F" "f \<le> now" for f
    proof (rule clock_gap[OF assms(2) Suc.prems(1) that(1)])
      have "f \<le> upper + 1 / 2000000" using Suc.prems(4) that by blast
      then show "f < l + 1" using Suc.prems(3) True by linarith
    qed
    then show ?thesis using Suc.prems True by simp
  next
    case False
    have half: "mid - lower \<le> 2 ^ n / 1000000" "upper - mid \<le> 2 ^ n / 1000000"
      using Suc.prems(5) by (simp_all add: mid_def field_simps)
    note b = from_timestamp_bounds[of mid]
    show ?thesis
    proof (cases "tr_next trigger None (from_timestamp mid)")
      case None
      then have "\<forall>f\<in>F. f \<le> now \<longrightarrow> f \<le> mid + 1 / 2000000"
        using fires_atD(1)[OF assms(1) None] b(1) by (meson less_imp_le order_trans)
      then show ?thesis using Suc.IH[of l lower mid] Suc.prems half False None by (simp add: mid_def)
    next
      case (Some c)
      note c = fires_atD(2)[OF assms(1) Some]
      show ?thesis
      proof (cases "c \<le> now")
        case True
        then show ?thesis using Suc.IH[of c mid upper] Suc.prems half False Some c b by (simp add: mid_def)
      next
        case far: False
        then have "\<forall>f\<in>F. f \<le> now \<longrightarrow> f \<le> mid + 1 / 2000000" using c b(1) by (meson le_cases order_trans)
        then show ?thesis using Suc.IH[of l lower mid] Suc.prems half False Some far by (simp add: mid_def)
      qed
    qed
  qed
qed

lemma advance_due:
  assumes "fires_at F trigger" "clock_times F" "tr_recurring trigger"
    and "current_run_at \<in> F" "current_run_at \<le> now" "0 < grace" "grace \<le> 1000000000000"
  shows "\<exists>a. advance_trigger trigger current_run_at now grace = Inr a \<and>
    is_last {f \<in> F. from_timestamp (now - grace) \<le> f \<and> f \<le> now} (ta_latest_due_at a) \<and>
    is_first {f \<in> F. now < f} (ta_next_run_at a)"
proof -
  let ?cut = "from_timestamp (now - grace)"
  have cut: "?cut \<le> from_timestamp now" using assms(6) by (intro from_timestamp_mono) simp
  have future: "from_timestamp now \<le> f" if "f \<in> F" "now \<le> f" for f
    using from_timestamp_mono[of now f] that assms(2) by (auto simp: clock_times_def)
  have found: "is_last {f \<in> F. ?cut \<le> f \<and> f \<le> now} (Some l) \<and>
      is_first {f \<in> F. now < f} (tr_next trigger (Some l) (from_timestamp now))"
    if l: "l = search_latest trigger now 64 d d (now + 1 / 1000000)" and d: "d \<in> F" "d \<le> now" "?cut \<le> d" for l d
  proof -
    have "now + 1 / 1000000 - d \<le> grace + 3 / 2000000"
      using d(3) from_timestamp_bounds(2)[of "now - grace"] by simp
    then have "now + 1 / 1000000 - d \<le> 2 ^ 64 / 1000000" using assms(7) by simp
    then have s: "l \<in> F" "l \<le> now" "\<forall>f\<in>F. f \<le> now \<longrightarrow> f \<le> l"
      using search_latest_last[OF assms(1,2) d(1,2), of d "now + 1 / 1000000" 64] unfolding l by auto
    have "l \<le> from_timestamp now"
      using from_timestamp_mono[OF s(2)] s(1) assms(2) by (auto simp: clock_times_def)
    then have "is_first {f \<in> F. l < f} (tr_next trigger (Some l) (from_timestamp now))"
      using assms(1) s(1) by (auto simp: fires_at_def)
    moreover have "{f \<in> F. l < f} = {f \<in> F. now < f}" using s by (auto simp: not_le[symmetric])
    moreover have "?cut \<le> l" using d s(3) by fastforce
    ultimately show ?thesis using s by (auto simp: is_last_def)
  qed
  show ?thesis
  proof (cases "current_run_at < now - grace")
    case True
    show ?thesis
    proof (cases "tr_next trigger None ?cut")
      case None
      have none: "f < ?cut" if "f \<in> F" for f using fires_atD(1)[OF assms(1) None] that by blast
      have "f \<le> now" if "f \<in> F" for f using none[OF that] cut future[OF that] by fastforce
      then show ?thesis using True None none assms(3)
        by (fastforce simp: advance_trigger_def advance_builtin_recurring_trigger_def is_first_def is_last_def)
    next
      case (Some d)
      note d = fires_atD(2)[OF assms(1) Some]
      show ?thesis
      proof (cases "d \<le> now")
        case due: True
        then show ?thesis using True Some assms(3) found[OF refl, of d] d
          by (auto simp: advance_trigger_def advance_builtin_recurring_trigger_def Let_def)
      next
        case False
        have "d \<le> f" if "f \<in> F" "now < f" for f using d that future[of f] cut by fastforce
        then show ?thesis using True Some assms(3) False d
          by (fastforce simp: advance_trigger_def advance_builtin_recurring_trigger_def is_first_def is_last_def)
      qed
    qed
  next
    case False
    then have "?cut \<le> current_run_at"
      using from_timestamp_mono[of "now - grace" current_run_at] assms(2,4) by (auto simp: clock_times_def)
    then show ?thesis using False assms(2-5) found[OF refl, of current_run_at]
      by (auto simp: advance_trigger_def advance_builtin_recurring_trigger_def Let_def clock_times_def)
  qed
qed

text \<open>C35. A due recurring trigger is advanced to exactly its latest occurrence inside the grace
  window and to its first occurrence in the future: the 64 halvings are enough for every grace
  window up to a trillion seconds, and rounding the midpoints to microseconds does no harm.  \<open>F\<close> is
  the set of fire times of the trigger, about which \<open>fires_at\<close> assumes the documented behaviour
  of the trigger library.\<close>
theorem advance_trigger_coalesces:
  assumes "fires_at F trigger" "clock_times F" "tr_recurring trigger"
    and "current_run_at \<in> F" "current_run_at \<le> now" "0 < grace" "grace \<le> 1000000000000"
  shows "\<exists>a. advance_trigger trigger current_run_at now grace = Inr a \<and>
    is_last {f \<in> F. from_timestamp (now - grace) \<le> f \<and> f \<le> now} (ta_latest_due_at a) \<and>
    is_first {f \<in> F. now < f} (ta_next_run_at a)"
  using advance_due[OF assms] .

text \<open>The trigger that fires at every whole hour.\<close>

definition hourly :: trigger where
  "hourly = \<lparr>tr_recurring = True,
     tr_next = (\<lambda>p t. case p of None \<Rightarrow> Some (of_int \<lceil>t / 3600\<rceil> * 3600) | Some q \<Rightarrow> Some (q + 3600))\<rparr>"

definition hours :: "timestamp set" where
  "hours = range (\<lambda>k. of_int k * 3600)"

lemma round_half_even_int [simp]: "round_half_even (of_int k) = k"
  by (simp add: round_half_even_def)

lemma hours_clock: "clock_times hours"
proof -
  have "from_timestamp (of_int k * 3600) = of_int k * 3600" for k
    using round_half_even_int[of "k * 3600 * 1000000"] by (simp add: from_timestamp_def)
  then show ?thesis by (auto simp: clock_times_def hours_def)
qed

lemma hourly_fires: "fires_at hours hourly"
proof -
  have 1: "is_first {f \<in> hours. t \<le> f} (tr_next hourly None t)" for t
  proof -
    have "t \<le> of_int \<lceil>t / 3600\<rceil> * 3600" using le_of_int_ceiling[of "t / 3600"] by (simp only: pos_divide_le_eq)
    moreover have "of_int \<lceil>t / 3600\<rceil> * 3600 \<le> (of_int k * 3600 :: rat)" if "t \<le> of_int k * 3600" for k
      using that by (simp add: ceiling_le_iff field_simps)
    ultimately show ?thesis by (auto simp: hourly_def is_first_def hours_def)
  qed
  have 2: "is_first {f \<in> hours. p < f} (tr_next hourly (Some p) now)" if "p \<in> hours" for p now
  proof -
    obtain k where k: "p = of_int k * 3600" using \<open>p \<in> hours\<close> by (auto simp: hours_def)
    have "p + 3600 = of_int (k + 1) * 3600" by (simp add: k)
    then have "p + 3600 \<in> hours" unfolding hours_def by blast
    moreover have "p + 3600 \<le> f" if "f \<in> hours" "p < f" for f
    proof -
      obtain j where j: "f = of_int j * 3600" using \<open>f \<in> hours\<close> by (auto simp: hours_def)
      with that(2) k have "k + 1 \<le> j" by simp
      then have "(of_int (k + 1) :: rat) \<le> of_int j" by (simp only: of_int_le_iff)
      then show ?thesis by (simp add: j k)
    qed
    ultimately show ?thesis by (auto simp: hourly_def is_first_def)
  qed
  show ?thesis using 1 2 by (simp add: fires_at_def)
qed

theorem advance_trigger_coalesces_witness:
  "\<exists>a. advance_trigger hourly 3600 20000 8000 = Inr a \<and>
     is_last {f \<in> hours. from_timestamp (20000 - 8000) \<le> f \<and> f \<le> 20000} (ta_latest_due_at a) \<and>
     is_first {f \<in> hours. 20000 < f} (ta_next_run_at a)"
proof -
  have "3600 \<in> hours" unfolding hours_def by (rule image_eqI[of _ _ 1]) simp_all
  then show ?thesis
    using advance_trigger_coalesces[OF hourly_fires hours_clock, of 3600 20000 8000] by (simp add: hourly_def)
qed

end
