(* ===== verification/Scheduling.thy ===== *)
theory Scheduling
  imports Triggers "HOL-Library.List_Lexorder" "HOL-Library.Option_ord" "HOL-Library.Char_ord" "HOL-Library.Product_Lexorder"
begin

text \<open>
  The durable scheduler: \<open>src/include/scheduling/\<close> (\<open>occurrences.py\<close>, \<open>claims.py\<close>, \<open>outcomes.py\<close>,
  \<open>engine.py\<close>, \<open>commands.py\<close>, \<open>reconciliation.py\<close>) over the tables of
  \<open>src/include/database/models/scheduling.py\<close>.

  The database is two tables and the runtime row.  Every transaction of the source is one function
  on it; the functions that run several transactions are their composition, and the step relation
  interleaves the transactions of any number of servers.  The conditional updates of a transaction
  are evaluated on the state its locks protect.

  Parameters: \<open>exec_id\<close> is the SHA-256 identifier of an occurrence, \<open>lib\<close> the trigger library and
  \<open>rg_validate\<close> of a registration its payload model.  Payloads and results are opaque strings.
\<close>

section \<open>Tables\<close>

datatype schedule_status = SActive | SCompleted | SFailed | SDeleted
datatype execution_state = EPending | ERunning | ERetryWait | ESucceeded | EFailed | ECancelled
datatype dispatch_state = DPending | DSent

record schedule =
  sc_id :: string
  sc_task_name :: string
  sc_task_contract_version :: nat
  sc_payload :: string
  sc_trigger_type :: string
  sc_trigger_data :: trigger_data
  sc_timezone :: string
  sc_system_managed :: bool
  sc_enabled :: bool
  sc_status :: schedule_status
  sc_revision :: nat
  sc_next_run_at :: "timestamp option"
  sc_active_execution_id :: "string option"
  sc_pending_scheduled_for :: "timestamp option"
  sc_created_by :: "string option"
  sc_created_at :: timestamp
  sc_updated_by :: "string option"
  sc_updated_at :: timestamp
  sc_deleted_at :: "timestamp option"

record execution =
  ex_id :: string
  ex_schedule_id :: string
  ex_task_name :: string
  ex_task_contract_version :: nat
  ex_payload :: string
  ex_provider_generation :: nat
  ex_scheduled_for :: timestamp
  ex_state :: execution_state
  ex_dispatch_state :: dispatch_state
  ex_attempt :: nat
  ex_retry_at :: "timestamp option"
  ex_dispatched_at :: "timestamp option"
  ex_lease_owner :: "string option"
  ex_lease_expires_at :: "timestamp option"
  ex_started_at :: "timestamp option"
  ex_completed_at :: "timestamp option"
  ex_result :: "string option"
  ex_error :: "string option"
  ex_created_at :: timestamp

record runtime_state =
  rt_provider :: string
  rt_redis_namespace :: "string option"
  rt_generation :: nat
  rt_updated_at :: timestamp

record sched_db =
  sd_schedules :: "schedule list"
  sd_executions :: "execution list"
  sd_runtime :: "runtime_state option"

record scheduling_policy =
  sp_claim_batch_size :: nat
  sp_execution_lease_seconds :: timestamp
  sp_misfire_grace_seconds :: timestamp
  sp_history_retention_days :: nat

record claimed_execution =
  cl_id :: string
  cl_schedule_id :: string
  cl_task_name :: string
  cl_task_contract_version :: nat
  cl_payload :: string
  cl_scheduled_for :: timestamp
  cl_attempt :: nat
  cl_lease_owner :: string

datatype sched_error =
    IntegrityError
  | ScheduleNotFound string
  | ScheduleConflict string
  | TaskLookupError string
  | PayloadInvalid
  | TriggerFailed trigger_error
  | ProviderSwitchRefused
  | NamespaceMissing
  | DuplicateSystemSchedule string
  | DuplicateTask string
  | UserManaged string

definition find_schedule :: "sched_db \<Rightarrow> string \<Rightarrow> schedule option" where
  "find_schedule db sid = find (\<lambda>s. sc_id s = sid) (sd_schedules db)"

definition find_execution :: "sched_db \<Rightarrow> string \<Rightarrow> execution option" where
  "find_execution db eid = find (\<lambda>e. ex_id e = eid) (sd_executions db)"

text \<open>\<open>UPDATE ... WHERE p SET f\<close> on each table, and the row count.\<close>

definition update_schedules :: "(schedule \<Rightarrow> bool) \<Rightarrow> (schedule \<Rightarrow> schedule) \<Rightarrow> sched_db \<Rightarrow> sched_db" where
  "update_schedules p f db = db\<lparr>sd_schedules := map (\<lambda>s. if p s then f s else s) (sd_schedules db)\<rparr>"

definition update_executions :: "(execution \<Rightarrow> bool) \<Rightarrow> (execution \<Rightarrow> execution) \<Rightarrow> sched_db \<Rightarrow> sched_db" where
  "update_executions p f db = db\<lparr>sd_executions := map (\<lambda>e. if p e then f e else e) (sd_executions db)\<rparr>"

definition execution_count :: "(execution \<Rightarrow> bool) \<Rightarrow> sched_db \<Rightarrow> nat" where
  "execution_count p db = length (filter p (sd_executions db))"

definition set_schedule :: "schedule \<Rightarrow> sched_db \<Rightarrow> sched_db" where
  "set_schedule s db = update_schedules (\<lambda>t. sc_id t = sc_id s) (\<lambda>_. s) db"

definition schedule_deleted :: "sched_db \<Rightarrow> string \<Rightarrow> bool" where
  "schedule_deleted db sid \<longleftrightarrow> list_ex (\<lambda>s. sc_id s = sid \<and> sc_status s = SDeleted) (sd_schedules db)"

definition schedule_live :: "sched_db \<Rightarrow> string \<Rightarrow> bool" where
  "schedule_live db sid \<longleftrightarrow> list_ex (\<lambda>s. sc_id s = sid \<and> sc_status s \<noteq> SDeleted) (sd_schedules db)"

definition unfinished :: "execution_state \<Rightarrow> bool" where
  "unfinished st \<longleftrightarrow> st \<in> {EPending, ERunning, ERetryWait}"

section \<open>Occurrences\<close>

definition new_execution :: "string \<Rightarrow> schedule \<Rightarrow> timestamp \<Rightarrow> nat \<Rightarrow> timestamp \<Rightarrow> execution" where
  "new_execution eid schedule scheduled_for generation current_time =
     \<lparr>ex_id = eid, ex_schedule_id = sc_id schedule, ex_task_name = sc_task_name schedule,
      ex_task_contract_version = sc_task_contract_version schedule, ex_payload = sc_payload schedule,
      ex_provider_generation = generation, ex_scheduled_for = scheduled_for, ex_state = EPending,
      ex_dispatch_state = DPending, ex_attempt = 0, ex_retry_at = None, ex_dispatched_at = None,
      ex_lease_owner = None, ex_lease_expires_at = None, ex_started_at = None, ex_completed_at = None,
      ex_result = None, ex_error = None, ex_created_at = current_time\<rparr>"

text \<open>The primary key and the unique pair of schedule and time are checked by the database.\<close>

definition create_execution ::
  "(string \<Rightarrow> timestamp \<Rightarrow> string) \<Rightarrow> schedule \<Rightarrow> timestamp \<Rightarrow> nat \<Rightarrow> timestamp \<Rightarrow> sched_db \<Rightarrow> sched_error + sched_db" where
  "create_execution exec_id schedule scheduled_for generation current_time db =
     (let eid = exec_id (sc_id schedule) scheduled_for
      in if list_ex (\<lambda>e. ex_id e = eid \<or> (ex_schedule_id e = sc_id schedule \<and> ex_scheduled_for e = scheduled_for))
              (sd_executions db)
         then Inl IntegrityError
         else Inr (set_schedule (schedule\<lparr>sc_active_execution_id := Some eid\<rparr>)
                     (db\<lparr>sd_executions := sd_executions db @
                          [new_execution eid schedule scheduled_for generation current_time]\<rparr>)))"

section \<open>Claiming\<close>

definition due_at :: "timestamp option \<Rightarrow> timestamp \<Rightarrow> bool" where
  "due_at t now \<longleftrightarrow> (case t of None \<Rightarrow> True | Some x \<Rightarrow> x \<le> now)"

definition runnable :: "nat \<Rightarrow> timestamp \<Rightarrow> execution \<Rightarrow> bool" where
  "runnable generation now e \<longleftrightarrow> ex_provider_generation e = generation \<and> unfinished (ex_state e) \<and>
     due_at (ex_retry_at e) now \<and> due_at (ex_lease_expires_at e) now"

definition start_lease :: "string \<Rightarrow> timestamp \<Rightarrow> timestamp \<Rightarrow> execution \<Rightarrow> execution" where
  "start_lease lease_owner lease_seconds now e =
     e\<lparr>ex_state := ERunning, ex_dispatch_state := DSent, ex_dispatched_at := Some now, ex_attempt := ex_attempt e + 1,
       ex_retry_at := None, ex_lease_owner := Some lease_owner, ex_lease_expires_at := Some (now + lease_seconds),
       ex_started_at := Some now\<rparr>"

definition claim_execution_row ::
  "string \<Rightarrow> string \<Rightarrow> nat \<Rightarrow> string \<Rightarrow> scheduling_policy \<Rightarrow> timestamp \<Rightarrow> sched_db \<Rightarrow> claimed_execution option \<times> sched_db" where
  "claim_execution_row execution_id schedule_id generation lease_owner policy now db =
     (case find_schedule db schedule_id of None \<Rightarrow> (None, db)
      | Some schedule \<Rightarrow>
        if sc_status schedule = SDeleted \<or> sc_active_execution_id schedule \<noteq> Some execution_id then (None, db)
        else (let p = (\<lambda>e. ex_id e = execution_id \<and> ex_schedule_id e = schedule_id \<and> runnable generation now e);
                  db1 = update_executions p (start_lease lease_owner (sp_execution_lease_seconds policy) now) db
              in if execution_count p db \<noteq> 1 then (None, db1)
                 else (case find_execution db1 execution_id of None \<Rightarrow> (None, db1)
                   | Some e \<Rightarrow> (Some \<lparr>cl_id = ex_id e, cl_schedule_id = sc_id schedule, cl_task_name = ex_task_name e,
                       cl_task_contract_version = ex_task_contract_version e, cl_payload = ex_payload e,
                       cl_scheduled_for = ex_scheduled_for e, cl_attempt = ex_attempt e, cl_lease_owner = lease_owner\<rparr>, db1))))"

definition claim_candidates :: "nat \<Rightarrow> timestamp \<Rightarrow> sched_db \<Rightarrow> execution list" where
  "claim_candidates generation now db =
     sort_key (\<lambda>e. (ex_created_at e, ex_id e))
       (filter (\<lambda>e. runnable generation now e \<and> schedule_live db (ex_schedule_id e)) (sd_executions db))"

definition claim_execution ::
  "nat \<Rightarrow> string \<Rightarrow> scheduling_policy \<Rightarrow> timestamp \<Rightarrow> sched_db \<Rightarrow> claimed_execution option \<times> sched_db" where
  "claim_execution generation lease_owner policy now db =
     (case claim_candidates generation now db of [] \<Rightarrow> (None, db)
      | e # _ \<Rightarrow> claim_execution_row (ex_id e) (ex_schedule_id e) generation lease_owner policy now db)"

definition claim_execution_by_id ::
  "string \<Rightarrow> nat \<Rightarrow> string \<Rightarrow> scheduling_policy \<Rightarrow> timestamp \<Rightarrow> sched_db \<Rightarrow> claimed_execution option \<times> sched_db" where
  "claim_execution_by_id execution_id generation lease_owner policy now db =
     (case find_execution db execution_id of None \<Rightarrow> (None, db)
      | Some e \<Rightarrow> claim_execution_row execution_id (ex_schedule_id e) generation lease_owner policy now db)"

datatype delivery_state = Stale | Terminal | Busy | Ready

definition execution_delivery_state :: "string \<Rightarrow> nat \<Rightarrow> timestamp \<Rightarrow> sched_db \<Rightarrow> delivery_state" where
  "execution_delivery_state execution_id generation now db =
     (case find_execution db execution_id of None \<Rightarrow> Stale
      | Some e \<Rightarrow>
        if ex_provider_generation e \<noteq> generation then Stale
        else if \<not> unfinished (ex_state e) then Terminal
        else if \<not> due_at (ex_retry_at e) now then Busy
        else if \<not> due_at (ex_lease_expires_at e) now then Busy
        else Ready)"

definition mark_dispatched :: "string \<Rightarrow> nat \<Rightarrow> nat \<Rightarrow> timestamp \<Rightarrow> sched_db \<Rightarrow> bool \<times> sched_db" where
  "mark_dispatched execution_id generation expected_attempt now db =
     (let p = (\<lambda>e. ex_id e = execution_id \<and> ex_provider_generation e = generation \<and> ex_attempt e = expected_attempt \<and>
                   ex_dispatch_state e = DPending \<and> ex_state e \<in> {EPending, ERetryWait})
      in (execution_count p db = 1,
          update_executions p (\<lambda>e. e\<lparr>ex_dispatch_state := DSent, ex_dispatched_at := Some now\<rparr>) db))"

definition refresh_execution_lease ::
  "string \<Rightarrow> string \<Rightarrow> scheduling_policy \<Rightarrow> timestamp \<Rightarrow> sched_db \<Rightarrow> bool \<times> sched_db" where
  "refresh_execution_lease execution_id lease_owner policy now db =
     (let p = (\<lambda>e. ex_id e = execution_id \<and> ex_state e = ERunning \<and> ex_lease_owner e = Some lease_owner)
      in if execution_count p db = 0 then (False, db)
         else (execution_count p db = 1,
               update_executions p (\<lambda>e. e\<lparr>ex_lease_expires_at := Some (now + sp_execution_lease_seconds policy)\<rparr>) db))"

section \<open>Outcomes\<close>

definition release_schedule_execution ::
  "(string \<Rightarrow> timestamp \<Rightarrow> string) \<Rightarrow> schedule \<Rightarrow> nat \<Rightarrow> schedule_status \<Rightarrow> timestamp \<Rightarrow> sched_db \<Rightarrow> sched_error + sched_db" where
  "release_schedule_execution exec_id schedule generation terminal_status current_time db =
     (let s1 = schedule\<lparr>sc_active_execution_id := None\<rparr> in
      if sc_status s1 = SDeleted then Inr (set_schedule s1 db)
      else (case sc_pending_scheduled_for s1 of
         Some pending \<Rightarrow> create_execution exec_id (s1\<lparr>sc_pending_scheduled_for := None\<rparr>) pending generation current_time db
       | None \<Rightarrow> Inr (set_schedule (if sc_next_run_at s1 = None then s1\<lparr>sc_status := terminal_status\<rparr> else s1) db)))"

text \<open>The rows an outcome may be written to: those whose lease the caller still owns.\<close>

definition owned_by :: "claimed_execution \<Rightarrow> nat \<Rightarrow> execution \<Rightarrow> bool" where
  "owned_by claim generation e \<longleftrightarrow> ex_id e = cl_id claim \<and> ex_schedule_id e = cl_schedule_id claim \<and>
     ex_provider_generation e = generation \<and> ex_state e = ERunning \<and> ex_lease_owner e = Some (cl_lease_owner claim)"

definition complete_execution ::
  "(string \<Rightarrow> timestamp \<Rightarrow> string) \<Rightarrow> claimed_execution \<Rightarrow> nat \<Rightarrow> string \<Rightarrow> timestamp \<Rightarrow> sched_db \<Rightarrow>
   sched_error + (bool \<times> sched_db)" where
  "complete_execution exec_id claim generation result now db =
     (case find_schedule db (cl_schedule_id claim) of None \<Rightarrow> Inr (False, db)
      | Some schedule \<Rightarrow>
        if execution_count (owned_by claim generation) db \<noteq> 1 then Inr (False, db)
        else (let db1 = update_executions (owned_by claim generation)
                    (\<lambda>e. e\<lparr>ex_state := ESucceeded, ex_completed_at := Some now, ex_result := Some result,
                           ex_lease_owner := None, ex_lease_expires_at := None\<rparr>) db
              in if sc_active_execution_id schedule = Some (cl_id claim)
                 then and_then (release_schedule_execution exec_id schedule generation SCompleted now db1) (\<lambda>db2. Inr (True, db2))
                 else Inr (True, db1)))"

definition fail_execution ::
  "(string \<Rightarrow> timestamp \<Rightarrow> string) \<Rightarrow> claimed_execution \<Rightarrow> nat \<Rightarrow> nat \<Rightarrow> nat \<Rightarrow> nat \<Rightarrow> string \<Rightarrow> timestamp \<Rightarrow> sched_db \<Rightarrow>
   sched_error + (bool \<times> sched_db)" where
  "fail_execution exec_id claim generation max_attempts initial_backoff_seconds maximum_backoff_seconds error now db =
     (case find_schedule db (cl_schedule_id claim) of None \<Rightarrow> Inr (False, db)
      | Some schedule \<Rightarrow>
        (let retry = (cl_attempt claim < max_attempts \<and> sc_status schedule \<noteq> SDeleted);
             delay = min (initial_backoff_seconds * 2 ^ (cl_attempt claim - 1)) maximum_backoff_seconds;
             f = (\<lambda>e. let e1 = e\<lparr>ex_error := Some (take 1024 error), ex_lease_owner := None, ex_lease_expires_at := None\<rparr> in
                      if retry then e1\<lparr>ex_state := ERetryWait, ex_dispatch_state := DPending, ex_dispatched_at := None,
                                       ex_retry_at := Some (now + of_nat delay)\<rparr>
                      else e1\<lparr>ex_state := EFailed, ex_completed_at := Some now\<rparr>)
         in if execution_count (owned_by claim generation) db \<noteq> 1 then Inr (False, db)
            else (let db1 = update_executions (owned_by claim generation) f db
                  in if \<not> retry \<and> sc_active_execution_id schedule = Some (cl_id claim)
                     then and_then (release_schedule_execution exec_id schedule generation SFailed now db1) (\<lambda>db2. Inr (True, db2))
                     else Inr (True, db1))))"

definition cancel_rows :: "timestamp \<Rightarrow> string \<Rightarrow> execution \<Rightarrow> execution" where
  "cancel_rows now reason e = e\<lparr>ex_state := ECancelled, ex_retry_at := None, ex_lease_owner := None,
     ex_lease_expires_at := None, ex_completed_at := Some now, ex_error := Some reason\<rparr>"

text \<open>\<open>lease_expires_at <= now\<close> is false for a missing lease.\<close>

definition lease_over :: "timestamp \<Rightarrow> execution \<Rightarrow> bool" where
  "lease_over now e \<longleftrightarrow> (case ex_lease_expires_at e of None \<Rightarrow> False | Some t \<Rightarrow> t \<le> now)"

text \<open>One candidate of \<open>cancel_expired_deleted_executions\<close>, in its own transaction.\<close>

definition cancel_expired_deleted :: "timestamp \<Rightarrow> string \<times> string \<Rightarrow> sched_db \<Rightarrow> sched_db" where
  "cancel_expired_deleted now candidate db =
     (case candidate of (eid, sid) \<Rightarrow>
       (case find_schedule db sid of None \<Rightarrow> db
        | Some schedule \<Rightarrow>
          if sc_status schedule \<noteq> SDeleted then db
          else (let p = (\<lambda>e. ex_id e = eid \<and> ex_schedule_id e = sid \<and> ex_state e = ERunning \<and> lease_over now e);
                    db1 = update_executions p (cancel_rows now ''Execution lease expired after schedule deletion'') db
                in if execution_count p db \<noteq> 1 then db1
                   else if sc_active_execution_id schedule = Some eid
                   then set_schedule (schedule\<lparr>sc_active_execution_id := None\<rparr>) db1 else db1)))"

definition cancel_expired_deleted_executions :: "nat \<Rightarrow> timestamp \<Rightarrow> sched_db \<Rightarrow> sched_db" where
  "cancel_expired_deleted_executions batch_size now db =
     (let candidates = take batch_size (sort_key (\<lambda>e. (case ex_lease_expires_at e of None \<Rightarrow> 0 | Some t \<Rightarrow> t, ex_id e))
            (filter (\<lambda>e. ex_state e = ERunning \<and> lease_over now e \<and> schedule_deleted db (ex_schedule_id e)) (sd_executions db)))
      in fold (cancel_expired_deleted now) (map (\<lambda>e. (ex_id e, ex_schedule_id e)) candidates) db)"

definition purge_execution_history :: "scheduling_policy \<Rightarrow> timestamp \<Rightarrow> sched_db \<Rightarrow> sched_db" where
  "purge_execution_history policy now db =
     (let cutoff = now - of_nat (sp_history_retention_days policy) * 86400;
          old = filter (\<lambda>e. \<not> unfinished (ex_state e) \<and> (case ex_completed_at e of None \<Rightarrow> False | Some t \<Rightarrow> t < cutoff)) (sd_executions db);
          ids = map ex_id (take (sp_claim_batch_size policy)
                  (sort_key (\<lambda>e. (case ex_completed_at e of None \<Rightarrow> 0 | Some t \<Rightarrow> t, ex_id e)) old))
      in db\<lparr>sd_executions := filter (\<lambda>e. ex_id e \<notin> set ids) (sd_executions db)\<rparr>)"

section \<open>Delivery\<close>

text \<open>The second transaction of \<open>pending_dispatches\<close>: lost deliveries and expired leases go back to
  pending.\<close>

definition recover_dispatches :: "nat \<Rightarrow> timestamp \<Rightarrow> timestamp \<Rightarrow> sched_db \<Rightarrow> sched_db" where
  "recover_dispatches generation dispatch_timeout_seconds now db =
     update_executions (\<lambda>e. ex_provider_generation e = generation \<and> ex_state e = ERunning \<and> lease_over now e \<and>
                            schedule_live db (ex_schedule_id e))
       (\<lambda>e. e\<lparr>ex_state := EPending, ex_dispatch_state := DPending, ex_dispatched_at := None, ex_retry_at := None,
              ex_lease_owner := None, ex_lease_expires_at := None\<rparr>)
       (update_executions (\<lambda>e. ex_provider_generation e = generation \<and> ex_state e \<in> {EPending, ERetryWait} \<and>
                               ex_dispatch_state e = DSent \<and> due_at (ex_dispatched_at e) (now - dispatch_timeout_seconds))
          (\<lambda>e. e\<lparr>ex_dispatch_state := DPending, ex_dispatched_at := None\<rparr>) db)"

definition dispatchable :: "nat \<Rightarrow> nat \<Rightarrow> timestamp \<Rightarrow> sched_db \<Rightarrow> (string \<times> nat) list" where
  "dispatchable generation batch_size now db =
     map (\<lambda>e. (ex_id e, ex_attempt e)) (take batch_size (sort_key (\<lambda>e. (ex_created_at e, ex_id e))
       (filter (\<lambda>e. ex_provider_generation e = generation \<and> ex_state e \<in> {EPending, ERetryWait} \<and>
                    ex_dispatch_state e = DPending \<and> due_at (ex_retry_at e) now) (sd_executions db))))"

definition pending_dispatches ::
  "nat \<Rightarrow> nat \<Rightarrow> timestamp \<Rightarrow> timestamp \<Rightarrow> sched_db \<Rightarrow> (string \<times> nat) list \<times> sched_db" where
  "pending_dispatches generation batch_size dispatch_timeout_seconds now db =
     (let db1 = recover_dispatches generation dispatch_timeout_seconds now (cancel_expired_deleted_executions batch_size now db)
      in (dispatchable generation batch_size now db1, db1))"

section \<open>The runtime row\<close>

text \<open>\<open>lease_expires_at > now\<close> is false for a missing lease.\<close>

definition lease_running :: "timestamp \<Rightarrow> execution \<Rightarrow> bool" where
  "lease_running now e \<longleftrightarrow> ex_state e = ERunning \<and>
     (case ex_lease_expires_at e of None \<Rightarrow> False | Some t \<Rightarrow> t > now)"

definition reset_to_generation :: "nat \<Rightarrow> execution \<Rightarrow> execution" where
  "reset_to_generation generation e = e\<lparr>ex_provider_generation := generation, ex_state := EPending,
     ex_dispatch_state := DPending, ex_dispatched_at := None, ex_retry_at := None, ex_lease_owner := None,
     ex_lease_expires_at := None\<rparr>"

definition ensure_runtime_state ::
  "string \<Rightarrow> string option \<Rightarrow> timestamp \<Rightarrow> sched_db \<Rightarrow> sched_error + (nat \<times> sched_db)" where
  "ensure_runtime_state provider redis_namespace now db =
     (if provider = ''redis'' \<and> redis_namespace = None then Inl NamespaceMissing
      else (let desired_namespace = (if provider = ''redis'' then redis_namespace else None);
                state = (case sd_runtime db of Some st \<Rightarrow> st
                         | None \<Rightarrow> \<lparr>rt_provider = provider, rt_redis_namespace = desired_namespace,
                                    rt_generation = 1, rt_updated_at = now\<rparr>)
            in if rt_provider state = provider \<and> rt_redis_namespace state = desired_namespace
               then Inr (rt_generation state, db\<lparr>sd_runtime := Some state\<rparr>)
               else if list_ex (lease_running now) (sd_executions db) then Inl ProviderSwitchRefused
               else (let g = rt_generation state + 1
                     in Inr (g, update_executions (\<lambda>e. unfinished (ex_state e) \<and> schedule_live db (ex_schedule_id e))
                          (reset_to_generation g)
                          (db\<lparr>sd_runtime := Some \<lparr>rt_provider = provider, rt_redis_namespace = desired_namespace,
                                rt_generation = g, rt_updated_at = now\<rparr>\<rparr>)))))"

section \<open>Due schedules\<close>

definition due_schedules :: "nat \<Rightarrow> timestamp \<Rightarrow> sched_db \<Rightarrow> string list" where
  "due_schedules batch_size now db =
     map sc_id (take batch_size (sort_key (\<lambda>s. (sc_pending_scheduled_for s, sc_next_run_at s, sc_id s))
       (filter (\<lambda>s. sc_enabled s \<and> sc_status s = SActive \<and>
          ((case sc_next_run_at s of None \<Rightarrow> False | Some t \<Rightarrow> t \<le> now) \<or>
           sc_active_execution_id s = None \<and> (case sc_pending_scheduled_for s of None \<Rightarrow> False | Some t \<Rightarrow> t \<le> now)))
          (sd_schedules db))))"

text \<open>\<open>_advance_schedule_if_current\<close>: the row must be as it was read; \<open>f\<close> is the list of assigned
  columns.\<close>

definition advance_schedule_if_current ::
  "schedule \<Rightarrow> (schedule \<Rightarrow> schedule) \<Rightarrow> sched_db \<Rightarrow> bool \<times> sched_db" where
  "advance_schedule_if_current schedule f db =
     (let p = (\<lambda>s. sc_id s = sc_id schedule \<and> sc_revision s = sc_revision schedule \<and> sc_enabled s \<and>
                   sc_status s = SActive \<and> sc_next_run_at s = sc_next_run_at schedule \<and>
                   sc_pending_scheduled_for s = sc_pending_scheduled_for schedule \<and>
                   sc_active_execution_id s = sc_active_execution_id schedule)
      in (length (filter p (sd_schedules db)) = 1, update_schedules p f db))"

text \<open>The later of the retained and the newly computed occurrence.\<close>

definition merge_due :: "timestamp option \<Rightarrow> timestamp option \<Rightarrow> timestamp option" where
  "merge_due latest_due_at advanced =
     (case advanced of None \<Rightarrow> latest_due_at
      | Some a \<Rightarrow> (case latest_due_at of None \<Rightarrow> Some a | Some l \<Rightarrow> if a > l then Some a else Some l))"

text \<open>\<open>(next_run_at, latest_due_at)\<close> of a locked schedule.\<close>

definition schedule_advance ::
  "trigger_library \<Rightarrow> scheduling_policy \<Rightarrow> timestamp \<Rightarrow> schedule \<Rightarrow> timestamp option \<Rightarrow>
   sched_error + (timestamp option \<times> timestamp option)" where
  "schedule_advance lib policy now schedule pending =
     (case sc_next_run_at schedule of
        None \<Rightarrow> Inr (None, pending)
      | Some due_run_at \<Rightarrow>
        if due_run_at > now then Inr (Some due_run_at, pending)
        else (case build_trigger lib (sc_trigger_type schedule) (sc_trigger_data schedule) (sc_timezone schedule) of
                Inl e \<Rightarrow> Inl (TriggerFailed e)
              | Inr trigger \<Rightarrow>
                  (case advance_trigger trigger due_run_at now (sp_misfire_grace_seconds policy) of
                     Inl e \<Rightarrow> Inl (TriggerFailed e)
                   | Inr a \<Rightarrow> Inr (ta_next_run_at a, merge_due pending (ta_latest_due_at a)))))"

text \<open>What a pass does with the advanced times of the locked row: nothing due, coalesced behind the
  active execution, or a new execution.  A failed comparison rolls the transaction back.\<close>

definition apply_advance ::
  "(string \<Rightarrow> timestamp \<Rightarrow> string) \<Rightarrow> nat \<Rightarrow> timestamp \<Rightarrow> schedule \<Rightarrow> timestamp option \<Rightarrow> timestamp option \<Rightarrow> sched_db \<Rightarrow>
   sched_error + (bool \<times> sched_db)" where
  "apply_advance exec_id generation now schedule next_run_at latest_due_at db =
     (case latest_due_at of
        None \<Rightarrow>
          let (ok, db1) = advance_schedule_if_current schedule
                (\<lambda>s. s\<lparr>sc_next_run_at := next_run_at,
                       sc_status := (if next_run_at = None \<and> sc_active_execution_id schedule = None
                                     then SCompleted else sc_status s)\<rparr>) db
          in Inr (False, if ok then db1 else db)
      | Some due \<Rightarrow>
          if sc_active_execution_id schedule \<noteq> None then
            (let (ok, db1) = advance_schedule_if_current schedule
                   (\<lambda>s. s\<lparr>sc_next_run_at := next_run_at, sc_pending_scheduled_for := Some due\<rparr>) db
             in Inr (False, if ok then db1 else db))
          else
            (let f = (\<lambda>s. s\<lparr>sc_next_run_at := next_run_at, sc_pending_scheduled_for := None,
                           sc_active_execution_id := Some (exec_id (sc_id schedule) due)\<rparr>);
                 (ok, db1) = advance_schedule_if_current schedule f db
             in if \<not> ok then Inr (False, db)
                else and_then (create_execution exec_id (f schedule) due generation now db1)
                       (\<lambda>db2. Inr (True, db2))))"

text \<open>One pass of the loop of \<open>enqueue_due_schedules\<close>, a transaction; an error rolls it back and ends
  the loop.\<close>

definition enqueue_schedule ::
  "(string \<Rightarrow> timestamp \<Rightarrow> string) \<Rightarrow> trigger_library \<Rightarrow> nat \<Rightarrow> scheduling_policy \<Rightarrow> timestamp \<Rightarrow> string \<Rightarrow> sched_db \<Rightarrow>
   sched_error + (bool \<times> sched_db)" where
  "enqueue_schedule exec_id lib generation policy now schedule_id db =
     (case find_schedule db schedule_id of
        None \<Rightarrow> Inr (False, db)
      | Some schedule \<Rightarrow>
        if \<not> sc_enabled schedule \<or> sc_status schedule \<noteq> SActive then Inr (False, db)
        else (let next_due = (case sc_next_run_at schedule of None \<Rightarrow> False | Some t \<Rightarrow> t \<le> now);
                  pending_due = (case sc_pending_scheduled_for schedule of None \<Rightarrow> False | Some t \<Rightarrow> t \<le> now)
              in if \<not> next_due \<and> \<not> pending_due then Inr (False, db)
                 else and_then (schedule_advance lib policy now schedule
                                  (if pending_due then sc_pending_scheduled_for schedule else None))
                   (\<lambda>(next_run_at, latest_due_at).
                      apply_advance exec_id generation now schedule next_run_at latest_due_at db)))"

fun enqueue_all ::
  "(string \<Rightarrow> timestamp \<Rightarrow> string) \<Rightarrow> trigger_library \<Rightarrow> nat \<Rightarrow> scheduling_policy \<Rightarrow> timestamp \<Rightarrow> string list \<Rightarrow>
   nat \<Rightarrow> sched_db \<Rightarrow> (sched_error + nat) \<times> sched_db" where
  "enqueue_all exec_id lib generation policy now [] created db = (Inr created, db)"
| "enqueue_all exec_id lib generation policy now (sid # sids) created db =
     (case enqueue_schedule exec_id lib generation policy now sid db of
        Inl e \<Rightarrow> (Inl e, db)
      | Inr (new, db1) \<Rightarrow> enqueue_all exec_id lib generation policy now sids (if new then created + 1 else created) db1)"

definition enqueue_due_schedules ::
  "(string \<Rightarrow> timestamp \<Rightarrow> string) \<Rightarrow> trigger_library \<Rightarrow> nat \<Rightarrow> scheduling_policy \<Rightarrow> timestamp \<Rightarrow> sched_db \<Rightarrow>
   (sched_error + nat) \<times> sched_db" where
  "enqueue_due_schedules exec_id lib generation policy now db =
     enqueue_all exec_id lib generation policy now (due_schedules (sp_claim_batch_size policy) now db) 0 db"

section \<open>Registered tasks\<close>

record system_schedule_definition =
  df_id :: string
  df_payload :: string
  df_trigger_type :: string
  df_trigger_data :: trigger_data
  df_timezone :: string
  df_run_immediately :: bool

text \<open>\<open>rg_system_schedule\<close> is what the factory returns when there is one.\<close>

record registration =
  rg_name :: string
  rg_contract_version :: nat
  rg_validate :: "string \<Rightarrow> string option"
  rg_max_attempts :: nat
  rg_initial_backoff_seconds :: nat
  rg_maximum_backoff_seconds :: nat
  rg_user_schedulable :: bool
  rg_system_schedule :: "system_schedule_definition option option"

type_synonym task_registry = "(string, registration) odict"

definition register_task :: "registration \<Rightarrow> task_registry \<Rightarrow> sched_error + task_registry" where
  "register_task r reg =
     (if rg_name r \<in> set (od_keys reg) then Inl (DuplicateTask (rg_name r)) else Inr (od_set (rg_name r) r reg))"

definition validate_payload :: "task_registry \<Rightarrow> string \<Rightarrow> nat \<Rightarrow> string \<Rightarrow> sched_error + string" where
  "validate_payload reg name contract_version payload =
     (case od_get reg name of
        None \<Rightarrow> Inl (TaskLookupError name)
      | Some r \<Rightarrow>
          if rg_contract_version r \<noteq> contract_version then Inl (TaskLookupError name)
          else (case rg_validate r payload of None \<Rightarrow> Inl PayloadInvalid | Some q \<Rightarrow> Inr q))"

definition user_registration :: "task_registry \<Rightarrow> string \<Rightarrow> sched_error + registration" where
  "user_registration reg task_name =
     (case od_get reg task_name of
        None \<Rightarrow> Inl (TaskLookupError task_name)
      | Some r \<Rightarrow> if rg_user_schedulable r then Inr r else Inl (TaskLookupError task_name))"

definition build :: "trigger_library \<Rightarrow> string \<Rightarrow> trigger_data \<Rightarrow> string \<Rightarrow> sched_error + trigger" where
  "build lib trigger_type data timezone =
     (case build_trigger lib trigger_type data timezone of Inl e \<Rightarrow> Inl (TriggerFailed e) | Inr t \<Rightarrow> Inr t)"

section \<open>Commands on user schedules\<close>

text \<open>\<open>new_id\<close> is the random primary key; a key in use is an integrity error.\<close>

definition insert_schedule :: "schedule \<Rightarrow> sched_db \<Rightarrow> sched_error + sched_db" where
  "insert_schedule s db =
     (if find_schedule db (sc_id s) \<noteq> None then Inl IntegrityError
      else Inr (db\<lparr>sd_schedules := sd_schedules db @ [s]\<rparr>))"

definition create_schedule ::
  "trigger_library \<Rightarrow> task_registry \<Rightarrow> string \<Rightarrow> string \<Rightarrow> string \<Rightarrow> string \<Rightarrow> string \<Rightarrow> trigger_data \<Rightarrow> string \<Rightarrow> bool \<Rightarrow>
   timestamp \<Rightarrow> sched_db \<Rightarrow> sched_error + sched_db" where
  "create_schedule lib reg new_id user_id task_name payload trigger_type data timezone enabled now db =
     and_then (user_registration reg task_name) (\<lambda>r.
     and_then (validate_payload reg task_name (rg_contract_version r) payload) (\<lambda>validated_payload.
     and_then (build lib trigger_type data timezone) (\<lambda>trigger.
       insert_schedule \<lparr>sc_id = new_id, sc_task_name = task_name, sc_task_contract_version = rg_contract_version r,
         sc_payload = validated_payload, sc_trigger_type = trigger_type, sc_trigger_data = data,
         sc_timezone = timezone, sc_system_managed = False, sc_enabled = enabled, sc_status = SActive,
         sc_revision = 1, sc_next_run_at = first_run_at trigger now, sc_active_execution_id = None,
         sc_pending_scheduled_for = None, sc_created_by = Some user_id, sc_created_at = now,
         sc_updated_by = Some user_id, sc_updated_at = now, sc_deleted_at = None\<rparr> db)))"

record schedule_changes =
  chg_task_name :: "string option"
  chg_payload :: "string option"
  chg_trigger_type :: "string option"
  chg_trigger_data :: "trigger_data option"
  chg_timezone :: "string option"
  chg_enabled :: "bool option"

definition changed_or :: "'a option \<Rightarrow> 'a \<Rightarrow> 'a" where
  "changed_or v old = (case v of None \<Rightarrow> old | Some x \<Rightarrow> x)"

text \<open>The checks of \<open>update_schedule\<close> and \<open>delete_schedule\<close> on the locked row.\<close>

definition mutable_schedule :: "string \<Rightarrow> nat \<Rightarrow> sched_db \<Rightarrow> sched_error + schedule" where
  "mutable_schedule schedule_id expected_revision db =
     (case find_schedule db schedule_id of
        None \<Rightarrow> Inl (ScheduleNotFound schedule_id)
      | Some s \<Rightarrow>
          if sc_status s = SDeleted then Inl (ScheduleNotFound schedule_id)
          else if sc_system_managed s then Inl (ScheduleConflict ''system-managed'')
          else if sc_revision s \<noteq> expected_revision then Inl (ScheduleConflict ''revision is stale'')
          else Inr s)"

definition update_schedule ::
  "trigger_library \<Rightarrow> task_registry \<Rightarrow> string \<Rightarrow> nat \<Rightarrow> schedule_changes \<Rightarrow> string \<Rightarrow> timestamp \<Rightarrow> sched_db \<Rightarrow>
   sched_error + sched_db" where
  "update_schedule lib reg schedule_id expected_revision changes user_id now db =
     and_then (mutable_schedule schedule_id expected_revision db) (\<lambda>schedule.
     if sc_active_execution_id schedule \<noteq> None then Inl (ScheduleConflict ''active execution'')
     else (let task_name = changed_or (chg_task_name changes) (sc_task_name schedule);
               payload = changed_or (chg_payload changes) (sc_payload schedule);
               trigger_type = changed_or (chg_trigger_type changes) (sc_trigger_type schedule);
               data = changed_or (chg_trigger_data changes) (sc_trigger_data schedule);
               timezone = changed_or (chg_timezone changes) (sc_timezone schedule)
           in and_then (user_registration reg task_name) (\<lambda>r.
              and_then (validate_payload reg task_name (rg_contract_version r) payload) (\<lambda>validated_payload.
              and_then (build lib trigger_type data timezone) (\<lambda>trigger.
                let next_run_at = first_run_at trigger now in
                if (case next_run_at of None \<Rightarrow> False
                    | Some t \<Rightarrow> list_ex (\<lambda>e. ex_schedule_id e = schedule_id \<and> ex_scheduled_for e = t) (sd_executions db))
                then Inl (ScheduleConflict ''occurrence has already been recorded'')
                else (let p = (\<lambda>s. sc_id s = schedule_id \<and> sc_revision s = expected_revision \<and>
                                   sc_active_execution_id s = None)
                      in if length (filter p (sd_schedules db)) \<noteq> 1 then Inl (ScheduleConflict ''changed concurrently'')
                         else Inr (update_schedules p
                           (\<lambda>s. s\<lparr>sc_task_name := task_name, sc_task_contract_version := rg_contract_version r,
                                  sc_payload := validated_payload, sc_trigger_type := trigger_type,
                                  sc_trigger_data := data, sc_timezone := timezone,
                                  sc_enabled := changed_or (chg_enabled changes) (sc_enabled schedule),
                                  sc_status := SActive, sc_next_run_at := next_run_at,
                                  sc_pending_scheduled_for := None, sc_updated_by := Some user_id,
                                  sc_updated_at := now, sc_revision := expected_revision + 1\<rparr>) db)))))))"

text \<open>The schedule passed in is the loaded row with its pending assignments; the result is that row
  with its slot freed where the source frees it.\<close>

definition cancel_unstarted_schedule_execution ::
  "schedule \<Rightarrow> timestamp \<Rightarrow> string \<Rightarrow> sched_db \<Rightarrow> schedule \<times> sched_db" where
  "cancel_unstarted_schedule_execution schedule now reason db =
     (case sc_active_execution_id schedule of
        None \<Rightarrow> (schedule, db)
      | Some eid \<Rightarrow>
          (let p = (\<lambda>e. ex_id e = eid \<and> ex_state e \<in> {EPending, ERetryWait});
               db1 = update_executions p (cancel_rows now reason) db;
               freed = schedule\<lparr>sc_active_execution_id := None\<rparr>
           in if execution_count p db = 1 then (freed, db1)
              else (case find_execution db1 eid of
                      None \<Rightarrow> (freed, db1)
                    | Some e \<Rightarrow> if unfinished (ex_state e) then (schedule, db1) else (freed, db1))))"

definition retire_schedule :: "schedule \<Rightarrow> timestamp \<Rightarrow> string \<Rightarrow> sched_db \<Rightarrow> sched_db" where
  "retire_schedule schedule now reason db =
     (let (s, db1) = cancel_unstarted_schedule_execution
            (schedule\<lparr>sc_enabled := False, sc_status := SDeleted, sc_next_run_at := None,
               sc_pending_scheduled_for := None, sc_revision := sc_revision schedule + 1,
               sc_updated_at := now, sc_deleted_at := Some now\<rparr>) now reason db
      in set_schedule s db1)"

definition delete_schedule :: "string \<Rightarrow> nat \<Rightarrow> string \<Rightarrow> timestamp \<Rightarrow> sched_db \<Rightarrow> sched_error + sched_db" where
  "delete_schedule schedule_id expected_revision user_id now db =
     and_then (mutable_schedule schedule_id expected_revision db) (\<lambda>schedule.
       Inr (retire_schedule (schedule\<lparr>sc_updated_by := Some user_id\<rparr>) now
              ''Schedule deleted before execution started'' db))"

section \<open>System schedules\<close>

text \<open>The desired definitions: \<open>(registration, definition, payload)\<close> by schedule id.\<close>

fun desired_schedules ::
  "task_registry \<Rightarrow> registration list \<Rightarrow> (string, registration \<times> system_schedule_definition \<times> string) odict \<Rightarrow>
   sched_error + (string, registration \<times> system_schedule_definition \<times> string) odict" where
  "desired_schedules reg [] desired = Inr desired"
| "desired_schedules reg (r # rs) desired =
     (case rg_system_schedule r of
        Some (Some d) \<Rightarrow>
          if df_id d \<in> set (od_keys desired) then Inl (DuplicateSystemSchedule (df_id d))
          else and_then (validate_payload reg (rg_name r) (rg_contract_version r) (df_payload d)) (\<lambda>payload.
                 desired_schedules reg rs (od_set (df_id d) (r, d, payload) desired))
      | _ \<Rightarrow> desired_schedules reg rs desired)"

text \<open>The trigger data with the interval anchor that is kept or generated.\<close>

definition anchored_data ::
  "trigger_library \<Rightarrow> system_schedule_definition \<Rightarrow> schedule option \<Rightarrow> timestamp \<Rightarrow> trigger_data" where
  "anchored_data lib d schedule now =
     (if df_trigger_type d = ''interval'' \<and> od_get (df_trigger_data d) ''start_at'' = None
      then od_set ''start_at''
             (case schedule of
                None \<Rightarrow> JStr (tl_isoformat lib (from_timestamp now))
              | Some s \<Rightarrow>
                  if sc_trigger_type s = ''interval''
                  then (case od_get (sc_trigger_data s) ''start_at'' of
                          None \<Rightarrow> JStr (tl_isoformat lib (from_timestamp now)) | Some v \<Rightarrow> v)
                  else JStr (tl_isoformat lib (from_timestamp now))) (df_trigger_data d)
      else df_trigger_data d)"

text \<open>\<open>_system_schedule_values\<close>: the columns to assign (as the row with them assigned), the first
  run and the immediate run.\<close>

definition assign_system_values ::
  "registration \<Rightarrow> system_schedule_definition \<Rightarrow> string \<Rightarrow> trigger_data \<Rightarrow> schedule \<Rightarrow> schedule" where
  "assign_system_values r d payload data s =
     s\<lparr>sc_task_name := rg_name r, sc_task_contract_version := rg_contract_version r, sc_payload := payload,
       sc_trigger_type := df_trigger_type d, sc_trigger_data := data, sc_timezone := df_timezone d,
       sc_created_by := None, sc_updated_by := None\<rparr>"

definition system_schedule_values ::
  "trigger_library \<Rightarrow> registration \<Rightarrow> system_schedule_definition \<Rightarrow> schedule option \<Rightarrow> timestamp \<Rightarrow>
   sched_error + (trigger_data \<times> timestamp option \<times> timestamp option)" where
  "system_schedule_values lib r d schedule now =
     (let data = anchored_data lib d schedule now in
      and_then (build lib (df_trigger_type d) data (df_timezone d)) (\<lambda>trigger.
        Inr (data, first_run_at trigger now, if df_run_immediately d then Some now else None)))"

text \<open>Dictionaries are compared without regard to order.\<close>

definition matches_system_schedule ::
  "schedule \<Rightarrow> registration \<Rightarrow> system_schedule_definition \<Rightarrow> string \<Rightarrow> trigger_data \<Rightarrow> bool" where
  "matches_system_schedule s r d payload data \<longleftrightarrow>
     sc_task_name s = rg_name r \<and> sc_task_contract_version s = rg_contract_version r \<and> sc_payload s = payload \<and>
     sc_trigger_type s = df_trigger_type d \<and> set (sc_trigger_data s) = set data \<and> sc_timezone s = df_timezone d \<and>
     sc_created_by s = None \<and> sc_updated_by s = None \<and> sc_enabled s \<and> sc_status s = SActive"

definition orphaned :: "string set \<Rightarrow> schedule \<Rightarrow> bool" where
  "orphaned desired s \<longleftrightarrow> sc_system_managed s \<and> sc_id s \<notin> desired \<and> (sc_enabled s \<or> sc_status s \<noteq> SDeleted)"

definition retire_orphan :: "string set \<Rightarrow> timestamp \<Rightarrow> string \<Rightarrow> nat \<times> sched_db \<Rightarrow> nat \<times> sched_db" where
  "retire_orphan desired now schedule_id = (\<lambda>(changed, db).
     case find_schedule db schedule_id of
       None \<Rightarrow> (changed, db)
     | Some s \<Rightarrow> if \<not> orphaned desired s then (changed, db)
                 else (changed + 1, retire_schedule s now ''System schedule retired before execution started'' db))"

definition reconcile_schedule ::
  "trigger_library \<Rightarrow> timestamp \<Rightarrow> string \<times> registration \<times> system_schedule_definition \<times> string \<Rightarrow> nat \<times> sched_db \<Rightarrow>
   sched_error + (nat \<times> sched_db)" where
  "reconcile_schedule lib now = (\<lambda>(schedule_id, r, d, payload) (changed, db).
     case find_schedule db schedule_id of
       None \<Rightarrow>
         and_then (system_schedule_values lib r d None now) (\<lambda>(data, next_run_at, pending).
         and_then (insert_schedule
           \<lparr>sc_id = schedule_id, sc_task_name = rg_name r, sc_task_contract_version = rg_contract_version r,
            sc_payload = payload, sc_trigger_type = df_trigger_type d, sc_trigger_data = data,
            sc_timezone = df_timezone d, sc_system_managed = True, sc_enabled = True, sc_status = SActive,
            sc_revision = 1, sc_next_run_at = next_run_at, sc_active_execution_id = None,
            sc_pending_scheduled_for = pending, sc_created_by = None, sc_created_at = now,
            sc_updated_by = None, sc_updated_at = now, sc_deleted_at = None\<rparr> db) (\<lambda>db1.
         Inr (changed + 1, db1)))
     | Some s \<Rightarrow>
         if \<not> sc_system_managed s then Inl (UserManaged schedule_id)
         else and_then (system_schedule_values lib r d (Some s) now) (\<lambda>(data, next_run_at, pending).
           if matches_system_schedule s r d payload data then Inr (changed, db)
           else Inr (changed + 1, set_schedule
             (assign_system_values r d payload data s
                \<lparr>sc_enabled := True, sc_status := SActive, sc_next_run_at := next_run_at,
                 sc_pending_scheduled_for := pending, sc_revision := sc_revision s + 1,
                 sc_updated_at := now, sc_deleted_at := None\<rparr>) db)))"

definition synchronize_system_schedules ::
  "trigger_library \<Rightarrow> task_registry \<Rightarrow> timestamp \<Rightarrow> sched_db \<Rightarrow> sched_error + (nat \<times> sched_db)" where
  "synchronize_system_schedules lib reg now db =
     and_then (desired_schedules reg (map snd reg) []) (\<lambda>desired.
       let ids = set (od_keys desired);
           retired = fold (retire_orphan ids now) (map sc_id (filter (orphaned ids) (sd_schedules db))) (0, db)
       in foldM (reconcile_schedule lib now) desired retired)"

end
