(* ===== verification/SchedulingInvariants.thy ===== *)
theory SchedulingInvariants
  imports Scheduling
begin

text \<open>
  What the scheduler guarantees: every transaction of \<open>Scheduling\<close> keeps the tables well formed and
  changes only the execution rows its caller may change (the predicate \<open>sound\<close>), so the guarantees
  hold for every interleaving of the transactions of any number of servers and workers
  (\<open>sched_step\<close>, \<open>sched_reachable\<close>).
\<close>

section \<open>The execution slot\<close>

text \<open>A running row, and only a running row, has a lease.\<close>

definition lease_ok :: "execution \<Rightarrow> bool" where
  "lease_ok e \<longleftrightarrow> (ex_state e = ERunning \<longleftrightarrow> ex_lease_owner e \<noteq> None) \<and>
     (ex_lease_owner e = None \<longleftrightarrow> ex_lease_expires_at e = None)"

definition slot_free :: "sched_db \<Rightarrow> string \<Rightarrow> bool" where
  "slot_free db sid \<longleftrightarrow> (\<forall>e\<in>set (sd_executions db). ex_schedule_id e = sid \<longrightarrow> \<not> unfinished (ex_state e))"

text \<open>Keys are unique and every unfinished execution occupies the slot of its schedule.\<close>

definition sched_ok :: "sched_db \<Rightarrow> bool" where
  "sched_ok db \<longleftrightarrow> distinct (map sc_id (sd_schedules db)) \<and> distinct (map ex_id (sd_executions db)) \<and>
     (\<forall>e\<in>set (sd_executions db). lease_ok e \<and> (unfinished (ex_state e) \<longrightarrow>
        (\<exists>s\<in>set (sd_schedules db). sc_id s = ex_schedule_id e \<and> sc_active_execution_id s = Some (ex_id e))))"

text \<open>A row may be changed by \<open>worker\<close> at \<open>now\<close>: it is unfinished and its lease is the worker's or over.\<close>

definition may_change :: "string option \<Rightarrow> timestamp \<Rightarrow> execution \<Rightarrow> bool" where
  "may_change worker now e \<longleftrightarrow> unfinished (ex_state e) \<and> (lease_running now e \<longrightarrow> ex_lease_owner e = worker)"

definition touches :: "string option \<Rightarrow> timestamp \<Rightarrow> sched_db \<Rightarrow> sched_db \<Rightarrow> bool" where
  "touches worker now db db' \<longleftrightarrow>
     (\<forall>e\<in>set (sd_executions db). e \<in> set (sd_executions db') \<or> may_change worker now e)"

text \<open>What every transaction does: it keeps the invariant and changes only rows it may.\<close>

definition sound :: "string option \<Rightarrow> timestamp \<Rightarrow> sched_db \<Rightarrow> sched_db \<Rightarrow> bool" where
  "sound worker now db db' \<longleftrightarrow> (sched_ok db \<longrightarrow> sched_ok db' \<and> touches worker now db db')"

definition safe_update :: "string option \<Rightarrow> timestamp \<Rightarrow> (execution \<Rightarrow> bool) \<Rightarrow> (execution \<Rightarrow> execution) \<Rightarrow> bool" where
  "safe_update worker now p f \<longleftrightarrow> (\<forall>e. p e \<and> lease_ok e \<longrightarrow> may_change worker now e \<and>
     ex_id (f e) = ex_id e \<and> ex_schedule_id (f e) = ex_schedule_id e \<and> lease_ok (f e))"

lemma sound_refl [simp, intro]: "sound w now db db"
  by (simp add: sound_def touches_def)

lemma sound_trans: "sound w now db db1 \<Longrightarrow> sound w now db1 db2 \<Longrightarrow> sound w now db db2"
  unfolding sound_def touches_def by blast

lemma table_simps [simp]:
  "sd_schedules (update_executions p f db) = sd_schedules db"
  "sd_executions (update_executions p f db) = map (\<lambda>e. if p e then f e else e) (sd_executions db)"
  "sd_executions (update_schedules q h db) = sd_executions db"
  "sd_schedules (update_schedules q h db) = map (\<lambda>s. if q s then h s else s) (sd_schedules db)"
  "sd_executions (set_schedule s db) = sd_executions db"
  by (simp_all add: update_executions_def update_schedules_def set_schedule_def)

lemma sched_okI:
  assumes "distinct (map sc_id (sd_schedules db))" "distinct (map ex_id (sd_executions db))"
    and "\<And>e. e \<in> set (sd_executions db) \<Longrightarrow> lease_ok e"
    and "\<And>e. e \<in> set (sd_executions db) \<Longrightarrow> unfinished (ex_state e) \<Longrightarrow>
      \<exists>s\<in>set (sd_schedules db). sc_id s = ex_schedule_id e \<and> sc_active_execution_id s = Some (ex_id e)"
  shows "sched_ok db"
  using assms by (simp add: sched_ok_def)

lemma find_schedule_Some:
  assumes "find_schedule db sid = Some s"
  shows "s \<in> set (sd_schedules db)" "sc_id s = sid"
  using assms by (auto simp: find_schedule_def find_Some_iff in_set_conv_nth)

lemma schedule_unique:
  assumes "sched_ok db" "s \<in> set (sd_schedules db)" "t \<in> set (sd_schedules db)" "sc_id s = sc_id t"
  shows "s = t"
  using assms by (auto simp: sched_ok_def distinct_map inj_on_def)

lemma execution_unique:
  assumes "sched_ok db" "d \<in> set (sd_executions db)" "e \<in> set (sd_executions db)" "ex_id d = ex_id e"
  shows "d = e"
  using assms by (auto simp: sched_ok_def distinct_map inj_on_def)

lemma slot_holder:
  assumes "sched_ok db" "s \<in> set (sd_schedules db)" "e \<in> set (sd_executions db)"
    and "ex_schedule_id e = sc_id s" "unfinished (ex_state e)"
  shows "sc_active_execution_id s = Some (ex_id e)"
proof -
  obtain t where "t \<in> set (sd_schedules db)" "sc_id t = ex_schedule_id e" "sc_active_execution_id t = Some (ex_id e)"
    using assms by (auto simp: sched_ok_def)
  with schedule_unique[OF assms(1,2)] assms(4) show ?thesis by metis
qed

lemma empty_slot_free:
  assumes "sched_ok db" "find_schedule db sid = Some s" "sc_active_execution_id s = None"
  shows "slot_free db sid"
  using slot_holder[OF assms(1) find_schedule_Some(1)[OF assms(2)]] find_schedule_Some(2)[OF assms(2)] assms(3)
  by (auto simp: slot_free_def)

lemma map_if_eq:
  assumes "\<forall>x\<in>set xs. p x \<longrightarrow> g (f x) = g x"
  shows "map g (map (\<lambda>x. if p x then f x else x) xs) = map g xs"
  using assms by auto

lemma update_executions_ok:
  assumes ok: "sched_ok db" and safe: "safe_update w now p f"
    and keep: "\<And>e. p e \<Longrightarrow> lease_ok e \<Longrightarrow> unfinished (ex_state e)"
  shows "sched_ok (update_executions p f db) \<and> touches w now db (update_executions p f db)"
proof -
  let ?up = "\<lambda>e. if p e then f e else e"
  have lease: "lease_ok e" if "e \<in> set (sd_executions db)" for e using ok that by (simp add: sched_ok_def)
  have row: "ex_id (?up e) = ex_id e \<and> ex_schedule_id (?up e) = ex_schedule_id e \<and> lease_ok (?up e) \<and>
      (unfinished (ex_state (?up e)) \<longrightarrow> unfinished (ex_state e))" if "e \<in> set (sd_executions db)" for e
    using safe lease[OF that] keep[of e] by (auto simp: safe_update_def)
  have ids: "map ex_id (map ?up (sd_executions db)) = map ex_id (sd_executions db)"
    using row by (auto simp: map_if_eq)
  have "sched_ok (update_executions p f db)"
  proof (rule sched_okI)
    show "distinct (map ex_id (sd_executions (update_executions p f db)))"
      using ok by (simp only: table_simps ids) (simp add: sched_ok_def)
  next
    fix e' assume "e' \<in> set (sd_executions (update_executions p f db))"
    then obtain e where e: "e \<in> set (sd_executions db)" "e' = ?up e" by auto
    show "lease_ok e'" using row[OF e(1)] e(2) by simp
    show "\<exists>s\<in>set (sd_schedules (update_executions p f db)). sc_id s = ex_schedule_id e' \<and>
        sc_active_execution_id s = Some (ex_id e')" if "unfinished (ex_state e')"
      using row[OF e(1)] e ok that by (simp add: sched_ok_def)
  qed (use ok in \<open>simp add: sched_ok_def\<close>)
  moreover have "touches w now db (update_executions p f db)"
    using safe lease by (force simp: touches_def update_executions_def safe_update_def image_iff)
  ultimately show ?thesis by blast
qed

lemma may_change_unfinished: "may_change w now e \<Longrightarrow> unfinished (ex_state e)"
  by (simp add: may_change_def)

lemma sound_update:
  assumes "safe_update w now p f"
  shows "sound w now db (update_executions p f db)"
  unfolding sound_def
proof
  assume ok: "sched_ok db"
  have "\<And>e. p e \<Longrightarrow> lease_ok e \<Longrightarrow> unfinished (ex_state e)"
    using assms by (auto simp: safe_update_def intro: may_change_unfinished)
  from update_executions_ok[OF ok assms this]
  show "sched_ok (update_executions p f db) \<and> touches w now db (update_executions p f db)" .
qed

text \<open>Schedule rows: the slot may change only while the schedule has no unfinished execution.\<close>

lemma sound_schedules:
  assumes "\<And>s. s \<in> set (sd_schedules db) \<Longrightarrow> p s \<Longrightarrow> sched_ok db \<Longrightarrow> sc_id (f s) = sc_id s \<and>
    (sc_active_execution_id (f s) = sc_active_execution_id s \<or> slot_free db (sc_id s))"
  shows "sound w now db (update_schedules p f db)"
  unfolding sound_def
proof (intro impI conjI)
  assume ok: "sched_ok db"
  have ids: "map sc_id (map (\<lambda>s. if p s then f s else s) (sd_schedules db)) = map sc_id (sd_schedules db)"
    using assms ok by (intro map_if_eq) simp
  have "\<exists>s\<in>set (map (\<lambda>s. if p s then f s else s) (sd_schedules db)).
      sc_id s = ex_schedule_id e \<and> sc_active_execution_id s = Some (ex_id e)"
    if e: "e \<in> set (sd_executions db)" "unfinished (ex_state e)" for e
  proof -
    obtain s where s: "s \<in> set (sd_schedules db)" "sc_id s = ex_schedule_id e"
      "sc_active_execution_id s = Some (ex_id e)" using ok e by (auto simp: sched_ok_def)
    moreover have "\<not> slot_free db (sc_id s)" using e s(2) by (auto simp: slot_free_def)
    ultimately show ?thesis using assms[OF s(1) _ ok] by (intro bexI[of _ "if p s then f s else s"]) auto
  qed
  then show "sched_ok (update_schedules p f db)"
    using ok by (intro sched_okI) (simp_all only: table_simps ids, simp_all add: sched_ok_def)
  show "touches w now db (update_schedules p f db)" by (simp add: touches_def update_schedules_def)
qed

lemma sound_set_schedule:
  assumes "find_schedule db (sc_id s) = Some t"
    and "sched_ok db \<Longrightarrow> sc_active_execution_id s = sc_active_execution_id t \<or> slot_free db (sc_id s)"
  shows "sound w now db (set_schedule s db)"
  unfolding set_schedule_def
proof (rule sound_schedules)
  fix u assume u: "u \<in> set (sd_schedules db)" "sc_id u = sc_id s" "sched_ok db"
  then have "u = t" using find_schedule_Some[OF assms(1)] schedule_unique[of db u t] by simp
  with assms(2) u show "sc_id s = sc_id u \<and>
      (sc_active_execution_id s = sc_active_execution_id u \<or> slot_free db (sc_id u))" by simp
qed

lemma find_schedule_update_executions [simp]: "find_schedule (update_executions p f db) = find_schedule db"
  by (simp add: find_schedule_def update_executions_def fun_eq_iff)

lemma slot_free_after:
  assumes "sched_ok db" "find_schedule db sid = Some s" "sc_active_execution_id s = Some eid"
    and "\<forall>e\<in>set (sd_executions db). ex_id e = eid \<longrightarrow> \<not> unfinished (ex_state e)"
  shows "slot_free db sid"
  using slot_holder[OF assms(1) find_schedule_Some(1)[OF assms(2)]] find_schedule_Some(2)[OF assms(2)] assms(3,4)
  by (auto simp: slot_free_def)

lemma sound_create_execution:
  assumes "create_execution exec_id s due g now' db = Inr db'" "find_schedule db (sc_id s) = Some t"
    and "sched_ok db \<Longrightarrow> slot_free db (sc_id s)"
  shows "sound w now db db'"
  unfolding sound_def
proof
  assume ok: "sched_ok db"
  define eid where "eid = exec_id (sc_id s) due"
  define s1 where "s1 = s\<lparr>sc_active_execution_id := Some eid\<rparr>"
  define item where "item = new_execution eid s due g now'"
  have item: "ex_id item = eid" "ex_schedule_id item = sc_id s" "lease_ok item"
    by (simp_all add: item_def new_execution_def lease_ok_def)
  have fresh: "eid \<notin> set (map ex_id (sd_executions db))"
    and db': "db' = set_schedule s1 (db\<lparr>sd_executions := sd_executions db @ [item]\<rparr>)"
    using assms(1) unfolding create_execution_def Let_def eid_def[symmetric] s1_def item_def
    by (auto simp: list_ex_iff split: if_splits)
  have free: "slot_free db (sc_id s)" using assms(3) ok .
  have mid: "sound w now db (set_schedule s1 db)"
    by (rule sound_set_schedule) (use assms(2) free in \<open>simp_all add: s1_def\<close>)
  let ?db1 = "set_schedule s1 db"
  have ok1: "sched_ok ?db1" using mid ok by (simp add: sound_def)
  have there: "s1 \<in> set (sd_schedules ?db1)"
    using find_schedule_Some[OF assms(2)] by (force simp: set_schedule_def update_schedules_def s1_def image_iff)
  then have slot: "\<exists>t\<in>set (sd_schedules ?db1). sc_id t = ex_schedule_id item \<and> sc_active_execution_id t = Some (ex_id item)"
    using item by (intro bexI[of _ s1]) (simp_all add: s1_def)
  have eq: "db' = ?db1\<lparr>sd_executions := sd_executions ?db1 @ [item]\<rparr>"
    by (simp add: db' set_schedule_def update_schedules_def)
  have ex: "sd_executions ?db1 = sd_executions db" by (simp add: set_schedule_def update_schedules_def)
  have "sched_ok db'"
    using ok1 item fresh slot unfolding eq sched_ok_def by (auto simp: ex)
  then show "sched_ok db' \<and> touches w now db db'" by (simp add: eq touches_def ex)
qed

section \<open>Every transaction is sound\<close>

lemmas safe_defs = safe_update_def may_change_def lease_running_def lease_ok_def unfinished_def

lemma sound_claim_execution_row:
  "sound (Some owner) now db (snd (claim_execution_row eid sid g owner policy now db))"
proof -
  have "safe_update (Some owner) now (\<lambda>e. ex_id e = eid \<and> ex_schedule_id e = sid \<and> runnable g now e)
      (start_lease owner l now)" for l
    by (auto simp: safe_defs runnable_def due_at_def start_lease_def split: option.splits)
  from sound_update[OF this] show ?thesis
    by (auto simp: claim_execution_row_def Let_def split: option.splits)
qed

lemma sound_mark_dispatched: "sound w now db (snd (mark_dispatched eid g attempt now db))"
  unfolding mark_dispatched_def Let_def snd_conv
  by (rule sound_update) (auto simp: safe_defs)

lemma sound_refresh: "sound (Some owner) now db (snd (refresh_execution_lease eid owner policy now db))"
  unfolding refresh_execution_lease_def Let_def
  by (auto intro!: sound_update simp: safe_defs)

lemma release_sound:
  assumes "release_schedule_execution exec_id s g status now db = Inr db'" "find_schedule db (sc_id s) = Some t"
    and "sched_ok db \<Longrightarrow> slot_free db (sc_id s)"
  shows "sound w now db db'"
proof -
  have set: "sound w now db (set_schedule u db)" if "sc_id u = sc_id s" for u
    by (rule sound_set_schedule) (use assms that in auto)
  show ?thesis
  proof (cases "sc_status s = SDeleted \<or> sc_pending_scheduled_for s = None")
    case True
    then show ?thesis using assms(1) set
      by (auto simp: release_schedule_execution_def Let_def split: if_splits option.splits)
  next
    case False
    then obtain due where "create_execution exec_id (s\<lparr>sc_active_execution_id := None, sc_pending_scheduled_for := None\<rparr>)
        due g now db = Inr db'"
      using assms(1) by (auto simp: release_schedule_execution_def Let_def)
    then show ?thesis by (rule sound_create_execution) (use assms in auto)
  qed
qed

text \<open>After the lease holder has ended its execution the slot is free.\<close>

lemma slot_free_released:
  assumes "sched_ok (update_executions p f db)" "find_schedule db sid = Some s"
    and "sc_active_execution_id s = Some eid"
    and "\<And>e. p e \<Longrightarrow> \<not> unfinished (ex_state (f e))"
    and "\<And>e. e \<in> set (sd_executions db) \<Longrightarrow> ex_id e = eid \<Longrightarrow> unfinished (ex_state e) \<Longrightarrow> p e"
    and "\<And>e. p e \<Longrightarrow> ex_id (f e) = ex_id e"
  shows "slot_free (update_executions p f db) sid"
  by (rule slot_free_after[OF assms(1) _ assms(3)]) (use assms in auto)

lemma counted_execution:
  assumes "sched_ok db" "execution_count p db \<noteq> 0" "\<And>e. p e \<Longrightarrow> ex_id e = eid"
    and "e \<in> set (sd_executions db)" "ex_id e = eid"
  shows "p e"
proof -
  obtain d where "d \<in> set (sd_executions db)" "p d"
    using assms(2) by (auto simp: execution_count_def filter_empty_conv)
  with execution_unique[OF assms(1) _ assms(4)] assms(3,5) show ?thesis by metis
qed

lemma sound_finish:
  assumes safe: "safe_update w now p f" and s: "find_schedule db sid = Some s" "sc_active_execution_id s = Some eid"
    and count: "execution_count p db \<noteq> 0" and ids: "\<And>e. p e \<Longrightarrow> ex_id e = eid"
    and f: "\<And>e. p e \<Longrightarrow> ex_id (f e) = ex_id e \<and> \<not> unfinished (ex_state (f e))"
    and after: "\<And>d. find_schedule d sid = Some s \<Longrightarrow> (sched_ok d \<Longrightarrow> slot_free d sid) \<Longrightarrow>
      d = update_executions p f db \<Longrightarrow> sound w now d db'"
  shows "sound w now db db'"
  unfolding sound_def
proof
  assume ok: "sched_ok db"
  have up: "sound w now db (update_executions p f db)" using safe by (rule sound_update)
  have "sound w now (update_executions p f db) db'"
  proof (rule after)
    show "find_schedule (update_executions p f db) sid = Some s" using s by simp
    show "slot_free (update_executions p f db) sid" if "sched_ok (update_executions p f db)"
      by (rule slot_free_released[OF that s]) (use f counted_execution[OF ok count ids] in auto)
  qed simp
  from sound_trans[OF up this] ok show "sched_ok db' \<and> touches w now db db'" by (simp add: sound_def)
qed

lemma owned_by_safe:
  assumes "\<And>e. ex_id (f e) = ex_id e" "\<And>e. ex_schedule_id (f e) = ex_schedule_id e"
    and "\<And>e. lease_ok (f e)"
  shows "safe_update (Some (cl_lease_owner c)) now (owned_by c g) f"
  using assms by (auto simp: safe_update_def may_change_def unfinished_def owned_by_def)

lemma sound_complete:
  assumes "complete_execution exec_id c g result now db = Inr (b, db')"
  shows "sound (Some (cl_lease_owner c)) now db db'"
proof -
  define f where "f = (\<lambda>e :: execution. e\<lparr>ex_state := ESucceeded, ex_completed_at := Some now, ex_result := Some result,
      ex_lease_owner := None, ex_lease_expires_at := None\<rparr>)"
  have safe: "safe_update (Some (cl_lease_owner c)) now (owned_by c g) f"
    by (rule owned_by_safe) (simp_all add: f_def lease_ok_def)
  have fin: "ex_id (f e) = ex_id e \<and> \<not> unfinished (ex_state (f e))" for e by (simp add: f_def unfinished_def)
  consider (same) "db' = db" | (plain) "db' = update_executions (owned_by c g) f db"
    | (release) s where "find_schedule db (cl_schedule_id c) = Some s" "sc_active_execution_id s = Some (cl_id c)"
        "execution_count (owned_by c g) db = 1"
        "release_schedule_execution exec_id s g SCompleted now (update_executions (owned_by c g) f db) = Inr db'"
    using assms unfolding complete_execution_def Let_def f_def[symmetric]
    by (auto simp: error_simps split: option.splits if_splits)
  then show ?thesis
  proof cases
    case (release s)
    show ?thesis
    proof (rule sound_finish[OF safe release(1,2)])
      show "sound (Some (cl_lease_owner c)) now d db'"
        if "find_schedule d (cl_schedule_id c) = Some s" "sched_ok d \<Longrightarrow> slot_free d (cl_schedule_id c)"
          "d = update_executions (owned_by c g) f db" for d
        using release_sound[of exec_id s g SCompleted now d db' s] release(4) that find_schedule_Some(2)[OF that(1)] by simp
    qed (use release(3) fin in \<open>auto simp: owned_by_def\<close>)
  qed (simp_all add: sound_update[OF safe])
qed

lemma sound_fail:
  assumes "fail_execution exec_id c g m ib mb err now db = Inr (b, db')"
  shows "sound (Some (cl_lease_owner c)) now db db'"
proof -
  define f where "f = (\<lambda>retry (e :: execution).
      let e1 = e\<lparr>ex_error := Some (take 1024 err), ex_lease_owner := None, ex_lease_expires_at := None\<rparr> in
      if retry then e1\<lparr>ex_state := ERetryWait, ex_dispatch_state := DPending, ex_dispatched_at := None,
           ex_retry_at := Some (now + of_nat (min (ib * 2 ^ (cl_attempt c - 1)) mb))\<rparr>
      else e1\<lparr>ex_state := EFailed, ex_completed_at := Some now\<rparr>)"
  have safe: "safe_update (Some (cl_lease_owner c)) now (owned_by c g) (f r)" for r
    by (rule owned_by_safe) (simp_all add: f_def Let_def lease_ok_def)
  have fin: "ex_id (f False e) = ex_id e \<and> \<not> unfinished (ex_state (f False e))" for e
    by (simp add: f_def Let_def unfinished_def)
  consider (same) "db' = db" | (plain) r where "db' = update_executions (owned_by c g) (f r) db"
    | (release) s where "find_schedule db (cl_schedule_id c) = Some s" "sc_active_execution_id s = Some (cl_id c)"
        "execution_count (owned_by c g) db = 1"
        "release_schedule_execution exec_id s g SFailed now (update_executions (owned_by c g) (f False) db) = Inr db'"
  proof (cases "find_schedule db (cl_schedule_id c)")
    case None
    then show ?thesis using assms that(1) by (simp add: fail_execution_def)
  next
    case (Some s)
    then show ?thesis using assms that
      unfolding fail_execution_def Let_def f_def[unfolded Let_def, symmetric]
      by (auto simp: error_simps f_def Let_def split: if_splits)
  qed
  then show ?thesis
  proof cases
    case (release s)
    show ?thesis
    proof (rule sound_finish[OF safe release(1,2)])
      show "sound (Some (cl_lease_owner c)) now d db'"
        if "find_schedule d (cl_schedule_id c) = Some s" "sched_ok d \<Longrightarrow> slot_free d (cl_schedule_id c)"
          "d = update_executions (owned_by c g) (f False) db" for d
        using release_sound[of exec_id s g SFailed now d db' s] release(4) that find_schedule_Some(2)[OF that(1)] by simp
    qed (use release(3) fin in \<open>auto simp: owned_by_def\<close>)
  qed (simp_all add: sound_update[OF safe])
qed

lemma cancel_rows_finished [simp]: "\<not> unfinished (ex_state (cancel_rows now r e))" "ex_id (cancel_rows now r e) = ex_id e"
  "ex_schedule_id (cancel_rows now r e) = ex_schedule_id e" "lease_ok (cancel_rows now r e)"
  by (simp_all add: cancel_rows_def unfinished_def lease_ok_def)

lemma sound_cancel_expired_deleted: "sound w now db (cancel_expired_deleted now c db)"
proof -
  obtain eid sid where c: "c = (eid, sid)" by (cases c)
  define p where "p = (\<lambda>e :: execution. ex_id e = eid \<and> ex_schedule_id e = sid \<and> ex_state e = ERunning \<and> lease_over now e)"
  define r where "r = ''Execution lease expired after schedule deletion''"
  have safe: "safe_update w now p (cancel_rows now r)"
    by (auto simp: safe_update_def p_def may_change_def unfinished_def lease_over_def lease_running_def split: option.splits)
  show ?thesis
  proof (cases "find_schedule db sid")
    case (Some s)
    have "sound w now db (set_schedule (s\<lparr>sc_active_execution_id := None\<rparr>) (update_executions p (cancel_rows now r) db))"
      if a: "sc_active_execution_id s = Some eid" and n: "execution_count p db = 1"
    proof (rule sound_finish[OF safe Some a])
      show "sound w now d (set_schedule (s\<lparr>sc_active_execution_id := None\<rparr>) (update_executions p (cancel_rows now r) db))"
        if "find_schedule d sid = Some s" "sched_ok d \<Longrightarrow> slot_free d sid" "d = update_executions p (cancel_rows now r) db" for d
        unfolding that(3)[symmetric]
        by (rule sound_set_schedule) (use that find_schedule_Some(2)[OF that(1)] in auto)
    qed (use n in \<open>auto simp: p_def\<close>)
    then show ?thesis using sound_update[OF safe, of db] Some
      unfolding p_def r_def by (auto simp: cancel_expired_deleted_def c Let_def)
  qed (simp add: cancel_expired_deleted_def c)
qed

lemma sound_recover: "sound w now db (recover_dispatches g timeout now db)"
  unfolding recover_dispatches_def
  by (rule sound_trans[OF sound_update sound_update])
     (auto simp: safe_defs lease_over_def split: option.splits)

lemma sound_runtime:
  assumes "ensure_runtime_state provider ns now db = Inr (g, db')"
  shows "sound w now db db'"
proof -
  have same: "sound w now db (db\<lparr>sd_runtime := r\<rparr>)" for r
    by (simp add: sound_def sched_ok_def touches_def)
  have switch: "sound w now db (update_executions p (reset_to_generation g) (db\<lparr>sd_runtime := r\<rparr>))"
    if "\<not> list_ex (lease_running now) (sd_executions db)" "p = (\<lambda>e. unfinished (ex_state e) \<and> schedule_live db (ex_schedule_id e))" for p g r
  proof -
    let ?q = "\<lambda>e. p e \<and> \<not> lease_running now e"
    have "safe_update w now ?q (reset_to_generation g)"
      by (auto simp: safe_update_def may_change_def that(2) reset_to_generation_def lease_ok_def)
    then have "sound w now (db\<lparr>sd_runtime := r\<rparr>) (update_executions ?q (reset_to_generation g) (db\<lparr>sd_runtime := r\<rparr>))"
      by (rule sound_update)
    moreover have "update_executions ?q (reset_to_generation g) (db\<lparr>sd_runtime := r\<rparr>) =
        update_executions p (reset_to_generation g) (db\<lparr>sd_runtime := r\<rparr>)"
      using that(1) by (simp add: update_executions_def list_ex_iff)
    ultimately show ?thesis using sound_trans[OF same[of r]] by simp
  qed
  show ?thesis using assms same switch
    by (auto simp: ensure_runtime_state_def Let_def split: if_splits)
qed

lemma sound_advance:
  assumes "advance_schedule_if_current s f db = (b, db')"
    and "\<And>u. sc_id (f u) = sc_id u \<and> sc_active_execution_id (f u) = sc_active_execution_id u"
  shows "sound w now db db'"
proof -
  have "db' = snd (advance_schedule_if_current s f db)" using assms(1) by simp
  also have "sound w now db (snd (advance_schedule_if_current s f db))"
    unfolding advance_schedule_if_current_def Let_def snd_conv by (rule sound_schedules) (use assms(2) in simp)
  finally show ?thesis .
qed

lemma find_map_if:
  assumes "find q xs = Some x" "\<And>y. q (g y) = q y"
  shows "find q (map g xs) = Some (g x)"
  using assms(1)
proof (induction xs)
  case (Cons y ys)
  then show ?case by (cases "q y") (simp_all add: assms(2))
qed simp

lemma sound_reserve:
  assumes adv: "advance_schedule_if_current s f db = (True, db1)" and s: "find_schedule db (sc_id s) = Some s"
    and free: "sc_active_execution_id s = None" and f: "\<And>u. sc_id (f u) = sc_id u"
    and create: "create_execution exec_id (f s) due g now db1 = Inr db2"
  shows "sound w now db db2"
proof -
  define p where "p = (\<lambda>u :: schedule. sc_id u = sc_id s \<and> sc_revision u = sc_revision s \<and> sc_enabled u \<and>
      sc_status u = SActive \<and> sc_next_run_at u = sc_next_run_at s \<and>
      sc_pending_scheduled_for u = sc_pending_scheduled_for s \<and> sc_active_execution_id u = sc_active_execution_id s)"
  have db1: "db1 = update_schedules p f db"
    using adv by (auto simp: advance_schedule_if_current_def p_def Let_def)
  have up: "sound w now db db1"
    unfolding db1
  proof (rule sound_schedules)
    fix u assume u: "u \<in> set (sd_schedules db)" "p u" "sched_ok db"
    then show "sc_id (f u) = sc_id u \<and> (sc_active_execution_id (f u) = sc_active_execution_id u \<or> slot_free db (sc_id u))"
      using f empty_slot_free[OF u(3) s free] by (simp add: p_def)
  qed
  have "\<exists>t. find_schedule db1 (sc_id (f s)) = Some t"
    using find_map_if[of "\<lambda>u. sc_id u = sc_id s" "sd_schedules db" s "\<lambda>u. if p u then f u else u"] s f
    by (simp add: find_schedule_def db1)
  then obtain t where t: "find_schedule db1 (sc_id (f s)) = Some t" by blast
  show ?thesis
    unfolding sound_def
  proof
    assume ok: "sched_ok db"
    have "slot_free db1 (sc_id (f s))" using empty_slot_free[OF ok s free] f by (simp add: slot_free_def db1)
    from sound_create_execution[OF create t this] have "sound w now db1 db2" .
    from sound_trans[OF up this] ok show "sched_ok db2 \<and> touches w now db db2" by (simp add: sound_def)
  qed
qed

lemma sound_apply_advance:
  assumes "apply_advance exec_id g now s next due db = Inr (b, db')" "find_schedule db (sc_id s) = Some s"
  shows "sound w now db db'"
proof (cases due)
  case None
  then show ?thesis using assms(1)
    by (auto simp: apply_advance_def split: prod.splits if_splits elim!: sound_advance)
next
  case (Some d)
  show ?thesis
  proof (cases "sc_active_execution_id s")
    case None
    let ?f = "\<lambda>u :: schedule. u\<lparr>sc_next_run_at := next, sc_pending_scheduled_for := None,
        sc_active_execution_id := Some (exec_id (sc_id s) d)\<rparr>"
    obtain ok db1 where adv: "advance_schedule_if_current s ?f db = (ok, db1)" by fastforce
    show ?thesis
    proof (cases ok)
      case True
      with adv Some None assms(1) have "create_execution exec_id (?f s) d g now db1 = Inr db'"
        by (auto simp: apply_advance_def error_simps)
      then show ?thesis using sound_reserve[of s ?f db db1] adv True assms(2) None by simp
    qed (use adv Some None assms(1) in \<open>simp add: apply_advance_def\<close>)
  next
    case (Some e)
    then show ?thesis using assms(1) \<open>due = Some d\<close>
      by (auto simp: apply_advance_def split: prod.splits if_splits elim!: sound_advance)
  qed
qed

lemma sound_enqueue:
  assumes "enqueue_schedule exec_id lib g policy now sid db = Inr (b, db')"
  shows "sound w now db db'"
proof (cases "find_schedule db sid")
  case None
  then show ?thesis using assms by (simp add: enqueue_schedule_def)
next
  case (Some s)
  then have "find_schedule db (sc_id s) = Some s" using find_schedule_Some(2)[OF Some] by simp
  then show ?thesis using assms Some unfolding enqueue_schedule_def
    by (auto simp: error_simps Let_def split: if_splits intro: sound_apply_advance)
qed

lemma counted_ex: "execution_count p db \<noteq> 0 \<Longrightarrow> \<exists>d\<in>set (sd_executions db). p d"
  by (auto simp: execution_count_def filter_empty_conv)

lemma find_execution_Some: "find_execution db eid = Some e \<Longrightarrow> e \<in> set (sd_executions db) \<and> ex_id e = eid"
  by (auto simp: find_execution_def find_Some_iff in_set_conv_nth)

lemma find_execution_None: "find_execution db eid = None \<Longrightarrow> e \<in> set (sd_executions db) \<Longrightarrow> ex_id e \<noteq> eid"
  by (auto simp: find_execution_def find_None_iff)

lemma sound_insert_schedule:
  assumes "insert_schedule s db = Inr db'"
  shows "sound w now db db'"
proof -
  have "sc_id s \<notin> sc_id ` set (sd_schedules db)" "db' = db\<lparr>sd_schedules := sd_schedules db @ [s]\<rparr>"
    using assms by (auto simp: insert_schedule_def find_schedule_def find_None_iff split: if_splits)
  then show ?thesis by (auto simp: sound_def sched_ok_def touches_def)
qed

lemma sound_create_schedule:
  assumes "create_schedule lib reg i u n p tt d z e now db = Inr db'"
  shows "sound w now db db'"
  using assms unfolding create_schedule_def by (auto simp: error_simps intro: sound_insert_schedule)

lemma sound_update_schedule:
  assumes "update_schedule lib reg sid n ch u now db = Inr db'"
  shows "sound w now db db'"
  using assms unfolding update_schedule_def
  by (auto simp: error_simps Let_def intro!: sound_schedules split: if_splits option.splits)

lemma sound_retire:
  assumes s: "find_schedule db (sc_id s) = Some t" "sc_active_execution_id s = sc_active_execution_id t"
  shows "sound w now db (retire_schedule s now reason db)"
proof (cases "sc_active_execution_id s")
  case None
  then show ?thesis using assms
    by (auto simp: retire_schedule_def cancel_unstarted_schedule_execution_def Let_def intro!: sound_set_schedule)
next
  case (Some eid)
  define p where "p = (\<lambda>e :: execution. ex_id e = eid \<and> ex_state e \<in> {EPending, ERetryWait})"
  define s1 where "s1 = s\<lparr>sc_enabled := False, sc_status := SDeleted, sc_next_run_at := None,
      sc_pending_scheduled_for := None, sc_revision := sc_revision s + 1, sc_updated_at := now, sc_deleted_at := Some now\<rparr>"
  let ?db1 = "update_executions p (cancel_rows now reason) db"
  have s1: "sc_id s1 = sc_id s" "sc_active_execution_id s1 = Some eid" using Some by (simp_all add: s1_def)
  have safe: "safe_update w now p (cancel_rows now reason)"
    by (auto simp: p_def safe_update_def may_change_def unfinished_def lease_running_def)
  have kept: "sound w now db (set_schedule s1 ?db1)"
    by (rule sound_trans[OF sound_update[OF safe] sound_set_schedule]) (use s s1 Some in auto)
  have freed: "sound w now db (set_schedule (s1\<lparr>sc_active_execution_id := None\<rparr>) ?db1)"
    if over: "\<And>e. sched_ok ?db1 \<Longrightarrow> e \<in> set (sd_executions ?db1) \<Longrightarrow> ex_id e = eid \<Longrightarrow> \<not> unfinished (ex_state e)"
  proof (rule sound_trans[OF sound_update[OF safe] sound_set_schedule])
    show "find_schedule ?db1 (sc_id (s1\<lparr>sc_active_execution_id := None\<rparr>)) = Some t" using s s1 by simp
    assume ok: "sched_ok ?db1"
    show "sc_active_execution_id (s1\<lparr>sc_active_execution_id := None\<rparr>) = sc_active_execution_id t \<or>
        slot_free ?db1 (sc_id (s1\<lparr>sc_active_execution_id := None\<rparr>))"
      using slot_free_after[OF ok, of "sc_id s" t eid] s s1 Some over[OF ok] by simp
  qed
  have none: "\<not> unfinished (ex_state e)"
    if "sched_ok ?db1" "e \<in> set (sd_executions ?db1)" "ex_id e = eid"
      "execution_count p db = 1 \<or> (case find_execution ?db1 eid of None \<Rightarrow> True | Some d \<Rightarrow> \<not> unfinished (ex_state d))" for e
  proof -
    have "\<exists>d\<in>set (sd_executions ?db1). ex_id d = eid \<and> \<not> unfinished (ex_state d)"
    proof (cases "execution_count p db = 1")
      case True
      then obtain d where "d \<in> set (sd_executions db)" "p d"
        using counted_ex[of p db] by auto
      then show ?thesis by (intro bexI[of _ "cancel_rows now reason d"]) (auto simp: p_def image_iff)
    next
      case False
      then show ?thesis using that find_execution_None[of ?db1 eid] find_execution_Some[of ?db1 eid]
        by (cases "find_execution ?db1 eid") auto
    qed
    then show ?thesis using execution_unique[OF that(1,2)] that(3) by metis
  qed
  have retire: "retire_schedule s now reason db = set_schedule
      (if execution_count p db = 1 \<or> (case find_execution ?db1 eid of None \<Rightarrow> True | Some d \<Rightarrow> \<not> unfinished (ex_state d))
       then s1\<lparr>sc_active_execution_id := None\<rparr> else s1) ?db1"
    unfolding retire_schedule_def cancel_unstarted_schedule_execution_def s1_def[symmetric] s1(2) option.case Let_def
      p_def[symmetric] by (simp split: option.split)
  show ?thesis
  proof (cases "execution_count p db = 1 \<or> (case find_execution ?db1 eid of None \<Rightarrow> True | Some d \<Rightarrow> \<not> unfinished (ex_state d))")
    case True
    have "sound w now db (set_schedule (s1\<lparr>sc_active_execution_id := None\<rparr>) ?db1)"
      by (rule freed) (rule none[OF _ _ _ True])
    then show ?thesis unfolding retire if_P[OF True] .
  next
    case False
    show ?thesis unfolding retire if_not_P[OF False] by (rule kept)
  qed
qed

lemma sound_delete_schedule:
  assumes "delete_schedule sid n u now db = Inr db'"
  shows "sound w now db db'"
proof -
  obtain s reason where s: "find_schedule db sid = Some s"
    "db' = retire_schedule (s\<lparr>sc_updated_by := Some u\<rparr>) now reason db"
    using assms unfolding delete_schedule_def mutable_schedule_def
    by (auto simp: error_simps split: option.splits if_splits)
  show ?thesis unfolding s(2) by (rule sound_retire[of _ _ s]) (use s(1) find_schedule_Some(2)[OF s(1)] in simp_all)
qed

lemma sound_fold_retire:
  "sound w now (snd cdb) (snd (fold (retire_orphan ids now) sids cdb))"
proof (induction sids arbitrary: cdb)
  case (Cons sid sids)
  have "sound w now (snd cdb) (snd (retire_orphan ids now sid cdb))"
    by (auto simp: retire_orphan_def dest: find_schedule_Some(2) intro!: sound_retire split: option.splits prod.splits)
  from sound_trans[OF this Cons.IH] show ?case by simp
qed simp

lemma sound_reconcile:
  assumes "reconcile_schedule lib now x (n, db) = Inr (n', db')"
  shows "sound w now db db'"
proof -
  obtain sid r d pl where x: "x = (sid, r, d, pl)" by (cases x)
  show ?thesis
  proof (cases "find_schedule db sid")
    case None
    then show ?thesis using assms unfolding x reconcile_schedule_def
      by (auto simp: error_simps intro: sound_insert_schedule)
  next
    case (Some s)
    have "sound w now db (set_schedule u db)"
      if "sc_id u = sc_id s" "sc_active_execution_id u = sc_active_execution_id s" for u
      by (rule sound_set_schedule) (use that Some find_schedule_Some(2)[OF Some] in auto)
    then show ?thesis using assms Some unfolding x reconcile_schedule_def
      by (auto simp: error_simps assign_system_values_def split: if_splits)
  qed
qed

lemma sound_foldM_reconcile:
  assumes "foldM (reconcile_schedule lib now) xs cdb = Inr cdb'"
  shows "sound w now (snd cdb) (snd cdb')"
  using assms
proof (induction xs arbitrary: cdb)
  case (Cons x xs)
  then obtain c1 where "reconcile_schedule lib now x cdb = Inr c1" "foldM (reconcile_schedule lib now) xs c1 = Inr cdb'"
    by (auto simp: error_simps)
  then show ?case using Cons.IH[of c1] sound_reconcile[of lib now x "fst cdb" "snd cdb" "fst c1" "snd c1"]
    by (auto intro: sound_trans)
qed simp

lemma sound_synchronize:
  assumes "synchronize_system_schedules lib reg now db = Inr (n, db')"
  shows "sound w now db db'"
proof -
  obtain desired where "foldM (reconcile_schedule lib now) desired
      (fold (retire_orphan (set (od_keys desired)) now)
        (map sc_id (filter (orphaned (set (od_keys desired))) (sd_schedules db))) (0, db)) = Inr (n, db')"
    using assms by (auto simp: synchronize_system_schedules_def Let_def error_simps)
  from sound_trans[OF _ sound_foldM_reconcile[OF this]] sound_fold_retire[of w now "(0, db)"]
  show ?thesis by fastforce
qed

lemma purge_ok:
  assumes "sched_ok db"
  shows "sched_ok (purge_execution_history policy now db)"
proof -
  have "distinct (map ex_id (filter q (sd_executions db)))" for q
    using assms by (simp add: sched_ok_def distinct_map_filter)
  then show ?thesis using assms by (simp add: sched_ok_def purge_execution_history_def Let_def)
qed

lemma purge_removes_finished:
  assumes "sched_ok db" "e \<in> set (sd_executions db)"
  shows "e \<in> set (sd_executions (purge_execution_history policy now db)) \<or>
    \<not> unfinished (ex_state e) \<and> ex_id e \<notin> ex_id ` set (sd_executions (purge_execution_history policy now db))"
proof -
  define old where "old = filter (\<lambda>e. \<not> unfinished (ex_state e) \<and>
      (case ex_completed_at e of None \<Rightarrow> False | Some t \<Rightarrow> t < now - of_nat (sp_history_retention_days policy) * 86400)) (sd_executions db)"
  define ys where "ys = take (sp_claim_batch_size policy)
      (sort_key (\<lambda>e. (case ex_completed_at e of None \<Rightarrow> 0 | Some t \<Rightarrow> t, ex_id e)) old)"
  have ys: "set ys \<subseteq> set old"
    "sd_executions (purge_execution_history policy now db) = filter (\<lambda>e. ex_id e \<notin> ex_id ` set ys) (sd_executions db)"
    by (auto simp: ys_def purge_execution_history_def Let_def old_def dest!: in_set_takeD)
  show ?thesis
  proof (cases "ex_id e \<in> ex_id ` set ys")
    case True
    then obtain d where "d \<in> set old" "ex_id d = ex_id e" using ys(1) by auto
    then show ?thesis using execution_unique[OF assms(1) _ assms(2), of d] True by (auto simp: old_def ys(2))
  qed (use assms(2) in \<open>simp add: ys(2)\<close>)
qed

section \<open>Interleavings\<close>

text \<open>One transaction of any server at time \<open>now\<close>, with the worker in whose name it acts.\<close>

inductive sched_step ::
  "(string \<Rightarrow> timestamp \<Rightarrow> string) \<Rightarrow> trigger_library \<Rightarrow> task_registry \<Rightarrow> string option \<Rightarrow> timestamp \<Rightarrow> sched_db \<Rightarrow> sched_db \<Rightarrow> bool"
  for exec_id lib reg where
  st_enqueue: "enqueue_schedule exec_id lib g policy now sid db = Inr (b, db') \<Longrightarrow> sched_step exec_id lib reg None now db db'"
| st_claim: "claim_execution_row eid sid g owner policy now db = (r, db') \<Longrightarrow>
    sched_step exec_id lib reg (Some owner) now db db'"
| st_mark: "mark_dispatched eid g attempt now db = (b, db') \<Longrightarrow> sched_step exec_id lib reg None now db db'"
| st_refresh: "refresh_execution_lease eid owner policy now db = (b, db') \<Longrightarrow>
    sched_step exec_id lib reg (Some owner) now db db'"
| st_complete: "complete_execution exec_id c g result now db = Inr (b, db') \<Longrightarrow>
    sched_step exec_id lib reg (Some (cl_lease_owner c)) now db db'"
| st_fail: "fail_execution exec_id c g m ib mb err now db = Inr (b, db') \<Longrightarrow>
    sched_step exec_id lib reg (Some (cl_lease_owner c)) now db db'"
| st_cancel: "sched_step exec_id lib reg None now db (cancel_expired_deleted now c db)"
| st_purge: "sched_step exec_id lib reg None now db (purge_execution_history policy now db)"
| st_recover: "sched_step exec_id lib reg None now db (recover_dispatches g timeout now db)"
| st_runtime: "ensure_runtime_state provider ns now db = Inr (g, db') \<Longrightarrow> sched_step exec_id lib reg None now db db'"
| st_create: "create_schedule lib reg i u n p tt d z e now db = Inr db' \<Longrightarrow> sched_step exec_id lib reg None now db db'"
| st_update: "update_schedule lib reg sid v ch u now db = Inr db' \<Longrightarrow> sched_step exec_id lib reg None now db db'"
| st_delete: "delete_schedule sid v u now db = Inr db' \<Longrightarrow> sched_step exec_id lib reg None now db db'"
| st_sync: "synchronize_system_schedules lib reg now db = Inr (n, db') \<Longrightarrow> sched_step exec_id lib reg None now db db'"

definition empty_db :: sched_db where
  "empty_db = \<lparr>sd_schedules = [], sd_executions = [], sd_runtime = None\<rparr>"

inductive sched_reachable ::
  "(string \<Rightarrow> timestamp \<Rightarrow> string) \<Rightarrow> trigger_library \<Rightarrow> task_registry \<Rightarrow> sched_db \<Rightarrow> bool" for exec_id lib reg where
  reach_empty: "sched_reachable exec_id lib reg empty_db"
| reach_step: "sched_reachable exec_id lib reg db \<Longrightarrow> sched_step exec_id lib reg w now db db' \<Longrightarrow>
    sched_reachable exec_id lib reg db'"

lemma sound_step:
  assumes "sched_step exec_id lib reg w now db db'" "sched_ok db"
  shows "sched_ok db' \<and> (\<forall>e\<in>set (sd_executions db). e \<in> set (sd_executions db') \<or> may_change w now e \<or>
    \<not> unfinished (ex_state e) \<and> ex_id e \<notin> ex_id ` set (sd_executions db'))"
proof -
  have "(\<exists>policy. db' = purge_execution_history policy now db) \<or> sound w now db db'"
    using assms(1)
  proof cases
    case (st_claim eid sid g owner policy r)
    then show ?thesis using sound_claim_execution_row[of owner now db eid sid g policy] by simp
  next
    case (st_mark eid g attempt b)
    then show ?thesis using sound_mark_dispatched[of w now db eid g attempt] by simp
  next
    case (st_refresh eid owner policy b)
    then show ?thesis using sound_refresh[of owner now db eid policy] by simp
  qed (auto intro: sound_enqueue sound_complete sound_fail sound_cancel_expired_deleted sound_recover sound_runtime
      sound_create_schedule sound_update_schedule sound_delete_schedule sound_synchronize)
  then show ?thesis
  proof
    assume "sound w now db db'"
    then show ?thesis using assms(2) by (auto simp: sound_def touches_def)
  next
    assume "\<exists>policy. db' = purge_execution_history policy now db"
    then show ?thesis using purge_ok[OF assms(2)] purge_removes_finished[OF assms(2)] by blast
  qed
qed

lemma reachable_ok: "sched_reachable exec_id lib reg db \<Longrightarrow> sched_ok db"
  by (induction rule: sched_reachable.induct) (auto simp: empty_db_def sched_ok_def dest: sound_step)

section \<open>Properties\<close>

text \<open>C22. Under every interleaving of servers and workers a schedule has at most one execution that is
  waiting, running or to be retried.\<close>
theorem single_execution_slot:
  assumes "sched_reachable exec_id lib reg db"
    and "d \<in> set (sd_executions db)" "e \<in> set (sd_executions db)" "ex_schedule_id d = ex_schedule_id e"
    and "unfinished (ex_state d)" "unfinished (ex_state e)"
  shows "d = e"
proof -
  have ok: "sched_ok db" using reachable_ok[OF assms(1)] .
  obtain s where "s \<in> set (sd_schedules db)" "sc_id s = ex_schedule_id d" "sc_active_execution_id s = Some (ex_id d)"
    using ok assms(2,5) by (auto simp: sched_ok_def)
  then have "ex_id e = ex_id d" using slot_holder[OF ok _ assms(3)] assms(4,6) by fastforce
  then show ?thesis using execution_unique[OF ok assms(2,3)] by simp
qed

text \<open>C23. Until its lease runs out, the row of a running execution is changed by no transaction but
  those of the worker that holds the lease: no second claim, no cancellation, no recovery and no
  switch of the provider takes the work away.\<close>
theorem lease_protects_execution:
  assumes "sched_reachable exec_id lib reg db" "sched_step exec_id lib reg worker now db db'"
    and "e \<in> set (sd_executions db)" "ex_state e = ERunning"
    and "ex_lease_expires_at e = Some expires" "now < expires" "ex_lease_owner e \<noteq> worker"
  shows "e \<in> set (sd_executions db')"
  using sound_step[OF assms(2) reachable_ok[OF assms(1)]] assms(3-)
  by (auto simp: may_change_def lease_running_def unfinished_def)

text \<open>A succeeded, failed or cancelled execution is never changed again: a transaction leaves its
  row as it is or, purging the history, removes it.\<close>
lemma finished_execution_final:
  assumes "sched_reachable exec_id lib reg db" "sched_step exec_id lib reg worker now db db'"
    and "e \<in> set (sd_executions db)" "ex_state e \<in> {ESucceeded, EFailed, ECancelled}"
  shows "e \<in> set (sd_executions db') \<or> ex_id e \<notin> ex_id ` set (sd_executions db')"
  using sound_step[OF assms(2) reachable_ok[OF assms(1)]] assms(3-)
  by (auto simp: may_change_def unfinished_def)

lemma filter_single:
  assumes "distinct (map k xs)" "x \<in> set xs" "p x" "\<And>y. p y \<Longrightarrow> k y = k x"
  shows "filter p xs = [x]"
  using assms(1,2)
proof (induction xs)
  case (Cons y ys)
  show ?case
  proof (cases "y = x")
    case True
    have "\<not> p z" if "z \<in> set ys" for z using that Cons.prems(1) assms(4)[of z] True by (auto simp: image_iff)
    then show ?thesis using True assms(3) by simp
  next
    case False
    then have "x \<in> set ys" using Cons.prems(2) by simp
    moreover have "\<not> p y" using Cons.prems(1) calculation assms(4)[of y] by (auto simp: image_iff)
    ultimately show ?thesis using Cons by simp
  qed
qed simp

lemma find_single:
  assumes "filter p xs = [x]" shows "find p xs = Some x"
  using assms by (induction xs) (auto split: if_splits)

lemma find_set_schedule:
  assumes "find_schedule db (sc_id s) = Some t"
  shows "find_schedule (set_schedule s db) (sc_id s) = Some s"
proof -
  have "find (\<lambda>u. sc_id u = sc_id s) (map (\<lambda>u. if sc_id u = sc_id s then s else u) (sd_schedules db)) =
      Some (if sc_id t = sc_id s then s else t)"
    using assms by (intro find_map_if) (simp_all add: find_schedule_def)
  then show ?thesis using find_schedule_Some(2)[OF assms] by (simp add: find_schedule_def set_schedule_def)
qed

text \<open>A fresh execution can be claimed by any worker.\<close>

lemma create_then_claim:
  assumes s: "find_schedule db (sc_id s) = Some t" and st: "sc_status s \<noteq> SDeleted"
    and fresh: "\<forall>e\<in>set (sd_executions db). ex_id e \<noteq> exec_id (sc_id s) due"
      "\<forall>e\<in>set (sd_executions db). ex_schedule_id e = sc_id s \<longrightarrow> ex_scheduled_for e \<noteq> due"
  shows "\<exists>db'. create_execution exec_id s due g now db = Inr db' \<and>
    (\<exists>c db''. claim_execution_by_id (exec_id (sc_id s) due) g owner policy now db' = (Some c, db'') \<and>
      cl_schedule_id c = sc_id s \<and> cl_scheduled_for c = due \<and> cl_task_name c = sc_task_name s \<and>
      cl_payload c = sc_payload s \<and> cl_attempt c = 1)"
proof -
  define eid where "eid = exec_id (sc_id s) due"
  define item where "item = new_execution eid s due g now"
  define s1 where "s1 = s\<lparr>sc_active_execution_id := Some eid\<rparr>"
  define db' where "db' = set_schedule s1 (db\<lparr>sd_executions := sd_executions db @ [item]\<rparr>)"
  define p where "p = (\<lambda>e. ex_id e = eid \<and> ex_schedule_id e = sc_id s \<and> runnable g now e)"
  have create: "create_execution exec_id s due g now db = Inr db'"
    using fresh by (auto simp: create_execution_def Let_def list_ex_iff db'_def s1_def item_def eid_def)
  have item: "ex_id item = eid" "ex_schedule_id item = sc_id s" "p item"
    by (simp_all add: item_def new_execution_def p_def runnable_def unfinished_def due_at_def)
  have ex: "sd_executions db' = sd_executions db @ [item]" by (simp add: db'_def)
  have none: "filter q (sd_executions db) = []" if "\<And>e. q e \<Longrightarrow> ex_id e = eid" for q
    using that fresh(1) by (auto simp: filter_empty_conv eid_def)
  have find: "find_schedule db' (sc_id s) = Some s1"
    using find_set_schedule[of "db\<lparr>sd_executions := sd_executions db @ [item]\<rparr>" s1 t] s
    by (simp add: db'_def find_schedule_def s1_def)
  have row: "find_execution db' eid = Some item"
    using none[of "\<lambda>e. ex_id e = eid"] item(1)
    unfolding find_execution_def ex by (intro find_single) simp
  have count: "execution_count p db' = 1"
    using none[of p] item by (simp add: execution_count_def ex p_def)
  let ?up = "start_lease owner (sp_execution_lease_seconds policy) now"
  have row1: "find_execution (update_executions p ?up db') eid = Some (?up item)"
  proof -
    have "map (\<lambda>e. if p e then ?up e else e) (sd_executions db) = sd_executions db"
      using fresh(1) by (auto simp: p_def eid_def intro!: map_idI)
    then show ?thesis using none[of "\<lambda>e. ex_id e = eid"] item
      unfolding find_execution_def table_simps ex by (intro find_single) (simp add: start_lease_def)
  qed
  have "\<exists>c db''. claim_execution_by_id eid g owner policy now db' = (Some c, db'') \<and>
      cl_schedule_id c = sc_id s \<and> cl_scheduled_for c = due \<and> cl_task_name c = sc_task_name s \<and>
      cl_payload c = sc_payload s \<and> cl_attempt c = 1"
    using find row count row1 st item(2)
    unfolding claim_execution_by_id_def claim_execution_row_def Let_def p_def
    by (simp add: s1_def start_lease_def item_def new_execution_def)
  with create show ?thesis by (auto simp: eid_def)
qed

lemma advance_current:
  assumes "sched_ok db" "find_schedule db (sc_id s) = Some s" "sc_enabled s" "sc_status s = SActive"
    and "\<And>u. sc_id (f u) = sc_id u"
  shows "\<exists>db1. advance_schedule_if_current s f db = (True, db1) \<and> sd_executions db1 = sd_executions db \<and>
    (\<exists>t. find_schedule db1 (sc_id (f s)) = Some t)"
proof -
  define p where "p = (\<lambda>u :: schedule. sc_id u = sc_id s \<and> sc_revision u = sc_revision s \<and> sc_enabled u \<and>
      sc_status u = SActive \<and> sc_next_run_at u = sc_next_run_at s \<and>
      sc_pending_scheduled_for u = sc_pending_scheduled_for s \<and> sc_active_execution_id u = sc_active_execution_id s)"
  have "filter p (sd_schedules db) = [s]"
    using assms find_schedule_Some(1)[OF assms(2)] by (intro filter_single[of sc_id]) (auto simp: sched_ok_def p_def)
  then have "advance_schedule_if_current s f db = (True, update_schedules p f db)"
    unfolding advance_schedule_if_current_def p_def[symmetric] Let_def by simp
  moreover have "find (\<lambda>u. sc_id u = sc_id s) (map (\<lambda>u. if p u then f u else u) (sd_schedules db)) = Some (if p s then f s else s)"
    using assms by (intro find_map_if) (simp_all add: find_schedule_def)
  ultimately show ?thesis using assms(5) by (simp add: find_schedule_def)
qed


section \<open>A sample history\<close>

text \<open>An hourly schedule is created, becomes due, is claimed, and is completed.\<close>

definition sample_lib :: trigger_library where
  "sample_lib = \<lparr>tl_zone_info = (\<lambda>_. ZoneFound), tl_from_crontab = (\<lambda>_ _. Some hourly), tl_fromisoformat = (\<lambda>_. None),
     tl_date_trigger = (\<lambda>_ _. hourly), tl_interval_trigger = (\<lambda>_ _ _. None), tl_isoformat = (\<lambda>_. '''')\<rparr>"

definition sample_tasks :: task_registry where
  "sample_tasks = [(''core.demo'', \<lparr>rg_name = ''core.demo'', rg_contract_version = 1, rg_validate = Some,
     rg_max_attempts = 5, rg_initial_backoff_seconds = 5, rg_maximum_backoff_seconds = 300,
     rg_user_schedulable = True, rg_system_schedule = None\<rparr>)]"

definition sample_policy :: scheduling_policy where
  "sample_policy = \<lparr>sp_claim_batch_size = 10, sp_execution_lease_seconds = 300, sp_misfire_grace_seconds = 8000,
     sp_history_retention_days = 30\<rparr>"

definition sample_id :: "string \<Rightarrow> timestamp \<Rightarrow> string" where
  "sample_id sid t = sid @ (if t < 7000 then ''-1'' else ''-2'')"

definition sample_created :: sched_db where
  "sample_created = (case create_schedule sample_lib sample_tasks ''S'' ''u'' ''core.demo'' ''p'' ''cron''
     [(''expression'', JStr ''0 * * * *'')] ''UTC'' True 100 empty_db of Inr db \<Rightarrow> db | Inl _ \<Rightarrow> empty_db)"

definition sample_due :: sched_db where
  "sample_due = (case enqueue_schedule sample_id sample_lib 1 sample_policy 3600 ''S'' sample_created of
     Inr (_, db) \<Rightarrow> db | Inl _ \<Rightarrow> empty_db)"

definition sample_claimed :: sched_db where
  "sample_claimed = snd (claim_execution_by_id ''S-1'' 1 ''w1'' sample_policy 3600 sample_due)"

definition sample_claim :: claimed_execution where
  "sample_claim = \<lparr>cl_id = ''S-1'', cl_schedule_id = ''S'', cl_task_name = ''core.demo'', cl_task_contract_version = 1,
     cl_payload = ''p'', cl_scheduled_for = 3600, cl_attempt = 1, cl_lease_owner = ''w1''\<rparr>"

definition sample_finished :: sched_db where
  "sample_finished = (case complete_execution sample_id sample_claim 1 ''r'' 3650 sample_claimed of
     Inr (_, db) \<Rightarrow> db | Inl _ \<Rightarrow> empty_db)"

definition sample_row :: execution where
  "sample_row = \<lparr>ex_id = ''S-1'', ex_schedule_id = ''S'', ex_task_name = ''core.demo'', ex_task_contract_version = 1,
     ex_payload = ''p'', ex_provider_generation = 1, ex_scheduled_for = 3600, ex_state = ERunning,
     ex_dispatch_state = DSent, ex_attempt = 1, ex_retry_at = None, ex_dispatched_at = Some 3600,
     ex_lease_owner = Some ''w1'', ex_lease_expires_at = Some 3900, ex_started_at = Some 3600, ex_completed_at = None,
     ex_result = None, ex_error = None, ex_created_at = 3600\<rparr>"

definition sample_done :: execution where
  "sample_done = sample_row\<lparr>ex_state := ESucceeded, ex_completed_at := Some 3650, ex_result := Some ''r'',
     ex_lease_owner := None, ex_lease_expires_at := None\<rparr>"

lemma sample_created_eq: "create_schedule sample_lib sample_tasks ''S'' ''u'' ''core.demo'' ''p'' ''cron''
     [(''expression'', JStr ''0 * * * *'')] ''UTC'' True 100 empty_db = Inr sample_created"
  by code_simp

lemma sample_due_eq: "enqueue_schedule sample_id sample_lib 1 sample_policy 3600 ''S'' sample_created = Inr (True, sample_due)"
  by code_simp

lemma sample_claimed_eq:
  "claim_execution_row ''S-1'' ''S'' 1 ''w1'' sample_policy 3600 sample_due = (Some sample_claim, sample_claimed)"
  by code_simp

lemma sample_finished_eq: "complete_execution sample_id sample_claim 1 ''r'' 3650 sample_claimed = Inr (True, sample_finished)"
  by code_simp

lemma sample_rows: "sd_executions sample_claimed = [sample_row]" "sd_executions sample_finished = [sample_done]"
  by code_simp+

lemma sample_reachable:
  "sched_reachable sample_id sample_lib sample_tasks sample_created"
  "sched_reachable sample_id sample_lib sample_tasks sample_claimed"
  "sched_reachable sample_id sample_lib sample_tasks sample_finished"
proof -
  show c: "sched_reachable sample_id sample_lib sample_tasks sample_created"
    using reach_step[OF reach_empty st_create[OF sample_created_eq]] .
  show r: "sched_reachable sample_id sample_lib sample_tasks sample_claimed"
    using reach_step[OF reach_step[OF c st_enqueue[OF sample_due_eq]] st_claim[OF sample_claimed_eq]] .
  show "sched_reachable sample_id sample_lib sample_tasks sample_finished"
    using reach_step[OF r st_complete[OF sample_finished_eq]] .
qed

theorem single_execution_slot_witness:
  "sample_row \<in> set (sd_executions sample_claimed) \<and> unfinished (ex_state sample_row) \<and>
   sample_row = hd (sd_executions sample_claimed)"
proof -
  have u: "unfinished (ex_state sample_row)" by (simp add: sample_row_def unfinished_def)
  then show ?thesis
    using single_execution_slot[OF sample_reachable(2), of sample_row "hd (sd_executions sample_claimed)"]
    by (simp add: sample_rows)
qed

definition sample_rival :: sched_db where
  "sample_rival = snd (claim_execution_row ''S-1'' ''S'' 1 ''w2'' sample_policy 3700 sample_claimed)"

theorem lease_protects_execution_witness:
  "sched_step sample_id sample_lib sample_tasks (Some ''w2'') 3700 sample_claimed sample_rival \<and>
   sample_row \<in> set (sd_executions sample_rival)"
proof -
  have step: "sched_step sample_id sample_lib sample_tasks (Some ''w2'') 3700 sample_claimed sample_rival"
    by (rule st_claim[of "''S-1''" "''S''" 1 _ sample_policy _ _ None]) code_simp
  show ?thesis
    using lease_protects_execution[OF sample_reachable(2) step, of sample_row 3900] step
    by (simp add: sample_rows sample_row_def)
qed

definition sample_schedule :: schedule where
  "sample_schedule = hd (sd_schedules sample_created)"

lemma sample_schedule_facts:
  "find_schedule sample_created ''S'' = Some sample_schedule" "sc_enabled sample_schedule" "sc_status sample_schedule = SActive"
  "sc_active_execution_id sample_schedule = None" "sc_pending_scheduled_for sample_schedule = None"
  "sc_next_run_at sample_schedule = Some 3600" "sd_executions sample_created = []"
  "sc_trigger_type sample_schedule = ''cron''" "sc_trigger_data sample_schedule = [(''expression'', JStr ''0 * * * *'')]"
  by code_simp+


section \<open>A slot that is never freed\<close>

text \<open>A system task runs and its worker dies; its definition disappears and the schedule is retired;
  after the lease the provider is switched; then the definition is back.\<close>

definition system_tasks :: "bool \<Rightarrow> task_registry" where
  "system_tasks offered = [(''core.sys'', \<lparr>rg_name = ''core.sys'', rg_contract_version = 1, rg_validate = Some,
     rg_max_attempts = 5, rg_initial_backoff_seconds = 5, rg_maximum_backoff_seconds = 300, rg_user_schedulable = False,
     rg_system_schedule = Some (if offered then Some \<lparr>df_id = ''S'', df_payload = ''p'', df_trigger_type = ''cron'',
       df_trigger_data = [(''expression'', JStr ''0 * * * *'')], df_timezone = ''UTC'', df_run_immediately = True\<rparr>
       else None)\<rparr>)]"

definition synchronized :: "bool \<Rightarrow> timestamp \<Rightarrow> sched_db \<Rightarrow> sched_db" where
  "synchronized offered now db =
     (case synchronize_system_schedules sample_lib (system_tasks offered) now db of Inr (_, db') \<Rightarrow> db' | Inl _ \<Rightarrow> db)"

definition switched :: "string \<Rightarrow> timestamp \<Rightarrow> sched_db \<Rightarrow> sched_db" where
  "switched provider now db =
     (case ensure_runtime_state provider (Some ''ns'') now db of Inr (_, db') \<Rightarrow> db' | Inl _ \<Rightarrow> db)"

definition enqueued :: "timestamp \<Rightarrow> sched_db \<Rightarrow> sched_db" where
  "enqueued now db = (case enqueue_schedule sample_id sample_lib 1 sample_policy now ''S'' db of
     Inr (_, db') \<Rightarrow> db' | Inl _ \<Rightarrow> db)"

definition stuck_db :: sched_db where
  "stuck_db = synchronized True 1010 (switched ''redis'' 1000 (synchronized False 110
     (snd (claim_execution_by_id ''S-1'' 1 ''w1'' sample_policy 100
       (enqueued 100 (synchronized True 100 (switched ''local'' 100 empty_db)))))))"

lemma stuck_rows:
  "map (\<lambda>e. (ex_id e, ex_schedule_id e, ex_provider_generation e, ex_state e)) (sd_executions stuck_db) =
     [(''S-1'', ''S'', 1, ERunning)]"
  "map (\<lambda>s. (sc_id s, sc_status s, sc_enabled s, sc_active_execution_id s)) (sd_schedules stuck_db) =
     [(''S'', SActive, True, Some ''S-1'')]"
  "map_option rt_generation (sd_runtime stuck_db) = Some 2"
  by code_simp+

text \<open>A system schedule that was retired while its worker died, kept its slot over a switch of the
  provider and was then brought back is active and enabled again, but its slot is held by an
  execution of the previous generation: at no time does a worker get it, by search or by id, and the
  delivery pass neither recovers nor cancels it.\<close>

lemma reactivated_slot_stuck:
  "map_option rt_generation (sd_runtime stuck_db) = Some 2 \<and>
   map (\<lambda>s. (sc_id s, sc_status s, sc_enabled s, sc_active_execution_id s)) (sd_schedules stuck_db) =
     [(''S'', SActive, True, Some ''S-1'')] \<and>
   claim_execution 2 owner policy now stuck_db = (None, stuck_db) \<and>
   claim_execution_by_id ''S-1'' 2 owner policy now stuck_db = (None, stuck_db) \<and>
   pending_dispatches 2 batch timeout now stuck_db = ([], stuck_db)"
proof (intro conjI)
  obtain e where e: "sd_executions stuck_db = [e]" "ex_id e = ''S-1''" "ex_schedule_id e = ''S''"
      "ex_provider_generation e = 1" "ex_state e = ERunning"
    using stuck_rows(1) by (auto simp: map_eq_Cons_conv)
  obtain s where s: "sd_schedules stuck_db = [s]" "sc_id s = ''S''" "sc_status s = SActive"
      "sc_active_execution_id s = Some ''S-1''"
    using stuck_rows(2) by (auto simp: map_eq_Cons_conv)
  have same: "update_executions p f stuck_db = stuck_db" if "\<not> p e" for p f
    using that e(1) by (simp add: update_executions_def)
  have none: "\<not> schedule_deleted stuck_db sid" for sid using s by (auto simp: schedule_deleted_def)
  show "map_option rt_generation (sd_runtime stuck_db) = Some 2"
    "map (\<lambda>s. (sc_id s, sc_status s, sc_enabled s, sc_active_execution_id s)) (sd_schedules stuck_db) =
       [(''S'', SActive, True, Some ''S-1'')]"
    by (rule stuck_rows)+
  show "claim_execution 2 owner policy now stuck_db = (None, stuck_db)"
    using e by (simp add: claim_execution_def claim_candidates_def runnable_def)
  show "claim_execution_by_id ''S-1'' 2 owner policy now stuck_db = (None, stuck_db)"
    using e s same by (simp add: claim_execution_by_id_def claim_execution_row_def find_execution_def find_schedule_def
        runnable_def Let_def execution_count_def)
  show "pending_dispatches 2 batch timeout now stuck_db = ([], stuck_db)"
    using e none same by (simp add: pending_dispatches_def recover_dispatches_def cancel_expired_deleted_executions_def
        dispatchable_def Let_def)
qed

end
