(* ===== verification/LoginGuard.thy ===== *)
theory LoginGuard
  imports Caching "HOL-Library.Word"
begin

text \<open>
  \<open>src/include/domains/security/guards/login.py\<close> over the tables of
  \<open>src/include/database/models/security.py\<close>: banned subnets and the throttling of failed
  authentication per address, per account and factor, and per account and address, with the lock
  cache in front of the tables.

  Reading an address or a subnet from text (\<open>ipaddress\<close>) is a parameter; membership of an address in a
  network is modelled on the bits.  The process is one server: \<open>_write_lock\<close> serialises the writers, and
  an attempt is a check followed, when allowed and unsuccessful, by the report of its failure.
  Each call reads the clock once.  Logging and the audit trail are left out.
\<close>

section \<open>Subnets\<close>

datatype ip = V4 "32 word" | V6 "128 word"
datatype network = Net4 "32 word" nat | Net6 "128 word" nat

fun in_network :: "ip \<Rightarrow> network \<Rightarrow> bool" where
  "in_network (V4 a) (Net4 n p) \<longleftrightarrow> drop_bit (32 - p) a = drop_bit (32 - p) n"
| "in_network (V6 a) (Net6 n p) \<longleftrightarrow> drop_bit (128 - p) a = drop_bit (128 - p) n"
| "in_network _ _ \<longleftrightarrow> False"

record ip_reader =
  ir_address :: "string \<Rightarrow> ip option"
  ir_network :: "string \<Rightarrow> network option"

record banned_subnet =
  bn_subnet :: string
  bn_starts_at :: timestamp
  bn_expires_at :: "timestamp option"

record banned_subnet_rule =
  br_network :: network
  br_starts_at :: timestamp
  br_expires_at :: "timestamp option"

definition is_active :: "banned_subnet_rule \<Rightarrow> timestamp \<Rightarrow> bool" where
  "is_active r now \<longleftrightarrow> br_starts_at r \<le> now \<and> (case br_expires_at r of None \<Rightarrow> True | Some t \<Rightarrow> now < t)"

section \<open>State\<close>

text \<open>Rows of \<open>TrafficThrottle\<close> and \<open>LoginThrottle\<close>, and of \<open>AccountThrottle\<close>.\<close>

record window_row =
  wr_failed_attempts :: nat
  wr_window_started_at :: timestamp
  wr_last_attempt :: timestamp
  wr_locked_until :: "timestamp option"

record account_row =
  ar_failed_attempts :: nat
  ar_last_attempt :: timestamp
  ar_locked_until :: "timestamp option"

record guard_state =
  gs_subnets :: "banned_subnet list"
  gs_rules :: "banned_subnet_rule list"
  gs_loaded :: bool
  gs_traffic :: "(string, window_row) odict"
  gs_account :: "(string \<times> string, account_row) odict"
  gs_login :: "(string \<times> string, window_row) odict"
  gs_cache :: "timestamp mem_cache"

record throttle_policy =
  tp_enabled :: bool
  tp_account_failure_threshold :: nat
  tp_account_base_delay_seconds :: nat
  tp_account_max_delay_seconds :: nat
  tp_account_reset_seconds :: nat
  tp_account_ip_failure_threshold :: nat
  tp_account_ip_window_seconds :: nat
  tp_account_ip_block_seconds :: nat
  tp_ip_failure_threshold :: nat
  tp_ip_window_seconds :: nat
  tp_ip_block_seconds :: nat
  tp_record_retention_days :: nat

datatype throttle_scope = BANNED_SUBNET | IP | ACCOUNT | ACCOUNT_IP

record throttle_decision =
  td_allowed :: bool
  td_scope :: "throttle_scope option"
  td_retry_after :: "int option"

abbreviation pass :: throttle_decision where
  "pass \<equiv> \<lparr>td_allowed = True, td_scope = None, td_retry_after = None\<rparr>"

section \<open>Subnet access\<close>

definition reload_networks :: "ip_reader \<Rightarrow> guard_state \<Rightarrow> guard_state" where
  "reload_networks rd st =
     st\<lparr>gs_rules := List.map_filter (\<lambda>row. map_option (\<lambda>n. \<lparr>br_network = n, br_starts_at = bn_starts_at row,
            br_expires_at = bn_expires_at row\<rparr>) (ir_network rd (bn_subnet row))) (gs_subnets st),
        gs_loaded := True\<rparr>"

definition evaluate_subnet_access :: "ip_reader \<Rightarrow> string \<Rightarrow> timestamp \<Rightarrow> guard_state \<Rightarrow> throttle_decision \<times> guard_state" where
  "evaluate_subnet_access rd ip_address now st =
     (let st1 = (if gs_loaded st then st else reload_networks rd st) in
      if ip_address = [] then (pass, st1)
      else (case ir_address rd ip_address of
              None \<Rightarrow> (pass, st1)
            | Some a \<Rightarrow> (if list_ex (\<lambda>r. is_active r now \<and> in_network a (br_network r)) (gs_rules st1)
                         then \<lparr>td_allowed = False, td_scope = Some BANNED_SUBNET, td_retry_after = None\<rparr>
                         else pass, st1)))"

section \<open>Cache keys\<close>

text \<open>\<open>json.dumps(key, ensure_ascii=False, separators=(",", ":"))\<close> of a tuple of strings.\<close>

definition hex_digit :: "nat \<Rightarrow> char" where
  "hex_digit n = ''0123456789abcdef'' ! n"

definition json_char :: "char \<Rightarrow> string" where
  "json_char c =
     (if c = CHR 0x22 then [CHR 0x5C, CHR 0x22]
      else if c = CHR 0x5C then [CHR 0x5C, CHR 0x5C]
      else if c = CHR 0x0A then [CHR 0x5C, CHR ''n'']
      else if c = CHR 0x0D then [CHR 0x5C, CHR ''r'']
      else if c = CHR 0x09 then [CHR 0x5C, CHR ''t'']
      else if c = CHR 0x0C then [CHR 0x5C, CHR ''f'']
      else if c = CHR 0x08 then [CHR 0x5C, CHR ''b'']
      else if of_char c < (32 :: nat)
      then [CHR 0x5C, CHR ''u'', CHR ''0'', CHR ''0'', hex_digit (of_char c div 16), hex_digit (of_char c mod 16)]
      else [c])"

definition json_string :: "string \<Rightarrow> string" where
  "json_string s = [CHR 0x22] @ concat (map json_char s) @ [CHR 0x22]"

fun json_items :: "string list \<Rightarrow> string" where
  "json_items [] = ''''"
| "json_items [s] = json_string s"
| "json_items (s # t # ss) = json_string s @ '','' @ json_items (t # ss)"

definition guard_cache_key :: "string list \<Rightarrow> string" where
  "guard_cache_key key = ''guard:v2:['' @ json_items key @ '']''"

abbreviation traffic_key :: "string \<Rightarrow> string list" where
  "traffic_key ip_address \<equiv> [''ip'', ip_address]"

abbreviation account_key :: "string \<Rightarrow> string \<Rightarrow> string list" where
  "account_key username factor \<equiv> [''account'', username, factor]"

abbreviation login_key :: "string \<Rightarrow> string \<Rightarrow> string list" where
  "login_key username ip_address \<equiv> [''user_ip'', username, ip_address]"

definition invalidate_cache_keys :: "string list list \<Rightarrow> guard_state \<Rightarrow> guard_state" where
  "invalidate_cache_keys keys st = st\<lparr>gs_cache := fold (\<lambda>k c. mc_delete (guard_cache_key k) c) keys (gs_cache st)\<rparr>"

definition cache_decision ::
  "throttle_scope \<Rightarrow> string list \<Rightarrow> timestamp \<Rightarrow> timestamp \<Rightarrow> guard_state \<Rightarrow> throttle_decision \<times> guard_state" where
  "cache_decision scope key locked_until now st =
     (let retry_after = max 1 \<lceil>locked_until - now\<rceil>
      in (\<lparr>td_allowed = False, td_scope = Some scope, td_retry_after = Some retry_after\<rparr>,
          st\<lparr>gs_cache := snd (mc_set (guard_cache_key key) locked_until (Some (of_int retry_after)) False now (gs_cache st))\<rparr>))"

section \<open>Evaluation\<close>

text \<open>The checks with the \<open>locked_until\<close> of their record.\<close>

definition guard_checks ::
  "string \<Rightarrow> string option \<Rightarrow> string option \<Rightarrow> guard_state \<Rightarrow> (throttle_scope \<times> string list \<times> timestamp option) list" where
  "guard_checks ip_address username factor st =
     (let user = (case username of None \<Rightarrow> [] | Some u \<Rightarrow> u); fac = (case factor of None \<Rightarrow> [] | Some f \<Rightarrow> f)
      in (if ip_address \<noteq> [] then [(IP, traffic_key ip_address, Option.bind (od_get (gs_traffic st) ip_address) wr_locked_until)] else []) @
         (if user \<noteq> [] \<and> fac \<noteq> [] then [(ACCOUNT, account_key user fac, Option.bind (od_get (gs_account st) (user, fac)) ar_locked_until)] else []) @
         (if user \<noteq> [] \<and> ip_address \<noteq> []
          then [(ACCOUNT_IP, login_key user ip_address, Option.bind (od_get (gs_login st) (user, ip_address)) wr_locked_until)] else []))"

fun check_cache ::
  "timestamp \<Rightarrow> (throttle_scope \<times> string list \<times> timestamp option) list \<Rightarrow> guard_state \<Rightarrow> throttle_decision option \<times> guard_state" where
  "check_cache now [] st = (None, st)"
| "check_cache now ((scope, key, locked) # cs) st =
     (case mc_get (guard_cache_key key) now (gs_cache st) of
        (None, c) \<Rightarrow> check_cache now cs (st\<lparr>gs_cache := c\<rparr>)
      | (Some expiry, c) \<Rightarrow>
          if \<lceil>expiry - now\<rceil> > 0
          then (Some \<lparr>td_allowed = False, td_scope = Some scope, td_retry_after = Some \<lceil>expiry - now\<rceil>\<rparr>, st\<lparr>gs_cache := c\<rparr>)
          else check_cache now cs (st\<lparr>gs_cache := mc_delete (guard_cache_key key) c\<rparr>))"

fun check_records ::
  "timestamp \<Rightarrow> (throttle_scope \<times> string list \<times> timestamp option) list \<Rightarrow> guard_state \<Rightarrow> throttle_decision \<times> guard_state" where
  "check_records now [] st = (pass, st)"
| "check_records now ((scope, key, locked) # cs) st =
     (case locked of
        Some t \<Rightarrow> if t > now then cache_decision scope key t now st else check_records now cs st
      | None \<Rightarrow> check_records now cs st)"

definition evaluate ::
  "ip_reader \<Rightarrow> throttle_policy \<Rightarrow> string \<Rightarrow> string option \<Rightarrow> string option \<Rightarrow> timestamp \<Rightarrow> guard_state \<Rightarrow>
   throttle_decision \<times> guard_state" where
  "evaluate rd policy ip_address username factor now st =
     (let (subnet, st1) = evaluate_subnet_access rd ip_address now st in
      if \<not> td_allowed subnet then (subnet, st1)
      else if \<not> tp_enabled policy then (pass, st1)
      else (let cs = guard_checks ip_address username factor st1 in
            case check_cache now cs st1 of
              (Some d, st2) \<Rightarrow> (d, st2)
            | (None, st2) \<Rightarrow> check_records now cs st2))"

section \<open>Reporting\<close>

definition update_fixed_window :: "window_row \<Rightarrow> timestamp \<Rightarrow> nat \<Rightarrow> nat \<Rightarrow> nat \<Rightarrow> window_row" where
  "update_fixed_window record now threshold window_seconds block_seconds =
     (let r1 = (if now \<ge> wr_window_started_at record + of_nat window_seconds
                then record\<lparr>wr_window_started_at := now, wr_failed_attempts := 1\<rparr>
                else record\<lparr>wr_failed_attempts := wr_failed_attempts record + 1\<rparr>);
          r2 = r1\<lparr>wr_last_attempt := now\<rparr>
      in r2\<lparr>wr_locked_until := (if wr_failed_attempts r2 \<ge> threshold then Some (now + of_nat block_seconds) else None)\<rparr>)"

definition update_account :: "account_row \<Rightarrow> timestamp \<Rightarrow> throttle_policy \<Rightarrow> account_row" where
  "update_account record now policy =
     (let r1 = (if now \<ge> ar_last_attempt record + of_nat (tp_account_reset_seconds policy)
                then record\<lparr>ar_failed_attempts := 1\<rparr>
                else record\<lparr>ar_failed_attempts := ar_failed_attempts record + 1\<rparr>);
          r2 = r1\<lparr>ar_last_attempt := now\<rparr>;
          exponent = ar_failed_attempts r2 - tp_account_failure_threshold policy;
          delay = min (tp_account_base_delay_seconds policy * 2 ^ exponent) (tp_account_max_delay_seconds policy)
      in r2\<lparr>ar_locked_until := (if ar_failed_attempts r2 \<ge> tp_account_failure_threshold policy
                               then Some (now + of_nat delay) else None)\<rparr>)"

definition new_window_row :: "timestamp \<Rightarrow> window_row" where
  "new_window_row now = \<lparr>wr_failed_attempts = 0, wr_window_started_at = now, wr_last_attempt = now, wr_locked_until = None\<rparr>"

definition new_account_row :: "timestamp \<Rightarrow> account_row" where
  "new_account_row now = \<lparr>ar_failed_attempts = 0, ar_last_attempt = now, ar_locked_until = None\<rparr>"

definition get_or_create :: "'v option \<Rightarrow> 'v \<Rightarrow> 'v" where
  "get_or_create found fresh = (case found of None \<Rightarrow> fresh | Some r \<Rightarrow> r)"

text \<open>A lock that ends at time 0 counts as none (\<open>if ip_lock:\<close>).\<close>

definition lock_entry :: "throttle_scope \<Rightarrow> string list \<Rightarrow> timestamp option \<Rightarrow> (throttle_scope \<times> string list \<times> timestamp) list" where
  "lock_entry scope key locked = (case locked of None \<Rightarrow> [] | Some t \<Rightarrow> if t = 0 then [] else [(scope, key, t)])"

definition report_failure ::
  "throttle_policy \<Rightarrow> string \<Rightarrow> string \<Rightarrow> string \<Rightarrow> timestamp \<Rightarrow> guard_state \<Rightarrow> throttle_decision \<times> guard_state" where
  "report_failure policy ip_address username factor now st =
     (if \<not> tp_enabled policy then (pass, st)
      else (let ip_record = update_fixed_window (get_or_create (od_get (gs_traffic st) ip_address) (new_window_row now)) now
                  (tp_ip_failure_threshold policy) (tp_ip_window_seconds policy) (tp_ip_block_seconds policy);
                account_record = update_account (get_or_create (od_get (gs_account st) (username, factor)) (new_account_row now)) now policy;
                pair_record = update_fixed_window (get_or_create (od_get (gs_login st) (username, ip_address)) (new_window_row now)) now
                  (tp_account_ip_failure_threshold policy) (tp_account_ip_window_seconds policy) (tp_account_ip_block_seconds policy);
                st1 = st\<lparr>gs_traffic := od_set ip_address ip_record (gs_traffic st),
                         gs_account := od_set (username, factor) account_record (gs_account st),
                         gs_login := od_set (username, ip_address) pair_record (gs_login st)\<rparr>;
                locked = lock_entry IP (traffic_key ip_address) (wr_locked_until ip_record) @
                         lock_entry ACCOUNT (account_key username factor) (ar_locked_until account_record) @
                         lock_entry ACCOUNT_IP (login_key username ip_address) (wr_locked_until pair_record)
            in case py_max_by (\<lambda>(_, _, t). t) locked of
                 None \<Rightarrow> (pass, st1)
               | Some (scope, key, t) \<Rightarrow> cache_decision scope key t now st1))"

definition report_success :: "string \<Rightarrow> string \<Rightarrow> string \<Rightarrow> bool \<Rightarrow> guard_state \<Rightarrow> guard_state" where
  "report_success ip_address username factor completed_authentication st =
     (let st1 = st\<lparr>gs_account := od_pop (username, factor) (gs_account st)\<rparr>;
          st2 = (if completed_authentication then st1\<lparr>gs_login := od_pop (username, ip_address) (gs_login st1)\<rparr> else st1)
      in invalidate_cache_keys (account_key username factor # (if completed_authentication then [login_key username ip_address] else [])) st2)"

definition expired_row :: "timestamp \<Rightarrow> timestamp \<Rightarrow> timestamp \<Rightarrow> timestamp option \<Rightarrow> bool" where
  "expired_row cutoff now last_attempt locked_until \<longleftrightarrow>
     last_attempt < cutoff \<and> (case locked_until of None \<Rightarrow> True | Some t \<Rightarrow> t \<le> now)"

definition purge_expired_auth_throttle_records ::
  "throttle_policy \<Rightarrow> timestamp \<Rightarrow> guard_state \<Rightarrow> (nat \<times> nat \<times> nat) \<times> guard_state" where
  "purge_expired_auth_throttle_records policy now st =
     (let cutoff = now - of_nat (tp_record_retention_days policy) * 86400;
          account = filter (\<lambda>(k, r). \<not> expired_row cutoff now (ar_last_attempt r) (ar_locked_until r)) (gs_account st);
          login = filter (\<lambda>(k, r). \<not> expired_row cutoff now (wr_last_attempt r) (wr_locked_until r)) (gs_login st);
          traffic = filter (\<lambda>(k, r). \<not> expired_row cutoff now (wr_last_attempt r) (wr_locked_until r)) (gs_traffic st)
      in ((length (gs_account st) - length account, length (gs_login st) - length login, length (gs_traffic st) - length traffic),
          st\<lparr>gs_account := account, gs_login := login, gs_traffic := traffic\<rparr>))"

section \<open>Attempts\<close>

record guess =
  gu_ip :: string
  gu_username :: string
  gu_factor :: string
  gu_now :: timestamp

text \<open>One unsuccessful attempt: the guard is asked, and the failure reported if it let the attempt pass.\<close>

definition failed_attempt :: "ip_reader \<Rightarrow> throttle_policy \<Rightarrow> guess \<Rightarrow> guard_state \<Rightarrow> bool \<times> guard_state" where
  "failed_attempt rd policy g st =
     (let (d, st1) = evaluate rd policy (gu_ip g) (Some (gu_username g)) (Some (gu_factor g)) (gu_now g) st
      in if td_allowed d then (True, snd (report_failure policy (gu_ip g) (gu_username g) (gu_factor g) (gu_now g) st1))
         else (False, st1))"

text \<open>The times at which a credential of an account was really tried.\<close>

fun tried :: "ip_reader \<Rightarrow> throttle_policy \<Rightarrow> string \<Rightarrow> string \<Rightarrow> guess list \<Rightarrow> guard_state \<Rightarrow> timestamp list" where
  "tried rd policy u f [] st = []"
| "tried rd policy u f (g # gs) st =
     (case failed_attempt rd policy g st of (passed, st1) \<Rightarrow>
        if passed \<and> gu_username g = u \<and> gu_factor g = f then gu_now g # tried rd policy u f gs st1
        else tried rd policy u f gs st1)"

lemma cache_decision_tables [simp]:
  "gs_account (snd (cache_decision sc k t now st)) = gs_account st" "td_allowed (fst (cache_decision sc k t now st)) = False"
  by (simp_all add: cache_decision_def Let_def)

lemma check_cache_account [simp]: "gs_account (snd (check_cache now cs st)) = gs_account st"
  by (induction now cs st rule: check_cache.induct) (auto split: option.splits prod.splits if_splits)

lemma check_records_account [simp]: "gs_account (snd (check_records now cs st)) = gs_account st"
  by (induction cs) (auto split: option.splits)

lemma check_records_allowed:
  "td_allowed (fst (check_records now cs st)) \<longleftrightarrow> (\<forall>(sc, k, l)\<in>set cs. case l of None \<Rightarrow> True | Some t \<Rightarrow> t \<le> now)"
  by (induction cs) (auto split: option.splits if_splits)

lemma check_cache_refuses: "fst (check_cache now cs st) = Some d \<Longrightarrow> \<not> td_allowed d"
  by (induction now cs st rule: check_cache.induct) (auto split: option.splits prod.splits if_splits)

lemma subnet_account [simp]: "gs_account (snd (evaluate_subnet_access rd ip now st)) = gs_account st"
  "gs_login (snd (evaluate_subnet_access rd ip now st)) = gs_login st"
  "gs_traffic (snd (evaluate_subnet_access rd ip now st)) = gs_traffic st"
  by (auto simp: evaluate_subnet_access_def reload_networks_def Let_def split: option.splits)

lemma guard_checks_cong:
  assumes "gs_account st = gs_account st'" "gs_login st = gs_login st'" "gs_traffic st = gs_traffic st'"
  shows "guard_checks ip u f st = guard_checks ip u f st'"
  using assms by (simp add: guard_checks_def Let_def)

lemma evaluate_account [simp]: "gs_account (snd (evaluate rd policy ip u f now st)) = gs_account st"
proof -
  obtain sub st1 where s: "evaluate_subnet_access rd ip now st = (sub, st1)" by fastforce
  obtain c st2 where c: "check_cache now (guard_checks ip u f st1) st1 = (c, st2)" by fastforce
  have "gs_account st1 = gs_account st" "gs_account st2 = gs_account st1"
    using subnet_account(1)[of rd ip now st] check_cache_account[of now "guard_checks ip u f st1" st1] s c by simp_all
  then show ?thesis by (simp add: evaluate_def s c split: option.split)
qed

text \<open>A lock in the tables is never overlooked, whatever the cache holds.\<close>

lemma locked_is_refused:
  assumes "td_allowed (fst (evaluate rd policy ip u f now st))" "tp_enabled policy"
    and "(sc, k, Some t) \<in> set (guard_checks ip u f st)"
  shows "t \<le> now"
proof -
  obtain sub st1 where s: "evaluate_subnet_access rd ip now st = (sub, st1)" by fastforce
  have same: "guard_checks ip u f st1 = guard_checks ip u f st"
    using subnet_account[of rd ip now st] s by (intro guard_checks_cong) simp_all
  obtain c st2 where c: "check_cache now (guard_checks ip u f st) st1 = (c, st2)" by fastforce
  have "td_allowed (fst (check_records now (guard_checks ip u f st) st2))"
    using assms(1,2) s c check_cache_refuses[of now "guard_checks ip u f st" st1] same
    by (auto simp: evaluate_def split: if_splits option.splits)
  then show ?thesis using assms(3) by (fastforce simp: check_records_allowed)
qed

lemma report_failure_account:
  assumes "tp_enabled policy"
  shows "gs_account (snd (report_failure policy ip u f now st)) =
    od_set (u, f) (update_account (get_or_create (od_get (gs_account st) (u, f)) (new_account_row now)) now policy) (gs_account st)"
  using assms by (simp add: report_failure_def Let_def split: option.splits prod.splits)

lemma failed_attempt_account:
  assumes "tp_enabled policy" "failed_attempt rd policy g st = (passed, st')"
  shows "od_get (gs_account st') (u, f) =
    (if passed \<and> gu_username g = u \<and> gu_factor g = f
     then Some (update_account (get_or_create (od_get (gs_account st) (u, f)) (new_account_row (gu_now g))) (gu_now g) policy)
     else od_get (gs_account st) (u, f))"
proof -
  obtain d st1 where e: "evaluate rd policy (gu_ip g) (Some (gu_username g)) (Some (gu_factor g)) (gu_now g) st = (d, st1)"
    by fastforce
  have same: "gs_account st1 = gs_account st"
    using evaluate_account[of rd policy "gu_ip g" "Some (gu_username g)" "Some (gu_factor g)" "gu_now g" st] e by simp
  show ?thesis using assms(2) same by (auto simp: failed_attempt_def e report_failure_account[OF assms(1)] split: if_splits)
qed

lemma failed_attempt_lock:
  assumes "tp_enabled policy" "failed_attempt rd policy g st = (True, st')" "gu_username g \<noteq> []" "gu_factor g \<noteq> []"
    and "od_get (gs_account st) (gu_username g, gu_factor g) = Some r" "ar_locked_until r = Some t"
  shows "t \<le> gu_now g"
proof (rule locked_is_refused)
  show "td_allowed (fst (evaluate rd policy (gu_ip g) (Some (gu_username g)) (Some (gu_factor g)) (gu_now g) st))"
    using assms(2) by (auto simp: failed_attempt_def split: prod.splits if_splits)
  show "(ACCOUNT, account_key (gu_username g) (gu_factor g), Some t) \<in>
      set (guard_checks (gu_ip g) (Some (gu_username g)) (Some (gu_factor g)) st)"
    using assms(3-) by (simp add: guard_checks_def Let_def)
qed (rule assms(1))

section \<open>How fast an account can be guessed\<close>

text \<open>The least pause after the threshold: the base delay, or the time after which failures are
  forgotten, whichever is shorter.\<close>

definition least_pause :: "throttle_policy \<Rightarrow> timestamp" where
  "least_pause p = of_nat (min (tp_account_base_delay_seconds p) (tp_account_reset_seconds p))"

definition row_ok :: "throttle_policy \<Rightarrow> timestamp \<Rightarrow> nat \<Rightarrow> account_row \<Rightarrow> bool" where
  "row_ok p t c r \<longleftrightarrow> ar_last_attempt r = t \<and> ar_failed_attempts r = c \<and> 1 \<le> c \<and>
     (tp_account_failure_threshold p \<le> c \<longrightarrow> (\<exists>l. ar_locked_until r = Some l \<and> t + least_pause p \<le> l))"

lemma update_account_row_ok:
  assumes "tp_account_base_delay_seconds p \<le> tp_account_max_delay_seconds p"
  shows "row_ok p now (ar_failed_attempts (update_account r now p)) (update_account r now p)"
proof -
  have "tp_account_base_delay_seconds p \<le> min (tp_account_base_delay_seconds p * 2 ^ n) (tp_account_max_delay_seconds p)" for n
    using assms by simp
  then have "least_pause p \<le> of_nat (min (tp_account_base_delay_seconds p * 2 ^ n) (tp_account_max_delay_seconds p))" for n
    unfolding least_pause_def of_nat_le_iff using min.coboundedI1 by blast
  then show ?thesis by (auto simp: row_ok_def update_account_def Let_def)
qed

lemma close_guess_counts:
  assumes "row_ok p t c r" "now < t + least_pause p"
  shows "ar_failed_attempts (update_account r now p) = c + 1"
  using assms by (auto simp: row_ok_def update_account_def least_pause_def Let_def)

lemma tried_pauses:
  assumes en: "tp_enabled p" and k: "0 < tp_account_failure_threshold p" "tp_account_base_delay_seconds p \<le> tp_account_max_delay_seconds p"
    and uf: "u \<noteq> []" "f \<noteq> []"
    and "od_get (gs_account st) (u, f) = Some r" "row_ok p t c r" "sorted (t # map gu_now gs)"
  shows "of_nat ((length (tried rd p u f gs st) + min c (tp_account_failure_threshold p) - 1) div tp_account_failure_threshold p)
      * least_pause p \<le> last (t # tried rd p u f gs st) - t \<and>
    sorted (t # tried rd p u f gs st)"
  using assms(6-)
proof (induction gs arbitrary: st r t c)
  case Nil
  then show ?case using k(1) by (auto simp: row_ok_def min_def)
next
  case (Cons g gs)
  let ?k = "tp_account_failure_threshold p"
  obtain passed st1 where a: "failed_attempt rd p g st = (passed, st1)" by fastforce
  note row = failed_attempt_account[OF en a, of u f]
  show ?case
  proof (cases "passed \<and> gu_username g = u \<and> gu_factor g = f")
    case False
    have "od_get (gs_account st1) (u, f) = Some r" unfolding row if_not_P[OF False] by (rule Cons.prems(1))
    then show ?thesis using Cons.IH[OF _ Cons.prems(2)] Cons.prems(3) False a by auto
  next
    case True
    define t1 where "t1 = gu_now g"
    define r1 where "r1 = update_account r t1 p"
    define c1 where "c1 = ar_failed_attempts r1"
    define ts where "ts = tried rd p u f gs st1"
    have r1: "od_get (gs_account st1) (u, f) = Some r1" "row_ok p t1 c1 r1"
      using row True Cons.prems(1) update_account_row_ok[OF k(2)] by (simp_all add: r1_def t1_def c1_def get_or_create_def)
    have t: "t \<le> t1" using Cons.prems(3) by (simp add: t1_def)
    have IH: "of_nat ((length ts + min c1 ?k - 1) div ?k) * least_pause p \<le> last (t1 # ts) - t1" "sorted (t1 # ts)"
      using Cons.IH[OF r1] Cons.prems(3) by (simp_all add: ts_def t1_def)
    have eq: "tried rd p u f (g # gs) st = t1 # ts" using True a by (simp add: ts_def t1_def)
    have c1: "1 \<le> c1" using r1(2) by (simp add: row_ok_def)
    have "of_nat ((length ts + 1 + min c ?k - 1) div ?k) * least_pause p \<le> last (t1 # ts) - t"
    proof (cases "t1 < t + least_pause p")
      case True
      then have "c1 = c + 1" using close_guess_counts[OF Cons.prems(2)] by (simp add: c1_def r1_def)
      moreover have "c < ?k"
      proof (rule ccontr)
        assume "\<not> c < ?k"
        then obtain l where l: "ar_locked_until r = Some l" "t + least_pause p \<le> l" using Cons.prems(2) by (auto simp: row_ok_def)
        have "l \<le> t1" using failed_attempt_lock[OF en, of rd g st st1 r l] a Cons.prems(1) l(1) uf
            \<open>passed \<and> gu_username g = u \<and> gu_factor g = f\<close> by (simp add: t1_def)
        with l(2) True show False by simp
      qed
      ultimately have "length ts + 1 + min c ?k - 1 = length ts + min c1 ?k - 1" by simp
      with IH(1) t show ?thesis by simp
    next
      case False
      have "(length ts + 1 + min c ?k - 1) div ?k \<le> (length ts + min c1 ?k - 1 + ?k) div ?k"
        using c1 k(1) by (intro div_le_mono) auto
      also have "\<dots> = (length ts + min c1 ?k - 1) div ?k + 1" using k(1) by simp
      finally have "(of_nat ((length ts + 1 + min c ?k - 1) div ?k) :: timestamp) \<le> of_nat ((length ts + min c1 ?k - 1) div ?k) + 1"
        by (metis of_nat_1 of_nat_add of_nat_le_iff)
      then have "of_nat ((length ts + 1 + min c ?k - 1) div ?k) * least_pause p \<le>
          (of_nat ((length ts + min c1 ?k - 1) div ?k) + 1) * least_pause p"
        by (intro mult_right_mono) (simp_all add: least_pause_def)
      then show ?thesis using IH(1) False by (simp add: algebra_simps)
    qed
    moreover have "sorted (t # t1 # ts)" using IH(2) t by auto
    ultimately show ?thesis unfolding eq by simp
  qed
qed


definition sample_throttle :: throttle_policy where
  "sample_throttle = \<lparr>tp_enabled = True, tp_account_failure_threshold = 1, tp_account_base_delay_seconds = 3,
     tp_account_max_delay_seconds = 6, tp_account_reset_seconds = 9, tp_account_ip_failure_threshold = 5,
     tp_account_ip_window_seconds = 9, tp_account_ip_block_seconds = 9, tp_ip_failure_threshold = 9,
     tp_ip_window_seconds = 9, tp_ip_block_seconds = 9, tp_record_retention_days = 1\<rparr>"

definition empty_guard :: guard_state where
  "empty_guard = \<lparr>gs_subnets = [], gs_rules = [], gs_loaded = True, gs_traffic = [], gs_account = [], gs_login = [],
     gs_cache = mc_init 8\<rparr>"

definition sample_reader :: ip_reader where
  "sample_reader = \<lparr>ir_address = (\<lambda>_. None), ir_network = (\<lambda>_. None)\<rparr>"

text \<open>Three attempts from changing addresses; the second is refused.\<close>

definition sample_guess :: "string \<Rightarrow> timestamp \<Rightarrow> guess" where
  "sample_guess i t = \<lparr>gu_ip = i, gu_username = ''u'', gu_factor = ''p'', gu_now = t\<rparr>"

lemma sample_tried:
  "tried sample_reader sample_throttle ''u'' ''p'' [sample_guess ''a'' 100, sample_guess ''b'' 101, sample_guess ''c'' 104]
     empty_guard = [100, 104]"
  by code_simp


end
