(* ===== verification/TransferLimits.thy ===== *)
theory TransferLimits
  imports RateLimits FileTasks
begin

text \<open>
  Risk-based limits on creating documents and on downloads:
  \<open>src/include/domains/documents/creation_limits.py\<close>, \<open>creation_risk.py\<close>, \<open>download_limits.py\<close> and
  \<open>download_risk.py\<close>, over the token buckets of \<open>RateLimits\<close> and the transfer tasks of \<open>FileTasks\<close>.

  The tables of buckets and of accounts per address are the state.  \<open>rivals scope\<close> is the bucket another
  transaction inserts while this one is creating it.  Logging is left out.
\<close>

section \<open>Risk\<close>

datatype risk_level = NORMAL | ELEVATED | HIGH

record creation_risk_signals =
  cs_new_account :: bool
  cs_pending_ratio :: rat
  cs_ip_account_count :: nat
  cs_denial_count :: nat

record risk_assessment =
  ra_level :: risk_level
  ra_reasons :: "string list"

record creation_risk_policy =
  cp_enforce :: bool
  cp_refill_period_seconds :: int
  cp_account_capacity :: int
  cp_account_refill_tokens :: int
  cp_ip_capacity :: int
  cp_ip_refill_tokens :: int
  cp_elevated_cost :: int
  cp_high_cost :: int
  cp_new_account_seconds :: timestamp
  cp_pending_elevated_ratio :: rat
  cp_pending_high_ratio :: rat
  cp_ip_account_window_seconds :: timestamp
  cp_ip_accounts_elevated :: nat
  cp_ip_accounts_high :: nat
  cp_denial_window_seconds :: int
  cp_denials_elevated :: nat
  cp_denials_high :: nat
  cp_state_retention_seconds :: timestamp

definition risk_of :: "bool \<Rightarrow> string list \<Rightarrow> risk_assessment" where
  "risk_of high_risk reasons =
     \<lparr>ra_level = (if high_risk then HIGH else if reasons \<noteq> [] then ELEVATED else NORMAL), ra_reasons = reasons\<rparr>"

definition assess_creation_risk :: "creation_risk_signals \<Rightarrow> creation_risk_policy \<Rightarrow> risk_assessment" where
  "assess_creation_risk signals policy =
     (let reasons = (if cs_new_account signals then [''new_account''] else []) @
            (if cs_pending_ratio signals \<ge> cp_pending_elevated_ratio policy then [''pending_documents''] else []) @
            (if cs_ip_account_count signals \<ge> cp_ip_accounts_elevated policy then [''ip_account_fanout''] else []) @
            (if cs_denial_count signals \<ge> cp_denials_elevated policy then [''recent_denials''] else [])
      in risk_of (cs_pending_ratio signals \<ge> cp_pending_high_ratio policy \<or>
                  cs_ip_account_count signals \<ge> cp_ip_accounts_high policy \<or>
                  cs_denial_count signals \<ge> cp_denials_high policy \<or> length reasons \<ge> 2) reasons)"

definition risk_cost :: "risk_assessment \<Rightarrow> int \<Rightarrow> int \<Rightarrow> int" where
  "risk_cost assessment elevated_cost high_cost =
     (case ra_level assessment of HIGH \<Rightarrow> high_cost | ELEVATED \<Rightarrow> elevated_cost | NORMAL \<Rightarrow> 1)"

section \<open>State\<close>

record risk_state =
  rs_buckets :: bucket_table
  rs_ips :: ip_account_table

definition store_bucket :: "rate_bucket \<Rightarrow> risk_state \<Rightarrow> risk_state" where
  "store_bucket b st = st\<lparr>rs_buckets := od_set (bucket_key b) b (rs_buckets st)\<rparr>"

definition lock_bucket ::
  "(string \<Rightarrow> rate_bucket option) \<Rightarrow> string \<Rightarrow> string \<Rightarrow> string \<Rightarrow> timestamp \<Rightarrow> int \<Rightarrow> risk_state \<Rightarrow> rate_bucket \<times> risk_state" where
  "lock_bucket rivals namespace scope identity now capacity st =
     (let (b, tab) = lock_rate_bucket (rivals scope) (rs_buckets st) namespace scope identity now capacity
      in (b, st\<lparr>rs_buckets := tab\<rparr>))"

text \<open>The documents as far as the pending count reads them.\<close>

record documents_view =
  dv_documents :: "(string \<times> bool) list"
  dv_metadata :: "(string \<times> string) list"
  dv_revisions :: "(string \<times> string) list"
  dv_files :: file_db

definition live_upload_task :: "timestamp \<Rightarrow> file_task \<Rightarrow> bool" where
  "live_upload_task now t \<longleftrightarrow> ft_mode t = UPLOAD \<and> active_status (ft_status t) \<and>
     (case ft_end_time t of None \<Rightarrow> True | Some e \<Rightarrow> e > now)"

definition has_active_revision :: "documents_view \<Rightarrow> string \<Rightarrow> bool" where
  "has_active_revision dv doc \<longleftrightarrow> list_ex (\<lambda>(d, file). d = doc \<and>
     list_ex (\<lambda>f. fl_id f = file \<and> fl_active f) (fd_files (dv_files dv))) (dv_revisions dv)"

definition has_live_upload :: "documents_view \<Rightarrow> string \<Rightarrow> timestamp \<Rightarrow> bool" where
  "has_live_upload dv doc now \<longleftrightarrow> list_ex (\<lambda>(d, file). d = doc \<and>
     list_ex (\<lambda>f. fl_id f = file) (fd_files (dv_files dv)) \<and>
     list_ex (\<lambda>t. ft_file_id t = file \<and> live_upload_task now t) (fd_tasks (dv_files dv))) (dv_revisions dv)"

definition count_pending_documents :: "documents_view \<Rightarrow> string \<Rightarrow> timestamp \<Rightarrow> nat" where
  "count_pending_documents dv creator_id now =
     length (filter (\<lambda>((doc, ok), (d, c)). d = doc \<and> ok \<and> c = creator_id \<and> \<not> has_active_revision dv doc \<and>
                       has_live_upload dv doc now)
       (List.product (dv_documents dv) (dv_metadata dv)))"

section \<open>Creation limits\<close>

record limit_decision =
  ld_allowed :: bool
  ld_scope :: "string option"
  ld_limit :: "int option"
  ld_retry_after_seconds :: "int option"
  ld_risk_level :: "risk_level option"
  ld_risk_reasons :: "string list"
  ld_would_block :: bool
  ld_active_downloads :: "nat option"

definition plain_decision :: "bool \<Rightarrow> limit_decision" where
  "plain_decision allowed = \<lparr>ld_allowed = allowed, ld_scope = None, ld_limit = None, ld_retry_after_seconds = None,
     ld_risk_level = None, ld_risk_reasons = [], ld_would_block = False, ld_active_downloads = None\<rparr>"

text \<open>The end times of the running uploads of a creator; a null end time fails the comparison.\<close>

definition upload_deadlines :: "documents_view \<Rightarrow> string \<Rightarrow> timestamp \<Rightarrow> timestamp list" where
  "upload_deadlines dv user_id now =
     concat (map (\<lambda>t. case ft_end_time t of
          None \<Rightarrow> []
        | Some e \<Rightarrow> if ft_mode t = UPLOAD \<and> active_status (ft_status t) \<and> e > now \<and>
                      list_ex (\<lambda>f. fl_id f = ft_file_id t) (fd_files (dv_files dv)) \<and>
                      list_ex (\<lambda>(d, file). file = ft_file_id t \<and> list_ex (\<lambda>(d', _). d' = d) (dv_documents dv) \<and>
                         list_ex (\<lambda>(d', c). d' = d \<and> c = user_id) (dv_metadata dv)) (dv_revisions dv)
                   then [e] else []) (fd_tasks (dv_files dv)))"

definition pending_limit_decision ::
  "documents_view \<Rightarrow> string \<Rightarrow> timestamp \<Rightarrow> nat \<Rightarrow> nat \<Rightarrow> limit_decision option" where
  "pending_limit_decision dv user_id now pending_count limit =
     (if pending_count < limit then None
      else (let nearest = (case upload_deadlines dv user_id now of [] \<Rightarrow> now + 1
                           | e # es \<Rightarrow> (let m = fold min es e in if m = 0 then now + 1 else m))
            in Some ((plain_decision False)\<lparr>ld_scope := Some ''pending_documents'', ld_limit := Some (int limit),
                       ld_retry_after_seconds := Some (max 1 \<lceil>nearest - now\<rceil>)\<rparr>)))"

definition limiting :: "bucket_decision list \<Rightarrow> risk_assessment \<Rightarrow> limit_decision" where
  "limiting denied assessment =
     (case py_max_by bd_retry_after_seconds denied of
        None \<Rightarrow> plain_decision False
      | Some d \<Rightarrow> \<lparr>ld_allowed = False, ld_scope = Some (bd_scope d), ld_limit = Some (bd_effective_limit d),
          ld_retry_after_seconds = Some (bd_retry_after_seconds d), ld_risk_level = Some (ra_level assessment),
          ld_risk_reasons = ra_reasons assessment, ld_would_block = True, ld_active_downloads = None\<rparr>)"

definition passing :: "risk_assessment \<Rightarrow> bool \<Rightarrow> limit_decision" where
  "passing assessment would_block = (plain_decision True)\<lparr>ld_risk_level := Some (ra_level assessment),
     ld_risk_reasons := ra_reasons assessment, ld_would_block := would_block\<rparr>"

definition young_account :: "timestamp option \<Rightarrow> timestamp \<Rightarrow> timestamp \<Rightarrow> bool" where
  "young_account account_created_at now new_account_seconds \<longleftrightarrow>
     (case account_created_at of None \<Rightarrow> True | Some t \<Rightarrow> now - t < new_account_seconds)"

definition check_document_creation_limits ::
  "(string \<Rightarrow> rate_bucket option) \<Rightarrow> creation_risk_policy \<Rightarrow> nat \<Rightarrow> documents_view \<Rightarrow> string \<Rightarrow> string \<Rightarrow> timestamp option \<Rightarrow>
   bool \<Rightarrow> timestamp \<Rightarrow> risk_state \<Rightarrow> limit_decision \<times> risk_state" where
  "check_document_creation_limits rivals policy max_pending dv user_id ip_address account_created_at bypass_rate_limit now st =
     (let ns = ''document_creation'';
          (account0, st1) = lock_bucket rivals ns ''account'' user_id now (cp_account_capacity policy) st;
          account1 = touch_rate_bucket account0 now;
          pending_count = count_pending_documents dv user_id now;
          pending = pending_limit_decision dv user_id now pending_count max_pending
      in if bypass_rate_limit
         then (case pending of None \<Rightarrow> plain_decision True | Some d \<Rightarrow> d, store_bucket account1 st1)
         else (let (ip0, st2) = lock_bucket rivals ns ''ip'' ip_address now (cp_ip_capacity policy) (store_bucket account1 st1);
                   ips = record_ip_account (rs_ips st2) ns ip_address user_id now;
                   account2 = refresh_denials account1 now (cp_denial_window_seconds policy);
                   ip1 = refresh_denials ip0 now (cp_denial_window_seconds policy);
                   assessment = assess_creation_risk
                     \<lparr>cs_new_account = young_account account_created_at now (cp_new_account_seconds policy),
                      cs_pending_ratio = of_nat pending_count / of_nat max_pending,
                      cs_ip_account_count = count_ip_accounts ips ns ip_address (now - cp_ip_account_window_seconds policy),
                      cs_denial_count = max (rb_denial_count account2) (rb_denial_count ip1)\<rparr> policy;
                   cost = risk_cost assessment (cp_elevated_cost policy) (cp_high_cost policy);
                   (account_decision, account3) = consume_bucket account2 now (cp_account_capacity policy)
                     (cp_account_refill_tokens policy) (cp_refill_period_seconds policy) cost;
                   (ip_decision, ip2) = consume_bucket ip1 now (cp_ip_capacity policy)
                     (cp_ip_refill_tokens policy) (cp_refill_period_seconds policy) cost;
                   denied = filter (\<lambda>d. \<not> bd_allowed d) [account_decision, ip_decision];
                   would_block = (denied \<noteq> []);
                   deny = (\<lambda>b. if would_block then record_denial b now (cp_denial_window_seconds policy) else b);
                   st3 = store_bucket (deny ip2) (store_bucket (deny account3) (st2\<lparr>rs_ips := ips\<rparr>))
               in (if would_block \<and> cp_enforce policy then limiting denied assessment
                   else (case pending of Some d \<Rightarrow> d | None \<Rightarrow> passing assessment would_block), st3)))"

definition cleanup_document_creation_risk_state ::
  "creation_risk_policy \<Rightarrow> timestamp \<Rightarrow> risk_state \<Rightarrow> cleanup_counts \<times> risk_state" where
  "cleanup_document_creation_risk_state policy now st =
     (let (counts, ips, tab) = cleanup_rate_limit_state (rs_ips st) (rs_buckets st) ''document_creation''
            (now - cp_ip_account_window_seconds policy) (now - cp_state_retention_seconds policy)
      in (counts, \<lparr>rs_buckets = tab, rs_ips = ips\<rparr>))"

section \<open>Download limits\<close>

record download_risk_signals =
  ds_new_account :: bool
  ds_ip_account_count :: nat
  ds_denial_count :: nat

record download_risk_policy =
  dp_enforce :: bool
  dp_refill_period_seconds :: int
  dp_issue_account_capacity :: int
  dp_issue_account_refill_tokens :: int
  dp_issue_ip_capacity :: int
  dp_issue_ip_refill_tokens :: int
  dp_transfer_account_capacity :: int
  dp_transfer_account_refill_tokens :: int
  dp_transfer_ip_capacity :: int
  dp_transfer_ip_refill_tokens :: int
  dp_task_capacity :: int
  dp_task_refill_tokens :: int
  dp_task_refill_period_seconds :: int
  dp_elevated_cost :: int
  dp_high_cost :: int
  dp_new_account_seconds :: timestamp
  dp_ip_account_window_seconds :: timestamp
  dp_ip_accounts_elevated :: nat
  dp_ip_accounts_high :: nat
  dp_denial_window_seconds :: int
  dp_denials_elevated :: nat
  dp_denials_high :: nat
  dp_state_retention_seconds :: timestamp

definition assess_download_risk :: "download_risk_signals \<Rightarrow> download_risk_policy \<Rightarrow> risk_assessment" where
  "assess_download_risk signals policy =
     (let reasons = (if ds_new_account signals then [''new_account''] else []) @
            (if ds_ip_account_count signals \<ge> dp_ip_accounts_elevated policy then [''ip_account_fanout''] else []) @
            (if ds_denial_count signals \<ge> dp_denials_elevated policy then [''recent_denials''] else [])
      in risk_of (ds_ip_account_count signals \<ge> dp_ip_accounts_high policy \<or>
                  ds_denial_count signals \<ge> dp_denials_high policy \<or> length reasons \<ge> 2) reasons)"

datatype download_phase = Issue | Transfer

fun phase_namespace :: "download_phase \<Rightarrow> string" where
  "phase_namespace Issue = ''download_issue''"
| "phase_namespace Transfer = ''download_transfer''"

definition active_download_count :: "file_db \<Rightarrow> timestamp \<Rightarrow> nat" where
  "active_download_count db now = length (filter (\<lambda>t. ft_mode t = DOWNLOAD \<and> ft_status t = IN_PROGRESS \<and>
     (case ft_end_time t of None \<Rightarrow> True | Some e \<Rightarrow> e > now)) (fd_tasks db))"

text \<open>The buckets a check locks, in their order, as scope, identity, capacity, refill and period.\<close>

definition download_buckets ::
  "download_phase \<Rightarrow> download_risk_policy \<Rightarrow> string option \<Rightarrow> string \<Rightarrow> string option \<Rightarrow> (string \<times> string \<times> int \<times> int \<times> int) list" where
  "download_buckets phase policy user_id ip_address task_id =
     (case user_id of None \<Rightarrow> [] | Some u \<Rightarrow>
        [(''account'', u, case phase of Issue \<Rightarrow> dp_issue_account_capacity policy | Transfer \<Rightarrow> dp_transfer_account_capacity policy,
          case phase of Issue \<Rightarrow> dp_issue_account_refill_tokens policy | Transfer \<Rightarrow> dp_transfer_account_refill_tokens policy,
          dp_refill_period_seconds policy)]) @
     [(''ip'', ip_address, case phase of Issue \<Rightarrow> dp_issue_ip_capacity policy | Transfer \<Rightarrow> dp_transfer_ip_capacity policy,
       case phase of Issue \<Rightarrow> dp_issue_ip_refill_tokens policy | Transfer \<Rightarrow> dp_transfer_ip_refill_tokens policy,
       dp_refill_period_seconds policy)] @
     (case task_id of None \<Rightarrow> [] | Some t \<Rightarrow>
        [(''task'', t, dp_task_capacity policy, dp_task_refill_tokens policy, dp_task_refill_period_seconds policy)])"

fun lock_buckets ::
  "(string \<Rightarrow> rate_bucket option) \<Rightarrow> string \<Rightarrow> timestamp \<Rightarrow> (string \<times> string \<times> int \<times> int \<times> int) list \<Rightarrow> risk_state \<Rightarrow>
   rate_bucket list \<times> risk_state" where
  "lock_buckets rivals ns now [] st = ([], st)"
| "lock_buckets rivals ns now ((scope, identity, capacity, _, _) # ks) st =
     (let (b, st1) = lock_bucket rivals ns scope identity now capacity st;
          (bs, st2) = lock_buckets rivals ns now ks st1
      in (b # bs, st2))"

definition check_download_limits ::
  "(string \<Rightarrow> rate_bucket option) \<Rightarrow> download_risk_policy \<Rightarrow> file_db \<Rightarrow> download_phase \<Rightarrow> string option \<Rightarrow> string \<Rightarrow>
   timestamp option \<Rightarrow> string option \<Rightarrow> bool \<Rightarrow> timestamp \<Rightarrow> risk_state \<Rightarrow> limit_decision \<times> risk_state" where
  "check_download_limits rivals policy db phase user_id ip_address account_created_at task_id bypass_rate_limit now st =
     (let ns = phase_namespace phase;
          active = (case phase of Transfer \<Rightarrow> Some (active_download_count db now) | Issue \<Rightarrow> None)
      in if bypass_rate_limit then ((plain_decision True)\<lparr>ld_active_downloads := active\<rparr>, st)
         else (let ks = download_buckets phase policy user_id ip_address task_id;
                   (locked, st1) = lock_buckets rivals ns now ks st;
                   ips = (case user_id of None \<Rightarrow> rs_ips st1 | Some u \<Rightarrow> record_ip_account (rs_ips st1) ns ip_address u now);
                   buckets = map (\<lambda>b. refresh_denials b now (dp_denial_window_seconds policy)) locked;
                   assessment = assess_download_risk
                     \<lparr>ds_new_account = (user_id \<noteq> None \<and> young_account account_created_at now (dp_new_account_seconds policy)),
                      ds_ip_account_count = (if user_id \<noteq> None
                        then count_ip_accounts ips ns ip_address (now - dp_ip_account_window_seconds policy) else 0),
                      ds_denial_count = fold max (map rb_denial_count buckets) 0\<rparr> policy;
                   cost = risk_cost assessment (dp_elevated_cost policy) (dp_high_cost policy);
                   results = map (\<lambda>(b, (scope, _, capacity, refill, period)).
                     consume_bucket b now capacity refill period (if scope = ''task'' then 1 else cost)) (zip buckets ks);
                   denied = filter (\<lambda>d. \<not> bd_allowed d) (map fst results);
                   would_block = (denied \<noteq> []);
                   final = map (\<lambda>(_, b). if would_block then record_denial b now (dp_denial_window_seconds policy) else b) results;
                   st2 = fold store_bucket final (st1\<lparr>rs_ips := ips\<rparr>)
               in ((if would_block \<and> dp_enforce policy then limiting denied assessment else passing assessment would_block)
                     \<lparr>ld_active_downloads := active\<rparr>, st2)))"

definition check_download_issue_limits ::
  "(string \<Rightarrow> rate_bucket option) \<Rightarrow> download_risk_policy \<Rightarrow> file_db \<Rightarrow> string \<Rightarrow> string \<Rightarrow> timestamp option \<Rightarrow> bool \<Rightarrow>
   timestamp \<Rightarrow> risk_state \<Rightarrow> limit_decision \<times> risk_state" where
  "check_download_issue_limits rivals policy db user_id ip_address account_created_at bypass_rate_limit now st =
     check_download_limits rivals policy db Issue (Some user_id) ip_address account_created_at None bypass_rate_limit now st"

definition check_download_transfer_limits ::
  "(string \<Rightarrow> rate_bucket option) \<Rightarrow> download_risk_policy \<Rightarrow> file_db \<Rightarrow> string option \<Rightarrow> string \<Rightarrow> string \<Rightarrow> timestamp option \<Rightarrow>
   bool \<Rightarrow> timestamp \<Rightarrow> risk_state \<Rightarrow> limit_decision \<times> risk_state" where
  "check_download_transfer_limits rivals policy db user_id ip_address task_id account_created_at bypass_rate_limit now st =
     check_download_limits rivals policy db Transfer user_id ip_address account_created_at (Some task_id) bypass_rate_limit now st"

definition cleanup_document_download_risk_state ::
  "download_risk_policy \<Rightarrow> timestamp \<Rightarrow> risk_state \<Rightarrow> cleanup_counts \<times> risk_state" where
  "cleanup_document_download_risk_state policy now st =
     (let clean = (\<lambda>ns s. let (counts, ips, tab) = cleanup_rate_limit_state (rs_ips s) (rs_buckets s) ns
            (now - dp_ip_account_window_seconds policy) (now - dp_state_retention_seconds policy)
            in (counts, \<lparr>rs_buckets = tab, rs_ips = ips\<rparr>));
          (c1, st1) = clean (phase_namespace Issue) st;
          (c2, st2) = clean (phase_namespace Transfer) st1
      in (\<lparr>cc_ip_accounts = cc_ip_accounts c1 + cc_ip_accounts c2, cc_buckets = cc_buckets c1 + cc_buckets c2\<rparr>, st2))"

section \<open>The advertised delay\<close>

text \<open>The default policy, and an account that has used up its tokens.\<close>

definition default_creation_policy :: creation_risk_policy where
  "default_creation_policy = \<lparr>cp_enforce = True, cp_refill_period_seconds = 600, cp_account_capacity = 60,
     cp_account_refill_tokens = 300, cp_ip_capacity = 200, cp_ip_refill_tokens = 1000, cp_elevated_cost = 3,
     cp_high_cost = 10, cp_new_account_seconds = 604800, cp_pending_elevated_ratio = 1 / 2,
     cp_pending_high_ratio = 3 / 4, cp_ip_account_window_seconds = 600, cp_ip_accounts_elevated = 4,
     cp_ip_accounts_high = 10, cp_denial_window_seconds = 600, cp_denials_elevated = 1, cp_denials_high = 3,
     cp_state_retention_seconds = 86400\<rparr>"

definition used_up :: risk_state where
  "used_up = \<lparr>rs_buckets = [((''document_creation'', ''account'', ''u''),
     \<lparr>rb_namespace = ''document_creation'', rb_scope = ''account'', rb_identity = ''u'', rb_tokens = 0,
      rb_last_refill_at = 1000000, rb_denial_count = 0, rb_last_denied_at = None, rb_last_attempt = 1000000\<rparr>)], rs_ips = []\<rparr>"

definition no_documents :: documents_view where
  "no_documents = \<lparr>dv_documents = [], dv_metadata = [], dv_revisions = [], dv_files = \<lparr>fd_tasks = [], fd_files = []\<rparr>\<rparr>"

definition creation_attempt :: "timestamp \<Rightarrow> risk_state \<Rightarrow> limit_decision \<times> risk_state" where
  "creation_attempt = check_document_creation_limits (\<lambda>_. None) default_creation_policy 16 no_documents ''u'' ''ip'' (Some 0) False"

text \<open>The delay a refused document creation advertises is not enough: under the default policy an
  established account with no tokens left is told to wait two seconds, but the refusal itself raises
  the risk level and with it the price, so the attempt made after that delay is refused again although
  the account bucket then holds the price of the first attempt.\<close>
lemma creation_retry_after_too_short:
  "ld_retry_after_seconds (fst (creation_attempt 1000000 used_up)) = Some 2 \<and>
   ld_allowed (fst (creation_attempt 1000000 used_up)) = False \<and>
   ld_allowed (fst (creation_attempt 1000002 (snd (creation_attempt 1000000 used_up)))) = False \<and>
   map_option rb_tokens (od_get (rs_buckets (snd (creation_attempt 1000002 (snd (creation_attempt 1000000 used_up)))))
     (''document_creation'', ''account'', ''u'')) = Some 1"
  by code_simp

section \<open>How many documents an account can create\<close>

abbreviation account_slot :: "string \<Rightarrow> bucket_key" where
  "account_slot u \<equiv> (''document_creation'', ''account'', u)"

definition well_keyed :: "risk_state \<Rightarrow> bool" where
  "well_keyed st \<longleftrightarrow> (\<forall>k b. od_get (rs_buckets st) k = Some b \<longrightarrow> bucket_key b = k)"

lemma bucket_key_ops [simp]:
  "bucket_key (touch_rate_bucket b now) = bucket_key b" "bucket_key (refresh_denials b now w) = bucket_key b"
  "bucket_key (record_denial b now w) = bucket_key b" "bucket_key (snd (consume_bucket b now c r p k)) = bucket_key b"
  by (auto simp: bucket_key_def touch_rate_bucket_def refresh_denials_def record_denial_def consume_bucket_def Let_def
      split: option.splits)

lemma tokens_ops [simp]:
  "rb_tokens (touch_rate_bucket b now) = rb_tokens b" "rb_tokens (refresh_denials b now w) = rb_tokens b"
  "rb_tokens (record_denial b now w) = rb_tokens b"
  "rb_last_refill_at (touch_rate_bucket b now) = rb_last_refill_at b"
  "rb_last_refill_at (refresh_denials b now w) = rb_last_refill_at b"
  "rb_last_refill_at (record_denial b now w) = rb_last_refill_at b"
  by (auto simp: touch_rate_bucket_def refresh_denials_def record_denial_def Let_def split: option.splits)

lemma rs_ips_update [simp]: "rs_buckets (st\<lparr>rs_ips := i\<rparr>) = rs_buckets st" by simp

lemma lock_bucket_none:
  assumes "well_keyed st" "lock_bucket (\<lambda>_. None) ns scope i now cap st = (b, st1)"
  shows "bucket_key b = (ns, scope, i)" "well_keyed st1" "od_get (rs_buckets st1) (ns, scope, i) = Some b"
    "k \<noteq> (ns, scope, i) \<Longrightarrow> od_get (rs_buckets st1) k = od_get (rs_buckets st) k"
    "od_get (rs_buckets st) (ns, scope, i) = Some c \<Longrightarrow> b = c"
    "od_get (rs_buckets st) (ns, scope, i) = None \<Longrightarrow> rb_tokens b = of_int cap \<and> rb_last_refill_at b = now"
  using assms by (auto simp: lock_bucket_def lock_rate_bucket_def well_keyed_def bucket_key_def Let_def split: option.splits if_splits)

lemma store_bucket_get [simp]:
  "od_get (rs_buckets (store_bucket b st)) k = (if k = bucket_key b then Some b else od_get (rs_buckets st) k)"
  by (simp add: store_bucket_def)

lemma well_keyed_store [simp]: "well_keyed st \<Longrightarrow> well_keyed (store_bucket b st)"
  by (simp add: well_keyed_def)

lemma well_keyed_ips [simp]: "well_keyed (st\<lparr>rs_ips := i\<rparr>) = well_keyed st"
  by (simp add: well_keyed_def)

definition creation_rate :: "creation_risk_policy \<Rightarrow> rat" where
  "creation_rate policy = of_int (cp_account_refill_tokens policy) / of_int (cp_refill_period_seconds policy)"

text \<open>What one check that is not bypassed does to the bucket of its account.\<close>

lemma creation_check_account:
  assumes wk: "well_keyed st"
    and check: "check_document_creation_limits (\<lambda>_. None) policy mp dv u ip created False now st = (d, st')"
    and b: "b = fst (lock_bucket (\<lambda>_. None) ''document_creation'' ''account'' u now (cp_account_capacity policy) st)"
      "rb_last_refill_at b \<le> now"
    and cost: "1 \<le> cp_elevated_cost policy" "1 \<le> cp_high_cost policy"
  shows "well_keyed st'" "\<exists>b' c. od_get (rs_buckets st') (account_slot u) = Some b' \<and> rb_last_refill_at b' = now \<and> 1 \<le> c \<and>
      rb_tokens b' = min (of_int (cp_account_capacity policy)) (rb_tokens b + (now - rb_last_refill_at b) * creation_rate policy) -
        (if of_int c \<le> min (of_int (cp_account_capacity policy)) (rb_tokens b + (now - rb_last_refill_at b) * creation_rate policy)
         then of_int c else (0 :: rat)) \<and>
      (ld_allowed d \<and> cp_enforce policy \<longrightarrow>
         of_int c \<le> min (of_int (cp_account_capacity policy)) (rb_tokens b + (now - rb_last_refill_at b) * creation_rate policy))"
    "v \<noteq> u \<Longrightarrow> od_get (rs_buckets st') (account_slot v) = od_get (rs_buckets st) (account_slot v)"
proof -
  let ?ns = "''document_creation''" and ?w = "cp_denial_window_seconds policy"
  obtain a0 st1 where l1: "lock_bucket (\<lambda>_. None) ?ns ''account'' u now (cp_account_capacity policy) st = (a0, st1)" by fastforce
  define a1 where "a1 = touch_rate_bucket a0 now"
  obtain ip0 st2 where l2: "lock_bucket (\<lambda>_. None) ?ns ''ip'' ip now (cp_ip_capacity policy) (store_bucket a1 st1) = (ip0, st2)"
    by fastforce
  note L1 = lock_bucket_none[OF wk l1]
  have wk1: "well_keyed (store_bucket a1 st1)" using L1(2) by simp
  note L2 = lock_bucket_none[OF wk1 l2]
  define ips where "ips = record_ip_account (rs_ips st2) ?ns ip u now"
  define a2 where "a2 = refresh_denials a1 now ?w"
  define ip1 where "ip1 = refresh_denials ip0 now ?w"
  define assessment where "assessment = assess_creation_risk
      \<lparr>cs_new_account = young_account created now (cp_new_account_seconds policy),
       cs_pending_ratio = of_nat (count_pending_documents dv u now) / of_nat mp,
       cs_ip_account_count = count_ip_accounts ips ?ns ip (now - cp_ip_account_window_seconds policy),
       cs_denial_count = max (rb_denial_count a2) (rb_denial_count ip1)\<rparr> policy"
  define c where "c = risk_cost assessment (cp_elevated_cost policy) (cp_high_cost policy)"
  obtain ad a3 where c1: "consume_bucket a2 now (cp_account_capacity policy) (cp_account_refill_tokens policy)
      (cp_refill_period_seconds policy) c = (ad, a3)" by fastforce
  obtain id ip2 where c2: "consume_bucket ip1 now (cp_ip_capacity policy) (cp_ip_refill_tokens policy)
      (cp_refill_period_seconds policy) c = (id, ip2)" by fastforce
  define deny where "deny = (\<lambda>b. if filter (\<lambda>d. \<not> bd_allowed d) [ad, id] \<noteq> [] then record_denial b now ?w else b)"
  note raw = c_def assessment_def a2_def ip1_def a1_def ips_def
  have "(d, st') = ((if filter (\<lambda>d. \<not> bd_allowed d) [ad, id] \<noteq> [] \<and> cp_enforce policy
          then limiting (filter (\<lambda>d. \<not> bd_allowed d) [ad, id]) assessment
          else (case pending_limit_decision dv u now (count_pending_documents dv u now) mp of
                  Some e \<Rightarrow> e | None \<Rightarrow> passing assessment (filter (\<lambda>d. \<not> bd_allowed d) [ad, id] \<noteq> []))),
      store_bucket (deny ip2) (store_bucket (deny a3) (st2\<lparr>rs_ips := ips\<rparr>)))"
    unfolding check[symmetric] check_document_creation_limits_def Let_def l1 l2[unfolded raw] c1[unfolded raw] c2[unfolded raw]
      prod.case if_False deny_def raw ..
  then have res: "st' = store_bucket (deny ip2) (store_bucket (deny a3) (st2\<lparr>rs_ips := ips\<rparr>))"
    "d = (if filter (\<lambda>d. \<not> bd_allowed d) [ad, id] \<noteq> [] \<and> cp_enforce policy
          then limiting (filter (\<lambda>d. \<not> bd_allowed d) [ad, id]) assessment
          else (case pending_limit_decision dv u now (count_pending_documents dv u now) mp of
                  Some e \<Rightarrow> e | None \<Rightarrow> passing assessment (filter (\<lambda>d. \<not> bd_allowed d) [ad, id] \<noteq> [])))"
    by simp_all
  have keys: "bucket_key (deny a3) = account_slot u" "bucket_key (deny ip2) = (?ns, ''ip'', ip)"
    using L1(1) L2(1) arg_cong[OF c1, of "\<lambda>x. bucket_key (snd x)"] arg_cong[OF c2, of "\<lambda>x. bucket_key (snd x)"]
    by (simp_all add: deny_def a2_def a1_def ip1_def)
  show "well_keyed st'" using L2(2) by (simp add: res(1))
  show "v \<noteq> u \<Longrightarrow> od_get (rs_buckets st') (account_slot v) = od_get (rs_buckets st) (account_slot v)"
    using L1(1) L1(4)[of "account_slot v"] L2(4)[of "account_slot v"] keys by (simp add: res(1) a1_def)
  have b2: "rb_tokens a2 = rb_tokens b" "rb_last_refill_at a2 = rb_last_refill_at b"
    using b(1) l1 by (simp_all add: a2_def a1_def)
  have take: "db_take (cp_account_capacity policy) (cp_account_refill_tokens policy) (cp_refill_period_seconds policy) a2 now c =
      (bd_allowed ad, a3)" by (simp add: db_take_def c1)
  have last: "rb_last_refill_at a2 \<le> now" using b(2) b2 by simp
  let ?T = "min (of_int (cp_account_capacity policy)) (rb_tokens b + (now - rb_last_refill_at b) * creation_rate policy)"
  have granted: "bd_allowed ad \<longleftrightarrow> of_int c \<le> ?T"
    using db.tk_granted[OF last, of "cp_account_capacity policy" "cp_account_refill_tokens policy" "cp_refill_period_seconds policy" c]
    by (simp add: take b2 creation_rate_def)
  have tok: "rb_tokens a3 = ?T - (if bd_allowed ad then of_int c else 0)" "rb_last_refill_at a3 = now"
    using db.tk_tokens[OF last, of "cp_account_capacity policy" "cp_account_refill_tokens policy" "cp_refill_period_seconds policy" c]
      db.tk_last[OF last, of "cp_account_capacity policy" "cp_account_refill_tokens policy" "cp_refill_period_seconds policy" c]
    by (simp_all add: take b2 creation_rate_def)
  have "1 \<le> c" using cost by (auto simp: c_def risk_cost_def split: risk_level.split)
  moreover have "od_get (rs_buckets st') (account_slot u) = Some (deny a3)" using keys by (simp add: res(1))
  moreover have "rb_tokens (deny a3) = rb_tokens a3" "rb_last_refill_at (deny a3) = now" using tok by (simp_all add: deny_def)
  moreover have "ld_allowed d \<and> cp_enforce policy \<longrightarrow> bd_allowed ad"
    by (auto simp: res(2) limiting_def plain_decision_def split: option.splits)
  ultimately show "\<exists>b' c. od_get (rs_buckets st') (account_slot u) = Some b' \<and> rb_last_refill_at b' = now \<and> 1 \<le> c \<and>
      rb_tokens b' = ?T - (if of_int c \<le> ?T then of_int c else (0 :: rat)) \<and>
      (ld_allowed d \<and> cp_enforce policy \<longrightarrow> of_int c \<le> ?T)"
    using tok granted by (intro exI[of _ "deny a3"] exI[of _ c]) auto
qed

text \<open>A history of creation requests, each with the documents as they are at its time.\<close>

record creation_request =
  cr_user :: string
  cr_ip :: string
  cr_created_at :: "timestamp option"
  cr_documents :: documents_view
  cr_now :: timestamp

fun created_by ::
  "creation_risk_policy \<Rightarrow> nat \<Rightarrow> string \<Rightarrow> creation_request list \<Rightarrow> risk_state \<Rightarrow> nat" where
  "created_by policy mp u [] st = 0"
| "created_by policy mp u (r # rs) st =
     (case check_document_creation_limits (\<lambda>_. None) policy mp (cr_documents r) (cr_user r) (cr_ip r) (cr_created_at r)
             False (cr_now r) st of (d, st1) \<Rightarrow>
        (if cr_user r = u \<and> ld_allowed d then 1 else 0) + created_by policy mp u rs st1)"

text \<open>Every bucket was last refilled before the next request.\<close>

definition refilled_before :: "timestamp \<Rightarrow> risk_state \<Rightarrow> bool" where
  "refilled_before t st \<longleftrightarrow> (\<forall>u b. od_get (rs_buckets st) (account_slot u) = Some b \<longrightarrow> rb_last_refill_at b \<le> t)"

lemma creation_step:
  assumes pol: "cp_enforce policy" "1 \<le> cp_elevated_cost policy" "1 \<le> cp_high_cost policy"
    and inv: "well_keyed st" "refilled_before t st" "t \<le> now"
    and c: "check_document_creation_limits (\<lambda>_. None) policy mp dv v ip created False now st = (d, st1)"
    and a: "a = fst (lock_bucket (\<lambda>_. None) ''document_creation'' ''account'' v now (cp_account_capacity policy) st)"
    and T: "T = min (of_int (cp_account_capacity policy)) (rb_tokens a + (now - rb_last_refill_at a) * creation_rate policy)"
  shows "well_keyed st1" "refilled_before now st1"
    "u \<noteq> v \<Longrightarrow> od_get (rs_buckets st1) (account_slot u) = od_get (rs_buckets st) (account_slot u)"
    "\<exists>b'. od_get (rs_buckets st1) (account_slot v) = Some b' \<and> rb_last_refill_at b' = now \<and>
       (if ld_allowed d then 1 else 0) + rb_tokens b' \<le> T \<and> (0 \<le> T \<longrightarrow> 0 \<le> rb_tokens b')"
    "rb_last_refill_at a \<le> now"
    "od_get (rs_buckets st) (account_slot v) = Some b \<Longrightarrow> a = b"
    "od_get (rs_buckets st) (account_slot v) = None \<Longrightarrow> rb_tokens a = of_int (cp_account_capacity policy) \<and> rb_last_refill_at a = now"
proof -
  obtain st0 where l: "lock_bucket (\<lambda>_. None) ''document_creation'' ''account'' v now (cp_account_capacity policy) st = (a, st0)"
    by (metis a prod.collapse)
  note L = lock_bucket_none[OF inv(1) l]
  show "od_get (rs_buckets st) (account_slot v) = Some b \<Longrightarrow> a = b"
    "od_get (rs_buckets st) (account_slot v) = None \<Longrightarrow> rb_tokens a = of_int (cp_account_capacity policy) \<and> rb_last_refill_at a = now"
    using L(5,6) by blast+
  show la: "rb_last_refill_at a \<le> now"
    using inv(2,3) L(5,6) by (cases "od_get (rs_buckets st) (account_slot v)") (fastforce simp: refilled_before_def)+
  note K = creation_check_account[OF inv(1) c a la pol(2,3)]
  show "well_keyed st1" using K(1) .
  show other: "od_get (rs_buckets st1) (account_slot u) = od_get (rs_buckets st) (account_slot u)" if "u \<noteq> v" for u
    using K(3)[OF that] .
  obtain b' k where b': "od_get (rs_buckets st1) (account_slot v) = Some b'" "rb_last_refill_at b' = now" "1 \<le> k"
      "rb_tokens b' = T - (if of_int k \<le> T then of_int k else (0 :: rat))" "ld_allowed d \<longrightarrow> of_int k \<le> T"
    using K(2) pol(1) unfolding T by blast
  have "(1 :: rat) \<le> of_int k" using b'(3) by simp
  then have "(if ld_allowed d then 1 else 0) + rb_tokens b' \<le> T \<and> (0 \<le> T \<longrightarrow> 0 \<le> rb_tokens b')"
    using b'(4,5) by (auto split: if_splits)
  with b'(1,2) show "\<exists>b'. od_get (rs_buckets st1) (account_slot v) = Some b' \<and> rb_last_refill_at b' = now \<and>
      (if ld_allowed d then 1 else 0) + rb_tokens b' \<le> T \<and> (0 \<le> T \<longrightarrow> 0 \<le> rb_tokens b')" by blast
  show "refilled_before now st1"
    unfolding refilled_before_def
  proof (intro allI impI)
    fix w x assume x: "od_get (rs_buckets st1) (account_slot w) = Some x"
    show "rb_last_refill_at x \<le> now"
    proof (cases "w = v")
      case True
      then show ?thesis using x b'(1,2) by simp
    next
      case False
      then have "od_get (rs_buckets st) (account_slot w) = Some x" using x other by simp
      then show ?thesis using inv(2,3) unfolding refilled_before_def by (meson order_trans)
    qed
  qed
qed

lemma created_by_bound_from:
  assumes pol: "cp_enforce policy" "1 \<le> cp_elevated_cost policy" "1 \<le> cp_high_cost policy" "0 \<le> creation_rate policy"
      "0 \<le> cp_account_capacity policy"
    and "well_keyed st" "refilled_before t st" "sorted (t # map cr_now rs)"
    and "od_get (rs_buckets st) (account_slot u) = Some b" "0 \<le> rb_tokens b"
  shows "of_nat (created_by policy mp u rs st) \<le>
    rb_tokens b + (last (t # map cr_now rs) - rb_last_refill_at b) * creation_rate policy"
  using assms(6-)
proof (induction rs arbitrary: st t b)
  case Nil
  then show ?case using pol(4) by (auto simp: refilled_before_def intro!: add_nonneg_nonneg mult_nonneg_nonneg)
next
  case (Cons r rs)
  obtain d st1 where c: "check_document_creation_limits (\<lambda>_. None) policy mp (cr_documents r) (cr_user r) (cr_ip r)
      (cr_created_at r) False (cr_now r) st = (d, st1)" by fastforce
  have t: "t \<le> cr_now r" and srt: "sorted (cr_now r # map cr_now rs)" using Cons.prems(3) by simp_all
  note S = creation_step[OF pol(1-3) Cons.prems(1,2) t c refl refl]
  show ?case
  proof (cases "cr_user r = u")
    case False
    have "od_get (rs_buckets st1) (account_slot u) = Some b" using S(3)[of u] False Cons.prems(4) by simp
    from Cons.IH[OF S(1,2) srt this Cons.prems(5)] show ?thesis using c False by simp
  next
    case True
    let ?T = "min (of_int (cp_account_capacity policy)) (rb_tokens b + (cr_now r - rb_last_refill_at b) * creation_rate policy)"
    have ab: "fst (lock_bucket (\<lambda>_. None) ''document_creation'' ''account'' (cr_user r) (cr_now r) (cp_account_capacity policy) st) = b"
      using S(6)[of b] Cons.prems(4) True by simp
    have T: "0 \<le> ?T" "?T \<le> rb_tokens b + (cr_now r - rb_last_refill_at b) * creation_rate policy"
      using Cons.prems(5) pol(4,5) S(5) unfolding ab by (simp_all add: add_nonneg_nonneg mult_nonneg_nonneg)
    obtain b' where b': "od_get (rs_buckets st1) (account_slot u) = Some b'" "rb_last_refill_at b' = cr_now r"
        "(if ld_allowed d then 1 else 0) + rb_tokens b' \<le> ?T" "0 \<le> rb_tokens b'"
      using S(4)[unfolded ab] T(1) unfolding True by blast
    have IH: "of_nat (created_by policy mp u rs st1) \<le>
        rb_tokens b' + (last (cr_now r # map cr_now rs) - cr_now r) * creation_rate policy"
      using Cons.IH[OF S(1,2) srt b'(1,4)] b'(2) by simp
    have "of_nat (created_by policy mp u (r # rs) st) = (if ld_allowed d then 1 else 0) + (of_nat (created_by policy mp u rs st1) :: rat)"
      using c True by simp
    also have "\<dots> \<le> rb_tokens b + (cr_now r - rb_last_refill_at b) * creation_rate policy +
        (last (cr_now r # map cr_now rs) - cr_now r) * creation_rate policy" using IH b'(3) T(2) by linarith
    also have "\<dots> = rb_tokens b + (last (t # map cr_now (r # rs)) - rb_last_refill_at b) * creation_rate policy"
      by (simp add: algebra_simps)
    finally show ?thesis .
  qed
qed

lemma created_by_bound_new:
  assumes pol: "cp_enforce policy" "1 \<le> cp_elevated_cost policy" "1 \<le> cp_high_cost policy" "0 \<le> creation_rate policy"
      "0 \<le> cp_account_capacity policy"
    and "well_keyed st" "refilled_before t st" "sorted (t # map cr_now rs)"
    and "od_get (rs_buckets st) (account_slot u) = None"
  shows "of_nat (created_by policy mp u rs st) \<le>
    of_int (cp_account_capacity policy) + (last (t # map cr_now rs) - t) * creation_rate policy"
  using assms(6-)
proof (induction rs arbitrary: st t)
  case Nil
  then show ?case using pol(5) by simp
next
  case (Cons r rs)
  obtain d st1 where c: "check_document_creation_limits (\<lambda>_. None) policy mp (cr_documents r) (cr_user r) (cr_ip r)
      (cr_created_at r) False (cr_now r) st = (d, st1)" by fastforce
  have t: "t \<le> cr_now r" and srt: "sorted (cr_now r # map cr_now rs)" using Cons.prems(3) by simp_all
  note S = creation_step[OF pol(1-3) Cons.prems(1,2) t c refl refl]
  have later: "(last (cr_now r # map cr_now rs) - cr_now r) * creation_rate policy \<le>
      (last (t # map cr_now (r # rs)) - t) * creation_rate policy"
    using t pol(4) by (intro mult_right_mono) simp_all
  show ?case
  proof (cases "cr_user r = u")
    case False
    have "od_get (rs_buckets st1) (account_slot u) = None" using S(3)[of u] False Cons.prems(4) by simp
    from Cons.IH[OF S(1,2) srt this] later show ?thesis using c False by simp
  next
    case True
    let ?a = "fst (lock_bucket (\<lambda>_. None) ''document_creation'' ''account'' (cr_user r) (cr_now r) (cp_account_capacity policy) st)"
    have "rb_tokens ?a = of_int (cp_account_capacity policy) \<and> rb_last_refill_at ?a = cr_now r"
      using S(7) Cons.prems(4) True by simp
    then have full: "min (of_int (cp_account_capacity policy)) (rb_tokens ?a + (cr_now r - rb_last_refill_at ?a) * creation_rate policy) =
        of_int (cp_account_capacity policy)" by simp
    have "(0 :: rat) \<le> of_int (cp_account_capacity policy)" using pol(5) by simp
    then obtain b' where b': "od_get (rs_buckets st1) (account_slot u) = Some b'" "rb_last_refill_at b' = cr_now r"
        "(if ld_allowed d then 1 else 0) + rb_tokens b' \<le> of_int (cp_account_capacity policy)" "0 \<le> rb_tokens b'"
      using S(4)[unfolded full] unfolding True by blast
    have "of_nat (created_by policy mp u rs st1) \<le>
        rb_tokens b' + (last (cr_now r # map cr_now rs) - cr_now r) * creation_rate policy"
      using created_by_bound_from[OF pol S(1,2) srt b'(1,4)] b'(2) by simp
    moreover have "of_nat (created_by policy mp u (r # rs) st) = (if ld_allowed d then 1 else 0) + (of_nat (created_by policy mp u rs st1) :: rat)"
      using c True by simp
    ultimately show ?thesis using b'(3) later by linarith
  qed
qed


definition sample_request :: "timestamp \<Rightarrow> creation_request" where
  "sample_request t = \<lparr>cr_user = ''u'', cr_ip = ''ip'', cr_created_at = Some 0, cr_documents = no_documents, cr_now = t\<rparr>"


end
