(* ===== verification/DocumentStore.thy ===== *)
theory DocumentStore
  imports AccessEval FileTasks
begin

text \<open>
  The tables behind documents and directories: \<open>src/include/database/models/documents.py\<close>, with the
  session filter of \<open>database/session.py\<close> and the naming rules of
  \<open>domains/documents/commands/name_conflicts.py\<close>.

  A row of \<open>nodes\<close> extends the row the access rules read (\<open>AccessStore.node\<close>); documents and folders
  are told apart by their type.  Session queries do not see nodes marked as deleted unless they ask for
  them.  The unique constraint on active names is checked after every statement, as the databases
  do; a violation rolls the transaction back, which here means that the old state is kept.
\<close>

section \<open>Tables\<close>

datatype entity_status = OK | DELETED | LOCKED

record node_row = node +
  nr_name :: string
  nr_status :: entity_status
  nr_operation_id :: "string option"
  nr_created_time :: timestamp
  nr_current_revision_id :: "string option"

record document_revision =
  rv_id :: string
  rv_document_id :: string
  rv_file_id :: string
  rv_created_time :: timestamp
  rv_parent_id :: "string option"

record document_metadata =
  dm_document_id :: string
  dm_creator_id :: "string option"
  dm_last_modified_by_id :: "string option"
  dm_tags :: "(string \<times> nat) list"

text \<open>\<open>ds_avatars\<close> is the column of the users' avatar files.  \<open>ds_deferred\<close> are the storage paths queued for removal after the commit, with the upload
  sessions to abort.\<close>

record doc_db =
  ds_nodes :: "node_row list"
  ds_rule_sets :: "rule_set list"
  ds_rules :: "rule_row list"
  ds_next_rule_id :: nat
  ds_groups :: "user_group list"
  ds_blocks :: "block_entry list"
  ds_oaes :: "object_access_entry list"
  ds_revisions :: "document_revision list"
  ds_metadata :: "document_metadata list"
  ds_files :: file_db
  ds_avatars :: "string option list"
  ds_deferred :: "(string \<times> string list) list"

definition ROOT_DIRECTORY_ID :: string where
  "ROOT_DIRECTORY_ID = ''/''"

definition is_folder :: "node_row \<Rightarrow> bool" where
  "is_folder r \<longleftrightarrow> nd_type r = ''directory''"

definition is_document :: "node_row \<Rightarrow> bool" where
  "is_document r \<longleftrightarrow> nd_type r = ''document''"

text \<open>What the access rules see of the store, and storing what they changed.\<close>

definition world_of :: "doc_db \<Rightarrow> access_world" where
  "world_of db = \<lparr>aw_db = \<lparr>db_nodes = map node.truncate (ds_nodes db), db_rule_sets = ds_rule_sets db,
       db_rules = ds_rules db, db_next_rule_id = ds_next_rule_id db\<rparr>,
     aw_groups = ds_groups db, aw_blocks = ds_blocks db, aw_oaes = ds_oaes db,
     aw_deleted = set (map nd_id (filter (\<lambda>r. nr_status r = DELETED) (ds_nodes db)))\<rparr>"

definition store_access :: "access_db \<Rightarrow> doc_db \<Rightarrow> doc_db" where
  "store_access adb db = db\<lparr>ds_nodes := map (\<lambda>r. case find (\<lambda>n. nd_id n = nd_id r) (db_nodes adb) of
         None \<Rightarrow> r
       | Some n \<Rightarrow> r\<lparr>nd_inherit := nd_inherit n, nd_rule_set_id := nd_rule_set_id n\<rparr>) (ds_nodes db),
     ds_rule_sets := db_rule_sets adb, ds_rules := db_rules adb, ds_next_rule_id := db_next_rule_id adb\<rparr>"

section \<open>Loading and updating rows\<close>

text \<open>\<open>session.get\<close> and queries by id: with \<open>include_deleted\<close> every row, else only the visible ones.\<close>

definition get_node :: "bool \<Rightarrow> doc_db \<Rightarrow> string \<Rightarrow> node_row option" where
  "get_node include_deleted db i =
     find (\<lambda>r. nd_id r = i \<and> (include_deleted \<or> nr_status r \<noteq> DELETED)) (ds_nodes db)"

definition get_folder :: "bool \<Rightarrow> doc_db \<Rightarrow> string \<Rightarrow> node_row option" where
  "get_folder include_deleted db i =
     find (\<lambda>r. is_folder r \<and> nd_id r = i \<and> (include_deleted \<or> nr_status r \<noteq> DELETED)) (ds_nodes db)"

definition get_document :: "bool \<Rightarrow> doc_db \<Rightarrow> string \<Rightarrow> node_row option" where
  "get_document include_deleted db i =
     find (\<lambda>r. is_document r \<and> nd_id r = i \<and> (include_deleted \<or> nr_status r \<noteq> DELETED)) (ds_nodes db)"

definition update_rows :: "(node_row \<Rightarrow> bool) \<Rightarrow> (node_row \<Rightarrow> node_row) \<Rightarrow> doc_db \<Rightarrow> doc_db" where
  "update_rows P f db = db\<lparr>ds_nodes := map (\<lambda>r. if P r then f r else r) (ds_nodes db)\<rparr>"

definition set_row :: "string \<Rightarrow> (node_row \<Rightarrow> node_row) \<Rightarrow> doc_db \<Rightarrow> doc_db" where
  "set_row i = update_rows (\<lambda>r. nd_id r = i)"

section \<open>The unique constraint on names\<close>

text \<open>\<open>active_name\<close> is null for a deleted node; rows with a null column never conflict.\<close>

definition active_name :: "node_row \<Rightarrow> string option" where
  "active_name r = (if nr_status r = DELETED then None else Some (nr_name r))"

definition name_slot :: "node_row \<Rightarrow> (string \<times> string) option" where
  "name_slot r = (case (nd_parent r, active_name r) of (Some p, Some n) \<Rightarrow> Some (p, n) | _ \<Rightarrow> None)"

definition names_unique :: "node_row list \<Rightarrow> bool" where
  "names_unique rs \<longleftrightarrow> distinct (List.map_filter name_slot rs)"

datatype doc_error =
    AccessError access_error
  | NodeNameConflict
  | ConflictWinnerGone
  | NoRevisions
  | NoActiveRevisions
  | FolderCycle
  | MissingParent
  | ForeignKeyViolation
  | MissingDocument

definition access :: "access_error + 'a \<Rightarrow> doc_error + 'a" where
  "access r = (case r of Inl e \<Rightarrow> Inl (AccessError e) | Inr x \<Rightarrow> Inr x)"

text \<open>One statement inside \<open>node_name_mutation\<close>.\<close>

definition checked :: "doc_db \<Rightarrow> doc_error + doc_db" where
  "checked db = (if names_unique (ds_nodes db) then Inr db else Inl NodeNameConflict)"

section \<open>Descendants\<close>

text \<open>\<open>Folder.is_descendant_of\<close>: the relationship \<open>parent\<close> loads visible folders only.\<close>

lemma unvisited_decreases:
  assumes "x \<in> A" "x \<notin> V" "finite A"
  shows "card (A - insert x V) < card (A - V)"
  using assms by (intro psubset_card_mono) auto

lemma get_folder_id: "get_folder d db i = Some f \<Longrightarrow> nd_id f = i \<and> f \<in> set (ds_nodes db) \<and> is_folder f"
  by (auto simp: get_folder_def find_Some_iff)

function descends :: "doc_db \<Rightarrow> string option \<Rightarrow> string \<Rightarrow> string set \<Rightarrow> bool" where
  "descends db None a visited_ids = False"
| "descends db (Some i) a visited_ids =
     (case get_folder False db i of None \<Rightarrow> False
      | Some current \<Rightarrow> if i = a then True else if i \<in> visited_ids then False
          else descends db (nd_parent current) a (insert i visited_ids))"
  by pat_completeness auto
termination
proof (relation "measure (\<lambda>(db, i, a, vis). card (nd_id ` set (ds_nodes db) - vis))")
  fix db i a vis and current :: node_row
  assume "get_folder False db i = Some current" "i \<notin> vis"
  then show "((db, nd_parent current, a, insert i vis), (db, Some i, a, vis))
      \<in> measure (\<lambda>(db, i, a, vis). card (nd_id ` set (ds_nodes db) - vis))"
    by (auto dest!: get_folder_id intro!: unvisited_decreases)
qed simp

definition is_descendant_of :: "doc_db \<Rightarrow> node_row \<Rightarrow> node_row \<Rightarrow> bool" where
  "is_descendant_of db f potential_ancestor = descends db (nd_parent f) (nd_id potential_ancestor) {}"

section \<open>The latest revision\<close>

definition get_revision :: "doc_db \<Rightarrow> string \<Rightarrow> document_revision option" where
  "get_revision db i = find (\<lambda>r. rv_id r = i) (ds_revisions db)"

definition revision_active :: "doc_db \<Rightarrow> document_revision \<Rightarrow> bool" where
  "revision_active db r \<longleftrightarrow> (case get_file (ds_files db) (rv_file_id r) of None \<Rightarrow> False | Some f \<Rightarrow> fl_active f)"

definition revisions_of :: "doc_db \<Rightarrow> string \<Rightarrow> document_revision list" where
  "revisions_of db doc = sort_key rv_created_time (filter (\<lambda>r. rv_document_id r = doc) (ds_revisions db))"

text \<open>The walk over parent revisions.  The fuel is the number of revisions: a longer walk repeats one.\<close>

fun active_branch :: "nat \<Rightarrow> doc_db \<Rightarrow> string option \<Rightarrow> document_revision option" where
  "active_branch 0 db i = None"
| "active_branch (Suc n) db None = None"
| "active_branch (Suc n) db (Some i) =
     (case get_revision db i of None \<Rightarrow> None
      | Some r \<Rightarrow> if revision_active db r then Some r else active_branch n db (rv_parent_id r))"

definition get_latest_revision :: "doc_db \<Rightarrow> node_row \<Rightarrow> doc_error + document_revision" where
  "get_latest_revision db doc =
     (case active_branch (length (ds_revisions db)) db (nr_current_revision_id doc) of
        Some r \<Rightarrow> Inr r
      | None \<Rightarrow>
          (let revisions = revisions_of db (nd_id doc)
           in if revisions = [] then Inl NoRevisions
              else (case py_max_by rv_created_time (filter (revision_active db) revisions) of
                      None \<Rightarrow> Inl NoActiveRevisions | Some r \<Rightarrow> Inr r)))"

definition document_active :: "doc_db \<Rightarrow> node_row \<Rightarrow> bool" where
  "document_active db doc = (\<not> isl (get_latest_revision db doc))"

section \<open>Permissions and access\<close>

definition has_permission :: "doc_db \<Rightarrow> user \<Rightarrow> timestamp \<Rightarrow> string \<Rightarrow> bool" where
  "has_permission db u now p \<longleftrightarrow> p \<in> all_permissions (ds_groups db) u now"

definition check_access :: "bool \<Rightarrow> doc_db \<Rightarrow> user \<Rightarrow> timestamp \<Rightarrow> node_row \<Rightarrow> string \<Rightarrow> doc_error + bool" where
  "check_access recursive db u now r access_type =
     access (check_access_requirements (world_of db) u (node.truncate r) access_type recursive now)"

section \<open>Name conflicts\<close>

record conflict =
  cf_type :: string
  cf_id :: "string option"
  cf_entity :: "node_row option"

definition describe_winner :: "bool \<Rightarrow> doc_db \<Rightarrow> user \<Rightarrow> timestamp \<Rightarrow> node_row \<Rightarrow> doc_error + conflict" where
  "describe_winner recursive db u now winner =
     and_then (check_access recursive db u now winner ''read'') (\<lambda>readable.
       let visible_id = (if readable then Some (nd_id winner) else None)
       in Inr (if is_document winner
               then \<lparr>cf_type = ''document'', cf_id = visible_id, cf_entity = None\<rparr>
               else \<lparr>cf_type = ''directory'', cf_id = visible_id,
                     cf_entity = (if readable then Some winner else None)\<rparr>))"

definition describe_node_name_conflict ::
  "bool \<Rightarrow> doc_db \<Rightarrow> user \<Rightarrow> timestamp \<Rightarrow> string \<Rightarrow> string \<Rightarrow> doc_error + conflict" where
  "describe_node_name_conflict recursive db u now parent_id name =
     (case find (\<lambda>r. nd_parent r = Some parent_id \<and> nr_name r = name \<and> nr_status r \<noteq> DELETED) (ds_nodes db) of
        None \<Rightarrow> Inl ConflictWinnerGone
      | Some winner \<Rightarrow> describe_winner recursive db u now winner)"

definition restore_winner :: "doc_db \<Rightarrow> string \<Rightarrow> node_row option" where
  "restore_winner db op = find (\<lambda>w. nr_status w \<noteq> DELETED \<and>
     list_ex (\<lambda>r. nr_operation_id r = Some op \<and> nr_status r = DELETED \<and> nd_parent w \<noteq> None \<and>
       nd_parent w = nd_parent r \<and> nr_name w = nr_name r \<and> nd_id w \<noteq> nd_id r) (ds_nodes db)) (ds_nodes db)"

definition describe_subtree_restore_name_conflict ::
  "bool \<Rightarrow> doc_db \<Rightarrow> user \<Rightarrow> timestamp \<Rightarrow> string option \<Rightarrow> string \<Rightarrow> string \<Rightarrow> doc_error + conflict" where
  "describe_subtree_restore_name_conflict recursive db u now status_operation_id parent_id name =
     (case (case status_operation_id of None \<Rightarrow> None | Some op \<Rightarrow> if op = '''' then None else restore_winner db op) of
        Some winner \<Rightarrow> describe_winner recursive db u now winner
      | None \<Rightarrow> describe_node_name_conflict recursive db u now parent_id name)"

text \<open>The folder a new or moved node goes to: \<open>get_target_folder_and_check_write\<close> returns the folder
  or an error code.\<close>

definition get_target_folder_and_check_write ::
  "bool \<Rightarrow> doc_db \<Rightarrow> user \<Rightarrow> timestamp \<Rightarrow> string \<Rightarrow> string \<Rightarrow> doc_error + (nat + node_row)" where
  "get_target_folder_and_check_write recursive db u now target_folder_id super_permission =
     (let target = (if target_folder_id = '''' then ROOT_DIRECTORY_ID else target_folder_id)
      in case get_folder False db target of None \<Rightarrow> Inr (Inl 404)
         | Some f \<Rightarrow> and_then (check_access recursive db u now f ''write'') (\<lambda>ok.
             Inr (if ok \<or> (target = ROOT_DIRECTORY_ID \<and> has_permission db u now super_permission)
                  then Inr f else Inl 403)))"

end
