(* ===== verification/DeletionTree.thy ===== *)
theory DeletionTree
  imports DocumentStore
begin

text \<open>
  What of a directory subtree a user may delete: \<open>src/include/domains/documents/queries/deletion_tree.py\<close>.

  The recursive query is unrolled level by level.  It uses \<open>UNION ALL\<close>, so on a cyclic hierarchy it
  never ends; the model bounds it by the number of rows, beyond which a level can only repeat a folder, and
  reports \<^const>\<open>FolderCycle\<close>.  The order of a Python set of ids is fixed to first occurrence.
\<close>

section \<open>Loading the subtree\<close>

definition child_folder_ids :: "doc_db \<Rightarrow> bool \<Rightarrow> string \<Rightarrow> string list" where
  "child_folder_ids db include_deleted s = map nd_id (filter (\<lambda>r. is_folder r \<and> nd_parent r = Some s \<and>
     (include_deleted \<or> nr_status r = OK)) (ds_nodes db))"

fun subtree_levels :: "nat \<Rightarrow> doc_db \<Rightarrow> bool \<Rightarrow> string list \<Rightarrow> doc_error + string list" where
  "subtree_levels n db include_deleted [] = Inr []"
| "subtree_levels 0 db include_deleted (i # level) = Inl FolderCycle"
| "subtree_levels (Suc n) db include_deleted (i # level) =
     and_then (subtree_levels n db include_deleted (concat (map (child_folder_ids db include_deleted) (i # level))))
       (\<lambda>rest. Inr (i # level @ rest))"

definition load_chunked :: "(node_row \<Rightarrow> bool) \<Rightarrow> (node_row \<Rightarrow> string option) \<Rightarrow> string list \<Rightarrow> doc_db \<Rightarrow> node_row list" where
  "load_chunked P key ids db = concat (map (\<lambda>chunk.
     filter (\<lambda>r. P r \<and> (case key r of None \<Rightarrow> False | Some k \<Rightarrow> k \<in> set chunk)) (ds_nodes db))
       (batched QUERY_CHUNK_SIZE ids))"

definition load_oaes :: "doc_db \<Rightarrow> timestamp \<Rightarrow> string list \<Rightarrow> oae_map" where
  "load_oaes db now ids = collect_oaes (concat (map (\<lambda>chunk.
     filter (\<lambda>e. oa_target_identifier e \<in> set chunk \<and> oae_active now e) (ds_oaes db))
       (batched QUERY_CHUNK_SIZE ids)))"

record subtree =
  sb_folders :: "node_row list"
  sb_documents :: "node_row list"
  sb_context :: access_context

definition load_subtree :: "doc_db \<Rightarrow> string \<Rightarrow> timestamp \<Rightarrow> bool \<Rightarrow> doc_error + subtree" where
  "load_subtree db root_id now include_deleted =
     and_then (subtree_levels (Suc (length (ds_nodes db))) db include_deleted [root_id]) (\<lambda>rows.
       let fs = load_chunked (\<lambda>r. is_folder r \<and> (include_deleted \<or> nr_status r \<noteq> DELETED)) (\<lambda>r. Some (nd_id r))
             (remdups (filter (\<lambda>i. i \<noteq> root_id) rows @ [root_id])) db;
           docs = load_chunked (\<lambda>r. is_document r \<and> (include_deleted \<or> nr_status r \<noteq> DELETED)) nd_parent
             (map nd_id fs) db
       in and_then (access (fetch_compiled_access_rules_for_targets (aw_db (world_of db))
               (map (\<lambda>f. (''directory'', nd_id f)) fs @ map (\<lambda>d. (''document'', nd_id d)) docs) None))
          (\<lambda>rules. Inr \<lparr>sb_folders = fs, sb_documents = docs,
             sb_context = \<lparr>ac_oae_by_target = load_oaes db now (map nd_id fs @ map nd_id docs),
               ac_rules = Some rules, ac_folder_map = folder_map (map node.truncate fs),
               ac_globally_blocked = False, ac_blocked_ids = {}\<rparr>\<rparr>))"

section \<open>Permissions of the items\<close>

record failed_item =
  fi_type :: string
  fi_id :: string
  fi_name :: string
  fi_parent :: string

definition subtree_access :: "doc_db \<Rightarrow> subtree \<Rightarrow> user \<Rightarrow> timestamp \<Rightarrow> string \<Rightarrow> node_row \<Rightarrow> doc_error + bool" where
  "subtree_access db sb u now access_type r =
     access (check_access_for_object (world_of db) \<lparr>aq_user = u, aq_access_type = access_type, aq_now = now\<rparr>
       (sb_context sb) True (node.truncate r))"

definition can_delete :: "doc_db \<Rightarrow> subtree \<Rightarrow> user \<Rightarrow> timestamp \<Rightarrow> string \<Rightarrow> node_row \<Rightarrow> doc_error + bool" where
  "can_delete db sb u now permission r =
     (let (is_globally_blocked, blocked_write_ids) = prefetch_user_blocks (world_of db) u ''write'' now
      in if is_globally_blocked \<or> nd_id r \<in> blocked_write_ids \<or> \<not> has_permission db u now permission then Inr False
         else subtree_access db sb u now ''write'' r)"

text \<open>An item that may not be deleted is reported when the user may read the folder it is in.\<close>

definition report_undeletable :: "doc_db \<Rightarrow> subtree \<Rightarrow> user \<Rightarrow> timestamp \<Rightarrow> string \<Rightarrow> node_row \<Rightarrow> doc_error + failed_item list" where
  "report_undeletable db sb u now item_type r =
     (case nd_parent r of None \<Rightarrow> Inl MissingParent
      | Some p \<Rightarrow> (case find (\<lambda>f. nd_id f = p) (sb_folders sb) of None \<Rightarrow> Inl MissingParent
         | Some parent \<Rightarrow> and_then (subtree_access db sb u now ''read'' parent) (\<lambda>readable.
             Inr (if readable then [\<lparr>fi_type = item_type, fi_id = nd_id r, fi_name = nr_name r, fi_parent = p\<rparr>]
                  else []))))"

definition judge_document ::
  "doc_db \<Rightarrow> subtree \<Rightarrow> user \<Rightarrow> timestamp \<Rightarrow> bool \<Rightarrow> node_row \<Rightarrow> string list \<times> failed_item list \<Rightarrow>
   doc_error + (string list \<times> failed_item list)" where
  "judge_document db sb u now include_deleted doc st =
     (case st of (deletable, failed) \<Rightarrow>
        if \<not> include_deleted \<and> nr_status doc \<noteq> OK then Inr (deletable, failed)
        else and_then (can_delete db sb u now ''delete_document'' doc) (\<lambda>ok.
          if ok then Inr (List.insert (nd_id doc) deletable, failed)
          else and_then (report_undeletable db sb u now ''document'' doc) (\<lambda>items. Inr (deletable, failed @ items))))"

definition judge_folder ::
  "doc_db \<Rightarrow> subtree \<Rightarrow> user \<Rightarrow> timestamp \<Rightarrow> string \<Rightarrow> node_row \<Rightarrow> (string, bool) odict \<times> failed_item list \<Rightarrow>
   doc_error + ((string, bool) odict \<times> failed_item list)" where
  "judge_folder db sb u now root_id f st =
     (case st of (self_deletable, failed) \<Rightarrow>
        if nd_id f = root_id then Inr (od_set (nd_id f) True self_deletable, failed)
        else and_then (can_delete db sb u now ''delete_directory'' f) (\<lambda>ok.
          let self_deletable' = od_set (nd_id f) ok self_deletable
          in if ok then Inr (self_deletable', failed)
             else and_then (report_undeletable db sb u now ''folder'' f) (\<lambda>items. Inr (self_deletable', failed @ items))))"

section \<open>Leaf to root\<close>

text \<open>\<open>parents\<close> lists each loaded folder with its parent when that is loaded too.\<close>

definition parent_map :: "node_row list \<Rightarrow> (string, string option) odict" where
  "parent_map fs = map (\<lambda>f. (nd_id f, case nd_parent f of None \<Rightarrow> None
     | Some p \<Rightarrow> if p \<noteq> '''' \<and> p \<in> set (map nd_id fs) then Some p else None)) fs"

definition children :: "(string, string option) odict \<Rightarrow> string \<Rightarrow> string list" where
  "children parents f = map fst (filter (\<lambda>(c, p). p = Some f) parents)"

definition total_degree :: "(string, int) odict \<Rightarrow> nat" where
  "total_degree d = sum_list (map (\<lambda>(k, v). nat v) d)"

lemma total_degree_set:
  "od_get d k = Some v \<Longrightarrow> nat w < nat v \<Longrightarrow> total_degree (od_set k w d) < total_degree d"
  "od_get d k = Some v \<Longrightarrow> nat w = nat v \<Longrightarrow> total_degree (od_set k w d) = total_degree d"
  by (induction d) (auto simp: total_degree_def split: if_splits)

function topological :: "(string, string option) odict \<Rightarrow> (string, int) odict \<Rightarrow> string list \<Rightarrow> string list \<Rightarrow> string list" where
  "topological parents in_degree [] topo_order = topo_order"
| "topological parents in_degree (fid # queue) topo_order =
     (case od_get parents fid of
        Some (Some parent_id) \<Rightarrow>
          (case od_get in_degree parent_id of
             None \<Rightarrow> topological parents in_degree queue (topo_order @ [fid])
           | Some d \<Rightarrow> topological parents (od_set parent_id (d - 1) in_degree)
               (if d - 1 = 0 then queue @ [parent_id] else queue) (topo_order @ [fid]))
      | _ \<Rightarrow> topological parents in_degree queue (topo_order @ [fid]))"
  by pat_completeness auto
termination
proof (relation "measures [\<lambda>(parents, deg, queue, ord). total_degree deg, \<lambda>(parents, deg, queue, ord). length queue]")
  fix parents :: "(string, string option) odict" and in_degree :: "(string, int) odict"
    and fid queue topo_order x p d
  assume "od_get in_degree p = Some d"
  then show "((parents, od_set p (d - 1) in_degree, if d - 1 = 0 then queue @ [p] else queue, topo_order @ [fid]),
      (parents, in_degree, fid # queue, topo_order))
    \<in> measures [\<lambda>(parents, deg, queue, ord). total_degree deg, \<lambda>(parents, deg, queue, ord). length queue]"
    using total_degree_set[of in_degree p d "d - 1"] by (cases "d > 0") auto
qed auto

definition in_degrees :: "(string, string option) odict \<Rightarrow> (string, int) odict" where
  "in_degrees parents = map (\<lambda>(f, _). (f, int (length (children parents f)))) parents"

definition topo_order :: "(string, string option) odict \<Rightarrow> doc_error + string list" where
  "topo_order parents =
     (let deg = in_degrees parents;
          order = topological parents deg (filter (\<lambda>f. od_get deg f = Some 0) (map fst parents)) []
      in if length order \<noteq> length parents then Inl FolderCycle else Inr order)"

definition current_file_active :: "doc_db \<Rightarrow> node_row \<Rightarrow> bool" where
  "current_file_active db doc \<longleftrightarrow> (case nr_current_revision_id doc of None \<Rightarrow> False
     | Some i \<Rightarrow> (case get_revision db i of None \<Rightarrow> False | Some r \<Rightarrow> revision_active db r))"

definition undeletable_doc_folders :: "doc_db \<Rightarrow> node_row list \<Rightarrow> string list \<Rightarrow> string list" where
  "undeletable_doc_folders db documents deletable = List.map_filter (\<lambda>doc.
     if current_file_active db doc \<and> nd_id doc \<notin> set deletable then nd_parent doc else None) documents"

definition bubble_up ::
  "(string, string option) odict \<Rightarrow> (string, bool) odict \<Rightarrow> string list \<Rightarrow> string list \<Rightarrow> (string, bool) odict" where
  "bubble_up parents self_deletable doc_folders order = fold (\<lambda>fid has. od_set fid
     (\<not> get_or (od_get self_deletable fid) True \<or>
      list_ex (\<lambda>c. get_or (od_get has c) False) (children parents fid) \<or>
      fid \<in> set doc_folders) has) order []"

record deletion_plan =
  dp_folders :: "string list"
  dp_documents :: "string list"
  dp_failed :: "failed_item list"
  dp_protected :: "string list"

definition folder_deletable :: "(string, bool) odict \<Rightarrow> (string, bool) odict \<Rightarrow> string \<Rightarrow> bool" where
  "folder_deletable self_deletable has fid \<longleftrightarrow>
     get_or (od_get self_deletable fid) False \<and> \<not> get_or (od_get has fid) False"

definition fetch_subtree_for_deletion ::
  "doc_db \<Rightarrow> string \<Rightarrow> user \<Rightarrow> timestamp \<Rightarrow> bool \<Rightarrow> doc_error + deletion_plan" where
  "fetch_subtree_for_deletion db root_id u now include_deleted =
     and_then (load_subtree db root_id now include_deleted) (\<lambda>sb.
     and_then (foldM (judge_document db sb u now include_deleted) (sb_documents sb) ([], [])) (\<lambda>(deletable, failed).
     and_then (foldM (judge_folder db sb u now root_id) (sb_folders sb) ([], failed)) (\<lambda>(self_deletable, failed').
     let parents = parent_map (sb_folders sb)
     in and_then (topo_order parents) (\<lambda>order.
       let has = bubble_up parents self_deletable (undeletable_doc_folders db (sb_documents sb) deletable) order;
           inner = filter (\<lambda>f. f \<noteq> root_id) order
       in Inr \<lparr>dp_folders = filter (folder_deletable self_deletable has) inner, dp_documents = deletable,
            dp_failed = failed', dp_protected = filter (\<lambda>f. \<not> folder_deletable self_deletable has f) inner\<rparr>))))"

section \<open>The topological order\<close>

definition parents_ok :: "(string, string option) odict \<Rightarrow> bool" where
  "parents_ok parents \<longleftrightarrow> od_wf parents \<and> (\<forall>f q. od_get parents f = Some (Some q) \<longrightarrow> q \<in> set (od_keys parents))"

lemma children_iff: "od_wf parents \<Longrightarrow> c \<in> set (children parents f) \<longleftrightarrow> od_get parents c = Some (Some f)"
  by (force simp: children_def od_wf_def dest: map_of_SomeD)

lemma distinct_children: "od_wf parents \<Longrightarrow> distinct (children parents f)"
  by (simp add: children_def od_wf_def distinct_map_filter)

text \<open>The children of a folder that the order has not reached yet.\<close>

definition pending :: "(string, string option) odict \<Rightarrow> string list \<Rightarrow> string \<Rightarrow> string list" where
  "pending parents ord f = filter (\<lambda>c. c \<notin> set ord) (children parents f)"

lemma pending_snoc:
  assumes "od_wf parents" "fid \<notin> set ord"
  shows "int (length (pending parents (ord @ [fid]) f)) =
    int (length (pending parents ord f)) - (if od_get parents fid = Some (Some f) then 1 else 0)"
proof -
  have "pending parents (ord @ [fid]) f = remove1 fid (pending parents ord f)"
    using distinct_children[OF assms(1), of f]
    by (auto simp: pending_def distinct_remove1_removeAll removeAll_filter_not_eq intro!: filter_cong)
  moreover have "fid \<in> set (pending parents ord f) \<longleftrightarrow> od_get parents fid = Some (Some f)"
    using assms by (simp add: pending_def children_iff)
  moreover have "fid \<in> set (pending parents ord f) \<Longrightarrow> length (pending parents ord f) > 0"
    by (rule length_pos_if_in_set)
  ultimately show ?thesis by (auto simp: length_remove1 remove1_idem of_nat_diff Suc_le_eq)
qed

definition children_first :: "(string, string option) odict \<Rightarrow> string list \<Rightarrow> bool" where
  "children_first parents ord \<longleftrightarrow> (\<forall>xs f ys. ord = xs @ f # ys \<longrightarrow> set (children parents f) \<subseteq> set xs)"

lemma children_first_snoc:
  "children_first parents ord \<Longrightarrow> pending parents ord f = [] \<Longrightarrow> children_first parents (ord @ [f])"
  by (auto simp: children_first_def pending_def filter_empty_conv append_eq_append_conv2 Cons_eq_append_conv append_eq_Cons_conv)

definition topo_inv where
  "topo_inv parents deg queue ord \<longleftrightarrow>
     (\<forall>f. od_get deg f = (if f \<in> set (od_keys parents) then Some (int (length (pending parents ord f))) else None)) \<and>
     distinct (ord @ queue) \<and> set (ord @ queue) \<subseteq> set (od_keys parents) \<and>
     (\<forall>f \<in> set (od_keys parents). f \<in> set (ord @ queue) \<longleftrightarrow> pending parents ord f = []) \<and>
     children_first parents ord"

lemma topo_inv_step_no_parent:
  assumes ok: "parents_ok parents" and inv: "topo_inv parents deg (fid # queue) ord"
    and np: "od_get parents fid = None \<or> od_get parents fid = Some None"
  shows "topo_inv parents deg queue (ord @ [fid])"
proof -
  have wf: "od_wf parents" using ok by (simp add: parents_ok_def)
  have nin: "fid \<notin> set ord" using inv by (auto simp: topo_inv_def)
  have len: "length (pending parents (ord @ [fid]) f) = length (pending parents ord f)" for f
    using pending_snoc[OF wf nin, of f] np by auto
  have emp: "pending parents (ord @ [fid]) f = [] \<longleftrightarrow> pending parents ord f = []" for f
    using len[of f] by (simp flip: length_0_conv)
  have "pending parents ord fid = []" using inv by (auto simp: topo_inv_def)
  then have "children_first parents (ord @ [fid])" using inv children_first_snoc by (auto simp: topo_inv_def)
  then show ?thesis using inv len emp by (auto simp: topo_inv_def)
qed

lemma topo_inv_step_parent:
  assumes ok: "parents_ok parents" and inv: "topo_inv parents deg (fid # queue) ord"
    and pa: "od_get parents fid = Some (Some q)" and d: "od_get deg q = Some d"
  shows "topo_inv parents (od_set q (d - 1) deg) (if d - 1 = 0 then queue @ [q] else queue) (ord @ [fid])"
proof -
  have wf: "od_wf parents" using ok by (simp add: parents_ok_def)
  have q: "q \<in> set (od_keys parents)" using ok pa by (auto simp: parents_ok_def)
  have nin: "fid \<notin> set ord" using inv by (auto simp: topo_inv_def)
  have len: "int (length (pending parents (ord @ [fid]) f)) =
      int (length (pending parents ord f)) - (if f = q then 1 else 0)" for f
    using pending_snoc[OF wf nin, of f] pa by auto
  have same: "pending parents (ord @ [fid]) f = [] \<longleftrightarrow> pending parents ord f = []" if "f \<noteq> q" for f
    using len[of f] that by (simp flip: length_0_conv)
  have dq: "d = int (length (pending parents ord q))" using inv d q by (simp add: topo_inv_def)
  have qe: "pending parents (ord @ [fid]) q = [] \<longleftrightarrow> d - 1 = 0" using len[of q] dq
    by (simp flip: length_0_conv) linarith
  have fidq: "fid \<in> set (pending parents ord q)" using pa wf nin by (simp add: pending_def children_iff)
  then have qn: "q \<notin> set (ord @ fid # queue)" using inv q by (auto simp: topo_inv_def)
  have "pending parents ord fid = []" using inv by (auto simp: topo_inv_def)
  then have cf: "children_first parents (ord @ [fid])" using inv children_first_snoc by (auto simp: topo_inv_def)
  have mem: "f \<in> set ((ord @ [fid]) @ (if d - 1 = 0 then queue @ [q] else queue)) \<longleftrightarrow>
      pending parents (ord @ [fid]) f = []" if f: "f \<in> set (od_keys parents)" for f
  proof (cases "f = q")
    case True
    then show ?thesis using qe qn by auto
  next
    case False
    have "f \<in> set (ord @ fid # queue) \<longleftrightarrow> pending parents ord f = []" using inv f unfolding topo_inv_def by blast
    with False same[OF False] show ?thesis by auto
  qed
  have deg: "od_get (od_set q (d - 1) deg) f =
      (if f \<in> set (od_keys parents) then Some (int (length (pending parents (ord @ [fid]) f))) else None)" for f
    using inv len[of f] dq q by (auto simp: topo_inv_def)
  have "distinct ((ord @ [fid]) @ (if d - 1 = 0 then queue @ [q] else queue))"
    and "set ((ord @ [fid]) @ (if d - 1 = 0 then queue @ [q] else queue)) \<subseteq> set (od_keys parents)"
    using inv qn q by (auto simp: topo_inv_def)
  with deg mem cf show ?thesis by (simp only: topo_inv_def) blast
qed

lemma topological_inv:
  "parents_ok parents \<Longrightarrow> topo_inv parents deg queue ord \<Longrightarrow>
    \<exists>deg'. topo_inv parents deg' [] (topological parents deg queue ord)"
proof (induction parents deg queue ord rule: topological.induct)
  case (2 parents deg fid queue ord)
  consider "od_get parents fid = None \<or> od_get parents fid = Some None"
    | q where "od_get parents fid = Some (Some q)" by (cases "od_get parents fid") auto
  then show ?case
  proof cases
    case 1
    with "2.IH" topo_inv_step_no_parent[OF "2.prems" 1] "2.prems"(1) show ?thesis by auto
  next
    case (2 q)
    have q: "q \<in> set (od_keys parents)" using "2.prems"(1) 2 by (auto simp: parents_ok_def)
    then obtain d where d: "od_get deg q = Some d" using "2.prems"(2) by (simp add: topo_inv_def)
    show ?thesis using "2.IH"(4)[OF 2 refl d "2.prems"(1) topo_inv_step_parent[OF "2.prems" 2 d]] 2 d by simp
  qed
qed auto

lemma od_get_in_degrees:
  "od_get (in_degrees parents) f =
    (if f \<in> set (od_keys parents) then Some (int (length (children parents f))) else None)"
proof -
  have "od_get (map (\<lambda>(f, _). (f, g f)) ps) f = (if f \<in> set (od_keys ps) then Some (g f) else None)"
    for g :: "string \<Rightarrow> int" and ps :: "(string, string option) odict"
    by (induction ps) auto
  then show ?thesis by (simp add: in_degrees_def)
qed

lemma topo_inv_start:
  assumes "parents_ok parents"
  shows "topo_inv parents (in_degrees parents) (filter (\<lambda>f. od_get (in_degrees parents) f = Some 0) (od_keys parents)) []"
  using assms by (auto simp: topo_inv_def pending_def children_first_def parents_ok_def od_wf_def od_get_in_degrees
      intro: distinct_filter)

lemma topo_order_inv:
  assumes "parents_ok parents"
  obtains deg order where "topo_inv parents deg [] order"
    "topo_order parents = (if length order \<noteq> length parents then Inl FolderCycle else Inr order)"
  using topological_inv[OF assms topo_inv_start[OF assms]] unfolding topo_order_def Let_def by blast

lemma topo_order_sound:
  assumes "parents_ok parents" "topo_order parents = Inr order"
  shows "distinct order" "set order = set (od_keys parents)" "children_first parents order"
proof -
  obtain deg o' where o': "topo_inv parents deg [] o'"
    "topo_order parents = (if length o' \<noteq> length parents then Inl FolderCycle else Inr o')"
    by (rule topo_order_inv[OF assms(1)])
  have inv: "topo_inv parents deg [] order" and len: "length order = length parents"
    using o' assms(2) by (auto split: if_splits)
  show d: "distinct order" and "children_first parents order" using inv by (auto simp: topo_inv_def)
  have "set order \<subseteq> set (od_keys parents)" using inv by (simp add: topo_inv_def)
  moreover have "card (set order) = card (set (od_keys parents))"
    using d len assms(1) distinct_card[of order] distinct_card[of "od_keys parents"]
    by (simp add: parents_ok_def od_wf_def)
  ultimately show "set order = set (od_keys parents)" by (simp add: card_subset_eq)
qed

lemma topo_order_complete:
  fixes depth :: "string \<Rightarrow> nat"
  assumes ok: "parents_ok parents"
    and depth: "\<And>f q. od_get parents f = Some (Some q) \<Longrightarrow> depth q < depth f"
  shows "\<exists>order. topo_order parents = Inr order"
proof -
  obtain deg order where inv: "topo_inv parents deg [] order"
    and eq: "topo_order parents = (if length order \<noteq> length parents then Inl FolderCycle else Inr order)"
    by (rule topo_order_inv[OF ok])
  have "set (od_keys parents) \<subseteq> set order"
  proof (rule ccontr)
    let ?S = "set (od_keys parents) - set order"
    assume "\<not> set (od_keys parents) \<subseteq> set order"
    then have "?S \<noteq> {}" by auto
    moreover have "finite ?S" by simp
    ultimately have "Max (depth ` ?S) \<in> depth ` ?S" by (intro Max_in) auto
    then obtain f where f0: "f \<in> ?S" "depth f = Max (depth ` ?S)" by (metis imageE)
    have f: "f \<in> ?S" "\<forall>g \<in> ?S. depth g \<le> depth f" using f0 by auto
    have "c \<in> set order" if "c \<in> set (children parents f)" for c
    proof (rule ccontr)
      assume "c \<notin> set order"
      moreover have p: "od_get parents c = Some (Some f)"
        using that ok by (simp add: children_iff parents_ok_def)
      moreover have "c \<in> set (od_keys parents)" using p by (force dest: map_of_SomeD)
      ultimately show False using f(2) depth[OF p] by (metis DiffI not_le)
    qed
    then have "pending parents order f = []" by (simp add: pending_def filter_empty_conv)
    then show False using f(1) inv unfolding topo_inv_def by auto
  qed
  moreover have "distinct order" "set order \<subseteq> set (od_keys parents)" using inv by (auto simp: topo_inv_def)
  moreover have "distinct (od_keys parents)" using ok by (simp add: parents_ok_def od_wf_def)
  ultimately have "length order = length parents"
    by (metis distinct_card length_map subset_antisym)
  with eq show ?thesis by simp
qed

text \<open>A cycle makes the order fail.\<close>

lemma topo_order_acyclic:
  assumes "parents_ok parents" "topo_order parents = Inr order"
  shows "\<exists>depth :: string \<Rightarrow> nat. \<forall>f q. od_get parents f = Some (Some q) \<longrightarrow> depth q < depth f"
proof -
  note s = topo_order_sound[OF assms]
  have wf: "od_wf parents" using assms(1) by (simp add: parents_ok_def)
  define pos where "pos f = length (takeWhile (\<lambda>g. g \<noteq> f) order)" for f
  have at: "takeWhile (\<lambda>g. g \<noteq> x) (us @ x # vs) = us" if "x \<notin> set us" for x us vs
    using that by (subst takeWhile_append2) auto
  have "pos f < pos q" if p: "od_get parents f = Some (Some q)" for f q
  proof -
    have "q \<in> set order" using assms(1) s(2) p by (auto simp: parents_ok_def)
    then obtain xs ys where q: "order = xs @ q # ys" "q \<notin> set xs" by (metis split_list_first)
    have "set (children parents q) \<subseteq> set xs" using s(3) q(1) unfolding children_first_def by blast
    then have "f \<in> set xs" using p wf by (auto simp: children_iff)
    then obtain us vs where f: "xs = us @ f # vs" "f \<notin> set us" by (metis split_list_first)
    have "pos q = length xs" using at[OF q(2)] q(1) by (simp add: pos_def)
    moreover have "pos f = length us" using at[OF f(2)] q(1) f(1) by (simp add: pos_def)
    ultimately show ?thesis using f by simp
  qed
  moreover have "pos x \<le> length order" for x unfolding pos_def by (rule length_takeWhile_le)
  ultimately have "\<forall>f q. od_get parents f = Some (Some q) \<longrightarrow> length order - pos q < length order - pos f"
    by (meson diff_less_mono2 less_le_trans)
  then show ?thesis by (rule exI[of _ "\<lambda>f. length order - pos f"])
qed

section \<open>Undeletable content\<close>

text \<open>The specification: a folder is kept when it or a folder below it, as loaded, is itself undeletable or
  holds an undeletable document.\<close>

inductive inside :: "(string, string option) odict \<Rightarrow> string \<Rightarrow> string \<Rightarrow> bool" for parents where
  inside_refl: "inside parents f f"
| inside_step: "od_get parents c = Some (Some f) \<Longrightarrow> inside parents c g \<Longrightarrow> inside parents f g"

lemma inside_unfold: "od_wf parents \<Longrightarrow> inside parents f g \<longleftrightarrow> g = f \<or> (\<exists>c \<in> set (children parents f). inside parents c g)"
  by (subst inside.simps) (auto simp: children_iff)

definition bad_folder :: "(string, bool) odict \<Rightarrow> string list \<Rightarrow> string \<Rightarrow> bool" where
  "bad_folder self_deletable doc_folders g \<longleftrightarrow> \<not> get_or (od_get self_deletable g) True \<or> g \<in> set doc_folders"

lemma bubble_up_aux:
  assumes wf: "od_wf parents" and cf: "children_first parents (xs @ ys)" and d: "distinct (xs @ ys)"
    and has: "\<And>f. od_get has f = (if f \<in> set xs then Some (\<exists>g. inside parents f g \<and> bad_folder sd dfs g) else None)"
  shows "od_get (fold (\<lambda>fid has. od_set fid (\<not> get_or (od_get sd fid) True \<or>
      list_ex (\<lambda>c. get_or (od_get has c) False) (children parents fid) \<or> fid \<in> set dfs) has) ys has) f =
    (if f \<in> set (xs @ ys) then Some (\<exists>g. inside parents f g \<and> bad_folder sd dfs g) else None)"
  using cf d has
proof (induction ys arbitrary: xs has)
  case (Cons y ys)
  let ?v = "\<not> get_or (od_get sd y) True \<or>
      list_ex (\<lambda>c. get_or (od_get has c) False) (children parents y) \<or> y \<in> set dfs"
  have sub: "set (children parents y) \<subseteq> set xs" using Cons.prems(1) by (auto simp: children_first_def)
  have "list_ex (\<lambda>c. get_or (od_get has c) False) (children parents y) \<longleftrightarrow>
      (\<exists>c \<in> set (children parents y). \<exists>g. inside parents c g \<and> bad_folder sd dfs g)"
    using sub Cons.prems(3) by (auto simp: list_ex_iff get_or_def subset_iff)
  then have v: "?v \<longleftrightarrow> (\<exists>g. inside parents y g \<and> bad_folder sd dfs g)"
    by (subst inside_unfold[OF wf]) (auto simp: bad_folder_def)
  have "od_get (od_set y ?v has) f =
      (if f \<in> set (xs @ [y]) then Some (\<exists>g. inside parents f g \<and> bad_folder sd dfs g) else None)" for f
    using Cons.prems(3) v by auto
  from Cons.IH[of "xs @ [y]", OF _ _ this] Cons.prems(1,2) show ?case by simp
qed simp

lemma bubble_up_spec:
  assumes "parents_ok parents" "topo_order parents = Inr order" "f \<in> set (od_keys parents)"
  shows "od_get (bubble_up parents sd dfs order) f = Some (\<exists>g. inside parents f g \<and> bad_folder sd dfs g)"
  using bubble_up_aux[of parents "[]" order "[]" sd dfs f] topo_order_sound[OF assms(1,2)] assms(1,3)
  by (simp add: bubble_up_def parents_ok_def)

section \<open>The loaded subtree\<close>

inductive below :: "doc_db \<Rightarrow> bool \<Rightarrow> string \<Rightarrow> string \<Rightarrow> bool" for db incl where
  below_refl: "below db incl f f"
| below_step: "c \<in> set (child_folder_ids db incl f) \<Longrightarrow> below db incl c g \<Longrightarrow> below db incl f g"

lemma below_unfold: "below db incl f g \<longleftrightarrow> g = f \<or> (\<exists>c \<in> set (child_folder_ids db incl f). below db incl c g)"
  by (subst below.simps) auto

lemma below_trans: "below db incl f g \<Longrightarrow> below db incl g h \<Longrightarrow> below db incl f h"
  by (induction rule: below.induct) (auto intro: below.intros)

lemma below_child: "below db incl f g \<Longrightarrow> c \<in> set (child_folder_ids db incl g) \<Longrightarrow> below db incl f c"
  by (meson below.intros below_trans)

lemma subtree_levels_set:
  "subtree_levels n db incl level = Inr rows \<Longrightarrow> set rows = {g. \<exists>i \<in> set level. below db incl i g}"
proof (induction n db incl level arbitrary: rows rule: subtree_levels.induct)
  case (3 n db incl i level)
  then obtain rest where r: "subtree_levels n db incl (concat (map (child_folder_ids db incl) (i # level))) = Inr rest"
    "rows = i # level @ rest" by (auto simp: and_then_Inr simp del: list.map concat.simps)
  have rest: "g \<in> set rest \<longleftrightarrow> (\<exists>x \<in> set (i # level). \<exists>c \<in> set (child_folder_ids db incl x). below db incl c g)" for g
    using "3.IH"[OF r(1)] by auto
  have "g \<in> set rows \<longleftrightarrow> (\<exists>x \<in> set (i # level). below db incl x g)" for g
  proof -
    have "(\<exists>x \<in> set (i # level). below db incl x g) \<longleftrightarrow>
        (\<exists>x \<in> set (i # level). g = x \<or> (\<exists>c \<in> set (child_folder_ids db incl x). below db incl c g))"
      by (rule bex_cong[OF refl below_unfold])
    also have "\<dots> \<longleftrightarrow> g \<in> set (i # level) \<or> g \<in> set rest" unfolding rest by blast
    finally show ?thesis using r(2) by auto
  qed
  then show ?case by blast
qed auto

lemma set_concat_batched: "n > 0 \<Longrightarrow> set (concat (batched n xs)) = set xs"
proof (induction n xs rule: batched.induct)
  case (1 n xs)
  show ?case
  proof (cases "xs = []")
    case False
    have "set (take n xs) \<union> set (drop n xs) = set xs" by (metis append_take_drop_id set_append)
    then show ?thesis using 1 False by (subst batched.simps) auto
  qed (simp add: batched.simps)
qed

lemma set_load_chunked:
  "set (load_chunked P key ids db) = {r \<in> set (ds_nodes db). P r \<and> (\<exists>k \<in> set ids. key r = Some k)}"
proof -
  have "QUERY_CHUNK_SIZE > 0" by (simp add: QUERY_CHUNK_SIZE_def)
  from set_concat_batched[OF this, of ids] show ?thesis
    by (auto simp: load_chunked_def split: option.splits) blast+
qed

definition loadable :: "bool \<Rightarrow> node_row \<Rightarrow> bool" where
  "loadable incl r \<longleftrightarrow> incl \<or> nr_status r \<noteq> DELETED"

definition ids_unique :: "doc_db \<Rightarrow> bool" where
  "ids_unique db \<longleftrightarrow> distinct (map nd_id (ds_nodes db))"

lemma ids_unique_eq: "ids_unique db \<Longrightarrow> r \<in> set (ds_nodes db) \<Longrightarrow> s \<in> set (ds_nodes db) \<Longrightarrow> nd_id r = nd_id s \<Longrightarrow> r = s"
  by (auto simp: ids_unique_def distinct_map inj_on_def)

lemma load_subtree_rows:
  assumes "load_subtree db root_id now incl = Inr sb"
  obtains rows where "subtree_levels (Suc (length (ds_nodes db))) db incl [root_id] = Inr rows"
    "sb_folders sb = load_chunked (\<lambda>r. is_folder r \<and> loadable incl r) (\<lambda>r. Some (nd_id r))
       (remdups (filter (\<lambda>i. i \<noteq> root_id) rows @ [root_id])) db"
    "sb_documents sb = load_chunked (\<lambda>r. is_document r \<and> loadable incl r) nd_parent (map nd_id (sb_folders sb)) db"
proof -
  obtain rows where r: "subtree_levels (Suc (length (ds_nodes db))) db incl [root_id] = Inr rows"
    using assms by (auto simp only: load_subtree_def and_then_Inr)
  with assms show ?thesis
    by (intro that[OF r]) (auto simp only: load_subtree_def and_then_simps and_then_Inr Let_def loadable_def
        subtree.select_convs)
qed

lemma load_subtree_folders:
  assumes "load_subtree db root_id now incl = Inr sb"
  shows "r \<in> set (sb_folders sb) \<longleftrightarrow>
    r \<in> set (ds_nodes db) \<and> is_folder r \<and> loadable incl r \<and> below db incl root_id (nd_id r)"
proof -
  obtain rows where rows: "subtree_levels (Suc (length (ds_nodes db))) db incl [root_id] = Inr rows"
    and fs: "sb_folders sb = load_chunked (\<lambda>r. is_folder r \<and> loadable incl r) (\<lambda>r. Some (nd_id r))
       (remdups (filter (\<lambda>i. i \<noteq> root_id) rows @ [root_id])) db"
    by (rule load_subtree_rows[OF assms])
  have "set (remdups (filter (\<lambda>i. i \<noteq> root_id) rows @ [root_id])) = {g. below db incl root_id g}"
    using subtree_levels_set[OF rows] by (auto intro: below.intros)
  then show ?thesis unfolding fs set_load_chunked by auto
qed

lemma load_subtree_documents:
  assumes "load_subtree db root_id now incl = Inr sb"
  shows "r \<in> set (sb_documents sb) \<longleftrightarrow> r \<in> set (ds_nodes db) \<and> is_document r \<and> loadable incl r \<and>
    (\<exists>f \<in> set (sb_folders sb). nd_parent r = Some (nd_id f))"
  by (rule load_subtree_rows[OF assms]) (simp add: set_load_chunked conj_assoc)

lemma distinct_concat_batched:
  "distinct ids \<Longrightarrow> distinct (map nd_id ns) \<Longrightarrow> n > 0 \<Longrightarrow>
   distinct (map nd_id (concat (map (\<lambda>chunk. filter (\<lambda>r. P r \<and> nd_id r \<in> set chunk) ns) (batched n ids))))"
proof (induction n ids rule: batched.induct)
  case (1 n xs)
  show ?case
  proof (cases "xs = []")
    case False
    have "distinct (take n xs @ drop n xs)" using "1.prems"(1) by simp
    then have disj: "set (take n xs) \<inter> set (drop n xs) = {}" by (simp only: distinct_append)
    have rest: "set (concat (batched n (drop n xs))) = set (drop n xs)" by (rule set_concat_batched[OF "1.prems"(3)])
    have ih: "distinct (map nd_id (concat (map (\<lambda>chunk. filter (\<lambda>r. P r \<and> nd_id r \<in> set chunk) ns) (batched n (drop n xs)))))"
      using "1.IH" "1.prems" False by simp
    have head: "distinct (map nd_id (filter (\<lambda>r. P r \<and> nd_id r \<in> set (take n xs)) ns))"
      using "1.prems"(2) by (simp add: distinct_map_filter)
    have ids: "nd_id ` set (concat (map (\<lambda>chunk. filter (\<lambda>r. P r \<and> nd_id r \<in> set chunk) ns) (batched n (drop n xs))))
        \<subseteq> set (drop n xs)" using rest by auto
    show ?thesis
      using ih head ids disj "1.prems"(3) False by (subst batched.simps) (auto simp: image_iff)
  qed (simp add: batched.simps)
qed

lemma load_subtree_distinct:
  assumes "load_subtree db root_id now incl = Inr sb" "ids_unique db"
  shows "distinct (map nd_id (sb_folders sb))"
proof -
  have q: "QUERY_CHUNK_SIZE > 0" by (simp add: QUERY_CHUNK_SIZE_def)
  have load: "distinct ids \<Longrightarrow> distinct (map nd_id (load_chunked P (\<lambda>r. Some (nd_id r)) ids db))" for P ids
    using distinct_concat_batched[OF _ _ q, of ids "ds_nodes db" P] assms(2) by (simp add: load_chunked_def ids_unique_def)
  obtain rows where "sb_folders sb = load_chunked (\<lambda>r. is_folder r \<and> loadable incl r) (\<lambda>r. Some (nd_id r))
       (remdups (filter (\<lambda>i. i \<noteq> root_id) rows @ [root_id])) db"
    by (rule load_subtree_rows[OF assms(1)])
  then show ?thesis using load[OF distinct_remdups] by simp
qed

section \<open>The plan\<close>

lemma judge_documents_deletable:
  assumes "foldM (judge_document db sb u now incl) docs (del, failed) = Inr (del', failed')"
  shows "i \<in> set del' \<longleftrightarrow> i \<in> set del \<or>
    (\<exists>d \<in> set docs. nd_id d = i \<and> (incl \<or> nr_status d = OK) \<and> can_delete db sb u now ''delete_document'' d = Inr True)"
  using assms
proof (induction docs arbitrary: del failed)
  case (Cons d docs)
  from Cons.prems obtain del1 failed1 where j: "judge_document db sb u now incl d (del, failed) = Inr (del1, failed1)"
    and rest: "foldM (judge_document db sb u now incl) docs (del1, failed1) = Inr (del', failed')"
    by (auto simp: and_then_Inr)
  have "i \<in> set del1 \<longleftrightarrow> i \<in> set del \<or>
      (nd_id d = i \<and> (incl \<or> nr_status d = OK) \<and> can_delete db sb u now ''delete_document'' d = Inr True)"
    using j by (cases "can_delete db sb u now ''delete_document'' d")
      (auto simp: judge_document_def and_then_Inr split: if_splits)
  with Cons.IH[OF rest] show ?case by auto
qed simp

lemma judge_folders_self:
  assumes "foldM (judge_folder db sb u now root_id) fs (sd, failed) = Inr (sd', failed')" "distinct (map nd_id fs)"
  shows "od_get sd' i = (if i \<in> nd_id ` set fs
    then Some (i = root_id \<or> (\<exists>f \<in> set fs. nd_id f = i \<and> can_delete db sb u now ''delete_directory'' f = Inr True))
    else od_get sd i)"
  using assms
proof (induction fs arbitrary: sd failed)
  case (Cons f fs)
  from Cons.prems(1) obtain sd1 failed1 where j: "judge_folder db sb u now root_id f (sd, failed) = Inr (sd1, failed1)"
    and rest: "foldM (judge_folder db sb u now root_id) fs (sd1, failed1) = Inr (sd', failed')"
    by (auto simp: and_then_Inr)
  have "od_get sd1 i = (if i = nd_id f
      then Some (i = root_id \<or> can_delete db sb u now ''delete_directory'' f = Inr True) else od_get sd i)"
    using j by (auto simp: judge_folder_def and_then_Inr Let_def split: if_splits)
  with Cons.IH[OF rest] Cons.prems(2) show ?case by (cases "i = nd_id f") (force simp: image_iff)+
qed simp

lemma parent_map_keys [simp]: "map fst (parent_map fs) = map nd_id fs"
  by (simp add: parent_map_def)

lemma od_get_parent_map:
  assumes "distinct (map nd_id fs)"
  shows "od_get (parent_map fs) i = Some (Some q) \<longleftrightarrow>
    (\<exists>f \<in> set fs. nd_id f = i \<and> nd_parent f = Some q \<and> q \<noteq> '''' \<and> q \<in> nd_id ` set fs)"
proof -
  have "od_get (map (\<lambda>f. (nd_id f, g f)) fs) i = Some y \<longleftrightarrow> (\<exists>f \<in> set fs. nd_id f = i \<and> g f = y)"
    for g :: "node_row \<Rightarrow> string option" and y
    using assms by (induction fs) (auto simp: image_iff)
  then show ?thesis by (auto simp: parent_map_def split: option.splits if_splits)
qed

lemma parent_map_ok: "distinct (map nd_id fs) \<Longrightarrow> parents_ok (parent_map fs)"
  unfolding parents_ok_def od_wf_def parent_map_keys
  by (intro conjI allI impI) (simp_all only: od_get_parent_map set_map, blast)

text \<open>A well-formed node table, as far as the subtree is concerned.\<close>

definition nodes_wf :: "doc_db \<Rightarrow> bool" where
  "nodes_wf db \<longleftrightarrow> ids_unique db \<and> (\<forall>r \<in> set (ds_nodes db). nd_id r \<noteq> '''' \<and> nr_status r \<noteq> LOCKED)"

lemma child_folder_iff:
  "c \<in> set (child_folder_ids db incl s) \<longleftrightarrow> (\<exists>r \<in> set (ds_nodes db). nd_id r = c \<and> is_folder r \<and>
     nd_parent r = Some s \<and> (incl \<or> nr_status r = OK))"
  by (auto simp: child_folder_ids_def)

lemma parent_map_link:
  assumes "load_subtree db root_id now incl = Inr sb" "nodes_wf db" and h: "h \<in> nd_id ` set (sb_folders sb)"
  shows "od_get (parent_map (sb_folders sb)) c = Some (Some h) \<longleftrightarrow> c \<in> set (child_folder_ids db incl h)"
proof -
  let ?P = "parent_map (sb_folders sb)"
  note wf = assms(2)[unfolded nodes_wf_def]
  note fs = load_subtree_folders[OF assms(1)]
  have d: "distinct (map nd_id (sb_folders sb))" using load_subtree_distinct[OF assms(1)] wf by blast
  show ?thesis
  proof
    assume "od_get ?P c = Some (Some h)"
    then obtain r where r: "r \<in> set (sb_folders sb)" "nd_id r = c" "nd_parent r = Some h"
      by (auto simp: od_get_parent_map[OF d])
    then have "r \<in> set (ds_nodes db)" "is_folder r" "loadable incl r" using fs by auto
    moreover have "nr_status r \<noteq> LOCKED" using wf \<open>r \<in> set (ds_nodes db)\<close> by blast
    ultimately show "c \<in> set (child_folder_ids db incl h)" using r
      by (cases "nr_status r") (auto simp: child_folder_iff loadable_def)
  next
    assume c: "c \<in> set (child_folder_ids db incl h)"
    then obtain r where r: "r \<in> set (ds_nodes db)" "nd_id r = c" "is_folder r" "nd_parent r = Some h"
      "incl \<or> nr_status r = OK" by (auto simp: child_folder_iff)
    from h obtain k where k: "k \<in> set (sb_folders sb)" "nd_id k = h" by auto
    then have "below db incl root_id h" "k \<in> set (ds_nodes db)" using fs by auto
    then have "below db incl root_id c" using below_child c by blast
    then have "r \<in> set (sb_folders sb)" using r fs[of r] by (auto simp: loadable_def)
    moreover have "h \<noteq> ''''" using wf k \<open>k \<in> set (ds_nodes db)\<close> by blast
    ultimately show "od_get ?P c = Some (Some h)" using r h by (auto simp: od_get_parent_map[OF d])
  qed
qed

lemma inside_iff_below:
  assumes "load_subtree db root_id now incl = Inr sb" "nodes_wf db" "f \<in> nd_id ` set (sb_folders sb)"
  shows "inside (parent_map (sb_folders sb)) f g \<longleftrightarrow> below db incl f g"
proof -
  let ?P = "parent_map (sb_folders sb)"
  have d: "distinct (map nd_id (sb_folders sb))"
    using load_subtree_distinct[OF assms(1)] assms(2) by (simp add: nodes_wf_def)
  note link = parent_map_link[OF assms(1,2)]
  have stay: "c \<in> nd_id ` set (sb_folders sb)" if "od_get ?P c = Some (Some h)" for c h
    using that by (auto simp: od_get_parent_map[OF d])
  show ?thesis
  proof
    assume "inside ?P f g"
    then show "below db incl f g" using assms(3)
    proof (induction rule: inside.induct)
      case (inside_step c f g)
      then show ?case using link stay below.below_step by blast
    qed (rule below.below_refl)
  next
    assume "below db incl f g"
    then show "inside ?P f g" using assms(3)
    proof (induction rule: below.induct)
      case (below_step c f g)
      then show ?case using link stay inside.inside_step by blast
    qed (rule inside.inside_refl)
  qed
qed

definition self_ok :: "doc_db \<Rightarrow> subtree \<Rightarrow> user \<Rightarrow> timestamp \<Rightarrow> string \<Rightarrow> node_row \<Rightarrow> bool" where
  "self_ok db sb u now root_id g \<longleftrightarrow> nd_id g = root_id \<or> can_delete db sb u now ''delete_directory'' g = Inr True"

definition document_ok :: "doc_db \<Rightarrow> subtree \<Rightarrow> user \<Rightarrow> timestamp \<Rightarrow> bool \<Rightarrow> node_row \<Rightarrow> bool" where
  "document_ok db sb u now incl d \<longleftrightarrow>
     (incl \<or> nr_status d = OK) \<and> can_delete db sb u now ''delete_document'' d = Inr True"

definition holds_kept_document :: "doc_db \<Rightarrow> subtree \<Rightarrow> user \<Rightarrow> timestamp \<Rightarrow> bool \<Rightarrow> node_row \<Rightarrow> bool" where
  "holds_kept_document db sb u now incl g \<longleftrightarrow> (\<exists>d \<in> set (sb_documents sb).
     nd_parent d = Some (nd_id g) \<and> current_file_active db d \<and> \<not> document_ok db sb u now incl d)"

lemma fetch_parts:
  assumes "fetch_subtree_for_deletion db root_id u now incl = Inr plan" "load_subtree db root_id now incl = Inr sb"
  obtains del failed sd order has where
    "foldM (judge_document db sb u now incl) (sb_documents sb) ([], []) = Inr (del, failed)"
    "foldM (judge_folder db sb u now root_id) (sb_folders sb) ([], failed) = Inr (sd, dp_failed plan)"
    "topo_order (parent_map (sb_folders sb)) = Inr order"
    "has = bubble_up (parent_map (sb_folders sb)) sd (undeletable_doc_folders db (sb_documents sb) del) order"
    "dp_folders plan = filter (folder_deletable sd has) (filter (\<lambda>f. f \<noteq> root_id) order)"
    "dp_protected plan = filter (\<lambda>f. \<not> folder_deletable sd has f) (filter (\<lambda>f. f \<noteq> root_id) order)"
    "dp_documents plan = del"
  using assms by (auto simp: fetch_subtree_for_deletion_def and_then_Inr Let_def split: prod.splits)

lemma in_map_filter: "y \<in> set (List.map_filter f xs) \<longleftrightarrow> (\<exists>x \<in> set xs. f x = Some y)"
  by (force simp: map_filter_def)

lemma filter_split:
  "filter S zs = xs @ f # ys \<Longrightarrow> \<exists>us vs. zs = us @ f # vs \<and> filter S us = xs"
proof (induction zs arbitrary: xs)
  case (Cons z zs)
  show ?case
  proof (cases "S z \<and> xs = []")
    case True
    then show ?thesis using Cons.prems by (intro exI[of _ "[]", OF exI[of _ zs]]) auto
  next
    case False
    then obtain xs' where "filter S zs = xs' @ f # ys" "xs = (if S z then z # xs' else xs')"
      using Cons.prems by (cases xs) (auto split: if_splits)
    with Cons.IH obtain us vs where "zs = us @ f # vs" "filter S us = xs'" by blast
    with \<open>xs = _\<close> show ?thesis by (intro exI[of _ "z # us", OF exI[of _ vs]]) auto
  qed
qed simp

lemma plan_documents:
  assumes "fetch_subtree_for_deletion db root_id u now incl = Inr plan" "load_subtree db root_id now incl = Inr sb"
  shows "i \<in> set (dp_documents plan) \<longleftrightarrow> (\<exists>d \<in> set (sb_documents sb). nd_id d = i \<and> document_ok db sb u now incl d)"
  by (rule fetch_parts[OF assms]) (auto simp: judge_documents_deletable document_ok_def)

lemma plan_folders:
  assumes fetch: "fetch_subtree_for_deletion db root_id u now incl = Inr plan"
    and load: "load_subtree db root_id now incl = Inr sb" and wf: "nodes_wf db"
  shows "set (dp_folders plan) \<union> set (dp_protected plan) = nd_id ` set (sb_folders sb) - {root_id}"
    and "set (dp_folders plan) \<inter> set (dp_protected plan) = {}"
    and "r \<in> set (sb_folders sb) \<Longrightarrow> nd_id r \<in> set (dp_folders plan) \<longleftrightarrow> nd_id r \<noteq> root_id \<and>
      (\<forall>g \<in> set (sb_folders sb). below db incl (nd_id r) (nd_id g) \<longrightarrow>
        self_ok db sb u now root_id g \<and> \<not> holds_kept_document db sb u now incl g)"
    and "dp_folders plan = xs @ f # ys \<Longrightarrow> set (child_folder_ids db incl f) \<subseteq> set xs"
proof -
  let ?fs = "sb_folders sb" and ?P = "parent_map (sb_folders sb)"
  obtain del failed sd order has where parts:
    "foldM (judge_document db sb u now incl) (sb_documents sb) ([], []) = Inr (del, failed)"
    "foldM (judge_folder db sb u now root_id) ?fs ([], failed) = Inr (sd, dp_failed plan)"
    "topo_order ?P = Inr order"
    "has = bubble_up ?P sd (undeletable_doc_folders db (sb_documents sb) del) order"
    "dp_folders plan = filter (folder_deletable sd has) (filter (\<lambda>f. f \<noteq> root_id) order)"
    "dp_protected plan = filter (\<lambda>f. \<not> folder_deletable sd has f) (filter (\<lambda>f. f \<noteq> root_id) order)"
    "dp_documents plan = del" by (rule fetch_parts[OF fetch load])
  have uniq: "ids_unique db" using wf by (simp add: nodes_wf_def)
  have d: "distinct (map nd_id ?fs)" by (rule load_subtree_distinct[OF load uniq])
  note ok = parent_map_ok[OF d]
  note topo = topo_order_sound[OF ok parts(3)]
  have keys: "set order = nd_id ` set ?fs" using topo(2) by simp
  show "set (dp_folders plan) \<union> set (dp_protected plan) = nd_id ` set ?fs - {root_id}"
    "set (dp_folders plan) \<inter> set (dp_protected plan) = {}"
    using parts(5,6) keys by auto
  have eqrow: "g = h" if "g \<in> set ?fs" "h \<in> set ?fs" "nd_id g = nd_id h" for g h
    using that d by (auto simp: distinct_map inj_on_def)
  have self: "od_get sd (nd_id g) = Some (self_ok db sb u now root_id g)" if "g \<in> set ?fs" for g
    using judge_folders_self[OF parts(2) d, of "nd_id g"] that eqrow by (auto simp: self_ok_def)
  have docs: "nd_id g \<in> set (undeletable_doc_folders db (sb_documents sb) del) \<longleftrightarrow> holds_kept_document db sb u now incl g" for g
  proof -
    have "nd_id x \<notin> set del \<longleftrightarrow> \<not> document_ok db sb u now incl x" if x: "x \<in> set (sb_documents sb)" for x
    proof -
      have "y = x" if "y \<in> set (sb_documents sb)" "nd_id y = nd_id x" for y
        using ids_unique_eq[OF uniq, of y x] load_subtree_documents[OF load, of y] load_subtree_documents[OF load, of x] x that
        by blast
      then show ?thesis using plan_documents[OF fetch load, of "nd_id x"] parts(7) x by auto
    qed
    then have "nd_id g \<in> set (undeletable_doc_folders db (sb_documents sb) del) \<longleftrightarrow> (\<exists>x \<in> set (sb_documents sb).
        current_file_active db x \<and> \<not> document_ok db sb u now incl x \<and> nd_parent x = Some (nd_id g))"
      by (auto simp: undeletable_doc_folders_def in_map_filter split: if_splits)
    then show ?thesis unfolding holds_kept_document_def by blast
  qed
  have bad: "bad_folder sd (undeletable_doc_folders db (sb_documents sb) del) (nd_id g) \<longleftrightarrow>
      \<not> (self_ok db sb u now root_id g \<and> \<not> holds_kept_document db sb u now incl g)" if "g \<in> set ?fs" for g
    using self[OF that] docs by (simp add: bad_folder_def get_or_def)
  have del: "folder_deletable sd has (nd_id r) \<longleftrightarrow>
      (\<forall>g \<in> set ?fs. below db incl (nd_id r) (nd_id g) \<longrightarrow>
        self_ok db sb u now root_id g \<and> \<not> holds_kept_document db sb u now incl g)" if r: "r \<in> set ?fs" for r
  proof -
    have hv: "od_get has (nd_id r) = Some (\<exists>g. inside ?P (nd_id r) g \<and>
        bad_folder sd (undeletable_doc_folders db (sb_documents sb) del) g)"
      using bubble_up_spec[OF ok parts(3)] parts(4) r by simp
    have ins: "inside ?P (nd_id r) g \<longleftrightarrow> below db incl (nd_id r) g" for g
      using inside_iff_below[OF load wf] r by blast
    have mem: "g \<in> nd_id ` set ?fs" if "inside ?P (nd_id r) g" for g
      using that imageI[OF r, of nd_id]
    proof (induction rule: inside.induct)
      case (inside_step c f g)
      then show ?case by (auto simp: od_get_parent_map[OF d])
    qed
    have "(\<exists>g. inside ?P (nd_id r) g \<and> bad_folder sd (undeletable_doc_folders db (sb_documents sb) del) g) \<longleftrightarrow>
        (\<exists>g \<in> set ?fs. inside ?P (nd_id r) (nd_id g) \<and>
          bad_folder sd (undeletable_doc_folders db (sb_documents sb) del) (nd_id g))"
      using mem by blast
    also have "\<dots> \<longleftrightarrow> (\<exists>g \<in> set ?fs. below db incl (nd_id r) (nd_id g) \<and>
        \<not> (self_ok db sb u now root_id g \<and> \<not> holds_kept_document db sb u now incl g))"
      unfolding ins using bad by blast
    finally have "od_get has (nd_id r) = Some (\<exists>g \<in> set ?fs. below db incl (nd_id r) (nd_id g) \<and>
        \<not> (self_ok db sb u now root_id g \<and> \<not> holds_kept_document db sb u now incl g))" using hv by simp
    moreover have "below db incl (nd_id r) (nd_id r)" by (rule below.below_refl)
    ultimately show ?thesis using self[OF r] r by (auto simp: folder_deletable_def get_or_def)
  qed
  show "nd_id r \<in> set (dp_folders plan) \<longleftrightarrow> nd_id r \<noteq> root_id \<and>
      (\<forall>g \<in> set ?fs. below db incl (nd_id r) (nd_id g) \<longrightarrow>
        self_ok db sb u now root_id g \<and> \<not> holds_kept_document db sb u now incl g)" if "r \<in> set ?fs"
    using del[OF that] that keys parts(5) by auto
  show "set (child_folder_ids db incl f) \<subseteq> set xs" if split: "dp_folders plan = xs @ f # ys"
  proof
    fix c assume c: "c \<in> set (child_folder_ids db incl f)"
    let ?S = "\<lambda>f. f \<noteq> root_id \<and> folder_deletable sd has f"
    have "filter ?S order = xs @ f # ys" using split parts(5) by (simp add: conj_commute)
    from filter_split[OF this] obtain us vs where us: "order = us @ f # vs" "filter ?S us = xs" by blast
    have "f \<in> set (dp_folders plan)" using split by simp
    then have f: "f \<in> nd_id ` set ?fs" "folder_deletable sd has f" using parts(5) keys by auto
    have pc: "od_get ?P c = Some (Some f)" using parent_map_link[OF load wf f(1)] c by simp
    have "set (children ?P f) \<subseteq> set us" using topo(3) us(1) unfolding children_first_def by blast
    then have "c \<in> set us" using pc ok by (auto simp: children_iff parents_ok_def)
    moreover have "c \<noteq> root_id"
    proof
      assume "c = root_id"
      obtain depth :: "string \<Rightarrow> nat" where depth: "\<And>f q. od_get ?P f = Some (Some q) \<Longrightarrow> depth q < depth f"
        using topo_order_acyclic[OF ok parts(3)] by blast
      have "inside ?P x y \<Longrightarrow> depth x \<le> depth y" for x y
        by (induction rule: inside.induct) (auto dest!: depth)
      moreover have "inside ?P root_id f"
      proof -
        have "c \<in> nd_id ` set ?fs" using pc by (auto simp: od_get_parent_map[OF d])
        moreover obtain r where "r \<in> set ?fs" "nd_id r = f" using f(1) by auto
        ultimately show ?thesis
          using load_subtree_folders[OF load, of r] inside_iff_below[OF load wf, of c f] \<open>c = root_id\<close> by simp
      qed
      ultimately show False using depth[OF pc] \<open>c = root_id\<close> by (metis leD)
    qed
    moreover have "folder_deletable sd has c"
    proof -
      obtain rf rc where rows: "rf \<in> set ?fs" "nd_id rf = f" "rc \<in> set ?fs" "nd_id rc = c"
        using f(1) pc by (auto simp: od_get_parent_map[OF d])
      have "below db incl f g" if "below db incl c g" for g using below.below_step[OF c that] .
      then show ?thesis using del[OF rows(1)] del[OF rows(3)] rows f(2) by auto
    qed
    ultimately show "c \<in> set xs" using us(2) by auto
  qed
qed

section \<open>Totality\<close>

text \<open>The hierarchy is free of cycles: every node is deeper than its parent.\<close>

definition ranked :: "(string \<Rightarrow> nat) \<Rightarrow> doc_db \<Rightarrow> bool" where
  "ranked depth db \<longleftrightarrow> (\<forall>r \<in> set (ds_nodes db). case nd_parent r of None \<Rightarrow> True | Some p \<Rightarrow> depth p < depth (nd_id r))"

lemma rankedD: "ranked depth db \<Longrightarrow> r \<in> set (ds_nodes db) \<Longrightarrow> nd_parent r = Some p \<Longrightarrow> depth p < depth (nd_id r)"
  by (auto simp: ranked_def split: option.splits)

lemma subtree_levels_total:
  "ranked depth db \<Longrightarrow> \<forall>i \<in> set level. card {j \<in> nd_id ` set (ds_nodes db). depth i < depth j} < n \<Longrightarrow>
    \<exists>rows. subtree_levels n db incl level = Inr rows"
proof (induction n db incl level rule: subtree_levels.induct)
  case (3 n db incl i level)
  have "card {j \<in> nd_id ` set (ds_nodes db). depth c < depth j} < n"
    if c: "c \<in> set (concat (map (child_folder_ids db incl) (i # level)))" for c
  proof -
    from c obtain x where x: "x \<in> set (i # level)" "c \<in> set (child_folder_ids db incl x)" by auto
    then obtain r where r: "r \<in> set (ds_nodes db)" "nd_id r = c" "nd_parent r = Some x"
      by (auto simp: child_folder_iff)
    have d: "depth x < depth c" using rankedD[OF "3.prems"(1) r(1,3)] r(2) by simp
    have "card {j \<in> nd_id ` set (ds_nodes db). depth c < depth j} < card {j \<in> nd_id ` set (ds_nodes db). depth x < depth j}"
    proof (rule psubset_card_mono)
      have "c \<in> {j \<in> nd_id ` set (ds_nodes db). depth x < depth j}" using r d by auto
      moreover have "c \<notin> {j \<in> nd_id ` set (ds_nodes db). depth c < depth j}" by simp
      moreover have "{j \<in> nd_id ` set (ds_nodes db). depth c < depth j} \<subseteq> {j \<in> nd_id ` set (ds_nodes db). depth x < depth j}"
        using d by auto
      ultimately show "{j \<in> nd_id ` set (ds_nodes db). depth c < depth j} \<subset> {j \<in> nd_id ` set (ds_nodes db). depth x < depth j}"
        by blast
    qed simp
    then show ?thesis using "3.prems"(2) x(1) by fastforce
  qed
  then obtain rest where "subtree_levels n db incl (concat (map (child_folder_ids db incl) (i # level))) = Inr rest"
    using "3.IH"[OF "3.prems"(1)] by blast
  then show ?case by (simp del: list.map concat.simps)
qed auto

lemma load_subtree_total:
  assumes "ranked depth db"
  shows "\<exists>sb. load_subtree db root_id now incl = Inr sb"
proof -
  have "card {j \<in> nd_id ` set (ds_nodes db). depth root_id < depth j} \<le> card (nd_id ` set (ds_nodes db))"
    by (rule card_mono) auto
  also have "\<dots> \<le> length (ds_nodes db)" by (metis card_length image_set length_map)
  finally have "\<exists>rows. subtree_levels (Suc (length (ds_nodes db))) db incl [root_id] = Inr rows"
    by (intro subtree_levels_total[OF assms]) simp
  then obtain rows where rows: "subtree_levels (Suc (length (ds_nodes db))) db incl [root_id] = Inr rows" ..
  have "\<exists>m. fetch_compiled_access_rules_for_targets (aw_db (world_of db))
      (map (\<lambda>f. (''directory'', nd_id f)) fs @ map (\<lambda>d. (''document'', nd_id d)) docs) None = Inr m"
    for fs docs :: "node_row list"
    by (rule fetch_rules_ok) auto
  then show ?thesis
    unfolding load_subtree_def rows and_then_simps Let_def
    by (metis (no_types, lifting) access_def and_then_simps(2) sum.case(2))
qed

lemma walk_up_total:
  fixes depth :: "string \<Rightarrow> nat"
  assumes "\<And>n. \<exists>v. check n = Inr v"
    and "\<And>i f p. od_get fm i = Some f \<Longrightarrow> nd_parent f = Some p \<Longrightarrow> depth p < depth i"
  shows "\<forall>j \<in> set vis. case i of None \<Rightarrow> True | Some i \<Rightarrow> depth i < depth j \<Longrightarrow> \<exists>b. walk_up check fm i vis = Inr b"
  using assms
proof (induction check fm i vis rule: walk_up.induct)
  case (2 check fm i vis)
  have nv: "i \<notin> set vis" using "2.prems"(1) by auto
  show ?case
  proof (cases "od_get fm i")
    case (Some f)
    obtain v where v: "check f = Inr v" using "2.prems"(2) by blast
    have "\<exists>b. walk_up check fm (nd_parent f) (i # vis) = Inr b" if "v \<noteq> DENIED" "nd_inherit f"
    proof (rule "2.IH"[OF nv Some v])
      show "\<forall>j \<in> set (i # vis). case nd_parent f of None \<Rightarrow> True | Some i \<Rightarrow> depth i < depth j"
        using "2.prems"(1,3)[of] Some by (fastforce split: option.splits)
    qed (use that "2.prems" in auto)
    then show ?thesis using nv Some v by (auto simp: walk_up.simps)
  qed (use nv in \<open>auto simp: walk_up.simps\<close>)
qed (auto simp: walk_up.simps)

lemma od_get_folder_map_in: "od_get (folder_map fs) i = Some f \<Longrightarrow> f \<in> set fs \<and> nd_id f = i"
proof -
  have "od_get (fold (\<lambda>f m. od_set (nd_id f) f m) fs m) i = Some f \<Longrightarrow>
      (f \<in> set fs \<and> nd_id f = i) \<or> od_get m i = Some f" for m
    by (induction fs arbitrary: m) (fastforce split: if_splits)+
  from this[of "[]"] show "od_get (folder_map fs) i = Some f \<Longrightarrow> f \<in> set fs \<and> nd_id f = i"
    by (simp add: folder_map_def)
qed

lemma load_subtree_context:
  assumes "load_subtree db root_id now incl = Inr sb"
  shows "\<exists>rules. ac_rules (sb_context sb) = Some rules"
    "ac_folder_map (sb_context sb) = folder_map (map node.truncate (sb_folders sb))"
  using assms by (auto simp: load_subtree_def and_then_Inr Let_def)

lemma truncate_simps [simp]:
  "nd_id (node.truncate r) = nd_id r" "nd_parent (node.truncate r) = nd_parent r"
  "nd_type (node.truncate r) = nd_type r" "nd_inherit (node.truncate r) = nd_inherit r"
  "nd_rule_set_id (node.truncate r) = nd_rule_set_id r"
  by (simp_all add: node.truncate_def)

lemma subtree_access_total:
  assumes "ranked depth db" "load_subtree db root_id now incl = Inr sb" "access_type \<in> set AVAILABLE_ACCESS_TYPES"
  shows "\<exists>b. subtree_access db sb u now access_type r = Inr b"
proof -
  let ?q = "\<lparr>aq_user = u, aq_access_type = access_type, aq_now = now\<rparr>"
  obtain rules where rules: "ac_rules (sb_context sb) = Some rules" using load_subtree_context(1)[OF assms(2)] by blast
  have single: "\<exists>v. check_single_node (world_of db) ?q (sb_context sb) n = Inr v" for n
    using access_rule_types_ok[OF assms(3)] rules
    by (auto simp: check_single_node_def Let_def compiled_rules_allow_from_map_def)
  have walk: "\<exists>b. walk_up (check_single_node (world_of db) ?q (sb_context sb)) (ac_folder_map (sb_context sb)) i [] = Inr b" for i
  proof (rule walk_up_total[OF single])
    fix j f p
    assume "od_get (ac_folder_map (sb_context sb)) j = Some f" and p: "nd_parent f = Some p"
    then have "f \<in> node.truncate ` set (sb_folders sb)" "nd_id f = j"
      using load_subtree_context(2)[OF assms(2)] by (auto dest!: od_get_folder_map_in)
    then show "depth p < depth j"
      using rankedD[OF assms(1)] load_subtree_folders[OF assms(2)] p by auto
  qed simp
  obtain v where v: "check_single_node (world_of db) ?q (sb_context sb) (node.truncate r) = Inr v" using single by blast
  have "\<exists>b. check_access_for_object (world_of db) ?q (sb_context sb) True (node.truncate r) = Inr b"
    using assms(3) v walk[of "nd_parent (node.truncate r)"] by (auto simp: check_access_for_object_def split: single_node_check_result.splits)
  then show ?thesis by (auto simp: subtree_access_def access_def)
qed

lemma foldM_total: "(\<And>x s. x \<in> set xs \<Longrightarrow> \<exists>t. f x s = Inr t) \<Longrightarrow> \<exists>t. foldM f xs s = Inr t"
proof (induction xs arbitrary: s)
  case (Cons x xs)
  obtain t where t: "f x s = Inr t" using Cons.prems[of x s] by auto
  then show ?case using Cons.IH[of t] Cons.prems by simp
qed simp

lemma below_last:
  "below db incl f g \<Longrightarrow> g = f \<or> (\<exists>p. below db incl f p \<and> g \<in> set (child_folder_ids db incl p))"
proof (induction rule: below.induct)
  case (below_step c f g)
  then show ?case using below.below_step below.below_refl by blast
qed simp

lemma fetch_subtree_total:
  assumes rank: "ranked depth db" and wf: "nodes_wf db" and root: "get_folder incl db root_id \<noteq> None"
  shows "\<exists>plan. fetch_subtree_for_deletion db root_id u now incl = Inr plan"
proof -
  obtain sb where load: "load_subtree db root_id now incl = Inr sb" using load_subtree_total[OF rank] by blast
  note fs = load_subtree_folders[OF load]
  have uniq: "ids_unique db" using wf by (simp add: nodes_wf_def)
  have d: "distinct (map nd_id (sb_folders sb))" by (rule load_subtree_distinct[OF load uniq])
  have acc: "\<exists>b. subtree_access db sb u now t r = Inr b" if "t = ''read'' \<or> t = ''write''" for t r
    using that by (intro subtree_access_total[OF rank load]) (auto simp: AVAILABLE_ACCESS_TYPES_def)
  have can: "\<exists>b. can_delete db sb u now perm r = Inr b" for perm r
    using acc[of "''write''" r] by (auto simp: can_delete_def split: prod.splits)
  have report: "\<exists>items. report_undeletable db sb u now ty r = Inr items"
    if p: "nd_parent r = Some p" "p \<in> nd_id ` set (sb_folders sb)" for ty r p
  proof -
    obtain f where "find (\<lambda>f. nd_id f = p) (sb_folders sb) = Some f"
      using p(2) by (cases "find (\<lambda>f. nd_id f = p) (sb_folders sb)") (auto simp: find_None_iff)
    with p(1) acc[of "''read''" f] show ?thesis by (auto simp: report_undeletable_def)
  qed
  have rootrow: "root_id \<in> nd_id ` set (sb_folders sb)"
    using root fs by (auto simp: get_folder_def find_Some_iff loadable_def intro!: below.below_refl imageI)
  have parent: "\<exists>p. nd_parent r = Some p \<and> p \<in> nd_id ` set (sb_folders sb)"
    if r: "r \<in> set (sb_folders sb)" "nd_id r \<noteq> root_id" for r
  proof -
    from r fs[of r] below_last obtain p where p: "below db incl root_id p" "nd_id r \<in> set (child_folder_ids db incl p)" by blast
    then obtain r' where r': "r' \<in> set (ds_nodes db)" "nd_id r' = nd_id r" "nd_parent r' = Some p"
      by (auto simp: child_folder_iff)
    then have "r' = r" using ids_unique_eq[OF uniq] fs[of r] r(1) by blast
    moreover have "p \<in> nd_id ` set (sb_folders sb)"
    proof (cases "p = root_id")
      case False
      then obtain q where "p \<in> set (child_folder_ids db incl q)" using below_last[OF p(1)] by blast
      then obtain s where "s \<in> set (ds_nodes db)" "nd_id s = p" "is_folder s" "incl \<or> nr_status s = OK"
        by (auto simp: child_folder_iff)
      then show ?thesis using fs[of s] p(1) by (auto simp: loadable_def)
    qed (use rootrow in simp)
    ultimately show ?thesis using r' by blast
  qed
  have "\<exists>t. foldM (judge_document db sb u now incl) (sb_documents sb) ([], []) = Inr t"
  proof (rule foldM_total)
    fix doc st assume "doc \<in> set (sb_documents sb)"
    then obtain p where "nd_parent doc = Some p" "p \<in> nd_id ` set (sb_folders sb)"
      using load_subtree_documents[OF load] by auto
    with can[of "''delete_document''" doc] report[of doc p "''document''"]
    show "\<exists>t. judge_document db sb u now incl doc st = Inr t" by (auto simp: judge_document_def split: prod.splits)
  qed
  then obtain del failed where 1: "foldM (judge_document db sb u now incl) (sb_documents sb) ([], []) = Inr (del, failed)" by auto
  have "\<exists>t. foldM (judge_folder db sb u now root_id) (sb_folders sb) ([], failed) = Inr t"
  proof (rule foldM_total)
    fix f st assume f: "f \<in> set (sb_folders sb)"
    show "\<exists>t. judge_folder db sb u now root_id f st = Inr t"
    proof (cases "nd_id f = root_id")
      case False
      then obtain p where "nd_parent f = Some p" "p \<in> nd_id ` set (sb_folders sb)" using parent f by blast
      with can[of "''delete_directory''" f] report[of f p "''folder''"] False
      show ?thesis by (auto simp: judge_folder_def Let_def split: prod.splits)
    qed (auto simp: judge_folder_def split: prod.splits)
  qed
  then obtain sd failed' where 2: "foldM (judge_folder db sb u now root_id) (sb_folders sb) ([], failed) = Inr (sd, failed')" by auto
  have "\<exists>order. topo_order (parent_map (sb_folders sb)) = Inr order"
  proof (rule topo_order_complete[OF parent_map_ok[OF d]])
    fix f q assume "od_get (parent_map (sb_folders sb)) f = Some (Some q)"
    then show "depth q < depth f" using rankedD[OF rank] fs by (auto simp: od_get_parent_map[OF d])
  qed
  then obtain order where 3: "topo_order (parent_map (sb_folders sb)) = Inr order" ..
  show ?thesis unfolding fetch_subtree_for_deletion_def by (simp add: load 1 2 3 Let_def)
qed

section \<open>Properties\<close>


definition plain_folder :: "string \<Rightarrow> string option \<Rightarrow> node_row" where
  "plain_folder i p = \<lparr>nd_id = i, nd_type = ''directory'', nd_parent = p, nd_inherit = True, nd_rule_set_id = None,
     nr_name = i, nr_status = OK, nr_operation_id = None, nr_created_time = 0, nr_current_revision_id = None\<rparr>"

definition plain_document :: "string \<Rightarrow> string \<Rightarrow> string \<Rightarrow> node_row" where
  "plain_document i p rv = (plain_folder i (Some p))\<lparr>nd_type := ''document'', nr_current_revision_id := Some rv\<rparr>"

definition demo_docs :: doc_db where
  "demo_docs = \<lparr>ds_nodes = [plain_folder ''/'' None, plain_folder ''aa'' (Some ''/''), plain_folder ''bbb'' (Some ''aa''),
       plain_folder ''cccc'' (Some ''bbb''), plain_document ''dddd'' ''bbb'' ''r''],
     ds_rule_sets = [], ds_rules = [], ds_next_rule_id = 1, ds_groups = [],
     ds_blocks = [\<lparr>be_user_id = ''u'', be_not_before = 0, be_not_after = -1, be_target_type = ''directory'',
       be_target_id = Some ''bbb'', be_block_types = [''write'']\<rparr>], ds_oaes = [],
     ds_revisions = [\<lparr>rv_id = ''r'', rv_document_id = ''dddd'', rv_file_id = ''f'', rv_created_time = 0, rv_parent_id = None\<rparr>],
     ds_metadata = [],
     ds_files = \<lparr>fd_tasks = [], fd_files = [\<lparr>fl_id = ''f'', fl_path = ''p'', fl_sha256 = None, fl_size = None, fl_active = True\<rparr>]\<rparr>,
     ds_avatars = [], ds_deferred = []\<rparr>"

definition right :: "string \<Rightarrow> permission_entry" where
  "right p = \<lparr>pe_permission = p, pe_granted = True, pe_start_time = None, pe_end_time = None\<rparr>"

definition keeper :: user where
  "keeper = \<lparr>us_id = ''u'', us_username = ''ann'', us_status = ACTIVE, us_groups = [],
     us_rights = map right [''delete_document'', ''delete_directory'', ''create_directory'', ''restore'', ''purge'', ''move'',
       ''rename_directory'']\<rparr>"

lemma demo_docs_ok: "ranked length demo_docs" "nodes_wf demo_docs" "get_folder False demo_docs ''aa'' \<noteq> None"
  by (simp_all add: ranked_def nodes_wf_def ids_unique_def demo_docs_def plain_folder_def plain_document_def
      get_folder_def is_folder_def)


text \<open>A user who is blocked from writing to a folder, and is therefore refused the deletion of a document in
  it, deletes that document all the same by deleting a directory further up: the plan looks up blocks for each item alone
  and not for the folders above it.\<close>

lemma bulk_deletion_ignores_folder_block:
  "check_access True demo_docs keeper 5 (plain_document ''dddd'' ''bbb'' ''r'') ''write'' = Inr False \<and>
   (\<exists>plan. fetch_subtree_for_deletion demo_docs ''aa'' keeper 5 False = Inr plan \<and> ''dddd'' \<in> set (dp_documents plan))"
proof
  show "check_access True demo_docs keeper 5 (plain_document ''dddd'' ''bbb'' ''r'') ''write'' = Inr False" by code_simp
  have "(case fetch_subtree_for_deletion demo_docs ''aa'' keeper 5 False of Inl _ \<Rightarrow> False
    | Inr p \<Rightarrow> ''dddd'' \<in> set (dp_documents p))" by code_simp
  then show "\<exists>plan. fetch_subtree_for_deletion demo_docs ''aa'' keeper 5 False = Inr plan \<and> ''dddd'' \<in> set (dp_documents plan)"
    by (auto split: sum.splits)
qed

end
