(* ===== verification/DocumentFiles.thy ===== *)
theory DocumentFiles
  imports DeletionTree
begin

text \<open>
  Revisions and the files behind them: \<open>src/include/domains/documents/queries/file_references.py\<close> and
  \<open>revisions.py\<close>, \<open>commands/bulk_purge.py\<close>, \<open>revision_deletion.py\<close> and \<open>upload_cleanup.py\<close>.

  Two columns refer to files without a cascade: the file of a revision and the avatar of a user.  The reflection that
  finds these columns is not modelled.  Deleting a row that is still referred to raises \<^const>\<open>ForeignKeyViolation\<close>.
\<close>

section \<open>Counting references\<close>

definition file_reference_columns :: "doc_db \<Rightarrow> string option list list" where
  "file_reference_columns db = [map (\<lambda>r. Some (rv_file_id r)) (ds_revisions db), ds_avatars db]"

definition total_references :: "doc_db \<Rightarrow> string \<Rightarrow> nat" where
  "total_references db f = sum_list (map (\<lambda>col. length (filter (\<lambda>v. v = Some f) col)) (file_reference_columns db))"

definition count_chunk :: "doc_db \<Rightarrow> string list \<Rightarrow> (string \<times> nat) list" where
  "count_chunk db chunk = map (\<lambda>f. (f, total_references db f)) (filter (\<lambda>f. total_references db f > 0) (remdups chunk))"

definition add_counts :: "(string \<times> nat) list \<Rightarrow> (string, nat) odict \<Rightarrow> (string, nat) odict" where
  "add_counts rows result = fold (\<lambda>(k, v) d. od_set k (get_or (od_get d k) 0 + v) d) rows result"

definition count_file_references :: "doc_db \<Rightarrow> string list \<Rightarrow> (string, nat) odict" where
  "count_file_references db file_ids =
     fold (\<lambda>chunk. add_counts (count_chunk db chunk)) (batched QUERY_CHUNK_SIZE file_ids) []"

definition MAX_PARAM_SIZE :: nat where
  "MAX_PARAM_SIZE = 950"

definition revision_count :: "doc_db \<Rightarrow> string list \<Rightarrow> string \<Rightarrow> nat" where
  "revision_count db docs f = length (filter (\<lambda>r. rv_file_id r = f \<and> rv_document_id r \<in> set docs) (ds_revisions db))"

definition excluded_chunk :: "doc_db \<Rightarrow> string list \<Rightarrow> string list \<Rightarrow> (string \<times> nat) list" where
  "excluded_chunk db f_chunk e_chunk = map (\<lambda>f. (f, revision_count db e_chunk f))
     (filter (\<lambda>f. revision_count db e_chunk f > 0) (remdups f_chunk))"

definition batch_count_other_revisions :: "doc_db \<Rightarrow> string list \<Rightarrow> string list \<Rightarrow> (string, nat) odict" where
  "batch_count_other_revisions db file_ids exclude_doc_ids =
     (if file_ids = [] then []
      else (let total_refs = count_file_references db file_ids;
                exclude_chunk_size = max 1 (MAX_PARAM_SIZE - QUERY_CHUNK_SIZE);
                excluded_counts = fold (\<lambda>f_chunk. fold (\<lambda>e_chunk. add_counts (excluded_chunk db f_chunk e_chunk))
                  (batched exclude_chunk_size exclude_doc_ids)) (batched QUERY_CHUNK_SIZE file_ids) []
            in fold (\<lambda>fid counts. od_set fid (get_or (od_get total_refs fid) 0 - get_or (od_get excluded_counts fid) 0) counts)
                 file_ids []))"

text \<open>Files that no document which is still there, outside the excluded ones, can reach.\<close>

definition chunks_of_set :: "string list \<Rightarrow> string list list" where
  "chunks_of_set xs = batched QUERY_CHUNK_SIZE xs"

definition reachable_in_chunk :: "doc_db \<Rightarrow> string list \<Rightarrow> string list \<Rightarrow> string list \<Rightarrow> string list" where
  "reachable_in_chunk db excluded_documents excluded_revisions chunk =
     map rv_file_id (filter (\<lambda>r. rv_file_id r \<in> set chunk \<and>
       (case get_document True db (rv_document_id r) of None \<Rightarrow> False | Some d \<Rightarrow> nr_status d \<noteq> DELETED) \<and>
       rv_document_id r \<notin> set excluded_documents \<and> rv_id r \<notin> set excluded_revisions) (ds_revisions db)) @
     filter (\<lambda>f. f \<in> set chunk) (List.map_filter id (ds_avatars db))"

definition find_unreachable_file_ids :: "doc_db \<Rightarrow> string list \<Rightarrow> string list \<Rightarrow> string list \<Rightarrow> string list" where
  "find_unreachable_file_ids db candidates excluded_documents excluded_revisions =
     (let reachable = concat (map (reachable_in_chunk db excluded_documents excluded_revisions) (chunks_of_set candidates))
      in filter (\<lambda>f. f \<notin> set reachable) candidates)"

definition find_unreachable_document_file_ids :: "doc_db \<Rightarrow> string list \<Rightarrow> string list" where
  "find_unreachable_document_file_ids db document_ids =
     (if document_ids = [] then []
      else find_unreachable_file_ids db
        (remdups (map rv_file_id (filter (\<lambda>r. rv_document_id r \<in> set document_ids) (ds_revisions db)))) document_ids [])"

definition find_unreachable_revision_file_ids :: "doc_db \<Rightarrow> string list \<Rightarrow> string list" where
  "find_unreachable_revision_file_ids db revision_ids =
     (if revision_ids = [] then []
      else find_unreachable_file_ids db
        (remdups (map rv_file_id (filter (\<lambda>r. rv_id r \<in> set revision_ids) (ds_revisions db)))) [] revision_ids)"

section \<open>Deleting rows\<close>

text \<open>\<open>ON DELETE SET NULL\<close> for the parents of other revisions and for current revisions.\<close>

definition drop_revisions :: "string list \<Rightarrow> doc_db \<Rightarrow> doc_db" where
  "drop_revisions ids db = db\<lparr>
     ds_revisions := map (\<lambda>r. case rv_parent_id r of None \<Rightarrow> r | Some p \<Rightarrow> if p \<in> set ids then r\<lparr>rv_parent_id := None\<rparr> else r)
       (filter (\<lambda>r. rv_id r \<notin> set ids) (ds_revisions db)),
     ds_nodes := map (\<lambda>n. case nr_current_revision_id n of None \<Rightarrow> n
       | Some c \<Rightarrow> if c \<in> set ids then n\<lparr>nr_current_revision_id := None\<rparr> else n) (ds_nodes db)\<rparr>"

definition drop_tasks_of_files :: "string list \<Rightarrow> doc_db \<Rightarrow> doc_db" where
  "drop_tasks_of_files ids db =
     db\<lparr>ds_files := (ds_files db)\<lparr>fd_tasks := filter (\<lambda>t. ft_file_id t \<notin> set ids) (fd_tasks (ds_files db))\<rparr>\<rparr>"

definition drop_files :: "string list \<Rightarrow> doc_db \<Rightarrow> doc_error + doc_db" where
  "drop_files ids db =
     (if list_ex (\<lambda>f. total_references db f > 0) ids then Inl ForeignKeyViolation
      else Inr ((drop_tasks_of_files ids db)\<lparr>ds_files :=
        (ds_files (drop_tasks_of_files ids db))\<lparr>fd_files := filter (\<lambda>f. fl_id f \<notin> set ids) (fd_files (ds_files db))\<rparr>\<rparr>))"

text \<open>Deleting a node cascades to its metadata and rule sets; deleting a document that still has revisions fails.\<close>

definition drop_documents :: "string list \<Rightarrow> doc_db \<Rightarrow> doc_error + doc_db" where
  "drop_documents ids db =
     (let gone = map nd_id (filter (\<lambda>n. nd_id n \<in> set ids \<and> is_document n) (ds_nodes db))
      in if list_ex (\<lambda>r. rv_document_id r \<in> set gone) (ds_revisions db) then Inl ForeignKeyViolation
         else Inr (db\<lparr>ds_nodes := filter (\<lambda>n. nd_id n \<notin> set gone) (ds_nodes db),
           ds_metadata := filter (\<lambda>m. dm_document_id m \<notin> set gone) (ds_metadata db),
           ds_rules := filter (\<lambda>r. rr_rule_set_id r \<notin> rs_id ` set (filter (\<lambda>s. rs_node_id s \<in> set gone) (ds_rule_sets db))) (ds_rules db),
           ds_rule_sets := filter (\<lambda>s. rs_node_id s \<notin> set gone) (ds_rule_sets db)\<rparr>))"

definition upload_sessions_of :: "doc_db \<Rightarrow> string \<Rightarrow> string list" where
  "upload_sessions_of db f = List.map_filter ft_upload_session_id (filter (\<lambda>t. ft_file_id t = f) (fd_tasks (ds_files db)))"

definition queue_deferred :: "(string \<times> string list) list \<Rightarrow> doc_db \<Rightarrow> doc_db" where
  "queue_deferred entries db = db\<lparr>ds_deferred := ds_deferred db @ entries\<rparr>"

section \<open>Purging\<close>

definition purge_documents_bulk :: "doc_db \<Rightarrow> string list \<Rightarrow> doc_error + doc_db" where
  "purge_documents_bulk db document_ids =
     (if document_ids = [] then Inr db
      else and_then (access (delete_compiled_access_rules_for_targets (map (Pair ''document'') document_ids)
             (aw_db (world_of db)))) (\<lambda>adb.
        let db1 = store_access adb db;
            revision_data = concat (map (\<lambda>chunk. filter (\<lambda>r. rv_document_id r \<in> set chunk) (ds_revisions db1))
              (batched QUERY_CHUNK_SIZE document_ids))
        in if revision_data = [] then drop_documents document_ids db1
           else (let rev_ids = map rv_id revision_data;
                     file_ids = remdups (filter (\<lambda>f. f \<noteq> '''') (map rv_file_id revision_data));
                     other_counts = batch_count_other_revisions db1 file_ids document_ids;
                     deletable_file_ids = filter (\<lambda>f. get_or (od_get other_counts f) 0 = 0) file_ids;
                     db2 = update_rows (\<lambda>n. is_document n \<and> nd_id n \<in> set document_ids)
                       (\<lambda>n. n\<lparr>nr_current_revision_id := None\<rparr>) db1;
                     db3 = db2\<lparr>ds_revisions := map (\<lambda>r. if rv_id r \<in> set rev_ids then r\<lparr>rv_parent_id := None\<rparr> else r)
                       (ds_revisions db2)\<rparr>;
                     db4 = drop_tasks_of_files deletable_file_ids db3;
                     deletable_files = filter (\<lambda>f. fl_id f \<in> set deletable_file_ids) (fd_files (ds_files db4));
                     db5 = queue_deferred (map (\<lambda>f. (fl_path f, upload_sessions_of db3 (fl_id f))) deletable_files)
                       (drop_revisions rev_ids db4)
                 in and_then (drop_files (map fl_id deletable_files) db5) (drop_documents document_ids))))"

definition delete_revision_and_unreferenced_file :: "doc_db \<Rightarrow> document_revision \<Rightarrow> doc_error + doc_db" where
  "delete_revision_and_unreferenced_file db r =
     (let total = get_or (od_get (count_file_references db [rv_file_id r]) (rv_file_id r)) 0;
          gone = drop_revisions [rv_id r] db
      in if rv_file_id r \<noteq> '''' \<and> total - 1 = 0
         then (case get_file (ds_files db) (rv_file_id r) of None \<Rightarrow> Inr gone
               | Some f \<Rightarrow> drop_files [fl_id f] (queue_deferred [(fl_path f, upload_sessions_of db (fl_id f))] gone))
         else Inr gone)"

definition delete_all_document_revisions :: "doc_db \<Rightarrow> node_row \<Rightarrow> doc_error + doc_db" where
  "delete_all_document_revisions db doc =
     (let rows = filter (\<lambda>r. rv_document_id r = nd_id doc) (ds_revisions db)
      in if rows = [] then Inr db
         else (let all_file_ids = remdups (filter (\<lambda>f. f \<noteq> '''') (map rv_file_id rows));
                   other_counts = batch_count_other_revisions db all_file_ids [nd_id doc];
                   deletable = filter (\<lambda>f. get_or (od_get other_counts f) 0 = 0) all_file_ids;
                   files = filter (\<lambda>f. fl_id f \<in> set deletable) (fd_files (ds_files db));
                   db1 = set_row (nd_id doc) (\<lambda>n. n\<lparr>nr_current_revision_id := None\<rparr>) db;
                   db2 = drop_tasks_of_files deletable db1;
                   db3 = drop_revisions (map rv_id rows) db2
               in and_then (drop_files (map fl_id files) db3) (\<lambda>db4.
                    Inr (queue_deferred (map (\<lambda>f. (fl_path f, upload_sessions_of db (fl_id f))) files) db4))))"

section \<open>Abandoned uploads\<close>

definition has_live_upload_for_document :: "doc_db \<Rightarrow> string \<Rightarrow> string \<Rightarrow> timestamp \<Rightarrow> bool" where
  "has_live_upload_for_document db document_id excluded_task_id now \<longleftrightarrow>
     list_ex (\<lambda>t. ft_id t \<noteq> excluded_task_id \<and> ft_mode t = UPLOAD \<and> active_status (ft_status t) \<and>
       (case ft_end_time t of None \<Rightarrow> True | Some e \<Rightarrow> e > now) \<and> get_file (ds_files db) (ft_file_id t) \<noteq> None \<and>
       list_ex (\<lambda>r. rv_file_id r = ft_file_id t \<and> rv_document_id r = document_id) (ds_revisions db))
       (fd_tasks (ds_files db))"

definition document_has_active_revision :: "doc_db \<Rightarrow> string \<Rightarrow> bool" where
  "document_has_active_revision db document_id \<longleftrightarrow>
     list_ex (\<lambda>r. rv_document_id r = document_id \<and> revision_active db r) (ds_revisions db)"

record cleanup_filter =
  cl_document_id :: "string option"
  cl_folder_id :: "string option"
  cl_title :: "string option"
  cl_limit :: "nat option"

definition matches_filter :: "cleanup_filter \<Rightarrow> node_row \<Rightarrow> bool" where
  "matches_filter flt d \<longleftrightarrow>
     (case cl_document_id flt of None \<Rightarrow> True | Some i \<Rightarrow> nd_id d = i) \<and>
     (case cl_folder_id flt of None \<Rightarrow> True | Some p \<Rightarrow> nd_parent d = Some p) \<and>
     (case cl_title flt of None \<Rightarrow> True | Some t \<Rightarrow> nr_name d = t)"

definition abandoned :: "timestamp \<Rightarrow> file_task \<Rightarrow> stored_file \<Rightarrow> bool" where
  "abandoned now t f \<longleftrightarrow> ft_mode t = UPLOAD \<and>
     ((active_status (ft_status t) \<and> due now t) \<or> (ft_status t = EXPIRED \<and> \<not> fl_active f))"

definition cleanup_order :: "file_task \<Rightarrow> nat \<times> timestamp \<times> string" where
  "cleanup_order t = (case ft_end_time t of None \<Rightarrow> (0, 0, ft_id t) | Some e \<Rightarrow> (1, e, ft_id t))"

definition find_cleanup_candidates :: "doc_db \<Rightarrow> timestamp \<Rightarrow> cleanup_filter \<Rightarrow> (string \<times> string \<times> file_task_status) list" where
  "find_cleanup_candidates db now flt =
     (let rows = filter (\<lambda>t. case get_file (ds_files db) (ft_file_id t) of None \<Rightarrow> False
            | Some f \<Rightarrow> abandoned now t f \<and>
                list_ex (\<lambda>r. rv_file_id r = fl_id f \<and> (case get_document False db (rv_document_id r) of None \<Rightarrow> False
                   | Some d \<Rightarrow> matches_filter flt d)) (ds_revisions db)) (fd_tasks (ds_files db));
          ordered = sort_key cleanup_order rows;
          limited = (case cl_limit flt of None \<Rightarrow> ordered | Some n \<Rightarrow> take n ordered)
      in map (\<lambda>t. (ft_id t, ft_file_id t, ft_status t)) limited)"

record cleanup_state =
  cs_db :: doc_db
  cs_expired :: "string list"
  cs_cancelled :: "string list"
  cs_removed_revisions :: nat
  cs_removed_documents :: nat

text \<open>The revisions of an abandoned file: once a document is purged the loop is left.\<close>

fun reclaim_revisions :: "string \<Rightarrow> timestamp \<Rightarrow> document_revision list \<Rightarrow> cleanup_state \<Rightarrow> doc_error + cleanup_state" where
  "reclaim_revisions task_id now [] st = Inr st"
| "reclaim_revisions task_id now (r # rs) st =
     (let db = cs_db st; doc = rv_document_id r in
      if \<not> document_has_active_revision db doc \<and> \<not> has_live_upload_for_document db doc task_id now
      then and_then (purge_documents_bulk db [doc]) (\<lambda>db'.
        Inr (st\<lparr>cs_db := db', cs_removed_documents := cs_removed_documents st + 1\<rparr>))
      else (let parent = (case get_revision db (rv_id r) of None \<Rightarrow> None | Some r' \<Rightarrow> rv_parent_id r');
                db1 = (case get_document False db doc of None \<Rightarrow> db
                  | Some d \<Rightarrow> if nr_current_revision_id d = Some (rv_id r)
                      then set_row doc (\<lambda>n. n\<lparr>nr_current_revision_id := parent\<rparr>) db else db)
            in and_then (delete_revision_and_unreferenced_file db1 r) (\<lambda>db2.
                 reclaim_revisions task_id now rs
                   (st\<lparr>cs_db := db2, cs_removed_revisions := cs_removed_revisions st + 1\<rparr>))))"

definition reclaim_task :: "timestamp \<Rightarrow> string \<times> string \<times> file_task_status \<Rightarrow> cleanup_state \<Rightarrow> doc_error + cleanup_state" where
  "reclaim_task now candidate st =
     (case candidate of (task_id, file_id, original_status) \<Rightarrow>
      case expire_file_task_if_due id (ds_files (cs_db st)) task_id now of (status, files) \<Rightarrow>
        let db1 = (cs_db st)\<lparr>ds_files := files\<rparr>
        in if status \<noteq> Some EXPIRED then Inr (st\<lparr>cs_db := db1\<rparr>)
           else (let st1 = (if original_status \<noteq> EXPIRED
                     then st\<lparr>cs_db := db1, cs_expired := cs_expired st @ [task_id], cs_cancelled := cs_cancelled st @ [task_id]\<rparr>
                     else st\<lparr>cs_db := db1\<rparr>)
                 in case get_file files file_id of None \<Rightarrow> Inr st1
                    | Some f \<Rightarrow>
                        if fl_active f then Inr st1
                        else (let db2 = (case get_task files task_id of None \<Rightarrow> db1
                                | Some t \<Rightarrow> (case ft_upload_session_id t of None \<Rightarrow> db1
                                    | Some s \<Rightarrow> queue_deferred [(fl_path f, [s])] db1));
                                  claim = (\<lambda>t. ft_id t = task_id \<and> ft_status t = EXPIRED);
                                  db3 = db2\<lparr>ds_files := files\<lparr>fd_tasks := filter (\<lambda>t. \<not> claim t) (fd_tasks files)\<rparr>\<rparr>
                              in if length (filter claim (fd_tasks files)) \<noteq> 1 then Inr (st1\<lparr>cs_db := db3\<rparr>)
                                 else reclaim_revisions task_id now
                                   (filter (\<lambda>r. rv_file_id r = file_id) (ds_revisions db3))
                                   (st1\<lparr>cs_db := db3, cs_cancelled := (if task_id \<in> set (cs_cancelled st1)
                                      then cs_cancelled st1 else cs_cancelled st1 @ [task_id])\<rparr>))))"

definition reclaim_abandoned_uploads :: "doc_db \<Rightarrow> timestamp \<Rightarrow> cleanup_filter \<Rightarrow> doc_error + cleanup_state" where
  "reclaim_abandoned_uploads db now flt =
     foldM (reclaim_task now) (find_cleanup_candidates db now flt)
       \<lparr>cs_db = db, cs_expired = [], cs_cancelled = [], cs_removed_revisions = 0, cs_removed_documents = 0\<rparr>"

text \<open>A failed clean-up is logged and rolled back.\<close>

definition try_reclaim_abandoned_uploads :: "doc_db \<Rightarrow> timestamp \<Rightarrow> cleanup_filter \<Rightarrow> doc_db" where
  "try_reclaim_abandoned_uploads db now flt =
     (case reclaim_abandoned_uploads db now flt of Inl _ \<Rightarrow> db | Inr st \<Rightarrow> cs_db st)"

section \<open>Counting\<close>

lemma get_or_add_counts:
  "get_or (od_get (add_counts rows d) k) 0 = get_or (od_get d k) 0 + sum_list (map snd (filter (\<lambda>p. fst p = k) rows))"
  by (induction rows arbitrary: d) (auto simp: add_counts_def get_or_def)

lemma sum_filter_keys:
  "distinct xs \<Longrightarrow> sum_list (map snd (filter (\<lambda>p. fst p = k) (map (\<lambda>f. (f, c f :: nat)) xs))) = (if k \<in> set xs then c k else 0)"
  by (induction xs) auto

lemma get_or_fold_add:
  "get_or (od_get (fold (\<lambda>x. add_counts (g x)) xs d) k) 0 =
   get_or (od_get d k) 0 + sum_list (map (\<lambda>x. sum_list (map snd (filter (\<lambda>p. fst p = k) (g x)))) xs)"
  by (induction xs arbitrary: d) (simp_all add: get_or_add_counts)

lemma length_filter_batched:
  "distinct xs \<Longrightarrow> n > 0 \<Longrightarrow>
   sum_list (map (\<lambda>chunk. length (filter (\<lambda>r. P r \<and> key r \<in> set chunk) rs)) (batched n xs)) =
   length (filter (\<lambda>r. P r \<and> key r \<in> set xs) rs)"
proof (induction n xs rule: batched.induct)
  case (1 n xs)
  show ?case
  proof (cases "xs = []")
    case False
    have xs: "set xs = set (take n xs) \<union> set (drop n xs)" by (metis append_take_drop_id set_append)
    have "distinct (take n xs @ drop n xs)" using "1.prems"(1) by simp
    then have disj: "set (take n xs) \<inter> set (drop n xs) = {}" by (simp only: distinct_append)
    have "length (filter (\<lambda>r. P r \<and> key r \<in> set (take n xs)) rs) + length (filter (\<lambda>r. P r \<and> key r \<in> set (drop n xs)) rs) =
        length (filter (\<lambda>r. P r \<and> key r \<in> set xs) rs)"
      unfolding xs using disj by (induction rs) auto
    then show ?thesis using 1 False by (subst batched.simps) simp
  qed (simp add: batched.simps)
qed

lemma sum_batched_member:
  assumes "distinct xs" "n > 0"
  shows "sum_list (map (\<lambda>chunk. if k \<in> set chunk then c else 0) (batched n xs)) = (if k \<in> set xs then c else (0::nat))"
proof -
  have "sum_list (map (\<lambda>chunk. if k \<in> set chunk then c else 0) css) =
      c * sum_list (map (\<lambda>chunk. length (filter (\<lambda>r. True \<and> r \<in> set chunk) [k])) css)" for css
    by (induction css) (auto simp: distrib_left)
  then show ?thesis using length_filter_batched[OF assms, of "\<lambda>_. True" "\<lambda>x. x" "[k]"] by simp
qed

lemma QUERY_CHUNK_SIZE_pos: "QUERY_CHUNK_SIZE > 0"
  by (simp add: QUERY_CHUNK_SIZE_def)

lemma count_file_references_get:
  assumes "distinct file_ids"
  shows "get_or (od_get (count_file_references db file_ids) f) 0 = (if f \<in> set file_ids then total_references db f else 0)"
proof -
  have chunk: "sum_list (map snd (filter (\<lambda>p. fst p = f) (count_chunk db chunk))) =
      (if f \<in> set chunk then total_references db f else 0)" for chunk
    unfolding count_chunk_def by (subst sum_filter_keys) auto
  show ?thesis
    unfolding count_file_references_def get_or_fold_add chunk sum_batched_member[OF assms QUERY_CHUNK_SIZE_pos]
    by (simp add: get_or_def)
qed

lemma excluded_counts_get:
  assumes "distinct file_ids" "distinct docs" "n > 0"
  shows "get_or (od_get (fold (\<lambda>f_chunk. fold (\<lambda>e_chunk. add_counts (excluded_chunk db f_chunk e_chunk))
      (batched n docs)) (batched QUERY_CHUNK_SIZE file_ids) []) f) 0 = (if f \<in> set file_ids then revision_count db docs f else 0)"
proof -
  have cell: "sum_list (map snd (filter (\<lambda>p. fst p = f) (excluded_chunk db fc ec))) =
      (if f \<in> set fc then revision_count db ec f else 0)" for fc ec
    unfolding excluded_chunk_def by (subst sum_filter_keys) auto
  have row: "sum_list (map (\<lambda>ec. revision_count db ec f) (batched n docs)) = revision_count db docs f"
    unfolding revision_count_def by (rule length_filter_batched[OF assms(2,3)])
  have inner: "get_or (od_get (fold (\<lambda>e_chunk. add_counts (excluded_chunk db fc e_chunk)) (batched n docs) d) f) 0 =
      get_or (od_get d f) 0 + (if f \<in> set fc then revision_count db docs f else 0)" for fc d
    unfolding get_or_fold_add cell by (cases "f \<in> set fc") (simp_all add: row)
  have "get_or (od_get (fold (\<lambda>fc. fold (\<lambda>e_chunk. add_counts (excluded_chunk db fc e_chunk)) (batched n docs)) fcs d) f) 0 =
      get_or (od_get d f) 0 + sum_list (map (\<lambda>fc. if f \<in> set fc then revision_count db docs f else 0) fcs)" for fcs d
    by (induction fcs arbitrary: d) (simp_all add: inner)
  then show ?thesis
    by (simp add: sum_batched_member[OF assms(1) QUERY_CHUNK_SIZE_pos] get_or_def)
qed

text \<open>The references that remain when some documents are set aside.\<close>

definition other_references :: "doc_db \<Rightarrow> string list \<Rightarrow> string \<Rightarrow> nat" where
  "other_references db docs f =
     length (filter (\<lambda>r. rv_file_id r = f \<and> rv_document_id r \<notin> set docs) (ds_revisions db)) +
     length (filter (\<lambda>v. v = Some f) (ds_avatars db))"

lemma total_split: "total_references db f = revision_count db docs f + other_references db docs f"
proof -
  have "length (filter (\<lambda>v. v = Some f) (map (\<lambda>r. Some (rv_file_id r)) rs)) =
      length (filter (\<lambda>r. rv_file_id r = f \<and> rv_document_id r \<in> set docs) rs) +
      length (filter (\<lambda>r. rv_file_id r = f \<and> rv_document_id r \<notin> set docs) rs)" for rs
    by (induction rs) auto
  then show ?thesis by (simp add: total_references_def file_reference_columns_def revision_count_def other_references_def)
qed

lemma batch_count_other_get:
  assumes "distinct file_ids" "distinct docs" "f \<in> set file_ids"
  shows "get_or (od_get (batch_count_other_revisions db file_ids docs) f) 0 = other_references db docs f"
proof -
  have set: "od_get (fold (\<lambda>fid c. od_set fid (g fid) c) fs d) f = (if f \<in> set fs then Some (g f) else od_get d f)"
    for g :: "string \<Rightarrow> nat" and fs d by (induction fs arbitrary: d) auto
  have "max 1 (MAX_PARAM_SIZE - QUERY_CHUNK_SIZE) > (0::nat)" by simp
  from excluded_counts_get[OF assms(1,2) this, of db f] count_file_references_get[OF assms(1), of db f]
    total_split[of db f docs] assms(3)
  show ?thesis by (auto simp: batch_count_other_revisions_def Let_def set get_or_def)
qed

section \<open>Removing the rules of documents\<close>

lemma foldM_total_inv:
  "(\<And>x s. x \<in> set xs \<Longrightarrow> I s \<Longrightarrow> \<exists>t. f x s = Inr t \<and> I t) \<Longrightarrow> I s \<Longrightarrow> \<exists>t. foldM f xs s = Inr t \<and> I t"
proof (induction xs arbitrary: s)
  case (Cons x xs)
  obtain t where t: "f x s = Inr t" "I t" using Cons.prems(1)[of x s] Cons.prems(2) by auto
  then show ?case using Cons.IH[of t] Cons.prems by simp
qed simp

text \<open>A node points only to rule sets that were made for it.\<close>

definition own_rules :: "access_db \<Rightarrow> bool" where
  "own_rules db \<longleftrightarrow> (\<forall>n \<in> set (db_nodes db). \<forall>s \<in> set (db_rule_sets db). nd_rule_set_id n = Some (rs_id s) \<longrightarrow> rs_node_id s = nd_id n)"

definition node_keys :: "access_db \<Rightarrow> (string \<times> string) list" where
  "node_keys db = map (\<lambda>n. (nd_type n, nd_id n)) (db_nodes db)"

lemma delete_chunk_total:
  assumes own: "own_rules db" and known: "\<forall>i \<in> set chunk. (tt, i) \<in> set (node_keys db)"
  shows "\<exists>db'. delete_chunk tt chunk db = Inr db' \<and> own_rules db' \<and> node_keys db' = node_keys db"
proof -
  let ?ids = "map rs_id (filter (\<lambda>s. rs_node_id s \<in> set chunk) (db_rule_sets db))"
  let ?d = "update_nodes (\<lambda>n. nd_id n \<in> set chunk) (\<lambda>n. n\<lparr>nd_rule_set_id := None\<rparr>) db"
  have matched: "set (map nd_id (filter (\<lambda>n. nd_id n \<in> set chunk \<and> nd_type n = tt) (db_nodes db))) = set chunk"
    using known by (auto simp: node_keys_def)
  have "\<not> list_ex (\<lambda>n. case nd_rule_set_id n of None \<Rightarrow> False
      | Some i \<Rightarrow> i \<in> set (map rs_id (filter (\<lambda>s. rs_id s \<in> set ?ids) (db_rule_sets ?d)))) (db_nodes ?d)"
    using own by (fastforce simp: list_ex_iff update_nodes_def own_rules_def split: option.splits if_splits)
  then have "\<exists>db'. delete_rule_sets (\<lambda>s. rs_id s \<in> set ?ids) ?d = Inr db' \<and> db_nodes db' = db_nodes ?d \<and>
      set (db_rule_sets db') \<subseteq> set (db_rule_sets db)"
    by (simp only: delete_rule_sets_def Let_def if_False) (auto simp: update_nodes_def)
  then obtain db' where db': "delete_rule_sets (\<lambda>s. rs_id s \<in> set ?ids) ?d = Inr db'" "db_nodes db' = db_nodes ?d"
    "set (db_rule_sets db') \<subseteq> set (db_rule_sets db)" by blast
  have "own_rules db'" using own db'(2,3) by (fastforce simp: own_rules_def update_nodes_def split: if_splits)
  moreover have "node_keys db' = node_keys db" using db'(2) by (simp add: node_keys_def update_nodes_def)
  ultimately show ?thesis using db'(1) own matched by (auto simp only: delete_chunk_def Let_def if_False if_True split: if_splits)
qed

lemma set_od_set: "set (od_set k v d) \<subseteq> insert (k, v) (set d)"
  by (induction d) auto

lemma group_targets_from:
  "group_targets ts d = Inr r \<Longrightarrow> (tt, ids) \<in> set r \<Longrightarrow> i \<in> set ids \<Longrightarrow>
   (tt, i) \<in> set ts \<or> (\<exists>ids'. (tt, ids') \<in> set d \<and> i \<in> set ids')"
proof (induction ts d rule: group_targets.induct)
  case (2 t tid rest d)
  have ids: "(t, get_or (od_get d t) []) \<in> set d \<or> get_or (od_get d t) [] = []"
    by (cases "od_get d t") (auto simp: get_or_def dest: map_of_SomeD)
  let ?v = "if tid \<in> set (get_or (od_get d t) []) then get_or (od_get d t) [] else get_or (od_get d t) [] @ [tid]"
  have new: "(tt, i) \<in> set ((t, tid) # rest) \<or> (\<exists>ids'. (tt, ids') \<in> set d \<and> i \<in> set ids')"
    if "(tt, ids') \<in> set (od_set t ?v d)" "i \<in> set ids'" for ids'
  proof -
    have "(tt, ids') = (t, ?v) \<or> (tt, ids') \<in> set d" using set_od_set[of t ?v d] that(1) by blast
    then show ?thesis
    proof
      assume eq: "(tt, ids') = (t, ?v)"
      then have "i = tid \<or> i \<in> set (get_or (od_get d t) [])" using that(2) by (auto split: if_splits)
      then show ?thesis using ids eq by auto
    qed (use that(2) in blast)
  qed
  show ?case
  proof (cases "tid = ''''")
    case True
    then show ?thesis using 2 by (auto split: if_splits)
  next
    case False
    have t: "\<not> (t \<noteq> ''document'' \<and> t \<noteq> ''directory'')" using "2.prems"(1) by (auto split: if_splits)
    then have "group_targets rest (od_set t ?v d) = Inr r" using "2.prems"(1) False by (simp add: Let_def split: if_splits)
    from "2.IH"(2)[OF t False refl this "2.prems"(2,3)] new show ?thesis by auto
  qed
qed auto

lemma delete_rules_total:
  assumes own: "own_rules db" and known: "\<forall>p \<in> set targets. p \<in> set (node_keys db)"
    and types: "\<forall>p \<in> set targets. fst p = ''document'' \<or> fst p = ''directory''"
  shows "\<exists>db'. delete_compiled_access_rules_for_targets targets db = Inr db' \<and> own_rules db' \<and> node_keys db' = node_keys db"
proof -
  obtain by_type where g: "group_targets targets [] = Inr by_type" using group_targets_ok[OF types] by blast
  let ?I = "\<lambda>d. own_rules d \<and> node_keys d = node_keys db"
  have "\<exists>t. foldM (\<lambda>(tt, ids). foldM (delete_chunk tt) (batched QUERY_CHUNK_SIZE ids)) by_type db = Inr t \<and> ?I t"
  proof (rule foldM_total_inv)
    fix x s assume x: "x \<in> set by_type" and I: "?I s"
    obtain tt ids where [simp]: "x = (tt, ids)" by fastforce
    have mem: "(tt, i) \<in> set (node_keys db)" if "i \<in> set ids" for i
      using group_targets_from[OF g] x that known by fastforce
    have "\<exists>t. foldM (delete_chunk tt) (batched QUERY_CHUNK_SIZE ids) s = Inr t \<and> ?I t"
    proof (rule foldM_total_inv)
      fix chunk d assume c: "chunk \<in> set (batched QUERY_CHUNK_SIZE ids)" and I: "?I d"
      have "set chunk \<subseteq> set ids" using c set_concat_batched[OF QUERY_CHUNK_SIZE_pos, of ids] by auto
      then show "\<exists>t. delete_chunk tt chunk d = Inr t \<and> ?I t" using delete_chunk_total[of d chunk tt] I mem by auto
    qed (rule I)
    then show "\<exists>t. (case x of (tt, ids) \<Rightarrow> foldM (delete_chunk tt) (batched QUERY_CHUNK_SIZE ids)) s = Inr t \<and> ?I t" by simp
  qed (simp add: own)
  then show ?thesis using g by (simp add: delete_compiled_access_rules_for_targets_def)
qed

section \<open>Purging keeps every other reference\<close>

definition store_ok :: "doc_db \<Rightarrow> bool" where
  "store_ok db \<longleftrightarrow> ids_unique db \<and> distinct (map rv_id (ds_revisions db)) \<and> distinct (map fl_id (fd_files (ds_files db))) \<and>
     (\<forall>r \<in> set (ds_revisions db). rv_file_id r \<noteq> '''' \<and> rv_file_id r \<in> fl_id ` set (fd_files (ds_files db)) \<and>
        (\<exists>n \<in> set (ds_nodes db). is_document n \<and> nd_id n = rv_document_id r)) \<and>
     (\<forall>v \<in> set (ds_avatars db). \<forall>f. v = Some f \<longrightarrow> f \<in> fl_id ` set (fd_files (ds_files db)))"

definition row_key :: "node_row \<Rightarrow> string \<times> string \<times> string option \<times> string \<times> entity_status" where
  "row_key n = (nd_type n, nd_id n, nd_parent n, nr_name n, nr_status n)"

definition revision_key :: "document_revision \<Rightarrow> string \<times> string \<times> string \<times> timestamp" where
  "revision_key r = (rv_id r, rv_document_id r, rv_file_id r, rv_created_time r)"

text \<open>A file that only the given documents use.\<close>

definition used_only_by :: "doc_db \<Rightarrow> string list \<Rightarrow> string \<Rightarrow> bool" where
  "used_only_by db docs f \<longleftrightarrow>
     list_ex (\<lambda>r. rv_file_id r = f \<and> rv_document_id r \<in> set docs) (ds_revisions db) \<and> other_references db docs f = 0"

lemma store_access_same [simp]:
  "ds_revisions (store_access adb db) = ds_revisions db" "ds_files (store_access adb db) = ds_files db"
  "ds_avatars (store_access adb db) = ds_avatars db" "ds_deferred (store_access adb db) = ds_deferred db"
  "ds_metadata (store_access adb db) = ds_metadata db"
  by (simp_all add: store_access_def)

lemma store_access_rows [simp]: "map row_key (ds_nodes (store_access adb db)) = map row_key (ds_nodes db)"
  by (simp add: store_access_def row_key_def split: option.splits)

lemma drop_revisions_rows [simp]: "map row_key (ds_nodes (drop_revisions ids db)) = map row_key (ds_nodes db)"
  by (simp add: drop_revisions_def row_key_def split: option.splits)

lemma drop_revisions_keys:
  "map revision_key (ds_revisions (drop_revisions ids db)) =
   map revision_key (filter (\<lambda>r. rv_id r \<notin> set ids) (ds_revisions db))"
  by (simp add: drop_revisions_def revision_key_def split: option.splits)

lemma keys_document:
  assumes "map row_key ns = map row_key ms"
  shows "map row_key (filter (\<lambda>n. \<not> (nd_id n \<in> D \<and> is_document n)) ns) =
    map row_key (filter (\<lambda>n. \<not> (nd_id n \<in> D \<and> is_document n)) ms)"
proof -
  have "map row_key (filter (\<lambda>n. \<not> (nd_id n \<in> D \<and> is_document n)) xs) =
      filter (\<lambda>(t, i, _). \<not> (i \<in> D \<and> t = ''document'')) (map row_key xs)" for xs
    by (induction xs) (auto simp: row_key_def is_document_def)
  then show ?thesis using assms by simp
qed

lemma other_references_keys:
  assumes "map revision_key (ds_revisions db) = map revision_key rs" "ds_avatars db = av"
  shows "total_references db f = length (filter (\<lambda>r. rv_file_id r = f) rs) + length (filter (\<lambda>v. v = Some f) av)"
proof -
  have "map (\<lambda>r. Some (rv_file_id r)) (ds_revisions db) = map (\<lambda>r. Some (rv_file_id r)) rs"
    using arg_cong[OF assms(1), of "map (\<lambda>(i, d, f, t). Some f)"] by (simp add: revision_key_def comp_def)
  then show ?thesis using assms(2)
    by (simp add: total_references_def file_reference_columns_def filter_map comp_def)
qed

lemma drop_documents_ok:
  assumes "\<not> list_ex (\<lambda>r. rv_document_id r \<in> set ids) (ds_revisions db)" "ids_unique db"
  shows "\<exists>db'. drop_documents ids db = Inr db' \<and> ds_revisions db' = ds_revisions db \<and> ds_files db' = ds_files db \<and>
    ds_avatars db' = ds_avatars db \<and> ds_deferred db' = ds_deferred db \<and>
    ds_nodes db' = filter (\<lambda>n. \<not> (nd_id n \<in> set ids \<and> is_document n)) (ds_nodes db)"
proof -
  let ?gone = "map nd_id (filter (\<lambda>n. nd_id n \<in> set ids \<and> is_document n) (ds_nodes db))"
  have "\<not> list_ex (\<lambda>r. rv_document_id r \<in> set ?gone) (ds_revisions db)" using assms(1) by (auto simp: list_ex_iff)
  moreover have "nd_id n \<in> set ?gone \<longleftrightarrow> nd_id n \<in> set ids \<and> is_document n" if "n \<in> set (ds_nodes db)" for n
    using that ids_unique_eq[OF assms(2)] by auto
  then have "filter (\<lambda>n. nd_id n \<notin> set ?gone) (ds_nodes db) = filter (\<lambda>n. \<not> (nd_id n \<in> set ids \<and> is_document n)) (ds_nodes db)"
    by (intro filter_cong) auto
  ultimately show ?thesis by (simp add: drop_documents_def Let_def)
qed

definition purged :: "doc_db \<Rightarrow> string list \<Rightarrow> doc_db \<Rightarrow> bool" where
  "purged db ids db' \<longleftrightarrow>
     map row_key (ds_nodes db') = map row_key (filter (\<lambda>n. \<not> (nd_id n \<in> set ids \<and> is_document n)) (ds_nodes db)) \<and>
     map revision_key (ds_revisions db') = map revision_key (filter (\<lambda>r. rv_document_id r \<notin> set ids) (ds_revisions db)) \<and>
     fd_files (ds_files db') = filter (\<lambda>f. \<not> used_only_by db ids (fl_id f)) (fd_files (ds_files db)) \<and>
     ds_avatars db' = ds_avatars db \<and>
     map fst (ds_deferred db') = map fst (ds_deferred db) @
       map fl_path (filter (\<lambda>f. used_only_by db ids (fl_id f)) (fd_files (ds_files db)))"

lemma row_key_ids: "map row_key ns = map row_key ms \<Longrightarrow> map nd_id ns = map nd_id ms"
proof -
  have "map nd_id xs = map (\<lambda>(a, b, c, d, e). b) (map row_key xs)" for xs by (simp add: row_key_def)
  then show "map row_key ns = map row_key ms \<Longrightarrow> map nd_id ns = map nd_id ms" by metis
qed

lemma world_keys: "node_keys (aw_db (world_of db)) = map (\<lambda>n. (nd_type n, nd_id n)) (ds_nodes db)"
  by (simp add: node_keys_def world_of_def)

lemma purge_exact:
  assumes ok: "store_ok db" and own: "own_rules (aw_db (world_of db))" and d: "distinct ids"
    and docs: "\<forall>i \<in> set ids. \<exists>n \<in> set (ds_nodes db). is_document n \<and> nd_id n = i"
  shows "\<exists>db'. purge_documents_bulk db ids = Inr db' \<and> purged db ids db'"
proof (cases "ids = []")
  case True
  then show ?thesis by (simp add: purge_documents_bulk_def purged_def used_only_by_def list_ex_iff)
next
  case False
  have "\<exists>adb. delete_compiled_access_rules_for_targets (map (Pair ''document'') ids) (aw_db (world_of db)) = Inr adb \<and>
      own_rules adb \<and> node_keys adb = node_keys (aw_db (world_of db))"
  proof (rule delete_rules_total[OF own])
    show "\<forall>p \<in> set (map (Pair ''document'') ids). p \<in> set (node_keys (aw_db (world_of db)))"
      using docs by (force simp: world_keys is_document_def)
  qed auto
  then obtain adb where adb: "delete_compiled_access_rules_for_targets (map (Pair ''document'') ids) (aw_db (world_of db)) = Inr adb"
    by blast
  define db1 where "db1 = store_access adb db"
  have keys1: "map row_key (ds_nodes db1) = map row_key (ds_nodes db)" by (simp add: db1_def)
  have same1: "ds_revisions db1 = ds_revisions db" "ds_files db1 = ds_files db" "ds_avatars db1 = ds_avatars db"
    "ds_deferred db1 = ds_deferred db" by (simp_all add: db1_def)
  have uniq: "ids_unique db'" if "map row_key (ds_nodes db') = map row_key (ds_nodes db)" for db'
    using ok row_key_ids[OF that] by (simp add: store_ok_def ids_unique_def)
  define data where "data = concat (map (\<lambda>chunk. filter (\<lambda>r. rv_document_id r \<in> set chunk) (ds_revisions db1))
              (batched QUERY_CHUNK_SIZE ids))"
  have data: "set data = {r \<in> set (ds_revisions db). rv_document_id r \<in> set ids}"
    using set_concat_batched[OF QUERY_CHUNK_SIZE_pos, of ids] by (auto simp: data_def same1)
  show ?thesis
  proof (cases "data = []")
    case True
    then have none: "\<not> list_ex (\<lambda>r. rv_document_id r \<in> set ids) (ds_revisions db)" using data by (auto simp: list_ex_iff)
    obtain db' where db': "drop_documents ids db1 = Inr db'" "ds_revisions db' = ds_revisions db1" "ds_files db' = ds_files db1"
      "ds_avatars db' = ds_avatars db1" "ds_deferred db' = ds_deferred db1"
      "ds_nodes db' = filter (\<lambda>n. \<not> (nd_id n \<in> set ids \<and> is_document n)) (ds_nodes db1)"
      using drop_documents_ok[OF none[folded same1(1)] uniq[OF keys1]] by blast
    have "purge_documents_bulk db ids = Inr db'"
      unfolding purge_documents_bulk_def adb access_def sum.case and_then_simps Let_def db1_def[symmetric] data_def[symmetric]
      using False True db'(1) by simp
    moreover have "\<not> used_only_by db ids f" for f using none by (auto simp: used_only_by_def list_ex_iff)
    moreover have "filter (\<lambda>r. rv_document_id r \<notin> set ids) (ds_revisions db) = ds_revisions db"
      using none by (auto simp: list_ex_iff filter_id_conv)
    ultimately show ?thesis
      using db' same1 keys_document[OF keys1, of "set ids"] by (auto simp: purged_def)
  next
    case ne: False
    define rev_ids where "rev_ids = map rv_id data"
    define file_ids where "file_ids = remdups (filter (\<lambda>f. f \<noteq> '''') (map rv_file_id data))"
    define del where "del = filter (\<lambda>f. get_or (od_get (batch_count_other_revisions db1 file_ids ids) f) 0 = 0) file_ids"
    define db3 where "db3 = (update_rows (\<lambda>n. is_document n \<and> nd_id n \<in> set ids) (\<lambda>n. n\<lparr>nr_current_revision_id := None\<rparr>) db1)
      \<lparr>ds_revisions := map (\<lambda>r. if rv_id r \<in> set rev_ids then r\<lparr>rv_parent_id := None\<rparr> else r) (ds_revisions db1)\<rparr>"
    define db4 where "db4 = drop_tasks_of_files del db3"
    define fs where "fs = filter (\<lambda>f. fl_id f \<in> set del) (fd_files (ds_files db4))"
    define db5 where "db5 = queue_deferred (map (\<lambda>f. (fl_path f, upload_sessions_of db3 (fl_id f))) fs) (drop_revisions rev_ids db4)"
    have rev: "rv_id r \<in> set rev_ids \<longleftrightarrow> rv_document_id r \<in> set ids" if "r \<in> set (ds_revisions db)" for r
    proof -
      have "s = r" if "s \<in> set (ds_revisions db)" "rv_id s = rv_id r" for s
        using ok \<open>r \<in> set (ds_revisions db)\<close> that by (auto simp: store_ok_def distinct_map inj_on_def)
      then show ?thesis using data that by (auto simp: rev_ids_def)
    qed
    have fileid: "f \<in> set file_ids \<longleftrightarrow> list_ex (\<lambda>r. rv_file_id r = f \<and> rv_document_id r \<in> set ids) (ds_revisions db)" for f
      using ok data by (auto simp: file_ids_def list_ex_iff store_ok_def)
    have other: "other_references db1 ids f = other_references db ids f" for f by (simp add: other_references_def same1)
    have del: "f \<in> set del \<longleftrightarrow> used_only_by db ids f" for f
      using batch_count_other_get[of file_ids ids f db1] d fileid[of f] other[of f]
      by (auto simp: del_def used_only_by_def file_ids_def)
    have files4: "fd_files (ds_files db4) = fd_files (ds_files db)"
      by (simp add: db4_def db3_def drop_tasks_of_files_def update_rows_def same1)
    have revs5: "map revision_key (ds_revisions db5) = map revision_key (filter (\<lambda>r. rv_document_id r \<notin> set ids) (ds_revisions db))"
    proof -
      have "filter (\<lambda>r. rv_id r \<notin> set rev_ids) (ds_revisions db3) = filter (\<lambda>r. rv_document_id r \<notin> set ids) (ds_revisions db)"
      proof -
        have "\<forall>r \<in> set rs. (rv_id r \<in> set rev_ids) = (rv_document_id r \<in> set ids) \<Longrightarrow>
          filter (\<lambda>r. rv_id r \<notin> set rev_ids) (map (\<lambda>r. if rv_id r \<in> set rev_ids then r\<lparr>rv_parent_id := None\<rparr> else r) rs) =
          filter (\<lambda>r. rv_document_id r \<notin> set ids) rs" for rs :: "document_revision list"
          by (induction rs) auto
        then show ?thesis using rev by (simp add: db3_def same1)
      qed
      then show ?thesis
        by (simp add: db5_def queue_deferred_def drop_revisions_keys db4_def drop_tasks_of_files_def)
    qed
    have av5: "ds_avatars db5 = ds_avatars db"
      by (simp add: db5_def queue_deferred_def drop_revisions_def db4_def db3_def drop_tasks_of_files_def update_rows_def same1)
    have rows5: "map row_key (ds_nodes db5) = map row_key (ds_nodes db)"
    proof -
      have "map row_key (ds_nodes db3) = map row_key (ds_nodes db1)"
        by (simp add: db3_def update_rows_def row_key_def)
      then show ?thesis using keys1
        by (simp add: db5_def queue_deferred_def db4_def drop_tasks_of_files_def)
    qed
    have free: "\<not> list_ex (\<lambda>f. total_references db5 f > 0) (map fl_id fs)"
      using other_references_keys[OF revs5 av5] del
      by (auto simp: list_ex_iff fs_def used_only_by_def other_references_def filter_filter conj_commute)
    define db6 where "db6 = (drop_tasks_of_files (map fl_id fs) db5)\<lparr>ds_files := (ds_files (drop_tasks_of_files (map fl_id fs) db5))
      \<lparr>fd_files := filter (\<lambda>f. fl_id f \<notin> set (map fl_id fs)) (fd_files (ds_files db5))\<rparr>\<rparr>"
    have db6: "drop_files (map fl_id fs) db5 = Inr db6" using free by (simp only: drop_files_def db6_def if_False)
    have same6: "ds_revisions db6 = ds_revisions db5" "ds_avatars db6 = ds_avatars db5" "ds_nodes db6 = ds_nodes db5"
      "ds_deferred db6 = ds_deferred db5" by (simp_all add: db6_def drop_tasks_of_files_def)
    have none: "\<not> list_ex (\<lambda>r. rv_document_id r \<in> set ids) (ds_revisions db6)"
    proof -
      have "map rv_document_id (ds_revisions db5) = map rv_document_id (filter (\<lambda>r. rv_document_id r \<notin> set ids) (ds_revisions db))"
        using arg_cong[OF revs5, of "map (\<lambda>(i, d, f, t). d)"] by (simp add: revision_key_def comp_def)
      then have "set (map rv_document_id (ds_revisions db5)) =
          set (map rv_document_id (filter (\<lambda>r. rv_document_id r \<notin> set ids) (ds_revisions db)))" by (rule arg_cong)
      then have "d \<notin> set ids" if "d \<in> rv_document_id ` set (ds_revisions db5)" for d using that by auto
      then show ?thesis using same6 by (auto simp: list_ex_iff)
    qed
    obtain db' where db': "drop_documents ids db6 = Inr db'" "ds_revisions db' = ds_revisions db6" "ds_files db' = ds_files db6"
      "ds_avatars db' = ds_avatars db6" "ds_deferred db' = ds_deferred db6"
      "ds_nodes db' = filter (\<lambda>n. \<not> (nd_id n \<in> set ids \<and> is_document n)) (ds_nodes db6)"
      using drop_documents_ok[OF none uniq] rows5 same6(3) by auto
    have "purge_documents_bulk db ids = and_then (drop_files (map fl_id fs) db5) (drop_documents ids)"
      unfolding purge_documents_bulk_def adb access_def sum.case and_then_simps Let_def db1_def[symmetric] data_def[symmetric]
      using False ne by (simp add: fs_def db5_def db4_def db3_def del_def file_ids_def rev_ids_def update_rows_def)
    then have "purge_documents_bulk db ids = Inr db'" using db6 db'(1) by simp
    moreover have "purged db ids db'"
    proof -
      have fs: "fs = filter (\<lambda>f. used_only_by db ids (fl_id f)) (fd_files (ds_files db))" by (simp add: fs_def files4 del)
      have "fl_id f \<notin> set (map fl_id fs) \<longleftrightarrow> \<not> used_only_by db ids (fl_id f)" if "f \<in> set (fd_files (ds_files db))" for f
        using that by (auto simp: fs)
      then have "fd_files (ds_files db6) = filter (\<lambda>f. \<not> used_only_by db ids (fl_id f)) (fd_files (ds_files db))"
        using files4 by (auto simp: db6_def db5_def queue_deferred_def drop_revisions_def intro!: filter_cong)
      moreover have "ds_deferred db5 = ds_deferred db @ map (\<lambda>f. (fl_path f, upload_sessions_of db3 (fl_id f))) fs"
        by (simp add: db5_def queue_deferred_def drop_revisions_def db4_def db3_def drop_tasks_of_files_def update_rows_def same1)
      ultimately show ?thesis
        using db' same6 revs5 av5 keys_document[OF rows5, of "set ids"] by (simp add: purged_def fs comp_def)
    qed
    ultimately show ?thesis by blast
  qed
qed

text \<open>What purging and dropping rows leave of the access tables.\<close>

definition access_sub :: "doc_db \<Rightarrow> doc_db \<Rightarrow> bool" where
  "access_sub db' db \<longleftrightarrow> (\<lambda>n. (nd_id n, nd_rule_set_id n)) ` set (ds_nodes db') \<subseteq> (\<lambda>n. (nd_id n, nd_rule_set_id n)) ` set (ds_nodes db) \<and>
     set (ds_rule_sets db') \<subseteq> set (ds_rule_sets db)"

lemma own_rules_world:
  "own_rules (aw_db (world_of db)) \<longleftrightarrow> (\<forall>p \<in> (\<lambda>n. (nd_id n, nd_rule_set_id n)) ` set (ds_nodes db). \<forall>s \<in> set (ds_rule_sets db).
     snd p = Some (rs_id s) \<longrightarrow> rs_node_id s = fst p)"
  by (auto simp: own_rules_def world_of_def)

lemma own_rules_mono: "own_rules (aw_db (world_of db)) \<Longrightarrow> access_sub db' db \<Longrightarrow> own_rules (aw_db (world_of db'))"
  unfolding own_rules_world access_sub_def by (meson subsetD)

lemma access_sub_refl: "access_sub db db"
  by (simp add: access_sub_def)

lemma access_sub_steps:
  "access_sub db a \<Longrightarrow> access_sub (drop_revisions ids db) a" "access_sub db a \<Longrightarrow> access_sub (drop_tasks_of_files ids db) a"
  "access_sub db a \<Longrightarrow> access_sub (queue_deferred q db) a" "access_sub db a \<Longrightarrow> access_sub (db\<lparr>ds_revisions := rs\<rparr>) a"
  "access_sub db a \<Longrightarrow> access_sub (db\<lparr>ds_files := fs\<rparr>) a"
  "access_sub db a \<Longrightarrow> access_sub (update_rows P (\<lambda>n. n\<lparr>nr_current_revision_id := c\<rparr>) db) a"
  by (simp_all add: access_sub_def drop_revisions_def drop_tasks_of_files_def queue_deferred_def update_rows_def image_image
      if_distrib[of nd_id] if_distrib[of nd_rule_set_id] option.case_distrib[of nd_id] option.case_distrib[of nd_rule_set_id]
      cong: if_cong option.case_cong)
    (auto split: option.splits if_splits)

lemma access_sub_drops:
  "drop_files ids db = Inr db' \<Longrightarrow> access_sub db a \<Longrightarrow> access_sub db' a"
  "drop_documents ids db = Inr db' \<Longrightarrow> access_sub db a \<Longrightarrow> access_sub db' a"
  by (auto simp: drop_files_def drop_documents_def Let_def split: if_splits intro!: access_sub_steps)
    (auto simp: access_sub_def)

lemma store_access_own:
  assumes "own_rules adb" "node_keys adb = node_keys (aw_db (world_of db))"
  shows "own_rules (aw_db (world_of (store_access adb db)))"
  unfolding own_rules_world
proof (intro ballI impI)
  fix p s assume p: "p \<in> (\<lambda>n. (nd_id n, nd_rule_set_id n)) ` set (ds_nodes (store_access adb db))"
    and s: "s \<in> set (ds_rule_sets (store_access adb db))" "snd p = Some (rs_id s)"
  from p obtain r where r: "r \<in> set (ds_nodes db)" and pr: "p = (nd_id r, case find (\<lambda>n. nd_id n = nd_id r) (db_nodes adb) of
      None \<Rightarrow> nd_rule_set_id r | Some n \<Rightarrow> nd_rule_set_id n)"
    by (fastforce simp: store_access_def split: option.splits)
  have "nd_id r \<in> set (map snd (node_keys adb))" using r assms(2) by (force simp: world_keys)
  then obtain n where f: "find (\<lambda>n. nd_id n = nd_id r) (db_nodes adb) = Some n"
    by (cases "find (\<lambda>n. nd_id n = nd_id r) (db_nodes adb)") (auto simp: find_None_iff node_keys_def)
  have n: "n \<in> set (db_nodes adb)" "nd_id n = nd_id r" using f by (auto simp: find_Some_iff)
  moreover have "p = (nd_id r, nd_rule_set_id n)" using pr f by simp
  ultimately show "rs_node_id s = fst p"
    using assms(1) s by (auto simp: own_rules_def store_access_def)
qed

lemma purge_own:
  assumes "purge_documents_bulk db ids = Inr db'" "own_rules (aw_db (world_of db))"
    and docs: "\<forall>i \<in> set ids. \<exists>n \<in> set (ds_nodes db). is_document n \<and> nd_id n = i"
  shows "own_rules (aw_db (world_of db'))"
proof (cases "ids = []")
  case True
  then show ?thesis using assms by (simp add: purge_documents_bulk_def)
next
  case False
  have "\<exists>adb. delete_compiled_access_rules_for_targets (map (Pair ''document'') ids) (aw_db (world_of db)) = Inr adb \<and>
      own_rules adb \<and> node_keys adb = node_keys (aw_db (world_of db))"
  proof (rule delete_rules_total[OF assms(2)])
    show "\<forall>p \<in> set (map (Pair ''document'') ids). p \<in> set (node_keys (aw_db (world_of db)))"
      using docs by (force simp: world_keys is_document_def)
  qed auto
  then obtain adb where adb: "delete_compiled_access_rules_for_targets (map (Pair ''document'') ids) (aw_db (world_of db)) = Inr adb"
    "own_rules adb" "node_keys adb = node_keys (aw_db (world_of db))" by blast
  let ?db1 = "store_access adb db"
  let ?data = "concat (map (\<lambda>chunk. filter (\<lambda>r. rv_document_id r \<in> set chunk) (ds_revisions ?db1)) (batched QUERY_CHUNK_SIZE ids))"
  have eq: "purge_documents_bulk db ids = (if ?data = [] then drop_documents ids ?db1 else Inl NoRevisions) \<or>
      (\<exists>fs db5. access_sub db5 ?db1 \<and> purge_documents_bulk db ids = and_then (drop_files fs db5) (drop_documents ids))"
  proof (cases "?data = []")
    case True
    then show ?thesis
      using False unfolding purge_documents_bulk_def adb(1) access_def sum.case and_then_simps Let_def by simp
  next
    case ne: False
    have "\<exists>fs db5. access_sub db5 ?db1 \<and> purge_documents_bulk db ids = and_then (drop_files fs db5) (drop_documents ids)"
      unfolding purge_documents_bulk_def adb(1) access_def sum.case and_then_simps Let_def if_not_P[OF False] if_not_P[OF ne]
      by (rule exI, rule exI, rule conjI[OF _ refl]) (intro access_sub_steps access_sub_refl)
    then show ?thesis by blast
  qed
  have "access_sub db' ?db1"
    using eq
  proof
    assume "purge_documents_bulk db ids = (if ?data = [] then drop_documents ids ?db1 else Inl NoRevisions)"
    then show ?thesis using assms(1) access_sub_drops(2)[OF _ access_sub_refl] by (simp split: if_splits)
  next
    assume "\<exists>fs db5. access_sub db5 ?db1 \<and> purge_documents_bulk db ids = and_then (drop_files fs db5) (drop_documents ids)"
    then show ?thesis using assms(1) access_sub_drops by (fastforce simp: and_then_Inr)
  qed
  then show ?thesis using own_rules_mono store_access_own[OF adb(2,3)] by blast
qed

section \<open>Cleaning up keeps what is in use\<close>

lemma keys_image: "map revision_key rs = map revision_key qs \<Longrightarrow> map rv_id rs = map rv_id qs"
proof -
  have "map rv_id xs = map fst (map revision_key xs)" for xs by (simp add: revision_key_def)
  then show "map revision_key rs = map revision_key qs \<Longrightarrow> map rv_id rs = map rv_id qs" by metis
qed

lemma total_pos_revision: "r \<in> set (ds_revisions db) \<Longrightarrow> total_references db (rv_file_id r) > 0"
  by (auto simp: total_references_def file_reference_columns_def filter_empty_conv)

lemma total_pos_avatar: "Some f \<in> set (ds_avatars db) \<Longrightarrow> total_references db f > 0"
  by (auto simp: total_references_def file_reference_columns_def filter_empty_conv)

text \<open>Rows may go as long as every file that still has a reference stays.\<close>

lemma store_ok_shrink:
  assumes ok: "store_ok db"
    and nodes: "map row_key (ds_nodes db') = map row_key (filter P (ds_nodes db))"
    and revs: "map revision_key (ds_revisions db') = map revision_key (filter Q (ds_revisions db))"
    and files: "fd_files (ds_files db') = filter R (fd_files (ds_files db))" and av: "ds_avatars db' = ds_avatars db"
    and keep_doc: "\<And>r n. r \<in> set (ds_revisions db) \<Longrightarrow> Q r \<Longrightarrow> n \<in> set (ds_nodes db) \<Longrightarrow> is_document n \<Longrightarrow> nd_id n = rv_document_id r \<Longrightarrow> P n"
    and keep_file: "\<And>f. f \<in> set (fd_files (ds_files db)) \<Longrightarrow> total_references db' (fl_id f) > 0 \<Longrightarrow> R f"
  shows "store_ok db'"
proof -
  have "ids_unique db'" using ok row_key_ids[OF nodes] by (simp add: store_ok_def ids_unique_def distinct_map_filter)
  moreover have "distinct (map rv_id (ds_revisions db'))"
    using ok keys_image[OF revs] by (simp add: store_ok_def distinct_map_filter)
  moreover have "distinct (map fl_id (fd_files (ds_files db')))" using ok by (simp add: store_ok_def files distinct_map_filter)
  moreover have kept: "f \<in> fl_id ` set (fd_files (ds_files db'))"
    if "f \<in> fl_id ` set (fd_files (ds_files db))" "total_references db' f > 0" for f
    using that keep_file by (auto simp: files)
  moreover have "rv_file_id r \<noteq> '''' \<and> rv_file_id r \<in> fl_id ` set (fd_files (ds_files db')) \<and>
      (\<exists>n \<in> set (ds_nodes db'). is_document n \<and> nd_id n = rv_document_id r)" if r: "r \<in> set (ds_revisions db')" for r
  proof -
    have "revision_key r \<in> set (map revision_key (filter Q (ds_revisions db)))" using r revs by (metis image_eqI set_map)
    then obtain q where q: "q \<in> set (ds_revisions db)" "Q q" "revision_key q = revision_key r" by auto
    then obtain n where n: "n \<in> set (ds_nodes db)" "is_document n" "nd_id n = rv_document_id q"
      and f: "rv_file_id q \<noteq> ''''" "rv_file_id q \<in> fl_id ` set (fd_files (ds_files db))" using ok by (auto simp: store_ok_def)
    have "row_key n \<in> set (map row_key (ds_nodes db'))" using keep_doc[OF q(1,2) n] n(1) nodes by simp
    then obtain m where "m \<in> set (ds_nodes db')" "row_key m = row_key n" by auto
    then show ?thesis
      using q(3) n f kept total_pos_revision[OF r] by (auto simp: revision_key_def row_key_def is_document_def)
  qed
  ultimately show ?thesis using ok av total_pos_avatar[of _ db'] by (auto simp: store_ok_def)
qed

lemma purged_store_ok:
  assumes "store_ok db" "purged db ids db'"
  shows "store_ok db'"
proof (rule store_ok_shrink[OF assms(1)])
  note p = assms(2)[unfolded purged_def]
  show "map row_key (ds_nodes db') = map row_key (filter (\<lambda>n. \<not> (nd_id n \<in> set ids \<and> is_document n)) (ds_nodes db))"
    "map revision_key (ds_revisions db') = map revision_key (filter (\<lambda>r. rv_document_id r \<notin> set ids) (ds_revisions db))"
    "fd_files (ds_files db') = filter (\<lambda>f. \<not> used_only_by db ids (fl_id f)) (fd_files (ds_files db))"
    "ds_avatars db' = ds_avatars db" using p by auto
  show "\<not> used_only_by db ids (fl_id f)" if "total_references db' (fl_id f) > 0" for f
    using that other_references_keys[of db' "filter (\<lambda>r. rv_document_id r \<notin> set ids) (ds_revisions db)" "ds_avatars db" "fl_id f"] p
    by (auto simp: used_only_by_def other_references_def filter_filter conj_commute)
qed auto

lemma delete_revision_exact:
  assumes ok: "store_ok db" and r: "q \<in> set (ds_revisions db)" "revision_key q = revision_key r"
  shows "\<exists>db'. delete_revision_and_unreferenced_file db r = Inr db' \<and> access_sub db' db \<and>
    map row_key (ds_nodes db') = map row_key (ds_nodes db) \<and>
    map revision_key (ds_revisions db') = map revision_key (filter (\<lambda>s. rv_id s \<noteq> rv_id r) (ds_revisions db)) \<and>
    ds_avatars db' = ds_avatars db \<and>
    fd_files (ds_files db') = filter (\<lambda>f. \<not> (fl_id f = rv_file_id r \<and> total_references db (rv_file_id r) = 1)) (fd_files (ds_files db))"
proof -
  let ?f = "rv_file_id r"
  let ?gone = "drop_revisions [rv_id r] db"
  have fid: "rv_file_id q = ?f" "rv_id q = rv_id r" using r(2) by (auto simp: revision_key_def)
  have total: "get_or (od_get (count_file_references db [?f]) ?f) 0 = total_references db ?f"
    by (simp add: count_file_references_get)
  have pos: "total_references db ?f > 0" using total_pos_revision[OF r(1)] fid by simp
  have ne: "?f \<noteq> ''''" "?f \<in> fl_id ` set (fd_files (ds_files db))" using ok r(1) unfolding store_ok_def fid(1)[symmetric] by blast+
  then obtain f where f: "get_file (ds_files db) ?f = Some f" "fl_id f = ?f"
    by (cases "get_file (ds_files db) ?f") (auto simp: get_file_def find_None_iff find_Some_iff)
  have gone: "map row_key (ds_nodes ?gone) = map row_key (ds_nodes db)" "ds_avatars ?gone = ds_avatars db"
    "map revision_key (ds_revisions ?gone) = map revision_key (filter (\<lambda>s. rv_id s \<noteq> rv_id r) (ds_revisions db))"
    "ds_files ?gone = ds_files db"
    by (simp_all add: drop_revisions_keys) (simp_all add: drop_revisions_def)
  have gsub: "access_sub ?gone db" by (rule access_sub_steps(1)[OF access_sub_refl])
  show ?thesis
  proof (cases "total_references db ?f = 1")
    case False
    then have "total_references db ?f - 1 \<noteq> 0" using pos by simp
    then have "delete_revision_and_unreferenced_file db r = Inr ?gone"
      by (simp add: delete_revision_and_unreferenced_file_def Let_def total)
    then show ?thesis using gone gsub False by simp
  next
    case True
    let ?db1 = "queue_deferred [(fl_path f, upload_sessions_of db (fl_id f))] ?gone"
    have split: "length (filter (\<lambda>s. rv_file_id s = ?f) rs) =
        length (filter (\<lambda>s. rv_file_id s = ?f) (filter (\<lambda>s. rv_id s \<noteq> rv_id r) rs)) +
        length (filter (\<lambda>s. rv_file_id s = ?f \<and> rv_id s = rv_id r) rs)" for rs
      by (induction rs) auto
    have "length (filter (\<lambda>s. rv_file_id s = ?f \<and> rv_id s = rv_id r) (ds_revisions db)) > 0"
      using r(1) fid by (auto simp: filter_empty_conv)
    moreover have "total_references ?db1 ?f = length (filter (\<lambda>s. rv_file_id s = ?f) (filter (\<lambda>s. rv_id s \<noteq> rv_id r) (ds_revisions db))) +
        length (filter (\<lambda>v. v = Some ?f) (ds_avatars db))"
      using other_references_keys[OF gone(3,2), of ?f] by (simp add: queue_deferred_def total_references_def file_reference_columns_def)
    moreover have "total_references db ?f = length (filter (\<lambda>s. rv_file_id s = ?f) (ds_revisions db)) + length (filter (\<lambda>v. v = Some ?f) (ds_avatars db))"
      by (rule other_references_keys) simp_all
    ultimately have zero: "total_references ?db1 ?f = 0" using split[of "ds_revisions db"] True by linarith
    then obtain db' where db': "drop_files [fl_id f] ?db1 = Inr db'" by (simp add: drop_files_def f(2))
    have "delete_revision_and_unreferenced_file db r = Inr db'"
      using True ne(1) f db' by (simp add: delete_revision_and_unreferenced_file_def Let_def total)
    moreover have "access_sub db' db"
      by (rule access_sub_drops(1)[OF db']) (intro access_sub_steps access_sub_refl)
    ultimately show ?thesis
      using db' gone True f(2)
      by (auto simp: drop_files_def drop_tasks_of_files_def queue_deferred_def split: if_splits intro!: filter_cong)
  qed
qed

text \<open>A later state of the store that has lost nothing of what was active at the start.\<close>

definition spares_active :: "doc_db \<Rightarrow> doc_db \<Rightarrow> bool" where
  "spares_active db0 db \<longleftrightarrow> store_ok db \<and> own_rules (aw_db (world_of db)) \<and>
     set (fd_files (ds_files db)) \<subseteq> set (fd_files (ds_files db0)) \<and>
     (\<forall>f \<in> set (fd_files (ds_files db0)). fl_active f \<longrightarrow> f \<in> set (fd_files (ds_files db))) \<and>
     (\<forall>r \<in> set (ds_revisions db0). revision_active db0 r \<longrightarrow> revision_key r \<in> revision_key ` set (ds_revisions db))"

lemma find_unique: "distinct (map key xs) \<Longrightarrow> find (\<lambda>x. key x = i) xs = Some x \<longleftrightarrow> x \<in> set xs \<and> key x = i"
  by (induction xs) (auto simp: image_iff)

lemma get_file_iff: "store_ok db \<Longrightarrow> get_file (ds_files db) i = Some f \<longleftrightarrow> f \<in> set (fd_files (ds_files db)) \<and> fl_id f = i"
  unfolding get_file_def by (rule find_unique) (simp add: store_ok_def)

lemma revision_active_iff:
  "store_ok db \<Longrightarrow> revision_active db r \<longleftrightarrow> (\<exists>f \<in> set (fd_files (ds_files db)). fl_id f = rv_file_id r \<and> fl_active f)"
  using get_file_iff[of db "rv_file_id r"] by (cases "get_file (ds_files db) (rv_file_id r)") (force simp: revision_active_def)+

lemma spares_active_revision:
  assumes "spares_active db0 db" "store_ok db0" "r \<in> set (ds_revisions db0)" "revision_active db0 r"
  obtains q where "q \<in> set (ds_revisions db)" "revision_key q = revision_key r" "revision_active db q"
proof -
  from assms(1,3,4) obtain q where q: "q \<in> set (ds_revisions db)" "revision_key r = revision_key q"
    by (auto simp: spares_active_def)
  have ok: "store_ok db" using assms(1) by (simp add: spares_active_def)
  have "revision_active db q"
    using assms(1,4) q(2) revision_active_iff[OF assms(2)] revision_active_iff[OF ok]
    by (auto simp: spares_active_def revision_key_def)
  then show ?thesis using that q by metis
qed

lemma spares_intro:
  assumes "spares_active db0 db" "store_ok db0" "store_ok db'" "own_rules (aw_db (world_of db'))"
    and files: "fd_files (ds_files db') = filter R (fd_files (ds_files db))"
      "\<And>f. f \<in> set (fd_files (ds_files db)) \<Longrightarrow> fl_active f \<Longrightarrow> R f"
    and revs: "map revision_key (ds_revisions db') = map revision_key (filter Q (ds_revisions db))"
      "\<And>r. r \<in> set (ds_revisions db) \<Longrightarrow> revision_active db r \<Longrightarrow> Q r"
  shows "spares_active db0 db'"
proof -
  have "revision_key r \<in> revision_key ` set (ds_revisions db')" if r: "r \<in> set (ds_revisions db0)" "revision_active db0 r" for r
  proof -
    obtain q where q: "q \<in> set (ds_revisions db)" "revision_key q = revision_key r" "revision_active db q"
      by (rule spares_active_revision[OF assms(1,2) r])
    then have "q \<in> set (filter Q (ds_revisions db))" using revs(2) by simp
    then have "revision_key r \<in> set (map revision_key (filter Q (ds_revisions db)))" using q(2) by (metis image_eqI set_map)
    then show ?thesis using revs(1) by (metis set_map)
  qed
  then show ?thesis using assms(1,3,4) files by (auto simp: spares_active_def)
qed

lemma reclaim_purge:
  assumes sp: "spares_active db0 db" "store_ok db0" and doc: "\<exists>n \<in> set (ds_nodes db). is_document n \<and> nd_id n = doc"
    and none: "\<not> document_has_active_revision db doc"
  shows "\<exists>db'. purge_documents_bulk db [doc] = Inr db' \<and> spares_active db0 db'"
proof -
  have ok: "store_ok db" and own: "own_rules (aw_db (world_of db))" using sp(1) by (auto simp: spares_active_def)
  obtain db' where db': "purge_documents_bulk db [doc] = Inr db'" and p: "purged db [doc] db'"
    using purge_exact[OF ok own, of "[doc]"] doc by auto
  have "spares_active db0 db'"
  proof (rule spares_intro[OF sp purged_store_ok[OF ok p] purge_own[OF db' own]])
    show "fd_files (ds_files db') = filter (\<lambda>f. \<not> used_only_by db [doc] (fl_id f)) (fd_files (ds_files db))"
      "map revision_key (ds_revisions db') = map revision_key (filter (\<lambda>r. rv_document_id r \<notin> set [doc]) (ds_revisions db))"
      using p by (auto simp: purged_def)
    show "\<not> used_only_by db [doc] (fl_id f)" if "f \<in> set (fd_files (ds_files db))" "fl_active f" for f
      using that none revision_active_iff[OF ok] by (fastforce simp: used_only_by_def list_ex_iff document_has_active_revision_def)
    show "rv_document_id r \<notin> set [doc]" if "r \<in> set (ds_revisions db)" "revision_active db r" for r
      using that none by (auto simp: document_has_active_revision_def list_ex_iff)
  qed (use doc in simp)
  then show ?thesis using db' by blast
qed

lemma reclaim_delete:
  assumes sp: "spares_active db0 db" "store_ok db0"
    and q: "q \<in> set (ds_revisions db)" "revision_key q = revision_key r"
    and inact: "\<forall>f \<in> set (fd_files (ds_files db)). fl_id f = rv_file_id r \<longrightarrow> \<not> fl_active f"
    and db1: "map row_key (ds_nodes db1) = map row_key (ds_nodes db)" "ds_revisions db1 = ds_revisions db"
      "ds_files db1 = ds_files db" "ds_avatars db1 = ds_avatars db" "access_sub db1 db"
  shows "\<exists>db2. delete_revision_and_unreferenced_file db1 r = Inr db2 \<and> spares_active db0 db2 \<and>
    map revision_key (ds_revisions db2) = map revision_key (filter (\<lambda>s. rv_id s \<noteq> rv_id r) (ds_revisions db)) \<and>
    set (fd_files (ds_files db2)) \<subseteq> set (fd_files (ds_files db))"
proof -
  have ok: "store_ok db" and own: "own_rules (aw_db (world_of db))" using sp(1) by (auto simp: spares_active_def)
  have ok1: "store_ok db1"
    by (rule store_ok_shrink[OF ok, where P = "\<lambda>_. True" and Q = "\<lambda>_. True" and R = "\<lambda>_. True"]) (simp_all add: db1)
  obtain db2 where db2: "delete_revision_and_unreferenced_file db1 r = Inr db2" "access_sub db2 db1"
    "map row_key (ds_nodes db2) = map row_key (ds_nodes db1)"
    "map revision_key (ds_revisions db2) = map revision_key (filter (\<lambda>s. rv_id s \<noteq> rv_id r) (ds_revisions db1))"
    "ds_avatars db2 = ds_avatars db1"
    "fd_files (ds_files db2) = filter (\<lambda>f. \<not> (fl_id f = rv_file_id r \<and> total_references db1 (rv_file_id r) = 1)) (fd_files (ds_files db1))"
    using delete_revision_exact[OF ok1, of q r] q db1(2) by auto
  have ok2: "store_ok db2"
  proof (rule store_ok_shrink[OF ok1, where P = "\<lambda>_. True", OF _ db2(4,6,5)])
    show "\<not> (fl_id f = rv_file_id r \<and> total_references db1 (rv_file_id r) = 1)" if "total_references db2 (fl_id f) > 0" for f
    proof
      assume a: "fl_id f = rv_file_id r \<and> total_references db1 (rv_file_id r) = 1"
      have "total_references db2 (rv_file_id r) = length (filter (\<lambda>s. rv_file_id s = rv_file_id r)
          (filter (\<lambda>s. rv_id s \<noteq> rv_id r) (ds_revisions db1))) + length (filter (\<lambda>v. v = Some (rv_file_id r)) (ds_avatars db1))"
        by (rule other_references_keys[OF db2(4,5)])
      moreover have "total_references db1 (rv_file_id r) = length (filter (\<lambda>s. rv_file_id s = rv_file_id r) (ds_revisions db1)) +
          length (filter (\<lambda>v. v = Some (rv_file_id r)) (ds_avatars db1))" by (rule other_references_keys) simp_all
      moreover have "length (filter (\<lambda>s. rv_file_id s = rv_file_id r) (filter (\<lambda>s. rv_id s \<noteq> rv_id r) (ds_revisions db1))) <
          length (filter (\<lambda>s. rv_file_id s = rv_file_id r) (ds_revisions db1))"
      proof -
        have q': "q \<in> set (filter (\<lambda>s. rv_file_id s = rv_file_id r) (ds_revisions db1))" "\<not> rv_id q \<noteq> rv_id r"
          using q db1(2) by (auto simp: revision_key_def)
        from length_filter_less[of q _ "\<lambda>s. rv_id s \<noteq> rv_id r", OF q'] show ?thesis by (simp add: filter_filter conj_commute)
      qed
      moreover have "total_references db1 (rv_file_id r) = 1" "total_references db2 (rv_file_id r) > 0" using that a by auto
      ultimately show False by linarith
    qed
  qed (use db2(3) in simp_all)
  have "spares_active db0 db2"
  proof (rule spares_intro[OF sp ok2 own_rules_mono[OF own_rules_mono[OF own db1(5)] db2(2)] db2(6)[unfolded db1(3)] _ db2(4)[unfolded db1(2)]])
    show "\<not> (fl_id f = rv_file_id r \<and> total_references db1 (rv_file_id r) = 1)"
      if "f \<in> set (fd_files (ds_files db))" "fl_active f" for f using that inact by blast
    show "rv_id s \<noteq> rv_id r" if "s \<in> set (ds_revisions db)" "revision_active db s" for s
    proof
      assume "rv_id s = rv_id r"
      then have "s = q" using ok q that(1) by (auto simp: store_ok_def revision_key_def distinct_map inj_on_def)
      then show False using that(2) inact q(2) revision_active_iff[OF ok] by (auto simp: revision_key_def)
    qed
  qed
  then show ?thesis using db2 db1 by auto
qed

lemma reclaim_revisions_ok:
  assumes ok0: "store_ok db0"
  shows "spares_active db0 (cs_db st) \<Longrightarrow> \<forall>r \<in> set rs. \<exists>q \<in> set (ds_revisions (cs_db st)). revision_key q = revision_key r \<Longrightarrow>
    distinct (map rv_id rs) \<Longrightarrow>
    \<forall>r \<in> set rs. \<forall>f \<in> set (fd_files (ds_files (cs_db st))). fl_id f = rv_file_id r \<longrightarrow> \<not> fl_active f \<Longrightarrow>
    \<exists>st'. reclaim_revisions task_id now rs st = Inr st' \<and> spares_active db0 (cs_db st')"
proof (induction rs arbitrary: st)
  case (Cons r rs)
  let ?db = "cs_db st" and ?doc = "rv_document_id r"
  from Cons.prems(2) obtain q where q: "q \<in> set (ds_revisions ?db)" "revision_key q = revision_key r" by auto
  have ok: "store_ok ?db" using Cons.prems(1) by (simp add: spares_active_def)
  show ?case
  proof (cases "\<not> document_has_active_revision ?db ?doc \<and> \<not> has_live_upload_for_document ?db ?doc task_id now")
    case True
    have "rv_document_id q = ?doc" using q(2) by (simp add: revision_key_def)
    then have "\<exists>n \<in> set (ds_nodes ?db). is_document n \<and> nd_id n = ?doc" using ok q(1) unfolding store_ok_def by metis
    then obtain db' where "purge_documents_bulk ?db [?doc] = Inr db'" "spares_active db0 db'"
      using reclaim_purge[OF Cons.prems(1) ok0] True by blast
    then show ?thesis using True by (simp add: Let_def)
  next
    case False
    let ?parent = "case get_revision ?db (rv_id r) of None \<Rightarrow> None | Some r' \<Rightarrow> rv_parent_id r'"
    define db1 where "db1 = (case get_document False ?db ?doc of None \<Rightarrow> ?db
      | Some d \<Rightarrow> if nr_current_revision_id d = Some (rv_id r)
          then set_row ?doc (\<lambda>n. n\<lparr>nr_current_revision_id := ?parent\<rparr>) ?db else ?db)"
    have row: "map row_key (ds_nodes (set_row i (\<lambda>n. n\<lparr>nr_current_revision_id := c\<rparr>) d)) = map row_key (ds_nodes d)" for i c d
      by (simp add: set_row_def update_rows_def row_key_def)
    have db1: "map row_key (ds_nodes db1) = map row_key (ds_nodes ?db)" "ds_revisions db1 = ds_revisions ?db"
      "ds_files db1 = ds_files ?db" "ds_avatars db1 = ds_avatars ?db"
      unfolding db1_def by (auto simp: row split: option.splits) (auto simp: set_row_def update_rows_def)
    have sub: "access_sub db1 ?db"
      unfolding db1_def set_row_def by (auto split: option.splits intro!: access_sub_steps access_sub_refl)
    obtain db2 where db2: "delete_revision_and_unreferenced_file db1 r = Inr db2" "spares_active db0 db2"
      "map revision_key (ds_revisions db2) = map revision_key (filter (\<lambda>s. rv_id s \<noteq> rv_id r) (ds_revisions ?db))"
      "set (fd_files (ds_files db2)) \<subseteq> set (fd_files (ds_files ?db))"
      using reclaim_delete[OF Cons.prems(1) ok0 q _ db1 sub] Cons.prems(4) by auto
    let ?st = "st\<lparr>cs_db := db2, cs_removed_revisions := cs_removed_revisions st + 1\<rparr>"
    have "\<exists>st'. reclaim_revisions task_id now rs ?st = Inr st' \<and> spares_active db0 (cs_db st')"
    proof (rule Cons.IH)
      show "\<forall>s \<in> set rs. \<exists>q \<in> set (ds_revisions (cs_db ?st)). revision_key q = revision_key s"
      proof
        fix s assume s: "s \<in> set rs"
        then obtain p where p: "p \<in> set (ds_revisions ?db)" "revision_key p = revision_key s" using Cons.prems(2) by auto
        have "rv_id s \<noteq> rv_id r" using s Cons.prems(3) by (metis distinct.simps(2) image_eqI list.simps(9) set_map)
        then have "p \<in> set (filter (\<lambda>s. rv_id s \<noteq> rv_id r) (ds_revisions ?db))" using p by (auto simp: revision_key_def)
        then have "revision_key s \<in> set (map revision_key (ds_revisions db2))" unfolding db2(3) using p(2) by (metis image_eqI set_map)
        then show "\<exists>q \<in> set (ds_revisions (cs_db ?st)). revision_key q = revision_key s" by auto
      qed
    qed (use db2 Cons.prems in auto)
    then show ?thesis using db2(1)
      by (simp only: reclaim_revisions.simps Let_def db1_def[symmetric] if_not_P[OF False] and_then_simps)
  qed
qed simp

lemma expire_files: "expire_file_task_if_due id fd task_id now = (status, fd') \<Longrightarrow> fd_files fd' = fd_files fd"
  by (auto simp: expire_file_task_if_due_def update_tasks_def split: option.splits if_splits)

lemma spares_tasks:
  assumes "spares_active db0 db" "store_ok db0" "fd_files files = fd_files (ds_files db)"
  shows "spares_active db0 (db\<lparr>ds_files := files, ds_deferred := q\<rparr>)"
proof -
  have ok: "store_ok db" and own: "own_rules (aw_db (world_of db))" using assms(1) by (auto simp: spares_active_def)
  let ?d = "db\<lparr>ds_files := files, ds_deferred := q\<rparr>"
  have "store_ok ?d"
    by (rule store_ok_shrink[OF ok, where P = "\<lambda>_. True" and Q = "\<lambda>_. True" and R = "\<lambda>_. True"]) (simp_all add: assms(3))
  moreover have "own_rules (aw_db (world_of ?d))" using own by (simp add: world_of_def)
  ultimately show ?thesis
    by (rule spares_intro[OF assms(1,2), where R = "\<lambda>_. True" and Q = "\<lambda>_. True"]) (simp_all add: assms(3))
qed

lemma reclaim_task_ok:
  assumes ok0: "store_ok db0" and sp: "spares_active db0 (cs_db st)"
  shows "\<exists>st'. reclaim_task now c st = Inr st' \<and> spares_active db0 (cs_db st')"
proof -
  obtain task_id file_id orig where c: "c = (task_id, file_id, orig)" by (cases c) auto
  obtain status files where e: "expire_file_task_if_due id (ds_files (cs_db st)) task_id now = (status, files)" by fastforce
  have ff: "fd_files files = fd_files (ds_files (cs_db st))" by (rule expire_files[OF e])
  have keep: "spares_active db0 ((cs_db st)\<lparr>ds_files := f', ds_deferred := q\<rparr>)" if "fd_files f' = fd_files files" for f' q
    using spares_tasks[OF sp ok0] that ff by simp
  define db1 where "db1 = (cs_db st)\<lparr>ds_files := files\<rparr>"
  have sp1: "spares_active db0 db1" using keep[of files "ds_deferred (cs_db st)"] by (simp add: db1_def)
  define st1 where "st1 = (if orig \<noteq> EXPIRED
      then st\<lparr>cs_db := db1, cs_expired := cs_expired st @ [task_id], cs_cancelled := cs_cancelled st @ [task_id]\<rparr> else st\<lparr>cs_db := db1\<rparr>)"
  have st1: "cs_db st1 = db1" by (simp add: st1_def)
  show ?thesis
  proof (cases "status = Some EXPIRED \<and> (\<exists>f. get_file files file_id = Some f \<and> \<not> fl_active f)")
    case False
    then have "reclaim_task now c st = Inr (if status = Some EXPIRED then st1 else st\<lparr>cs_db := db1\<rparr>)"
      by (auto simp: reclaim_task_def c e st1_def db1_def Let_def split: option.splits)
    then show ?thesis using sp1 st1 by simp
  next
    case True
    then obtain f where f: "get_file files file_id = Some f" "\<not> fl_active f" and st: "status = Some EXPIRED" by blast
    define db2 where "db2 = (case get_task files task_id of None \<Rightarrow> db1
      | Some t \<Rightarrow> (case ft_upload_session_id t of None \<Rightarrow> db1 | Some s \<Rightarrow> queue_deferred [(fl_path f, [s])] db1))"
    define claim where "claim = (\<lambda>t :: file_task. ft_id t = task_id \<and> ft_status t = EXPIRED)"
    define files3 where "files3 = files\<lparr>fd_tasks := filter (\<lambda>t. \<not> claim t) (fd_tasks files)\<rparr>"
    define db3 where "db3 = db2\<lparr>ds_files := files3\<rparr>"
    have "\<exists>q. db2 = db1\<lparr>ds_deferred := q\<rparr>"
      unfolding db2_def queue_deferred_def
      by (auto split: option.splits intro: exI[of _ "ds_deferred db1"])
    then obtain q where q: "db2 = db1\<lparr>ds_deferred := q\<rparr>" ..
    have db3: "db3 = (cs_db st)\<lparr>ds_files := files3, ds_deferred := q\<rparr>" by (simp add: db3_def q db1_def)
    have sp3: "spares_active db0 db3" unfolding db3 by (rule keep) (simp add: files3_def)
    let ?rs = "filter (\<lambda>r. rv_file_id r = file_id) (ds_revisions db3)"
    let ?st = "st1\<lparr>cs_db := db3, cs_cancelled := (if task_id \<in> set (cs_cancelled st1)
      then cs_cancelled st1 else cs_cancelled st1 @ [task_id])\<rparr>"
    have eq: "reclaim_task now c st = (if length (filter claim (fd_tasks files)) \<noteq> 1 then Inr (st1\<lparr>cs_db := db3\<rparr>)
        else reclaim_revisions task_id now ?rs ?st)"
      using f st unfolding reclaim_task_def c e prod.case Let_def db3_def db2_def files3_def claim_def st1_def db1_def by simp
    have ok3: "store_ok db3" using sp3 by (simp add: spares_active_def)
    have "f' = f" if "f' \<in> set (fd_files (ds_files db3))" "fl_id f' = file_id" for f'
    proof -
      have "get_file (ds_files db3) file_id = Some f" using f(1) by (simp add: db3 files3_def get_file_def)
      moreover have "get_file (ds_files db3) file_id = Some f'" using get_file_iff[OF ok3, of file_id f'] that by blast
      ultimately show ?thesis by simp
    qed
    then have "\<exists>st'. reclaim_revisions task_id now ?rs ?st = Inr st' \<and> spares_active db0 (cs_db st')"
      using sp3 ok3 f(2)
      by (intro reclaim_revisions_ok[OF ok0]) (auto simp: store_ok_def distinct_map_filter)
    then show ?thesis using eq sp3 by (cases "length (filter claim (fd_tasks files)) \<noteq> 1") auto
  qed
qed

text \<open>C12. Cleaning up abandoned uploads always succeeds on a consistent store, leaves it consistent, and removes nothing
  that is in use: every active file keeps its row, every revision with an active file is still there, and so is its
  document.\<close>

theorem reclaim_spares_active_content:
  assumes "store_ok db" "own_rules (aw_db (world_of db))"
  shows "\<exists>st. reclaim_abandoned_uploads db now flt = Inr st \<and> spares_active db (cs_db st)"
proof -
  have "spares_active db db" using assms by (auto simp: spares_active_def)
  then show ?thesis
    unfolding reclaim_abandoned_uploads_def
    by (intro foldM_total_inv[where I = "\<lambda>st. spares_active db (cs_db st)"]) (auto intro: reclaim_task_ok[OF assms(1)])
qed

text \<open>C11. Purging documents in bulk always succeeds on a consistent store.  It removes exactly their rows and revisions
  and exactly those files that no other revision and no avatar uses, whose storage paths are queued for removal; every other
  revision keeps its document and its file.\<close>

theorem purge_documents_exact:
  assumes "store_ok db" "own_rules (aw_db (world_of db))" "distinct ids"
    and "\<forall>i \<in> set ids. \<exists>n \<in> set (ds_nodes db). is_document n \<and> nd_id n = i"
  shows "\<exists>db'. purge_documents_bulk db ids = Inr db' \<and> purged db ids db' \<and> store_ok db'"
  using purge_exact[OF assms] purged_store_ok[OF assms(1)] by blast

definition stored :: "string \<Rightarrow> bool \<Rightarrow> stored_file" where
  "stored i act = \<lparr>fl_id = i, fl_path = i @ ''.bin'', fl_sha256 = None, fl_size = None, fl_active = act\<rparr>"

definition revision :: "string \<Rightarrow> string \<Rightarrow> string \<Rightarrow> document_revision" where
  "revision i doc f = \<lparr>rv_id = i, rv_document_id = doc, rv_file_id = f, rv_created_time = 0, rv_parent_id = None\<rparr>"

definition upload :: "string \<Rightarrow> string \<Rightarrow> file_task" where
  "upload i f = \<lparr>ft_id = i, ft_file_id = f, ft_status = PENDING, ft_mode = UPLOAD, ft_start_time = 0, ft_end_time = Some 3,
     ft_issued_by_id = None, ft_encryption_key = None, ft_chunk_size = None, ft_upload_file_size = None, ft_upload_sha256 = None,
     ft_upload_session_id = None, ft_upload_checkpoint_size = None, ft_upload_checkpoint_data = None\<rparr>"

text \<open>Two documents share the file \<open>f\<close>; the upload of the third was never started.\<close>

definition shared_docs :: doc_db where
  "shared_docs = demo_docs\<lparr>ds_nodes := [plain_folder ''/'' None, plain_document ''d1'' ''/'' ''r1'', plain_document ''d2'' ''/'' ''r2'',
       plain_document ''d3'' ''/'' ''r4''],
     ds_revisions := [revision ''r1'' ''d1'' ''f'', revision ''r2'' ''d2'' ''f'', revision ''r3'' ''d2'' ''g'', revision ''r4'' ''d3'' ''h''],
     ds_files := \<lparr>fd_tasks = [upload ''t'' ''h''], fd_files = [stored ''f'' True, stored ''g'' True, stored ''h'' False]\<rparr>\<rparr>"

lemma shared_docs_ok: "store_ok shared_docs" "own_rules (aw_db (world_of shared_docs))"
  by (simp_all add: store_ok_def ids_unique_def own_rules_def world_of_def shared_docs_def demo_docs_def plain_folder_def
      plain_document_def is_document_def revision_def stored_def)

theorem purge_documents_exact_witness:
  "\<exists>db'. purge_documents_bulk shared_docs [''d2''] = Inr db' \<and> store_ok db' \<and>
     map rv_id (ds_revisions db') = [''r1'', ''r4''] \<and> map fl_id (fd_files (ds_files db')) = [''f'', ''h'']"
proof -
  have "\<exists>db'. purge_documents_bulk shared_docs [''d2''] = Inr db' \<and> purged shared_docs [''d2''] db' \<and> store_ok db'"
    by (rule purge_documents_exact[OF shared_docs_ok])
      (simp_all add: shared_docs_def plain_folder_def plain_document_def is_document_def)
  moreover have "map_sum id (\<lambda>db. (map rv_id (ds_revisions db), map fl_id (fd_files (ds_files db))))
      (purge_documents_bulk shared_docs [''d2'']) = (Inr ([''r1'', ''r4''], [''f'', ''h'']) :: doc_error + _)"
    by code_simp
  ultimately show ?thesis by auto
qed

theorem reclaim_spares_active_content_witness:
  "\<exists>st. reclaim_abandoned_uploads shared_docs 5 \<lparr>cl_document_id = None, cl_folder_id = None, cl_title = None, cl_limit = None\<rparr> = Inr st \<and>
     spares_active shared_docs (cs_db st) \<and> cs_expired st = [''t''] \<and> map nd_id (ds_nodes (cs_db st)) = [''/'', ''d1'', ''d2'']"
proof -
  let ?flt = "\<lparr>cl_document_id = None, cl_folder_id = None, cl_title = None, cl_limit = None\<rparr>"
  have "map_sum id (\<lambda>st. (cs_expired st, map nd_id (ds_nodes (cs_db st)))) (reclaim_abandoned_uploads shared_docs 5 ?flt) =
      (Inr ([''t''], [''/'', ''d1'', ''d2'']) :: doc_error + _)"
    by code_simp
  with reclaim_spares_active_content[OF shared_docs_ok, of 5 ?flt] show ?thesis by auto
qed

end
