(* ===== verification/Directories.thy ===== *)
theory Directories
  imports DocumentFiles
begin

text \<open>
  The directory requests that change the store: \<open>src/include/domains/documents/handlers/directories.py\<close>.

  A handler takes the store and gives a reply and the new store; \<open>Inl\<close> is an exception the handler does not
  catch, after which the session is rolled back.  Identifiers and tokens drawn at random are arguments, the
  clock is read once (\<open>en_now\<close>), and \<open>en_recursive\<close> is the setting that makes the access check walk up the
  hierarchy.  Messages, audit records and the publication of cancelled transfers are left out.
\<close>

section \<open>Replies\<close>

record request_env =
  en_recursive :: bool
  en_user :: user
  en_now :: timestamp

datatype reply_data =
    NoData
  | FolderEntry string string timestamp
  | ConflictEntry string "string option"
  | PartialDeletion "string list" "string list" bool "failed_item list"
  | PurgeFailures "failed_item list"
  | RestoredEntry string string
  | RulesEntry "(string, rule_data list) odict" bool

record reply =
  rp_code :: nat
  rp_data :: reply_data

abbreviation plain :: "nat \<Rightarrow> reply" where
  "plain c \<equiv> \<lparr>rp_code = c, rp_data = NoData\<rparr>"

type_synonym handled = "doc_error + (reply \<times> doc_db)"

definition permitted :: "request_env \<Rightarrow> doc_db \<Rightarrow> string \<Rightarrow> bool" where
  "permitted en db p = has_permission db (en_user en) (en_now en) p"

definition check_access_requirements_of :: "request_env \<Rightarrow> doc_db \<Rightarrow> node_row \<Rightarrow> string \<Rightarrow> doc_error + bool" where
  "check_access_requirements_of en db r t = check_access (en_recursive en) db (en_user en) (en_now en) r t"

text \<open>A statement inside \<open>node_name_mutation\<close> with the handler for \<open>NodeNameConflictError\<close>.\<close>

definition respond_to_node_name_conflict :: "conflict \<Rightarrow> reply" where
  "respond_to_node_name_conflict c = \<lparr>rp_code = 409, rp_data = ConflictEntry (cf_type c) (cf_id c)\<rparr>"

definition describe_conflict :: "request_env \<Rightarrow> doc_db \<Rightarrow> string \<Rightarrow> string \<Rightarrow> doc_error + conflict" where
  "describe_conflict en db p name =
     describe_node_name_conflict (en_recursive en) db (en_user en) (en_now en) p name"

definition or_root :: "string option \<Rightarrow> string" where
  "or_root i = (case i of None \<Rightarrow> ROOT_DIRECTORY_ID | Some i \<Rightarrow> if i = '''' then ROOT_DIRECTORY_ID else i)"

section \<open>Creating\<close>

record create_directory_request =
  cd_parent_id :: "string option"
  cd_name :: string
  cd_access_rules :: rule_docs
  cd_exists_ok :: bool
  cd_inherit_parent :: bool

definition new_folder :: "string \<Rightarrow> string \<Rightarrow> string \<Rightarrow> timestamp \<Rightarrow> node_row" where
  "new_folder i name p now = \<lparr>nd_id = i, nd_type = ''directory'', nd_parent = Some p, nd_inherit = True,
     nd_rule_set_id = None, nr_name = name, nr_status = OK, nr_operation_id = None, nr_created_time = now,
     nr_current_revision_id = None\<rparr>"

definition may_write_into :: "request_env \<Rightarrow> doc_db \<Rightarrow> node_row \<Rightarrow> string \<Rightarrow> doc_error + bool" where
  "may_write_into en db parent super_permission =
     and_then (check_access_requirements_of en db parent ''write'') (\<lambda>ok.
       Inr (ok \<or> (nd_id parent = ROOT_DIRECTORY_ID \<and> permitted en db super_permission)))"

definition create_directory ::
  "request_env \<Rightarrow> string \<Rightarrow> string \<Rightarrow> create_directory_request \<Rightarrow> doc_db \<Rightarrow> handled" where
  "create_directory en new_id rule_set_id rq db =
     (let parent_id = or_root (cd_parent_id rq); name = cd_name rq in
      if \<not> permitted en db ''create_directory'' then Inr (plain 403, db)
      else case get_folder False db parent_id of None \<Rightarrow> Inr (plain 404, db)
      | Some parent \<Rightarrow> and_then (may_write_into en db parent ''super_create_directory'') (\<lambda>ok.
          if \<not> ok then Inr (plain 403, db)
          else case checked (db\<lparr>ds_nodes := ds_nodes db @ [new_folder new_id name parent_id (en_now en)]\<rparr>) of
            Inl e \<Rightarrow> and_then (describe_conflict en db parent_id name) (\<lambda>c.
              case (cd_exists_ok rq, cf_entity c) of
                (True, Some existing) \<Rightarrow> Inr (\<lparr>rp_code = 200, rp_data =
                   FolderEntry (nd_id existing) (nr_name existing) (nr_created_time existing)\<rparr>, db)
              | _ \<Rightarrow> Inr (respond_to_node_name_conflict c, db))
          | Inr db1 \<Rightarrow> and_then (access (apply_access_rules rule_set_id None (world_of db1) ''directory'' new_id
                (cd_access_rules rq) (en_user en) (cd_inherit_parent rq) (en_recursive en) (en_now en))) (\<lambda>(w, ok).
              if ok then Inr (\<lparr>rp_code = 200, rp_data = FolderEntry new_id name (en_now en)\<rparr>, store_access (aw_db w) db1)
              else Inr (plain 403, db))))"

section \<open>Deleting\<close>

definition mark_nodes_deleted :: "string list \<Rightarrow> string \<Rightarrow> doc_db \<Rightarrow> doc_db" where
  "mark_nodes_deleted node_ids operation_id db =
     fold (\<lambda>chunk. update_rows (\<lambda>r. nd_id r \<in> set chunk)
       (\<lambda>r. r\<lparr>nr_status := DELETED, nr_operation_id := Some operation_id\<rparr>)) (batched QUERY_CHUNK_SIZE node_ids) db"

definition cancel_tasks :: "string list \<Rightarrow> doc_db \<Rightarrow> doc_db" where
  "cancel_tasks file_ids db = db\<lparr>ds_files := snd (cancel_file_tasks_for_files (ds_files db) (set file_ids))\<rparr>"

definition delete_directory :: "request_env \<Rightarrow> string \<Rightarrow> string \<Rightarrow> doc_db \<Rightarrow> handled" where
  "delete_directory en operation_id folder_id db =
     (if folder_id = ROOT_DIRECTORY_ID then Inr (plain 404, db)
      else case get_folder False db folder_id of None \<Rightarrow> Inr (plain 404, db)
      | Some f \<Rightarrow> and_then (if permitted en db ''delete_directory'' then check_access_requirements_of en db f ''write''
                                  else Inr False) (\<lambda>ok.
          if \<not> ok then Inr (plain 403, db)
          else and_then (fetch_subtree_for_deletion db folder_id (en_user en) (en_now en) False) (\<lambda>plan.
            let db1 = mark_nodes_deleted (remdups (dp_documents plan @ dp_folders plan)) operation_id db;
                db2 = cancel_tasks (find_unreachable_document_file_ids db1 (dp_documents plan)) db1;
                root_fully_deletable = (dp_protected plan = [] \<and> dp_failed plan = []);
                db3 = (if root_fully_deletable
                  then set_row folder_id (\<lambda>r. r\<lparr>nr_status := DELETED, nr_operation_id := Some operation_id\<rparr>) db2 else db2)
            in Inr (if dp_failed plan \<noteq> []
                    then \<lparr>rp_code = 207, rp_data = PartialDeletion (dp_folders plan) (dp_documents plan)
                           root_fully_deletable (dp_failed plan)\<rparr>
                    else plain 200, db3))))"

section \<open>Renaming and moving\<close>

definition rename_directory :: "request_env \<Rightarrow> string \<Rightarrow> string \<Rightarrow> doc_db \<Rightarrow> handled" where
  "rename_directory en folder_id new_name db =
     (if folder_id = ROOT_DIRECTORY_ID then Inr (plain 404, db)
      else case get_folder False db folder_id of None \<Rightarrow> Inr (plain 404, db)
      | Some f \<Rightarrow> and_then (if permitted en db ''rename_directory'' then check_access_requirements_of en db f ''write''
                                  else Inr False) (\<lambda>ok.
          if \<not> ok then Inr (plain 403, db)
          else if nr_name f = new_name then Inr (plain 400, db)
          else case checked (set_row folder_id (\<lambda>r. r\<lparr>nr_name := new_name\<rparr>) db) of
            Inl e \<Rightarrow> and_then (describe_conflict en db (or_root (nd_parent f)) new_name) (\<lambda>c.
              Inr (respond_to_node_name_conflict c, db))
          | Inr db1 \<Rightarrow> Inr (plain 200, db1)))"

definition move_directory :: "request_env \<Rightarrow> string \<Rightarrow> string option \<Rightarrow> doc_db \<Rightarrow> handled" where
  "move_directory en folder_id target_folder_id db =
     (let target_id = or_root target_folder_id in
      if folder_id = ROOT_DIRECTORY_ID then Inr (plain 404, db)
      else if \<not> permitted en db ''move'' then Inr (plain 403, db)
      else case get_folder False db folder_id of None \<Rightarrow> Inr (plain 404, db)
      | Some f \<Rightarrow> and_then (check_access_requirements_of en db f ''move'') (\<lambda>movable.
          if \<not> movable then Inr (plain 403, db)
          else case get_folder False db target_id of None \<Rightarrow> Inr (plain 404, db)
          | Some target \<Rightarrow> and_then (may_write_into en db target ''super_create_directory'') (\<lambda>ok.
              if \<not> ok then Inr (plain 403, db)
              else if nd_id target = nd_id f \<or> is_descendant_of db target f then Inr (plain 400, db)
              else case checked (set_row folder_id (\<lambda>r. r\<lparr>nd_parent := Some target_id\<rparr>) db) of
                Inl e \<Rightarrow> and_then (describe_conflict en db target_id (nr_name f)) (\<lambda>c.
                  Inr (respond_to_node_name_conflict c, db))
              | Inr db1 \<Rightarrow> Inr (plain 200, db1))))"

section \<open>Access rules\<close>

text \<open>\<open>ValueError\<close> and schema errors are answered with 400; other errors are not caught.\<close>

definition is_value_error :: "access_error \<Rightarrow> bool" where
  "is_value_error e = (case e of InvalidAccessType _ \<Rightarrow> True | NullRuleData _ \<Rightarrow> True
     | RuleSchemaViolation _ \<Rightarrow> True | InvalidTargetType _ \<Rightarrow> True | InvalidTargets _ \<Rightarrow> True | _ \<Rightarrow> False)"

definition apply_rules_to ::
  "request_env \<Rightarrow> string \<Rightarrow> string option option \<Rightarrow> string \<Rightarrow> node_row \<Rightarrow> rule_docs \<Rightarrow> bool \<Rightarrow> doc_db \<Rightarrow> handled" where
  "apply_rules_to en rule_set_id rival target_type r docs inherit_parent db =
     (case apply_access_rules rule_set_id rival (world_of db) target_type (nd_id r) docs (en_user en) inherit_parent
         (en_recursive en) (en_now en) of
        Inl e \<Rightarrow> if is_value_error e then Inr (plain 400, db) else Inl (AccessError e)
      | Inr (w, ok) \<Rightarrow> Inr (if ok then (plain 200, store_access (aw_db w) db) else (plain 403, db)))"

definition set_directory_rules ::
  "request_env \<Rightarrow> string \<Rightarrow> string option option \<Rightarrow> string \<Rightarrow> rule_docs \<Rightarrow> bool option \<Rightarrow> doc_db \<Rightarrow> handled" where
  "set_directory_rules en rule_set_id rival directory_id docs inherit_parent db =
     (if us_id (en_user en) = '''' then Inr (plain 401, db)
      else case get_folder False db directory_id of None \<Rightarrow> Inr (plain 404, db)
      | Some f \<Rightarrow>
          if \<not> permitted en db ''set_access_rules'' then Inr (plain 403, db)
          else and_then (check_access_requirements_of en db f ''manage'') (\<lambda>ok.
            if \<not> ok then Inr (plain 403, db)
            else apply_rules_to en rule_set_id rival ''directory'' f docs (get_or inherit_parent True) db))"

definition get_directory_access_rules :: "request_env \<Rightarrow> string \<Rightarrow> doc_db \<Rightarrow> handled" where
  "get_directory_access_rules en directory_id db =
     (case get_folder False db directory_id of None \<Rightarrow> Inr (plain 404, db)
      | Some f \<Rightarrow> and_then (check_access_requirements_of en db f ''read'') (\<lambda>ok.
          if \<not> ok \<or> \<not> permitted en db ''view_access_rules'' then Inr (plain 403, db)
          else Inr (\<lparr>rp_code = 200, rp_data = RulesEntry (get_access_rules_dict (aw_db (world_of db)) ''directory'' (nd_id f))
                 (nd_inherit f)\<rparr>, db)))"

section \<open>Purging\<close>

text \<open>\<open>nodes.parent_id\<close> refers to a folder with \<open>ON DELETE CASCADE\<close>: with a folder go all nodes below it.  The
  fuel is the number of rows, which bounds the depth.\<close>

fun cascade_from :: "nat \<Rightarrow> node_row list \<Rightarrow> string list \<Rightarrow> string list" where
  "cascade_from 0 ns ids = ids"
| "cascade_from (Suc n) ns ids = cascade_from n ns (ids @ map nd_id (filter (\<lambda>r. nd_id r \<notin> set ids \<and>
     (case nd_parent r of None \<Rightarrow> False | Some p \<Rightarrow> p \<in> set ids)) ns))"

text \<open>The bulk deletion of the inner folders, then \<open>session.delete(folder)\<close>: the session itself deletes the
  visible children it can load, with the revisions of the documents among them; the rest falls to the database,
  which refuses to delete a document that has revisions.\<close>

definition delete_folder_rows :: "string list \<Rightarrow> string \<Rightarrow> doc_db \<Rightarrow> doc_error + doc_db" where
  "delete_folder_rows inner_ids folder_id db =
     (let ns = ds_nodes db; n = length ns;
          first = cascade_from n ns inner_ids;
          loaded = cascade_from n (filter (\<lambda>r. nr_status r \<noteq> DELETED \<and> nd_id r \<notin> set first) ns) [folder_id];
          gone = cascade_from n ns [folder_id];
          db1 = drop_revisions (map rv_id (filter (\<lambda>r. rv_document_id r \<in> set loaded) (ds_revisions db))) db
      in if list_ex (\<lambda>r. rv_document_id r \<in> set first) (ds_revisions db) then Inl ForeignKeyViolation
         else if list_ex (\<lambda>r. rv_document_id r \<in> set gone) (ds_revisions db1) then Inl ForeignKeyViolation
         else Inr (db1\<lparr>ds_nodes := filter (\<lambda>r. nd_id r \<notin> set gone) (ds_nodes db1),
           ds_metadata := filter (\<lambda>m. dm_document_id m \<notin> set gone) (ds_metadata db1),
           ds_rules := filter (\<lambda>r. rr_rule_set_id r \<notin> rs_id ` set (filter (\<lambda>s. rs_node_id s \<in> set gone) (ds_rule_sets db1))) (ds_rules db1),
           ds_rule_sets := filter (\<lambda>s. rs_node_id s \<notin> set gone) (ds_rule_sets db1)\<rparr>))"

definition purge_directory :: "request_env \<Rightarrow> string \<Rightarrow> doc_db \<Rightarrow> handled" where
  "purge_directory en folder_id db =
     (if folder_id = ROOT_DIRECTORY_ID then Inr (plain 403, db)
      else if \<not> permitted en db ''purge'' then Inr (plain 403, db)
      else case get_folder True db folder_id of None \<Rightarrow> Inr (plain 404, db)
      | Some f \<Rightarrow>
          if nr_status f \<noteq> DELETED then Inr (plain 400, db)
          else and_then (check_access_requirements_of en db f ''write'') (\<lambda>ok.
            if \<not> ok then Inr (plain 403, db)
            else and_then (fetch_subtree_for_deletion db folder_id (en_user en) (en_now en) True) (\<lambda>plan.
              if dp_failed plan \<noteq> [] then Inr (\<lparr>rp_code = 403, rp_data = PurgeFailures (dp_failed plan)\<rparr>, db)
              else and_then (purge_documents_bulk db (dp_documents plan)) (\<lambda>db1.
                and_then (access (delete_compiled_access_rules_for_targets
                    (map (Pair ''directory'') (dp_folders plan @ [folder_id])) (aw_db (world_of db1)))) (\<lambda>adb.
                  and_then (delete_folder_rows (dp_folders plan) folder_id (store_access adb db1)) (\<lambda>db2.
                    Inr (plain 200, db2)))))))"

section \<open>Restoring\<close>

record restore_request =
  rq_target_parent :: "string option option"
  rq_new_name :: "string option"

text \<open>The bulk update of everything deleted by the same operation is one statement, the update of the folder
  another; the constraint on names is checked by each.\<close>

definition reactivate :: "string option \<Rightarrow> doc_db \<Rightarrow> doc_error + doc_db" where
  "reactivate op_id db = (case op_id of None \<Rightarrow> Inr db
     | Some op \<Rightarrow> if op = '''' then Inr db
         else checked (update_rows (\<lambda>r. nr_operation_id r = Some op \<and> nr_status r = DELETED)
                (\<lambda>r. r\<lparr>nr_status := OK, nr_operation_id := None\<rparr>) db))"

definition place_node :: "string \<Rightarrow> string \<Rightarrow> string \<Rightarrow> doc_db \<Rightarrow> doc_error + doc_db" where
  "place_node i name p db = checked (set_row i
     (\<lambda>r. r\<lparr>nr_status := OK, nr_operation_id := None, nr_name := name, nd_parent := Some p\<rparr>) db)"

definition restore_directory :: "request_env \<Rightarrow> string \<Rightarrow> restore_request \<Rightarrow> doc_db \<Rightarrow> handled" where
  "restore_directory en folder_id rq db =
     (if folder_id = ROOT_DIRECTORY_ID then Inr (plain 400, db)
      else if \<not> permitted en db ''restore'' then Inr (plain 403, db)
      else case get_folder True db folder_id of None \<Rightarrow> Inr (plain 404, db)
      | Some f \<Rightarrow>
          if nr_status f \<noteq> DELETED then Inr (plain 404, db)
          else and_then (check_access_requirements_of en db f ''write'') (\<lambda>ok.
            if \<not> ok then Inr (plain 403, db)
            else (let db_parent_id = (case rq_target_parent rq of Some t \<Rightarrow> or_root t | None \<Rightarrow> or_root (nd_parent f));
                      final_name = (case rq_new_name rq of None \<Rightarrow> nr_name f | Some n \<Rightarrow> if n = '''' then nr_name f else n)
                  in case get_folder True db db_parent_id of None \<Rightarrow> Inr (plain 409, db)
                  | Some target \<Rightarrow>
                      if nr_status target \<noteq> OK then Inr (plain 409, db)
                      else and_then (check_access_requirements_of en db target ''write'') (\<lambda>ok.
                        if \<not> ok then Inr (plain 403, db)
                        else case and_then (reactivate (nr_operation_id f) db) (place_node folder_id final_name db_parent_id) of
                          Inl e \<Rightarrow> and_then (describe_subtree_restore_name_conflict (en_recursive en) db (en_user en) (en_now en)
                              (nr_operation_id f) db_parent_id final_name) (\<lambda>c. Inr (respond_to_node_name_conflict c, db))
                        | Inr db1 \<Rightarrow> Inr (\<lparr>rp_code = 200, rp_data = RestoredEntry db_parent_id final_name\<rparr>, db1)))))"

end
