(* ===== verification/DirectoryTree.thy ===== *)
theory DirectoryTree
  imports Directories
begin

text \<open>
  What the directory requests keep of the hierarchy, and where they do not.
\<close>

section \<open>The invariant\<close>

text \<open>Every node but the root lies in a folder that exists; a folder that is not deleted lies in one that is not
  deleted either.\<close>

definition rooted :: "node_row list \<Rightarrow> node_row \<Rightarrow> bool" where
  "rooted ns r \<longleftrightarrow> (if nd_id r = ROOT_DIRECTORY_ID then nd_parent r = None \<and> is_folder r \<and> nr_status r = OK
     else (\<exists>f \<in> set ns. is_folder f \<and> nd_parent r = Some (nd_id f) \<and>
       (is_folder r \<longrightarrow> nr_status r = OK \<longrightarrow> nr_status f = OK)))"

definition tree_ok :: "doc_db \<Rightarrow> bool" where
  "tree_ok db \<longleftrightarrow> nodes_wf db \<and> names_unique (ds_nodes db) \<and> (\<exists>depth. ranked depth db) \<and>
     (\<exists>r \<in> set (ds_nodes db). nd_id r = ROOT_DIRECTORY_ID) \<and> (\<forall>r \<in> set (ds_nodes db). rooted (ds_nodes db) r)"

lemma row_key_eq: "row_key r = row_key s \<longleftrightarrow> nd_type r = nd_type s \<and> nd_id r = nd_id s \<and> nd_parent r = nd_parent s \<and>
    nr_name r = nr_name s \<and> nr_status r = nr_status s"
  by (auto simp: row_key_def)

lemma keys_partner: "map row_key ns = map row_key ms \<Longrightarrow> r \<in> set ns \<Longrightarrow> \<exists>s \<in> set ms. row_key s = row_key r"
  by (metis image_eqI image_iff list.set_map)

lemma names_unique_keys: "map row_key ns = map row_key ms \<Longrightarrow> names_unique ns = names_unique ms"
proof -
  assume k: "map row_key ns = map row_key ms"
  define slot where "slot = (\<lambda>(t :: string, i :: string, p, n, s). case (p, if s = DELETED then None else Some n) of
     (Some p, Some n) \<Rightarrow> Some (p :: string, n :: string) | _ \<Rightarrow> None)"
  have "name_slot r = slot (row_key r)" for r
    by (simp add: slot_def row_key_def name_slot_def active_name_def)
  then have "List.map_filter name_slot xs = List.map_filter slot (map row_key xs)" for xs
    by (simp add: map_filter_def filter_map comp_def)
  then have "List.map_filter name_slot ns = List.map_filter name_slot ms" using k by simp
  then show "names_unique ns = names_unique ms" by (simp add: names_unique_def)
qed

lemma rooted_keys:
  assumes "map row_key ns = map row_key ms" "row_key r = row_key s" "rooted ns r"
  shows "rooted ms s"
proof (cases "nd_id r = ROOT_DIRECTORY_ID")
  case True
  then show ?thesis using assms(2,3) by (auto simp: rooted_def row_key_eq is_folder_def)
next
  case False
  then obtain f where "f \<in> set ns" "is_folder f" "nd_parent r = Some (nd_id f)" "is_folder r \<longrightarrow> nr_status r = OK \<longrightarrow> nr_status f = OK"
    using assms(3) by (auto simp: rooted_def)
  moreover obtain g where "g \<in> set ms" "row_key g = row_key f" using keys_partner[OF assms(1)] \<open>f \<in> set ns\<close> by blast
  ultimately show ?thesis using False assms(2) by (auto simp: rooted_def row_key_eq is_folder_def)
qed

lemma tree_ok_keys:
  assumes k: "map row_key (ds_nodes db') = map row_key (ds_nodes db)" and t: "tree_ok db"
  shows "tree_ok db'"
proof -
  note partner = keys_partner[OF k]
  obtain depth where rank: "ranked depth db" using t by (auto simp: tree_ok_def)
  have "ids_unique db'" using t row_key_ids[OF k] by (simp add: tree_ok_def nodes_wf_def ids_unique_def)
  then have "nodes_wf db'" using t partner by (fastforce simp: tree_ok_def nodes_wf_def row_key_eq)
  moreover have "names_unique (ds_nodes db')" using t names_unique_keys[OF k] by (simp add: tree_ok_def)
  moreover have "ranked depth db'" using rank partner by (fastforce simp: ranked_def row_key_eq split: option.splits)
  moreover have "\<exists>r \<in> set (ds_nodes db'). nd_id r = ROOT_DIRECTORY_ID"
    using t keys_partner[OF k[symmetric]] by (fastforce simp: tree_ok_def row_key_eq)
  moreover have "rooted (ds_nodes db') r" if "r \<in> set (ds_nodes db')" for r
    using partner[OF that] t rooted_keys[OF k[symmetric]] by (auto simp: tree_ok_def)
  ultimately show ?thesis unfolding tree_ok_def by blast
qed

lemma get_folder_visible: "get_folder False db i = Some f \<Longrightarrow> f \<in> set (ds_nodes db) \<and> is_folder f \<and> nd_id f = i \<and> nr_status f \<noteq> DELETED"
  by (auto simp: get_folder_def find_Some_iff)

lemma get_folder_eq:
  assumes "ids_unique db" "f \<in> set (ds_nodes db)" "is_folder f" "nr_status f \<noteq> DELETED"
  shows "get_folder False db (nd_id f) = Some f"
proof -
  obtain g where g: "get_folder False db (nd_id f) = Some g"
    using assms(2-4) by (cases "get_folder False db (nd_id f)") (auto simp: get_folder_def find_None_iff)
  with get_folder_visible[OF g] ids_unique_eq[OF assms(1)] assms(2) show ?thesis by auto
qed

section \<open>The walk to an ancestor\<close>

text \<open>Nodes at or below a folder, deleted or not.\<close>

inductive under :: "doc_db \<Rightarrow> string \<Rightarrow> string \<Rightarrow> bool" for db f where
  under_refl: "under db f f"
| under_step: "under db f p \<Longrightarrow> r \<in> set (ds_nodes db) \<Longrightarrow> nd_parent r = Some p \<Longrightarrow> under db f (nd_id r)"

inductive_cases under_cases: "under db f i"

lemma descends_complete:
  assumes "tree_ok db" "ranked depth db" "t \<in> set (ds_nodes db)" "is_folder t" "nr_status t = OK"
    and "under db f (nd_id t)" "nd_id t \<noteq> f" "\<forall>v \<in> visited. depth (nd_id t) \<le> depth v"
  shows "descends db (nd_parent t) f visited"
  using assms(3-)
proof (induction "depth (nd_id t)" arbitrary: t visited rule: less_induct)
  case less
  have uniq: "ids_unique db" using assms(1) by (simp add: tree_ok_def nodes_wf_def)
  obtain p where p: "nd_parent t = Some p" "under db f p"
    using less.prems(4)
  proof (cases rule: under.cases)
    case (under_step p r)
    then have "r = t" using ids_unique_eq[OF uniq] less.prems(1) by metis
    with under_step that show ?thesis by blast
  qed (use less.prems(5) in simp)
  have "rooted (ds_nodes db) t" using assms(1) less.prems(1) by (simp add: tree_ok_def)
  then obtain g where g: "g \<in> set (ds_nodes db)" "is_folder g" "nd_id g = p" "nr_status g = OK"
    using p(1) less.prems(2,3) by (auto simp: rooted_def split: if_splits)
  have get: "get_folder False db p = Some g" using get_folder_eq[OF uniq g(1,2)] g(3,4) by simp
  have dp: "depth p < depth (nd_id t)" using rankedD[OF assms(2) less.prems(1) p(1)] .
  show ?case
  proof (cases "p = f")
    case False
    have "p \<notin> visited" using less.prems(6) dp by fastforce
    moreover have "descends db (nd_parent g) f (insert p visited)"
    proof (rule less.hyps)
      show "\<forall>v \<in> insert p visited. depth (nd_id g) \<le> depth v" using less.prems(6) dp g(3) by fastforce
    qed (use dp g False p(2) in auto)
    ultimately show ?thesis using p(1) get False by simp
  qed (use p(1) get in simp)
qed

lemma under_root:
  assumes "tree_ok db" "r \<in> set (ds_nodes db)"
  shows "under db ROOT_DIRECTORY_ID (nd_id r)"
proof -
  obtain depth where rank: "ranked depth db" using assms(1) by (auto simp: tree_ok_def)
  show ?thesis
    using assms(2)
  proof (induction "depth (nd_id r)" arbitrary: r rule: less_induct)
    case less
    show ?case
    proof (cases "nd_id r = ROOT_DIRECTORY_ID")
      case False
      have "rooted (ds_nodes db) r" using assms(1) less.prems by (simp add: tree_ok_def)
      then obtain f where "f \<in> set (ds_nodes db)" "nd_parent r = Some (nd_id f)" using False by (auto simp: rooted_def)
      with less.hyps[of f] rankedD[OF rank less.prems] less.prems show ?thesis by (auto intro: under_step)
    qed (simp add: under_refl)
  qed
qed

section \<open>What the handlers do to the rows\<close>

lemma tree_ok_insert:
  assumes t: "tree_ok db" and p: "get_folder False db p = Some f" and i: "nd_id x \<notin> nd_id ` set (ds_nodes db)" "nd_id x \<noteq> ''''"
    and x: "nd_parent x = Some p" "nr_status x = OK"
    and n: "names_unique (ds_nodes db @ [x])"
  shows "tree_ok (db\<lparr>ds_nodes := ds_nodes db @ [x]\<rparr>)"
proof -
  note f = get_folder_visible[OF p]
  have fok: "nr_status f = OK" using t f by (cases "nr_status f") (auto simp: tree_ok_def nodes_wf_def)
  obtain depth where rank: "ranked depth db" using t by (auto simp: tree_ok_def)
  have "ranked (depth(nd_id x := Suc (depth p))) (db\<lparr>ds_nodes := ds_nodes db @ [x]\<rparr>)"
  proof -
    have "nd_parent r \<noteq> Some (nd_id x)" if "r \<in> set (ds_nodes db)" for r
    proof -
      have "rooted (ds_nodes db) r" using t that by (simp add: tree_ok_def)
      then show ?thesis using i(1) by (auto simp: rooted_def split: if_splits)
    qed
    moreover have "p \<noteq> nd_id x" using f i(1) by (metis image_eqI)
    moreover have "nd_id r \<noteq> nd_id x" if "r \<in> set (ds_nodes db)" for r using that i(1) by (metis image_eqI)
    ultimately show ?thesis using rank x(1) by (auto simp: ranked_def split: option.splits)
  qed
  moreover have "nd_id x \<noteq> ROOT_DIRECTORY_ID" using t i(1) unfolding tree_ok_def by (metis image_eqI)
  ultimately show ?thesis
    using t f fok i x n unfolding tree_ok_def nodes_wf_def ids_unique_def
    by (auto simp: rooted_def split: if_splits)
qed

lemma tree_ok_map:
  assumes t: "tree_ok db" and nodes: "ds_nodes db' = map g (ds_nodes db)"
    and same: "\<And>r. r \<in> set (ds_nodes db) \<Longrightarrow> nd_id (g r) = nd_id r \<and> nr_status (g r) \<noteq> LOCKED"
    and names: "names_unique (ds_nodes db')" and rank: "ranked depth db'"
    and roots: "\<And>r. r \<in> set (ds_nodes db) \<Longrightarrow> rooted (map g (ds_nodes db)) (g r)"
  shows "tree_ok db'"
proof -
  have "map (nd_id \<circ> g) (ds_nodes db) = map nd_id (ds_nodes db)" using same by simp
  then have ids: "map nd_id (ds_nodes db') = map nd_id (ds_nodes db)" by (simp add: nodes)
  have "ids_unique db'" using t ids by (simp add: tree_ok_def nodes_wf_def ids_unique_def)
  then have "nodes_wf db'" using t same by (auto simp: tree_ok_def nodes_wf_def nodes)
  moreover have "\<exists>r \<in> set (ds_nodes db'). nd_id r = ROOT_DIRECTORY_ID"
    using t arg_cong[OF ids, of set] unfolding tree_ok_def set_map by (metis image_iff)
  ultimately show ?thesis using names rank roots by (auto simp: tree_ok_def nodes)
qed

lemma rooted_map:
  assumes "rooted ns r" "\<And>f. f \<in> set ns \<Longrightarrow> nd_id (g f) = nd_id f \<and> is_folder (g f) = is_folder f"
    and "nd_id r' = nd_id r" "is_folder r' = is_folder r" "nd_parent r' = nd_parent r"
    and "nd_id r = ROOT_DIRECTORY_ID \<Longrightarrow> nr_status r' = OK"
    and "\<And>f. f \<in> set ns \<Longrightarrow> is_folder f \<Longrightarrow> nd_parent r = Some (nd_id f) \<Longrightarrow> is_folder r \<Longrightarrow> nr_status r' = OK \<Longrightarrow>
      (nr_status r = OK \<longrightarrow> nr_status f = OK) \<Longrightarrow> nr_status (g f) = OK"
  shows "rooted (map g ns) r'"
proof (cases "nd_id r = ROOT_DIRECTORY_ID")
  case False
  then obtain f where "f \<in> set ns" "is_folder f" "nd_parent r = Some (nd_id f)" "is_folder r \<longrightarrow> nr_status r = OK \<longrightarrow> nr_status f = OK"
    using assms(1) by (auto simp: rooted_def)
  with assms False show ?thesis by (auto simp: rooted_def intro!: bexI[of _ f])
qed (use assms in \<open>auto simp: rooted_def\<close>)

lemma set_row_nodes: "ds_nodes (set_row i g db) = map (\<lambda>r. if nd_id r = i then g r else r) (ds_nodes db)"
  by (simp add: set_row_def update_rows_def)

lemma tree_ok_rename:
  assumes t: "tree_ok db" and n: "names_unique (ds_nodes (set_row i (\<lambda>r. r\<lparr>nr_name := name\<rparr>) db))"
  shows "tree_ok (set_row i (\<lambda>r. r\<lparr>nr_name := name\<rparr>) db)"
proof -
  obtain depth where rank: "ranked depth db" using t by (auto simp: tree_ok_def)
  let ?g = "\<lambda>r. if nd_id r = i then r\<lparr>nr_name := name\<rparr> else r"
  show ?thesis
  proof (rule tree_ok_map[OF t set_row_nodes _ n])
    show "ranked depth (set_row i (\<lambda>r. r\<lparr>nr_name := name\<rparr>) db)"
      using rank by (auto simp: ranked_def set_row_nodes split: option.splits)
    show "rooted (map ?g (ds_nodes db)) (?g r)" if r: "r \<in> set (ds_nodes db)" for r
      by (rule rooted_map[of _ r]) (use t r in \<open>auto simp: tree_ok_def rooted_def is_folder_def split: if_splits\<close>)
  qed (use t in \<open>auto simp: tree_ok_def nodes_wf_def\<close>)
qed

lemma tree_ok_move:
  assumes t: "tree_ok db" and f: "get_folder False db i = Some f" and tg: "get_folder False db p = Some target"
    and root: "i \<noteq> ROOT_DIRECTORY_ID" and clear: "nd_id target \<noteq> nd_id f" "\<not> is_descendant_of db target f"
    and n: "names_unique (ds_nodes (set_row i (\<lambda>r. r\<lparr>nd_parent := Some p\<rparr>) db))"
  shows "tree_ok (set_row i (\<lambda>r. r\<lparr>nd_parent := Some p\<rparr>) db)"
proof -
  note fi = get_folder_visible[OF f] and ti = get_folder_visible[OF tg]
  have ok: "nr_status r = OK" if "r \<in> set (ds_nodes db)" "nr_status r \<noteq> DELETED" for r
    using t that by (cases "nr_status r") (auto simp: tree_ok_def nodes_wf_def)
  obtain depth where rank: "ranked depth db" using t by (auto simp: tree_ok_def)
  have apart: "\<not> under db i p"
  proof
    assume "under db i p"
    then have "descends db (nd_parent target) i {}"
      using ti fi clear(1) ok by (intro descends_complete[OF t rank]) auto
    with clear(2) fi show False by (simp add: is_descendant_of_def)
  qed
  let ?d = "\<lambda>j. if under db i j then depth j + Suc (depth p) else depth j"
  let ?g = "\<lambda>r. if nd_id r = i then r\<lparr>nd_parent := Some p\<rparr> else r"
  show ?thesis
  proof (rule tree_ok_map[OF t set_row_nodes _ n])
    show "ranked ?d (set_row i (\<lambda>r. r\<lparr>nd_parent := Some p\<rparr>) db)"
      unfolding ranked_def set_row_nodes
    proof (rule ballI)
      fix s assume "s \<in> set (map ?g (ds_nodes db))"
      then obtain r where r: "r \<in> set (ds_nodes db)" "s = ?g r" by auto
      show "case nd_parent s of None \<Rightarrow> True | Some q \<Rightarrow> ?d q < ?d (nd_id s)"
      proof (cases "nd_id r = i")
        case True
        then show ?thesis using r(2) apart by (auto intro: under_refl)
      next
        case False
        then show ?thesis
        proof (cases "nd_parent r")
          case (Some q)
          have "under db i (nd_id r) \<longleftrightarrow> under db i q"
          proof
            assume "under db i (nd_id r)"
            then show "under db i q"
            proof (cases rule: under.cases)
              case (under_step q' r')
              then have "r' = r" using ids_unique_eq r(1) t unfolding tree_ok_def nodes_wf_def by metis
              with under_step Some show ?thesis by simp
            qed (use False in simp)
          qed (use r(1) Some in \<open>auto intro: under_step\<close>)
          with rankedD[OF rank r(1) Some] show ?thesis using r(2) False Some by simp
        qed (use r(2) in simp)
      qed
    qed
    show "rooted (map ?g (ds_nodes db)) (?g r)" if r: "r \<in> set (ds_nodes db)" for r
    proof (cases "nd_id r = i")
      case True
      have "?g target \<in> set (map ?g (ds_nodes db))" "is_folder (?g target)" "nd_id (?g target) = p" "nr_status (?g target) = OK"
        using ti ok by (auto simp: is_folder_def)
      then show ?thesis using True root unfolding rooted_def by auto
    next
      case False
      then show ?thesis by (intro rooted_map[of _ r]) (use t r in \<open>auto simp: tree_ok_def rooted_def is_folder_def\<close>)
    qed
  qed (use t in \<open>auto simp: tree_ok_def nodes_wf_def\<close>)
qed

definition marked :: "string \<Rightarrow> node_row \<Rightarrow> node_row" where
  "marked op r = r\<lparr>nr_status := DELETED, nr_operation_id := Some op\<rparr>"

lemma marked_simps [simp]:
  "nd_id (marked op r) = nd_id r" "nd_parent (marked op r) = nd_parent r" "is_folder (marked op r) = is_folder r"
  "nr_status (marked op r) = DELETED" "marked op (marked op r) = marked op r"
  by (simp_all add: marked_def is_folder_def)

lemma fold_mark:
  "ds_nodes (fold (\<lambda>chunk. update_rows (\<lambda>r. nd_id r \<in> set chunk) (marked op)) cs db) =
   map (\<lambda>r. if nd_id r \<in> set (concat cs) then marked op r else r) (ds_nodes db)"
  by (induction cs arbitrary: db) (auto simp: update_rows_def)

lemma mark_nodes_deleted_nodes:
  "ds_nodes (mark_nodes_deleted ids op db) = map (\<lambda>r. if nd_id r \<in> set ids then marked op r else r) (ds_nodes db)"
  using fold_mark[of op "batched QUERY_CHUNK_SIZE ids" db] set_concat_batched[OF QUERY_CHUNK_SIZE_pos, of ids]
  unfolding mark_nodes_deleted_def marked_def[symmetric, abs_def] by (simp only:)

lemma names_unique_sub:
  "(\<And>r. r \<in> set ns \<Longrightarrow> name_slot (g r) = name_slot r \<or> name_slot (g r) = None) \<Longrightarrow> names_unique ns \<Longrightarrow> names_unique (map g ns)"
proof (induction ns)
  case (Cons r ns)
  have sub: "set (List.map_filter name_slot (map g ns)) \<subseteq> set (List.map_filter name_slot ns)"
    using Cons.prems(1) unfolding subset_iff in_map_filter by force
  have "names_unique ns" using Cons.prems(2) by (auto simp: names_unique_def map_filter_simps split: option.splits)
  then have "names_unique (map g ns)" using Cons by simp
  then show ?case
    using Cons.prems(1)[of r] Cons.prems(2) sub
    by (auto simp: names_unique_def map_filter_simps split: option.splits)
qed (simp add: names_unique_def)

text \<open>Marking keeps the invariant when with a folder all folders inside it are marked.\<close>

lemma tree_ok_mark:
  assumes t: "tree_ok db" and nodes: "ds_nodes db' = map (\<lambda>r. if nd_id r \<in> D then marked op r else r) (ds_nodes db)"
    and root: "ROOT_DIRECTORY_ID \<notin> D"
    and closed: "\<And>r f. r \<in> set (ds_nodes db) \<Longrightarrow> f \<in> set (ds_nodes db) \<Longrightarrow> is_folder r \<Longrightarrow> is_folder f \<Longrightarrow> nr_status r = OK \<Longrightarrow>
      nd_parent r = Some (nd_id f) \<Longrightarrow> nd_id f \<in> D \<Longrightarrow> nd_id r \<in> D"
  shows "tree_ok db'"
proof -
  obtain depth where rank: "ranked depth db" using t by (auto simp: tree_ok_def)
  let ?g = "\<lambda>r. if nd_id r \<in> D then marked op r else r"
  show ?thesis
  proof (rule tree_ok_map[OF t nodes])
    show "ranked depth db'" using rank by (auto simp: ranked_def nodes split: option.splits)
    show "names_unique (ds_nodes db')"
      unfolding nodes using t
      by (intro names_unique_sub) (auto simp: tree_ok_def name_slot_def active_name_def marked_def split: option.splits)
    show "rooted (map ?g (ds_nodes db)) (?g r)" if r: "r \<in> set (ds_nodes db)" for r
    proof (rule rooted_map[of "ds_nodes db" r])
      show "nd_id r = ROOT_DIRECTORY_ID \<Longrightarrow> nr_status (?g r) = OK" using root t r by (auto simp: tree_ok_def rooted_def)
      show "nr_status (?g f) = OK" if "f \<in> set (ds_nodes db)" "is_folder f" "nd_parent r = Some (nd_id f)" "is_folder r"
        "nr_status (?g r) = OK" "nr_status r = OK \<longrightarrow> nr_status f = OK" for f
        using closed[OF r that(1,4,2) _ that(3)] that by (auto split: if_splits)
    qed (use t r in \<open>auto simp: tree_ok_def\<close>)
  qed (use t in \<open>auto simp: tree_ok_def nodes_wf_def\<close>)
qed

text \<open>What the plan of a deletion marks.\<close>

lemma plan_mark:
  assumes t: "tree_ok db" and fetch: "fetch_subtree_for_deletion db root_id u now False = Inr plan"
    and full: "full \<Longrightarrow> dp_protected plan = []" and root: "root_id \<noteq> ROOT_DIRECTORY_ID"
    and nodes: "ds_nodes db' = map (\<lambda>r. if nd_id r \<in> set (dp_documents plan) \<union> set (dp_folders plan) \<union> (if full then {root_id} else {})
      then marked op r else r) (ds_nodes db)"
  shows "tree_ok db'"
proof (rule tree_ok_mark[OF t nodes])
  have wf: "nodes_wf db" and uniq: "ids_unique db" using t by (auto simp: tree_ok_def nodes_wf_def)
  obtain sb where load: "load_subtree db root_id now False = Inr sb"
    using fetch by (auto simp: fetch_subtree_for_deletion_def and_then_Inr)
  note fs = load_subtree_folders[OF load] and pf = plan_folders[OF fetch load wf] and pd = plan_documents[OF fetch load]
  have docs: "is_document r" if "r \<in> set (ds_nodes db)" "nd_id r \<in> set (dp_documents plan)" for r
    using that pd load_subtree_documents[OF load] ids_unique_eq[OF uniq that(1)] by metis
  have apart: "\<not> is_folder r" if "is_document r" for r using that by (simp add: is_folder_def is_document_def)
  obtain rt where rt: "rt \<in> set (ds_nodes db)" "nd_id rt = ROOT_DIRECTORY_ID" using t by (auto simp: tree_ok_def)
  have rtf: "is_folder rt" "nd_parent rt = None" using t rt by (auto simp: tree_ok_def rooted_def)
  have "ROOT_DIRECTORY_ID \<notin> set (dp_folders plan)"
  proof
    assume "ROOT_DIRECTORY_ID \<in> set (dp_folders plan)"
    then obtain g where "g \<in> set (sb_folders sb)" "nd_id g = ROOT_DIRECTORY_ID" using pf(1) by (metis DiffD1 UnI1 imageE)
    then have "below db False root_id ROOT_DIRECTORY_ID" using fs[of g] by simp
    then obtain p where "ROOT_DIRECTORY_ID \<in> set (child_folder_ids db False p)" using below_last root by metis
    then obtain r where "r \<in> set (ds_nodes db)" "nd_id r = ROOT_DIRECTORY_ID" "nd_parent r = Some p"
      unfolding child_folder_iff by blast
    then show False using ids_unique_eq[OF uniq rt(1), of r] rt(2) rtf(2) by simp
  qed
  then show "ROOT_DIRECTORY_ID \<notin> set (dp_documents plan) \<union> set (dp_folders plan) \<union> (if full then {root_id} else {})"
    using docs[OF rt(1)] rt(2) rtf(1) apart root by auto
  fix r f
  assume r: "r \<in> set (ds_nodes db)" "is_folder r" "nr_status r = OK" "nd_parent r = Some (nd_id f)"
    and f: "f \<in> set (ds_nodes db)" "is_folder f"
    and D: "nd_id f \<in> set (dp_documents plan) \<union> set (dp_folders plan) \<union> (if full then {root_id} else {})"
  have child: "nd_id r \<in> set (child_folder_ids db False (nd_id f))" using r f by (auto simp: child_folder_iff)
  have "nd_id r \<in> set (dp_folders plan)"
  proof (cases "nd_id f \<in> set (dp_folders plan)")
    case True
    then obtain xs ys where "dp_folders plan = xs @ nd_id f # ys" by (meson split_list)
    with pf(4) child show ?thesis by fastforce
  next
    case False
    then have "full" "nd_id f = root_id" using D docs[OF f(1)] apart f(2) by (auto split: if_splits)
    moreover have "r \<in> set (sb_folders sb)"
      unfolding fs loadable_def using r child calculation(2) by (auto intro: below.intros)
    moreover have "nd_id r \<noteq> root_id"
    proof
      assume "nd_id r = root_id"
      then have "r = f" using ids_unique_eq[OF uniq r(1) f(1)] calculation(2) by simp
      moreover obtain depth where "ranked depth db" using t by (auto simp: tree_ok_def)
      ultimately show False using rankedD[OF _ r(1,4)] by fastforce
    qed
    ultimately show ?thesis using pf(1) full by auto
  qed
  then show "nd_id r \<in> set (dp_documents plan) \<union> set (dp_folders plan) \<union> (if full then {root_id} else {})" by simp
qed

text \<open>Removing a set of nodes together with everything in its folders keeps the invariant.\<close>

definition closed_down :: "node_row list \<Rightarrow> string set \<Rightarrow> bool" where
  "closed_down ns G \<longleftrightarrow> (\<forall>r \<in> set ns. \<forall>p \<in> G. nd_parent r = Some p \<longrightarrow> nd_id r \<in> G)"

lemma cascade_closed:
  "card (nd_id ` set ns - set ids) \<le> n \<Longrightarrow> closed_down ns (set (cascade_from n ns ids)) \<and> set ids \<subseteq> set (cascade_from n ns ids)"
proof (induction n arbitrary: ids)
  case 0
  then have "nd_id ` set ns \<subseteq> set ids" by simp
  then show ?case by (auto simp: closed_down_def)
next
  case (Suc n)
  let ?new = "map nd_id (filter (\<lambda>r. nd_id r \<notin> set ids \<and> (case nd_parent r of None \<Rightarrow> False | Some p \<Rightarrow> p \<in> set ids)) ns)"
  have "card (nd_id ` set ns - set (ids @ ?new)) \<le> n" if "?new \<noteq> []"
  proof -
    have "set (ids @ ?new) = set ids \<union> set ?new" by simp
    moreover have "set ?new \<inter> set ids = {}" by auto
    moreover have "set ?new \<subseteq> nd_id ` set ns" by auto
    ultimately show ?thesis
      using card_less_append[OF that, of "nd_id ` set ns" "set ids"] Suc.prems by simp
  qed
  with Suc.IH[of "ids @ ?new"] have step: ?case if "?new \<noteq> []" using that by simp
  have "closed_down ns (set ids)" if "?new = []"
    using that by (force simp: closed_down_def filter_empty_conv split: option.splits)
  moreover have "cascade_from n ns ids = ids" if "?new = []" for n
    using that by (induction n) auto
  ultimately show ?case using step by (cases "?new = []") auto
qed

lemma cascade_member:
  "i \<in> set (cascade_from n ns ids) \<Longrightarrow> i \<in> set ids \<or> (\<exists>r \<in> set ns. nd_id r = i \<and> nd_parent r \<noteq> None)"
  by (induction n arbitrary: ids) (fastforce split: option.splits)+

lemma cascade_full: "closed_down ns (set (cascade_from (length ns) ns ids)) \<and> set ids \<subseteq> set (cascade_from (length ns) ns ids)"
proof (rule cascade_closed)
  have "card (nd_id ` set ns - set ids) \<le> card (nd_id ` set ns)" by (intro card_mono) auto
  also have "\<dots> \<le> length ns" by (meson card_image_le card_length finite_set le_trans)
  finally show "card (nd_id ` set ns - set ids) \<le> length ns" .
qed

lemma names_unique_filter: "names_unique ns \<Longrightarrow> names_unique (filter P ns)"
  by (induction ns) (auto simp: names_unique_def map_filter_simps in_map_filter split: option.splits)

lemma tree_ok_remove:
  assumes t: "tree_ok db" and keys: "map row_key (ds_nodes db') = map row_key (filter (\<lambda>r. nd_id r \<notin> G) (ds_nodes db))"
    and closed: "\<And>r f. r \<in> set (ds_nodes db) \<Longrightarrow> f \<in> set (ds_nodes db) \<Longrightarrow> is_folder f \<Longrightarrow> nd_parent r = Some (nd_id f) \<Longrightarrow>
      nd_id f \<in> G \<Longrightarrow> nd_id r \<in> G"
    and root: "ROOT_DIRECTORY_ID \<notin> G"
  shows "tree_ok db'"
proof -
  let ?db = "db\<lparr>ds_nodes := filter (\<lambda>r. nd_id r \<notin> G) (ds_nodes db)\<rparr>"
  obtain depth where rank: "ranked depth db" using t by (auto simp: tree_ok_def)
  have "rooted (ds_nodes ?db) r" if r: "r \<in> set (ds_nodes ?db)" for r
  proof -
    have "rooted (ds_nodes db) r" using t r by (auto simp: tree_ok_def)
    then show ?thesis using r closed[of r] by (auto simp: rooted_def split: if_splits)
  qed
  moreover have "nodes_wf ?db" using t by (auto simp: tree_ok_def nodes_wf_def ids_unique_def distinct_map_filter)
  moreover have "names_unique (ds_nodes ?db)" using t names_unique_filter by (auto simp: tree_ok_def)
  moreover have "ranked depth ?db" using rank by (auto simp: ranked_def)
  ultimately have "tree_ok ?db" using t root unfolding tree_ok_def by auto
  then show ?thesis using tree_ok_keys[of db' ?db] keys by simp
qed

lemma keys_filter:
  assumes "map row_key ns = map row_key ms"
  shows "map row_key (filter (\<lambda>r. nd_id r \<notin> G) ns) = map row_key (filter (\<lambda>r. nd_id r \<notin> G) ms)"
proof -
  have "map row_key (filter (\<lambda>r. nd_id r \<notin> G) xs) = filter (\<lambda>(t, i, _). i \<notin> G) (map row_key xs)" for xs
    by (induction xs) (auto simp: row_key_def)
  then show ?thesis using assms by simp
qed

lemma drop_documents_nodes:
  "drop_documents ids db = Inr db' \<Longrightarrow> ds_nodes db' =
     filter (\<lambda>n. nd_id n \<notin> nd_id ` set (filter (\<lambda>n. nd_id n \<in> set ids \<and> is_document n) (ds_nodes db))) (ds_nodes db)"
  by (auto simp: drop_documents_def Let_def split: if_splits)

lemma document_ids_keys:
  assumes "map row_key ns = map row_key ms"
  shows "nd_id ` set (filter (\<lambda>n. nd_id n \<in> A \<and> is_document n) ns) = nd_id ` set (filter (\<lambda>n. nd_id n \<in> A \<and> is_document n) ms)"
proof -
  have "nd_id ` set (filter (\<lambda>n. nd_id n \<in> A \<and> is_document n) xs) =
      (\<lambda>(t, i, _). i) ` set (filter (\<lambda>(t, i, _). i \<in> A \<and> t = ''document'') (map row_key xs))" for xs
    by (force simp: row_key_def is_document_def)
  then show ?thesis by (simp only: assms)
qed

lemma drop_documents_rows:
  assumes "drop_documents ids db1 = Inr db'" "map row_key (ds_nodes db1) = map row_key (ds_nodes db)"
  shows "map row_key (ds_nodes db') = map row_key (filter (\<lambda>n. nd_id n \<notin>
    nd_id ` set (filter (\<lambda>n. nd_id n \<in> set ids \<and> is_document n) (ds_nodes db))) (ds_nodes db))"
  using drop_documents_nodes[OF assms(1)] document_ids_keys[OF assms(2)] keys_filter[OF assms(2)] by simp

lemma drop_files_nodes: "drop_files ids db = Inr db' \<Longrightarrow> ds_nodes db' = ds_nodes db"
  by (auto simp: drop_files_def drop_tasks_of_files_def split: if_splits)

lemma queue_deferred_rows: "ds_nodes (queue_deferred es db) = ds_nodes db"
  by (simp add: queue_deferred_def)

lemma drop_tasks_rows: "ds_nodes (drop_tasks_of_files ids db) = ds_nodes db"
  by (simp add: drop_tasks_of_files_def)

lemma current_cleared: "map row_key (ds_nodes (update_rows P (\<lambda>n. n\<lparr>nr_current_revision_id := None\<rparr>) db)) = map row_key (ds_nodes db)"
  by (simp add: update_rows_def row_key_def)

lemma purge_rows:
  assumes "purge_documents_bulk db ids = Inr db'"
  shows "\<exists>G. map row_key (ds_nodes db') = map row_key (filter (\<lambda>n. nd_id n \<notin> G) (ds_nodes db)) \<and>
    (\<forall>i \<in> G. \<exists>n \<in> set (ds_nodes db). nd_id n = i \<and> is_document n)"
proof (cases "ids = []")
  case True
  then show ?thesis using assms by (intro exI[of _ "{}"]) (simp add: purge_documents_bulk_def)
next
  case False
  obtain adb where "access (delete_compiled_access_rules_for_targets (map (Pair ''document'') ids) (aw_db (world_of db))) = Inr adb"
    using assms False by (auto simp only: purge_documents_bulk_def and_then_Inr if_False)
  note body = assms[unfolded purge_documents_bulk_def this and_then_simps Let_def]
  obtain db1 where drop: "drop_documents ids db1 = Inr db'" and keys: "map row_key (ds_nodes db1) = map row_key (ds_nodes db)"
  proof (cases "concat (map (\<lambda>chunk. filter (\<lambda>r. rv_document_id r \<in> set chunk) (ds_revisions (store_access adb db)))
      (batched QUERY_CHUNK_SIZE ids)) = []")
    case True
    show thesis
      by (rule that[of "store_access adb db"]) (use body[unfolded if_not_P[OF False] if_P[OF True]] in simp_all)
  next
    case ne: False
    note body' = body[unfolded if_not_P[OF False] if_not_P[OF ne] and_then_Inr]
    then obtain db6 where db6: "drop_documents ids db6 = Inr db'" "map row_key (ds_nodes db6) = map row_key (ds_nodes db)"
      by (elim exE conjE) (drule drop_files_nodes, simp add: queue_deferred_rows drop_tasks_rows current_cleared)
    then show thesis by (rule that)
  qed
  show ?thesis by (intro exI conjI, rule drop_documents_rows[OF drop keys]) auto
qed

lemma delete_folder_rows_nodes:
  assumes "delete_folder_rows inner i db = Inr db'"
  shows "map row_key (ds_nodes db') = map row_key (filter (\<lambda>r. nd_id r \<notin> set (cascade_from (length (ds_nodes db)) (ds_nodes db) [i])) (ds_nodes db))"
proof -
  let ?G = "set (cascade_from (length (ds_nodes db)) (ds_nodes db) [i])"
  obtain ids where "ds_nodes db' = filter (\<lambda>r. nd_id r \<notin> ?G) (ds_nodes (drop_revisions ids db))"
    using assms by (auto simp: delete_folder_rows_def Let_def split: if_splits)
  then show ?thesis using keys_filter[OF drop_revisions_rows, of ?G ids db] by simp
qed

section \<open>Every handler keeps the invariant\<close>

lemma root_row: "tree_ok db \<Longrightarrow> r \<in> set (ds_nodes db) \<Longrightarrow> nd_id r = ROOT_DIRECTORY_ID \<Longrightarrow> nd_parent r = None \<and> is_folder r"
  by (auto simp: tree_ok_def rooted_def)

lemma tree_ok_folder_purge:
  assumes t: "tree_ok db" and d: "delete_folder_rows inner i db = Inr db'" and i: "i \<noteq> ROOT_DIRECTORY_ID"
  shows "tree_ok db'"
proof (rule tree_ok_remove[OF t delete_folder_rows_nodes[OF d]])
  let ?G = "set (cascade_from (length (ds_nodes db)) (ds_nodes db) [i])"
  show "ROOT_DIRECTORY_ID \<notin> ?G"
    using cascade_member[of ROOT_DIRECTORY_ID _ _ "[i]"] root_row[OF t] i by fastforce
  show "nd_id r \<in> ?G" if "r \<in> set (ds_nodes db)" "nd_parent r = Some (nd_id f)" "nd_id f \<in> ?G" for r f
    using that cascade_full[of "ds_nodes db" "[i]"] by (auto simp: closed_down_def)
qed

lemma tree_ok_purge_documents:
  assumes t: "tree_ok db" and p: "purge_documents_bulk db ids = Inr db'"
  shows "tree_ok db'"
proof -
  have uniq: "ids_unique db" using t by (simp add: tree_ok_def nodes_wf_def)
  obtain G where G: "map row_key (ds_nodes db') = map row_key (filter (\<lambda>n. nd_id n \<notin> G) (ds_nodes db))"
    "\<forall>i \<in> G. \<exists>n \<in> set (ds_nodes db). nd_id n = i \<and> is_document n" using purge_rows[OF p] by blast
  have no: "nd_id f \<notin> G" if "f \<in> set (ds_nodes db)" "is_folder f" for f
    using G(2) ids_unique_eq[OF uniq that(1)] that(2) by (force simp: is_folder_def is_document_def)
  show ?thesis
  proof (rule tree_ok_remove[OF t G(1)])
    show "ROOT_DIRECTORY_ID \<notin> G" using t no root_row[OF t] unfolding tree_ok_def by metis
  qed (use no in blast)
qed

lemmas tree_ok_access = tree_ok_keys[OF store_access_rows]

lemma create_directory_tree:
  assumes t: "tree_ok db" and h: "create_directory en i s rq db = Inr (rp, db')" and fresh: "i \<notin> nd_id ` set (ds_nodes db)" "i \<noteq> ''''"
  shows "tree_ok db'"
proof -
  let ?p = "or_root (cd_parent_id rq)"
  let ?new = "db\<lparr>ds_nodes := ds_nodes db @ [new_folder i (cd_name rq) ?p (en_now en)]\<rparr>"
  have "db' = db \<or> (\<exists>f adb. get_folder False db ?p = Some f \<and> names_unique (ds_nodes ?new) \<and> db' = store_access adb ?new)"
    using h by (auto simp: create_directory_def Let_def and_then_Inr checked_def split: if_splits option.splits sum.splits bool.splits)
  moreover have "tree_ok ?new" if "get_folder False db ?p = Some f" "names_unique (ds_nodes ?new)" for f
    using that tree_ok_insert[OF t that(1), of "new_folder i (cd_name rq) ?p (en_now en)"] fresh by (simp add: new_folder_def)
  ultimately show ?thesis using t tree_ok_access by blast
qed

text \<open>The rows a deletion marks.\<close>

definition plan_ids :: "deletion_plan \<Rightarrow> string \<Rightarrow> string set" where
  "plan_ids plan i = set (dp_documents plan) \<union> set (dp_folders plan) \<union> (if dp_protected plan = [] \<and> dp_failed plan = [] then {i} else {})"

lemma delete_directory_rows:
  assumes h: "delete_directory en op i db = Inr (rp, db')"
  shows "db' = db \<or> i \<noteq> ROOT_DIRECTORY_ID \<and> (\<exists>plan. fetch_subtree_for_deletion db i (en_user en) (en_now en) False = Inr plan \<and>
    ds_nodes db' = map (\<lambda>r. if nd_id r \<in> plan_ids plan i then marked op r else r) (ds_nodes db))"
proof (cases "db' = db")
  case False
  then obtain plan where plan: "fetch_subtree_for_deletion db i (en_user en) (en_now en) False = Inr plan" and i: "i \<noteq> ROOT_DIRECTORY_ID"
    and db': "db' = (let db2 = cancel_tasks (find_unreachable_document_file_ids (mark_nodes_deleted (remdups (dp_documents plan @ dp_folders plan)) op db)
            (dp_documents plan)) (mark_nodes_deleted (remdups (dp_documents plan @ dp_folders plan)) op db)
          in if dp_protected plan = [] \<and> dp_failed plan = [] then set_row i (marked op) db2 else db2)"
    using h by (auto simp: delete_directory_def Let_def and_then_Inr marked_def[abs_def] split: if_splits option.splits)
  have "ds_nodes db' = map (\<lambda>r. if nd_id r \<in> plan_ids plan i then marked op r else r) (ds_nodes db)"
    unfolding db' by (auto simp: plan_ids_def Let_def cancel_tasks_def set_row_nodes mark_nodes_deleted_nodes)
  with plan i show ?thesis by (intro disjI2 conjI exI[of _ plan]) simp_all
qed simp

lemma delete_directory_tree:
  assumes t: "tree_ok db" and h: "delete_directory en op i db = Inr (rp, db')"
  shows "tree_ok db'"
proof (cases "db' = db")
  case False
  then obtain plan where "i \<noteq> ROOT_DIRECTORY_ID" "fetch_subtree_for_deletion db i (en_user en) (en_now en) False = Inr plan"
    "ds_nodes db' = map (\<lambda>r. if nd_id r \<in> plan_ids plan i then marked op r else r) (ds_nodes db)"
    using delete_directory_rows[OF h] by blast
  then show ?thesis
    by (intro plan_mark[OF t, where full = "dp_protected plan = [] \<and> dp_failed plan = []"]) (auto simp: plan_ids_def)
qed (use t in simp)

lemma rename_directory_tree:
  assumes t: "tree_ok db" and h: "rename_directory en i name db = Inr (rp, db')"
  shows "tree_ok db'"
proof -
  let ?new = "set_row i (\<lambda>r. r\<lparr>nr_name := name\<rparr>) db"
  have "db' = db \<or> names_unique (ds_nodes ?new) \<and> db' = ?new"
    using h by (auto simp: rename_directory_def Let_def and_then_Inr checked_def split: if_splits option.splits sum.splits)
  then show ?thesis using t tree_ok_rename[OF t] by auto
qed

lemma move_directory_tree:
  assumes t: "tree_ok db" and h: "move_directory en i target_id db = Inr (rp, db')"
  shows "tree_ok db'"
proof -
  let ?new = "set_row i (\<lambda>r. r\<lparr>nd_parent := Some (or_root target_id)\<rparr>) db"
  have "db' = db \<or> (\<exists>f target. get_folder False db i = Some f \<and> get_folder False db (or_root target_id) = Some target \<and>
      i \<noteq> ROOT_DIRECTORY_ID \<and> nd_id target \<noteq> nd_id f \<and> \<not> is_descendant_of db target f \<and> names_unique (ds_nodes ?new) \<and> db' = ?new)"
    using h by (auto simp: move_directory_def Let_def and_then_Inr checked_def split: if_splits option.splits sum.splits)
  then show ?thesis using t tree_ok_move[OF t] by blast
qed

lemma set_directory_rules_tree:
  assumes t: "tree_ok db" and h: "set_directory_rules en s rival i docs inh db = Inr (rp, db')"
  shows "tree_ok db'"
proof -
  have "db' = db \<or> (\<exists>adb. db' = store_access adb db)"
    using h by (auto simp: set_directory_rules_def apply_rules_to_def and_then_Inr split: if_splits option.splits sum.splits)
  then show ?thesis using t tree_ok_access by blast
qed

lemma purge_directory_tree:
  assumes t: "tree_ok db" and h: "purge_directory en i db = Inr (rp, db')"
  shows "tree_ok db'"
proof -
  have "db' = db \<or> i \<noteq> ROOT_DIRECTORY_ID \<and> (\<exists>ids db1 adb inner. purge_documents_bulk db ids = Inr db1 \<and>
      delete_folder_rows inner i (store_access adb db1) = Inr db')"
    using h by (auto simp: purge_directory_def and_then_Inr split: if_splits option.splits)
  then show ?thesis using t tree_ok_purge_documents[OF t] tree_ok_access tree_ok_folder_purge by blast
qed

section \<open>Requests in any order\<close>

datatype directory_request =
    CreateDirectory request_env string string create_directory_request
  | DeleteDirectory request_env string string
  | RenameDirectory request_env string string
  | MoveDirectory request_env string "string option"
  | SetDirectoryRules request_env string "string option option" string rule_docs "bool option"
  | PurgeDirectory request_env string
  | RestoreDirectory request_env string restore_request

fun handle_directory_request :: "directory_request \<Rightarrow> doc_db \<Rightarrow> handled" where
  "handle_directory_request (CreateDirectory en i s rq) db = create_directory en i s rq db"
| "handle_directory_request (DeleteDirectory en op i) db = delete_directory en op i db"
| "handle_directory_request (RenameDirectory en i n) db = rename_directory en i n db"
| "handle_directory_request (MoveDirectory en i t) db = move_directory en i t db"
| "handle_directory_request (SetDirectoryRules en s rival i docs inh) db = set_directory_rules en s rival i docs inh db"
| "handle_directory_request (PurgeDirectory en i) db = purge_directory en i db"
| "handle_directory_request (RestoreDirectory en i rq) db = restore_directory en i rq db"

text \<open>The identifier drawn for a new folder is not empty and not in use.\<close>

fun fresh_request :: "doc_db \<Rightarrow> directory_request \<Rightarrow> bool" where
  "fresh_request db (CreateDirectory en i s rq) \<longleftrightarrow> i \<noteq> '''' \<and> i \<notin> nd_id ` set (ds_nodes db)"
| "fresh_request db rq \<longleftrightarrow> True"

fun is_restore :: "directory_request \<Rightarrow> bool" where
  "is_restore (RestoreDirectory en i rq) \<longleftrightarrow> True"
| "is_restore rq \<longleftrightarrow> False"

lemma request_tree:
  "tree_ok db \<Longrightarrow> fresh_request db rq \<Longrightarrow> \<not> is_restore rq \<Longrightarrow> handle_directory_request rq db = Inr (rp, db') \<Longrightarrow> tree_ok db'"
  by (cases rq) (auto intro: create_directory_tree delete_directory_tree rename_directory_tree move_directory_tree
      set_directory_rules_tree purge_directory_tree)

lemma tree_ok_shape:
  assumes t: "tree_ok db"
  shows "ids_unique db \<and> names_unique (ds_nodes db) \<and> (\<exists>depth. ranked depth db) \<and>
    (\<forall>r \<in> set (ds_nodes db). nd_id r \<noteq> ROOT_DIRECTORY_ID \<longrightarrow>
      (\<exists>f \<in> set (ds_nodes db). is_folder f \<and> nd_parent r = Some (nd_id f)) \<and>
      (is_folder r \<longrightarrow> nr_status r = OK \<longrightarrow> descends db (nd_parent r) ROOT_DIRECTORY_ID {}))"
proof -
  obtain depth where rank: "ranked depth db" using t by (auto simp: tree_ok_def)
  have "descends db (nd_parent r) ROOT_DIRECTORY_ID {}"
    if "r \<in> set (ds_nodes db)" "nd_id r \<noteq> ROOT_DIRECTORY_ID" "is_folder r" "nr_status r = OK" for r
    by (rule descends_complete[OF t rank that(1,3,4) under_root[OF t that(1)] that(2)]) simp
  moreover have "\<exists>f \<in> set (ds_nodes db). is_folder f \<and> nd_parent r = Some (nd_id f)"
    if "r \<in> set (ds_nodes db)" "nd_id r \<noteq> ROOT_DIRECTORY_ID" for r
    using t that unfolding tree_ok_def rooted_def by (metis (no_types, lifting))
  ultimately show ?thesis using t rank unfolding tree_ok_def nodes_wf_def by blast
qed

lemma demo_docs_tree: "tree_ok demo_docs"
  unfolding tree_ok_def
proof (intro conjI exI[of _ length])
  show "nodes_wf demo_docs" "ranked length demo_docs" by (fact demo_docs_ok)+
  show "names_unique (ds_nodes demo_docs)" by code_simp
qed (auto simp: demo_docs_def plain_folder_def plain_document_def rooted_def is_folder_def ROOT_DIRECTORY_ID_def)

definition keeper_env :: request_env where
  "keeper_env = \<lparr>en_recursive = True, en_user = keeper, en_now = 5\<rparr>"

section \<open>Restoring\<close>

text \<open>The codes of the replies to a list of requests, and the store afterwards; a request that raises is answered
  with 500 and rolled back.\<close>

fun serve_all :: "directory_request list \<Rightarrow> doc_db \<Rightarrow> nat list \<times> doc_db" where
  "serve_all [] db = ([], db)"
| "serve_all (rq # rqs) db = (case handle_directory_request rq db of
     Inl e \<Rightarrow> (case serve_all rqs db of (cs, db') \<Rightarrow> (500 # cs, db'))
   | Inr (rp, db1) \<Rightarrow> (case serve_all rqs db1 of (cs, db') \<Rightarrow> (rp_code rp # cs, db')))"

definition open_docs :: doc_db where
  "open_docs = demo_docs\<lparr>ds_blocks := []\<rparr>"

lemma open_docs_tree: "tree_ok open_docs"
  by (rule tree_ok_keys[OF _ demo_docs_tree]) (simp add: open_docs_def)

abbreviation restore_plainly :: restore_request where
  "restore_plainly \<equiv> \<lparr>rq_target_parent = None, rq_new_name = None\<rparr>"

lemma ranked_no_cycle:
  assumes "ranked depth db" "list_ex (\<lambda>r. nd_id r = a \<and> nd_parent r = Some b) (ds_nodes db)"
    "list_ex (\<lambda>r. nd_id r = b \<and> nd_parent r = Some a) (ds_nodes db)"
  shows False
proof -
  obtain r s where "r \<in> set (ds_nodes db)" "nd_id r = a" "nd_parent r = Some b" "s \<in> set (ds_nodes db)" "nd_id s = b" "nd_parent s = Some a"
    using assms(2,3) by (auto simp: list_ex_iff)
  then show False using rankedD[OF assms(1), of r b] rankedD[OF assms(1), of s a] by simp
qed

text \<open>C39. Restoring can tie the tree into a cycle.  Delete an inner folder, then the folder around it; restore a folder
  that went with the inner one somewhere else, which brings the inner folder back below its deleted parent; then
  restore that parent into it.  No step is refused, and afterwards the two folders lie in each other.\<close>

theorem restore_can_create_cycle:
  "tree_ok open_docs \<and>
   (\<exists>db'. serve_all [DeleteDirectory keeper_env ''1'' ''bbb'', DeleteDirectory keeper_env ''2'' ''aa'',
       RestoreDirectory keeper_env ''cccc'' \<lparr>rq_target_parent = Some (Some ''/''), rq_new_name = None\<rparr>,
       RestoreDirectory keeper_env ''aa'' \<lparr>rq_target_parent = Some (Some ''bbb''), rq_new_name = None\<rparr>] open_docs =
         ([200, 200, 200, 200], db') \<and> (\<nexists>depth. ranked depth db'))"
proof (intro conjI open_docs_tree)
  let ?run = "serve_all [DeleteDirectory keeper_env ''1'' ''bbb'', DeleteDirectory keeper_env ''2'' ''aa'',
       RestoreDirectory keeper_env ''cccc'' \<lparr>rq_target_parent = Some (Some ''/''), rq_new_name = None\<rparr>,
       RestoreDirectory keeper_env ''aa'' \<lparr>rq_target_parent = Some (Some ''bbb''), rq_new_name = None\<rparr>] open_docs"
  have "fst ?run = [200, 200, 200, 200]" by code_simp
  moreover have "list_ex (\<lambda>r. nd_id r = ''aa'' \<and> nd_parent r = Some ''bbb'') (ds_nodes (snd ?run))" by code_simp
  moreover have "list_ex (\<lambda>r. nd_id r = ''bbb'' \<and> nd_parent r = Some ''aa'') (ds_nodes (snd ?run))" by code_simp
  ultimately have "\<not> ranked depth (snd ?run)" for depth using ranked_no_cycle by blast
  with \<open>fst ?run = _\<close> show "\<exists>db'. ?run = ([200, 200, 200, 200], db') \<and> (\<nexists>depth. ranked depth db')"
    by (metis prod.collapse)
qed

lemma names_unique_slots:
  "names_unique ns \<Longrightarrow> distinct (map nd_id ns) \<Longrightarrow> r \<in> set ns \<Longrightarrow> s \<in> set ns \<Longrightarrow> name_slot r = Some x \<Longrightarrow> name_slot s = Some x \<Longrightarrow> r = s"
  by (induction ns) (auto simp: names_unique_def map_filter_simps in_map_filter split: option.splits)

text \<open>Giving a new name or another target does not help to restore a directory whose old place is taken: the
  statement that brings back everything deleted with it runs before the new name and parent are set, so the request fails
  with a conflict and nothing is restored.\<close>

lemma restore_keeps_conflicting:
  assumes uniq: "ids_unique db" and f: "get_folder True db i = Some f" "nr_status f = DELETED" "nr_operation_id f = Some op" "op \<noteq> ''''"
    and w: "w \<in> set (ds_nodes db)" "nr_status w \<noteq> DELETED" "nr_name w = nr_name f" "nd_parent w = nd_parent f" "nd_parent f \<noteq> None"
    and h: "restore_directory en i rq db = Inr (rp, db')"
  shows "rp_code rp \<noteq> 200 \<and> db' = db"
proof -
  have fi: "f \<in> set (ds_nodes db)" using f(1) by (auto simp: get_folder_def find_Some_iff)
  let ?g = "\<lambda>r. if nr_operation_id r = Some op \<and> nr_status r = DELETED then r\<lparr>nr_status := OK, nr_operation_id := None\<rparr> else r"
  have "reactivate (Some op) db = Inl NodeNameConflict"
  proof (rule ccontr)
    assume "reactivate (Some op) db \<noteq> Inl NodeNameConflict"
    then have n: "names_unique (map ?g (ds_nodes db))"
      using f(4) by (auto simp: reactivate_def checked_def update_rows_def split: if_splits)
    have d: "distinct (map nd_id (map ?g (ds_nodes db)))"
    proof -
      have "map nd_id (map ?g (ds_nodes db)) = map nd_id (ds_nodes db)" by simp
      then show ?thesis using uniq by (simp only: ids_unique_def)
    qed
    obtain p where p: "nd_parent f = Some p" using w(5) by blast
    have "name_slot (?g f) = Some (p, nr_name f)" "name_slot (?g w) = Some (p, nr_name f)"
      using f w p by (auto simp: name_slot_def active_name_def)
    then have "?g f = ?g w" using names_unique_slots[OF n d, of "?g f" "?g w"] fi w(1) by simp
    then have "nd_id (?g f) = nd_id (?g w)" by (rule arg_cong)
    moreover have "nd_id (?g r) = nd_id r" for r by simp
    ultimately have "nd_id f = nd_id w" by metis
    then have "f = w" using ids_unique_eq[OF uniq fi w(1)] by simp
    with f(2) w(2) show False by simp
  qed
  then show ?thesis
    using h f by (auto simp: restore_directory_def Let_def and_then_Inr respond_to_node_name_conflict_def split: if_splits option.splits)
qed

definition taken_docs :: doc_db where
  "taken_docs = snd (serve_all [DeleteDirectory keeper_env ''1'' ''cccc'',
     CreateDirectory keeper_env ''ee'' ''s'' \<lparr>cd_parent_id = Some ''bbb'', cd_name = ''cccc'', cd_access_rules = [],
       cd_exists_ok = False, cd_inherit_parent = True\<rparr>] open_docs)"

lemma below_depth: "below db incl f g \<Longrightarrow> ranked depth db \<Longrightarrow> depth f \<le> depth g"
  by (induction rule: below.induct) (auto simp: child_folder_iff dest!: rankedD)

text \<open>What a complete deletion marks.\<close>

lemma get_folder_any:
  assumes "ids_unique db" "f \<in> set (ds_nodes db)" "is_folder f"
  shows "get_folder True db (nd_id f) = Some f"
proof -
  obtain g where g: "get_folder True db (nd_id f) = Some g"
    using assms(2,3) by (cases "get_folder True db (nd_id f)") (auto simp: get_folder_def find_None_iff)
  with get_folder_id[OF g] ids_unique_eq[OF assms(1)] assms(2) show ?thesis by auto
qed

lemma delete_directory_marks:
  assumes t: "tree_ok db" and h: "delete_directory en op i db = Inr (rp, db')" and gone: "get_folder False db' i = None"
    and f: "get_folder False db i = Some f"
  shows "\<exists>D. ds_nodes db' = map (\<lambda>r. if nd_id r \<in> D then marked op r else r) (ds_nodes db) \<and> i \<in> D \<and> i \<noteq> ROOT_DIRECTORY_ID \<and>
    (\<forall>r \<in> set (ds_nodes db). nd_id r \<in> D \<longrightarrow> nr_status r = OK) \<and>
    (\<forall>p \<in> set (ds_nodes db). is_folder p \<longrightarrow> nd_parent f = Some (nd_id p) \<longrightarrow> nd_id p \<notin> D)"
proof -
  have wf: "nodes_wf db" and uniq: "ids_unique db" using t by (auto simp: tree_ok_def nodes_wf_def)
  note fi = get_folder_visible[OF f]
  have "db' \<noteq> db" using f gone by auto
  then obtain plan where i: "i \<noteq> ROOT_DIRECTORY_ID" and fetch: "fetch_subtree_for_deletion db i (en_user en) (en_now en) False = Inr plan"
    and nodes: "ds_nodes db' = map (\<lambda>r. if nd_id r \<in> plan_ids plan i then marked op r else r) (ds_nodes db)"
    using delete_directory_rows[OF h] by blast
  obtain sb where load: "load_subtree db i (en_now en) False = Inr sb"
    using fetch by (auto simp: fetch_subtree_for_deletion_def and_then_Inr)
  note fs = load_subtree_folders[OF load] and pf = plan_folders[OF fetch load wf] and pd = plan_documents[OF fetch load]
  have docs: "is_document r \<and> nr_status r = OK" if r: "r \<in> set (ds_nodes db)" "nd_id r \<in> set (dp_documents plan)" for r
  proof -
    obtain d where d: "d \<in> set (sb_documents sb)" "nd_id d = nd_id r" "document_ok db sb (en_user en) (en_now en) False d"
      using pd r(2) by blast
    then have "d = r" using load_subtree_documents[OF load, of d] ids_unique_eq[OF uniq _ r(1), of d] by simp
    with d load_subtree_documents[OF load, of d] show ?thesis by (simp add: document_ok_def)
  qed
  have folders: "r \<in> set (sb_folders sb) \<and> nd_id r \<noteq> i" if "r \<in> set (ds_nodes db)" "nd_id r \<in> set (dp_folders plan)" for r
  proof -
    have "nd_id r \<in> nd_id ` set (sb_folders sb) - {i}" using pf(1) that(2) by blast
    then obtain g where "g \<in> set (sb_folders sb)" "nd_id g = nd_id r" "nd_id r \<noteq> i" by auto
    then show ?thesis using fs[of g] ids_unique_eq[OF uniq _ that(1), of g] by auto
  qed
  have ok: "nr_status r = OK" if "r \<in> set (ds_nodes db)" "nr_status r \<noteq> DELETED" for r
    using wf that by (cases "nr_status r") (auto simp: nodes_wf_def)
  have nodoc: "nd_id r \<notin> set (dp_documents plan)" if "r \<in> set (ds_nodes db)" "is_folder r" for r
    using docs[OF that(1)] that(2) by (auto simp: is_folder_def is_document_def)
  have full: "dp_protected plan = [] \<and> dp_failed plan = []"
  proof (rule ccontr)
    assume "\<not> ?thesis"
    then have "i \<notin> plan_ids plan i" using folders[of f] nodoc[of f] fi unfolding plan_ids_def by auto
    then have "f \<in> set (ds_nodes db')" using fi by (auto simp: nodes image_iff intro!: bexI[of _ f])
    then show False using gone fi by (auto simp: get_folder_def find_None_iff)
  qed
  obtain depth where rank: "ranked depth db" using t by (auto simp: tree_ok_def)
  have "nr_status r = OK" if rr: "r \<in> set (ds_nodes db)" "nd_id r \<in> plan_ids plan i" for r
  proof -
    consider "nd_id r \<in> set (dp_documents plan)" | "nd_id r \<in> set (dp_folders plan)" | "nd_id r = i"
      using rr(2) by (auto simp: plan_ids_def split: if_splits)
    then show ?thesis
    proof cases
      case 1
      then show ?thesis using docs[OF rr(1)] by blast
    next
      case 2
      then have "nr_status r \<noteq> DELETED" using folders[OF rr(1)] fs[of r] by (simp add: loadable_def)
      then show ?thesis by (rule ok[OF rr(1)])
    next
      case 3
      then have "r = f" using ids_unique_eq[OF uniq rr(1), of f] fi by simp
      then show ?thesis using ok[of f] fi by simp
    qed
  qed
  moreover have "nd_id p \<notin> plan_ids plan i" if p: "p \<in> set (ds_nodes db)" "is_folder p" "nd_parent f = Some (nd_id p)" for p
  proof
    assume "nd_id p \<in> plan_ids plan i"
    then have "below db False i (nd_id p)"
      using nodoc[OF p(1,2)] folders[OF p(1)] fs[of p] unfolding plan_ids_def by (auto intro: below.intros split: if_splits)
    then have "depth i \<le> depth (nd_id p)" using below_depth rank by blast
    with rankedD[OF rank _ p(3)] fi show False by auto
  qed
  ultimately show ?thesis using nodes i full by (intro exI[of _ "plan_ids plan i"]) (auto simp: plan_ids_def)
qed

text \<open>C16. A directory that was deleted completely and is restored without further options comes back as it was: the
  request succeeds whenever the user has the right and write access to the folder and its parent, and every row of the
  hierarchy is what it was before the deletion.\<close>

theorem delete_restore_roundtrip:
  assumes t: "tree_ok db" and f: "get_folder False db i = Some f"
    and ops: "\<forall>r \<in> set (ds_nodes db). nr_operation_id r \<noteq> Some op \<and> (nr_status r = OK \<longrightarrow> nr_operation_id r = None)" "op \<noteq> ''''"
    and del: "delete_directory en op i db = Inr (rp, db1)" "get_folder False db1 i = None"
    and may: "permitted en' db1 ''restore''"
      "list_all (\<lambda>r. nd_id r = i \<or> nd_parent f = Some (nd_id r) \<longrightarrow> check_access_requirements_of en' db1 r ''write'' = Inr True) (ds_nodes db1)"
  shows "\<exists>rp' db2. restore_directory en' i restore_plainly db1 = Inr (rp', db2) \<and> rp_code rp' = 200 \<and> ds_nodes db2 = ds_nodes db"
proof -
  obtain D where D: "ds_nodes db1 = map (\<lambda>r. if nd_id r \<in> D then marked op r else r) (ds_nodes db)" "i \<in> D" "i \<noteq> ROOT_DIRECTORY_ID"
    "\<forall>r \<in> set (ds_nodes db). nd_id r \<in> D \<longrightarrow> nr_status r = OK"
    "\<forall>p \<in> set (ds_nodes db). is_folder p \<longrightarrow> nd_parent f = Some (nd_id p) \<longrightarrow> nd_id p \<notin> D"
    using delete_directory_marks[OF t del f] by blast
  note fi = get_folder_visible[OF f]
  have uniq: "ids_unique db" and names: "names_unique (ds_nodes db)" using t by (auto simp: tree_ok_def nodes_wf_def)
  have fok: "nr_status f = OK" using D(2,4) fi by blast
  have "rooted (ds_nodes db) f" using t fi by (auto simp: tree_ok_def)
  then obtain p where p: "p \<in> set (ds_nodes db)" "is_folder p" "nd_parent f = Some (nd_id p)" "nr_status p = OK"
    using D(3) fi fok by (auto simp: rooted_def)
  have pid: "nd_id p \<noteq> ''''" using t p(1) by (auto simp: tree_ok_def nodes_wf_def)
  have uniq1: "ids_unique db1"
  proof -
    have "map nd_id (ds_nodes db1) = map nd_id (ds_nodes db)" by (simp add: D(1) comp_def if_distrib cong: if_cong)
    then show ?thesis using uniq by (simp add: ids_unique_def)
  qed
  have gf: "get_folder True db1 i = Some (marked op f)"
    using get_folder_any[OF uniq1, of "marked op f"] fi D(2) by (force simp: D(1))
  have gp: "get_folder True db1 (nd_id p) = Some p"
    using get_folder_any[OF uniq1, of p] p D(5) by (force simp: D(1))
  have re: "reactivate (Some op) db1 = Inr (db1\<lparr>ds_nodes := ds_nodes db\<rparr>)"
  proof -
    have "map (\<lambda>r. if nr_operation_id r = Some op \<and> nr_status r = DELETED then r\<lparr>nr_status := OK, nr_operation_id := None\<rparr> else r)
        (ds_nodes db1) = ds_nodes db"
      unfolding D(1) map_map using ops(1) D(4) by (intro map_idI) (auto simp: marked_def)
    then show ?thesis using names ops(2) by (simp add: reactivate_def checked_def update_rows_def)
  qed
  have pl: "place_node i (nr_name f) (nd_id p) (db1\<lparr>ds_nodes := ds_nodes db\<rparr>) = Inr (db1\<lparr>ds_nodes := ds_nodes db\<rparr>)"
  proof -
    have "map (\<lambda>r. if nd_id r = i then r\<lparr>nr_status := OK, nr_operation_id := None, nr_name := nr_name f, nd_parent := Some (nd_id p)\<rparr> else r)
        (ds_nodes db) = ds_nodes db"
    proof (rule map_idI)
      fix r assume r: "r \<in> set (ds_nodes db)"
      have "r = f" if "nd_id r = i" using ids_unique_eq[OF uniq r] fi that by blast
      then show "(if nd_id r = i then r\<lparr>nr_status := OK, nr_operation_id := None, nr_name := nr_name f, nd_parent := Some (nd_id p)\<rparr> else r) = r"
        using fok ops(1) fi p(3) by auto
    qed
    then show ?thesis using names by (simp add: place_node_def checked_def set_row_def update_rows_def)
  qed
  have "check_access_requirements_of en' db1 (marked op f) ''write'' = Inr True" "check_access_requirements_of en' db1 p ''write'' = Inr True"
    using may(2) get_folder_id[OF gf] get_folder_id[OF gp] p(3) fi by (auto simp: list_all_iff)
  moreover have "nd_parent (marked op f) = Some (nd_id p)" "nr_name (marked op f) = nr_name f" "nr_operation_id (marked op f) = Some op"
    using p(3) by (simp_all add: marked_def)
  ultimately show ?thesis
    using D(3) may(1) gf gp re pl p(4) pid by (simp add: restore_directory_def or_root_def Let_def)
qed

definition deleted_docs :: doc_db where
  "deleted_docs = snd (serve_all [DeleteDirectory keeper_env ''1'' ''bbb''] open_docs)"

theorem delete_restore_roundtrip_witness:
  "\<exists>rp db2. restore_directory keeper_env ''bbb'' restore_plainly deleted_docs = Inr (rp, db2) \<and> rp_code rp = 200 \<and> ds_nodes db2 = ds_nodes open_docs"
proof -
  have f: "get_folder False open_docs ''bbb'' = Some (plain_folder ''bbb'' (Some ''aa''))" by code_simp
  have ops: "\<forall>r \<in> set (ds_nodes open_docs). nr_operation_id r \<noteq> Some ''1'' \<and> (nr_status r = OK \<longrightarrow> nr_operation_id r = None)"
    by (simp add: open_docs_def demo_docs_def plain_folder_def plain_document_def)
  have d: "delete_directory keeper_env ''1'' ''bbb'' open_docs = Inr (plain 200, deleted_docs)" by code_simp
  have g: "get_folder False deleted_docs ''bbb'' = None" by code_simp
  have "permitted keeper_env deleted_docs ''restore''" by code_simp
  moreover have "list_all (\<lambda>r. nd_id r = ''bbb'' \<or> nd_parent (plain_folder ''bbb'' (Some ''aa'')) = Some (nd_id r) \<longrightarrow>
    check_access_requirements_of keeper_env deleted_docs r ''write'' = Inr True) (ds_nodes deleted_docs)" by code_simp
  ultimately show ?thesis using delete_restore_roundtrip[OF open_docs_tree f ops _ d g] by simp
qed

text \<open>A store in which the user holds a write entry for the deleted folder \<open>aa\<close> but fails its read rule, and is blocked from
  writing to \<open>bbb\<close> inside it.\<close>

definition hidden_docs :: doc_db where
  "hidden_docs = (set_row ''aa'' (\<lambda>r. r\<lparr>nd_rule_set_id := Some ''s''\<rparr>) (snd (serve_all [DeleteDirectory keeper_env ''1'' ''aa''] open_docs)))
     \<lparr>ds_rule_sets := [\<lparr>rs_id = ''s'', rs_node_id = ''aa''\<rparr>],
      ds_rules := [\<lparr>rr_id = 1, rr_rule_set_id = ''s'', rr_rule = \<lparr>cr_access_type = ''read'', cr_match_mode = ''all'', cr_match_groups =
        [\<lparr>cg_group_index = 0, cg_match_mode = ''all'', cg_rights_match_mode = ''all'', cg_rights_empty = False,
          cg_groups_match_mode = ''all'', cg_groups_empty = True, cg_rights = [''x''], cg_groups = []\<rparr>]\<rparr>\<rparr>],
      ds_oaes := [\<lparr>oa_entity_type = ''user'', oa_entity_identifier = ''u'', oa_target_type = ''directory'',
        oa_target_identifier = ''aa'', oa_access_type = ''write'', oa_start_time = 0, oa_end_time = None\<rparr>],
      ds_blocks := [\<lparr>be_user_id = ''u'', be_not_before = 0, be_not_after = -1, be_target_type = ''directory'',
        be_target_id = Some ''bbb'', be_block_types = [''write'']\<rparr>]\<rparr>"

text \<open>Purging a directory removes folders the user may not delete.  The handler stops only for failures that are reported,
  and an item in a folder the user may not read is protected without being reported; the cascade then takes it with its
  parent.\<close>

lemma purge_removes_protected_folder:
  "(\<exists>plan. fetch_subtree_for_deletion hidden_docs ''aa'' keeper 5 True = Inr plan \<and> ''bbb'' \<in> set (dp_protected plan) \<and> dp_failed plan = []) \<and>
   (\<exists>db'. purge_directory keeper_env ''aa'' hidden_docs = Inr (plain 200, db') \<and> get_node True db' ''bbb'' = None)"
proof
  have "case fetch_subtree_for_deletion hidden_docs ''aa'' keeper 5 True of Inl _ \<Rightarrow> False
    | Inr plan \<Rightarrow> ''bbb'' \<in> set (dp_protected plan) \<and> dp_failed plan = []" by code_simp
  then show "\<exists>plan. fetch_subtree_for_deletion hidden_docs ''aa'' keeper 5 True = Inr plan \<and> ''bbb'' \<in> set (dp_protected plan) \<and> dp_failed plan = []"
    by (auto split: sum.splits)
  have "case purge_directory keeper_env ''aa'' hidden_docs of Inl _ \<Rightarrow> False
    | Inr (rp, db') \<Rightarrow> rp = plain 200 \<and> get_node True db' ''bbb'' = None" by code_simp
  then show "\<exists>db'. purge_directory keeper_env ''aa'' hidden_docs = Inr (plain 200, db') \<and> get_node True db' ''bbb'' = None"
    by (auto split: sum.splits)
qed

end
