(* ===== verification/Listing.thy ===== *)
theory Listing
  imports Directories
begin

text \<open>
  Listing directories page by page: \<open>src/include/domains/pagination.py\<close>, the directory part of
  \<open>domains/documents/queries/listing.py\<close> and the reading requests of \<open>handlers/directories.py\<close>.

  \<open>lower\<close> is the SQL function of that name; names compare as strings of characters.  A cursor is an encrypted
  payload: encryption and its inverse are parameters, and so is the hash of the filters, here the payload holds
  the filters themselves.  Recursive queries over parent revisions are unrolled as often as there are revisions.
\<close>

section \<open>Cursors\<close>

datatype cursor_value = CInt int | CStr string | CNum rat | CBool bool | CNull

datatype cursor_type = IntType | StrType | NumType

record cursor_payload =
  cu_aad :: string
  cu_action :: string
  cu_sort :: string
  cu_filters :: "(string \<times> string) list"
  cu_last :: "cursor_value list"

datatype cursor_error = InvalidCursor | CursorMismatch

definition CURSOR_AAD :: string where
  "CURSOR_AAD = ''pagination-cursor-v2''"

definition PAGINATION_CURSOR_MAX_LENGTH :: nat where
  "PAGINATION_CURSOR_MAX_LENGTH = 2048"

definition PAGINATION_DEFAULT_PAGE_SIZE :: nat where
  "PAGINATION_DEFAULT_PAGE_SIZE = 128"

text \<open>\<open>NumType\<close> is the tuple of \<open>int\<close> and \<open>float\<close>; booleans are neither.\<close>

fun matches_cursor_type :: "cursor_value \<Rightarrow> cursor_type \<Rightarrow> bool" where
  "matches_cursor_type (CInt _) IntType = True"
| "matches_cursor_type (CInt _) NumType = True"
| "matches_cursor_type (CNum _) NumType = True"
| "matches_cursor_type (CStr _) StrType = True"
| "matches_cursor_type _ _ = False"

definition require_cursor_types :: "cursor_value list \<Rightarrow> cursor_type list \<Rightarrow> bool" where
  "require_cursor_types values value_types \<longleftrightarrow> length values = length value_types \<and> list_all2 matches_cursor_type values value_types"

text \<open>Encryption, its inverse (\<open>None\<close> for a token that does not decrypt to a payload) and the length of a token.\<close>

record 't cursor_codec =
  cc_encrypt :: "cursor_payload \<Rightarrow> 't"
  cc_decrypt :: "'t \<Rightarrow> cursor_payload option"
  cc_length :: "'t \<Rightarrow> nat"

record cursor_scope =
  sc_action :: string
  sc_sort :: string
  sc_filters :: "(string \<times> string) list"

definition encode_cursor :: "'t cursor_codec \<Rightarrow> cursor_scope \<Rightarrow> cursor_value list \<Rightarrow> 't" where
  "encode_cursor cc sc values = cc_encrypt cc \<lparr>cu_aad = CURSOR_AAD, cu_action = sc_action sc, cu_sort = sc_sort sc,
     cu_filters = sc_filters sc, cu_last = values\<rparr>"

definition decode_cursor ::
  "'t cursor_codec \<Rightarrow> cursor_scope \<Rightarrow> cursor_type list option \<Rightarrow> 't option \<Rightarrow> cursor_error + cursor_value list option" where
  "decode_cursor cc sc value_types token =
     (case token of None \<Rightarrow> Inr None
      | Some t \<Rightarrow>
          if cc_length cc t > PAGINATION_CURSOR_MAX_LENGTH then Inl InvalidCursor
          else case cc_decrypt cc t of None \<Rightarrow> Inl InvalidCursor
          | Some p \<Rightarrow>
              if cu_aad p \<noteq> CURSOR_AAD then Inl InvalidCursor
              else if cu_action p \<noteq> sc_action sc \<or> cu_sort p \<noteq> sc_sort sc then Inl CursorMismatch
              else if cu_filters p \<noteq> sc_filters sc then Inl CursorMismatch
              else if (case value_types of None \<Rightarrow> False | Some ts \<Rightarrow> \<not> require_cursor_types (cu_last p) ts) then Inl InvalidCursor
              else Inr (Some (cu_last p)))"

record ('a, 't) page =
  pg_items :: "'a list"
  pg_page_size :: nat
  pg_next_cursor :: "'t option"
  pg_has_more :: bool

definition make_cursor_response ::
  "'t cursor_codec \<Rightarrow> cursor_scope \<Rightarrow> nat \<Rightarrow> ('a \<Rightarrow> cursor_value list) \<Rightarrow> 'a list \<Rightarrow> ('a, 't) page" where
  "make_cursor_response cc sc page_size cursor_key items =
     (let has_more = (length items > page_size);
          page_items = take page_size items
      in \<lparr>pg_items = page_items, pg_page_size = page_size,
          pg_next_cursor = (if has_more \<and> page_items \<noteq> [] then Some (encode_cursor cc sc (cursor_key (last page_items))) else None),
          pg_has_more = has_more\<rparr>)"

definition get_page_size :: "nat option \<Rightarrow> nat" where
  "get_page_size page_size = get_or page_size PAGINATION_DEFAULT_PAGE_SIZE"

section \<open>The latest revisions of many documents\<close>

text \<open>The recursive query: the current revision and its ancestors, each joined with its file.\<close>

fun current_chain :: "nat \<Rightarrow> doc_db \<Rightarrow> string option \<Rightarrow> document_revision list" where
  "current_chain 0 db i = []"
| "current_chain (Suc n) db None = []"
| "current_chain (Suc n) db (Some i) =
     (case get_revision db i of None \<Rightarrow> []
      | Some r \<Rightarrow> if get_file (ds_files db) (rv_file_id r) = None then [] else r # current_chain n db (rv_parent_id r))"

definition chain_revision :: "doc_db \<Rightarrow> node_row \<Rightarrow> document_revision option" where
  "chain_revision db doc =
     find (revision_active db) (current_chain (length (ds_revisions db)) db (nr_current_revision_id doc))"

definition fallback_revision :: "doc_db \<Rightarrow> string \<Rightarrow> document_revision option" where
  "fallback_revision db document_id =
     py_max_by rv_created_time (filter (\<lambda>r. rv_document_id r = document_id \<and> revision_active db r) (ds_revisions db))"

definition latest_in_chunk :: "doc_db \<Rightarrow> string list \<Rightarrow> (string, string) odict \<Rightarrow> (string, string) odict" where
  "latest_in_chunk db chunk_ids found =
     (let rows = filter (\<lambda>d. is_document d \<and> nd_id d \<in> set chunk_ids) (ds_nodes db);
          found1 = fold (\<lambda>d m. case chain_revision db d of None \<Rightarrow> m | Some r \<Rightarrow> od_set (nd_id d) (rv_id r) m) rows found;
          fallback_document_ids = filter (\<lambda>i. od_get found1 i = None) chunk_ids
      in fold (\<lambda>i m. case fallback_revision db i of None \<Rightarrow> m | Some r \<Rightarrow> od_set i (rv_id r) m) fallback_document_ids found1)"

definition fetch_latest_active_revisions_by_document :: "doc_db \<Rightarrow> string list \<Rightarrow> (string, document_revision) odict" where
  "fetch_latest_active_revisions_by_document db document_ids =
     List.map_filter (\<lambda>(d, r). map_option (Pair d) (get_revision db r))
       (fold (latest_in_chunk db) (batched QUERY_CHUNK_SIZE document_ids) [])"

section \<open>Rows of a directory\<close>

definition count_active_directory_children :: "doc_db \<Rightarrow> string \<Rightarrow> nat" where
  "count_active_directory_children db folder_id =
     length (filter (\<lambda>r. is_folder r \<and> nd_parent r = Some folder_id \<and> nr_status r = OK) (ds_nodes db)) +
     length (filter (\<lambda>r. is_document r \<and> nd_parent r = Some folder_id \<and> nr_status r = OK \<and>
       document_has_active_revision db (nd_id r)) (ds_nodes db))"

type_synonym dir_key = "int \<times> string \<times> string"

record list_item =
  li_type :: string
  li_id :: string
  li_name :: string
  li_created_time :: timestamp
  li_operation_id :: "string option"
  li_revision :: "document_revision option"
  li_cursor_key :: dir_key

definition directory_cursor_key :: "list_item \<Rightarrow> cursor_value list" where
  "directory_cursor_key item = (case li_cursor_key item of (k, n, i) \<Rightarrow> [CInt k, CStr n, CStr i])"

text \<open>\<open>last_key\<close>, once its types are checked.\<close>

definition dir_key_of :: "cursor_value list \<Rightarrow> dir_key" where
  "dir_key_of vs = (case vs of [CInt k, CStr n, CStr i] \<Rightarrow> (k, n, i) | _ \<Rightarrow> (0, '''', ''''))"

definition name_id_after :: "(string \<Rightarrow> string) \<Rightarrow> string \<Rightarrow> string \<Rightarrow> node_row \<Rightarrow> bool" where
  "name_id_after lower last_name last_id r \<longleftrightarrow> lower (nr_name r) > last_name \<or> (lower (nr_name r) = last_name \<and> nd_id r > last_id)"

definition name_order :: "(string \<Rightarrow> string) \<Rightarrow> node_row list \<Rightarrow> node_row list" where
  "name_order lower = sort_key (\<lambda>r. (lower (nr_name r), nd_id r))"

definition fetch_directory_rows :: "(string \<Rightarrow> string) \<Rightarrow> doc_db \<Rightarrow> bool \<Rightarrow> string \<Rightarrow> dir_key option \<Rightarrow> nat \<Rightarrow> node_row list" where
  "fetch_directory_rows lower db deleted folder_id last_key limit =
     (if (case last_key of None \<Rightarrow> False | Some (k, _, _) \<Rightarrow> k > 0) then []
      else take limit (name_order lower (filter (\<lambda>r. is_folder r \<and> nd_parent r = Some folder_id \<and> (nr_status r = DELETED) = deleted \<and>
        (case last_key of None \<Rightarrow> True
         | Some (k, n, i) \<Rightarrow> (deleted \<and> k \<noteq> 0) \<or> name_id_after lower n i r)) (ds_nodes db))))"

definition fetch_document_rows :: "(string \<Rightarrow> string) \<Rightarrow> doc_db \<Rightarrow> bool \<Rightarrow> string \<Rightarrow> dir_key option \<Rightarrow> nat \<Rightarrow> node_row list" where
  "fetch_document_rows lower db include_deleted folder_id last_key limit =
     (if (case last_key of None \<Rightarrow> False | Some (k, _, _) \<Rightarrow> k > 1) then []
      else take limit (name_order lower (filter (\<lambda>r. is_document r \<and> nd_parent r = Some folder_id \<and>
        (if include_deleted then nr_status r = DELETED
         else nr_status r \<noteq> DELETED \<and> document_has_active_revision db (nd_id r)) \<and>
        (case last_key of None \<Rightarrow> True | Some (k, n, i) \<Rightarrow> k \<noteq> 1 \<or> name_id_after lower n i r)) (ds_nodes db))))"

definition folder_item :: "(string \<Rightarrow> string) \<Rightarrow> bool \<Rightarrow> node_row \<Rightarrow> list_item" where
  "folder_item lower with_operation r = \<lparr>li_type = ''directory'', li_id = nd_id r, li_name = nr_name r,
     li_created_time = nr_created_time r, li_operation_id = (if with_operation then nr_operation_id r else None),
     li_revision = None, li_cursor_key = (0, lower (nr_name r), nd_id r)\<rparr>"

definition document_item :: "(string \<Rightarrow> string) \<Rightarrow> bool \<Rightarrow> document_revision option \<Rightarrow> node_row \<Rightarrow> list_item" where
  "document_item lower with_operation latest r = \<lparr>li_type = ''document'', li_id = nd_id r, li_name = nr_name r,
     li_created_time = nr_created_time r, li_operation_id = (if with_operation then nr_operation_id r else None),
     li_revision = latest, li_cursor_key = (1, lower (nr_name r), nd_id r)\<rparr>"

definition fetch_directory_listing_items ::
  "(string \<Rightarrow> string) \<Rightarrow> doc_db \<Rightarrow> string \<Rightarrow> dir_key option \<Rightarrow> nat \<Rightarrow> list_item list" where
  "fetch_directory_listing_items lower db folder_id last_key limit =
     (let items = map (folder_item lower False) (fetch_directory_rows lower db False folder_id last_key limit);
          remaining = limit - length items
      in if remaining = 0 then items
         else (let document_rows = fetch_document_rows lower db False folder_id last_key remaining;
                   latest = fetch_latest_active_revisions_by_document db (map nd_id document_rows)
               in items @ List.map_filter (\<lambda>r. case od_get latest (nd_id r) of None \<Rightarrow> None
                    | Some rv \<Rightarrow> Some (document_item lower False (Some rv) r)) document_rows))"

definition fetch_deleted_listing_items ::
  "(string \<Rightarrow> string) \<Rightarrow> doc_db \<Rightarrow> string \<Rightarrow> dir_key option \<Rightarrow> nat \<Rightarrow> list_item list" where
  "fetch_deleted_listing_items lower db folder_id last_key limit =
     (let items = map (folder_item lower True) (fetch_directory_rows lower db True folder_id last_key limit);
          remaining = limit - length items
      in if remaining = 0 then items
         else items @ map (document_item lower True None) (fetch_document_rows lower db True folder_id last_key remaining))"

section \<open>Requests\<close>

text \<open>Whether the directory may be read, and its parent when that may be shown.\<close>

definition evaluate_directory_read_access ::
  "request_env \<Rightarrow> doc_db \<Rightarrow> node_row \<Rightarrow> bool \<Rightarrow> bool \<Rightarrow> doc_error + (bool \<times> string option \<times> folder_access_evaluation_context option)" where
  "evaluate_directory_read_access en db directory super_bypasses_target preload_all_rule_types =
     (let has_super_access = permitted en db ''super_list_directory'' in
      if has_super_access \<and> super_bypasses_target then Inr (True, nd_parent directory, None)
      else and_then (access (load_folder_access_evaluation_context (world_of db) [node.truncate directory] (en_user en) ''read''
             preload_all_rule_types (en_now en))) (\<lambda>context.
        and_then (access (allows (world_of db) context (node.truncate directory))) (\<lambda>ok.
          if \<not> ok then Inr (False, None, Some context)
          else (case nd_parent directory of None \<Rightarrow> Inr (True, None, Some context)
            | Some p \<Rightarrow> (case od_get (ac_folder_map (fc_context context)) p of None \<Rightarrow> Inr (True, None, Some context)
                | Some parent \<Rightarrow>
                    if has_super_access then Inr (True, Some p, Some context)
                    else and_then (access (allows (world_of db) context parent)) (\<lambda>visible.
                      Inr (True, if visible then Some p else None, Some context)))))))"

record 't listing_request =
  lq_folder_id :: "string option"
  lq_page_size :: "nat option"
  lq_cursor :: "'t option"

datatype 't listing_reply =
    Refused nat
  | Listed "(list_item, 't) page" "string option"

definition directory_scope :: "string \<Rightarrow> string \<Rightarrow> cursor_scope" where
  "directory_scope action folder_id = \<lparr>sc_action = action, sc_sort = ''type_name_id:asc'', sc_filters = [(''folder_id'', folder_id)]\<rparr>"

text \<open>The page after a cursor, for either kind of listing.\<close>

definition directory_page ::
  "'t cursor_codec \<Rightarrow> string \<Rightarrow> (dir_key option \<Rightarrow> nat \<Rightarrow> list_item list) \<Rightarrow> string \<Rightarrow> nat \<Rightarrow> 't option \<Rightarrow> cursor_error + (list_item, 't) page" where
  "directory_page cc action fetch folder_id page_size cursor =
     (let sc = directory_scope action folder_id in
      and_then (decode_cursor cc sc (Some [IntType, StrType, StrType]) cursor) (\<lambda>last_key.
        Inr (make_cursor_response cc sc page_size directory_cursor_key (fetch (map_option dir_key_of last_key) (page_size + 1)))))"

definition list_directory ::
  "'t cursor_codec \<Rightarrow> (string \<Rightarrow> string) \<Rightarrow> request_env \<Rightarrow> 't listing_request \<Rightarrow> doc_db \<Rightarrow> doc_error + 't listing_reply" where
  "list_directory cc lower en rq db =
     (let folder_id = or_root (lq_folder_id rq) in
      case get_folder False db folder_id of None \<Rightarrow> Inr (Refused 404)
      | Some f \<Rightarrow> and_then (evaluate_directory_read_access en db f True False) (\<lambda>(ok, parent_id, _).
          if \<not> ok then Inr (Refused 403)
          else case directory_page cc ''core.directory.list'' (fetch_directory_listing_items lower db folder_id) folder_id
                 (get_page_size (lq_page_size rq)) (lq_cursor rq) of
            Inl e \<Rightarrow> Inr (Refused 400)
          | Inr page \<Rightarrow> Inr (Listed page parent_id)))"

definition list_deleted_items ::
  "'t cursor_codec \<Rightarrow> (string \<Rightarrow> string) \<Rightarrow> request_env \<Rightarrow> string \<Rightarrow> nat option \<Rightarrow> 't option \<Rightarrow> doc_db \<Rightarrow> doc_error + 't listing_reply" where
  "list_deleted_items cc lower en folder_id page_size cursor db =
     (if \<not> permitted en db ''list_deleted_items'' then Inr (Refused 403)
      else case get_folder True db folder_id of None \<Rightarrow> Inr (Refused 404)
      | Some f \<Rightarrow> and_then (if permitted en db ''super_list_directory'' then Inr True
                                 else check_access_requirements_of en db f ''read'') (\<lambda>ok.
          if \<not> ok then Inr (Refused 403)
          else case directory_page cc ''core.directory.deleted_item.list'' (fetch_deleted_listing_items lower db folder_id) folder_id
                 (get_page_size page_size) cursor of
            Inl e \<Rightarrow> Inr (Refused 400)
          | Inr page \<Rightarrow> Inr (Listed page (Some folder_id))))"

record directory_info =
  di_id :: string
  di_count_of_child :: nat
  di_parent_id :: "string option"
  di_name :: string
  di_created_time :: timestamp
  di_access_rules :: "(nat \<times> rule_data \<times> string) list"
  di_info_code :: nat

definition get_directory_info :: "request_env \<Rightarrow> string \<Rightarrow> doc_db \<Rightarrow> doc_error + (nat + directory_info)" where
  "get_directory_info en directory_id db =
     (if directory_id = '''' then Inr (Inl 400)
      else case get_folder False db directory_id of None \<Rightarrow> Inr (Inl 404)
      | Some f \<Rightarrow>
          (let can_view_access_rules = permitted en db ''view_access_rules''
           in and_then (evaluate_directory_read_access en db f False can_view_access_rules) (\<lambda>(ok, parent_id, context).
                if \<not> ok then Inr (Inl 403)
                else Inr (Inr \<lparr>di_id = nd_id f, di_count_of_child = count_active_directory_children db (nd_id f),
                       di_parent_id = parent_id, di_name = nr_name f, di_created_time = nr_created_time f,
                       di_access_rules = (if can_view_access_rules
                         then (case context of None \<Rightarrow> [] | Some c \<Rightarrow> (case ac_rules (fc_context c) of None \<Rightarrow> []
                            | Some m \<Rightarrow> get_access_rules_list_from_map m ''directory'' (nd_id f))) else []),
                       di_info_code = (if can_view_access_rules then 0 else 1)\<rparr>))))"

section \<open>The batch query finds the latest revision\<close>

lemma find_SomeD: "find P xs = Some x \<Longrightarrow> x \<in> set xs \<and> P x"
  by (auto simp: find_Some_iff)

lemma py_max_by_find: "xs \<noteq> [] \<Longrightarrow> py_max_by f xs = find (\<lambda>x. f x = Max (f ` set xs)) xs"
proof (induction xs)
  case (Cons x xs)
  show ?case
  proof (cases "xs = []")
    case False
    then obtain y where y: "py_max_by f xs = Some y" using py_max_by_ex by blast
    have m: "f y = Max (f ` set xs)" using Cons.IH[OF False] y find_SomeD[of "\<lambda>x. f x = Max (f ` set xs)" xs y] by (simp only:)
    have "Max (f ` set (x # xs)) = max (f x) (f y)" using False m by simp
    then show ?thesis using y Cons.IH[OF False] m by (auto simp: max_def)
  qed simp
qed simp

lemma find_filter: "find P xs = (case filter P xs of [] \<Rightarrow> None | x # _ \<Rightarrow> Some x)"
  by (induction xs) auto

lemma py_max_by_sort: "py_max_by f (sort_key f xs) = py_max_by f xs"
proof (cases "xs = []")
  case False
  then have "sort_key f xs \<noteq> []" by (metis length_0_conv length_sort)
  then show ?thesis using False by (simp add: py_max_by_find find_filter sort_key_stable)
qed simp

lemma fallback_latest:
  "fallback_revision db i = py_max_by rv_created_time (filter (revision_active db) (revisions_of db i))"
proof -
  have "filter (revision_active db) (revisions_of db i) =
      sort_key rv_created_time (filter (\<lambda>r. rv_document_id r = i \<and> revision_active db r) (ds_revisions db))"
    by (simp add: revisions_of_def filter_sort conj_commute)
  then show ?thesis by (simp add: fallback_revision_def py_max_by_sort)
qed

lemma get_revision_file:
  assumes "store_ok db" "get_revision db i = Some r"
  shows "get_file (ds_files db) (rv_file_id r) \<noteq> None"
proof -
  have "r \<in> set (ds_revisions db)" using find_SomeD[OF assms(2)[unfolded get_revision_def]] by simp
  then obtain f where "f \<in> set (fd_files (ds_files db))" "fl_id f = rv_file_id r" using assms(1) by (auto simp: store_ok_def)
  then show ?thesis by (auto simp: get_file_def find_None_iff)
qed

lemma chain_branch:
  "store_ok db \<Longrightarrow> find (revision_active db) (current_chain n db i) = active_branch n db i"
  by (induction n db i rule: current_chain.induct) (auto dest: get_revision_file split: option.splits)

definition latest_revision :: "doc_db \<Rightarrow> string \<Rightarrow> document_revision option" where
  "latest_revision db i = (case find (\<lambda>d. is_document d \<and> nd_id d = i) (ds_nodes db) of None \<Rightarrow> fallback_revision db i
     | Some d \<Rightarrow> (case chain_revision db d of None \<Rightarrow> fallback_revision db i | Some r \<Rightarrow> Some r))"

lemma find_document:
  "ids_unique db \<Longrightarrow> d \<in> set (ds_nodes db) \<Longrightarrow> is_document d \<Longrightarrow> find (\<lambda>x. is_document x \<and> nd_id x = nd_id d) (ds_nodes db) = Some d"
proof -
  assume u: "ids_unique db" and d: "d \<in> set (ds_nodes db)" "is_document d"
  obtain x where x: "find (\<lambda>x. is_document x \<and> nd_id x = nd_id d) (ds_nodes db) = Some x"
    using d by (cases "find (\<lambda>x. is_document x \<and> nd_id x = nd_id d) (ds_nodes db)") (auto simp: find_None_iff)
  then have "x \<in> set (ds_nodes db)" "nd_id x = nd_id d" by (auto simp: find_Some_iff)
  with ids_unique_eq[OF u _ d(1)] x show ?thesis by blast
qed

lemma latest_revision_get:
  assumes "store_ok db" "d \<in> set (ds_nodes db)" "is_document d"
  shows "latest_revision db (nd_id d) = (case get_latest_revision db d of Inl _ \<Rightarrow> None | Inr r \<Rightarrow> Some r)"
proof -
  have u: "ids_unique db" using assms(1) by (simp add: store_ok_def)
  show ?thesis
    using find_document[OF u assms(2,3)] fallback_latest[of db "nd_id d"]
    by (auto simp: latest_revision_def get_latest_revision_def chain_revision_def chain_branch[OF assms(1)] Let_def split: option.splits)
qed

lemma fold_chain:
  assumes "distinct (map nd_id rows)"
  shows "od_get (fold (\<lambda>d m. case chain_revision db d of None \<Rightarrow> m | Some r \<Rightarrow> od_set (nd_id d) (rv_id r) m) rows m) i =
    (case find (\<lambda>d. nd_id d = i) rows of None \<Rightarrow> od_get m i
     | Some d \<Rightarrow> (case chain_revision db d of None \<Rightarrow> od_get m i | Some r \<Rightarrow> Some (rv_id r)))"
  using assms
proof (induction rows arbitrary: m)
  case (Cons d rows)
  have "find (\<lambda>d. nd_id d = i) rows = None" if "nd_id d = i" using Cons.prems that by (simp add: find_None_iff) (metis image_eqI)
  with Cons show ?case by (auto split: option.splits)
qed simp

lemma fold_fallback:
  "od_get (fold (\<lambda>i m. case fallback_revision db i of None \<Rightarrow> m | Some r \<Rightarrow> od_set i (rv_id r) m) is m) i =
    (if i \<in> set is then (case fallback_revision db i of None \<Rightarrow> od_get m i | Some r \<Rightarrow> Some (rv_id r)) else od_get m i)"
  by (induction "is" arbitrary: m) (auto split: option.splits)

lemma find_in_chunk:
  "i \<in> set c \<Longrightarrow> find (\<lambda>d. nd_id d = i) (filter (\<lambda>d. is_document d \<and> nd_id d \<in> set c) ns) = find (\<lambda>d. is_document d \<and> nd_id d = i) ns"
  "i \<notin> set c \<Longrightarrow> find (\<lambda>d. nd_id d = i) (filter (\<lambda>d. is_document d \<and> nd_id d \<in> set c) ns) = None"
  by (induction ns) auto

lemma latest_in_chunk_get:
  assumes "ids_unique db" "od_get m i = None \<or> od_get m i = map_option rv_id (latest_revision db i)"
  shows "od_get (latest_in_chunk db c m) i = (if i \<in> set c then map_option rv_id (latest_revision db i) else od_get m i)"
proof -
  have d: "distinct (map nd_id (filter (\<lambda>d. is_document d \<and> nd_id d \<in> set c) (ds_nodes db)))"
    using assms(1) by (simp add: ids_unique_def distinct_map_filter)
  show ?thesis
  proof (cases "i \<in> set c")
    case True
    then show ?thesis
      using assms(2) unfolding latest_in_chunk_def Let_def fold_fallback set_filter fold_chain[OF d]
      by (auto simp: latest_revision_def find_in_chunk(1)[OF True] split: option.splits)
  next
    case False
    then show ?thesis
      unfolding latest_in_chunk_def Let_def fold_fallback set_filter fold_chain[OF d] by (simp add: find_in_chunk(2)[OF False])
  qed
qed

lemma latest_chunks_get:
  assumes "ids_unique db"
  shows "od_get m i = None \<or> od_get m i = map_option rv_id (latest_revision db i) \<Longrightarrow>
    od_get (fold (latest_in_chunk db) cs m) i = (if i \<in> set (concat cs) then map_option rv_id (latest_revision db i) else od_get m i)"
  by (induction cs arbitrary: m) (auto simp: latest_in_chunk_get[OF assms])

lemma od_get_map_filter:
  "od_wf m \<Longrightarrow> od_get (List.map_filter (\<lambda>(d, r). map_option (Pair d) (g r)) m) i = (case od_get m i of None \<Rightarrow> None | Some r \<Rightarrow> g r)"
proof (induction m)
  case (Cons p m)
  obtain d r where p: "p = (d, r)" by (cases p)
  have "od_get (List.map_filter (\<lambda>(d, r). map_option (Pair d) (g r)) m) d = None" using Cons.prems p
    by (force simp: map_of_eq_None_iff in_map_filter od_wf_def)
  with Cons p show ?case by (auto simp: map_filter_simps od_wf_def split: option.splits)
qed (simp add: map_filter_simps)

lemma latest_in_chunk_wf: "od_wf m \<Longrightarrow> od_wf (latest_in_chunk db c m)"
proof -
  assume wf: "od_wf m"
  have "od_wf (fold (\<lambda>d m. case chain_revision db d of None \<Rightarrow> m | Some r \<Rightarrow> od_set (nd_id d) (rv_id r) m) rows m)" for rows
    using wf by (induction rows arbitrary: m) (auto split: option.splits)
  moreover have "od_wf m' \<Longrightarrow> od_wf (fold (\<lambda>i m. case fallback_revision db i of None \<Rightarrow> m | Some r \<Rightarrow> od_set i (rv_id r) m) is m')" for "is" m'
    by (induction "is" arbitrary: m') (auto split: option.splits)
  ultimately show ?thesis by (simp add: latest_in_chunk_def Let_def)
qed

lemma latest_revision_in: "latest_revision db i = Some r \<Longrightarrow> r \<in> set (ds_revisions db) \<and> revision_active db r"
proof -
  have get: "Some s = get_revision db j \<Longrightarrow> s \<in> set (ds_revisions db)" for db j s
    unfolding get_revision_def by (drule sym) (auto dest: find_SomeD)
  have chain: "r \<in> set (current_chain n db j) \<Longrightarrow> r \<in> set (ds_revisions db)" for n j
    by (induction n db j rule: current_chain.induct) (auto dest: get split: option.splits if_splits, metis)
  have fb: "fallback_revision db i = Some r \<Longrightarrow> r \<in> set (ds_revisions db) \<and> revision_active db r"
    by (auto simp: fallback_revision_def dest!: py_max_by_in)
  assume "latest_revision db i = Some r"
  then show ?thesis using fb
    by (auto simp: latest_revision_def chain_revision_def dest!: find_SomeD chain split: option.splits)
qed

lemma fetch_latest_get:
  assumes "store_ok db"
  shows "od_get (fetch_latest_active_revisions_by_document db ids) i = (if i \<in> set ids then latest_revision db i else None)"
proof -
  have u: "ids_unique db" using assms by (simp add: store_ok_def)
  let ?m = "fold (latest_in_chunk db) (batched QUERY_CHUNK_SIZE ids) []"
  have wf: "od_wf ?m"
    by (rule fold_invariant[where Q = "\<lambda>_. True" and P = od_wf]) (auto intro: latest_in_chunk_wf)
  have "od_get ?m i = (if i \<in> set ids then map_option rv_id (latest_revision db i) else None)"
    using latest_chunks_get[OF u, of "[]" i "batched QUERY_CHUNK_SIZE ids"]
    unfolding set_concat_batched[OF QUERY_CHUNK_SIZE_pos, of ids] by simp
  moreover have "get_revision db (rv_id r) = Some r" if "latest_revision db i = Some r" for r
    using latest_revision_in[OF that] assms find_unique[of rv_id "ds_revisions db" "rv_id r" r]
    by (simp add: get_revision_def store_ok_def)
  ultimately show ?thesis
    unfolding fetch_latest_active_revisions_by_document_def od_get_map_filter[OF wf] by (auto split: option.splits)
qed

section \<open>Following the cursors\<close>

text \<open>A client that asks for the next page as long as it gets a cursor; \<^const>\<open>None\<close> when a cursor is refused or the
  number of requests does not suffice.\<close>

fun browse :: "('t option \<Rightarrow> cursor_error + (list_item, 't) page) \<Rightarrow> nat \<Rightarrow> 't option \<Rightarrow> list_item list option" where
  "browse request 0 token = None"
| "browse request (Suc n) token = (case request token of Inl _ \<Rightarrow> None
     | Inr p \<Rightarrow> (case pg_next_cursor p of None \<Rightarrow> Some (pg_items p)
         | Some t \<Rightarrow> map_option ((@) (pg_items p)) (browse request n (Some t))))"

definition codec_ok :: "'t cursor_codec \<Rightarrow> cursor_scope \<Rightarrow> list_item list \<Rightarrow> bool" where
  "codec_ok cc sc items \<longleftrightarrow> (\<forall>x \<in> set items. let t = encode_cursor cc sc (directory_cursor_key x) in
     cc_decrypt cc t = Some \<lparr>cu_aad = CURSOR_AAD, cu_action = sc_action sc, cu_sort = sc_sort sc,
       cu_filters = sc_filters sc, cu_last = directory_cursor_key x\<rparr> \<and> cc_length cc t \<le> PAGINATION_CURSOR_MAX_LENGTH)"

definition after :: "dir_key option \<Rightarrow> list_item \<Rightarrow> bool" where
  "after k x \<longleftrightarrow> (case k of None \<Rightarrow> True | Some k \<Rightarrow> li_cursor_key x > k)"

definition genuine :: "dir_key option \<Rightarrow> bool" where
  "genuine k \<longleftrightarrow> (case k of None \<Rightarrow> True | Some (c, _, _) \<Rightarrow> c = 0 \<or> c = 1)"

lemma dir_key_roundtrip [simp]: "dir_key_of (directory_cursor_key x) = li_cursor_key x"
  by (simp add: dir_key_of_def directory_cursor_key_def split: prod.splits)

lemma decode_encode_cursor:
  "codec_ok cc sc items \<Longrightarrow> x \<in> set items \<Longrightarrow> decode_cursor cc sc (Some [IntType, StrType, StrType])
     (Some (encode_cursor cc sc (directory_cursor_key x))) = Inr (Some (directory_cursor_key x))"
  by (auto simp: codec_ok_def Let_def decode_cursor_def require_cursor_types_def directory_cursor_key_def split: prod.splits)

lemma filter_after_nth:
  assumes "sorted_wrt (\<lambda>x y. li_cursor_key x < li_cursor_key y) xs" "j < length xs"
  shows "filter (after (Some (li_cursor_key (xs ! j)))) xs = drop (Suc j) xs"
  using assms
proof (induction xs arbitrary: j)
  case (Cons x xs)
  show ?case
  proof (cases j)
    case 0
    then show ?thesis using Cons.prems by (auto simp: after_def filter_id_conv)
  next
    case (Suc i)
    then have "li_cursor_key x < li_cursor_key (xs ! i)" using Cons.prems by auto
    then have "\<not> after (Some (li_cursor_key (xs ! i))) x" by (simp add: after_def not_less order_less_imp_le)
    then show ?thesis using Cons.IH[of i] Cons.prems Suc by simp
  qed
qed simp

text \<open>A listing that fetches, after a key, a piece of one strictly ordered list.\<close>

locale paged_listing =
  fixes ok :: "doc_db \<Rightarrow> bool" and fetch :: "doc_db \<Rightarrow> string \<Rightarrow> dir_key option \<Rightarrow> nat \<Rightarrow> list_item list"
    and items :: "doc_db \<Rightarrow> string \<Rightarrow> list_item list"
  assumes fetch_take: "ok db \<Longrightarrow> genuine k \<Longrightarrow> fetch db f k n = take n (filter (after k) (items db f))"
    and ordered: "ok db \<Longrightarrow> sorted_wrt (\<lambda>x y. li_cursor_key x < li_cursor_key y) (items db f)"
    and keys_genuine: "x \<in> set (items db f) \<Longrightarrow> genuine (Some (li_cursor_key x))"
begin

lemma page_at:
  assumes "ok db" "codec_ok cc (directory_scope a f) (items db f)" "j \<le> length (items db f)"
    and t: "t = (if j = 0 then None else Some (encode_cursor cc (directory_scope a f) (directory_cursor_key (items db f ! (j - 1)))))"
  shows "directory_page cc a (fetch db f) f ps t =
    Inr (make_cursor_response cc (directory_scope a f) ps directory_cursor_key (take (ps + 1) (drop j (items db f))))"
proof (cases j)
  case 0
  then show ?thesis using t fetch_take[OF assms(1), of None f "ps + 1"]
    by (simp add: directory_page_def decode_cursor_def genuine_def after_def)
next
  case (Suc i)
  let ?x = "items db f ! i"
  have x: "?x \<in> set (items db f)" using assms(3) Suc by simp
  show ?thesis
    using t Suc decode_encode_cursor[OF assms(2) x] fetch_take[OF assms(1) keys_genuine[OF x]]
      filter_after_nth[OF ordered[OF assms(1)], of i] assms(3)
    by (simp add: directory_page_def)
qed

lemma browse_from:
  assumes ok: "ok db" "codec_ok cc (directory_scope a f) (items db f)" "1 \<le> ps"
  shows "j \<le> length (items db f) \<Longrightarrow> length (items db f) - j < n \<Longrightarrow>
    browse (directory_page cc a (fetch db f) f ps) n
      (if j = 0 then None else Some (encode_cursor cc (directory_scope a f) (directory_cursor_key (items db f ! (j - 1))))) = Some (drop j (items db f))"
proof (induction n arbitrary: j)
  case (Suc n)
  let ?L = "items db f"
  note page = page_at[OF ok(1,2) Suc.prems(1) refl, of ps]
  show ?case
  proof (cases "ps < length ?L - j")
    case False
    then show ?thesis unfolding browse.simps page by (simp add: make_cursor_response_def Let_def min_def)
  next
    case True
    have "last (take ps (drop j ?L)) = ?L ! (j + ps - 1)"
      using ok(3) True by (subst last_conv_nth) (auto simp: min_def)
    moreover have "take ps (take (ps + 1) (drop j ?L)) = take ps (drop j ?L)" by (simp add: min_def)
    moreover have "take ps (drop j ?L) \<noteq> []" using ok(3) True by auto
    moreover have "browse (directory_page cc a (fetch db f) f ps) n
        (Some (encode_cursor cc (directory_scope a f) (directory_cursor_key (?L ! (j + ps - 1))))) = Some (drop (j + ps) ?L)"
      using Suc.IH[of "j + ps"] Suc.prems ok(3) True by simp
    moreover have "take ps (drop j ?L) @ drop (j + ps) ?L = drop j ?L"
      by (metis append_take_drop_id drop_drop add.commute)
    ultimately show ?thesis using True unfolding browse.simps page by (simp add: make_cursor_response_def Let_def min_def)
  qed
qed simp

lemma browse_complete:
  "ok db \<Longrightarrow> codec_ok cc (directory_scope a f) (items db f) \<Longrightarrow> 1 \<le> ps \<Longrightarrow> length (items db f) < n \<Longrightarrow>
   browse (directory_page cc a (fetch db f) f ps) n None = Some (items db f)"
  using browse_from[of db cc a f ps 0 n] by simp

end

section \<open>The two listings\<close>

definition active_folders :: "doc_db \<Rightarrow> string \<Rightarrow> node_row list" where
  "active_folders db f = filter (\<lambda>r. is_folder r \<and> nd_parent r = Some f \<and> nr_status r \<noteq> DELETED) (ds_nodes db)"

definition active_documents :: "doc_db \<Rightarrow> string \<Rightarrow> node_row list" where
  "active_documents db f = filter (\<lambda>r. is_document r \<and> nd_parent r = Some f \<and> nr_status r \<noteq> DELETED \<and>
     document_has_active_revision db (nd_id r)) (ds_nodes db)"

definition directory_items :: "(string \<Rightarrow> string) \<Rightarrow> doc_db \<Rightarrow> string \<Rightarrow> list_item list" where
  "directory_items lower db f = map (folder_item lower False) (name_order lower (active_folders db f)) @
     map (\<lambda>r. document_item lower False (latest_revision db (nd_id r)) r) (name_order lower (active_documents db f))"

definition deleted_items :: "(string \<Rightarrow> string) \<Rightarrow> doc_db \<Rightarrow> string \<Rightarrow> list_item list" where
  "deleted_items lower db f =
     map (folder_item lower True) (name_order lower (filter (\<lambda>r. is_folder r \<and> nd_parent r = Some f \<and> nr_status r = DELETED) (ds_nodes db))) @
     map (document_item lower True None) (name_order lower (filter (\<lambda>r. is_document r \<and> nd_parent r = Some f \<and> nr_status r = DELETED) (ds_nodes db)))"

lemma name_order_strict:
  assumes "distinct (map nd_id ns)"
  shows "sorted_wrt (\<lambda>r s. (lower (nr_name r), nd_id r) < (lower (nr_name s), nd_id s)) (name_order lower ns)"
proof -
  let ?k = "\<lambda>r. (lower (nr_name r), nd_id r)"
  have "inj_on nd_id (set ns)" "distinct ns" using assms by (auto simp: distinct_map)
  then have "distinct (map ?k (sort_key ?k ns))" by (auto simp: distinct_map inj_on_def)
  then have "sorted_wrt (<) (map ?k (sort_key ?k ns))" by (simp add: strict_sorted_iff del: distinct_map)
  then show ?thesis by (simp add: name_order_def sorted_wrt_map)
qed

lemma items_strict:
  assumes "distinct (map nd_id fs)" "distinct (map nd_id ds)"
    and "\<And>r. li_cursor_key (g r) = (0, lower (nr_name r), nd_id r)" "\<And>r. li_cursor_key (h r) = (1, lower (nr_name r), nd_id r)"
  shows "sorted_wrt (\<lambda>x y. li_cursor_key x < li_cursor_key y) (map g (name_order lower fs) @ map h (name_order lower ds))"
  using name_order_strict[OF assms(1), of lower] name_order_strict[OF assms(2), of lower]
  by (auto simp: sorted_wrt_append sorted_wrt_map assms(3,4))

lemma filter_name_order: "name_order lower (filter (\<lambda>r. P r \<and> Q r) ns) = filter Q (name_order lower (filter P ns))"
  by (simp add: name_order_def filter_sort conj_commute)

text \<open>The rows fetched after a key are those whose item comes after it.\<close>

lemma fetch_rows_after:
  assumes "genuine k" "\<And>r. li_cursor_key (g r) = (0, lower (nr_name r), nd_id r)" "\<And>r. li_cursor_key (h r) = (1, lower (nr_name r), nd_id r)"
  shows "fetch_directory_rows lower db del f k n = take n (filter (\<lambda>r. after k (g r))
      (name_order lower (filter (\<lambda>r. is_folder r \<and> nd_parent r = Some f \<and> (nr_status r = DELETED) = del) (ds_nodes db))))"
    and "fetch_document_rows lower db del f k n = take n (filter (\<lambda>r. after k (h r))
      (name_order lower (filter (\<lambda>r. is_document r \<and> nd_parent r = Some f \<and> (if del then nr_status r = DELETED
         else nr_status r \<noteq> DELETED \<and> document_has_active_revision db (nd_id r))) (ds_nodes db))))"
proof -
  have fo: "(case k of None \<Rightarrow> True | Some (c, m, i) \<Rightarrow> (del \<and> c \<noteq> 0) \<or> name_id_after lower m i r) = after k (g r)"
    if "\<not> (case k of None \<Rightarrow> False | Some (c, _, _) \<Rightarrow> c > 0)" for r
    using that assms(1) by (auto simp: after_def assms(2) name_id_after_def genuine_def split: option.splits)
  have no: "\<not> after k (g r)" if "case k of None \<Rightarrow> False | Some (c, _, _) \<Rightarrow> c > 0" for r
    using that by (auto simp: after_def assms(2) split: option.splits)
  show "fetch_directory_rows lower db del f k n = take n (filter (\<lambda>r. after k (g r))
      (name_order lower (filter (\<lambda>r. is_folder r \<and> nd_parent r = Some f \<and> (nr_status r = DELETED) = del) (ds_nodes db))))"
    unfolding filter_name_order[symmetric] fetch_directory_rows_def using fo no
    by (cases "case k of None \<Rightarrow> False | Some (c, _, _) \<Rightarrow> c > 0") (simp_all add: conj_assoc name_order_def)
  have dc: "(case k of None \<Rightarrow> True | Some (c, m, i) \<Rightarrow> c \<noteq> 1 \<or> name_id_after lower m i r) = after k (h r)" for r
    using assms(1) by (auto simp: after_def assms(3) name_id_after_def genuine_def split: option.splits)
  have "\<not> (case k of None \<Rightarrow> False | Some (c, _, _) \<Rightarrow> c > 1)" using assms(1) by (auto simp: genuine_def split: option.splits)
  then show "fetch_document_rows lower db del f k n = take n (filter (\<lambda>r. after k (h r))
      (name_order lower (filter (\<lambda>r. is_document r \<and> nd_parent r = Some f \<and> (if del then nr_status r = DELETED
         else nr_status r \<noteq> DELETED \<and> document_has_active_revision db (nd_id r))) (ds_nodes db))))"
    unfolding filter_name_order[symmetric] fetch_document_rows_def dc by (simp add: conj_assoc)
qed

lemma take_items: "take n (map g xs @ map h ys) = map g (take n xs) @ map h (take (n - length (take n xs)) ys)"
  by (simp add: take_map min_def)

lemma latest_some: "document_has_active_revision db i \<Longrightarrow> latest_revision db i \<noteq> None"
proof -
  assume "document_has_active_revision db i"
  then have "filter (\<lambda>r. rv_document_id r = i \<and> revision_active db r) (ds_revisions db) \<noteq> []"
    by (auto simp: document_has_active_revision_def list_ex_iff filter_empty_conv)
  then have "fallback_revision db i \<noteq> None" by (simp add: fallback_revision_def)
  then show ?thesis by (auto simp: latest_revision_def split: option.splits)
qed

lemma map_filter_Some: "(\<And>x. x \<in> set xs \<Longrightarrow> f x = Some (g x)) \<Longrightarrow> List.map_filter f xs = map g xs"
  by (induction xs) (auto simp: map_filter_simps)

lemma item_keys [simp]:
  "li_cursor_key (folder_item lower b r) = (0, lower (nr_name r), nd_id r)"
  "li_cursor_key (document_item lower b v r) = (1, lower (nr_name r), nd_id r)"
  by (simp_all add: folder_item_def document_item_def)

lemma set_name_order [simp]: "set (name_order lower ns) = set ns"
  by (simp add: name_order_def)

lemma filter_items: "filter (after k) (map g xs @ map h ys) = map g (filter (\<lambda>r. after k (g r)) xs) @ map h (filter (\<lambda>r. after k (h r)) ys)"
  by (simp add: filter_map comp_def)

lemma document_items_latest:
  assumes "store_ok db" "set rows \<subseteq> set (active_documents db f)"
  shows "List.map_filter (\<lambda>r. case od_get (fetch_latest_active_revisions_by_document db (map nd_id rows)) (nd_id r) of None \<Rightarrow> None
      | Some rv \<Rightarrow> Some (document_item lower False (Some rv) r)) rows = map (\<lambda>r. document_item lower False (latest_revision db (nd_id r)) r) rows"
proof (rule map_filter_Some)
  fix r assume r: "r \<in> set rows"
  then have "latest_revision db (nd_id r) \<noteq> None" using assms(2) by (intro latest_some) (auto simp: active_documents_def)
  with r show "(case od_get (fetch_latest_active_revisions_by_document db (map nd_id rows)) (nd_id r) of None \<Rightarrow> None
      | Some rv \<Rightarrow> Some (document_item lower False (Some rv) r)) = Some (document_item lower False (latest_revision db (nd_id r)) r)"
    by (auto simp: fetch_latest_get[OF assms(1)] split: option.splits)
qed

lemma fetch_directory_listing_take:
  assumes ok: "store_ok db" and k: "genuine k"
  shows "fetch_directory_listing_items lower db f k n = take n (filter (after k) (directory_items lower db f))"
proof -
  let ?g = "folder_item lower False" and ?h = "\<lambda>r. document_item lower False (latest_revision db (nd_id r)) r"
  let ?F = "filter (\<lambda>r. after k (?g r)) (name_order lower (active_folders db f))"
  let ?D = "filter (\<lambda>r. after k (?h r)) (name_order lower (active_documents db f))"
  have F: "fetch_directory_rows lower db False f k m = take m ?F" for m
    using fetch_rows_after(1)[OF k, of ?g lower ?h db False f m] by (simp add: active_folders_def)
  have D: "fetch_document_rows lower db False f k m = take m ?D" for m
    using fetch_rows_after(2)[OF k, of ?g lower ?h db False f m] by (simp add: active_documents_def)
  have sub: "set (take m ?D) \<subseteq> set (active_documents db f)" for m using set_take_subset[of m ?D] by auto
  show ?thesis
    unfolding directory_items_def filter_items take_items fetch_directory_listing_items_def Let_def F D
      document_items_latest[OF ok sub] by simp
qed

lemma fetch_deleted_listing_take:
  assumes k: "genuine k"
  shows "fetch_deleted_listing_items lower db f k n = take n (filter (after k) (deleted_items lower db f))"
proof -
  let ?g = "folder_item lower True" and ?h = "document_item lower True None"
  note rows = fetch_rows_after[OF k, of ?g lower ?h db True f, simplified]
  show ?thesis
    unfolding deleted_items_def filter_items take_items fetch_deleted_listing_items_def Let_def rows by simp
qed

interpretation active: paged_listing store_ok "fetch_directory_listing_items lower" "directory_items lower" for lower
proof
  fix db k f n
  assume ok: "store_ok db"
  show "genuine k \<Longrightarrow> fetch_directory_listing_items lower db f k n = take n (filter (after k) (directory_items lower db f))"
    by (rule fetch_directory_listing_take[OF ok])
  show "sorted_wrt (\<lambda>x y. li_cursor_key x < li_cursor_key y) (directory_items lower db f)"
    unfolding directory_items_def using ok
    by (intro items_strict) (auto simp: active_folders_def active_documents_def store_ok_def ids_unique_def distinct_map_filter)
next
  fix x db f
  show "x \<in> set (directory_items lower db f) \<Longrightarrow> genuine (Some (li_cursor_key x))"
    by (auto simp: directory_items_def genuine_def)
qed

interpretation recycled: paged_listing ids_unique "fetch_deleted_listing_items lower" "deleted_items lower" for lower
proof
  fix db k f n
  assume ok: "ids_unique db"
  show "genuine k \<Longrightarrow> fetch_deleted_listing_items lower db f k n = take n (filter (after k) (deleted_items lower db f))"
    by (rule fetch_deleted_listing_take)
  show "sorted_wrt (\<lambda>x y. li_cursor_key x < li_cursor_key y) (deleted_items lower db f)"
    unfolding deleted_items_def using ok
    by (intro items_strict) (auto simp: ids_unique_def distinct_map_filter)
next
  fix x db f
  show "x \<in> set (deleted_items lower db f) \<Longrightarrow> genuine (Some (li_cursor_key x))"
    by (auto simp: deleted_items_def genuine_def)
qed

lemma directory_items_ids:
  assumes "ids_unique db"
  shows "distinct (map li_id (directory_items lower db f))"
    and "set (map li_id (directory_items lower db f)) = nd_id ` {r \<in> set (ds_nodes db). nd_parent r = Some f \<and> nr_status r \<noteq> DELETED \<and>
      (is_folder r \<or> is_document r \<and> document_has_active_revision db (nd_id r))}"
proof -
  have ids: "map li_id (directory_items lower db f) = map nd_id (name_order lower (active_folders db f) @ name_order lower (active_documents db f))"
    by (simp add: directory_items_def folder_item_def document_item_def)
  have "set (active_folders db f) \<inter> set (active_documents db f) = {}"
    by (auto simp: active_folders_def active_documents_def is_folder_def is_document_def)
  moreover have "distinct (ds_nodes db)" "inj_on nd_id (set (ds_nodes db))" using assms by (auto simp: ids_unique_def distinct_map)
  ultimately show "distinct (map li_id (directory_items lower db f))"
    unfolding ids distinct_map
    by (auto simp: name_order_def active_folders_def active_documents_def intro: inj_on_subset)
  show "set (map li_id (directory_items lower db f)) = nd_id ` {r \<in> set (ds_nodes db). nd_parent r = Some f \<and> nr_status r \<noteq> DELETED \<and>
      (is_folder r \<or> is_document r \<and> document_has_active_revision db (nd_id r))}"
    unfolding ids by (auto simp: active_folders_def active_documents_def)
qed

lemma directory_items_length: "ids_unique db \<Longrightarrow> length (directory_items lower db f) \<le> length (ds_nodes db)"
proof -
  assume u: "ids_unique db"
  have "length (directory_items lower db f) = card (set (map li_id (directory_items lower db f)))"
    using distinct_card[OF directory_items_ids(1)[OF u, of lower f]] by simp
  also have "\<dots> \<le> card (nd_id ` set (ds_nodes db))" unfolding directory_items_ids(2)[OF u] by (intro card_mono) auto
  also have "\<dots> \<le> length (ds_nodes db)" by (meson card_image_le card_length finite_set le_trans)
  finally show ?thesis .
qed


definition plain_codec :: "cursor_payload cursor_codec" where
  "plain_codec = \<lparr>cc_encrypt = \<lambda>p. p, cc_decrypt = Some, cc_length = \<lambda>_. 1\<rparr>"




end
