(* ===== verification/Documents.thy ===== *)
theory Documents
  imports Listing DirectoryTree TransferLimits "HOL-Library.Multiset"
begin

text \<open>
  The requests on documents and their revisions: \<open>src/include/domains/documents/handlers/documents.py\<close> and
  \<open>revisions.py\<close>.

  The state is the store of documents together with the rate limit tables.  A transaction under
  \<open>risk_control_transaction\<close> commits both when the handler returns normally and neither when an exception
  leaves it or the handler rolls back.  The bytes of a transfer are moved by \<open>core.file.download\<close> and
  \<open>core.file.upload\<close>, whose handlers only call the connection and are not modelled here.
\<close>

section \<open>State and replies\<close>

record doc_world =
  dw_db :: doc_db
  dw_risk :: risk_state

record document_env =
  de_base :: request_env
  de_remote_address :: string
  de_account_created :: "timestamp option"
  de_creation_policy :: creation_risk_policy
  de_max_pending :: nat
  de_download_policy :: download_risk_policy
  de_start_timeout :: timestamp
  de_rivals :: "string \<Rightarrow> rate_bucket option"

datatype document_data =
    NoContent
  | TaskData file_task
  | CreatedDocument string file_task
  | FetchedDocument string string file_task
  | LimitData "string option" "int option" "int option"
  | ConflictData string "string option"
  | RestoredDocument string string
  | TagList "string list"
  | DocumentRules "(string, rule_data list) odict" bool
  | TaskStatus file_task_status

record doc_reply =
  dr_code :: nat
  dr_data :: document_data

abbreviation bare :: "nat \<Rightarrow> doc_reply" where
  "bare c \<equiv> \<lparr>dr_code = c, dr_data = NoContent\<rparr>"

type_synonym doc_handled = "doc_error + (doc_reply \<times> doc_world)"

abbreviation de_user :: "document_env \<Rightarrow> user" where
  "de_user en \<equiv> en_user (de_base en)"

abbreviation de_now :: "document_env \<Rightarrow> timestamp" where
  "de_now en \<equiv> en_now (de_base en)"

definition conflict_reply :: "document_env \<Rightarrow> doc_db \<Rightarrow> string \<Rightarrow> string \<Rightarrow> doc_error + doc_reply" where
  "conflict_reply en db p name = and_then (describe_conflict (de_base en) db p name) (\<lambda>c.
     Inr \<lparr>dr_code = 409, dr_data = ConflictData (cf_type c) (cf_id c)\<rparr>)"

text \<open>What the creation limits see of the store.\<close>

definition view_of :: "doc_db \<Rightarrow> documents_view" where
  "view_of db = \<lparr>
     dv_documents = map (\<lambda>d. (nd_id d, nr_status d = OK)) (filter (\<lambda>d. is_document d \<and> nr_status d \<noteq> DELETED) (ds_nodes db)),
     dv_metadata = List.map_filter (\<lambda>m. map_option (Pair (dm_document_id m)) (dm_creator_id m)) (ds_metadata db),
     dv_revisions = map (\<lambda>r. (rv_document_id r, rv_file_id r)) (ds_revisions db),
     dv_files = ds_files db\<rparr>"

section \<open>Tasks and metadata\<close>

definition FILE_TASK_DEFAULT_DURATION_SECONDS :: timestamp where
  "FILE_TASK_DEFAULT_DURATION_SECONDS = 3600"

definition new_file_task :: "document_env \<Rightarrow> string \<Rightarrow> string \<Rightarrow> transfer_mode \<Rightarrow> string option \<Rightarrow> file_task" where
  "new_file_task en i file_id mode issued_by_id = \<lparr>ft_id = i, ft_file_id = file_id, ft_status = PENDING, ft_mode = mode,
     ft_start_time = de_now en,
     ft_end_time = Some (de_now en + (if mode = UPLOAD then de_start_timeout en else FILE_TASK_DEFAULT_DURATION_SECONDS)),
     ft_issued_by_id = issued_by_id, ft_encryption_key = None, ft_chunk_size = None, ft_upload_file_size = None,
     ft_upload_sha256 = None, ft_upload_session_id = None, ft_upload_checkpoint_size = None, ft_upload_checkpoint_data = None\<rparr>"

definition create_file_task :: "file_task \<Rightarrow> doc_db \<Rightarrow> doc_db" where
  "create_file_task t db = db\<lparr>ds_files := (ds_files db)\<lparr>fd_tasks := fd_tasks (ds_files db) @ [t]\<rparr>\<rparr>"

definition get_or_create_document_metadata :: "string \<Rightarrow> doc_db \<Rightarrow> doc_db" where
  "get_or_create_document_metadata doc db =
     (if list_ex (\<lambda>m. dm_document_id m = doc) (ds_metadata db) then db
      else db\<lparr>ds_metadata := ds_metadata db @ [\<lparr>dm_document_id = doc, dm_creator_id = None, dm_last_modified_by_id = None, dm_tags = []\<rparr>]\<rparr>)"

definition update_metadata :: "string \<Rightarrow> (document_metadata \<Rightarrow> document_metadata) \<Rightarrow> doc_db \<Rightarrow> doc_db" where
  "update_metadata doc f db = db\<lparr>ds_metadata := map (\<lambda>m. if dm_document_id m = doc then f m else m) (ds_metadata db)\<rparr>"

definition mark_document_modified :: "string \<Rightarrow> string \<Rightarrow> doc_db \<Rightarrow> doc_db" where
  "mark_document_modified doc user_id db =
     update_metadata doc (\<lambda>m. m\<lparr>dm_last_modified_by_id := Some user_id\<rparr>) (get_or_create_document_metadata doc db)"

definition new_stored_file :: "string \<Rightarrow> string \<Rightarrow> stored_file" where
  "new_stored_file i path = \<lparr>fl_id = i, fl_path = path, fl_sha256 = None, fl_size = None, fl_active = False\<rparr>"

definition add_file :: "stored_file \<Rightarrow> doc_db \<Rightarrow> doc_db" where
  "add_file f db = db\<lparr>ds_files := (ds_files db)\<lparr>fd_files := fd_files (ds_files db) @ [f]\<rparr>\<rparr>"

definition add_revision :: "document_revision \<Rightarrow> doc_db \<Rightarrow> doc_db" where
  "add_revision r db = db\<lparr>ds_revisions := ds_revisions db @ [r]\<rparr>"

definition set_current_revision :: "string \<Rightarrow> string \<Rightarrow> doc_db \<Rightarrow> doc_db" where
  "set_current_revision doc rv = set_row doc (\<lambda>n. n\<lparr>nr_current_revision_id := Some rv\<rparr>)"

section \<open>Reading\<close>

definition get_document_access_rules :: "document_env \<Rightarrow> string \<Rightarrow> doc_world \<Rightarrow> doc_handled" where
  "get_document_access_rules en document_id w =
     (let db = dw_db w in
      case get_document False db document_id of None \<Rightarrow> Inr (bare 404, w)
      | Some d \<Rightarrow> and_then (check_access_requirements_of (de_base en) db d ''read'') (\<lambda>ok.
          if \<not> ok \<or> \<not> permitted (de_base en) db ''view_access_rules'' then Inr (bare 403, w)
          else Inr (\<lparr>dr_code = 200, dr_data = DocumentRules (get_access_rules_dict (aw_db (world_of db)) ''document'' (nd_id d))
                 (nd_inherit d)\<rparr>, w)))"

text \<open>Issuing a download task, shared by documents and single revisions.\<close>

definition issue_download :: "document_env \<Rightarrow> string \<Rightarrow> string \<Rightarrow> (file_task \<Rightarrow> document_data) \<Rightarrow> doc_world \<Rightarrow> doc_handled" where
  "issue_download en task_id file_id answer w =
     (let db = dw_db w; u = us_id (de_user en);
          (decision, risk) = check_download_issue_limits (de_rivals en) (de_download_policy en) (ds_files db) u (de_remote_address en)
            (de_account_created en) (permitted (de_base en) db ''bypass_document_download_rate_limit'') (de_now en) (dw_risk w);
          w1 = w\<lparr>dw_risk := risk\<rparr>
      in if \<not> ld_allowed decision
         then Inr (\<lparr>dr_code = 429, dr_data = LimitData (ld_scope decision) (ld_limit decision) (ld_retry_after_seconds decision)\<rparr>, w1)
         else (let t = new_file_task en task_id file_id DOWNLOAD (Some u)
               in Inr (\<lparr>dr_code = 200, dr_data = answer t\<rparr>, w1\<lparr>dw_db := create_file_task t db\<rparr>)))"

definition get_document_request :: "document_env \<Rightarrow> string \<Rightarrow> string \<Rightarrow> doc_world \<Rightarrow> doc_handled" where
  "get_document_request en task_id document_id w =
     (let db = dw_db w in
      case get_document False db document_id of None \<Rightarrow> Inr (bare 404, w)
      | Some d \<Rightarrow> and_then (check_access_requirements_of (de_base en) db d ''read'') (\<lambda>ok.
          if \<not> ok then Inr (bare 403, w)
          else case od_get (fetch_latest_active_revisions_by_document db [nd_id d]) (nd_id d) of None \<Rightarrow> Inr (bare 404, w)
          | Some r \<Rightarrow> issue_download en task_id (rv_file_id r) (FetchedDocument (nd_id d) (nr_name d)) w))"

definition get_revision_request :: "document_env \<Rightarrow> string \<Rightarrow> string \<Rightarrow> doc_world \<Rightarrow> doc_handled" where
  "get_revision_request en task_id revision_id w =
     (let db = dw_db w in
      case get_revision db revision_id of None \<Rightarrow> Inr (bare 404, w)
      | Some r \<Rightarrow>
          if \<not> permitted (de_base en) db ''view_revision'' then Inr (bare 403, w)
          else case get_document False db (rv_document_id r) of None \<Rightarrow> Inl MissingDocument
          | Some d \<Rightarrow> and_then (check_access_requirements_of (de_base en) db d ''read'') (\<lambda>ok.
              if \<not> ok then Inr (bare 403, w) else issue_download en task_id (rv_file_id r) TaskData w))"

section \<open>Creating and uploading\<close>

definition is_space :: "char \<Rightarrow> bool" where
  "is_space c \<longleftrightarrow> (let n = (of_char c :: nat) in (9 \<le> n \<and> n \<le> 13) \<or> (28 \<le> n \<and> n \<le> 32) \<or> n = 133 \<or> n = 160)"

definition strip :: "string \<Rightarrow> string" where
  "strip s = rev (dropWhile is_space (rev (dropWhile is_space s)))"

record new_ids =
  ni_document :: string
  ni_file :: string
  ni_path :: string
  ni_revision :: string
  ni_task :: string
  ni_rule_set :: string

record create_document_request =
  cq_folder_id :: "string option"
  cq_title :: string
  cq_access_rules :: rule_docs
  cq_inherit_parent :: "bool option"

definition new_document :: "string \<Rightarrow> string \<Rightarrow> string \<Rightarrow> timestamp \<Rightarrow> node_row" where
  "new_document i title p now = \<lparr>nd_id = i, nd_type = ''document'', nd_parent = Some p, nd_inherit = True,
     nd_rule_set_id = None, nr_name = title, nr_status = OK, nr_operation_id = None, nr_created_time = now,
     nr_current_revision_id = None\<rparr>"

definition new_revision :: "string \<Rightarrow> string \<Rightarrow> string \<Rightarrow> timestamp \<Rightarrow> string option \<Rightarrow> document_revision" where
  "new_revision i doc file_id now parent = \<lparr>rv_id = i, rv_document_id = doc, rv_file_id = file_id, rv_created_time = now, rv_parent_id = parent\<rparr>"

text \<open>The rows of a new document, inserted when the rules are stored.\<close>

definition insert_document :: "document_env \<Rightarrow> new_ids \<Rightarrow> string \<Rightarrow> string \<Rightarrow> doc_db \<Rightarrow> doc_db" where
  "insert_document en ids folder_id title db =
     add_revision (new_revision (ni_revision ids) (ni_document ids) (ni_file ids) (de_now en) None)
       (add_file (new_stored_file (ni_file ids) (ni_path ids))
         (db\<lparr>ds_nodes := ds_nodes db @ [new_document (ni_document ids) title folder_id (de_now en)],
             ds_metadata := ds_metadata db @ [\<lparr>dm_document_id = ni_document ids, dm_creator_id = Some (us_id (de_user en)),
               dm_last_modified_by_id = Some (us_id (de_user en)), dm_tags = []\<rparr>]\<rparr>))"

definition store_new_document ::
  "document_env \<Rightarrow> new_ids \<Rightarrow> string \<Rightarrow> string \<Rightarrow> rule_docs \<Rightarrow> bool \<Rightarrow> doc_world \<Rightarrow> doc_error + ((doc_reply \<times> doc_world) option)" where
  "store_new_document en ids folder_id title access_rules inherit_parent w =
     and_then (access (compile_rules access_rules [])) (\<lambda>_.
     and_then (checked (insert_document en ids folder_id title (dw_db w))) (\<lambda>db1.
     and_then (access (apply_access_rules (ni_rule_set ids) None (world_of db1) ''document'' (ni_document ids) access_rules
         (de_user en) inherit_parent (en_recursive (de_base en)) (de_now en))) (\<lambda>(aw, ok).
       if \<not> ok then Inr None
       else (let t = new_file_task en (ni_task ids) (ni_file ids) UPLOAD None;
                 db2 = create_file_task t (set_current_revision (ni_document ids) (ni_revision ids) (store_access (aw_db aw) db1))
             in Inr (Some (\<lparr>dr_code = 200, dr_data = CreatedDocument (ni_document ids) t\<rparr>, w\<lparr>dw_db := db2\<rparr>))))))"

definition create_document_in_transaction ::
  "document_env \<Rightarrow> new_ids \<Rightarrow> string \<Rightarrow> string \<Rightarrow> rule_docs \<Rightarrow> bool \<Rightarrow> doc_world \<Rightarrow> doc_handled" where
  "create_document_in_transaction en ids folder_id title access_rules inherit_parent w =
     (let db = dw_db w in
      if \<not> permitted (de_base en) db ''create_document'' then Inr (bare 403, w)
      else and_then (get_target_folder_and_check_write (en_recursive (de_base en)) db (de_user en) (de_now en) folder_id ''super_create_document'')
        (\<lambda>target. case target of Inl code \<Rightarrow> Inr (bare code, w)
         | Inr _ \<Rightarrow>
             (case check_document_creation_limits (de_rivals en) (de_creation_policy en) (de_max_pending en) (view_of db)
                 (us_id (de_user en)) (de_remote_address en) (de_account_created en)
                 (permitted (de_base en) db ''bypass_document_creation_rate_limit'') (de_now en) (dw_risk w) of (decision, risk) \<Rightarrow>
                if \<not> ld_allowed decision
                then Inr (\<lparr>dr_code = 429, dr_data = LimitData (ld_scope decision) (ld_limit decision) (ld_retry_after_seconds decision)\<rparr>,
                          w\<lparr>dw_risk := risk\<rparr>)
                else and_then (store_new_document en ids folder_id title access_rules inherit_parent (w\<lparr>dw_risk := risk\<rparr>))
                  (\<lambda>done'. Inr (case done' of None \<Rightarrow> (bare 403, w) | Some r \<Rightarrow> r)))))"

definition create_document :: "document_env \<Rightarrow> new_ids \<Rightarrow> create_document_request \<Rightarrow> doc_world \<Rightarrow> doc_handled" where
  "create_document en ids rq w =
     (let folder_id = or_root (cq_folder_id rq); title = strip (cq_title rq) in
      if title = '''' then Inr (bare 400, w)
      else (let w1 = w\<lparr>dw_db := try_reclaim_abandoned_uploads (dw_db w) (de_now en)
                 \<lparr>cl_document_id = None, cl_folder_id = Some folder_id, cl_title = Some title, cl_limit = None\<rparr>\<rparr>
            in case create_document_in_transaction en ids folder_id title (cq_access_rules rq) (get_or (cq_inherit_parent rq) True) w1 of
                 Inr r \<Rightarrow> Inr r
               | Inl NodeNameConflict \<Rightarrow> and_then (conflict_reply en (dw_db w1) folder_id title) (\<lambda>r. Inr (r, w1))
               | Inl (AccessError e) \<Rightarrow> if is_value_error e then Inr (bare 400, w1) else Inl (AccessError e)
               | Inl e \<Rightarrow> Inl e))"

definition existing_upload :: "doc_db \<Rightarrow> string \<Rightarrow> file_task option" where
  "existing_upload db document_id = py_max_by ft_start_time (filter (\<lambda>t. ft_mode t = UPLOAD \<and> active_status (ft_status t) \<and>
     get_file (ds_files db) (ft_file_id t) \<noteq> None \<and>
     list_ex (\<lambda>r. rv_file_id r = ft_file_id t \<and> rv_document_id r = document_id) (ds_revisions db)) (fd_tasks (ds_files db)))"

text \<open>The parent of a new revision: as requested, or the latest active one; \<open>Inr None\<close> when the request names a
  revision of another document.\<close>

definition parent_revision :: "doc_db \<Rightarrow> node_row \<Rightarrow> string option option \<Rightarrow> doc_error + string option option" where
  "parent_revision db d requested = (case requested of
       Some (Some p) \<Rightarrow> Inr (if p \<in> set (map rv_id (revisions_of db (nd_id d))) then Some (Some p) else None)
     | Some None \<Rightarrow> Inr (Some None)
     | None \<Rightarrow> (case get_latest_revision db d of Inr r \<Rightarrow> Inr (Some (Some (rv_id r)))
         | Inl e \<Rightarrow> if e = NoActiveRevisions then Inr (Some None) else Inl e))"

definition upload_document :: "document_env \<Rightarrow> new_ids \<Rightarrow> string \<Rightarrow> string option option \<Rightarrow> doc_world \<Rightarrow> doc_handled" where
  "upload_document en ids document_id requested w =
     (let db = try_reclaim_abandoned_uploads (dw_db w) (de_now en)
            \<lparr>cl_document_id = Some document_id, cl_folder_id = None, cl_title = None, cl_limit = None\<rparr>;
          w1 = w\<lparr>dw_db := db\<rparr>
      in case get_document False db document_id of None \<Rightarrow> Inr (bare 404, w1)
      | Some d \<Rightarrow> and_then (check_access_requirements_of (de_base en) db d ''write'') (\<lambda>ok.
          if \<not> ok then Inr (bare 403, w1)
          else case existing_upload db document_id of
            Some t \<Rightarrow>
              (case expire_file_task_if_due id (ds_files db) (ft_id t) (de_now en) of (status, files) \<Rightarrow>
                 if status = Some EXPIRED then Inr (\<lparr>dr_code = 410, dr_data = TaskStatus EXPIRED\<rparr>, w1\<lparr>dw_db := db\<lparr>ds_files := files\<rparr>\<rparr>)
                 else if status = Some IN_PROGRESS then Inr (\<lparr>dr_code = 409, dr_data = TaskStatus IN_PROGRESS\<rparr>, w1)
                 else Inr (\<lparr>dr_code = 200, dr_data = TaskData t\<rparr>, w1))
          | None \<Rightarrow> and_then (parent_revision db d requested) (\<lambda>parent.
              case parent of None \<Rightarrow> Inr (bare 400, w1)
              | Some p \<Rightarrow>
                  (let t = new_file_task en (ni_task ids) (ni_file ids) UPLOAD None;
                       db1 = add_revision (new_revision (ni_revision ids) document_id (ni_file ids) (de_now en) p)
                         (add_file (new_stored_file (ni_file ids) (ni_path ids)) db);
                       db2 = set_current_revision document_id (ni_revision ids) (mark_document_modified document_id (us_id (de_user en)) db1)
                   in Inr (\<lparr>dr_code = 200, dr_data = TaskData t\<rparr>, w1\<lparr>dw_db := create_file_task t db2\<rparr>)))))"

section \<open>Deleting, renaming and moving\<close>

definition delete_document :: "document_env \<Rightarrow> string \<Rightarrow> string \<Rightarrow> doc_world \<Rightarrow> doc_handled" where
  "delete_document en operation_id document_id w =
     (let db = dw_db w in
      case get_document False db document_id of None \<Rightarrow> Inr (bare 404, w)
      | Some d \<Rightarrow> and_then (if permitted (de_base en) db ''delete_document'' then check_access_requirements_of (de_base en) db d ''write''
                                  else Inr False) (\<lambda>ok.
          if \<not> ok then Inr (bare 403, w)
          else (let db1 = set_row document_id (\<lambda>r. r\<lparr>nr_status := DELETED, nr_operation_id := Some operation_id\<rparr>) db;
                    db2 = cancel_tasks (find_unreachable_document_file_ids db1 [document_id]) db1
                in Inr (bare 200, w\<lparr>dw_db := mark_document_modified document_id (us_id (de_user en)) db2\<rparr>))))"

definition rename_document :: "document_env \<Rightarrow> string \<Rightarrow> string \<Rightarrow> doc_world \<Rightarrow> doc_handled" where
  "rename_document en document_id new_title w =
     (let db = dw_db w in
      case get_document False db document_id of None \<Rightarrow> Inr (bare 404, w)
      | Some d \<Rightarrow> and_then (if permitted (de_base en) db ''rename_document'' then check_access_requirements_of (de_base en) db d ''write''
                                  else Inr False) (\<lambda>ok.
          if \<not> ok then Inr (bare 403, w)
          else if nr_name d = new_title then Inr (bare 400, w)
          else case checked (set_row document_id (\<lambda>r. r\<lparr>nr_name := new_title\<rparr>) db) of
            Inl e \<Rightarrow> and_then (conflict_reply en db (or_root (nd_parent d)) new_title) (\<lambda>r. Inr (r, w))
          | Inr db1 \<Rightarrow> Inr (bare 200, w\<lparr>dw_db := mark_document_modified document_id (us_id (de_user en)) db1\<rparr>)))"

definition move_document :: "document_env \<Rightarrow> string \<Rightarrow> string option \<Rightarrow> doc_world \<Rightarrow> doc_handled" where
  "move_document en document_id target_folder_id w =
     (let db = dw_db w; target_id = or_root target_folder_id in
      if \<not> permitted (de_base en) db ''move'' then Inr (bare 403, w)
      else case get_document False db document_id of None \<Rightarrow> Inr (bare 404, w)
      | Some d \<Rightarrow>
          if nd_parent d = Some target_id then Inr (bare 400, w)
          else and_then (check_access_requirements_of (de_base en) db d ''move'') (\<lambda>movable.
            if \<not> movable then Inr (bare 403, w)
            else case get_folder False db target_id of None \<Rightarrow> Inr (bare 404, w)
            | Some target \<Rightarrow> and_then (may_write_into (de_base en) db target ''super_create_document'') (\<lambda>ok.
                if \<not> ok then Inr (bare 403, w)
                else case checked (set_row document_id (\<lambda>r. r\<lparr>nd_parent := Some target_id\<rparr>) db) of
                  Inl e \<Rightarrow> and_then (conflict_reply en db target_id (nr_name d)) (\<lambda>r. Inr (r, w))
                | Inr db1 \<Rightarrow> Inr (bare 200, w\<lparr>dw_db := mark_document_modified document_id (us_id (de_user en)) db1\<rparr>))))"

definition set_document_rules ::
  "document_env \<Rightarrow> string \<Rightarrow> string option option \<Rightarrow> string \<Rightarrow> rule_docs \<Rightarrow> bool option \<Rightarrow> doc_world \<Rightarrow> doc_handled" where
  "set_document_rules en rule_set_id rival document_id docs inherit_parent w =
     (let db = dw_db w in
      if us_id (de_user en) = '''' then Inr (bare 401, w)
      else case get_document False db document_id of None \<Rightarrow> Inr (bare 404, w)
      | Some d \<Rightarrow>
          if \<not> permitted (de_base en) db ''set_access_rules'' then Inr (bare 403, w)
          else and_then (check_access_requirements_of (de_base en) db d ''manage'') (\<lambda>ok.
            if \<not> ok then Inr (bare 403, w)
            else and_then (apply_rules_to (de_base en) rule_set_id rival ''document'' d docs (get_or inherit_parent True) db) (\<lambda>(rp, db1).
              Inr (bare (rp_code rp), w\<lparr>dw_db := (if rp_code rp = 200 then mark_document_modified document_id (us_id (de_user en)) db1 else db1)\<rparr>))))"

section \<open>Purging, restoring and tags\<close>

definition purge_document :: "document_env \<Rightarrow> string \<Rightarrow> doc_world \<Rightarrow> doc_handled" where
  "purge_document en document_id w =
     (let db = dw_db w in
      if \<not> permitted (de_base en) db ''purge'' then Inr (bare 403, w)
      else case get_document True db document_id of None \<Rightarrow> Inr (bare 404, w)
      | Some d \<Rightarrow>
          if nr_status d \<noteq> DELETED then Inr (bare 400, w)
          else and_then (check_access_requirements_of (de_base en) db d ''write'') (\<lambda>ok.
            if \<not> ok then Inr (bare 403, w)
            else and_then (delete_all_document_revisions db d) (\<lambda>db1.
              and_then (drop_documents [document_id] (mark_document_modified document_id (us_id (de_user en)) db1)) (\<lambda>db2.
                Inr (bare 200, w\<lparr>dw_db := db2\<rparr>)))))"

definition restore_document :: "document_env \<Rightarrow> string \<Rightarrow> restore_request \<Rightarrow> doc_world \<Rightarrow> doc_handled" where
  "restore_document en document_id rq w =
     (let db = dw_db w in
      if \<not> permitted (de_base en) db ''restore'' then Inr (bare 403, w)
      else case get_document True db document_id of None \<Rightarrow> Inr (bare 404, w)
      | Some d \<Rightarrow>
          if nr_status d \<noteq> DELETED then Inr (bare 404, w)
          else and_then (check_access_requirements_of (de_base en) db d ''write'') (\<lambda>ok.
            if \<not> ok then Inr (bare 403, w)
            else (let db_folder_id = (case rq_target_parent rq of Some t \<Rightarrow> or_root t | None \<Rightarrow> or_root (nd_parent d));
                      final_title = (case rq_new_name rq of None \<Rightarrow> nr_name d | Some n \<Rightarrow> if n = '''' then nr_name d else n)
                  in case get_folder True db db_folder_id of None \<Rightarrow> Inr (bare 404, w)
                  | Some target \<Rightarrow> and_then (check_access_requirements_of (de_base en) db target ''write'') (\<lambda>ok.
                      if \<not> ok then Inr (bare 403, w)
                      else if nr_status target \<noteq> OK then Inr (bare 409, w)
                      else case place_node document_id final_title db_folder_id db of
                        Inl e \<Rightarrow> and_then (conflict_reply en db db_folder_id final_title) (\<lambda>r. Inr (r, w))
                      | Inr db1 \<Rightarrow> Inr (\<lparr>dr_code = 200, dr_data = RestoredDocument final_title db_folder_id\<rparr>,
                          w\<lparr>dw_db := mark_document_modified document_id (us_id (de_user en)) db1\<rparr>)))))"

text \<open>\<open>None\<close> when a tag is blank.\<close>

fun normalize_tags :: "string list \<Rightarrow> string list \<Rightarrow> string list option" where
  "normalize_tags [] acc = Some acc"
| "normalize_tags (raw_tag # rest) acc =
     (let tag = strip raw_tag
      in if tag = '''' then None else normalize_tags rest (if tag \<in> set acc then acc else acc @ [tag]))"

text \<open>Tag rows that stay keep their place in the table and get their new position; new ones are appended.\<close>

definition assign_tags :: "string list \<Rightarrow> (string \<times> nat) list \<Rightarrow> (string \<times> nat) list" where
  "assign_tags tags existing =
     (let position = (\<lambda>t. length (takeWhile (\<lambda>s. s \<noteq> t) tags))
      in map (\<lambda>(t, _). (t, position t)) (filter (\<lambda>(t, _). t \<in> set tags) existing) @
         map (\<lambda>t. (t, position t)) (filter (\<lambda>t. t \<notin> fst ` set existing) tags))"

text \<open>\<open>serialize_document_metadata\<close> reads the tags in the order of their positions.\<close>

definition document_tags :: "doc_db \<Rightarrow> string \<Rightarrow> string list" where
  "document_tags db doc = (case find (\<lambda>m. dm_document_id m = doc) (ds_metadata db) of None \<Rightarrow> []
     | Some m \<Rightarrow> map fst (sort_key snd (dm_tags m)))"

definition set_document_tags :: "document_env \<Rightarrow> string \<Rightarrow> string list \<Rightarrow> doc_world \<Rightarrow> doc_handled" where
  "set_document_tags en document_id tags w =
     (let db = dw_db w in
      case normalize_tags tags [] of None \<Rightarrow> Inr (bare 400, w)
      | Some normalized \<Rightarrow> (case get_document False db document_id of None \<Rightarrow> Inr (bare 404, w)
          | Some d \<Rightarrow> and_then (if permitted (de_base en) db ''set_metadata_tags'' then check_access_requirements_of (de_base en) db d ''write''
                                      else Inr False) (\<lambda>ok.
              if \<not> ok then Inr (bare 403, w)
              else Inr (\<lparr>dr_code = 200, dr_data = TagList normalized\<rparr>, w\<lparr>dw_db :=
                update_metadata document_id (\<lambda>m. m\<lparr>dm_tags := assign_tags normalized (dm_tags m),
                  dm_last_modified_by_id := Some (us_id (de_user en))\<rparr>) (get_or_create_document_metadata document_id db)\<rparr>))))"

section \<open>Revisions\<close>

definition set_document_revision :: "document_env \<Rightarrow> string \<Rightarrow> string \<Rightarrow> doc_world \<Rightarrow> doc_handled" where
  "set_document_revision en document_id revision_id w =
     (let db = dw_db w in
      case (get_document False db document_id, get_revision db revision_id) of
        (Some d, Some r) \<Rightarrow>
          if rv_document_id r \<noteq> nd_id d then Inr (bare 404, w)
          else and_then (if permitted (de_base en) db ''set_current_revision'' then check_access_requirements_of (de_base en) db d ''write''
                         else Inr False) (\<lambda>ok.
            if \<not> ok then Inr (bare 403, w)
            else Inr (bare 200, w\<lparr>dw_db := mark_document_modified document_id (us_id (de_user en))
                   (set_current_revision document_id revision_id db)\<rparr>))
      | _ \<Rightarrow> Inr (bare 404, w))"

definition relink_children :: "document_revision \<Rightarrow> doc_db \<Rightarrow> doc_db" where
  "relink_children r db = db\<lparr>ds_revisions := map (\<lambda>c. if rv_parent_id c = Some (rv_id r) then c\<lparr>rv_parent_id := rv_parent_id r\<rparr> else c)
     (ds_revisions db)\<rparr>"

definition delete_revision :: "document_env \<Rightarrow> string \<Rightarrow> doc_world \<Rightarrow> doc_handled" where
  "delete_revision en revision_id w =
     (let db = dw_db w in
      case get_revision db revision_id of None \<Rightarrow> Inr (bare 404, w)
      | Some r \<Rightarrow> (case get_document False db (rv_document_id r) of None \<Rightarrow> Inl MissingDocument
          | Some d \<Rightarrow>
              if nr_current_revision_id d = Some (rv_id r) \<or> length (revisions_of db (nd_id d)) = 1 then Inr (bare 400, w)
              else and_then (if permitted (de_base en) db ''delete_revision'' then check_access_requirements_of (de_base en) db d ''write''
                             else Inr False) (\<lambda>ok.
                if \<not> ok then Inr (bare 403, w)
                else (let db1 = relink_children r db;
                          db2 = cancel_tasks (find_unreachable_revision_file_ids db [revision_id]) db1;
                          db3 = mark_document_modified (nd_id d) (us_id (de_user en)) db2
                      in and_then (delete_revision_and_unreferenced_file db3 r) (\<lambda>db4. Inr (bare 200, w\<lparr>dw_db := db4\<rparr>))))))"

text \<open>Listing the revisions of a document, oldest first, one page at a time.\<close>

record revision_item =
  ri_id :: string
  ri_parent_id :: "string option"
  ri_created_time :: timestamp
  ri_is_current :: bool

definition revision_scope :: "string \<Rightarrow> cursor_scope" where
  "revision_scope document_id = \<lparr>sc_action = ''core.document.revision.list'', sc_sort = ''created_time_id:asc'',
     sc_filters = [(''document_id'', document_id)]\<rparr>"

definition revision_key_of :: "cursor_value list \<Rightarrow> timestamp \<times> string" where
  "revision_key_of vs = (case vs of [CNum t, CStr i] \<Rightarrow> (t, i) | [CInt t, CStr i] \<Rightarrow> (of_int t, i) | _ \<Rightarrow> (0, ''''))"

definition revision_rows :: "doc_db \<Rightarrow> string \<Rightarrow> (timestamp \<times> string) option \<Rightarrow> nat \<Rightarrow> document_revision list" where
  "revision_rows db document_id last_key limit =
     take limit (sort_key (\<lambda>r. (rv_created_time r, rv_id r)) (filter (\<lambda>r. rv_document_id r = document_id \<and>
       (case last_key of None \<Rightarrow> True
        | Some (last_created_time, last_id) \<Rightarrow> rv_created_time r > last_created_time \<or>
            (rv_created_time r = last_created_time \<and> rv_id r > last_id))) (ds_revisions db)))"

definition list_revisions ::
  "'t cursor_codec \<Rightarrow> request_env \<Rightarrow> string \<Rightarrow> nat option \<Rightarrow> 't option \<Rightarrow> doc_db \<Rightarrow> doc_error + (nat + (revision_item, 't) page)" where
  "list_revisions cc en document_id page_size cursor db =
     (case get_document False db document_id of None \<Rightarrow> Inr (Inl 404)
      | Some d \<Rightarrow> and_then (if permitted en db ''list_revisions'' then check_access_requirements_of en db d ''read'' else Inr False) (\<lambda>ok.
          if \<not> ok then Inr (Inl 403)
          else case decode_cursor cc (revision_scope document_id) (Some [NumType, StrType]) cursor of Inl e \<Rightarrow> Inr (Inl 400)
          | Inr last_key \<Rightarrow> Inr (Inr (make_cursor_response cc (revision_scope document_id) (get_page_size page_size)
              (\<lambda>item. [CNum (ri_created_time item), CStr (ri_id item)])
              (map (\<lambda>r. \<lparr>ri_id = rv_id r, ri_parent_id = rv_parent_id r, ri_created_time = rv_created_time r,
                 ri_is_current = (nr_current_revision_id d = Some (rv_id r))\<rparr>)
                 (revision_rows db document_id (map_option revision_key_of last_key) (get_page_size page_size + 1)))))))"

section \<open>Document information\<close>

record metadata_view =
  mv_tags :: "string list"
  mv_creator :: "string option"
  mv_last_modified_by :: "string option"

definition serialize_document_metadata :: "doc_db \<Rightarrow> string \<Rightarrow> metadata_view" where
  "serialize_document_metadata db doc = (case find (\<lambda>m. dm_document_id m = doc) (ds_metadata db) of
       None \<Rightarrow> \<lparr>mv_tags = [], mv_creator = None, mv_last_modified_by = None\<rparr>
     | Some m \<Rightarrow> \<lparr>mv_tags = document_tags db doc, mv_creator = dm_creator_id m, mv_last_modified_by = dm_last_modified_by_id m\<rparr>)"

record document_info =
  do_id :: string
  do_parent_id :: "string option"
  do_title :: string
  do_size :: "nat option"
  do_created_time :: timestamp
  do_last_modified :: timestamp
  do_access_rules :: "(nat \<times> rule_data \<times> string) list"
  do_info_code :: nat
  do_metadata :: "metadata_view option"

definition get_document_info :: "request_env \<Rightarrow> string \<Rightarrow> doc_db \<Rightarrow> doc_error + (nat + document_info)" where
  "get_document_info en document_id db =
     (if document_id = '''' then Inr (Inl 400)
      else case get_document False db document_id of None \<Rightarrow> Inr (Inl 404)
      | Some d \<Rightarrow>
          (case od_get (fetch_latest_active_revisions_by_document db [nd_id d]) (nd_id d) of None \<Rightarrow> Inr (Inl 404)
           | Some r \<Rightarrow> and_then (check_access_requirements_of en db d ''read'') (\<lambda>ok.
               if \<not> ok then Inr (Inl 403)
               else (let can_view = permitted en db ''view_access_rules''
                     in Inr (Inr \<lparr>do_id = nd_id d, do_parent_id = nd_parent d, do_title = nr_name d,
                          do_size = (case get_file (ds_files db) (rv_file_id r) of None \<Rightarrow> None | Some f \<Rightarrow> fl_size f),
                          do_created_time = nr_created_time d, do_last_modified = rv_created_time r,
                          do_access_rules = (if can_view then get_access_rules_list (aw_db (world_of db)) ''document'' (nd_id d) else []),
                          do_info_code = (if can_view then 0 else 1),
                          do_metadata = (if permitted en db ''view_metadata'' then Some (serialize_document_metadata db (nd_id d)) else None)\<rparr>)))))"

section \<open>Tags survive a round trip\<close>

lemma normalize_tags_spec:
  "normalize_tags tags acc = Some ts \<Longrightarrow> distinct acc \<Longrightarrow>
    distinct ts \<and> set ts = set acc \<union> strip ` set tags \<and> ('''' \<in> set ts \<longrightarrow> '''' \<in> set acc)"
proof (induction tags arbitrary: acc)
  case (Cons t tags)
  let ?acc = "if strip t \<in> set acc then acc else acc @ [strip t]"
  have s: "strip t \<noteq> ''''" "normalize_tags tags ?acc = Some ts" using Cons.prems(1) by (auto simp: Let_def split: if_splits)
  moreover have "distinct ?acc" using Cons.prems(2) by simp
  ultimately have "distinct ts \<and> set ts = set ?acc \<union> strip ` set tags \<and> ('''' \<in> set ts \<longrightarrow> '''' \<in> set ?acc)"
    using Cons.IH by blast
  with s(1) show ?case by (auto split: if_splits)
qed simp

definition tag_position :: "string list \<Rightarrow> string \<Rightarrow> nat" where
  "tag_position tags t = length (takeWhile (\<lambda>s. s \<noteq> t) tags)"

lemma tag_position_nth: "distinct tags \<Longrightarrow> i < length tags \<Longrightarrow> tag_position tags (tags ! i) = i"
  unfolding tag_position_def by (subst takeWhile_eq_take_P_nth[of i]) (auto simp: nth_eq_iff_index_eq)

lemma tag_position_map: "distinct tags \<Longrightarrow> map (tag_position tags) tags = [0..<length tags]"
  by (auto intro: nth_equalityI simp: tag_position_nth)

lemma assign_tags_sorted:
  assumes "distinct tags" "distinct (map fst existing)"
  shows "sort_key snd (assign_tags tags existing) = map (\<lambda>t. (t, tag_position tags t)) tags"
proof (rule sort_key_inj_key_eq)
  let ?p = "\<lambda>t. (t, tag_position tags t)"
  let ?kept = "filter (\<lambda>(t, _). t \<in> set tags) existing"
  have a: "assign_tags tags existing = map ?p (map fst ?kept @ filter (\<lambda>t. t \<notin> fst ` set existing) tags)"
    by (simp add: assign_tags_def tag_position_def Let_def case_prod_beta o_def)
  have "distinct (map fst ?kept)" using assms(2) by (rule distinct_map_filter)
  then have "distinct (map fst ?kept @ filter (\<lambda>t. t \<notin> fst ` set existing) tags)" using assms(1) by auto
  moreover have "set (map fst ?kept @ filter (\<lambda>t. t \<notin> fst ` set existing) tags) = set tags" by force
  ultimately have "mset (map fst ?kept @ filter (\<lambda>t. t \<notin> fst ` set existing) tags) = mset tags"
    using assms(1) by (simp only: set_eq_iff_mset_eq_distinct)
  then show "mset (assign_tags tags existing) = mset (map ?p tags)" unfolding a mset_map by (simp only:)
  then have s: "set (assign_tags tags existing) = ?p ` set tags" by (metis set_mset_mset set_map)
  have "inj_on (tag_position tags) (set tags)" using tag_position_map[OF assms(1)] by (metis distinct_map distinct_upt)
  then show "inj_on snd (set (assign_tags tags existing))" unfolding s by (auto simp: inj_on_def)
  show "sorted (map snd (map ?p tags))" using tag_position_map[OF assms(1)] by (simp add: o_def)
qed

lemma assign_tags_names:
  assumes "distinct tags" "distinct (map fst existing)"
  shows "distinct (map fst (assign_tags tags existing))"
proof -
  have "mset (assign_tags tags existing) = mset (map (\<lambda>t. (t, tag_position tags t)) tags)"
    using assign_tags_sorted[OF assms] by (metis mset_sort)
  then have "mset (map fst (assign_tags tags existing)) = mset tags" by (simp add: o_def multiset.map_comp)
  then show ?thesis using assms(1) by (metis mset_eq_imp_distinct_iff)
qed

definition metadata_ok :: "doc_db \<Rightarrow> bool" where
  "metadata_ok db \<longleftrightarrow> distinct (map dm_document_id (ds_metadata db)) \<and> (\<forall>m \<in> set (ds_metadata db). distinct (map fst (dm_tags m)))"

lemma metadata_ok_get_or_create: "metadata_ok db \<Longrightarrow> metadata_ok (get_or_create_document_metadata i db)"
  by (auto simp: metadata_ok_def get_or_create_document_metadata_def list_ex_iff)

lemma metadata_ok_update:
  "metadata_ok db \<Longrightarrow> (\<And>m. dm_document_id (f m) = dm_document_id m) \<Longrightarrow>
    (\<And>m. distinct (map fst (dm_tags m)) \<Longrightarrow> distinct (map fst (dm_tags (f m)))) \<Longrightarrow> metadata_ok (update_metadata i f db)"
proof -
  assume m: "metadata_ok db" and f: "\<And>m. dm_document_id (f m) = dm_document_id m"
    and g: "\<And>m. distinct (map fst (dm_tags m)) \<Longrightarrow> distinct (map fst (dm_tags (f m)))"
  have "map dm_document_id (ds_metadata (update_metadata i f db)) = map dm_document_id (ds_metadata db)"
    by (simp add: update_metadata_def f)
  moreover have "\<forall>m \<in> set (ds_metadata (update_metadata i f db)). distinct (map fst (dm_tags m))"
    using m g by (auto simp: metadata_ok_def update_metadata_def)
  ultimately show ?thesis using m unfolding metadata_ok_def by (simp only:)
qed

lemma metadata_find_created:
  "find (\<lambda>m. dm_document_id m = i) (ds_metadata (get_or_create_document_metadata i db)) \<noteq> None"
  by (auto simp: get_or_create_document_metadata_def find_None_iff list_ex_iff)

lemma find_update_metadata:
  assumes "\<And>m. dm_document_id (f m) = dm_document_id m"
  shows "find (\<lambda>m. dm_document_id m = i) (ds_metadata (update_metadata i f db)) =
    map_option f (find (\<lambda>m. dm_document_id m = i) (ds_metadata db))"
proof -
  have "find (\<lambda>m. dm_document_id m = i) (map (\<lambda>m. if dm_document_id m = i then f m else m) ms) =
      map_option f (find (\<lambda>m. dm_document_id m = i) ms)" for ms
    by (induction ms) (auto simp: assms)
  then show ?thesis by (simp add: update_metadata_def)
qed

lemma document_tags_assigned:
  assumes "metadata_ok db" "distinct tags" "\<And>m. dm_document_id (f m) = dm_document_id m" "\<And>m. dm_tags (f m) = assign_tags tags (dm_tags m)"
  shows "document_tags (update_metadata i f (get_or_create_document_metadata i db)) i = tags"
proof -
  let ?db = "get_or_create_document_metadata i db"
  obtain m where m: "find (\<lambda>m. dm_document_id m = i) (ds_metadata ?db) = Some m" using metadata_find_created by blast
  then have "m \<in> set (ds_metadata ?db)" by (auto simp: find_Some_iff)
  then have "distinct (map fst (dm_tags m))" using metadata_ok_get_or_create[OF assms(1)] by (auto simp: metadata_ok_def)
  then have "map fst (sort_key snd (assign_tags tags (dm_tags m))) = tags"
    using assign_tags_sorted[OF assms(2)] by (simp add: o_def)
  then show ?thesis using m by (simp add: document_tags_def find_update_metadata[OF assms(3)] assms(4))
qed

text \<open>C15. Tags round trip: when a request to set the tags of a document is answered with 200, reading the tags back gives
  the very list in the answer, in its order, without duplicates and blanks, and it holds exactly the given tags
  with their surrounding white space removed; the tag table keeps its uniqueness constraint.\<close>

theorem set_tags_roundtrip:
  assumes "metadata_ok (dw_db w)" "set_document_tags en i tags w = Inr (reply, w')" "dr_code reply = 200"
  shows "dr_data reply = TagList (document_tags (dw_db w') i) \<and> distinct (document_tags (dw_db w') i) \<and>
    set (document_tags (dw_db w') i) = strip ` set tags \<and> '''' \<notin> set (document_tags (dw_db w') i) \<and> metadata_ok (dw_db w')"
proof -
  obtain ts where ts: "normalize_tags tags [] = Some ts" using assms(2,3) by (auto simp: set_document_tags_def Let_def split: option.splits)
  let ?f = "\<lambda>m. m\<lparr>dm_tags := assign_tags ts (dm_tags m), dm_last_modified_by_id := Some (us_id (de_user en))\<rparr>"
  let ?db = "update_metadata i ?f (get_or_create_document_metadata i (dw_db w))"
  have "dr_data reply = TagList ts \<and> dw_db w' = ?db"
    using assms(2,3) ts by (auto simp: set_document_tags_def Let_def and_then_def split: option.splits sum.splits if_splits)
  moreover have d: "distinct ts" "set ts = strip ` set tags" "'''' \<notin> set ts" using normalize_tags_spec[OF ts] by auto
  moreover have "document_tags ?db i = ts" by (rule document_tags_assigned[OF assms(1) d(1)]) simp_all
  moreover have "metadata_ok ?db"
    by (intro metadata_ok_update metadata_ok_get_or_create assms(1)) (simp_all add: assign_tags_names[OF d(1)])
  ultimately show ?thesis by simp
qed

definition author :: user where
  "author = \<lparr>us_id = ''u'', us_username = ''ann'', us_status = ACTIVE, us_groups = [],
     us_rights = map right [''create_document'', ''delete_document'', ''rename_document'', ''move'', ''purge'', ''restore'',
       ''set_metadata_tags'', ''delete_revision'', ''set_current_revision'', ''bypass_document_creation_rate_limit'']\<rparr>"

definition sample_download_policy :: download_risk_policy where
  "sample_download_policy = \<lparr>dp_enforce = True, dp_refill_period_seconds = 600, dp_issue_account_capacity = 60,
     dp_issue_account_refill_tokens = 300, dp_issue_ip_capacity = 200, dp_issue_ip_refill_tokens = 1000,
     dp_transfer_account_capacity = 60, dp_transfer_account_refill_tokens = 300, dp_transfer_ip_capacity = 200,
     dp_transfer_ip_refill_tokens = 1000, dp_task_capacity = 5, dp_task_refill_tokens = 5, dp_task_refill_period_seconds = 60,
     dp_elevated_cost = 3, dp_high_cost = 10, dp_new_account_seconds = 604800, dp_ip_account_window_seconds = 600,
     dp_ip_accounts_elevated = 4, dp_ip_accounts_high = 10, dp_denial_window_seconds = 600, dp_denials_elevated = 1,
     dp_denials_high = 3, dp_state_retention_seconds = 86400\<rparr>"

definition author_env :: document_env where
  "author_env = \<lparr>de_base = \<lparr>en_recursive = True, en_user = author, en_now = 5\<rparr>, de_remote_address = ''127.0.0.1'',
     de_account_created = None, de_creation_policy = default_creation_policy, de_max_pending = 20,
     de_download_policy = sample_download_policy, de_start_timeout = 300, de_rivals = (\<lambda>_. None)\<rparr>"

definition author_world :: doc_world where
  "author_world = \<lparr>dw_db = open_docs, dw_risk = used_up\<rparr>"

theorem set_tags_roundtrip_witness:
  "\<exists>rp w'. set_document_tags author_env ''dddd'' ['' b'', ''a'', ''b ''] author_world = Inr (rp, w') \<and>
     document_tags (dw_db w') ''dddd'' = [''b'', ''a'']"
proof -
  have r: "(case set_document_tags author_env ''dddd'' ['' b'', ''a'', ''b ''] author_world of Inl _ \<Rightarrow> False
      | Inr (rp, w') \<Rightarrow> rp = \<lparr>dr_code = 200, dr_data = TagList [''b'', ''a'']\<rparr>)" by code_simp
  then obtain rp w' where h: "set_document_tags author_env ''dddd'' ['' b'', ''a'', ''b ''] author_world = Inr (rp, w')"
    "rp = \<lparr>dr_code = 200, dr_data = TagList [''b'', ''a'']\<rparr>" by (auto split: sum.splits)
  have "metadata_ok (dw_db author_world)" by (simp add: metadata_ok_def author_world_def open_docs_def demo_docs_def)
  from set_tags_roundtrip[OF this h(1)] h show ?thesis by auto
qed

end
