(* ===== verification/DocumentTree.thy ===== *)
theory DocumentTree
  imports Documents
begin

text \<open>
  What the document requests keep of the hierarchy, alone and mixed with the directory requests.
\<close>

section \<open>Changes to the rows\<close>

lemma get_document_row: "get_document b db i = Some d \<Longrightarrow> d \<in> set (ds_nodes db) \<and> is_document d \<and> nd_id d = i"
  by (auto simp: get_document_def find_Some_iff)

lemma get_folder_row: "get_folder b db i = Some f \<Longrightarrow> f \<in> set (ds_nodes db) \<and> is_folder f \<and> nd_id f = i"
  by (auto simp: get_folder_def find_Some_iff)

lemma document_not_folder: "is_document r \<Longrightarrow> \<not> is_folder r"
  by (simp add: is_document_def is_folder_def)

lemma document_no_child:
  assumes t: "tree_ok db" and d: "d \<in> set (ds_nodes db)" "is_document d" and r: "r \<in> set (ds_nodes db)"
  shows "nd_parent r \<noteq> Some (nd_id d)" "nd_id d \<noteq> ROOT_DIRECTORY_ID"
proof -
  have uniq: "ids_unique db" using t by (simp add: tree_ok_def nodes_wf_def)
  have "rooted (ds_nodes db) r" using t r by (simp add: tree_ok_def)
  then show "nd_parent r \<noteq> Some (nd_id d)"
    using ids_unique_eq[OF uniq d(1)] document_not_folder[OF d(2)] by (auto simp: rooted_def split: if_splits)
  have "rooted (ds_nodes db) d" using t d(1) by (simp add: tree_ok_def)
  then show "nd_id d \<noteq> ROOT_DIRECTORY_ID" using document_not_folder[OF d(2)] by (auto simp: rooted_def)
qed

text \<open>A document row may be renamed, moved into any existing folder, deleted and brought back.\<close>

lemma tree_ok_document:
  assumes t: "tree_ok db" and d: "d \<in> set (ds_nodes db)" "is_document d" "nd_id d = i"
    and f: "f \<in> set (ds_nodes db)" "is_folder f" "nd_parent (g d) = Some (nd_id f)"
    and g: "nd_id (g d) = i" "is_document (g d)" "nr_status (g d) \<noteq> LOCKED"
    and n: "names_unique (ds_nodes (set_row i g db))"
  shows "tree_ok (set_row i g db)"
proof -
  let ?g = "\<lambda>r. if nd_id r = i then g r else r"
  obtain depth where rank: "ranked depth db" using t by (auto simp: tree_ok_def)
  have uniq: "ids_unique db" using t by (simp add: tree_ok_def nodes_wf_def)
  have only: "r = d" if "r \<in> set (ds_nodes db)" "nd_id r = i" for r using ids_unique_eq[OF uniq that(1) d(1)] that(2) d(3) by simp
  have fi: "nd_id f \<noteq> i" using only[OF f(1)] document_not_folder[OF d(2)] f(2) by blast
  show ?thesis
  proof (rule tree_ok_map[OF t set_row_nodes _ n])
    show "nd_id (?g r) = nd_id r \<and> nr_status (?g r) \<noteq> LOCKED" if "r \<in> set (ds_nodes db)" for r
      using only[OF that] g t that by (auto simp: tree_ok_def nodes_wf_def)
    show "ranked (depth(i := Suc (depth (nd_id f)))) (set_row i g db)"
      unfolding ranked_def set_row_nodes
    proof (rule ballI)
      fix s assume "s \<in> set (map ?g (ds_nodes db))"
      then obtain r where r: "r \<in> set (ds_nodes db)" "s = ?g r" by auto
      show "case nd_parent s of None \<Rightarrow> True | Some p \<Rightarrow> (depth(i := Suc (depth (nd_id f)))) p < (depth(i := Suc (depth (nd_id f)))) (nd_id s)"
      proof (cases "nd_id r = i")
        case True
        then show ?thesis using r only[OF r(1)] f(3) g(1) fi by simp
      next
        case False
        then show ?thesis using r document_no_child(1)[OF t d(1,2) r(1)] rankedD[OF rank r(1)] d(3) by (auto split: option.splits)
      qed
    qed
    show "rooted (map ?g (ds_nodes db)) (?g r)" if r: "r \<in> set (ds_nodes db)" for r
    proof (cases "nd_id r = i")
      case True
      then have "?g r = g d" using only[OF r] by simp
      then show ?thesis
        using f fi g(1,2) d(3) document_no_child(2)[OF t d(1,2) r] document_not_folder by (force simp: rooted_def)
    next
      case False
      have same: "nd_id (?g q) = nd_id q \<and> is_folder (?g q) = is_folder q" if "q \<in> set (ds_nodes db)" for q
        using only[OF that] g d(2) document_not_folder by auto
      have "nr_status (?g q) = OK" if "q \<in> set (ds_nodes db)" "is_folder q" "nr_status q = OK" for q
        using that only[OF that(1)] document_not_folder[OF d(2)] by auto
      with False show ?thesis
        by (intro rooted_map[of _ r]) (use t r same in \<open>auto simp: tree_ok_def rooted_def\<close>)
    qed
  qed
qed

lemma document_folder:
  assumes "tree_ok db" "d \<in> set (ds_nodes db)" "is_document d"
  obtains f where "f \<in> set (ds_nodes db)" "is_folder f" "nd_parent d = Some (nd_id f)"
proof -
  have "rooted (ds_nodes db) d" using assms by (simp add: tree_ok_def)
  then show ?thesis using that document_no_child(2)[OF assms assms(2)] by (auto simp: rooted_def)
qed

text \<open>The same for a document that stays in its folder.\<close>

lemma tree_ok_document_stays:
  assumes t: "tree_ok db" and d: "get_document b db i = Some d"
    and g: "nd_id (g d) = i" "is_document (g d)" "nr_status (g d) \<noteq> LOCKED" "nd_parent (g d) = nd_parent d"
    and n: "names_unique (ds_nodes (set_row i g db))"
  shows "tree_ok (set_row i g db)"
proof -
  note row = get_document_row[OF d]
  obtain f where "f \<in> set (ds_nodes db)" "is_folder f" "nd_parent d = Some (nd_id f)" using document_folder[OF t] row by blast
  then show ?thesis using tree_ok_document[OF t _ _ _ _ _ _ g(1,2,3) n] row g(4) by auto
qed

lemma tree_ok_document_placed:
  assumes t: "tree_ok db" and d: "get_document b db i = Some d" and f: "get_folder c db p = Some f"
    and g: "nd_id (g d) = i" "is_document (g d)" "nr_status (g d) \<noteq> LOCKED" "nd_parent (g d) = Some p"
    and n: "names_unique (ds_nodes (set_row i g db))"
  shows "tree_ok (set_row i g db)"
proof -
  note row = get_document_row[OF d] and target = get_folder_row[OF f]
  show ?thesis using tree_ok_document[OF t _ _ _ _ _ _ g(1,2,3) n] row target g(4) by auto
qed

section \<open>Revisions, files and tasks leave the rows alone\<close>

abbreviation rows :: "doc_db \<Rightarrow> (string \<times> string \<times> string option \<times> string \<times> entity_status) list" where
  "rows db \<equiv> map row_key (ds_nodes db)"

lemma rows_set_row: "(\<And>r. row_key (g r) = row_key r) \<Longrightarrow> rows (set_row i g db) = rows db"
  by (simp add: set_row_nodes)

lemma rows_steps [simp]:
  "rows (set_current_revision i c db) = rows db" "rows (mark_document_modified i u db) = rows db"
  "rows (create_file_task t db) = rows db" "rows (add_revision r db) = rows db" "rows (add_file f db) = rows db"
  "rows (relink_children r db) = rows db" "rows (cancel_tasks fs db) = rows db" "rows (queue_deferred q db) = rows db"
  "rows (drop_tasks_of_files fs db) = rows db" "rows (get_or_create_document_metadata i db) = rows db"
  "rows (update_metadata i h db) = rows db"
  unfolding set_current_revision_def
  by (auto intro!: rows_set_row simp: row_key_def mark_document_modified_def create_file_task_def add_revision_def add_file_def
      relink_children_def cancel_tasks_def queue_deferred_def drop_tasks_of_files_def update_metadata_def get_or_create_document_metadata_def)

lemma rows_drop_files: "drop_files fs db = Inr db' \<Longrightarrow> rows db' = rows db"
  by (auto simp: drop_files_def drop_tasks_of_files_def split: if_splits)

lemma rows_delete_revision: "delete_revision_and_unreferenced_file db r = Inr db' \<Longrightarrow> rows db' = rows db"
  by (auto simp: delete_revision_and_unreferenced_file_def Let_def dest!: rows_drop_files split: if_splits option.splits)

lemma rows_delete_all_revisions:
  assumes "delete_all_document_revisions db d = Inr db'"
  shows "rows db' = rows db"
proof -
  have "rows (set_row (nd_id d) (\<lambda>n. n\<lparr>nr_current_revision_id := None\<rparr>) db) = rows db" by (rule rows_set_row) (simp add: row_key_def)
  then show ?thesis
    using assms by (auto simp: delete_all_document_revisions_def Let_def and_then_Inr dest!: rows_drop_files split: if_splits)
qed

lemma tree_ok_drop_documents:
  assumes t: "tree_ok db" and d: "drop_documents ids db = Inr db'"
  shows "tree_ok db'"
proof -
  let ?G = "nd_id ` set (filter (\<lambda>n. nd_id n \<in> set ids \<and> is_document n) (ds_nodes db))"
  have uniq: "ids_unique db" using t by (simp add: tree_ok_def nodes_wf_def)
  have no: "nd_id f \<notin> ?G" if "f \<in> set (ds_nodes db)" "is_folder f" for f
    using ids_unique_eq[OF uniq that(1)] that(2) by (auto dest: document_not_folder)
  show ?thesis
  proof (rule tree_ok_remove[OF t])
    show "rows db' = map row_key (filter (\<lambda>r. nd_id r \<notin> ?G) (ds_nodes db))"
      using d by (auto simp: drop_documents_def Let_def split: if_splits)
    show "ROOT_DIRECTORY_ID \<notin> ?G" using t no root_row[OF t] unfolding tree_ok_def by metis
  qed (use no in blast)
qed

text \<open>Cleaning up also adds no row.\<close>

definition tree_within :: "string set \<Rightarrow> doc_db \<Rightarrow> bool" where
  "tree_within S db \<longleftrightarrow> tree_ok db \<and> nd_id ` set (ds_nodes db) \<subseteq> S"

lemma tree_within_keys: "rows db' = rows db \<Longrightarrow> tree_within S db \<Longrightarrow> tree_within S db'"
  using tree_ok_keys[of db' db] arg_cong[OF row_key_ids[of "ds_nodes db'" "ds_nodes db"], of set] by (simp add: tree_within_def)

lemma tree_within_purge:
  assumes "tree_within S db" "purge_documents_bulk db ids = Inr db'"
  shows "tree_within S db'"
proof -
  obtain G where "rows db' = map row_key (filter (\<lambda>n. nd_id n \<notin> G) (ds_nodes db))" using purge_rows[OF assms(2)] by blast
  then have "map nd_id (ds_nodes db') = map nd_id (filter (\<lambda>n. nd_id n \<notin> G) (ds_nodes db))" by (rule row_key_ids)
  then have "nd_id ` set (ds_nodes db') = nd_id ` set (filter (\<lambda>n. nd_id n \<notin> G) (ds_nodes db))" by (metis set_map)
  also have "\<dots> \<subseteq> nd_id ` set (ds_nodes db)" by auto
  finally show ?thesis using assms(1) tree_ok_purge_documents[OF _ assms(2)] by (auto simp: tree_within_def)
qed

lemma reclaim_revisions_tree:
  "tree_within S (cs_db st) \<Longrightarrow> reclaim_revisions task_id now rs st = Inr st' \<Longrightarrow> tree_within S (cs_db st')"
proof (induction rs arbitrary: st)
  case (Cons r rs)
  let ?db = "cs_db st" and ?doc = "rv_document_id r"
  show ?case
  proof (cases "\<not> document_has_active_revision ?db ?doc \<and> \<not> has_live_upload_for_document ?db ?doc task_id now")
    case True
    then obtain db' where "purge_documents_bulk ?db [?doc] = Inr db'" "cs_db st' = db'"
      using Cons.prems(2) by (auto simp: Let_def and_then_Inr)
    then show ?thesis using tree_within_purge[OF Cons.prems(1)] by simp
  next
    case False
    let ?parent = "case get_revision ?db (rv_id r) of None \<Rightarrow> None | Some r' \<Rightarrow> rv_parent_id r'"
    define db1 where "db1 = (case get_document False ?db ?doc of None \<Rightarrow> ?db
      | Some d \<Rightarrow> if nr_current_revision_id d = Some (rv_id r)
          then set_row ?doc (\<lambda>n. n\<lparr>nr_current_revision_id := ?parent\<rparr>) ?db else ?db)"
    have "rows db1 = rows ?db" unfolding db1_def by (auto split: option.splits intro!: rows_set_row simp: row_key_def)
    then have t1: "tree_within S db1" using tree_within_keys Cons.prems(1) by blast
    have "reclaim_revisions task_id now (r # rs) st = and_then (delete_revision_and_unreferenced_file db1 r) (\<lambda>db2.
        reclaim_revisions task_id now rs (st\<lparr>cs_db := db2, cs_removed_revisions := cs_removed_revisions st + 1\<rparr>))"
      by (simp only: reclaim_revisions.simps Let_def db1_def[symmetric] if_not_P[OF False])
    then obtain db2 where db2: "delete_revision_and_unreferenced_file db1 r = Inr db2"
      "reclaim_revisions task_id now rs (st\<lparr>cs_db := db2, cs_removed_revisions := cs_removed_revisions st + 1\<rparr>) = Inr st'"
      using Cons.prems(2) by (auto simp: and_then_Inr)
    then have "tree_within S db2" using tree_within_keys[OF rows_delete_revision[OF db2(1)] t1] by simp
    then show ?thesis using Cons.IH[OF _ db2(2)] by simp
  qed
qed simp

lemma reclaim_task_tree:
  assumes t: "tree_within S (cs_db st)" and h: "reclaim_task now c st = Inr st'"
  shows "tree_within S (cs_db st')"
proof -
  have keep: "tree_within S db" if "ds_nodes db = ds_nodes (cs_db st)" for db
    by (rule tree_within_keys[OF _ t]) (simp add: that)
  show ?thesis
    using h by (auto simp: reclaim_task_def queue_deferred_def Let_def intro: keep dest!: reclaim_revisions_tree[rotated]
        split: prod.splits if_splits option.splits)
qed

lemma reclaim_within: "tree_within S db \<Longrightarrow> tree_within S (try_reclaim_abandoned_uploads db now flt)"
proof (cases "reclaim_abandoned_uploads db now flt")
  case (Inr st)
  assume t: "tree_within S db"
  have "tree_within S (cs_db st)"
    by (rule foldM_invariant[OF Inr[unfolded reclaim_abandoned_uploads_def], where P = "\<lambda>st. tree_within S (cs_db st)"])
      (auto simp: t intro: reclaim_task_tree)
  then show ?thesis using Inr by (simp add: try_reclaim_abandoned_uploads_def)
qed (simp add: try_reclaim_abandoned_uploads_def)

lemma reclaim_tree: "tree_ok db \<Longrightarrow> tree_ok (try_reclaim_abandoned_uploads db now flt)"
  and reclaim_ids: "tree_ok db \<Longrightarrow> nd_id ` set (ds_nodes (try_reclaim_abandoned_uploads db now flt)) \<subseteq> nd_id ` set (ds_nodes db)"
  using reclaim_within[of "nd_id ` set (ds_nodes db)" db] by (auto simp: tree_within_def)

section \<open>Every document request keeps the tree\<close>

lemma checked_Inr: "checked db = Inr db' \<longleftrightarrow> names_unique (ds_nodes db) \<and> db' = db"
  by (auto simp: checked_def)

lemma target_folder:
  "get_target_folder_and_check_write b db u now (or_root i) p = Inr (Inr f) \<Longrightarrow> get_folder False db (or_root i) = Some f"
  by (cases i) (auto simp: or_root_def ROOT_DIRECTORY_ID_def Let_def get_target_folder_and_check_write_def and_then_Inr split: option.splits if_splits)

lemma store_new_document_tree:
  assumes t: "tree_ok (dw_db w)" and f: "get_folder False (dw_db w) p = Some f"
    and fresh: "ni_document ids \<notin> nd_id ` set (ds_nodes (dw_db w))" "ni_document ids \<noteq> ''''"
    and h: "store_new_document en ids p title docs inh w = Inr (Some (rp, w'))"
  shows "tree_ok (dw_db w')"
proof -
  let ?db1 = "insert_document en ids p title (dw_db w)"
  let ?x = "new_document (ni_document ids) title p (de_now en)"
  have x: "ds_nodes ?db1 = ds_nodes (dw_db w) @ [?x]" by (simp add: insert_document_def add_revision_def add_file_def)
  obtain adb where "names_unique (ds_nodes ?db1)" and w': "rows (dw_db w') = rows (store_access adb ?db1)"
    using h by (auto simp: store_new_document_def and_then_Inr checked_Inr Let_def split: if_splits)
  then have "tree_ok ((dw_db w)\<lparr>ds_nodes := ds_nodes (dw_db w) @ [?x]\<rparr>)"
    using tree_ok_insert[OF t f, of ?x] fresh x by (simp add: new_document_def)
  then have "tree_ok ?db1" using x by (intro tree_ok_keys[of ?db1]) simp_all
  then show ?thesis using tree_ok_keys[OF w'] tree_ok_access by blast
qed

lemma create_in_transaction_cases:
  assumes "create_document_in_transaction en ids (or_root p) title docs inh w = Inr (rp, w')"
  shows "dw_db w' = dw_db w \<or> (\<exists>f risk. get_folder False (dw_db w) (or_root p) = Some f \<and>
    store_new_document en ids (or_root p) title docs inh (w\<lparr>dw_risk := risk\<rparr>) = Inr (Some (rp, w')))"
proof (cases "permitted (de_base en) (dw_db w) ''create_document''")
  case True
  let ?target = "get_target_folder_and_check_write (en_recursive (de_base en)) (dw_db w) (de_user en) (de_now en) (or_root p) ''super_create_document''"
  obtain target where target: "?target = Inr target"
    using assms True by (auto simp: create_document_in_transaction_def Let_def and_then_Inr)
  show ?thesis
  proof (cases target)
    case (Inr f)
    then have "get_folder False (dw_db w) (or_root p) = Some f" using target_folder target by blast
    with Inr show ?thesis
      using assms True target unfolding create_document_in_transaction_def Let_def
      by (auto simp: and_then_Inr split: if_splits prod.splits option.splits)
  qed (use assms True target in \<open>auto simp: create_document_in_transaction_def Let_def\<close>)
qed (use assms in \<open>simp add: create_document_in_transaction_def Let_def\<close>)

lemma create_document_tree:
  assumes t: "tree_ok (dw_db w)" and h: "create_document en ids rq w = Inr (rp, w')"
    and fresh: "ni_document ids \<notin> nd_id ` set (ds_nodes (dw_db w))" "ni_document ids \<noteq> ''''"
  shows "tree_ok (dw_db w')"
proof -
  let ?p = "or_root (cq_folder_id rq)" and ?title = "strip (cq_title rq)" and ?inh = "get_or (cq_inherit_parent rq) True"
  define w1 where "w1 = w\<lparr>dw_db := try_reclaim_abandoned_uploads (dw_db w) (de_now en)
    \<lparr>cl_document_id = None, cl_folder_id = Some ?p, cl_title = Some ?title, cl_limit = None\<rparr>\<rparr>"
  have t1: "tree_ok (dw_db w1)" using reclaim_tree[OF t] by (simp add: w1_def)
  have fresh1: "ni_document ids \<notin> nd_id ` set (ds_nodes (dw_db w1))" using reclaim_ids[OF t] fresh(1) by (auto simp: w1_def)
  have "dw_db w' = dw_db w \<or> dw_db w' = dw_db w1 \<or>
      create_document_in_transaction en ids ?p ?title (cq_access_rules rq) ?inh w1 = Inr (rp, w')"
    using h unfolding create_document_def Let_def w1_def[symmetric]
    by (auto simp: and_then_Inr split: if_splits sum.splits doc_error.splits)
  then show ?thesis
  proof (elim disjE)
    assume "create_document_in_transaction en ids ?p ?title (cq_access_rules rq) ?inh w1 = Inr (rp, w')"
    from create_in_transaction_cases[OF this] show ?thesis
    proof (elim disjE exE conjE)
      fix f risk assume f: "get_folder False (dw_db w1) ?p = Some f"
        and s: "store_new_document en ids ?p ?title (cq_access_rules rq) ?inh (w1\<lparr>dw_risk := risk\<rparr>) = Inr (Some (rp, w'))"
      show ?thesis using store_new_document_tree[OF _ _ _ fresh(2) s] t1 f fresh1 by simp
    qed (use t1 in simp)
  qed (use t t1 in simp_all)
qed

lemma upload_document_tree:
  assumes t: "tree_ok (dw_db w)" and h: "upload_document en ids i requested w = Inr (rp, w')"
  shows "tree_ok (dw_db w')"
proof -
  let ?db = "try_reclaim_abandoned_uploads (dw_db w) (de_now en)
    \<lparr>cl_document_id = Some i, cl_folder_id = None, cl_title = None, cl_limit = None\<rparr>"
  have "rows (dw_db w') = rows ?db"
    using h by (auto simp: upload_document_def Let_def and_then_Inr split: option.splits if_splits prod.splits)
  then show ?thesis using reclaim_tree[OF t] tree_ok_keys by blast
qed

lemma delete_document_tree:
  assumes t: "tree_ok (dw_db w)" and h: "delete_document en op i w = Inr (rp, w')"
  shows "tree_ok (dw_db w')"
proof -
  let ?g = "\<lambda>r. r\<lparr>nr_status := DELETED, nr_operation_id := Some op\<rparr>"
  have "rows (dw_db w') = rows (dw_db w) \<or>
      (\<exists>d. get_document False (dw_db w) i = Some d \<and> rows (dw_db w') = rows (set_row i ?g (dw_db w)))"
    using h by (auto simp: delete_document_def Let_def and_then_Inr split: option.splits if_splits)
  then show ?thesis
  proof (elim disjE exE conjE)
    fix d assume d: "get_document False (dw_db w) i = Some d" and r: "rows (dw_db w') = rows (set_row i ?g (dw_db w))"
    have "names_unique (ds_nodes (set_row i ?g (dw_db w)))"
      using t unfolding set_row_nodes tree_ok_def
      by (intro names_unique_sub) (auto simp: name_slot_def active_name_def split: option.splits)
    then have "tree_ok (set_row i ?g (dw_db w))"
      using get_document_row[OF d] by (intro tree_ok_document_stays[OF t d]) (auto simp: is_document_def)
    then show ?thesis using tree_ok_keys[OF r] by blast
  qed (use t tree_ok_keys in blast)
qed

lemma rename_document_tree:
  assumes t: "tree_ok (dw_db w)" and h: "rename_document en i title w = Inr (rp, w')"
  shows "tree_ok (dw_db w')"
proof -
  let ?new = "set_row i (\<lambda>r. r\<lparr>nr_name := title\<rparr>) (dw_db w)"
  have "rows (dw_db w') = rows (dw_db w) \<or> names_unique (ds_nodes ?new) \<and> rows (dw_db w') = rows ?new"
    using h by (auto simp: rename_document_def Let_def and_then_Inr checked_Inr split: option.splits if_splits sum.splits)
  then show ?thesis using t tree_ok_rename[OF t] tree_ok_keys by blast
qed

lemma move_document_tree:
  assumes t: "tree_ok (dw_db w)" and h: "move_document en i target_id w = Inr (rp, w')"
  shows "tree_ok (dw_db w')"
proof -
  let ?new = "set_row i (\<lambda>r. r\<lparr>nd_parent := Some (or_root target_id)\<rparr>) (dw_db w)"
  have "rows (dw_db w') = rows (dw_db w) \<or> (\<exists>d f. get_document False (dw_db w) i = Some d \<and>
      get_folder False (dw_db w) (or_root target_id) = Some f \<and> names_unique (ds_nodes ?new) \<and> rows (dw_db w') = rows ?new)"
    using h by (auto simp: move_document_def Let_def and_then_Inr checked_Inr split: option.splits if_splits sum.splits)
  then show ?thesis
  proof (elim disjE exE conjE)
    fix d f assume d: "get_document False (dw_db w) i = Some d" and f: "get_folder False (dw_db w) (or_root target_id) = Some f"
      and n: "names_unique (ds_nodes ?new)" and r: "rows (dw_db w') = rows ?new"
    have "nr_status d \<noteq> LOCKED" using t get_document_row[OF d] by (auto simp: tree_ok_def nodes_wf_def)
    then have "tree_ok ?new" using get_document_row[OF d] by (intro tree_ok_document_placed[OF t d f _ _ _ _ n]) (auto simp: is_document_def)
    then show ?thesis using tree_ok_keys[OF r] by blast
  qed (use t tree_ok_keys in blast)
qed

lemma restore_document_tree:
  assumes t: "tree_ok (dw_db w)" and h: "restore_document en i rq w = Inr (rp, w')"
  shows "tree_ok (dw_db w')"
proof -
  let ?new = "\<lambda>name p. set_row i (\<lambda>r. r\<lparr>nr_status := OK, nr_operation_id := None, nr_name := name, nd_parent := Some p\<rparr>) (dw_db w)"
  have "rows (dw_db w') = rows (dw_db w) \<or> (\<exists>d f p name. get_document True (dw_db w) i = Some d \<and>
      get_folder True (dw_db w) p = Some f \<and> names_unique (ds_nodes (?new name p)) \<and> rows (dw_db w') = rows (?new name p))"
    using h unfolding restore_document_def Let_def
    by (auto simp: and_then_Inr checked_Inr place_node_def split: option.splits if_splits sum.splits; blast)
  then show ?thesis
  proof (elim disjE exE conjE)
    fix d f p name assume d: "get_document True (dw_db w) i = Some d" and f: "get_folder True (dw_db w) p = Some f"
      and n: "names_unique (ds_nodes (?new name p))" and r: "rows (dw_db w') = rows (?new name p)"
    have "tree_ok (?new name p)" using get_document_row[OF d] by (intro tree_ok_document_placed[OF t d f _ _ _ _ n]) (auto simp: is_document_def)
    then show ?thesis using tree_ok_keys[OF r] by blast
  qed (use t tree_ok_keys in blast)
qed

lemma purge_document_tree:
  assumes t: "tree_ok (dw_db w)" and h: "purge_document en i w = Inr (rp, w')"
  shows "tree_ok (dw_db w')"
proof -
  have "dw_db w' = dw_db w \<or> (\<exists>d db1 db2. delete_all_document_revisions (dw_db w) d = Inr db1 \<and> rows db2 = rows db1 \<and>
      drop_documents [i] db2 = Inr (dw_db w'))"
    using h by (auto simp: purge_document_def Let_def and_then_Inr intro: rows_steps split: option.splits if_splits)
  then show ?thesis
    using t rows_delete_all_revisions tree_ok_drop_documents tree_ok_keys by metis
qed

lemma set_document_rules_tree:
  assumes t: "tree_ok (dw_db w)" and h: "set_document_rules en s rival i docs inh w = Inr (rp, w')"
  shows "tree_ok (dw_db w')"
proof -
  have "rows (dw_db w') = rows (dw_db w) \<or> (\<exists>adb. rows (dw_db w') = rows (store_access adb (dw_db w)))"
    using h by (auto simp: set_document_rules_def apply_rules_to_def Let_def and_then_Inr split: if_splits option.splits sum.splits)
  then show ?thesis using t tree_ok_access tree_ok_keys by blast
qed

lemma delete_revision_tree:
  assumes t: "tree_ok (dw_db w)" and h: "delete_revision en i w = Inr (rp, w')"
  shows "tree_ok (dw_db w')"
proof -
  have "rows (dw_db w') = rows (dw_db w)"
    using h by (auto simp: delete_revision_def Let_def and_then_Inr dest!: rows_delete_revision split: if_splits option.splits)
  then show ?thesis using t tree_ok_keys by blast
qed

lemma rows_only:
  "set_document_tags en i tags w = Inr (rp, w') \<Longrightarrow> rows (dw_db w') = rows (dw_db w)"
  "set_document_revision en i r w = Inr (rp, w') \<Longrightarrow> rows (dw_db w') = rows (dw_db w)"
  "get_document_request en k i w = Inr (rp, w') \<Longrightarrow> rows (dw_db w') = rows (dw_db w)"
  "get_revision_request en k i w = Inr (rp, w') \<Longrightarrow> rows (dw_db w') = rows (dw_db w)"
  by (auto simp: set_document_tags_def set_document_revision_def get_document_request_def get_revision_request_def issue_download_def
      Let_def and_then_Inr split: if_splits option.splits prod.splits)

section \<open>Any requests in any order\<close>

datatype document_request =
    GetDocument document_env string string
  | GetRevision document_env string string
  | CreateDocument document_env new_ids create_document_request
  | UploadDocument document_env new_ids string "string option option"
  | DeleteDocument document_env string string
  | RenameDocument document_env string string
  | MoveDocument document_env string "string option"
  | SetDocumentRules document_env string "string option option" string rule_docs "bool option"
  | SetDocumentTags document_env string "string list"
  | PurgeDocument document_env string
  | RestoreDocument document_env string restore_request
  | SetDocumentRevision document_env string string
  | DeleteRevision document_env string

fun handle_document_request :: "document_request \<Rightarrow> doc_world \<Rightarrow> doc_handled" where
  "handle_document_request (GetDocument en k i) w = get_document_request en k i w"
| "handle_document_request (GetRevision en k i) w = get_revision_request en k i w"
| "handle_document_request (CreateDocument en ids rq) w = create_document en ids rq w"
| "handle_document_request (UploadDocument en ids i p) w = upload_document en ids i p w"
| "handle_document_request (DeleteDocument en op i) w = delete_document en op i w"
| "handle_document_request (RenameDocument en i title) w = rename_document en i title w"
| "handle_document_request (MoveDocument en i t) w = move_document en i t w"
| "handle_document_request (SetDocumentRules en s rival i docs inh) w = set_document_rules en s rival i docs inh w"
| "handle_document_request (SetDocumentTags en i tags) w = set_document_tags en i tags w"
| "handle_document_request (PurgeDocument en i) w = purge_document en i w"
| "handle_document_request (RestoreDocument en i rq) w = restore_document en i rq w"
| "handle_document_request (SetDocumentRevision en i r) w = set_document_revision en i r w"
| "handle_document_request (DeleteRevision en r) w = delete_revision en r w"

text \<open>The identifier drawn for a new document is not empty and not in use.\<close>

fun fresh_document :: "doc_db \<Rightarrow> document_request \<Rightarrow> bool" where
  "fresh_document db (CreateDocument en ids rq) \<longleftrightarrow> ni_document ids \<noteq> '''' \<and> ni_document ids \<notin> nd_id ` set (ds_nodes db)"
| "fresh_document db rq \<longleftrightarrow> True"

inductive library :: "doc_world \<Rightarrow> doc_world \<Rightarrow> bool" for start where
  library_start: "library start start"
| library_directory: "library start w \<Longrightarrow> fresh_request (dw_db w) rq \<Longrightarrow> \<not> is_restore rq \<Longrightarrow>
    handle_directory_request rq (dw_db w) = Inr (rp, db') \<Longrightarrow> library start (w\<lparr>dw_db := db'\<rparr>)"
| library_document: "library start w \<Longrightarrow> fresh_document (dw_db w) rq \<Longrightarrow>
    handle_document_request rq w = Inr (rp, w') \<Longrightarrow> library start w'"

lemma document_request_tree:
  "tree_ok (dw_db w) \<Longrightarrow> fresh_document (dw_db w) rq \<Longrightarrow> handle_document_request rq w = Inr (rp, w') \<Longrightarrow> tree_ok (dw_db w')"
  by (cases rq) (auto intro: create_document_tree upload_document_tree delete_document_tree rename_document_tree move_document_tree
      set_document_rules_tree purge_document_tree restore_document_tree delete_revision_tree tree_ok_keys[OF rows_only(1)]
      tree_ok_keys[OF rows_only(2)] tree_ok_keys[OF rows_only(3)] tree_ok_keys[OF rows_only(4)])

lemma library_tree: "library w w' \<Longrightarrow> tree_ok (dw_db w) \<Longrightarrow> tree_ok (dw_db w')"
  by (induction rule: library.induct) (auto intro: request_tree document_request_tree)

text \<open>C13. Whatever sequence of requests on directories and documents users send, answered or refused, except for restoring
  a directory, the hierarchy stays a tree: identifiers and the names in a folder stay unique, every node keeps an existing
  parent folder and no folder ever gets below itself, and every folder that is not deleted can be reached from the root
  through folders that are not deleted.\<close>

theorem library_requests_keep_tree:
  assumes "tree_ok (dw_db w)" "library w w'"
  shows "ids_unique (dw_db w') \<and> names_unique (ds_nodes (dw_db w')) \<and> (\<exists>depth. ranked depth (dw_db w')) \<and>
    (\<forall>r \<in> set (ds_nodes (dw_db w')). nd_id r \<noteq> ROOT_DIRECTORY_ID \<longrightarrow>
      (\<exists>f \<in> set (ds_nodes (dw_db w')). is_folder f \<and> nd_parent r = Some (nd_id f)) \<and>
      (is_folder r \<longrightarrow> nr_status r = OK \<longrightarrow> descends (dw_db w') (nd_parent r) ROOT_DIRECTORY_ID {}))"
  using tree_ok_shape[OF library_tree[OF assms(2,1)]] .

theorem library_requests_keep_tree_witness:
  "\<exists>db'. handle_directory_request (MoveDirectory keeper_env ''cccc'' (Some ''aa'')) (dw_db author_world) = Inr (plain 200, db') \<and>
   (\<exists>w'. handle_document_request (MoveDocument author_env ''dddd'' (Some ''aa'')) (author_world\<lparr>dw_db := db'\<rparr>) = Inr (bare 200, w') \<and>
     names_unique (ds_nodes (dw_db w')))"
proof -
  let ?m = "handle_directory_request (MoveDirectory keeper_env ''cccc'' (Some ''aa'')) (dw_db author_world)"
  let ?d = "\<lambda>db'. handle_document_request (MoveDocument author_env ''dddd'' (Some ''aa'')) (author_world\<lparr>dw_db := db'\<rparr>)"
  have c: "case ?m of Inl _ \<Rightarrow> False | Inr (rp, db') \<Rightarrow> rp = plain 200 \<and>
     (case ?d db' of Inl _ \<Rightarrow> False | Inr (rp, w') \<Rightarrow> rp = bare 200)" by code_simp
  obtain rp db' where m: "?m = Inr (rp, db')" using c by (cases ?m) (simp_all only: sum.case, auto)
  obtain rp' w' where d: "?d db' = Inr (rp', w')" using c unfolding m by (cases "?d db'") (simp_all only: sum.case prod.case, auto)
  have m: "?m = Inr (plain 200, db')" "?d db' = Inr (bare 200, w')" using c m d by (simp_all only: sum.case prod.case)
  have "library author_world (author_world\<lparr>dw_db := db'\<rparr>)" by (rule library_directory[OF library_start _ _ m(1)]) simp_all
  then have "library author_world w'" by (rule library_document[OF _ _ m(2)]) simp
  moreover have "tree_ok (dw_db author_world)" using open_docs_tree by (simp add: author_world_def)
  ultimately show ?thesis using library_requests_keep_tree m by blast
qed

end
