(* ===== verification/Uploads.thy ===== *)
theory Uploads
  imports DocumentTree
begin

text \<open>
  What readers of a document see while a new revision is uploaded, and when the upload is complete.
\<close>

section \<open>A new revision\<close>

lemma find_append: "find P (xs @ ys) = (case find P xs of None \<Rightarrow> find P ys | Some x \<Rightarrow> Some x)"
  by (induction xs) auto

definition with_revision :: "new_ids \<Rightarrow> string \<Rightarrow> timestamp \<Rightarrow> string option \<Rightarrow> doc_db \<Rightarrow> doc_db" where
  "with_revision ids i now p db =
     add_revision (new_revision (ni_revision ids) i (ni_file ids) now p) (add_file (new_stored_file (ni_file ids) (ni_path ids)) db)"

text \<open>The identifiers drawn for the file and the revision are not empty and not in use.\<close>

definition fresh_upload :: "new_ids \<Rightarrow> doc_db \<Rightarrow> bool" where
  "fresh_upload ids db \<longleftrightarrow> ni_file ids \<noteq> '''' \<and> ni_file ids \<notin> fl_id ` set (fd_files (ds_files db)) \<and>
     ni_revision ids \<notin> rv_id ` set (ds_revisions db)"

lemma upload_document_new:
  assumes "upload_document en ids i None w = Inr (rp, w')"
    and "db = try_reclaim_abandoned_uploads (dw_db w) (de_now en) \<lparr>cl_document_id = Some i, cl_folder_id = None, cl_title = None, cl_limit = None\<rparr>"
    and "existing_upload db i = None" "dr_code rp = 200"
  obtains d p where "get_document False db i = Some d" "parent_revision db d None = Inr (Some p)"
    "dw_db w' = create_file_task (new_file_task en (ni_task ids) (ni_file ids) UPLOAD None)
       (set_current_revision i (ni_revision ids) (mark_document_modified i (us_id (de_user en)) (with_revision ids i (de_now en) p db)))"
  using assms(1,3,4) unfolding upload_document_def assms(2)[symmetric] Let_def with_revision_def
  by (auto simp: and_then_Inr split: option.splits if_splits)

text \<open>The store after the request, as far as revisions and files go.\<close>

definition uploading :: "new_ids \<Rightarrow> string \<Rightarrow> timestamp \<Rightarrow> string option \<Rightarrow> doc_db \<Rightarrow> doc_db \<Rightarrow> bool" where
  "uploading ids i now p db db' \<longleftrightarrow>
     ds_nodes db' = map (\<lambda>n. if nd_id n = i then n\<lparr>nr_current_revision_id := Some (ni_revision ids)\<rparr> else n) (ds_nodes db) \<and>
     ds_revisions db' = ds_revisions db @ [new_revision (ni_revision ids) i (ni_file ids) now p] \<and>
     fd_files (ds_files db') = fd_files (ds_files db) @ [new_stored_file (ni_file ids) (ni_path ids)] \<and>
     ds_avatars db' = ds_avatars db"

lemma uploading_steps:
  "uploading ids i now p db (create_file_task t (set_current_revision i (ni_revision ids) (mark_document_modified i u (with_revision ids i now p db))))"
  by (simp add: uploading_def create_file_task_def set_current_revision_def set_row_def update_rows_def mark_document_modified_def
      update_metadata_def get_or_create_document_metadata_def with_revision_def add_revision_def add_file_def)

lemma uploading_store:
  assumes u: "uploading ids i now p db db'" and ok: "store_ok db" and fresh: "fresh_upload ids db"
    and d: "d \<in> set (ds_nodes db)" "is_document d" "nd_id d = i"
  shows "store_ok db'"
proof -
  have ids: "map nd_id (ds_nodes db') = map nd_id (ds_nodes db)" using u by (simp add: uploading_def)
  have docs: "\<exists>n \<in> set (ds_nodes db'). is_document n \<and> nd_id n = j" if "\<exists>n \<in> set (ds_nodes db). is_document n \<and> nd_id n = j" for j
  proof -
    from that obtain n where "n \<in> set (ds_nodes db)" "is_document n" "nd_id n = j" by blast
    then show ?thesis
      using u by (intro bexI[of _ "if nd_id n = i then n\<lparr>nr_current_revision_id := Some (ni_revision ids)\<rparr> else n"])
        (auto simp: uploading_def is_document_def)
  qed
  have revs: "ds_revisions db' = ds_revisions db @ [new_revision (ni_revision ids) i (ni_file ids) now p]"
    "fd_files (ds_files db') = fd_files (ds_files db) @ [new_stored_file (ni_file ids) (ni_path ids)]" "ds_avatars db' = ds_avatars db"
    using u by (simp_all add: uploading_def)
  have "ids_unique db'" using ok ids by (simp only: store_ok_def ids_unique_def)
  moreover have "\<exists>n \<in> set (ds_nodes db'). is_document n \<and> nd_id n = i" using docs d by blast
  moreover have "\<exists>n \<in> set (ds_nodes db'). is_document n \<and> nd_id n = rv_document_id r" if "r \<in> set (ds_revisions db)" for r
    using docs ok that by (simp add: store_ok_def)
  ultimately show ?thesis
    using ok fresh unfolding store_ok_def fresh_upload_def revs by (auto simp: new_revision_def new_stored_file_def)
qed

lemma uploading_active:
  assumes u: "uploading ids i now p db db'" and ok: "store_ok db" and fresh: "fresh_upload ids db"
  shows "r \<in> set (ds_revisions db) \<Longrightarrow> revision_active db' r = revision_active db r"
    and "\<not> revision_active db' (new_revision (ni_revision ids) i (ni_file ids) now p)"
proof -
  have g: "get_file (ds_files db') j = (if j = ni_file ids then Some (new_stored_file (ni_file ids) (ni_path ids)) else get_file (ds_files db) j)"
    if "j \<in> fl_id ` set (fd_files (ds_files db)) \<or> j = ni_file ids" for j
  proof (cases "j = ni_file ids")
    case True
    then have "find (\<lambda>f. fl_id f = j) (fd_files (ds_files db)) = None" using fresh unfolding find_None_iff fresh_upload_def by (metis image_eqI)
    then show ?thesis
      using u True by (simp add: uploading_def get_file_def find_append new_stored_file_def)
  next
    case False
    then show ?thesis
      using u unfolding uploading_def get_file_def by (auto simp: find_append new_stored_file_def split: option.splits)
  qed
  show "revision_active db' r = revision_active db r" if "r \<in> set (ds_revisions db)"
  proof -
    have "rv_file_id r \<in> fl_id ` set (fd_files (ds_files db))" using ok that by (auto simp: store_ok_def)
    moreover then have "rv_file_id r \<noteq> ni_file ids" using fresh by (auto simp: fresh_upload_def)
    ultimately show ?thesis using g[of "rv_file_id r"] by (simp add: revision_active_def)
  qed
  show "\<not> revision_active db' (new_revision (ni_revision ids) i (ni_file ids) now p)"
    using g[of "ni_file ids"] by (simp add: revision_active_def new_revision_def new_stored_file_def)
qed

lemma store_get_revision: "store_ok db \<Longrightarrow> get_revision db j = Some r \<longleftrightarrow> r \<in> set (ds_revisions db) \<and> rv_id r = j"
  unfolding get_revision_def by (rule find_unique) (simp add: store_ok_def)

lemma latest_revision_document:
  assumes "store_ok db" "d \<in> set (ds_nodes db)" "is_document d"
  shows "latest_revision db (nd_id d) = (case active_branch (length (ds_revisions db)) db (nr_current_revision_id d) of
    None \<Rightarrow> fallback_revision db (nd_id d) | Some r \<Rightarrow> Some r)"
proof -
  have "ids_unique db" using assms(1) by (simp add: store_ok_def)
  then show ?thesis
    using find_document[OF _ assms(2,3)] by (simp add: latest_revision_def chain_revision_def chain_branch[OF assms(1)])
qed

lemma uploading_fallback:
  assumes u: "uploading ids i now p db db'" and ok: "store_ok db" and fresh: "fresh_upload ids db"
  shows "fallback_revision db' j = fallback_revision db j"
proof -
  have "filter (\<lambda>r. rv_document_id r = j \<and> revision_active db' r) (ds_revisions db') =
      filter (\<lambda>r. rv_document_id r = j \<and> revision_active db r) (ds_revisions db)"
    using uploading_active[OF u ok fresh] u by (simp add: uploading_def cong: filter_cong)
  then show ?thesis by (simp add: fallback_revision_def)
qed

text \<open>With the default parent the latest revision stays the latest one.\<close>

lemma uploading_latest:
  assumes u: "uploading ids i now p db db'" and ok: "store_ok db" and fresh: "fresh_upload ids db"
    and d: "get_document False db i = Some d" and p: "parent_revision db d None = Inr (Some p)"
  shows "latest_revision db' i = latest_revision db i"
proof -
  note row = get_document_row[OF d]
  let ?d = "d\<lparr>nr_current_revision_id := Some (ni_revision ids)\<rparr>"
  let ?new = "new_revision (ni_revision ids) i (ni_file ids) now p"
  have ok': "store_ok db'" using uploading_store[OF u ok fresh] row by blast
  have "?d \<in> set (ds_nodes db')" using u row by (force simp: uploading_def)
  then have l': "latest_revision db' i = (case active_branch (length (ds_revisions db')) db' (Some (ni_revision ids)) of
      None \<Rightarrow> fallback_revision db' i | Some r \<Rightarrow> Some r)"
    using latest_revision_document[OF ok', of ?d] row by (simp add: is_document_def split: option.split)
  have "get_revision db' (ni_revision ids) = Some ?new"
    using store_get_revision[OF ok'] u by (simp add: uploading_def new_revision_def)
  moreover have "length (ds_revisions db') = Suc (length (ds_revisions db))" using u by (simp add: uploading_def)
  ultimately have b: "active_branch (length (ds_revisions db')) db' (Some (ni_revision ids)) = active_branch (length (ds_revisions db)) db' p"
    using uploading_active(2)[OF u ok fresh] by (simp add: new_revision_def)
  have l: "latest_revision db i = (case get_latest_revision db d of Inl _ \<Rightarrow> None | Inr r \<Rightarrow> Some r)"
    using latest_revision_get[OF ok] row by blast
  show ?thesis
  proof (cases "get_latest_revision db d")
    case (Inl e)
    then have "p = None" using p by (simp add: parent_revision_def split: if_splits)
    then have "latest_revision db' i = fallback_revision db i"
      unfolding l' b uploading_fallback[OF u ok fresh] by (cases "length (ds_revisions db)") simp_all
    moreover have "fallback_revision db i = None"
      using Inl l latest_revision_document[OF ok, of d] row by (auto split: option.splits)
    ultimately show ?thesis using l Inl by simp
  next
    case (Inr r)
    then have pr: "p = Some (rv_id r)" "latest_revision db i = Some r" using p l by (simp_all add: parent_revision_def)
    have r: "r \<in> set (ds_revisions db)" "revision_active db r" using latest_revision_in[OF pr(2)] by auto
    then have "get_revision db' (rv_id r) = Some r" using store_get_revision[OF ok'] u by (simp add: uploading_def)
    moreover have "revision_active db' r" using uploading_active(1)[OF u ok fresh r(1)] r(2) by simp
    moreover obtain n where "length (ds_revisions db) = Suc n" using r(1) by (cases "ds_revisions db") auto
    ultimately show ?thesis unfolding l' b by (simp add: pr)
  qed
qed

section \<open>The completed upload\<close>

lemma finalize_files:
  assumes "finalize_upload_task fd t f sha n = Inr (Some COMPLETED, fd')"
  shows "fd_files fd' = map (\<lambda>x. if fl_id x = f then x\<lparr>fl_sha256 := sha, fl_size := Some n, fl_active := True\<rparr> else x) (fd_files fd)"
  using assms by (auto simp: finalize_upload_task_def complete_file_task_def update_tasks_def set_file_def set_task_def split: option.splits if_splits prod.splits)

lemma finalized_store: "store_ok db \<Longrightarrow> finalize_upload_task (ds_files db) t f sha n = Inr (Some COMPLETED, fd') \<Longrightarrow> store_ok (db\<lparr>ds_files := fd'\<rparr>)"
proof -
  assume ok: "store_ok db" and fin: "finalize_upload_task (ds_files db) t f sha n = Inr (Some COMPLETED, fd')"
  have "map fl_id (fd_files fd') = map fl_id (fd_files (ds_files db))" unfolding finalize_files[OF fin] by simp
  moreover then have "fl_id ` set (fd_files fd') = fl_id ` set (fd_files (ds_files db))" by (metis set_map)
  ultimately show ?thesis using ok by (simp add: store_ok_def ids_unique_def)
qed

lemma completed_latest:
  assumes u: "uploading ids i now p db db'" and ok: "store_ok db" and fresh: "fresh_upload ids db"
    and d: "get_document False db i = Some d"
    and fin: "finalize_upload_task (ds_files db') t (ni_file ids) sha n = Inr (Some COMPLETED, fd')"
  shows "latest_revision (db'\<lparr>ds_files := fd'\<rparr>) i = Some (new_revision (ni_revision ids) i (ni_file ids) now p)"
proof -
  note row = get_document_row[OF d]
  let ?db = "db'\<lparr>ds_files := fd'\<rparr>" and ?new = "new_revision (ni_revision ids) i (ni_file ids) now p"
  let ?d = "d\<lparr>nr_current_revision_id := Some (ni_revision ids)\<rparr>"
  have ok': "store_ok ?db" using finalized_store[OF uploading_store[OF u ok fresh] fin] row by blast
  have "?d \<in> set (ds_nodes ?db)" using u row by (force simp: uploading_def)
  then have l: "latest_revision ?db i = (case active_branch (length (ds_revisions ?db)) ?db (Some (ni_revision ids)) of
      None \<Rightarrow> fallback_revision ?db i | Some r \<Rightarrow> Some r)"
    using latest_revision_document[OF ok', of ?d] row by (simp add: is_document_def split: option.split)
  have "get_revision ?db (ni_revision ids) = Some ?new"
    using store_get_revision[OF ok'] u by (simp add: uploading_def new_revision_def)
  moreover have "revision_active ?db ?new"
    using u finalize_files[OF fin] unfolding revision_active_iff[OF ok'] by (simp add: uploading_def new_revision_def new_stored_file_def)
  ultimately show ?thesis unfolding l using u by (simp add: uploading_def)
qed


section \<open>Abandoning an upload\<close>

abbreviation reader_sees :: "doc_db \<Rightarrow> string \<Rightarrow> string option" where
  "reader_sees db i \<equiv> map_option rv_id (od_get (fetch_latest_active_revisions_by_document db [i]) i)"

definition revised_docs :: doc_db where
  "revised_docs = open_docs\<lparr>ds_nodes := map (\<lambda>n. if nd_id n = ''dddd'' then n\<lparr>nr_current_revision_id := Some ''s''\<rparr> else n) (ds_nodes open_docs),
     ds_revisions := ds_revisions open_docs @ [\<lparr>rv_id = ''s'', rv_document_id = ''dddd'', rv_file_id = ''g'', rv_created_time = 3, rv_parent_id = Some ''r''\<rparr>],
     ds_files := \<lparr>fd_tasks = [], fd_files = fd_files (ds_files open_docs) @
       [\<lparr>fl_id = ''g'', fl_path = ''q'', fl_sha256 = None, fl_size = None, fl_active = True\<rparr>]\<rparr>\<rparr>"

definition drawn_ids :: new_ids where
  "drawn_ids = \<lparr>ni_document = ''n'', ni_file = ''h'', ni_path = ''v'', ni_revision = ''t'', ni_task = ''k'', ni_rule_set = ''m''\<rparr>"

definition revised_world :: doc_world where
  "revised_world = author_world\<lparr>dw_db := revised_docs\<rparr>"

lemma revised_docs_ok: "store_ok revised_docs"
  by (simp add: store_ok_def ids_unique_def revised_docs_def open_docs_def demo_docs_def plain_folder_def plain_document_def is_document_def)



end
