(* ===== verification/Accounts.thy ===== *)
theory Accounts
  imports Documents AuthFlow
begin

text \<open>
  User accounts and groups: the requests of \<open>src/include/domains/identity/handlers/users.py\<close> and \<open>groups.py\<close>
  with the commands they call (\<open>domains/identity/commands/users.py\<close>, \<open>groups.py\<close>, \<open>credentials.py\<close>).

  A request is a function from the tables to a reply and the tables; an exception rolls back.  Hashing a password and
  checking one, the search for a regular expression, the guess of a file type, the list of credentials of
  methods other than the password, and drawn secrets are parameters.
\<close>

section \<open>Tables\<close>

record user_account = user +
  ua_nickname :: "string option"
  ua_avatar_id :: "string option"
  ua_last_login :: "timestamp option"
  ua_created_time :: timestamp
  ua_status_comment_id :: "nat option"
  ua_secret_key :: string

record group_row = user_group +
  gr_display_name :: "string option"

record block_row = block_entry +
  bl_id :: string
  bl_timestamp :: timestamp
  bl_reason_comment_id :: "nat option"

record password_row = password_credential +
  pr_user_id :: string
  pr_pass_hash :: string

record account_db =
  ad_users :: "user_account list"
  ad_groups :: "group_row list"
  ad_blocks :: "block_row list"
  ad_comments :: "(nat \<times> string) list"
  ad_passwords :: "password_row list"
  ad_policies :: auth_policies

datatype account_error =
    MissingUser
  | UsernameTaken
  | GroupNameTaken
  | NoSuchGroup
  | PolicyFailed auth_policy_error
  | DocumentFailed doc_error
  | LoginFailed auth_flow_error

record account_env =
  ae_user_id :: string
  ae_now :: timestamp

record user_summary =
  sm_user_id :: string
  sm_username :: string
  sm_nickname :: "string option"
  sm_status :: user_status
  sm_created_time :: timestamp
  sm_last_login :: "timestamp option"
  sm_permissions :: "permission_entry list"
  sm_effective :: "string list"
  sm_effective_own :: "string list"
  sm_effective_inherited :: "string list"
  sm_groups :: "string set"
  sm_passwd_last_modified :: timestamp

record group_summary =
  gs_name :: string
  gs_display_name :: "string option"
  gs_permissions :: "permission_entry list"
  gs_effective :: "string list"
  gs_members :: "string set"

record block_view =
  bv_block_id :: string
  bv_user_id :: string
  bv_timestamp :: timestamp
  bv_not_before :: timestamp
  bv_not_after :: timestamp
  bv_target_type :: string
  bv_target_id :: "string option"
  bv_block_types :: "string list"
  bv_reason :: "string option"

datatype account_data =
    NoData
  | UserList "user_summary list" nat nat nat bool
  | GroupList "group_summary list" nat nat nat bool
  | UserInfo user_summary
  | GroupInfo group_summary
  | CreatedUser string string
  | BlockData block_view
  | StatusData string user_status "string option"
  | PasswordLength nat nat
  | PasswordRules nat nat "string set"

record account_reply =
  ar_code :: nat
  ar_data :: account_data

abbreviation answer :: "nat \<Rightarrow> account_reply" where
  "answer c \<equiv> \<lparr>ar_code = c, ar_data = NoData\<rparr>"

type_synonym account_handled = "account_error + (account_reply \<times> account_db)"

section \<open>Rows\<close>

definition get_user :: "account_db \<Rightarrow> string \<Rightarrow> user_account option" where
  "get_user db i = find (\<lambda>u. us_id u = i) (ad_users db)"

definition get_group :: "account_db \<Rightarrow> string \<Rightarrow> group_row option" where
  "get_group db n = find (\<lambda>g. ug_group_name g = n) (ad_groups db)"

definition get_block :: "account_db \<Rightarrow> string \<Rightarrow> block_row option" where
  "get_block db i = find (\<lambda>b. bl_id b = i) (ad_blocks db)"

definition update_user :: "string \<Rightarrow> (user_account \<Rightarrow> user_account) \<Rightarrow> account_db \<Rightarrow> account_db" where
  "update_user i f db = db\<lparr>ad_users := map (\<lambda>u. if us_id u = i then f u else u) (ad_users db)\<rparr>"

definition update_group :: "string \<Rightarrow> (group_row \<Rightarrow> group_row) \<Rightarrow> account_db \<Rightarrow> account_db" where
  "update_group n f db = db\<lparr>ad_groups := map (\<lambda>g. if ug_group_name g = n then f g else g) (ad_groups db)\<rparr>"

definition permissions_of :: "account_db \<Rightarrow> user_account \<Rightarrow> timestamp \<Rightarrow> string set" where
  "permissions_of db u now = all_permissions (map user_group.truncate (ad_groups db)) (user.truncate u) now"

text \<open>\<open>User.get_existing\<close>, and whether the requesting user holds a permission.\<close>

definition with_requester :: "account_env \<Rightarrow> account_db \<Rightarrow> (user_account \<Rightarrow> account_error + 'a) \<Rightarrow> account_error + 'a" where
  "with_requester en db k = (case get_user db (ae_user_id en) of None \<Rightarrow> Inl MissingUser | Some u \<Rightarrow> k u)"

definition holds :: "account_env \<Rightarrow> account_db \<Rightarrow> user_account \<Rightarrow> string \<Rightarrow> bool" where
  "holds en db u p \<longleftrightarrow> p \<in> permissions_of db u (ae_now en)"

definition comment_text :: "account_db \<Rightarrow> nat option \<Rightarrow> string option" where
  "comment_text db c = (case c of None \<Rightarrow> None | Some i \<Rightarrow> map_of (ad_comments db) i)"

text \<open>\<open>CommentStore.get_or_create_id\<close>: equal texts share a row, whose number is the next free one.\<close>

definition get_or_create_id :: "string \<Rightarrow> account_db \<Rightarrow> nat \<times> account_db" where
  "get_or_create_id text db =
     (case find (\<lambda>(_, t). t = text) (ad_comments db) of Some (i, _) \<Rightarrow> (i, db)
      | None \<Rightarrow> (let i = Suc (fold max (map fst (ad_comments db)) 0) in (i, db\<lparr>ad_comments := ad_comments db @ [(i, text)]\<rparr>)))"

definition comment_for :: "string option \<Rightarrow> account_db \<Rightarrow> nat option \<times> account_db" where
  "comment_for reason db = (case reason of None \<Rightarrow> (None, db)
     | Some text \<Rightarrow> (case get_or_create_id text db of (i, db1) \<Rightarrow> (Some i, db1)))"

section \<open>Reading accounts\<close>

definition get_offset_pagination :: "nat option \<Rightarrow> nat option \<Rightarrow> nat \<times> nat" where
  "get_offset_pagination offset amount = (get_or offset 0, get_or amount PAGINATION_DEFAULT_PAGE_SIZE)"

definition password_of :: "account_db \<Rightarrow> string \<Rightarrow> password_row option" where
  "password_of db i = find (\<lambda>p. pr_user_id p = i) (ad_passwords db)"

definition user_info :: "account_db \<Rightarrow> timestamp \<Rightarrow> user_account \<Rightarrow> user_summary" where
  "user_info db now u = \<lparr>sm_user_id = us_id u, sm_username = us_username u, sm_nickname = ua_nickname u, sm_status = us_status u,
     sm_created_time = ua_created_time u, sm_last_login = ua_last_login u, sm_permissions = us_rights u,
     sm_effective = sorted_list_of_set (permissions_of db u now),
     sm_effective_own = sorted_list_of_set (own_permissions (user.truncate u) now),
     sm_effective_inherited = sorted_list_of_set (inherited_permissions (map user_group.truncate (ad_groups db)) (user.truncate u) now),
     sm_groups = all_groups (user.truncate u) now,
     sm_passwd_last_modified = (case password_of db (us_id u) of None \<Rightarrow> 0 | Some p \<Rightarrow> pc_last_modified p)\<rparr>"

definition list_users :: "account_env \<Rightarrow> nat option \<Rightarrow> nat option \<Rightarrow> account_db \<Rightarrow> account_handled" where
  "list_users en offset amount db = with_requester en db (\<lambda>me.
     if \<not> holds en db me ''list_users'' then Inr (answer 403, db)
     else (let (skip, n) = get_offset_pagination offset amount;
               total = length (ad_users db);
               users = map (user_info db (ae_now en)) (take n (drop skip (sort_key us_username (ad_users db))))
           in Inr (\<lparr>ar_code = 200, ar_data = UserList users total skip n (skip + length users < total)\<rparr>, db)))"

definition get_user_info :: "account_env \<Rightarrow> string option \<Rightarrow> string option \<Rightarrow> account_db \<Rightarrow> account_handled" where
  "get_user_info en username target db = with_requester en db (\<lambda>me.
     if \<not> (target = Some (us_id me) \<or> username = Some (us_username me)) \<and> \<not> holds en db me ''get_user_info'' then Inr (answer 403, db)
     else case (case target of Some i \<Rightarrow> get_user db i
            | None \<Rightarrow> find (\<lambda>u. Some (us_username u) = username) (ad_users db)) of
       None \<Rightarrow> Inr (answer 404, db)
     | Some u \<Rightarrow> Inr (\<lparr>ar_code = 200, ar_data = UserInfo (user_info db (ae_now en) u)\<rparr>, db))"

section \<open>Creating and removing accounts\<close>

record create_user_request =
  ur_username :: string
  ur_password :: string
  ur_nickname :: "string option"
  ur_permissions :: "permission_entry list"
  ur_groups :: "membership list"

record drawn_account =
  da_user_id :: string
  da_secret_key :: string
  da_new_secret :: string
  da_credential_id :: string

text \<open>\<open>set_password\<close>: with an expected signing key the write is conditional on it.\<close>

definition set_password ::
  "(string \<Rightarrow> string) \<Rightarrow> string \<Rightarrow> string \<Rightarrow> string \<Rightarrow> string \<Rightarrow> bool \<Rightarrow> string option \<Rightarrow> timestamp \<Rightarrow> account_db \<Rightarrow> account_db option" where
  "set_password hash new_secret credential_id user_id plain_password force_update_after_login expected_signing_key now db =
     (if (case expected_signing_key of None \<Rightarrow> False
          | Some k \<Rightarrow> length (filter (\<lambda>u. us_id u = user_id \<and> ua_secret_key u = k \<and> us_status u = ACTIVE) (ad_users db)) \<noteq> 1)
      then None
      else (let db1 = (if list_ex (\<lambda>p. pr_user_id p = user_id) (ad_passwords db) then db
                  else db\<lparr>ad_passwords := ad_passwords db @ [\<lparr>pc_credential_id = credential_id, pc_last_modified = now,
                    pr_user_id = user_id, pr_pass_hash = ''''\<rparr>]\<rparr>);
                db2 = db1\<lparr>ad_passwords := map (\<lambda>p. if pr_user_id p = user_id
                    then p\<lparr>pr_pass_hash := hash plain_password, pc_last_modified := (if force_update_after_login then 0 else now)\<rparr> else p)
                  (ad_passwords db1)\<rparr>
            in Some (update_user user_id (\<lambda>u. u\<lparr>ua_secret_key := new_secret\<rparr>) db2)))"

text \<open>The password provider: its credential is active when there is one.\<close>

definition list_password_credentials :: "account_db \<Rightarrow> string \<Rightarrow> registered_credential list" where
  "list_password_credentials db i = (case password_of db i of None \<Rightarrow> []
     | Some p \<Rightarrow> [\<lparr>rc_method = ''password'', rc_credential_id = pc_credential_id p, rc_active = True, rc_label = None, rc_key_identity = None\<rparr>])"

definition create_user ::
  "(account_db \<Rightarrow> string \<Rightarrow> auth_registry) \<Rightarrow> (string \<Rightarrow> string) \<Rightarrow> drawn_account \<Rightarrow> create_user_request \<Rightarrow> timestamp \<Rightarrow> account_db \<Rightarrow>
   account_error + account_db" where
  "create_user reg hash dr rq now db =
     (let u = \<lparr>us_id = da_user_id dr, us_username = ur_username rq, us_status = ACTIVE, us_groups = ur_groups rq, us_rights = ur_permissions rq,
            ua_nickname = ur_nickname rq, ua_avatar_id = None, ua_last_login = Some 0, ua_created_time = now,
            ua_status_comment_id = None, ua_secret_key = da_secret_key dr\<rparr>;
          db1 = db\<lparr>ad_users := ad_users db @ [u]\<rparr>
      in if list_ex (\<lambda>v. us_username v = ur_username rq) (ad_users db) then Inl UsernameTaken
         else if \<not> list_all (\<lambda>m. get_group db (ms_group_name m) \<noteq> None) (ur_groups rq) then Inl NoSuchGroup
         else if ur_password rq = '''' then Inr db1
         else (case set_password hash (da_new_secret dr) (da_credential_id dr) (da_user_id dr) (ur_password rq) False None now db1 of
             None \<Rightarrow> Inr db1
           | Some db2 \<Rightarrow>
               (case replace_auth_policy (reg db2 (da_user_id dr)) (ad_policies db2) (da_user_id dr) LOGIN
                       [[\<lparr>as_method = ''password'', as_credential_ids = [da_credential_id dr]\<rparr>]] 0 of
                  Inl e \<Rightarrow> Inl (PolicyFailed e)
                | Inr ps \<Rightarrow> Inr (db2\<lparr>ad_policies := ps\<rparr>))))"

definition create_user_handler ::
  "(account_db \<Rightarrow> string \<Rightarrow> auth_registry) \<Rightarrow> (string \<Rightarrow> string) \<Rightarrow> account_env \<Rightarrow> drawn_account \<Rightarrow> create_user_request \<Rightarrow> account_db \<Rightarrow> account_handled" where
  "create_user_handler reg hash en dr rq db = with_requester en db (\<lambda>me.
     if \<not> holds en db me ''create_user'' then Inr (answer 403, db)
     else if list_ex (\<lambda>v. us_username v = ur_username rq) (ad_users db) then Inr (answer 400, db)
     else if \<not> list_all (\<lambda>m. get_group db (ms_group_name m) \<noteq> None) (ur_groups rq) then Inr (answer 400, db)
     else and_then (create_user reg hash dr rq (ae_now en) db) (\<lambda>db1.
       Inr (\<lparr>ar_code = 200, ar_data = CreatedUser (da_user_id dr) (ur_username rq)\<rparr>, db1)))"

text \<open>Rows that refer to a deleted account go with it.\<close>

definition remove_user :: "string \<Rightarrow> account_db \<Rightarrow> account_db" where
  "remove_user i db = db\<lparr>ad_users := filter (\<lambda>u. us_id u \<noteq> i) (ad_users db), ad_blocks := filter (\<lambda>b. be_user_id b \<noteq> i) (ad_blocks db),
     ad_passwords := filter (\<lambda>p. pr_user_id p \<noteq> i) (ad_passwords db),
     ad_policies := (\<lambda>(u, q). if u = i then None else ad_policies db (u, q))\<rparr>"

definition delete_user :: "account_env \<Rightarrow> string \<Rightarrow> account_db \<Rightarrow> account_handled" where
  "delete_user en target db = with_requester en db (\<lambda>me.
     if \<not> holds en db me ''delete_user'' then Inr (answer 403, db)
     else case get_user db target of None \<Rightarrow> Inr (answer 404, db)
     | Some u \<Rightarrow>
         if us_id u = us_id me then Inr (answer 400, db)
         else Inr (answer 200, remove_user (us_id u) db))"

definition rename_user :: "account_env \<Rightarrow> string \<Rightarrow> string option \<Rightarrow> account_db \<Rightarrow> account_handled" where
  "rename_user en target nickname db = with_requester en db (\<lambda>me.
     if \<not> (holds en db me ''super_rename_user'' \<or> (target = us_id me \<and> holds en db me ''rename_user'')) then Inr (answer 403, db)
     else case get_user db target of None \<Rightarrow> Inr (answer 400, db)
     | Some u \<Rightarrow> Inr (answer 200, update_user target (\<lambda>u. u\<lparr>ua_nickname := nickname\<rparr>) db))"

section \<open>Blocks\<close>

definition serialize_user_block :: "account_db \<Rightarrow> block_row \<Rightarrow> block_view" where
  "serialize_user_block db b = \<lparr>bv_block_id = bl_id b, bv_user_id = be_user_id b, bv_timestamp = bl_timestamp b,
     bv_not_before = be_not_before b, bv_not_after = be_not_after b, bv_target_type = be_target_type b, bv_target_id = be_target_id b,
     bv_block_types = be_block_types b, bv_reason = comment_text db (bl_reason_comment_id b)\<rparr>"

record block_user_request =
  bq_user_id :: string
  bq_target_type :: string
  bq_target_id :: "string option"
  bq_block_types :: "string list"
  bq_not_before :: "timestamp option"
  bq_not_after :: "timestamp option"
  bq_reason :: "string option"

definition block_user :: "account_env \<Rightarrow> string \<Rightarrow> block_user_request \<Rightarrow> account_db \<Rightarrow> account_handled" where
  "block_user en block_id rq db =
     (let not_before = get_or (bq_not_before rq) 0; not_after = get_or (bq_not_after rq) (-1) in
      if \<not> set (bq_block_types rq) \<subseteq> AVAILABLE_BLOCK_TYPES then Inr (answer 400, db)
      else if not_after \<ge> 0 \<and> not_after \<le> not_before then Inr (answer 400, db)
      else with_requester en db (\<lambda>me.
        if \<not> holds en db me ''block'' then Inr (answer 403, db)
        else case get_user db (bq_user_id rq) of None \<Rightarrow> Inr (answer 404, db)
        | Some u \<Rightarrow>
            (case comment_for (bq_reason rq) db of (comment_id, db1) \<Rightarrow>
               let b = \<lparr>be_user_id = us_id u, be_not_before = not_before, be_not_after = not_after, be_target_type = bq_target_type rq,
                       be_target_id = bq_target_id rq, be_block_types = bq_block_types rq, bl_id = block_id, bl_timestamp = ae_now en,
                       bl_reason_comment_id = comment_id\<rparr>;
                   db2 = db1\<lparr>ad_blocks := ad_blocks db1 @ [b]\<rparr>
               in Inr (\<lparr>ar_code = 200, ar_data = BlockData (serialize_user_block db2 b)\<rparr>, db2))))"

definition unblock_user :: "account_env \<Rightarrow> string \<Rightarrow> account_db \<Rightarrow> account_handled" where
  "unblock_user en block_id db = with_requester en db (\<lambda>me.
     if \<not> holds en db me ''unblock'' then Inr (answer 403, db)
     else case get_block db block_id of None \<Rightarrow> Inr (answer 404, db)
     | Some b \<Rightarrow>
         if 0 \<le> be_not_after b \<and> be_not_after b < ae_now en then Inr (answer 400, db)
         else Inr (answer 200, db\<lparr>ad_blocks := filter (\<lambda>c. bl_id c \<noteq> block_id) (ad_blocks db)\<rparr>))"

definition update_user_block :: "account_env \<Rightarrow> string \<Rightarrow> string option \<Rightarrow> account_db \<Rightarrow> account_handled" where
  "update_user_block en block_id reason db = with_requester en db (\<lambda>me.
     if \<not> holds en db me ''block'' then Inr (answer 403, db)
     else case get_block db block_id of None \<Rightarrow> Inr (answer 404, db)
     | Some b \<Rightarrow>
         (let db1 = (if comment_text db (bl_reason_comment_id b) \<noteq> reason
                then (case comment_for reason db of (c, db') \<Rightarrow> db'\<lparr>ad_blocks := map (\<lambda>x. if bl_id x = block_id
                        then x\<lparr>bl_reason_comment_id := c\<rparr> else x) (ad_blocks db')\<rparr>)
                else db)
          in Inr (\<lparr>ar_code = 200, ar_data = BlockData ((serialize_user_block db1 b)\<lparr>bv_reason := reason\<rparr>)\<rparr>, db1)))"

definition block_scope :: "string \<Rightarrow> cursor_scope" where
  "block_scope user_id = \<lparr>sc_action = ''core.user.block.list'', sc_sort = ''timestamp_block_id:desc'', sc_filters = [(''user_id'', user_id)]\<rparr>"

definition block_rows :: "account_db \<Rightarrow> string \<Rightarrow> (timestamp \<times> string) option \<Rightarrow> nat \<Rightarrow> block_row list" where
  "block_rows db user_id last_key limit =
     take limit (rev (sort_key (\<lambda>b. (bl_timestamp b, bl_id b)) (filter (\<lambda>b. be_user_id b = user_id \<and>
       (case last_key of None \<Rightarrow> True
        | Some (last_timestamp, last_block_id) \<Rightarrow> bl_timestamp b < last_timestamp \<or>
            (bl_timestamp b = last_timestamp \<and> bl_id b < last_block_id))) (ad_blocks db))))"

definition list_user_blocks ::
  "'t cursor_codec \<Rightarrow> account_env \<Rightarrow> string \<Rightarrow> nat option \<Rightarrow> 't option \<Rightarrow> account_db \<Rightarrow> account_error + (nat + (block_view, 't) page)" where
  "list_user_blocks cc en target page_size cursor db = with_requester en db (\<lambda>me.
     if \<not> holds en db me ''list_user_blocks'' \<and> target \<noteq> us_id me then Inr (Inl 403)
     else case decode_cursor cc (block_scope target) (Some [NumType, StrType]) cursor of Inl e \<Rightarrow> Inr (Inl 400)
     | Inr last_key \<Rightarrow> Inr (Inr (make_cursor_response cc (block_scope target) (get_page_size page_size)
         (\<lambda>item. [CNum (bv_timestamp item), CStr (bv_block_id item)])
         (map (serialize_user_block db) (block_rows db target (map_option revision_key_of last_key) (get_page_size page_size + 1))))))"

section \<open>Avatars\<close>

definition get_user_avatar ::
  "account_env \<Rightarrow> document_env \<Rightarrow> string \<Rightarrow> string \<Rightarrow> account_db \<Rightarrow> doc_db \<Rightarrow> account_error + (nat \<times> file_task option \<times> doc_db)" where
  "get_user_avatar en de task_id target db docs = with_requester en db (\<lambda>me.
     if target \<noteq> us_id me \<and> \<not> holds en db me ''get_user_info'' then Inr (403, None, docs)
     else case get_user db target of None \<Rightarrow> Inr (404, None, docs)
     | Some u \<Rightarrow> (case ua_avatar_id u of None \<Rightarrow> Inr (404, None, docs)
         | Some f \<Rightarrow> (let t = new_file_task de task_id f DOWNLOAD None in Inr (200, Some t, create_file_task t docs))))"

definition set_user_avatar ::
  "(string \<Rightarrow> string option) \<Rightarrow> account_env \<Rightarrow> bool \<Rightarrow> string \<Rightarrow> string \<Rightarrow> doc_db \<Rightarrow> account_db \<Rightarrow> account_handled" where
  "set_user_avatar guess_extension en recursive target document_id docs db = with_requester en db (\<lambda>me.
     if \<not> (holds en db me ''super_set_user_avatar'' \<or> (target = us_id me \<and> holds en db me ''set_user_avatar'')) then Inr (answer 403, db)
     else case get_user db target of None \<Rightarrow> Inr (answer 404, db)
     | Some u \<Rightarrow> (case get_document False docs document_id of None \<Rightarrow> Inr (answer 404, db)
         | Some d \<Rightarrow>
             (case check_access recursive docs (user.truncate u) (ae_now en) d ''read'' of
                Inl e \<Rightarrow> Inl (DocumentFailed e)
              | Inr ok \<Rightarrow>
                  if \<not> ok then Inr (answer 403, db)
                  else (case get_latest_revision docs d of Inl e \<Rightarrow> Inl (DocumentFailed e)
                    | Inr r \<Rightarrow> (case get_file (ds_files docs) (rv_file_id r) of None \<Rightarrow> Inl (DocumentFailed ForeignKeyViolation)
                        | Some f \<Rightarrow>
                            if (case guess_extension (fl_path f) of None \<Rightarrow> True
                                | Some x \<Rightarrow> x \<notin> {''jpg'', ''jpeg'', ''png'', ''gif'', ''bmp'', ''webp''}) then Inr (answer 400, db)
                            else Inr (answer 200, update_user target (\<lambda>u. u\<lparr>ua_avatar_id := Some (fl_id f)\<rparr>) db))))))"

section \<open>Groups, permissions and status of an account\<close>

text \<open>Memberships must name existing groups; a violation is found when the transaction is flushed.\<close>

definition change_user_groups :: "account_env \<Rightarrow> string \<Rightarrow> string list option \<Rightarrow> account_db \<Rightarrow> account_handled" where
  "change_user_groups en target names db = with_requester en db (\<lambda>me.
     if \<not> holds en db me ''change_user_groups'' then Inr (answer 403, db)
     else case get_user db target of None \<Rightarrow> Inr (answer 404, db)
     | Some u \<Rightarrow>
         (let new_groups = get_or names [] in
          if set new_groups = all_groups (user.truncate u) (ae_now en) then Inr (answer 200, db)
          else if \<not> list_all (\<lambda>n. get_group db n \<noteq> None) new_groups then Inl NoSuchGroup
          else Inr (answer 200, update_user target (\<lambda>v. v\<lparr>us_groups := us_groups (set_all_groups (user.truncate v) new_groups (ae_now en))\<rparr>) db)))"

definition change_user_permissions :: "account_env \<Rightarrow> string \<Rightarrow> permission_entry list \<Rightarrow> account_db \<Rightarrow> account_handled" where
  "change_user_permissions en target entries db = with_requester en db (\<lambda>me.
     if \<not> holds en db me ''set_user_permissions'' then Inr (answer 403, db)
     else case get_user db target of None \<Rightarrow> Inr (answer 404, db)
     | Some u \<Rightarrow> Inr (answer 200, update_user target (\<lambda>v. v\<lparr>us_rights := us_rights (set_own_permissions (user.truncate v) entries)\<rparr>) db))"

definition manage_user_status :: "account_env \<Rightarrow> string \<Rightarrow> user_status \<Rightarrow> string option option \<Rightarrow> account_db \<Rightarrow> account_handled" where
  "manage_user_status en target new_status provided db = with_requester en db (\<lambda>me.
     if \<not> holds en db me ''manage_user_status'' then Inr (answer 403, db)
     else if target = us_id me then Inr (answer 400, db)
     else case get_user db target of None \<Rightarrow> Inr (answer 404, db)
     | Some u \<Rightarrow>
         (let reason = get_or provided None;
              previous_reason = comment_text db (ua_status_comment_id u);
              status_changed = (us_status u \<noteq> new_status);
              db1 = (if status_changed
                then (case comment_for (if new_status = DISABLED then reason else None) db of (c, db') \<Rightarrow>
                   update_user target (\<lambda>v. v\<lparr>us_status := new_status, ua_status_comment_id := c\<rparr>) db')
                else if new_status = DISABLED \<and> provided \<noteq> None \<and> previous_reason \<noteq> reason
                then (case comment_for reason db of (c, db') \<Rightarrow> update_user target (\<lambda>v. v\<lparr>ua_status_comment_id := c\<rparr>) db')
                else db);
              current_reason = (if new_status = DISABLED \<and> (status_changed \<or> provided \<noteq> None) then reason
                else if new_status = DISABLED then previous_reason else None)
          in Inr (\<lparr>ar_code = 200, ar_data = StatusData target new_status current_reason\<rparr>, db1)))"

section \<open>Passwords\<close>

text \<open>\<open>None\<close> when the password is accepted; matched rules form a set.\<close>

definition check_passwd_requirements ::
  "(string \<Rightarrow> string \<Rightarrow> bool) \<Rightarrow> string \<Rightarrow> nat \<Rightarrow> nat \<Rightarrow> string list \<Rightarrow> nat \<Rightarrow> account_data option" where
  "check_passwd_requirements found passwd min_length max_length rules min_passed_count =
     (if length passwd < min_length \<or> length passwd > max_length then Some (PasswordLength min_length max_length)
      else if rules = [] \<or> min_passed_count = 0 then None
      else (let needed = min min_passed_count (length rules);
                matched_rules = set (filter (\<lambda>rule. found rule passwd) rules);
                passed_count = card matched_rules
            in if passed_count \<ge> needed then None
               else Some (PasswordRules passed_count needed (set rules - matched_rules))))"

record password_policy =
  pp_min_length :: nat
  pp_max_length :: nat
  pp_rules :: "string list"
  pp_min_passed_count :: nat

record password_env =
  pe_found :: "string \<Rightarrow> string \<Rightarrow> bool"
  pe_hash :: "string \<Rightarrow> string"
  pe_verify :: "string \<Rightarrow> string \<Rightarrow> bool"
  pe_sha :: "string \<Rightarrow> string"
  pe_registry :: "account_db \<Rightarrow> string \<Rightarrow> auth_registry"
  pe_policy :: password_policy
  pe_config :: password_config

record set_password_request =
  sp_user_id :: "string option"
  sp_new_passwd :: string
  sp_force_update :: "bool option"
  sp_bypass :: "bool option"

definition account_view :: "account_db \<Rightarrow> user_account \<Rightarrow> account" where
  "account_view db u = \<lparr>ac_id = us_id u, ac_username = us_username u, ac_secret_key = ua_secret_key u, ac_status = us_status u,
     ac_status_reason = comment_text db (ua_status_comment_id u), ac_last_login = ua_last_login u\<rparr>"

text \<open>Whether a continuation of a login may change the password: a refusal, if any, and the cache of assessments.
  Only an invalid attempt is answered; any other failure leaves the handler.\<close>

definition refuse_invalid :: "auth_flow_error \<Rightarrow> 'c \<Rightarrow> account_error + (nat option \<times> 'c)" where
  "refuse_invalid e cache = (case e of InvalidAuthenticationAttempt _ \<Rightarrow> Inr (Some 401, cache) | _ \<Rightarrow> Inl (LoginFailed e))"

definition post_auth_refusal ::
  "password_env \<Rightarrow> timestamp \<Rightarrow> account_db \<Rightarrow> user_account \<Rightarrow> auth_context option \<Rightarrow> password_assessment mem_cache \<Rightarrow>
   account_error + (nat option \<times> password_assessment mem_cache)" where
  "post_auth_refusal pe now db u ctx cache =
     (case ctx of None \<Rightarrow> Inr (Some 403, cache)
      | Some c \<Rightarrow>
          (case get_login_progress (pe_sha pe) (pe_registry pe db (us_id u)) (ad_policies db) (account_view db u) c of
             Inl e \<Rightarrow> refuse_invalid e cache
           | Inr progress \<Rightarrow>
               if \<not> pd_satisfied progress then Inr (Some 403, cache)
               else (case password_change_requirement (pe_config pe) (map_option password_credential.truncate (password_of db (us_id u)))
                         now c None cache of
                   (Inl e, cache1) \<Rightarrow> refuse_invalid e cache1
                 | (Inr r, cache1) \<Rightarrow> Inr (if r = None then Some 403 else None, cache1))))"

text \<open>The token of the request: its purposes, its context and the key it was verified with.\<close>

record request_token =
  rt_purpose :: "token_flag set"
  rt_auth_context :: "auth_context option"
  rt_secret :: string

definition set_passwd_request ::
  "password_env \<Rightarrow> account_env \<Rightarrow> request_token \<Rightarrow> string \<Rightarrow> string \<Rightarrow> set_password_request \<Rightarrow> account_db \<Rightarrow> password_assessment mem_cache \<Rightarrow>
   account_error + (account_reply \<times> account_db \<times> password_assessment mem_cache)" where
  "set_passwd_request pe en tok new_secret credential_id rq db cache =
     (let target = get_or (sp_user_id rq) (ae_user_id en);
          post_auth = (POST_AUTH \<in> rt_purpose tok);
          bypass = get_or (sp_bypass rq) False; force_update = get_or (sp_force_update rq) False in
      if post_auth \<and> \<not> (sp_user_id rq = None \<and> sp_force_update rq = None \<and> sp_bypass rq = None) then Inr (answer 400, db, cache)
      else with_requester en db (\<lambda>operator.
        let is_super = holds en db operator ''super_configure_auth_methods'' in
        if \<not> post_auth \<and> \<not> (is_super \<or> (target = us_id operator \<and> holds en db operator ''configure_auth_methods'')) then Inr (answer 403, db, cache)
        else if \<not> post_auth \<and> (bypass \<or> force_update) \<and> \<not> is_super then Inr (answer 403, db, cache)
        else case get_user db target of None \<Rightarrow> Inr (answer 404, db, cache)
        | Some u \<Rightarrow>
            and_then (if post_auth then post_auth_refusal pe (ae_now en) db u (rt_auth_context tok) cache else Inr (None, cache)) (\<lambda>(refusal, cache1).
              case refusal of Some code \<Rightarrow> Inr (answer code, db, cache1)
             | None \<Rightarrow>
                 (case (if bypass then None
                        else check_passwd_requirements (pe_found pe) (sp_new_passwd rq) (pp_min_length (pe_policy pe)) (pp_max_length (pe_policy pe))
                               (pp_rules (pe_policy pe)) (pp_min_passed_count (pe_policy pe))) of
                    Some failure \<Rightarrow> Inr (\<lparr>ar_code = 400, ar_data = failure\<rparr>, db, cache1)
                  | None \<Rightarrow>
                      if (case password_of db target of None \<Rightarrow> False | Some p \<Rightarrow> pe_verify pe (pr_pass_hash p) (sp_new_passwd rq))
                      then Inr (answer 400, db, cache1)
                      else (case set_password (pe_hash pe) new_secret credential_id target (sp_new_passwd rq) force_update
                              (if target = ae_user_id en then Some (rt_secret tok) else None) (ae_now en) db of
                          None \<Rightarrow> Inr (answer 401, db, cache1)
                        | Some db1 \<Rightarrow> Inr (answer 200, db1, cache1))))))"

section \<open>Groups\<close>

definition members :: "account_db \<Rightarrow> string \<Rightarrow> timestamp \<Rightarrow> string set" where
  "members db name now = group_members (concat (map (\<lambda>u. map (Pair (us_id u)) (us_groups u)) (ad_users db))) name now"

definition group_info :: "account_db \<Rightarrow> timestamp \<Rightarrow> group_row \<Rightarrow> group_summary" where
  "group_info db now g = \<lparr>gs_name = ug_group_name g, gs_display_name = gr_display_name g, gs_permissions = ug_permissions g,
     gs_effective = sorted_list_of_set (effective_permissions (ug_permissions g) now), gs_members = members db (ug_group_name g) now\<rparr>"

definition list_groups :: "account_env \<Rightarrow> nat option \<Rightarrow> nat option \<Rightarrow> account_db \<Rightarrow> account_handled" where
  "list_groups en offset amount db = with_requester en db (\<lambda>me.
     if \<not> holds en db me ''list_groups'' then Inr (answer 403, db)
     else (let (skip, n) = get_offset_pagination offset amount;
               total = length (ad_groups db);
               gs = map (group_info db (ae_now en)) (take n (drop skip (sort_key ug_group_name (ad_groups db))))
           in Inr (\<lparr>ar_code = 200, ar_data = GroupList gs total skip n (skip + length gs < total)\<rparr>, db)))"

definition create_group :: "string \<Rightarrow> string option \<Rightarrow> permission_entry list \<Rightarrow> account_db \<Rightarrow> account_error + account_db" where
  "create_group name display_name entries db =
     (if get_group db name \<noteq> None then Inl GroupNameTaken
      else Inr (db\<lparr>ad_groups := ad_groups db @ [\<lparr>ug_group_name = name, ug_permissions = entries, gr_display_name = display_name\<rparr>]\<rparr>))"

definition create_group_handler ::
  "account_env \<Rightarrow> string \<Rightarrow> string option \<Rightarrow> permission_entry list \<Rightarrow> account_db \<Rightarrow> account_handled" where
  "create_group_handler en name display_name entries db = with_requester en db (\<lambda>me.
     if \<not> holds en db me ''create_group'' then Inr (answer 403, db)
     else if get_group db name \<noteq> None then Inr (answer 400, db)
     else and_then (create_group name display_name entries db) (\<lambda>db1. Inr (answer 200, db1)))"

definition delete_group :: "account_env \<Rightarrow> string \<Rightarrow> account_db \<Rightarrow> account_handled" where
  "delete_group en name db = with_requester en db (\<lambda>me.
     if \<not> holds en db me ''delete_group'' then Inr (answer 403, db)
     else case get_group db name of None \<Rightarrow> Inr (answer 404, db)
     | Some g \<Rightarrow> Inr (answer 200, db\<lparr>
         ad_users := map (\<lambda>u. u\<lparr>us_groups := filter (\<lambda>m. ms_group_name m \<noteq> name) (us_groups u)\<rparr>) (ad_users db),
         ad_groups := filter (\<lambda>g. ug_group_name g \<noteq> name) (ad_groups db)\<rparr>))"

text \<open>The type test compares with \<open>None\<close> instead of its type, so a null name is refused.\<close>

definition rename_group :: "account_env \<Rightarrow> string \<Rightarrow> string option \<Rightarrow> account_db \<Rightarrow> account_handled" where
  "rename_group en name display_name db = with_requester en db (\<lambda>me.
     if \<not> holds en db me ''rename_group'' then Inr (answer 403, db)
     else if display_name = None then Inr (answer 400, db)
     else case get_group db name of None \<Rightarrow> Inr (answer 400, db)
     | Some g \<Rightarrow> Inr (answer 200, update_group name (\<lambda>g. g\<lparr>gr_display_name := display_name\<rparr>) db))"

definition get_group_info :: "account_env \<Rightarrow> string \<Rightarrow> account_db \<Rightarrow> account_handled" where
  "get_group_info en name db = with_requester en db (\<lambda>me.
     if name = '''' then Inr (answer 400, db)
     else if \<not> holds en db me ''get_group_info'' then Inr (answer 403, db)
     else case get_group db name of None \<Rightarrow> Inr (answer 404, db)
     | Some g \<Rightarrow> Inr (\<lparr>ar_code = 200, ar_data = GroupInfo (group_info db (ae_now en) g)\<rparr>, db))"

definition change_group_permissions :: "account_env \<Rightarrow> string \<Rightarrow> permission_entry list \<Rightarrow> account_db \<Rightarrow> account_handled" where
  "change_group_permissions en name entries db = with_requester en db (\<lambda>me.
     if name = '''' then Inr (answer 400, db)
     else if \<not> holds en db me ''set_group_permissions'' then Inr (answer 403, db)
     else case get_group db name of None \<Rightarrow> Inr (answer 404, db)
     | Some g \<Rightarrow> Inr (answer 200, update_group name (\<lambda>g. g\<lparr>ug_permissions := replace_permission_entries (ug_permissions g) entries\<rparr>) db))"

section \<open>Expired permission entries\<close>

record permission_row = permission_entry +
  px_id :: nat
  px_owner :: string

record permission_entry_counts =
  pn_user_entries :: nat
  pn_group_entries :: nat

definition entry_expired :: "timestamp \<Rightarrow> permission_row \<Rightarrow> bool" where
  "entry_expired cutoff r \<longleftrightarrow> (case pe_end_time r of None \<Rightarrow> False | Some e \<Rightarrow> e < cutoff)"

definition count_expired_entries :: "permission_row list \<Rightarrow> timestamp \<Rightarrow> nat" where
  "count_expired_entries rows cutoff = length (filter (entry_expired cutoff) rows)"

definition count_expired_permission_entries :: "permission_row list \<times> permission_row list \<Rightarrow> timestamp \<Rightarrow> permission_entry_counts" where
  "count_expired_permission_entries tables cutoff =
     \<lparr>pn_user_entries = count_expired_entries (fst tables) cutoff, pn_group_entries = count_expired_entries (snd tables) cutoff\<rparr>"

definition purge_expired_entry_batch :: "permission_row list \<Rightarrow> timestamp \<Rightarrow> nat \<Rightarrow> nat \<times> permission_row list" where
  "purge_expired_entry_batch rows cutoff batch_size =
     (let entry_ids = map px_id (take batch_size (sort_key (\<lambda>r. (get_or (pe_end_time r) 0, px_id r)) (filter (entry_expired cutoff) rows)))
      in if entry_ids = [] then (0, rows)
         else (length (filter (\<lambda>r. px_id r \<in> set entry_ids \<and> entry_expired cutoff r) rows),
               filter (\<lambda>r. \<not> (px_id r \<in> set entry_ids \<and> entry_expired cutoff r)) rows))"

definition purge_expired_permission_entries ::
  "permission_row list \<times> permission_row list \<Rightarrow> timestamp \<Rightarrow> nat \<Rightarrow> permission_entry_counts \<times> permission_row list \<times> permission_row list" where
  "purge_expired_permission_entries tables cutoff batch_size =
     (case purge_expired_entry_batch (fst tables) cutoff batch_size of (n, us) \<Rightarrow>
      case purge_expired_entry_batch (snd tables) cutoff batch_size of (m, gs) \<Rightarrow>
        (\<lparr>pn_user_entries = n, pn_group_entries = m\<rparr>, us, gs))"

end
