(* ===== verification/AccountTables.thy ===== *)
theory AccountTables
  imports Accounts
begin

text \<open>
  What the requests on accounts and groups keep of their tables.
\<close>

section \<open>Well-formed tables\<close>

definition refers :: "account_db \<Rightarrow> nat option \<Rightarrow> bool" where
  "refers db c \<longleftrightarrow> set_option c \<subseteq> fst ` set (ad_comments db)"

definition user_ok :: "account_db \<Rightarrow> user_account \<Rightarrow> bool" where
  "user_ok db u \<longleftrightarrow> ms_group_name ` set (us_groups u) \<subseteq> ug_group_name ` set (ad_groups db) \<and> refers db (ua_status_comment_id u) \<and>
     (us_status u = ACTIVE \<longrightarrow> ua_status_comment_id u = None)"

definition block_ok :: "account_db \<Rightarrow> block_row \<Rightarrow> bool" where
  "block_ok db b \<longleftrightarrow> be_user_id b \<in> us_id ` set (ad_users db) \<and> set (be_block_types b) \<subseteq> AVAILABLE_BLOCK_TYPES \<and>
     (be_not_after b < 0 \<or> be_not_before b < be_not_after b) \<and> refers db (bl_reason_comment_id b)"

definition accounts_ok :: "account_db \<Rightarrow> bool" where
  "accounts_ok db \<longleftrightarrow> distinct (map us_id (ad_users db)) \<and> distinct (map us_username (ad_users db)) \<and>
     distinct (map ug_group_name (ad_groups db)) \<and> distinct (map bl_id (ad_blocks db)) \<and> distinct (map pr_user_id (ad_passwords db)) \<and>
     distinct (map fst (ad_comments db)) \<and> distinct (map snd (ad_comments db)) \<and>
     (\<forall>u \<in> set (ad_users db). user_ok db u) \<and> (\<forall>b \<in> set (ad_blocks db). block_ok db b) \<and>
     pr_user_id ` set (ad_passwords db) \<subseteq> us_id ` set (ad_users db) \<and>
     (\<forall>i q. ad_policies db (i, q) \<noteq> None \<longrightarrow> i \<in> us_id ` set (ad_users db))"

lemma get_user_Some: "get_user db i = Some u \<Longrightarrow> u \<in> set (ad_users db) \<and> us_id u = i"
  by (auto simp: get_user_def find_Some_iff)

lemma get_group_iff: "get_group db n \<noteq> None \<longleftrightarrow> n \<in> ug_group_name ` set (ad_groups db)"
  by (auto simp: get_group_def find_None_iff)

lemma get_group_None: "get_group db n = None \<longleftrightarrow> n \<notin> ug_group_name ` set (ad_groups db)"
  using get_group_iff by blast

text \<open>An update that keeps the names of an account.\<close>

lemma accounts_ok_update_user:
  assumes ok: "accounts_ok db" and f: "\<And>u. us_id (f u) = us_id u \<and> us_username (f u) = us_username u"
    and g: "\<And>u. u \<in> set (ad_users db) \<Longrightarrow> us_id u = i \<Longrightarrow> user_ok db (f u)"
  shows "accounts_ok (update_user i f db)"
proof -
  let ?db = "update_user i f db"
  have ids: "map us_id (ad_users ?db) = map us_id (ad_users db)" "map us_username (ad_users ?db) = map us_username (ad_users db)"
    using f by (simp_all add: update_user_def)
  have idset: "us_id ` set (ad_users ?db) = us_id ` set (ad_users db)" using arg_cong[OF ids(1), of set] by simp
  have same: "ad_groups ?db = ad_groups db" "ad_blocks ?db = ad_blocks db" "ad_comments ?db = ad_comments db"
    "ad_passwords ?db = ad_passwords db" "ad_policies ?db = ad_policies db" by (simp_all add: update_user_def)
  have r: "refers ?db = refers db" "user_ok ?db = user_ok db" "block_ok ?db = block_ok db"
    using idset by (simp_all add: fun_eq_iff refers_def user_ok_def block_ok_def same)
  have "\<forall>u \<in> set (ad_users ?db). user_ok db u" using ok g by (auto simp: accounts_ok_def update_user_def)
  then show ?thesis using ok unfolding accounts_ok_def ids idset same r by simp
qed

lemma accounts_ok_update_group:
  assumes ok: "accounts_ok db" and f: "\<And>g. ug_group_name (f g) = ug_group_name g"
  shows "accounts_ok (update_group n f db)"
proof -
  let ?db = "update_group n f db"
  have ids: "map ug_group_name (ad_groups ?db) = map ug_group_name (ad_groups db)" using f by (simp add: update_group_def)
  have idset: "ug_group_name ` set (ad_groups ?db) = ug_group_name ` set (ad_groups db)" using arg_cong[OF ids, of set] by simp
  have same: "ad_users ?db = ad_users db" "ad_blocks ?db = ad_blocks db" "ad_comments ?db = ad_comments db"
    "ad_passwords ?db = ad_passwords db" "ad_policies ?db = ad_policies db" by (simp_all add: update_group_def)
  have r: "refers ?db = refers db" "user_ok ?db = user_ok db" "block_ok ?db = block_ok db"
    using idset by (simp_all add: fun_eq_iff refers_def user_ok_def block_ok_def same)
  show ?thesis using ok unfolding accounts_ok_def ids same r by simp
qed

lemma fold_max_ge: "fold max xs (a :: nat) \<ge> a" and fold_max_in: "x \<in> set xs \<Longrightarrow> x \<le> fold max xs (a :: nat)"
proof -
  show ge: "fold max xs a \<ge> a" for xs :: "nat list" and a
  proof (induction xs arbitrary: a)
    case (Cons y xs)
    have "a \<le> max y a" by simp
    also have "\<dots> \<le> fold max xs (max y a)" by (rule Cons.IH)
    finally show ?case by simp
  qed simp
  show "x \<in> set xs \<Longrightarrow> x \<le> fold max xs a"
  proof (induction xs arbitrary: a)
    case (Cons y xs)
    then show ?case using ge[of "max y a" xs] by (cases "x = y") auto
  qed simp
qed

lemma comment_for_ok:
  assumes ok: "accounts_ok db" and c: "comment_for reason db = (c, db')"
  shows "accounts_ok db' \<and> refers db' c \<and> (\<forall>d. refers db d \<longrightarrow> refers db' d) \<and> (\<exists>cs. db' = db\<lparr>ad_comments := cs\<rparr>) \<and> (reason = None \<longrightarrow> c = None)"
proof (cases reason)
  case None
  then show ?thesis using ok c by (auto simp: comment_for_def refers_def intro!: exI[of _ "ad_comments db"])
next
  case (Some tx)
  show ?thesis
  proof (cases "find (\<lambda>(_, t). t = tx) (ad_comments db)")
    case (Some p)
    obtain j t where p: "p = (j, t)" by fastforce
    have "p \<in> set (ad_comments db)" using find_SomeD[OF Some] by simp
    moreover have "c = Some j" "db' = db" using c Some \<open>reason = Some tx\<close> by (simp_all add: p comment_for_def get_or_create_id_def)
    ultimately show ?thesis using ok \<open>reason = Some tx\<close> by (force simp: refers_def p intro!: exI[of _ "ad_comments db"])
  next
    case None
    let ?i = "Suc (fold max (map fst (ad_comments db)) 0)"
    have new: "c = Some ?i" "db' = db\<lparr>ad_comments := ad_comments db @ [(?i, tx)]\<rparr>"
      using c \<open>reason = Some tx\<close> None by (auto simp: comment_for_def get_or_create_id_def Let_def)
    have "?i \<notin> fst ` set (ad_comments db)" using fold_max_in[of _ "map fst (ad_comments db)" 0] by fastforce
    moreover have "tx \<notin> snd ` set (ad_comments db)" using None by (auto simp: find_None_iff)
    moreover have mono: "refers db d \<Longrightarrow> refers db' d" for d by (auto simp: refers_def new split: option.splits)
    moreover have "user_ok db' u" if "user_ok db u" for u using that mono by (simp add: user_ok_def new)
    moreover have "block_ok db' b" if "block_ok db b" for b using that mono by (simp add: block_ok_def new)
    ultimately have "accounts_ok db'" using ok by (simp add: accounts_ok_def new)
    then show ?thesis using mono new \<open>reason = Some tx\<close> by (auto simp: refers_def)
  qed
qed

section \<open>Every request keeps them\<close>

lemma with_requester_Inr: "with_requester en db k = Inr r \<longleftrightarrow> (\<exists>me. get_user db (ae_user_id en) = Some me \<and> k me = Inr r)"
  by (auto simp: with_requester_def split: option.splits)

lemma create_group_ok:
  assumes ok: "accounts_ok db" and c: "create_group n d es db = Inr db'"
  shows "accounts_ok db' \<and> ad_users db' = ad_users db"
proof -
  have new: "n \<notin> ug_group_name ` set (ad_groups db)"
    "db' = db\<lparr>ad_groups := ad_groups db @ [\<lparr>ug_group_name = n, ug_permissions = es, gr_display_name = d\<rparr>]\<rparr>"
    using c by (auto simp: create_group_def get_group_None split: if_splits)
  have "user_ok db' u" if "user_ok db u" for u using that by (auto simp: new(2) user_ok_def refers_def)
  moreover have "block_ok db' b" if "block_ok db b" for b using that by (simp add: new(2) block_ok_def refers_def)
  ultimately show ?thesis using ok new(1) by (simp add: accounts_ok_def new(2))
qed

lemma image_other: "f ` {x \<in> A. f x \<noteq> n} = f ` A - {n}"
  by auto

lemma remove_user_ok:
  assumes ok: "accounts_ok db"
  shows "accounts_ok (remove_user i db)"
proof -
  let ?db = "remove_user i db"
  have "user_ok ?db u" if "user_ok db u" for u using that by (simp add: user_ok_def refers_def remove_user_def)
  moreover have "block_ok ?db b" if "block_ok db b" "be_user_id b \<noteq> i" for b
    using that by (auto simp: block_ok_def refers_def remove_user_def image_other)
  ultimately show ?thesis
    using ok unfolding accounts_ok_def by (auto simp: remove_user_def distinct_map_filter image_other)
qed

lemma delete_group_ok:
  assumes ok: "accounts_ok db"
  shows "accounts_ok (db\<lparr>ad_users := map (\<lambda>u. u\<lparr>us_groups := filter (\<lambda>m. ms_group_name m \<noteq> n) (us_groups u)\<rparr>) (ad_users db),
    ad_groups := filter (\<lambda>g. ug_group_name g \<noteq> n) (ad_groups db)\<rparr>)"
    (is "accounts_ok ?db")
proof -
  have "user_ok ?db (u\<lparr>us_groups := filter (\<lambda>m. ms_group_name m \<noteq> n) (us_groups u)\<rparr>)" if "user_ok db u" for u
    using that by (auto simp: user_ok_def refers_def image_other)
  moreover have "block_ok ?db b" if "block_ok db b" for b using that by (simp add: block_ok_def refers_def image_image)
  ultimately show ?thesis using ok unfolding accounts_ok_def by (auto simp: distinct_map_filter comp_def image_image)
qed

lemma set_password_ok:
  assumes ok: "accounts_ok db" and u: "i \<in> us_id ` set (ad_users db)" and s: "set_password hash k c i pw fo ex now db = Some db'"
  shows "accounts_ok db' \<and> map us_id (ad_users db') = map us_id (ad_users db) \<and> map us_status (ad_users db') = map us_status (ad_users db)"
proof -
  define db1 where "db1 = (if list_ex (\<lambda>p. pr_user_id p = i) (ad_passwords db) then db
      else db\<lparr>ad_passwords := ad_passwords db @ [\<lparr>pc_credential_id = c, pc_last_modified = now, pr_user_id = i, pr_pass_hash = ''''\<rparr>]\<rparr>)"
  define db2 where "db2 = db1\<lparr>ad_passwords := map (\<lambda>p. if pr_user_id p = i
      then p\<lparr>pr_pass_hash := hash pw, pc_last_modified := (if fo then 0 else now)\<rparr> else p) (ad_passwords db1)\<rparr>"
  have db': "db' = update_user i (\<lambda>u. u\<lparr>ua_secret_key := k\<rparr>) db2"
    using s by (simp add: set_password_def db2_def db1_def Let_def split: if_splits)
  have "distinct (map pr_user_id (ad_passwords db1)) \<and> pr_user_id ` set (ad_passwords db1) \<subseteq> us_id ` set (ad_users db)"
    using ok u by (auto simp: db1_def accounts_ok_def list_ex_iff)
  moreover have "map pr_user_id (ad_passwords db2) = map pr_user_id (ad_passwords db1)" by (simp add: db2_def)
  ultimately have "distinct (map pr_user_id (ad_passwords db2)) \<and> pr_user_id ` set (ad_passwords db2) \<subseteq> us_id ` set (ad_users db)"
    by (metis set_map)
  moreover have same: "ad_users db2 = ad_users db" "ad_groups db2 = ad_groups db" "ad_blocks db2 = ad_blocks db" "ad_comments db2 = ad_comments db"
    "ad_policies db2 = ad_policies db" by (simp_all add: db2_def db1_def)
  ultimately have ok2: "accounts_ok db2" using ok by (simp add: accounts_ok_def user_ok_def block_ok_def refers_def)
  have "accounts_ok db'" unfolding db'
  proof (rule accounts_ok_update_user[OF ok2])
    fix u assume "u \<in> set (ad_users db2)"
    then have "user_ok db2 u" using ok2 by (simp add: accounts_ok_def)
    then show "user_ok db2 (u\<lparr>ua_secret_key := k\<rparr>)" by (simp add: user_ok_def)
  qed simp
  then show ?thesis using same by (simp add: db' update_user_def)
qed

lemma policy_added:
  "replace_auth_policy reg ps i q chs 0 = Inr ps' \<Longrightarrow> ps' (j, r) \<noteq> None \<Longrightarrow> j = i \<or> ps (j, r) \<noteq> None"
  by (auto simp: replace_auth_policy_def and_then_Inr Let_def split: if_splits)

lemma create_user_ok:
  assumes ok: "accounts_ok db" and fresh: "da_user_id dr \<notin> us_id ` set (ad_users db)" and c: "create_user reg hash dr rq now db = Inr db'"
  shows "accounts_ok db' \<and> (\<exists>us. map us_id (ad_users db') = map us_id (ad_users db) @ us) \<and>
    (\<exists>us. map us_status (ad_users db') = map us_status (ad_users db) @ us)"
proof -
  define u where "u = \<lparr>us_id = da_user_id dr, us_username = ur_username rq, us_status = ACTIVE, us_groups = ur_groups rq, us_rights = ur_permissions rq,
            ua_nickname = ur_nickname rq, ua_avatar_id = None, ua_last_login = Some 0, ua_created_time = now,
            ua_status_comment_id = None, ua_secret_key = da_secret_key dr\<rparr>"
  define db1 where "db1 = db\<lparr>ad_users := ad_users db @ [u]\<rparr>"
  have new: "ur_username rq \<notin> us_username ` set (ad_users db)" "ms_group_name ` set (ur_groups rq) \<subseteq> ug_group_name ` set (ad_groups db)"
    using c by (auto simp: create_user_def Let_def list_ex_iff list_all_iff get_group_None split: if_splits)
  have "user_ok db1 u" using new(2) by (simp add: user_ok_def db1_def u_def refers_def)
  moreover have "user_ok db1 v" if "user_ok db v" for v using that by (simp add: user_ok_def db1_def refers_def)
  moreover have "block_ok db1 b" if "block_ok db b" for b using that by (auto simp: block_ok_def db1_def refers_def)
  ultimately have ok1: "accounts_ok db1"
    using ok fresh new(1) unfolding accounts_ok_def by (auto simp: db1_def u_def)
  have ids: "map us_id (ad_users db1) = map us_id (ad_users db) @ [us_id u]" "map us_status (ad_users db1) = map us_status (ad_users db) @ [us_status u]"
    by (simp_all add: db1_def)
  show ?thesis
  proof (cases "ur_password rq = ''''")
    case True
    then have "db' = db1" using c by (simp add: create_user_def Let_def db1_def u_def split: if_splits)
    then show ?thesis using ok1 ids by blast
  next
    case False
    have ex: "set_password hash (da_new_secret dr) (da_credential_id dr) (da_user_id dr) (ur_password rq) False None now db1 \<noteq> None"
      by (simp add: set_password_def)
    then obtain db2 where db2: "set_password hash (da_new_secret dr) (da_credential_id dr) (da_user_id dr) (ur_password rq) False None now db1 = Some db2"
      by blast
    have idin: "da_user_id dr \<in> us_id ` set (ad_users db1)" by (simp add: db1_def u_def)
    note two = set_password_ok[OF ok1 idin db2]
    obtain ps where ps: "replace_auth_policy (reg db2 (da_user_id dr)) (ad_policies db2) (da_user_id dr) LOGIN
         [[\<lparr>as_method = ''password'', as_credential_ids = [da_credential_id dr]\<rparr>]] 0 = Inr ps" and db': "db' = db2\<lparr>ad_policies := ps\<rparr>"
      using c db2 False unfolding create_user_def Let_def u_def[symmetric] db1_def[symmetric] by (auto split: if_splits sum.splits)
    have "us_id ` set (ad_users db2) = us_id ` set (ad_users db1)" using two by (metis set_map)
    then have "\<forall>i q. ps (i, q) \<noteq> None \<longrightarrow> i \<in> us_id ` set (ad_users db2)"
      using policy_added[OF ps] two idin unfolding accounts_ok_def by metis
    then have "accounts_ok db'" using conjunct1[OF two] by (simp add: db' accounts_ok_def user_ok_def block_ok_def refers_def)
    then show ?thesis using two ids by (auto simp: db')
  qed
qed

section \<open>Requests\<close>

datatype account_request =
    CreateUser "account_db \<Rightarrow> string \<Rightarrow> auth_registry" "string \<Rightarrow> string" drawn_account create_user_request
  | DeleteUser string
  | RenameUser string "string option"
  | BlockUser string block_user_request
  | UnblockUser string
  | UpdateUserBlock string "string option"
  | SetUserAvatar "string \<Rightarrow> string option" bool string string doc_db
  | ChangeUserGroups string "string list option"
  | ChangeUserPermissions string "permission_entry list"
  | SetPasswd password_env request_token string string set_password_request "password_assessment mem_cache"
  | ManageUserStatus string user_status "string option option"
  | CreateGroup string "string option" "permission_entry list"
  | DeleteGroup string
  | RenameGroup string "string option"
  | ChangeGroupPermissions string "permission_entry list"

fun handle_account_request :: "account_env \<Rightarrow> account_request \<Rightarrow> account_db \<Rightarrow> account_handled" where
  "handle_account_request en (CreateUser reg hash dr rq) db = create_user_handler reg hash en dr rq db"
| "handle_account_request en (DeleteUser i) db = delete_user en i db"
| "handle_account_request en (RenameUser i n) db = rename_user en i n db"
| "handle_account_request en (BlockUser b rq) db = block_user en b rq db"
| "handle_account_request en (UnblockUser b) db = unblock_user en b db"
| "handle_account_request en (UpdateUserBlock b r) db = update_user_block en b r db"
| "handle_account_request en (SetUserAvatar g rec i d docs) db = set_user_avatar g en rec i d docs db"
| "handle_account_request en (ChangeUserGroups i ns) db = change_user_groups en i ns db"
| "handle_account_request en (ChangeUserPermissions i es) db = change_user_permissions en i es db"
| "handle_account_request en (SetPasswd pe tok k c rq cache) db =
     and_then (set_passwd_request pe en tok k c rq db cache) (\<lambda>(rp, db1, _). Inr (rp, db1))"
| "handle_account_request en (ManageUserStatus i s r) db = manage_user_status en i s r db"
| "handle_account_request en (CreateGroup n d es) db = create_group_handler en n d es db"
| "handle_account_request en (DeleteGroup n) db = delete_group en n db"
| "handle_account_request en (RenameGroup n d) db = rename_group en n d db"
| "handle_account_request en (ChangeGroupPermissions n es) db = change_group_permissions en n es db"

text \<open>Identifiers drawn for new rows are not in use.\<close>

fun fresh_account_request :: "account_db \<Rightarrow> account_request \<Rightarrow> bool" where
  "fresh_account_request db (CreateUser reg hash dr rq) \<longleftrightarrow> da_user_id dr \<notin> us_id ` set (ad_users db)"
| "fresh_account_request db (BlockUser b rq) \<longleftrightarrow> b \<notin> bl_id ` set (ad_blocks db)"
| "fresh_account_request db rq \<longleftrightarrow> True"

definition status_of :: "account_db \<Rightarrow> string \<Rightarrow> user_status option" where
  "status_of db = map_of (map (\<lambda>u. (us_id u, us_status u)) (ad_users db))"

lemma status_of_get: "status_of db i = map_option us_status (get_user db i)"
proof -
  have "map_of (map (\<lambda>u. (us_id u, us_status u)) us) i = map_option us_status (find (\<lambda>u. us_id u = i) us)" for us :: "user_account list"
    by (induction us) auto
  then show ?thesis by (simp add: status_of_def get_user_def)
qed

lemma status_of_zip: "status_of db = map_of (zip (map us_id (ad_users db)) (map us_status (ad_users db)))"
proof -
  have "map (\<lambda>u. (us_id u, us_status u)) us = zip (map us_id us) (map us_status us)" for us :: "user_account list"
    by (induction us) auto
  then show ?thesis by (simp only: status_of_def)
qed

lemma status_of_update:
  "(\<And>u. us_id (f u) = us_id u) \<Longrightarrow> i \<noteq> j \<or> (\<forall>u. us_status (f u) = us_status u) \<Longrightarrow> status_of (update_user j f db) i = status_of db i"
proof -
  assume f: "\<And>u. us_id (f u) = us_id u" and s: "i \<noteq> j \<or> (\<forall>u. us_status (f u) = us_status u)"
  have "map_of (map (\<lambda>u. (us_id u, us_status u)) (map (\<lambda>u. if us_id u = j then f u else u) us)) i =
      map_of (map (\<lambda>u. (us_id u, us_status u)) us) i" for us
    by (induction us) (use f s in auto)
  then show ?thesis by (simp add: status_of_def update_user_def)
qed

lemma status_of_remove: "i \<noteq> j \<Longrightarrow> status_of (remove_user j db) i = status_of db i"
proof -
  assume n: "i \<noteq> j"
  have "map_of (map (\<lambda>u. (us_id u, us_status u)) (filter (\<lambda>u. us_id u \<noteq> j) us)) i = map_of (map (\<lambda>u. (us_id u, us_status u)) us) i"
    for us :: "user_account list" by (induction us) (use n in auto)
  then show ?thesis by (simp add: status_of_def remove_user_def)
qed

text \<open>What a request by the account \<open>i\<close> leaves: well-formed tables, and its own account with the status it had.\<close>

definition keeps :: "string \<Rightarrow> account_db \<Rightarrow> account_db \<Rightarrow> bool" where
  "keeps i db db' \<longleftrightarrow> accounts_ok db' \<and> status_of db' i = status_of db i"

lemma keeps_refl: "accounts_ok db \<Longrightarrow> keeps i db db"
  by (simp add: keeps_def)

lemma keeps_update_user:
  assumes "accounts_ok db" "\<And>u. us_id (f u) = us_id u \<and> us_username (f u) = us_username u \<and> us_status (f u) = us_status u"
    and "\<And>u. ms_group_name ` set (us_groups (f u)) \<subseteq> ms_group_name ` set (us_groups u) \<union> ug_group_name ` set (ad_groups db)"
    and "\<And>u. ua_status_comment_id (f u) = ua_status_comment_id u"
  shows "keeps i db (update_user j f db)"
  unfolding keeps_def
proof
  show "accounts_ok (update_user j f db)"
  proof (rule accounts_ok_update_user[OF assms(1)])
    fix u assume "u \<in> set (ad_users db)"
    then have "user_ok db u" using assms(1) by (simp add: accounts_ok_def)
    moreover from this have "ms_group_name ` set (us_groups (f u)) \<subseteq> ug_group_name ` set (ad_groups db)"
      using assms(3)[of u] unfolding user_ok_def by blast
    ultimately show "user_ok db (f u)" by (simp add: user_ok_def assms(2,4))
  qed (use assms(2) in simp)
  show "status_of (update_user j f db) i = status_of db i" by (rule status_of_update) (use assms(2) in auto)
qed

lemma keeps_groups:
  assumes "accounts_ok db" "\<And>g. ug_group_name (f g) = ug_group_name g"
  shows "keeps i db (update_group n f db)"
  using accounts_ok_update_group[OF assms] by (simp add: keeps_def status_of_def update_group_def)

lemma keeps_set_password:
  assumes ok: "accounts_ok db" and u: "get_user db j = Some u" and s: "set_password hash k c j pw fo ex now db = Some db'"
  shows "keeps i db db'"
proof -
  have "j \<in> us_id ` set (ad_users db)" using get_user_Some[OF u] by force
  from set_password_ok[OF ok this s] show ?thesis by (simp add: keeps_def status_of_zip)
qed

lemma keeps_create_user:
  assumes ok: "accounts_ok db" and fresh: "da_user_id dr \<notin> us_id ` set (ad_users db)" and c: "create_user reg hash dr rq now db = Inr db'"
    and me: "get_user db i = Some me"
  shows "keeps i db db'"
proof -
  obtain js ss where l: "map us_id (ad_users db') = map us_id (ad_users db) @ js" "map us_status (ad_users db') = map us_status (ad_users db) @ ss"
    and ok': "accounts_ok db'" using create_user_ok[OF ok fresh c] by blast
  have "status_of db' = map_of (zip js ss) ++ status_of db" unfolding status_of_zip l by simp
  moreover have "status_of db i \<noteq> None" using me by (simp add: status_of_get)
  ultimately show ?thesis using ok' by (auto simp: keeps_def map_add_def split: option.splits)
qed

lemma keeps_comments:
  assumes ok: "accounts_ok db" and c: "comment_for reason db = (c, db1)"
  shows "accounts_ok db1" "refers db1 c" "status_of db1 = status_of db" "get_user db1 = get_user db" "ad_blocks db1 = ad_blocks db"
    "ad_users db1 = ad_users db" "reason = None \<Longrightarrow> c = None"
proof -
  obtain cs where "db1 = db\<lparr>ad_comments := cs\<rparr>" using comment_for_ok[OF ok c] by blast
  then show "status_of db1 = status_of db" "get_user db1 = get_user db" "ad_blocks db1 = ad_blocks db" "ad_users db1 = ad_users db"
    by (simp_all add: status_of_def get_user_def fun_eq_iff)
qed (use comment_for_ok[OF ok c] in auto)

lemma block_user_stored:
  assumes h: "block_user en b rq db = Inr (rp, db')" and n: "db' \<noteq> db"
  obtains u c db1 where "get_user db (bq_user_id rq) = Some u" "comment_for (bq_reason rq) db = (c, db1)"
    "set (bq_block_types rq) \<subseteq> AVAILABLE_BLOCK_TYPES" "\<not> (get_or (bq_not_after rq) (-1) \<ge> 0 \<and> get_or (bq_not_after rq) (-1) \<le> get_or (bq_not_before rq) 0)"
    "db' = db1\<lparr>ad_blocks := ad_blocks db1 @ [\<lparr>be_user_id = us_id u, be_not_before = get_or (bq_not_before rq) 0,
       be_not_after = get_or (bq_not_after rq) (-1), be_target_type = bq_target_type rq,
       be_target_id = bq_target_id rq, be_block_types = bq_block_types rq, bl_id = b, bl_timestamp = ae_now en, bl_reason_comment_id = c\<rparr>]\<rparr>"
  using h n by (auto simp: block_user_def Let_def with_requester_Inr split: if_splits option.splits prod.splits)

lemma keeps_block_user:
  assumes ok: "accounts_ok db" and fresh: "b \<notin> bl_id ` set (ad_blocks db)" and h: "block_user en b rq db = Inr (rp, db')"
  shows "keeps i db db'"
proof (cases "db' = db")
  case False
  let ?nb = "get_or (bq_not_before rq) 0" and ?na = "get_or (bq_not_after rq) (-1)"
  obtain u c db1 where u: "get_user db (bq_user_id rq) = Some u" and c: "comment_for (bq_reason rq) db = (c, db1)"
    and t: "set (bq_block_types rq) \<subseteq> AVAILABLE_BLOCK_TYPES" "\<not> (?na \<ge> 0 \<and> ?na \<le> ?nb)"
    and db': "db' = db1\<lparr>ad_blocks := ad_blocks db1 @ [\<lparr>be_user_id = us_id u, be_not_before = ?nb, be_not_after = ?na, be_target_type = bq_target_type rq,
       be_target_id = bq_target_id rq, be_block_types = bq_block_types rq, bl_id = b, bl_timestamp = ae_now en, bl_reason_comment_id = c\<rparr>]\<rparr>"
    using block_user_stored[OF h False] by blast
  note k = keeps_comments[OF ok c]
  have "us_id u \<in> us_id ` set (ad_users db1)" using get_user_Some[OF u] k(6) by (metis image_eqI)
  moreover have "user_ok db' v" if "user_ok db1 v" for v using that by (simp add: db' user_ok_def refers_def)
  moreover have "block_ok db' x" if "block_ok db1 x" for x using that by (simp add: db' block_ok_def refers_def)
  ultimately have "accounts_ok db'"
    using k(1,2) fresh t unfolding accounts_ok_def by (auto simp: db' k(5) block_ok_def refers_def)
  then show ?thesis using k(3) by (simp add: keeps_def db' status_of_def)
qed (use ok keeps_refl in simp)

lemma keeps_blocks:
  assumes ok: "accounts_ok db" and d: "distinct (map bl_id bs)" "\<And>b. b \<in> set bs \<Longrightarrow> block_ok db b"
  shows "keeps i db (db\<lparr>ad_blocks := bs\<rparr>)"
  using assms by (simp add: keeps_def accounts_ok_def status_of_def user_ok_def block_ok_def refers_def)

lemma keeps_update_block:
  assumes ok: "accounts_ok db" and h: "update_user_block en b reason db = Inr (rp, db')"
  shows "keeps i db db'"
proof (cases "db' = db")
  case False
  obtain c db1 where c: "comment_for reason db = (c, db1)"
    and db': "db' = db1\<lparr>ad_blocks := map (\<lambda>x. if bl_id x = b then x\<lparr>bl_reason_comment_id := c\<rparr> else x) (ad_blocks db1)\<rparr>"
    using h False by (auto simp: update_user_block_def Let_def with_requester_Inr split: if_splits option.splits prod.splits)
  note k = keeps_comments[OF ok c]
  have "map bl_id (map (\<lambda>x. if bl_id x = b then x\<lparr>bl_reason_comment_id := c\<rparr> else x) (ad_blocks db1)) = map bl_id (ad_blocks db1)" by simp
  moreover have "block_ok db1 (x\<lparr>bl_reason_comment_id := c\<rparr>)" if "block_ok db1 x" for x using that k(2) by (simp add: block_ok_def)
  ultimately have "keeps i db1 db'"
    unfolding db' by (intro keeps_blocks k(1)) (use k(1) in \<open>auto simp only: accounts_ok_def set_map, auto\<close>)
  then show ?thesis using k(3) by (simp add: keeps_def)
qed (use ok keeps_refl in simp)

lemma keeps_status_change:
  assumes ok: "accounts_ok db" and c: "comment_for reason db = (c, db1)" and j: "i \<noteq> j"
    and f: "\<And>u. us_id (f u) = us_id u \<and> us_username (f u) = us_username u \<and> us_groups (f u) = us_groups u \<and> ua_status_comment_id (f u) = c"
    and s: "\<And>u. u \<in> set (ad_users db) \<Longrightarrow> us_id u = j \<Longrightarrow> us_status (f u) = ACTIVE \<Longrightarrow> reason = None"
  shows "keeps i db (update_user j f db1)"
proof -
  note k = keeps_comments[OF ok c]
  have "accounts_ok (update_user j f db1)"
  proof (rule accounts_ok_update_user[OF k(1)])
    fix u assume u: "u \<in> set (ad_users db1)" "us_id u = j"
    then have "user_ok db1 u" using k(1) by (simp add: accounts_ok_def)
    then show "user_ok db1 (f u)" using f[of u] s[of u] k(2,6,7) u by (auto simp: user_ok_def)
  qed (use f in simp)
  moreover have "status_of (update_user j f db1) i = status_of db1 i" by (rule status_of_update) (use f j in auto)
  ultimately show ?thesis using k(3) by (simp add: keeps_def)
qed

lemma keeps_manage_status:
  assumes ok: "accounts_ok db" and h: "manage_user_status en j s provided db = Inr (rp, db')"
  shows "keeps (ae_user_id en) db db'"
proof (cases "db' = db")
  case False
  obtain me u where me: "get_user db (ae_user_id en) = Some me" and j: "j \<noteq> us_id me" and u: "get_user db j = Some u"
    using h False by (auto simp: manage_user_status_def with_requester_Inr split: if_splits option.splits)
  have ne: "ae_user_id en \<noteq> j" using j get_user_Some[OF me] by simp
  have only: "v = u" if "v \<in> set (ad_users db)" "us_id v = j" for v
    using ok that get_user_Some[OF u] by (auto simp: accounts_ok_def distinct_map inj_on_def)
  consider (changed) c db1 where "us_status u \<noteq> s" "comment_for (if s = DISABLED then get_or provided None else None) db = (c, db1)"
      "db' = update_user j (\<lambda>v. v\<lparr>us_status := s, ua_status_comment_id := c\<rparr>) db1"
    | (reason) c db1 where "us_status u = s" "s = DISABLED" "comment_for (get_or provided None) db = (c, db1)"
      "db' = update_user j (\<lambda>v. v\<lparr>ua_status_comment_id := c\<rparr>) db1"
    using h False me u j by (auto simp: manage_user_status_def Let_def with_requester_Inr split: if_splits prod.splits)
  then show ?thesis
  proof cases
    case changed
    show ?thesis unfolding changed(3) by (rule keeps_status_change[OF ok changed(2) ne]) auto
  next
    case reason
    show ?thesis unfolding reason(4) by (rule keeps_status_change[OF ok reason(3) ne]) (use only reason in auto)
  qed
qed (use ok keeps_refl in simp)

lemma keeps_passwd:
  assumes ok: "accounts_ok db" and h: "set_passwd_request pe en tok k c rq db cache = Inr (rp, db', cache')"
  shows "keeps i db db'"
proof (cases "db' = db")
  case False
  then obtain j u hash pw fo ex now where "get_user db j = Some u" "set_password hash k c j pw fo ex now db = Some db'"
    using h by (auto simp: set_passwd_request_def Let_def with_requester_Inr and_then_Inr split: if_splits option.splits)
  then show ?thesis by (rule keeps_set_password[OF ok])
qed (use ok keeps_refl in simp)

lemma keeps_delete_user:
  assumes ok: "accounts_ok db" and h: "delete_user en j db = Inr (rp, db')"
  shows "keeps (ae_user_id en) db db'"
proof (cases "db' = db")
  case False
  then obtain me and u :: user_account where "get_user db (ae_user_id en) = Some me" "us_id u \<noteq> us_id me" "db' = remove_user (us_id u) db"
    using h by (auto simp: delete_user_def with_requester_Inr split: if_splits option.splits)
  then show ?thesis using remove_user_ok[OF ok] status_of_remove get_user_Some by (metis keeps_def)
qed (use ok keeps_refl in simp)

lemma keeps_delete_group:
  assumes ok: "accounts_ok db" and h: "delete_group en n db = Inr (rp, db')"
  shows "keeps i db db'"
proof (cases "db' = db")
  case False
  then have db': "db' = db\<lparr>ad_users := map (\<lambda>u. u\<lparr>us_groups := filter (\<lambda>m. ms_group_name m \<noteq> n) (us_groups u)\<rparr>) (ad_users db),
      ad_groups := filter (\<lambda>g. ug_group_name g \<noteq> n) (ad_groups db)\<rparr>"
    using h by (auto simp: delete_group_def with_requester_Inr split: if_splits option.splits)
  show ?thesis using delete_group_ok[OF ok, of n] by (simp add: keeps_def db' status_of_def comp_def)
qed (use ok keeps_refl in simp)

lemma keeps_change_groups:
  assumes ok: "accounts_ok db" and h: "change_user_groups en j ns db = Inr (rp, db')"
  shows "keeps i db db'"
proof (cases "db' = db")
  case False
  let ?ns = "get_or ns []"
  have db': "list_all (\<lambda>n. get_group db n \<noteq> None) ?ns"
    "db' = update_user j (\<lambda>v. v\<lparr>us_groups := us_groups (set_all_groups (user.truncate v) ?ns (ae_now en))\<rparr>) db"
    using h False by (auto simp: change_user_groups_def Let_def with_requester_Inr split: if_splits option.splits)
  have "ms_group_name ` set (us_groups (set_all_groups v ?ns (ae_now en))) = set ?ns" for v
    by (auto simp: set_all_groups_memberships image_image)
  moreover have "set ?ns \<subseteq> ug_group_name ` set (ad_groups db)" using db'(1) by (auto simp: list_all_iff get_group_None)
  ultimately show ?thesis unfolding db'(2) by (intro keeps_update_user[OF ok]) auto
qed (use ok keeps_refl in simp)

lemma keeps_create_group:
  assumes ok: "accounts_ok db" and h: "create_group_handler en n d es db = Inr (rp, db')"
  shows "keeps i db db'"
proof (cases "db' = db")
  case False
  then have "create_group n d es db = Inr db'"
    using h by (auto simp: create_group_handler_def with_requester_Inr and_then_Inr split: if_splits)
  from create_group_ok[OF ok this] show ?thesis by (simp add: keeps_def status_of_def)
qed (use ok keeps_refl in simp)

lemma keeps_plain:
  assumes ok: "accounts_ok db"
  shows "rename_user en j n db = Inr (rp, db') \<Longrightarrow> keeps i db db'"
    and "change_user_permissions en j es db = Inr (rp, db') \<Longrightarrow> keeps i db db'"
    and "set_user_avatar g en rec j d docs db = Inr (rp, db') \<Longrightarrow> keeps i db db'"
    and "rename_group en m dn db = Inr (rp, db') \<Longrightarrow> keeps i db db'"
    and "change_group_permissions en m es db = Inr (rp, db') \<Longrightarrow> keeps i db db'"
    and "unblock_user en b db = Inr (rp, db') \<Longrightarrow> keeps i db db'"
proof -
  show "rename_user en j n db = Inr (rp, db') \<Longrightarrow> keeps i db db'"
    using ok by (auto simp: rename_user_def with_requester_Inr intro!: keeps_update_user ok keeps_refl split: if_splits option.splits)
  show "change_user_permissions en j es db = Inr (rp, db') \<Longrightarrow> keeps i db db'"
    using ok by (auto simp: change_user_permissions_def with_requester_Inr intro!: keeps_update_user ok keeps_refl split: if_splits option.splits)
  show "set_user_avatar g en rec j d docs db = Inr (rp, db') \<Longrightarrow> keeps i db db'"
    using ok by (auto simp: set_user_avatar_def with_requester_Inr intro!: keeps_update_user ok keeps_refl split: if_splits option.splits sum.splits)
  show "rename_group en m dn db = Inr (rp, db') \<Longrightarrow> keeps i db db'"
    using ok by (auto simp: rename_group_def with_requester_Inr intro!: keeps_groups ok keeps_refl split: if_splits option.splits)
  show "change_group_permissions en m es db = Inr (rp, db') \<Longrightarrow> keeps i db db'"
    using ok by (auto simp: change_group_permissions_def with_requester_Inr intro!: keeps_groups ok keeps_refl split: if_splits option.splits)
  show "unblock_user en b db = Inr (rp, db') \<Longrightarrow> keeps i db db'"
    using ok by (auto simp: unblock_user_def with_requester_Inr accounts_ok_def distinct_map_filter intro!: keeps_blocks keeps_refl
        split: if_splits option.splits)
qed

lemma request_keeps:
  assumes ok: "accounts_ok db" and fresh: "fresh_account_request db rq" and h: "handle_account_request en rq db = Inr (rp, db')"
  shows "keeps (ae_user_id en) db db'"
proof (cases rq)
  case (CreateUser reg hash dr r)
  then show ?thesis
    using h fresh keeps_create_user[OF ok] keeps_refl[OF ok]
    by (auto simp: create_user_handler_def with_requester_Inr and_then_Inr split: if_splits)
next
  case (SetPasswd pe tok k c r cache)
  then show ?thesis using h keeps_passwd[OF ok] by (auto simp: and_then_Inr)
qed (use h fresh keeps_plain[OF ok] keeps_delete_user[OF ok] keeps_delete_group[OF ok] keeps_change_groups[OF ok] keeps_create_group[OF ok]
    keeps_block_user[OF ok] keeps_update_block[OF ok] keeps_manage_status[OF ok] in auto)

inductive account_run :: "account_db \<Rightarrow> account_db \<Rightarrow> bool" for start where
  run_start: "account_run start start"
| run_step: "account_run start db \<Longrightarrow> status_of db (ae_user_id en) = Some ACTIVE \<Longrightarrow> fresh_account_request db rq \<Longrightarrow>
    handle_account_request en rq db = Inr (rp, db') \<Longrightarrow> account_run start db'"

text \<open>C19. The tables of accounts and groups are well-formed after every sequence of requests: identifiers, user names and
  group names are unique, memberships name existing groups, blocks and passwords and policies belong to
  existing accounts, blocks have a known type and a window that is not empty, and only disabled accounts carry a reason.\<close>

theorem account_tables_ok:
  assumes "accounts_ok db" "account_run db db'"
  shows "accounts_ok db'"
  using assms(2,1) by (induction rule: account_run.induct) (auto dest: request_keeps simp: keeps_def)

text \<open>C20. The server never loses its last account: no sequence of requests, each sent by an account that is active
  at that moment, can leave it without one, because nobody can delete or disable themselves.\<close>

theorem some_account_stays_active:
  assumes "accounts_ok db" "account_run db db'" "\<exists>i. status_of db i = Some ACTIVE"
  shows "\<exists>i. status_of db' i = Some ACTIVE"
proof -
  have "accounts_ok db' \<and> (\<exists>i. status_of db' i = Some ACTIVE)"
    using assms(2)
  proof (induction rule: account_run.induct)
    case (run_step d en rq rp d')
    then have "keeps (ae_user_id en) d d'" using request_keeps by blast
    with run_step.hyps(2) show ?case by (auto simp: keeps_def)
  qed (use assms in blast)
  then show ?thesis by blast
qed

section \<open>Sample accounts\<close>

definition sample_user :: "string \<Rightarrow> membership list \<Rightarrow> permission_entry list \<Rightarrow> user_account" where
  "sample_user i ms rights = \<lparr>us_id = i, us_username = i, us_status = ACTIVE, us_groups = ms, us_rights = rights, ua_nickname = None,
     ua_avatar_id = None, ua_last_login = None, ua_created_time = 0, ua_status_comment_id = None, ua_secret_key = ''k''\<rparr>"

definition sample_accounts :: account_db where
  "sample_accounts = \<lparr>ad_users = [sample_user ''ann'' [] (map right [''manage_user_status'', ''change_user_groups'', ''block'']),
       sample_user ''bob'' [\<lparr>ms_group_name = ''staff'', ms_start_time = Some 0, ms_end_time = None\<rparr>,
         \<lparr>ms_group_name = ''admins'', ms_start_time = Some 100, ms_end_time = None\<rparr>] []],
     ad_groups = [\<lparr>ug_group_name = ''staff'', ug_permissions = [], gr_display_name = None\<rparr>,
       \<lparr>ug_group_name = ''admins'', ug_permissions = [], gr_display_name = None\<rparr>],
     ad_blocks = [], ad_comments = [], ad_passwords = [], ad_policies = (\<lambda>_. None)\<rparr>"

definition ann_env :: account_env where
  "ann_env = \<lparr>ae_user_id = ''ann'', ae_now = 5\<rparr>"

lemma sample_accounts_ok: "accounts_ok sample_accounts"
  by (simp add: accounts_ok_def sample_accounts_def sample_user_def user_ok_def refers_def)

definition disabled_accounts :: account_db where
  "disabled_accounts = update_user ''bob'' (\<lambda>u. u\<lparr>us_status := DISABLED, ua_status_comment_id := None\<rparr>) sample_accounts"

lemma sample_account_run: "account_run sample_accounts disabled_accounts"
proof (rule run_step[OF run_start, of sample_accounts ann_env "ManageUserStatus ''bob'' DISABLED None" "\<lparr>ar_code = 200, ar_data = StatusData ''bob'' DISABLED None\<rparr>"])
  show "status_of sample_accounts (ae_user_id ann_env) = Some ACTIVE" by (simp add: status_of_def sample_accounts_def sample_user_def ann_env_def)
  have "''manage_user_status'' \<in> permissions_of sample_accounts (sample_user ''ann'' [] (map right [''manage_user_status'', ''change_user_groups'', ''block''])) 5"
    by code_simp
  then show "handle_account_request ann_env (ManageUserStatus ''bob'' DISABLED None) sample_accounts =
      Inr (\<lparr>ar_code = 200, ar_data = StatusData ''bob'' DISABLED None\<rparr>, disabled_accounts)"
    by (simp add: manage_user_status_def with_requester_def holds_def ann_env_def get_user_def sample_accounts_def sample_user_def
        disabled_accounts_def comment_for_def get_or_def)
qed simp

theorem account_tables_ok_witness:
  "accounts_ok disabled_accounts \<and> status_of disabled_accounts ''bob'' = Some DISABLED"
  using account_tables_ok[OF sample_accounts_ok sample_account_run]
  by (simp add: disabled_accounts_def sample_accounts_def sample_user_def status_of_def update_user_def)

theorem some_account_stays_active_witness:
  "(\<exists>i. status_of disabled_accounts i = Some ACTIVE) \<and> status_of disabled_accounts ''bob'' = Some DISABLED"
proof -
  have "\<exists>i. status_of sample_accounts i = Some ACTIVE"
    by (rule exI[of _ "''ann''"]) (simp add: status_of_def sample_accounts_def sample_user_def)
  from some_account_stays_active[OF sample_accounts_ok sample_account_run this] show ?thesis
    by (simp add: disabled_accounts_def sample_accounts_def sample_user_def status_of_def update_user_def)
qed

section \<open>Requests that do less than they say\<close>

text \<open>Setting the groups of an account compares with the groups that are in force now.  When they agree the request is
  answered with success and nothing is stored, so a membership that starts later is kept and takes effect, although it
  is not among the groups that were set.\<close>

lemma change_groups_keeps_scheduled:
  assumes "accounts_ok db" "get_user db i = Some u" "get_user db (ae_user_id en) = Some me" "holds en db me ''change_user_groups''"
    and "m \<in> set (us_groups u)" "ms_start_time m = Some s" "ae_now en < s" "ms_end_time m = None" "s \<le> later"
    and "set names = all_groups (user.truncate u) (ae_now en)"
  shows "\<exists>db'. change_user_groups en i (Some names) db = Inr (answer 200, db') \<and>
    (\<exists>v. get_user db' i = Some v \<and> ms_group_name m \<in> all_groups (user.truncate v) later)"
proof -
  have "change_user_groups en i (Some names) db = Inr (answer 200, db)"
    using assms(2,3,4,10) by (simp add: change_user_groups_def with_requester_def Let_def get_or_def)
  moreover have "ms_group_name m \<in> all_groups (user.truncate u) later"
    using assms(5-9) by (auto simp: all_groups_def user.truncate_def)
  ultimately show ?thesis using assms(2) by blast
qed

text \<open>A block whose end is negative but not minus one is accepted and answered with success, yet it never blocks
  anything: whatever the time, access type and user, the blocks in force are the same as without it.\<close>

lemma negative_block_never_applies:
  assumes "block_user en b rq db = Inr (rp, db')" "bq_not_after rq = Some x" "x < 0" "x \<noteq> -1" "0 \<le> now"
  shows "prefetch_user_blocks (w\<lparr>aw_blocks := map block_entry.truncate (ad_blocks db')\<rparr>) u t now =
    prefetch_user_blocks (w\<lparr>aw_blocks := map block_entry.truncate (ad_blocks db)\<rparr>) u t now"
proof (cases "db' = db")
  case False
  obtain u' :: user_account and c db1 where c: "comment_for (bq_reason rq) db = (c, db1)"
    and db': "db' = db1\<lparr>ad_blocks := ad_blocks db1 @ [\<lparr>be_user_id = us_id u', be_not_before = get_or (bq_not_before rq) 0,
       be_not_after = get_or (bq_not_after rq) (-1), be_target_type = bq_target_type rq,
       be_target_id = bq_target_id rq, be_block_types = bq_block_types rq, bl_id = b, bl_timestamp = ae_now en, bl_reason_comment_id = c\<rparr>]\<rparr>"
    using block_user_stored[OF assms(1) False] by blast
  have "ad_blocks db1 = ad_blocks db"
    using c by (auto simp: comment_for_def get_or_create_id_def Let_def split: option.splits prod.splits)
  moreover have "\<not> (x = -1 \<or> x \<ge> now)" using assms(3-5) by auto
  ultimately show ?thesis using assms(2) by (simp add: db' prefetch_user_blocks_def block_entry.truncate_def get_or_def)
qed simp

text \<open>The number of password rules to pass is capped by the length of the configured list, but the rules passed are
  counted as a set: when a rule is listed twice and all are demanded, no password at all is accepted.\<close>

lemma repeated_rule_refuses_every_password:
  assumes "\<not> distinct rules" "length rules \<le> needed" "min_length \<le> length passwd" "length passwd \<le> max_length"
  shows "\<exists>n missing. check_passwd_requirements found passwd min_length max_length rules needed = Some (PasswordRules n (length rules) missing)"
proof -
  have "card (set (filter (\<lambda>r. found r passwd) rules)) \<le> card (set rules)" by (intro card_mono) auto
  also have "\<dots> < length rules" using assms(1) by (metis card_distinct card_length le_neq_implies_less)
  finally have "\<not> card (set (filter (\<lambda>r. found r passwd) rules)) \<ge> min needed (length rules)" using assms(2) by simp
  moreover have ne: "rules \<noteq> []" using assms(1) by auto
  moreover have "needed \<noteq> 0" using ne assms(2) by (cases rules) auto
  ultimately show ?thesis using assms by (auto simp: check_passwd_requirements_def Let_def min_def)
qed

section \<open>Removing expired permission entries\<close>

definition owned :: "string \<Rightarrow> permission_row list \<Rightarrow> permission_entry list" where
  "owned i rows = map permission_entry.truncate (filter (\<lambda>r. px_owner r = i) rows)"

lemma entry_expired_inactive: "entry_expired cutoff r \<Longrightarrow> cutoff \<le> now \<Longrightarrow> \<not> window_active (pe_start_time r) (pe_end_time r) now"
  by (auto simp: entry_expired_def window_active_def split: option.splits)

lemma grants_and_revocations_drop:
  assumes "\<And>r. r \<in> set rows \<Longrightarrow> \<not> P r \<Longrightarrow> \<not> window_active (pe_start_time r) (pe_end_time r) now"
  shows "permission_grants_and_revocations (owned i (filter P rows)) now = permission_grants_and_revocations (owned i rows) now"
  using assms
proof (induction rows)
  case (Cons r rows)
  then have "permission_grants_and_revocations (owned i (filter P rows)) now = permission_grants_and_revocations (owned i rows) now" by simp
  moreover have "\<not> P r \<Longrightarrow> \<not> window_active (pe_start_time r) (pe_end_time r) now" using Cons.prems by simp
  ultimately show ?case by (auto simp: owned_def Let_def permission_entry.truncate_def)
qed simp

lemma same_set_length: "set xs = set ys \<Longrightarrow> distinct xs \<Longrightarrow> distinct ys \<Longrightarrow> length xs = length ys"
  by (metis distinct_card)

lemma purge_batch_rows:
  "\<exists>P. snd (purge_expired_entry_batch rows cutoff n) = filter P rows \<and> (\<forall>r. \<not> P r \<longrightarrow> entry_expired cutoff r)"
  by (auto simp: purge_expired_entry_batch_def Let_def intro!: exI[of _ "\<lambda>_. True"]
      exI[of _ "\<lambda>r. \<not> (px_id r \<in> px_id ` set (take n (sort_key (\<lambda>r. (get_or (pe_end_time r) 0, px_id r)) (filter (entry_expired cutoff) rows))) \<and>
        entry_expired cutoff r)"])

text \<open>C21. Removing expired permission entries never changes what anybody may do: for every account and group, from the
  cut-off on, the effective permissions are the same before and after a batch; and a batch removes
  as many entries as there are expired ones, up to its size.\<close>

theorem permission_cleanup_is_neutral:
  assumes "distinct (map px_id rows)"
  shows "(cutoff \<le> now \<longrightarrow> effective_permissions (owned i (snd (purge_expired_entry_batch rows cutoff n))) now =
      effective_permissions (owned i rows) now) \<and>
    fst (purge_expired_entry_batch rows cutoff n) = min n (count_expired_entries rows cutoff)"
proof
  obtain P where P: "snd (purge_expired_entry_batch rows cutoff n) = filter P rows" and ex: "\<And>r. \<not> P r \<Longrightarrow> entry_expired cutoff r"
    using purge_batch_rows by blast
  show "cutoff \<le> now \<longrightarrow> effective_permissions (owned i (snd (purge_expired_entry_batch rows cutoff n))) now =
      effective_permissions (owned i rows) now"
  proof
    assume now: "cutoff \<le> now"
    have "permission_grants_and_revocations (owned i (filter P rows)) now = permission_grants_and_revocations (owned i rows) now"
      by (rule grants_and_revocations_drop) (rule entry_expired_inactive[OF ex now])
    then show "effective_permissions (owned i (snd (purge_expired_entry_batch rows cutoff n))) now = effective_permissions (owned i rows) now"
      by (simp add: effective_permissions_def P)
  qed
next
  let ?ex = "filter (entry_expired cutoff) rows"
  let ?batch = "take n (sort_key (\<lambda>r. (get_or (pe_end_time r) 0, px_id r)) ?ex)"
  have d: "distinct (map px_id ?ex)" using assms by (rule distinct_map_filter)
  have sub: "set ?batch \<subseteq> set ?ex" by (metis set_sort set_take_subset)
  have "distinct (map px_id (sort_key (\<lambda>r. (get_or (pe_end_time r) 0, px_id r)) ?ex))" using d by (simp add: distinct_map)
  then have db: "distinct (map px_id ?batch)" by (metis distinct_take take_map)
  have "set (filter (\<lambda>r. px_id r \<in> set (map px_id ?batch) \<and> entry_expired cutoff r) rows) = set ?batch"
  proof (rule set_eqI)
    fix r
    have "r \<in> set ?batch" if r: "r \<in> set rows" "px_id r \<in> px_id ` set ?batch" for r
    proof -
      from r(2) obtain q where q: "q \<in> set ?batch" "px_id q = px_id r" by auto
      then have "q = r" using assms r(1) sub by (auto simp: distinct_map inj_on_def)
      then show ?thesis using q by simp
    qed
    then show "r \<in> set (filter (\<lambda>r. px_id r \<in> set (map px_id ?batch) \<and> entry_expired cutoff r) rows) \<longleftrightarrow> r \<in> set ?batch" using sub by auto
  qed
  moreover have "distinct (filter (\<lambda>r. px_id r \<in> set (map px_id ?batch) \<and> entry_expired cutoff r) rows)" "distinct ?batch"
    using assms db by (simp_all only: distinct_map distinct_filter)
  ultimately have "length (filter (\<lambda>r. px_id r \<in> set (map px_id ?batch) \<and> entry_expired cutoff r) rows) = length ?batch"
    by (rule same_set_length)
  also have "\<dots> = min n (length ?ex)" by simp
  finally show "fst (purge_expired_entry_batch rows cutoff n) = min n (count_expired_entries rows cutoff)"
    by (simp add: purge_expired_entry_batch_def Let_def count_expired_entries_def) (auto simp: min_def)
qed

definition sample_entries :: "permission_row list" where
  "sample_entries = [\<lparr>pe_permission = ''read'', pe_granted = True, pe_start_time = Some 0, pe_end_time = Some 3, px_id = 1, px_owner = ''bob''\<rparr>,
     \<lparr>pe_permission = ''move'', pe_granted = True, pe_start_time = Some 0, pe_end_time = None, px_id = 2, px_owner = ''bob''\<rparr>]"

theorem permission_cleanup_is_neutral_witness:
  "fst (purge_expired_entry_batch sample_entries 5 10) = 1 \<and>
   effective_permissions (owned ''bob'' (snd (purge_expired_entry_batch sample_entries 5 10))) 6 = {''move''}"
proof -
  have d: "distinct (map px_id sample_entries)" by (simp add: sample_entries_def)
  have "count_expired_entries sample_entries 5 = 1" by (simp add: count_expired_entries_def sample_entries_def entry_expired_def)
  moreover have "effective_permissions (owned ''bob'' sample_entries) 6 = {''move''}"
    by (auto simp: effective_permissions_def owned_def sample_entries_def permission_entry.truncate_def window_active_def)
  ultimately show ?thesis using permission_cleanup_is_neutral[OF d, of 5 6 "''bob''" 10] by simp
qed

end
