(* ===== verification/Admission.thy ===== *)
theory Admission
  imports Documents LoginGuard "HOL-Library.Multiset"
begin

text \<open>
  Admission of connections and requests (\<open>src/include/transport/admission.py\<close>, \<open>handle_connection\<close> of
  \<open>transport/router.py\<close>) and the address a client is known by (\<open>transport/client_address.py\<close>).

  The controller holds two pairs of a total and a count for each key.  What such a pair promises is the locale
  \<open>keyed_counter\<close>, interpreted on connections counted by address and on requests counted by connection.  Connections
  and request threads interleave as steps; each step is one critical section of the controller.
\<close>

section \<open>The controller\<close>

record admission_policy =
  ap_max_connections :: nat
  ap_max_connections_per_ip :: nat
  ap_max_inflight_requests :: nat
  ap_max_inflight_requests_per_connection :: nat
  ap_busy_retry_after_seconds :: nat

record admission_decision =
  ai_allowed :: bool
  ai_scope :: "string option"
  ai_retry_after_seconds :: nat

record 'c admission_controller =
  am_connections :: int
  am_connections_by_ip :: "string \<rightharpoonup> int"
  am_requests :: int
  am_requests_by_connection :: "'c \<rightharpoonup> int"

definition no_load :: "'c admission_controller" where
  "no_load = \<lparr>am_connections = 0, am_connections_by_ip = Map.empty, am_requests = 0, am_requests_by_connection = Map.empty\<rparr>"

definition admitted :: admission_decision where
  "admitted = \<lparr>ai_allowed = True, ai_scope = None, ai_retry_after_seconds = 0\<rparr>"

definition busy :: "admission_policy \<Rightarrow> string \<Rightarrow> admission_decision" where
  "busy pol scope = \<lparr>ai_allowed = False, ai_scope = Some scope, ai_retry_after_seconds = ap_busy_retry_after_seconds pol\<rparr>"

definition acquire_connection ::
  "admission_policy \<Rightarrow> string \<Rightarrow> 'c admission_controller \<Rightarrow> admission_decision \<times> 'c admission_controller" where
  "acquire_connection pol ip_address st =
     (if am_connections st \<ge> int (ap_max_connections pol) then (busy pol ''server_connections'', st)
      else (let ip_connections = get_or (am_connections_by_ip st ip_address) 0
            in if ip_connections \<ge> int (ap_max_connections_per_ip pol) then (busy pol ''ip_connections'', st)
               else (admitted, st\<lparr>am_connections := am_connections st + 1,
                  am_connections_by_ip := (am_connections_by_ip st)(ip_address \<mapsto> ip_connections + 1)\<rparr>)))"

text \<open>A release returns \<open>False\<close> when it ends with a \<open>KeyError\<close>; the total is already lowered then.\<close>

definition release_connection :: "string \<Rightarrow> 'c admission_controller \<Rightarrow> bool \<times> 'c admission_controller" where
  "release_connection ip_address st =
     (let st1 = st\<lparr>am_connections := am_connections st - 1\<rparr>
      in case am_connections_by_ip st ip_address of None \<Rightarrow> (False, st1)
         | Some n \<Rightarrow> (let remaining = n - 1
             in (True, if remaining \<noteq> 0 then st1\<lparr>am_connections_by_ip := (am_connections_by_ip st)(ip_address \<mapsto> remaining)\<rparr>
                       else st1\<lparr>am_connections_by_ip := (am_connections_by_ip st)(ip_address := None)\<rparr>)))"

definition acquire_request ::
  "admission_policy \<Rightarrow> 'c \<Rightarrow> 'c admission_controller \<Rightarrow> admission_decision \<times> 'c admission_controller" where
  "acquire_request pol connection st =
     (if am_requests st \<ge> int (ap_max_inflight_requests pol) then (busy pol ''server_concurrency'', st)
      else (let connection_requests = get_or (am_requests_by_connection st connection) 0
            in if connection_requests \<ge> int (ap_max_inflight_requests_per_connection pol) then (busy pol ''connection_concurrency'', st)
               else (admitted, st\<lparr>am_requests := am_requests st + 1,
                  am_requests_by_connection := (am_requests_by_connection st)(connection \<mapsto> connection_requests + 1)\<rparr>)))"

definition release_request :: "'c \<Rightarrow> 'c admission_controller \<Rightarrow> bool \<times> 'c admission_controller" where
  "release_request connection st =
     (let st1 = st\<lparr>am_requests := am_requests st - 1\<rparr>
      in case am_requests_by_connection st connection of None \<Rightarrow> (False, st1)
         | Some n \<Rightarrow> (let remaining = n - 1
             in (True, if remaining \<noteq> 0 then st1\<lparr>am_requests_by_connection := (am_requests_by_connection st)(connection \<mapsto> remaining)\<rparr>
                       else st1\<lparr>am_requests_by_connection := (am_requests_by_connection st)(connection := None)\<rparr>)))"

section \<open>Connections and request threads\<close>

text \<open>The server with its open connections, the address each was admitted with, and the connection of every running
  request thread.  \<open>ld_key_errors\<close> counts releases that fail.\<close>

record 'c server_load =
  ld_controller :: "'c admission_controller"
  ld_open :: "('c \<times> string) list"
  ld_running :: "'c list"
  ld_key_errors :: nat

definition idle_server :: "'c server_load" where
  "idle_server = \<lparr>ld_controller = no_load, ld_open = [], ld_running = [], ld_key_errors = 0\<rparr>"

definition open_connection :: "admission_policy \<Rightarrow> 'c \<Rightarrow> string \<Rightarrow> 'c server_load \<Rightarrow> 'c server_load" where
  "open_connection pol c ip_address s =
     (case acquire_connection pol ip_address (ld_controller s) of (d, ctl) \<Rightarrow>
        s\<lparr>ld_controller := ctl, ld_open := (if ai_allowed d then (c, ip_address) # ld_open s else ld_open s)\<rparr>)"

definition end_connection :: "'c \<Rightarrow> string \<Rightarrow> 'c server_load \<Rightarrow> 'c server_load" where
  "end_connection c ip_address s =
     (case release_connection ip_address (ld_controller s) of (ok, ctl) \<Rightarrow>
        s\<lparr>ld_controller := ctl, ld_open := remove1 (c, ip_address) (ld_open s),
          ld_key_errors := (if ok then ld_key_errors s else Suc (ld_key_errors s))\<rparr>)"

definition start_request :: "admission_policy \<Rightarrow> 'c \<Rightarrow> 'c server_load \<Rightarrow> 'c server_load" where
  "start_request pol c s =
     (case acquire_request pol c (ld_controller s) of (d, ctl) \<Rightarrow>
        s\<lparr>ld_controller := ctl, ld_running := (if ai_allowed d then c # ld_running s else ld_running s)\<rparr>)"

definition end_request :: "'c \<Rightarrow> 'c server_load \<Rightarrow> 'c server_load" where
  "end_request c s =
     (case release_request c (ld_controller s) of (ok, ctl) \<Rightarrow>
        s\<lparr>ld_controller := ctl, ld_running := remove1 c (ld_running s),
          ld_key_errors := (if ok then ld_key_errors s else Suc (ld_key_errors s))\<rparr>)"

text \<open>A connection object is new and not that of a thread still running.  A thread that cannot be started is a request
  that ends at once, followed by the end of its connection; a thread may outlive its connection.\<close>

inductive load_run :: "admission_policy \<Rightarrow> 'c server_load \<Rightarrow> bool" for pol where
  idle: "load_run pol idle_server"
| connects: "load_run pol s \<Longrightarrow> c \<notin> fst ` set (ld_open s) \<Longrightarrow> c \<notin> set (ld_running s) \<Longrightarrow> load_run pol (open_connection pol c ip s)"
| disconnects: "load_run pol s \<Longrightarrow> (c, ip) \<in> set (ld_open s) \<Longrightarrow> load_run pol (end_connection c ip s)"
| accepts: "load_run pol s \<Longrightarrow> c \<in> fst ` set (ld_open s) \<Longrightarrow> load_run pol (start_request pol c s)"
| finishes: "load_run pol s \<Longrightarrow> c \<in> set (ld_running s) \<Longrightarrow> load_run pol (end_request c s)"

section \<open>Counters by key\<close>

text \<open>A total and counts that agree with a bag of keys and respect the limits.\<close>

definition counted :: "nat \<Rightarrow> nat \<Rightarrow> int \<Rightarrow> ('k \<rightharpoonup> int) \<Rightarrow> 'k list \<Rightarrow> bool" where
  "counted max_total max_per t m ks \<longleftrightarrow> t = int (length ks) \<and> length ks \<le> max_total \<and>
     (\<forall>k. m k = (if k \<in> set ks then Some (int (count_list ks k)) else None)) \<and> (\<forall>k. count_list ks k \<le> max_per)"

lemma count_list_remove1 [simp]: "count_list (remove1 k ks) j = (if j = k then count_list ks j - 1 else count_list ks j)"
  by (induction ks) auto

lemma count_list_pos: "k \<in> set ks \<Longrightarrow> 0 < count_list ks k"
  by (metis count_list_0_iff gr0I)

locale keyed_counter =
  fixes total :: "'s \<Rightarrow> int" and per :: "'s \<Rightarrow> 'k \<rightharpoonup> int"
    and acquire :: "'k \<Rightarrow> 's \<Rightarrow> bool \<times> 's" and release :: "'k \<Rightarrow> 's \<Rightarrow> bool \<times> 's"
    and max_total max_per :: nat
  assumes granted: "fst (acquire k s) \<longleftrightarrow> total s < int max_total \<and> get_or (per s k) 0 < int max_per"
    and refused: "\<not> fst (acquire k s) \<Longrightarrow> snd (acquire k s) = s"
    and acquired: "fst (acquire k s) \<Longrightarrow> total (snd (acquire k s)) = total s + 1 \<and>
      per (snd (acquire k s)) = (per s)(k \<mapsto> get_or (per s k) 0 + 1)"
    and released: "per s k = Some n \<Longrightarrow> fst (release k s) \<and> total (snd (release k s)) = total s - 1 \<and>
      per (snd (release k s)) = (per s)(k := if n = 1 then None else Some (n - 1))"
begin

abbreviation good :: "'s \<Rightarrow> 'k list \<Rightarrow> bool" where
  "good s ks \<equiv> counted max_total max_per (total s) (per s) ks"

lemma grants_below_limits:
  "good s ks \<Longrightarrow> fst (acquire k s) \<longleftrightarrow> length ks < max_total \<and> count_list ks k < max_per"
  by (auto simp: granted counted_def get_or_def)

lemma acquire_counted:
  assumes "good s ks"
  shows "good (snd (acquire k s)) (if fst (acquire k s) then k # ks else ks)"
proof (cases "fst (acquire k s)")
  case True
  then show ?thesis using assms acquired[OF True] grants_below_limits[OF assms, of k] by (auto simp: counted_def get_or_def)
next
  case False
  then show ?thesis using assms refused[OF False] by simp
qed

lemma release_counted:
  assumes "good s ks" "k \<in> set ks"
  shows "fst (release k s) \<and> good (snd (release k s)) (remove1 k ks)"
proof -
  have n: "per s k = Some (int (count_list ks k))" using assms by (auto simp: counted_def)
  have pos: "0 < count_list ks k" using assms(2) by (rule count_list_pos)
  have mem: "j \<in> set (remove1 k ks) \<longleftrightarrow> (if j = k then count_list ks k > 1 else j \<in> set ks)" for j
    using count_list_0_iff[of "remove1 k ks" j] count_list_0_iff[of ks j] by auto
  have r: "fst (release k s)" "total (snd (release k s)) = total s - 1"
    "per (snd (release k s)) = (per s)(k := if int (count_list ks k) = 1 then None else Some (int (count_list ks k) - 1))"
    using released[OF n] by auto
  have "total (snd (release k s)) = int (length (remove1 k ks))"
    using assms length_pos_if_in_set[OF assms(2)] by (simp add: counted_def r length_remove1 of_nat_diff Suc_le_eq)
  moreover have "length (remove1 k ks) \<le> max_total" using assms(1) by (auto simp: counted_def length_remove1)
  moreover have "per (snd (release k s)) j = (if j \<in> set (remove1 k ks) then Some (int (count_list (remove1 k ks) j)) else None)" for j
    using assms(1) pos by (auto simp: counted_def r mem)
  moreover have "count_list (remove1 k ks) j \<le> max_per" for j
    using assms(1) by (auto simp: counted_def intro: le_trans[OF diff_le_self])
  ultimately show ?thesis using r(1) by (simp only: counted_def) blast
qed

lemma nothing_counted: "good s [] \<Longrightarrow> total s = 0 \<and> per s = Map.empty"
  by (auto simp: counted_def fun_eq_iff)

end

definition took :: "admission_decision \<times> 's \<Rightarrow> bool \<times> 's" where
  "took r = (ai_allowed (fst r), snd r)"

interpretation connection_counter: keyed_counter am_connections am_connections_by_ip "\<lambda>k s. took (acquire_connection pol k s)"
    release_connection "ap_max_connections pol" "ap_max_connections_per_ip pol"
  for pol
  by unfold_locales (auto simp: took_def acquire_connection_def release_connection_def Let_def busy_def admitted_def split: if_splits)

interpretation request_counter: keyed_counter am_requests am_requests_by_connection "\<lambda>k s. took (acquire_request pol k s)"
    release_request "ap_max_inflight_requests pol" "ap_max_inflight_requests_per_connection pol"
  for pol
  by unfold_locales (auto simp: took_def acquire_request_def release_request_def Let_def busy_def admitted_def split: if_splits)

section \<open>The load stays counted\<close>

definition load_ok :: "admission_policy \<Rightarrow> 'c server_load \<Rightarrow> bool" where
  "load_ok pol s \<longleftrightarrow> ld_key_errors s = 0 \<and>
     counted (ap_max_connections pol) (ap_max_connections_per_ip pol) (am_connections (ld_controller s))
       (am_connections_by_ip (ld_controller s)) (map snd (ld_open s)) \<and>
     counted (ap_max_inflight_requests pol) (ap_max_inflight_requests_per_connection pol) (am_requests (ld_controller s))
       (am_requests_by_connection (ld_controller s)) (ld_running s)"

lemma counter_frames [simp]:
  "am_requests (snd (acquire_connection pol ip st)) = am_requests st"
  "am_requests_by_connection (snd (acquire_connection pol ip st)) = am_requests_by_connection st"
  "am_requests (snd (release_connection ip st)) = am_requests st"
  "am_requests_by_connection (snd (release_connection ip st)) = am_requests_by_connection st"
  "am_connections (snd (acquire_request pol c st)) = am_connections st"
  "am_connections_by_ip (snd (acquire_request pol c st)) = am_connections_by_ip st"
  "am_connections (snd (release_request c st)) = am_connections st"
  "am_connections_by_ip (snd (release_request c st)) = am_connections_by_ip st"
  by (simp_all add: acquire_connection_def release_connection_def acquire_request_def release_request_def Let_def split: option.split)

lemma counted_mset: "mset ks = mset js \<Longrightarrow> counted a b t m ks = counted a b t m js"
proof -
  assume e: "mset ks = mset js"
  then have "length ks = length js" "set ks = set js" by (auto dest: mset_eq_length mset_eq_setD)
  moreover have "count_list ks k = count_list js k" for k using e by (metis count_mset)
  ultimately show ?thesis by (simp add: counted_def)
qed

lemma map_remove1_counted:
  assumes "(c, ip) \<in> set xs"
  shows "counted a b t m (map snd (remove1 (c, ip) xs)) = counted a b t m (remove1 ip (map snd xs))"
  using assms by (intro counted_mset) (simp add: image_mset_Diff)

lemma load_ok_idle [simp]: "load_ok pol idle_server"
  by (simp add: load_ok_def idle_server_def no_load_def counted_def)

lemma load_ok_open: "load_ok pol s \<Longrightarrow> load_ok pol (open_connection pol c ip s)"
  using connection_counter.acquire_counted[where pol = pol and s = "ld_controller s" and ks = "map snd (ld_open s)" and k = ip]
  by (auto simp: load_ok_def open_connection_def took_def case_prod_beta)

lemma load_ok_end: "load_ok pol s \<Longrightarrow> (c, ip) \<in> set (ld_open s) \<Longrightarrow> load_ok pol (end_connection c ip s)"
  using connection_counter.release_counted[where pol = pol and s = "ld_controller s" and ks = "map snd (ld_open s)" and k = ip]
  by (force simp: load_ok_def end_connection_def case_prod_beta map_remove1_counted)

lemma load_ok_start: "load_ok pol s \<Longrightarrow> load_ok pol (start_request pol c s)"
  using request_counter.acquire_counted[where pol = pol and s = "ld_controller s" and ks = "ld_running s" and k = c]
  by (auto simp: load_ok_def start_request_def took_def case_prod_beta)

lemma load_ok_finish: "load_ok pol s \<Longrightarrow> c \<in> set (ld_running s) \<Longrightarrow> load_ok pol (end_request c s)"
  using request_counter.release_counted[where pol = pol and s = "ld_controller s" and ks = "ld_running s" and k = c]
  by (auto simp: load_ok_def end_request_def case_prod_beta)

lemma load_run_ok: "load_run pol s \<Longrightarrow> load_ok pol s"
  by (induction rule: load_run.induct) (simp_all add: load_ok_open load_ok_end load_ok_start load_ok_finish)


definition small_policy :: admission_policy where
  "small_policy = \<lparr>ap_max_connections = 2, ap_max_connections_per_ip = 1, ap_max_inflight_requests = 1,
     ap_max_inflight_requests_per_connection = 1, ap_busy_retry_after_seconds = 1\<rparr>"

lemma small_load: "load_run small_policy (start_request small_policy (1::nat) (open_connection small_policy 1 ''a'' idle_server))"
proof (rule load_run.accepts)
  show "load_run small_policy (open_connection small_policy (1::nat) ''a'' idle_server)"
    by (rule load_run.connects) (auto simp: idle_server_def intro: load_run.idle[unfolded idle_server_def])
qed (simp add: open_connection_def idle_server_def no_load_def acquire_connection_def small_policy_def admitted_def get_or_def Let_def)


section \<open>The address of a client\<close>

text \<open>\<open>_parse_ip\<close>: an IPv6 address that carries an IPv4 address is read as that address.  Zone identifiers are left out.\<close>

definition parse_ip :: "ip_reader \<Rightarrow> string \<Rightarrow> ip option" where
  "parse_ip rd v = map_option (\<lambda>a. case a of V4 w \<Rightarrow> V4 w
     | V6 w \<Rightarrow> if drop_bit 32 w = 0xFFFF then V4 (ucast w) else V6 w) (ir_address rd (strip v))"

fun split_on :: "char \<Rightarrow> string \<Rightarrow> string list" where
  "split_on c [] = [[]]"
| "split_on c (x # xs) = (if x = c then [] # split_on c xs
     else (case split_on c xs of [] \<Rightarrow> [[x]] | w # ws \<Rightarrow> (x # w) # ws))"

fun parse_chain :: "ip_reader \<Rightarrow> string list \<Rightarrow> ip list option" where
  "parse_chain rd [] = Some []"
| "parse_chain rd (v # vs) = (case parse_ip rd v of None \<Rightarrow> None
     | Some a \<Rightarrow> map_option (Cons a) (parse_chain rd vs))"

definition in_any :: "network list \<Rightarrow> ip \<Rightarrow> bool" where
  "in_any nets a \<longleftrightarrow> list_ex (in_network a) nets"

text \<open>\<open>None\<close> is the \<open>ValueError\<close> of an unreadable peer address; \<open>shown\<close> is \<open>str\<close> of an address.\<close>

definition resolve_client_ip ::
  "ip_reader \<Rightarrow> (ip \<Rightarrow> string) \<Rightarrow> network list \<Rightarrow> string \<Rightarrow> string option \<Rightarrow> string option \<Rightarrow> string option" where
  "resolve_client_ip rd shown trusted peer_host forwarded_for real_ip =
     map_option (\<lambda>peer_address.
       if \<not> in_any trusted peer_address then shown peer_address
       else if get_or forwarded_for [] \<noteq> []
       then (case parse_chain rd (split_on (CHR '','') (get_or forwarded_for [])) of
               None \<Rightarrow> shown peer_address
             | Some forwarded_chain \<Rightarrow>
                 (case find (\<lambda>a. \<not> in_any trusted a) (rev (forwarded_chain @ [peer_address])) of
                    Some a \<Rightarrow> shown a
                  | None \<Rightarrow> shown (hd forwarded_chain)))
       else if get_or real_ip [] \<noteq> []
       then (case parse_ip rd (get_or real_ip []) of Some a \<Rightarrow> shown a | None \<Rightarrow> shown peer_address)
       else shown peer_address) (parse_ip rd peer_host)"

lemma split_on_ne [simp]: "split_on c s \<noteq> []"
  by (induction s) (auto split: list.split)

lemma split_on_append: "split_on c (a @ c # b) = split_on c a @ split_on c b"
  by (induction a) (auto split: list.splits)

lemma parse_chain_append:
  "parse_chain rd (xs @ ys) = (case parse_chain rd xs of None \<Rightarrow> None | Some a \<Rightarrow> map_option ((@) a) (parse_chain rd ys))"
proof (induction xs)
  case Nil
  show ?case by (cases "parse_chain rd ys") auto
next
  case (Cons a xs)
  then show ?case by (cases "parse_chain rd ys") (auto split: option.splits)
qed

lemma find_append_hit: "\<exists>x\<in>set xs. P x \<Longrightarrow> find P (xs @ ys) = find P xs"
  by (induction xs) auto

text \<open>C37. What a client puts in front of the entry its proxy adds does not change the address it is known by: when the
  entries after it hold an untrusted address the earlier part of the header has no influence.  The exception is an earlier
  part that is not a list of addresses; the request then counts as the proxy's own.\<close>

theorem forged_forwarding_ignored:
  assumes "parse_ip rd peer_host = Some p" and "in_any trusted p"
    and "parse_chain rd (split_on (CHR '','') tail) = Some chain" and "\<exists>a\<in>set chain. \<not> in_any trusted a" and "tail \<noteq> []"
  shows "resolve_client_ip rd shown trusted peer_host (Some (forged @ '','' @ tail)) real_ip =
    (if parse_chain rd (split_on (CHR '','') forged) = None then Some (shown p)
     else resolve_client_ip rd shown trusted peer_host (Some tail) real_ip)"
proof (cases "parse_chain rd (split_on (CHR '','') forged)")
  case None
  then show ?thesis using assms by (simp add: resolve_client_ip_def split_on_append parse_chain_append get_or_def)
next
  case (Some front)
  have "find (\<lambda>a. \<not> in_any trusted a) (rev chain @ rev front) = find (\<lambda>a. \<not> in_any trusted a) (rev chain)"
    using assms(4) by (intro find_append_hit) simp
  moreover have "find (\<lambda>a. \<not> in_any trusted a) (rev chain) \<noteq> None" using assms(4) by (auto simp: find_None_iff)
  ultimately show ?thesis using Some assms
    by (auto simp: resolve_client_ip_def split_on_append parse_chain_append get_or_def split: option.split)
qed

definition sample_reader :: ip_reader where
  "sample_reader = \<lparr>ir_address = (\<lambda>s. if s = ''p'' then Some (V4 1) else if s = ''c'' then Some (V4 9) else None), ir_network = (\<lambda>_. None)\<rparr>"

lemma sample_strip: "strip ''p'' = ''p''" "strip ''c'' = ''c''" "strip ''x'' = ''x''"
  by code_simp+

theorem forged_forwarding_ignored_witness:
  "resolve_client_ip sample_reader (\<lambda>a. if a = V4 1 then ''p'' else ''c'') [Net4 1 32] ''p'' (Some (''c'' @ '','' @ ''c'')) None = Some ''c'' \<and>
   resolve_client_ip sample_reader (\<lambda>a. if a = V4 1 then ''p'' else ''c'') [Net4 1 32] ''p'' (Some (''x'' @ '','' @ ''c'')) None = Some ''p''"
proof -
  have p: "parse_ip sample_reader ''p'' = Some (V4 1)" "parse_ip sample_reader ''c'' = Some (V4 9)" "parse_ip sample_reader ''x'' = None"
    by (simp_all add: parse_ip_def sample_reader_def sample_strip)
  have t: "in_any [Net4 1 32] (V4 1)" "\<not> in_any [Net4 1 32] (V4 9)" by code_simp+
  have c: "parse_chain sample_reader (split_on (CHR '','') ''c'') = Some [V4 9]" using p by simp
  note r = forged_forwarding_ignored[OF p(1) t(1) c, of "\<lambda>a. if a = V4 1 then ''p'' else ''c''" _ None]
  have "resolve_client_ip sample_reader (\<lambda>a. if a = V4 1 then ''p'' else ''c'') [Net4 1 32] ''p'' (Some ''c'') None = Some ''c''"
    using p t by (simp add: resolve_client_ip_def get_or_def)
  then show ?thesis using r[of "''c''"] r[of "''x''"] p t by simp
qed

end
