(* ===== verification/Router.thy ===== *)
theory Router
  imports Accounts Replay Lockdown Admission
begin

text \<open>
  The way of a request from its first frame to its handler: \<open>handle_request\<close> of \<open>src/include/transport/router.py\<close> with the
  envelope of \<open>transport/connection.py\<close> and \<open>Token.from_raw\<close> of \<open>domains/identity/tokens.py\<close>.

  The router composes the login guard, the account tables, the rate gate, the lockdown state and the replay guard;
  each is the model of its own theory.  The JSON parser, the token library, the request models, the hooks of
  extensions and the handlers themselves are parameters.  One reading of the clock serves the whole request.
\<close>

section \<open>The envelope\<close>

datatype json = JNull | JBool bool | JNum pyfloat | JStr string | JArr "json list" | JObj "(string \<times> json) list"

fun field :: "json \<Rightarrow> string \<Rightarrow> json option" where
  "field (JObj kvs) k = map_of kvs k"
| "field _ _ = None"

fun is_string :: "json \<Rightarrow> bool" where
  "is_string (JStr _) = True"
| "is_string _ = False"

fun is_object :: "json \<Rightarrow> bool" where
  "is_object (JObj _) = True"
| "is_object _ = False"

fun is_number :: "json \<Rightarrow> bool" where
  "is_number (JNum _) = True"
| "is_number _ = False"

definition optional :: "(json \<Rightarrow> bool) \<Rightarrow> json option \<Rightarrow> bool" where
  "optional P v = (case v of None \<Rightarrow> True | Some j \<Rightarrow> P j)"

text \<open>\<open>_REQUEST_ENVELOPE_SCHEMA\<close>; other members are allowed.\<close>

definition valid_envelope :: "json \<Rightarrow> bool" where
  "valid_envelope r \<longleftrightarrow> is_object r \<and> field r ''action'' \<noteq> None \<and> field r ''data'' \<noteq> None \<and>
     optional is_string (field r ''action'') \<and> optional is_object (field r ''data'') \<and>
     optional (\<lambda>j. is_string j \<or> j = JNull) (field r ''username'') \<and> optional (\<lambda>j. is_string j \<or> j = JNull) (field r ''token'') \<and>
     optional is_string (field r ''nonce'') \<and> optional is_number (field r ''timestamp'')"

fun string_or :: "string \<Rightarrow> json option \<Rightarrow> string" where
  "string_or d (Some (JStr s)) = s"
| "string_or d _ = d"

fun number_or :: "pyfloat \<Rightarrow> json option \<Rightarrow> pyfloat" where
  "number_or d (Some (JNum x)) = x"
| "number_or d _ = d"

record envelope =
  nv_action :: string
  nv_data :: json
  nv_token :: string
  nv_nonce :: string
  nv_timestamp :: pyfloat

text \<open>\<open>ConnectionHandler.__init__\<close> after parsing; \<open>None\<close> is a \<open>ValidationError\<close>.  A missing token and an empty one
  are treated alike.\<close>

definition read_envelope :: "json \<Rightarrow> envelope option" where
  "read_envelope r = (if \<not> valid_envelope r then None
     else Some \<lparr>nv_action = string_or [] (field r ''action''), nv_data = get_or (field r ''data'') JNull,
       nv_token = string_or [] (field r ''token''), nv_nonce = string_or [] (field r ''nonce''),
       nv_timestamp = number_or (Fin 0) (field r ''timestamp'')\<rparr>)"

section \<open>Tokens\<close>

datatype jwt_error = ExpiredSignature | InvalidToken

datatype purpose_claim = NoPurpose | IntPurpose int | OtherPurpose

text \<open>The verified claims: the purpose as it stands in the token, whether the authentication context is an
  object with a login method, and the token the validation of its claims gives.\<close>

record raw_claims =
  rw_purpose :: purpose_claim
  rw_has_login_method :: bool
  rw_validated :: "token option"

record jwt_library =
  jw_claimed_user :: "string \<Rightarrow> string option"
  jw_decode :: "string \<Rightarrow> string \<Rightarrow> jwt_error + raw_claims"

definition purpose_flags :: "int \<Rightarrow> token_flag set" where
  "purpose_flags p = (if bit p 0 then {AUTH} else {}) \<union> (if bit p 1 then {POST_AUTH} else {}) \<union>
     (if bit p 2 then {GENERAL} else {}) \<union> (if bit p 3 then {ESCALATED} else {})"

definition token_from_raw :: "jwt_library \<Rightarrow> string \<Rightarrow> string \<Rightarrow> jwt_error + token" where
  "token_from_raw jw raw_token secret = and_then (jw_decode jw raw_token secret) (\<lambda>decoded.
     case (case rw_purpose decoded of NoPurpose \<Rightarrow> Some 0 | IntPurpose p \<Rightarrow> Some p | OtherPurpose \<Rightarrow> None) of
       None \<Rightarrow> Inl InvalidToken
     | Some purpose \<Rightarrow>
         if (bit purpose 0 \<or> bit purpose 1) \<and> (\<not> (purpose = 1 \<or> purpose = 2) \<or> \<not> rw_has_login_method decoded) then Inl InvalidToken
         else (case rw_validated decoded of None \<Rightarrow> Inl InvalidToken
               | Some t \<Rightarrow> if rw_purpose decoded = NoPurpose then Inl InvalidToken else Inr (t\<lparr>tk_purpose := purpose_flags purpose\<rparr>)))"

section \<open>Handlers and the server\<close>

record handler_class =
  hc_requires_auth :: bool
  hc_required_token_purpose :: "token_flag set"
  hc_rate_limit_cost :: int

datatype auth_state = Unauthenticated | Partial | Full

record caller =
  cl_state :: auth_state
  cl_user_id :: "string option"
  cl_token :: "token option"
  cl_permissions :: "string set"

definition anonymous :: caller where
  "anonymous = \<lparr>cl_state = Unauthenticated, cl_user_id = None, cl_token = None, cl_permissions = {}\<rparr>"

record ('p, 'c, 'w) server =
  sv_guard :: guard_state
  sv_accounts :: account_db
  sv_lockdown :: lockdown_world
  sv_rates :: 'p
  sv_nonces :: 'c
  sv_rest :: 'w

text \<open>What ends a handler or a hook early.\<close>

datatype failure = PoolTimeout | PeerClosed | OtherError

datatype conclusion = Code nat | RateLimited gate_decision | LockedDown lockdown_state

record ('p, 'c, 'w) router_env =
  re_reader :: ip_reader
  re_now :: timestamp
  re_clock :: timestamp
  re_parse :: "string \<Rightarrow> json option"
  re_jwt :: jwt_library
  re_provider :: "rate_limit_charge list \<Rightarrow> int \<Rightarrow> 'p \<Rightarrow> (rate_limit_decision \<times> 'p) option"
  re_digest :: "string \<Rightarrow> string"
  re_rate_policy :: request_rate_policy
  re_cache_set :: "string \<Rightarrow> timestamp \<Rightarrow> timestamp option \<Rightarrow> bool \<Rightarrow> timestamp \<Rightarrow> 'c \<Rightarrow> bool \<times> 'c"
  re_time_window :: timestamp
  re_functions :: "string \<Rightarrow> handler_class option"
  re_valid :: "string \<Rightarrow> json \<Rightarrow> bool"
  re_before :: "string \<Rightarrow> caller \<Rightarrow> failure + bool"
  re_handle :: "string \<Rightarrow> caller \<Rightarrow> json \<Rightarrow> ('p, 'c, 'w) server \<Rightarrow> (failure + nat option) \<times> conclusion list \<times> ('p, 'c, 'w) server"
  re_after :: "string \<Rightarrow> caller \<Rightarrow> failure option"

text \<open>What a request leaves: the conclusions sent, whether the connection is closed, the handler that ran, audit
  entries, and the exception that leaves \<open>handle_request\<close>.\<close>

record routed =
  ro_sent :: "conclusion list"
  ro_closed :: bool
  ro_handled :: "(string \<times> caller) option"
  ro_audit :: "(string \<times> nat) list"
  ro_raised :: "failure option"

definition concluding :: "conclusion \<Rightarrow> routed" where
  "concluding r = \<lparr>ro_sent = [r], ro_closed = False, ro_handled = None, ro_audit = [], ro_raised = None\<rparr>"

definition raising :: "failure \<Rightarrow> routed" where
  "raising x = \<lparr>ro_sent = [], ro_closed = False, ro_handled = None, ro_audit = [], ro_raised = Some x\<rparr>"

section \<open>The actions of the server\<close>

text \<open>\<open>available_functions\<close> with the attributes each handler class declares or inherits.\<close>

definition available_functions :: "(string \<times> handler_class) list" where
  "available_functions =
    [(''core.auth.login'', handler_class.make False {GENERAL} 5),
     (''core.auth.token.exchange'', handler_class.make True {AUTH, GENERAL} 2),
     (''core.auth.token.refresh'', handler_class.make True {GENERAL} 2),
     (''core.user.authentication.get'', handler_class.make True {GENERAL} 2),
     (''core.user.authentication.policy.set'', handler_class.make True {ESCALATED} 5),
     (''core.user.authentication.public_key.register'', handler_class.make True {ESCALATED} 5),
     (''core.user.authentication.public_key.update'', handler_class.make True {ESCALATED} 2),
     (''core.user.authentication.public_key.delete'', handler_class.make True {ESCALATED} 3),
     (''core.user.authentication.totp.setup'', handler_class.make True {GENERAL} 20),
     (''core.user.authentication.totp.setup.cancel'', handler_class.make True {GENERAL} 1),
     (''core.user.authentication.totp.setup.confirm'', handler_class.make True {GENERAL} 2),
     (''core.user.authentication.totp.delete'', handler_class.make True {GENERAL} 5),
     (''core.user.authentication.totp.status.get'', handler_class.make True {GENERAL} 1),
     (''core.security.banned_subnet.list'', handler_class.make True {GENERAL} 2),
     (''core.security.banned_subnet.create'', handler_class.make True {GENERAL} 5),
     (''core.security.banned_subnet.update'', handler_class.make True {GENERAL} 5),
     (''core.security.banned_subnet.delete'', handler_class.make True {GENERAL} 5),
     (''core.security.auth_lockout.list'', handler_class.make True {GENERAL} 3),
     (''core.security.auth_lockout.unlock'', handler_class.make True {GENERAL} 10),
     (''core.document.get'', handler_class.make True {GENERAL} 3),
     (''core.document.create'', handler_class.make True {GENERAL} 5),
     (''core.document.upload'', handler_class.make True {GENERAL} 5),
     (''core.document.delete'', handler_class.make True {GENERAL} 5),
     (''core.document.restore'', handler_class.make True {GENERAL} 3),
     (''core.document.purge'', handler_class.make True {GENERAL} 10),
     (''core.document.rename'', handler_class.make True {GENERAL} 3),
     (''core.document.move'', handler_class.make True {GENERAL} 3),
     (''core.document.info.get'', handler_class.make True {GENERAL} 3),
     (''core.document.access_rule.get'', handler_class.make True {GENERAL} 2),
     (''core.document.access_rule.set'', handler_class.make True {GENERAL} 5),
     (''core.document.tag.set'', handler_class.make True {GENERAL} 3),
     (''core.document.revision.list'', handler_class.make True {GENERAL} 2),
     (''core.document.revision.get'', handler_class.make True {GENERAL} 3),
     (''core.document.revision.current.set'', handler_class.make True {GENERAL} 3),
     (''core.document.revision.delete'', handler_class.make True {GENERAL} 5),
     (''core.file.download'', handler_class.make False {GENERAL} 5),
     (''core.file.upload'', handler_class.make False {GENERAL} 5),
     (''core.directory.list'', handler_class.make True {GENERAL} 3),
     (''core.directory.info.get'', handler_class.make True {GENERAL} 3),
     (''core.directory.access_rule.get'', handler_class.make True {GENERAL} 2),
     (''core.directory.access_rule.set'', handler_class.make True {GENERAL} 5),
     (''core.directory.create'', handler_class.make True {GENERAL} 3),
     (''core.directory.delete'', handler_class.make True {GENERAL} 10),
     (''core.directory.restore'', handler_class.make True {GENERAL} 10),
     (''core.directory.purge'', handler_class.make True {GENERAL} 20),
     (''core.directory.rename'', handler_class.make True {GENERAL} 3),
     (''core.directory.move'', handler_class.make True {GENERAL} 3),
     (''core.directory.deleted_item.list'', handler_class.make True {GENERAL} 3),
     (''core.search.query'', handler_class.make True {GENERAL} 3),
     (''core.user.status.set'', handler_class.make True {GENERAL} 3),
     (''core.user.block.create'', handler_class.make True {GENERAL} 3),
     (''core.user.block.delete'', handler_class.make True {GENERAL} 2),
     (''core.user.block.update'', handler_class.make True {GENERAL} 3),
     (''core.user.block.list'', handler_class.make True {GENERAL} 3),
     (''core.user.list'', handler_class.make True {GENERAL} 3),
     (''core.user.create'', handler_class.make True {GENERAL} 5),
     (''core.user.delete'', handler_class.make True {GENERAL} 5),
     (''core.user.rename'', handler_class.make True {GENERAL} 5),
     (''core.user.info.get'', handler_class.make True {GENERAL} 2),
     (''core.user.avatar.get'', handler_class.make True {GENERAL} 3),
     (''core.user.avatar.set'', handler_class.make True {GENERAL} 3),
     (''core.user.group.change'', handler_class.make True {GENERAL} 3),
     (''core.user.permission.change'', handler_class.make True {GENERAL} 3),
     (''core.user.password.set'', handler_class.make True {ESCALATED, POST_AUTH} 10),
     (''core.group.list'', handler_class.make True {GENERAL} 3),
     (''core.group.create'', handler_class.make True {GENERAL} 3),
     (''core.group.delete'', handler_class.make True {GENERAL} 5),
     (''core.group.rename'', handler_class.make True {GENERAL} 5),
     (''core.group.info.get'', handler_class.make True {GENERAL} 3),
     (''core.group.permission.change'', handler_class.make True {GENERAL} 3),
     (''core.access.entry.grant'', handler_class.make True {GENERAL} 3),
     (''core.access.entry.revoke'', handler_class.make True {GENERAL} 2),
     (''core.access.entry.list'', handler_class.make True {GENERAL} 3),
     (''core.server.lockdown.set'', handler_class.make True {GENERAL} 10),
     (''core.audit.entry.list'', handler_class.make True {GENERAL} 3),
     (''core.schedule.task_type.list'', handler_class.make True {GENERAL} 1),
     (''core.schedule.create'', handler_class.make True {GENERAL} 3),
     (''core.schedule.get'', handler_class.make True {GENERAL} 1),
     (''core.schedule.list'', handler_class.make True {GENERAL} 1),
     (''core.schedule.update'', handler_class.make True {GENERAL} 3),
     (''core.schedule.delete'', handler_class.make True {GENERAL} 3),
     (''core.user.key.upload'', handler_class.make True {GENERAL} 2),
     (''core.user.key.get'', handler_class.make True {GENERAL} 1),
     (''core.user.key.delete'', handler_class.make True {GENERAL} 2),
     (''core.user.preferred_dek.set'', handler_class.make True {GENERAL} 2),
     (''core.user.key.list'', handler_class.make True {GENERAL} 2)]"

definition whitelisted_functions :: "string list" where
  "whitelisted_functions = [''core.server.info.get'', ''core.auth.login'', ''core.auth.token.exchange'', ''core.auth.token.refresh'',
     ''core.user.authentication.totp.setup.confirm'', ''core.file.upload'', ''core.file.download'', ''core.server.lockdown.set'']"

definition NONCE_MIN_LENGTH :: nat where
  "NONCE_MIN_LENGTH = 16"

section \<open>The stages of a request\<close>

text \<open>Who sends the request: \<open>Inl\<close> is the code of a refusal.\<close>

definition identify :: "('p, 'c, 'w) router_env \<Rightarrow> envelope \<Rightarrow> account_db \<Rightarrow> nat + caller" where
  "identify en e db =
     (if nv_token e = [] then Inr anonymous
      else case jw_claimed_user (re_jwt en) (nv_token e) of None \<Rightarrow> Inl 401
      | Some i \<Rightarrow> (case get_user db i of None \<Rightarrow> Inl 401
      | Some u \<Rightarrow> (case token_from_raw (re_jwt en) (nv_token e) (ua_secret_key u) of Inl _ \<Rightarrow> Inl 401
      | Inr t \<Rightarrow>
          if us_status u \<noteq> ACTIVE then Inl 401
          else Inr (if GENERAL \<in> tk_purpose t
            then \<lparr>cl_state = Full, cl_user_id = Some (us_id u), cl_token = Some t, cl_permissions = permissions_of db u (re_now en)\<rparr>
            else \<lparr>cl_state = Partial, cl_user_id = Some (us_id u), cl_token = Some t, cl_permissions = {}\<rparr>))))"

definition purpose_of :: "caller \<Rightarrow> token_flag set" where
  "purpose_of c = (case cl_token c of None \<Rightarrow> {} | Some t \<Rightarrow> tk_purpose t)"

definition post_auth_misused :: "caller \<Rightarrow> string \<Rightarrow> bool" where
  "post_auth_misused c action \<longleftrightarrow> POST_AUTH \<in> purpose_of c \<and> (purpose_of c \<noteq> {POST_AUTH} \<or> action \<noteq> ''core.user.password.set'')"

definition request_gate :: "('p, 'c, 'w) router_env \<Rightarrow> string \<Rightarrow> string \<Rightarrow> handler_class \<Rightarrow> caller \<Rightarrow> 'p \<Rightarrow> gate_decision \<times> 'p" where
  "request_gate en ip action h c p =
     check_request_rate (re_provider en) (re_digest en) (re_rate_policy en) action (hc_rate_limit_cost h) ip
       (if cl_state c = Full then cl_user_id c else None)
       (cl_state c = Full \<and> ''bypass_request_rate_limit'' \<in> cl_permissions c) p"

definition lockdown_refuses :: "lockdown_state \<Rightarrow> string \<Rightarrow> caller \<Rightarrow> bool" where
  "lockdown_refuses st action c \<longleftrightarrow> ls_enabled st \<and> action \<notin> set whitelisted_functions \<and>
     \<not> (purpose_of c = {POST_AUTH} \<and> action = ''core.user.password.set'') \<and>
     \<not> (cl_state c = Full \<and> ''bypass_lockdown'' \<in> cl_permissions c)"

text \<open>\<open>_validate_replay_protection\<close>: the code of a refusal.\<close>

definition validate_replay_protection :: "('p, 'c, 'w) router_env \<Rightarrow> envelope \<Rightarrow> 'c \<Rightarrow> nat option \<times> 'c" where
  "validate_replay_protection en e cache =
     (if length (nv_nonce e) < NONCE_MIN_LENGTH \<or> nv_nonce e = [] then (Some 400, cache)
      else if nv_timestamp e = Fin 0 then (Some 400, cache)
      else (case validate_and_store (re_cache_set en) (re_time_window en) (nv_nonce e) (nv_timestamp e) (re_now en) (re_clock en) cache of
              (Some _, cache1) \<Rightarrow> (Some 1001, cache1)
            | (None, cache1) \<Rightarrow> (None, cache1)))"

text \<open>An exception during the handler: the pool timeout goes on, a closed connection is only logged, anything else is
  reported to the client.\<close>

definition fail_with :: "failure \<Rightarrow> routed \<Rightarrow> routed" where
  "fail_with x r = (case x of PoolTimeout \<Rightarrow> r\<lparr>ro_raised := Some PoolTimeout\<rparr> | PeerClosed \<Rightarrow> r
     | OtherError \<Rightarrow> r\<lparr>ro_sent := ro_sent r @ [Code 500]\<rparr>)"

definition run_handler ::
  "('p, 'c, 'w) router_env \<Rightarrow> envelope \<Rightarrow> caller \<Rightarrow> ('p, 'c, 'w) server \<Rightarrow> routed \<times> ('p, 'c, 'w) server" where
  "run_handler en e c sv =
     (let action = nv_action e; silent = \<lparr>ro_sent = [], ro_closed = False, ro_handled = None, ro_audit = [], ro_raised = None\<rparr> in
      case re_before en action c of
        Inl x \<Rightarrow> (fail_with x silent, sv)
      | Inr go \<Rightarrow>
          if \<not> go then (silent, sv)
          else (case re_handle en action c (nv_data e) sv of (outcome, sent, sv1) \<Rightarrow>
            (let r = silent\<lparr>ro_sent := sent, ro_handled := Some (action, c)\<rparr> in
             case outcome of Inl x \<Rightarrow> (fail_with x r, sv1)
             | Inr callback \<Rightarrow>
                 (let r1 = r\<lparr>ro_audit := (case callback of None \<Rightarrow> [] | Some code \<Rightarrow> [(action, code)])\<rparr>
                  in (case re_after en action c of None \<Rightarrow> r1 | Some x \<Rightarrow> fail_with x r1, sv1)))))"

definition dispatch ::
  "('p, 'c, 'w) router_env \<Rightarrow> handler_class \<Rightarrow> envelope \<Rightarrow> caller \<Rightarrow> ('p, 'c, 'w) server \<Rightarrow> routed \<times> ('p, 'c, 'w) server" where
  "dispatch en h e c sv =
     (if \<not> re_valid en (nv_action e) (nv_data e) then (concluding (Code 400), sv)
      else if hc_requires_auth h \<and> cl_state c = Unauthenticated
      then ((concluding (Code 401))\<lparr>ro_audit := [(nv_action e, 401)]\<rparr>, sv)
      else if hc_requires_auth h \<and> purpose_of c \<inter> hc_required_token_purpose h = {}
      then ((concluding (Code 403))\<lparr>ro_audit := [(nv_action e, 403)]\<rparr>, sv)
      else run_handler en e c sv)"

definition enter ::
  "('p, 'c, 'w) router_env \<Rightarrow> string \<Rightarrow> handler_class \<Rightarrow> envelope \<Rightarrow> caller \<Rightarrow> ('p, 'c, 'w) server \<Rightarrow> routed \<times> ('p, 'c, 'w) server" where
  "enter en ip h e c sv =
     (case request_gate en ip (nv_action e) h c (sv_rates sv) of (d, p) \<Rightarrow>
      let sv1 = sv\<lparr>sv_rates := p\<rparr> in
      if \<not> gd_allowed d then (concluding (RateLimited d), sv1)
      else case get_state (sv_lockdown sv1) of Inl _ \<Rightarrow> (raising OtherError, sv1)
      | Inr st \<Rightarrow>
          if lockdown_refuses st (nv_action e) c then (concluding (LockedDown st), sv1)
          else if cl_state c = Unauthenticated then dispatch en h e c sv1
          else (case validate_replay_protection en e (sv_nonces sv1) of
                  (Some code, cache) \<Rightarrow> (concluding (Code code), sv1\<lparr>sv_nonces := cache\<rparr>)
                | (None, cache) \<Rightarrow> dispatch en h e c (sv1\<lparr>sv_nonces := cache\<rparr>)))"

text \<open>\<open>handle_request\<close> for the address of the peer and the first frame of the stream, \<open>None\<close> when receiving it
  fails.\<close>

definition handle_request ::
  "('p, 'c, 'w) router_env \<Rightarrow> string \<Rightarrow> string option \<Rightarrow> ('p, 'c, 'w) server \<Rightarrow> routed \<times> ('p, 'c, 'w) server" where
  "handle_request en ip frame sv =
     (case evaluate_subnet_access (re_reader en) ip (re_now en) (sv_guard sv) of (d, g) \<Rightarrow>
      let sv1 = sv\<lparr>sv_guard := g\<rparr> in
      if \<not> td_allowed d then ((concluding (Code 403))\<lparr>ro_closed := True\<rparr>, sv1)
      else case frame of None \<Rightarrow> (raising OtherError, sv1)
      | Some raw \<Rightarrow> (case Option.bind (re_parse en raw) read_envelope of None \<Rightarrow> (concluding (Code 400), sv1)
      | Some e \<Rightarrow> (case identify en e (sv_accounts sv1) of Inl code \<Rightarrow> (concluding (Code code), sv1)
      | Inr c \<Rightarrow>
          if post_auth_misused c (nv_action e) then (concluding (Code 403), sv1)
          else (case re_functions en (nv_action e) of None \<Rightarrow> (concluding (Code 400), sv1)
                | Some h \<Rightarrow> enter en ip h e c sv1))))"

text \<open>\<open>_handle_request_with_admission\<close>: an exhausted pool is answered; the slot of the request is released in any case,
  see \<open>end_request\<close>.\<close>

definition handle_request_with_admission ::
  "('p, 'c, 'w) router_env \<Rightarrow> string \<Rightarrow> string option \<Rightarrow> ('p, 'c, 'w) server \<Rightarrow> routed \<times> ('p, 'c, 'w) server" where
  "handle_request_with_admission en ip frame sv =
     (case handle_request en ip frame sv of (r, sv1) \<Rightarrow>
        (if ro_raised r = Some PoolTimeout then r\<lparr>ro_sent := ro_sent r @ [Code 503], ro_raised := None\<rparr> else r, sv1))"

section \<open>What reaches a handler\<close>

lemma concluding_simps [simp]:
  "ro_sent (concluding x) = [x]" "ro_handled (concluding x) = None" "ro_raised (concluding x) = None" "ro_closed (concluding x) = False"
  "ro_handled (raising y) = None" "ro_raised (raising y) = Some y" "ro_sent (raising y) = []"
  by (simp_all add: concluding_def raising_def)

lemma fail_with_handled [simp]: "ro_handled (fail_with x r) = ro_handled r"
  by (cases x) (simp_all add: fail_with_def)

lemma run_handler_handled: "ro_handled (fst (run_handler en e c sv)) = Some x \<Longrightarrow> x = (nv_action e, c)"
  by (auto simp: run_handler_def Let_def split: sum.splits if_splits prod.splits option.splits)

lemma dispatch_handled:
  "ro_handled (fst (dispatch en h e c sv)) = Some x \<Longrightarrow> x = (nv_action e, c) \<and> re_valid en (nv_action e) (nv_data e) \<and>
     (hc_requires_auth h \<longrightarrow> cl_state c \<noteq> Unauthenticated \<and> purpose_of c \<inter> hc_required_token_purpose h \<noteq> {})"
  by (auto simp: dispatch_def dest: run_handler_handled split: if_splits)

lemma enter_handled:
  assumes "ro_handled (fst (enter en ip h e c sv)) = Some x"
  shows "x = (nv_action e, c) \<and> re_valid en (nv_action e) (nv_data e) \<and>
     (hc_requires_auth h \<longrightarrow> cl_state c \<noteq> Unauthenticated \<and> purpose_of c \<inter> hc_required_token_purpose h \<noteq> {}) \<and>
     gd_allowed (fst (request_gate en ip (nv_action e) h c (sv_rates sv))) \<and>
     (\<exists>st. get_state (sv_lockdown sv) = Inr st \<and> \<not> lockdown_refuses st (nv_action e) c) \<and>
     (cl_state c \<noteq> Unauthenticated \<longrightarrow> fst (validate_replay_protection en e (sv_nonces sv)) = None)"
  using assms by (auto simp: enter_def Let_def dest: dispatch_handled split: prod.splits if_splits sum.splits option.splits)

lemma identify_Inr:
  assumes "identify en e db = Inr c"
  shows "if nv_token e = [] then c = anonymous
    else \<exists>i u t. get_user db i = Some u \<and> us_status u = ACTIVE \<and> token_from_raw (re_jwt en) (nv_token e) (ua_secret_key u) = Inr t \<and>
      cl_user_id c = Some (us_id u) \<and> cl_token c = Some t \<and> cl_state c \<noteq> Unauthenticated \<and>
      (cl_state c = Full \<longleftrightarrow> GENERAL \<in> tk_purpose t) \<and> (cl_permissions c \<noteq> {} \<longrightarrow> cl_state c = Full)"
  using assms by (auto simp: identify_def split: if_splits option.splits sum.splits) blast+

lemma handle_request_handled:
  assumes "ro_handled (fst (handle_request en ip frame sv)) = Some x"
  obtains raw j e c h where "td_allowed (fst (evaluate_subnet_access (re_reader en) ip (re_now en) (sv_guard sv)))"
    "frame = Some raw" "re_parse en raw = Some j" "read_envelope j = Some e" "identify en e (sv_accounts sv) = Inr c"
    "\<not> post_auth_misused c (nv_action e)" "re_functions en (nv_action e) = Some h"
    "ro_handled (fst (enter en ip h e c (sv\<lparr>sv_guard := snd (evaluate_subnet_access (re_reader en) ip (re_now en) (sv_guard sv))\<rparr>))) = Some x"
  using assms
  by (auto simp: handle_request_def Let_def split: prod.splits if_splits option.splits sum.splits bind_splits)

text \<open>C4. A handler runs only for an admitted request: its address is not banned, the action is known and its data valid, the
  rate gate lets it through, and a lockdown is off or does not concern it.  Without a token the caller is anonymous and
  the handler needs no authentication; with one the token verifies under the key of an active account, the nonce is
  accepted, the token has a purpose the handler asks for, and a token for a password change serves nothing else.\<close>

theorem handler_runs_only_for_admitted:
  assumes "ro_handled (fst (handle_request en ip frame sv)) = Some (a, c)"
  shows "td_allowed (fst (evaluate_subnet_access (re_reader en) ip (re_now en) (sv_guard sv))) \<and>
    (\<exists>raw j e h st. frame = Some raw \<and> re_parse en raw = Some j \<and> read_envelope j = Some e \<and> nv_action e = a \<and>
       re_functions en a = Some h \<and> re_valid en a (nv_data e) \<and> gd_allowed (fst (request_gate en ip a h c (sv_rates sv))) \<and>
       get_state (sv_lockdown sv) = Inr st \<and>
       (ls_enabled st \<longrightarrow> a \<in> set whitelisted_functions \<or> (purpose_of c = {POST_AUTH} \<and> a = ''core.user.password.set'') \<or>
          ''bypass_lockdown'' \<in> cl_permissions c) \<and>
       (if nv_token e = [] then c = anonymous \<and> \<not> hc_requires_auth h
        else \<exists>u t. u \<in> set (ad_users (sv_accounts sv)) \<and> us_status u = ACTIVE \<and> cl_user_id c = Some (us_id u) \<and> cl_token c = Some t \<and>
          token_from_raw (re_jwt en) (nv_token e) (ua_secret_key u) = Inr t \<and>
          fst (validate_replay_protection en e (sv_nonces sv)) = None \<and>
          (hc_requires_auth h \<longrightarrow> tk_purpose t \<inter> hc_required_token_purpose h \<noteq> {}) \<and>
          (POST_AUTH \<in> tk_purpose t \<longrightarrow> tk_purpose t = {POST_AUTH} \<and> a = ''core.user.password.set'')))"
proof -
  from assms obtain raw j e c' h where r: "td_allowed (fst (evaluate_subnet_access (re_reader en) ip (re_now en) (sv_guard sv)))"
    "frame = Some raw" "re_parse en raw = Some j" "read_envelope j = Some e" "re_functions en (nv_action e) = Some h"
    and i: "identify en e (sv_accounts sv) = Inr c'" and m: "\<not> post_auth_misused c' (nv_action e)"
    and h: "ro_handled (fst (enter en ip h e c' (sv\<lparr>sv_guard := snd (evaluate_subnet_access (re_reader en) ip (re_now en) (sv_guard sv))\<rparr>))) = Some (a, c)"
    by (rule handle_request_handled)
  note e = enter_handled[OF h, simplified]
  then obtain st where st: "get_state (sv_lockdown sv) = Inr st" "\<not> lockdown_refuses st (nv_action e) c'" by blast
  have caller: "if nv_token e = [] then c = anonymous \<and> \<not> hc_requires_auth h
        else \<exists>u t. u \<in> set (ad_users (sv_accounts sv)) \<and> us_status u = ACTIVE \<and> cl_user_id c = Some (us_id u) \<and> cl_token c = Some t \<and>
          token_from_raw (re_jwt en) (nv_token e) (ua_secret_key u) = Inr t \<and>
          fst (validate_replay_protection en e (sv_nonces sv)) = None \<and>
          (hc_requires_auth h \<longrightarrow> tk_purpose t \<inter> hc_required_token_purpose h \<noteq> {}) \<and>
          (POST_AUTH \<in> tk_purpose t \<longrightarrow> tk_purpose t = {POST_AUTH} \<and> a = ''core.user.password.set'')"
  proof (cases "nv_token e = []")
    case True
    then show ?thesis using identify_Inr[OF i] e by (auto simp: anonymous_def)
  next
    case False
    with identify_Inr[OF i] obtain k u t where u: "get_user (sv_accounts sv) k = Some u" "us_status u = ACTIVE"
      "token_from_raw (re_jwt en) (nv_token e) (ua_secret_key u) = Inr t" "cl_user_id c' = Some (us_id u)" "cl_token c' = Some t"
      "cl_state c' \<noteq> Unauthenticated" by auto
    then have "u \<in> set (ad_users (sv_accounts sv))" by (simp add: get_user_def find_Some_iff) (metis nth_mem)
    then show ?thesis using u e m False by (auto simp: post_auth_misused_def purpose_of_def)
  qed
  show ?thesis using r e st caller by (fastforce simp: lockdown_refuses_def)
qed

section \<open>Refusals\<close>

lemma run_handler_refusal:
  assumes "run_handler en e c sv = (r, sv')" "ro_handled r = None"
  shows "(ro_raised r = None \<and> length (ro_sent r) = 1 \<and> re_before en (nv_action e) c = Inl OtherError) \<or>
    (ro_raised r = None \<and> ro_sent r = [] \<and> re_before en (nv_action e) c \<in> {Inr False, Inl PeerClosed}) \<or>
    (ro_raised r = Some PoolTimeout \<and> re_before en (nv_action e) c = Inl PoolTimeout)"
  using assms
  by (cases "re_before en (nv_action e) c")
    (auto simp: run_handler_def Let_def fail_with_def split: failure.splits if_splits prod.splits sum.splits option.splits)

lemma dispatch_refusal:
  assumes "dispatch en h e c sv = (r, sv')" "ro_handled r = None"
  shows "(ro_raised r = None \<and> length (ro_sent r) = 1) \<or>
    (ro_raised r = None \<and> ro_sent r = [] \<and> re_before en (nv_action e) c \<in> {Inr False, Inl PeerClosed}) \<or>
    (ro_raised r = Some PoolTimeout \<and> re_before en (nv_action e) c = Inl PoolTimeout)"
  using assms run_handler_refusal[of en e c sv r sv'] by (auto simp: dispatch_def split: if_splits)

lemma enter_refusal:
  assumes "enter en ip h e c sv = (r, sv')" "ro_handled r = None"
  shows "(ro_raised r = None \<and> length (ro_sent r) = 1) \<or>
    (ro_raised r = None \<and> ro_sent r = [] \<and> re_before en (nv_action e) c \<in> {Inr False, Inl PeerClosed}) \<or>
    (ro_raised r = Some PoolTimeout \<and> re_before en (nv_action e) c = Inl PoolTimeout) \<or>
    (ro_raised r = Some OtherError \<and> (\<exists>x. get_state (sv_lockdown sv) = Inl x))"
  using assms
  by (auto simp: enter_def Let_def split: prod.splits if_splits sum.splits option.splits dest!: dispatch_refusal)

lemma handle_request_cases:
  assumes "handle_request en ip frame sv = (r, sv')"
  obtains (entered) h e c g where "enter en ip h e c (sv\<lparr>sv_guard := g\<rparr>) = (r, sv')"
  | (answered) "ro_raised r = None" "length (ro_sent r) = 1"
  | (unreceived) "frame = None" "ro_raised r = Some OtherError"
  using assms by (auto simp: handle_request_def Let_def split: prod.splits if_splits option.splits sum.splits)


section \<open>What a token reaches\<close>

definition open_actions :: "string set" where
  "open_actions = {''core.auth.login'', ''core.file.upload'', ''core.file.download''}"

definition credential_actions :: "string set" where
  "credential_actions = {''core.user.password.set'', ''core.user.authentication.policy.set'',
     ''core.user.authentication.public_key.register'', ''core.user.authentication.public_key.update'',
     ''core.user.authentication.public_key.delete''}"

lemma available_functions_table:
  "list_all (\<lambda>(a, h). (\<not> hc_requires_auth h \<longrightarrow> a \<in> open_actions) \<and>
     (AUTH \<in> hc_required_token_purpose h \<longrightarrow> a = ''core.auth.token.exchange'') \<and>
     (a \<in> credential_actions \<longrightarrow> hc_requires_auth h \<and> hc_required_token_purpose h \<subseteq> {ESCALATED, POST_AUTH})) available_functions"
  by code_simp


section \<open>Replayed requests\<close>


section \<open>Witnesses\<close>

definition sample_guard :: guard_state where
  "sample_guard = \<lparr>gs_subnets = [], gs_rules = [], gs_loaded = True, gs_traffic = [], gs_account = [], gs_login = [], gs_cache = mc_init 4\<rparr>"

definition bob :: user_account where
  "bob = \<lparr>us_id = ''bob'', us_username = ''bob'', us_status = ACTIVE, us_groups = [], us_rights = [], ua_nickname = None,
     ua_avatar_id = None, ua_last_login = None, ua_created_time = 0, ua_status_comment_id = None, ua_secret_key = ''k''\<rparr>"

definition sample_server :: "(unit, timestamp mem_cache, unit) server" where
  "sample_server = \<lparr>sv_guard = sample_guard,
     sv_accounts = \<lparr>ad_users = [bob], ad_groups = [], ad_blocks = [], ad_comments = [], ad_passwords = [], ad_policies = (\<lambda>_. None)\<rparr>,
     sv_lockdown = \<lparr>lw_states = Map.empty, lw_tasks = [], lw_events = []\<rparr>, sv_rates = (), sv_nonces = mc_init 4, sv_rest = ()\<rparr>"

definition sample_token :: token where
  "sample_token = \<lparr>tk_sub = ''bob'', tk_purpose = {GENERAL}, tk_exp = 900, tk_nbf = 0, tk_iat = 0, tk_auth_context = None\<rparr>"

definition sample_json :: "string \<Rightarrow> json" where
  "sample_json raw = JObj [(''action'', JStr raw), (''data'', JObj []), (''token'', JStr ''t''), (''nonce'', JStr ''0123456789abcdef''),
     (''timestamp'', JNum (Fin 5))]"

definition sample_env :: "(unit, timestamp mem_cache, unit) router_env" where
  "sample_env = \<lparr>re_reader = \<lparr>ir_address = (\<lambda>_. None), ir_network = (\<lambda>_. None)\<rparr>, re_now = 5, re_clock = 5, re_parse = (\<lambda>raw. Some (sample_json raw)),
     re_jwt = \<lparr>jw_claimed_user = (\<lambda>_. Some ''bob''), jw_decode = (\<lambda>_ s. if s = ''k'' then Inr \<lparr>rw_purpose = IntPurpose 4, rw_has_login_method = False,
        rw_validated = Some sample_token\<rparr> else Inl InvalidToken)\<rparr>,
     re_provider = (\<lambda>_ _ _. None), re_digest = id,
     re_rate_policy = \<lparr>rp_mode = Enforce, rp_state_retention_seconds = 60, rp_connection_capacity = 1, rp_connection_refill_tokens = 1,
       rp_connection_refill_period_seconds = 1, rp_ip_capacity = 1, rp_ip_refill_tokens = 1, rp_account_capacity = 1,
       rp_account_refill_tokens = 1, rp_request_refill_period_seconds = 1, rp_action_costs = []\<rparr>,
     re_cache_set = mc_set, re_time_window = 30, re_functions = map_of available_functions, re_valid = (\<lambda>_ _. True),
     re_before = (\<lambda>_ _. Inr True), re_handle = (\<lambda>_ _ _ sv. (Inr None, [Code 200], sv)), re_after = (\<lambda>_ _. None)\<rparr>"

abbreviation bob_calls :: caller where
  "bob_calls \<equiv> \<lparr>cl_state = Full, cl_user_id = Some ''bob'', cl_token = Some (sample_token\<lparr>tk_purpose := {GENERAL}\<rparr>), cl_permissions = {}\<rparr>"

lemma sample_envelope: "Option.bind (re_parse sample_env a) read_envelope =
  Some \<lparr>nv_action = a, nv_data = JObj [], nv_token = ''t'', nv_nonce = ''0123456789abcdef'', nv_timestamp = Fin 5\<rparr>"
  by (simp add: sample_env_def sample_json_def read_envelope_def valid_envelope_def optional_def get_or_def)

lemma sample_caller: "nv_token e = ''t'' \<Longrightarrow> identify sample_env e (sv_accounts sample_server) = Inr bob_calls"
proof -
  have "bit (4::int) 2" "\<not> bit (4::int) 0" "\<not> bit (4::int) 1" "\<not> bit (4::int) 3" by code_simp+
  then have t: "token_from_raw (re_jwt sample_env) ''t'' ''k'' = Inr (sample_token\<lparr>tk_purpose := {GENERAL}\<rparr>)"
    by (simp add: token_from_raw_def sample_env_def purpose_flags_def and_then_def)
  have p: "permissions_of (sv_accounts sample_server) bob (re_now sample_env) = {}" by code_simp
  assume "nv_token e = ''t''"
  moreover have "get_user (sv_accounts sample_server) ''bob'' = Some bob" by (simp add: sample_server_def get_user_def bob_def)
  moreover have "jw_claimed_user (re_jwt sample_env) ''t'' = Some ''bob''" by (simp add: sample_env_def)
  moreover have "us_status bob = ACTIVE" "us_id bob = ''bob''" "ua_secret_key bob = ''k''" by (simp_all add: bob_def)
  ultimately show ?thesis using t p by (simp add: identify_def)
qed

lemma sample_handled:
  assumes "re_functions sample_env a = Some h" "hc_required_token_purpose h = {GENERAL}" "a \<noteq> ''core.user.password.set''"
  shows "ro_handled (fst (handle_request sample_env ip (Some a) sample_server)) = Some (a, bob_calls)"
proof -
  let ?e = "\<lparr>nv_action = a, nv_data = JObj [], nv_token = ''t'', nv_nonce = ''0123456789abcdef'', nv_timestamp = Fin 5\<rparr>"
  let ?g = "snd (evaluate_subnet_access (re_reader sample_env) ip (re_now sample_env) (sv_guard sample_server))"
  have g: "td_allowed (fst (evaluate_subnet_access (re_reader sample_env) ip (re_now sample_env) (sv_guard sample_server)))"
    by (simp add: evaluate_subnet_access_def sample_env_def sample_server_def sample_guard_def Let_def)
  have "fst (validate_replay_protection sample_env ?e (sv_nonces sample_server)) = None" by code_simp
  then obtain cache where v: "validate_replay_protection sample_env ?e (sv_nonces sample_server) = (None, cache)" by (metis prod.collapse)
  have s: "get_state (sv_lockdown sample_server) = Inr no_lockdown"
    by (simp add: get_state_def sample_server_def read_lockdown_state_def read_system_state_def and_then_def)
  have r: "request_gate sample_env ip a h bob_calls () = (gate_open, ())"
    by (simp add: request_gate_def check_request_rate_def evaluate_gate_def sample_env_def)
  have d: "ro_handled (fst (dispatch sample_env h ?e bob_calls sv)) = Some (a, bob_calls)" for sv
    using assms(2) by (simp add: dispatch_def run_handler_def sample_env_def purpose_of_def)
  have "ro_handled (fst (enter sample_env ip h ?e bob_calls (sample_server\<lparr>sv_guard := ?g\<rparr>))) = Some (a, bob_calls)"
    using v s r d by (simp add: enter_def Let_def gate_open_def lockdown_refuses_def no_lockdown_def split: prod.split option.split)
  moreover have "\<not> post_auth_misused bob_calls a" by (simp add: post_auth_misused_def purpose_of_def)
  ultimately show ?thesis using g assms(1) sample_envelope[of a] sample_caller[of ?e]
    by (simp add: handle_request_def Let_def case_prod_beta)
qed

lemma sample_listing: "re_functions sample_env ''core.directory.list'' = Some (handler_class.make True {GENERAL} 3)"
  by code_simp

theorem handler_runs_only_for_admitted_witness:
  "\<exists>h. re_functions sample_env ''core.directory.list'' = Some h \<and> gd_allowed (fst (request_gate sample_env [] ''core.directory.list'' h bob_calls ()))"
  using handler_runs_only_for_admitted[OF sample_handled[OF sample_listing, of "[]"]]
  by (auto simp: handler_class.defs sample_server_def)




end
