(* ===== verification/Spec2Isabelle.thy ===== *)
theory Spec2Isabelle
  imports Prelude Caching Replay RateLimits AccessRules AccessStore Identity AccessEval FileTasks Lockdown
    Multiplexing AuthPolicy AuthCommands AuthFlow Triggers Scheduling SchedulingInvariants LoginGuard
    TransferLimits DocumentStore DeletionTree DocumentFiles Directories DirectoryTree Listing
    Documents DocumentTree Uploads Accounts AccountTables
    Admission Router
begin

text \<open>
  CFMS on WebSocket: a confidential file management server.  Clients hold one WebSocket connection
  on which requests travel as multiplexed streams; a request passes the replay guard and the rate
  gate, is authenticated by a token that a login attempt issued, is authorised against access rules,
  and then reads or changes documents, transfer tasks, schedules and the server's own lockdown state,
  all kept in one SQL database.  Paths below are under \<open>src/include/\<close>.

  \<^bold>\<open>Reading the model.\<close>  A table is a list of records, a dictionary an association list in
  insertion order, a timestamp or an amount of tokens an exact rational (rounding of floats is not
  modelled), the clock an argument, and an exception the \<^const>\<open>Inl\<close> of an error type.  One
  transaction of the program is one function on the database.  Where the program reads, computes and
  then writes under a condition, other transactions may commit in between; such code takes those
  rivals as an argument (a list with the state changes that happen at each gap) or is a step of an
  inductive relation that interleaves all parties.  Code outside the repository is a parameter:
  hashing and identifiers, the verification of a credential (\<open>AuthFlow\<close>), the trigger library and
  registered tasks (\<open>Scheduling\<close>), the policy values read from configuration.  The hypotheses on
  such parameters are named: \<open>registry_ok\<close> (a registered method only offers credentials of its own
  name, the documented contract of a provider) for the authentication theorems and injectivity or
  freshness of identifiers where a theorem needs it.

  \<^bold>\<open>Theories.\<close>
  \<^item> \<open>Prelude\<close>: ordered dictionaries, the error monad, maximum with Python's tie rule.
  \<^item> \<open>Caching\<close> (\<open>providers/caching/memory.py\<close>): the LRU cache with expiry.  The locale \<open>ttl_cache\<close>
    states what a client may rely on: what a conditional store keeps and when it refuses.
  \<^item> \<open>Replay\<close> (\<open>domains/security/guards/replay.py\<close>): the nonce store, proved over \<open>ttl_cache\<close> in the
    locale \<open>nonce_cache\<close> and interpreted on the cache.  Replays are refused as long as fewer other
    nonces than the cache holds were stored in between; at that number the guarantee ends.
  \<^item> \<open>RateLimits\<close> (\<open>guards/rate_limits.py\<close>, \<open>guards/request_rate_control.py\<close>,
    \<open>providers/rate_limits/memory.py\<close>): both kinds of token bucket are instances of the locale
    \<open>token_bucket\<close>, which carries the bound on what any run of requests is granted; the gate refuses
    exactly when a charge is not covered.
  \<^item> \<open>TransferLimits\<close> (\<open>domains/documents/creation_limits.py\<close>, \<open>download_limits.py\<close> and their risk
    assessments): the priced checks before a document is created or downloaded.  The bound on what an
    account can create rests on the contract of the token bucket; the delay advertised to a refused
    client is shown to be too short.
  \<^item> \<open>LoginGuard\<close> (\<open>guards/login.py\<close>): banned subnets and the throttles on failed authentication with
    their lock cache.  A lock in the tables is never overlooked, and the tries on one account are
    spaced by the delays of its throttle whatever addresses they come from.
  \<^item> \<open>AccessRules\<close>, \<open>AccessStore\<close> (\<open>domains/access/authorization/access_rules.py\<close>,
    \<open>compiled_rules.py\<close>): rule documents, compilation, the three rule tables.  Compiled rules mean
    what the documents say, replacing the rules of a target takes effect for it and for nothing
    else, the batch loader agrees with the single query, repair removes every mismatch.
  \<^item> \<open>Identity\<close> (\<open>database/models/identity.py\<close>): effective groups and permissions.
  \<^item> \<open>AccessEval\<close> (\<open>evaluation.py\<close>, \<open>grants.py\<close>, \<open>searchable_tree.py\<close>): the decision for an object
    and for many folders at once; the loop over ancestors is a function on the finite set of rows
    the recursive query can still add, so a cyclic hierarchy terminates too.
  \<^item> \<open>FileTasks\<close> (\<open>domains/documents/commands/file_tasks.py\<close>): upload and download tasks as a state
    machine over rows; claims exclude each other, finished tasks stay finished.
  \<^item> \<open>DocumentStore\<close> (\<open>database/models/documents.py\<close>, \<open>database/session.py\<close>,
    \<open>domains/documents/commands/name_conflicts.py\<close>): the tables of documents and directories.  Queries do not see
    deleted nodes unless they ask for them; the walk to an ancestor keeps the set of visited folders and so ends on a
    cycle; the walk over parent revisions has the number of revisions as fuel, beyond which one would repeat.
  \<^item> \<open>DeletionTree\<close> (\<open>domains/documents/queries/deletion_tree.py\<close>): what of a subtree may be deleted.  The recursive
    query is unrolled with as many levels as there are nodes, which suffices without a cycle; the plan is proved exact
    and ordered from the leaves up.
  \<^item> \<open>DocumentFiles\<close> (\<open>queries/file_references.py\<close>, \<open>queries/revisions.py\<close>, \<open>commands/bulk_purge.py\<close>,
    \<open>commands/revision_deletion.py\<close>, \<open>commands/upload_cleanup.py\<close>): reference counts and the removal of documents,
    revisions and files.  The chunked counts equal the number of references, a purge removes exactly what nobody else
    uses, and the clean-up of abandoned uploads spares everything active.
  \<^item> \<open>Directories\<close>, \<open>DirectoryTree\<close> (\<open>domains/documents/handlers/directories.py\<close>): the requests on directories, each a
    function from the store to a reply and a store.  For every sequence of requests other than restoring, the folders stay
    a tree and active folders stay reachable; deleting and restoring is the identity on the hierarchy.  Restoring elsewhere
    can build a cycle, fails needlessly on conflicts, and purging can remove what the plan protects.  A cascade is
    unrolled as often as there are rows, which reaches its fixed point.
  \<^item> \<open>Listing\<close> (\<open>domains/pagination.py\<close>, \<open>queries/listing.py\<close>): cursors and pages.  The locale \<open>paged_listing\<close> is what a
    listing promises (after a key it fetches a piece of one strictly ordered list) and carries the proof that following
    cursors is complete; it is interpreted on the listing of a directory and on that of its recycle bin.  The encryption
    of cursors is a parameter with the hypothesis \<open>codec_ok\<close>: a token decrypts to what was encrypted and is not longer
    than the server accepts.
  \<^item> \<open>Documents\<close>, \<open>DocumentTree\<close>, \<open>Uploads\<close> (\<open>domains/documents/handlers/documents.py\<close>, \<open>revisions.py\<close>): the requests
    on documents and revisions, each a function from the store and the rate limit tables to a reply and both.  Tags read
    back as they were accepted; mixed with directory requests in any order the hierarchy stays a tree; an upload hides
    nothing from readers until it is complete, unless it names an older parent, which can revert the document for good.
  \<^item> \<open>Lockdown\<close> (\<open>database/system_states.py\<close>, \<open>domains/operations/lockdown/\<close>): versioned documents
    and the five lockdown commands with their retry loop.  The abstract specification is the command
    run alone; the refinement theorem says that the loop has that effect at some point between the
    commits of others.  The loop runs at most eight times, as in the source, and a conflict in the
    last round is an error value.
  \<^item> \<open>Multiplexing\<close> (\<open>transport/multiplexing.py\<close>): the frame codec on bytes and the connection as a
    relation \<open>mux_step\<close> on which receiver, writer, stream users and closing threads interleave; the
    consumer of a stream sees an ordered contiguous piece of what was sent on its id.
  \<^item> \<open>AuthPolicy\<close>, \<open>AuthCommands\<close>, \<open>AuthFlow\<close> (\<open>domains/identity/auth/\<close>,
    \<open>domains/identity/commands/auth_policies.py\<close>, \<open>domains/identity/sessions.py\<close>,
    \<open>domains/identity/handlers/auth.py\<close>): chains of authentication steps.  The availability check is
    a search for augmenting paths, whose recursion is bounded by the keys not yet visited; it holds
    exactly when distinct credentials for all steps exist.  A session is issued only when login and
    second-factor policies are both met, and an accepted policy can be met.
  \<^item> \<open>Triggers\<close>, \<open>Scheduling\<close>, \<open>SchedulingInvariants\<close> (\<open>scheduling/\<close>, \<open>database/models/scheduling.py\<close>):
    schedules, executions, leases, outcomes, delivery and the reconciliation of system schedules.
    \<open>Triggers\<close> proves that the binary search over missed occurrences (64 halvings, enough for every
    grace window up to a trillion seconds) finds the latest one; \<open>fires_at\<close> is the documented behaviour
    of the trigger library.  \<open>SchedulingInvariants\<close> shows for every interleaving of transactions that a
    schedule has one unfinished execution at most, that a lease protects its execution, that finished
    executions are final, and that a due schedule is executed.
  \<^item> \<open>Accounts\<close>, \<open>AccountTables\<close> (\<open>domains/identity/handlers/users.py\<close>, \<open>groups.py\<close>, \<open>commands/users.py\<close>,
    \<open>commands/groups.py\<close>, \<open>commands/credentials.py\<close>, \<open>commands/permission_cleanup.py\<close>): the requests on accounts,
    blocks, avatars, passwords and groups.  For every sequence of requests the tables stay well-formed and some account
    stays active; removing expired permission entries changes nobody's rights.
  \<^item> \<open>Admission\<close>, \<open>Router\<close> (\<open>transport/admission.py\<close>, \<open>client_address.py\<close>, \<open>router.py\<close>, \<open>request_handler.py\<close>): how a
    request gets from a connection to its handler.  The locale \<open>keyed_counter\<close> is the contract of a limited count by
    key, interpreted on connections and on requests; under every interleaving the counts are exact.  \<open>handle_request\<close>
    composes the login guard, the accounts, the rate gate, the lockdown and the replay guard of the other theories: a
    handler runs only for a request that passed them all, refusals are answered once, a token opens only its actions,
    and a replayed request is not served.

  \<^bold>\<open>Not modelled.\<close>  The dialog of a file transfer and socket handling (\<open>transport/connection.py\<close>), the
  handlers of keyrings, access entries and the security administration, object storage, the Redis providers (scripts run by
  the Redis server), search (one SQL statement whose meaning is the database engine's), extensions,
  configuration loading, maintenance tools, schema migrations, and cryptography.
\<close>

end
